(* ===== verification/Prelude.thy ===== *)
theory Prelude
  imports Main "HOL-Library.Char_ord" "HOL-Library.List_Lexorder" "HOL-Library.Product_Lexorder"
    "HOL-Library.Option_ord" "HOL-Library.AList" "HOL-Library.Multiset" "HOL-Library.Monad_Syntax"
begin

text \<open>
  Shared vocabulary of the development.  A Python \<open>str\<close> is the list of its UTF-8 bytes
  (\<open>string\<close>, Isabelle's \<open>char\<close> being an 8-bit byte): the lexicographic order of
  List_Lexorder and Char_ord on it is the code-point order Python compares with.  A \<open>bytes\<close>
  value has the same type.  A dictionary is an association list in insertion order, a frozen set
  that the code only sorts or tests is a list read through \<open>set\<close> or \<open>sorted_set\<close>.
  The collections below are the automation every component theory shares.
\<close>

named_theorems agg_simps \<open>evaluation of the small list and dictionary idioms of the source\<close>

type_synonym bytes = string

section \<open>Sets that the source sorts\<close>

text \<open>\<open>sorted(set(xs))\<close>, \<open>sorted({...})\<close>: the ascending duplicate-free list.\<close>

definition sorted_set :: "'a::linorder list \<Rightarrow> 'a list" where
  "sorted_set xs = sort (remdups xs)"

lemma set_sorted_set [simp]: "set (sorted_set xs) = set xs"
  by (simp add: sorted_set_def)

lemma distinct_sorted_set [simp]: "distinct (sorted_set xs)"
  by (simp add: sorted_set_def)

lemma sorted_sorted_set [simp]: "sorted (sorted_set xs)"
  by (simp add: sorted_set_def)

lemma sorted_set_Nil [simp]: "sorted_set [] = []"
  by (simp add: sorted_set_def)

lemma sorted_set_eq_Nil [simp]: "sorted_set xs = [] \<longleftrightarrow> xs = []"
  by (metis set_empty set_sorted_set)

lemma sorted_set_unique:
  assumes "sorted ys" "distinct ys" "set ys = set xs"
  shows "sorted_set xs = ys"
  using assms by (intro sorted_distinct_set_unique) auto

lemma sorted_set_eq_iff: "sorted_set xs = sorted_set ys \<longleftrightarrow> set xs = set ys"
  by (metis distinct_sorted_set set_sorted_set sorted_set_unique sorted_sorted_set)

lemma sorted_set_cong: "set xs = set ys \<Longrightarrow> sorted_set xs = sorted_set ys"
  by (simp add: sorted_set_eq_iff)

lemma sorted_set_id: "sorted xs \<Longrightarrow> distinct xs \<Longrightarrow> sorted_set xs = xs"
  by (rule sorted_set_unique) auto

lemma sorted_set_idem [simp]: "sorted_set (sorted_set xs) = sorted_set xs"
  by (simp add: sorted_set_id)

lemma sorted_set_singleton [simp]: "sorted_set [x] = [x]"
  by (simp add: sorted_set_def)

lemma sort_perm_eq: "mset xs = mset ys \<Longrightarrow> sort xs = sort ys"
  by (intro properties_for_sort) simp_all

section \<open>Dictionaries in insertion order\<close>

text \<open>\<open>d.setdefault(k, v)\<close>: an existing entry stays, a new one is appended.\<close>

definition setdefault :: "'k \<Rightarrow> 'v \<Rightarrow> ('k \<times> 'v) list \<Rightarrow> ('k \<times> 'v) list" where
  "setdefault k v d = (if map_of d k = None then d @ [(k, v)] else d)"

lemma map_of_snoc:
  "map_of (d @ [(k, v)]) x = (case map_of d x of Some y \<Rightarrow> Some y | None \<Rightarrow> if x = k then Some v else None)"
  by (induction d) auto

lemma map_of_setdefault [agg_simps]:
  "map_of (setdefault k v d) x =
     (if x = k \<and> map_of d k = None then Some v else map_of d x)"
  by (auto simp: setdefault_def map_of_snoc simp del: map_of_append split: option.splits)

lemma keys_setdefault [agg_simps]: "fst ` set (setdefault k v d) = insert k (fst ` set d)"
  by (auto simp: setdefault_def map_of_eq_None_iff)

lemma distinct_keys_setdefault [agg_simps]:
  "distinct (map fst d) \<Longrightarrow> distinct (map fst (setdefault k v d))"
  by (auto simp: setdefault_def map_of_eq_None_iff)

text \<open>\<open>d.setdefault(k, set()).add(v)\<close>, with the group read as the list of its members.\<close>

definition group_add :: "'k \<Rightarrow> 'v \<Rightarrow> ('k \<times> 'v list) list \<Rightarrow> ('k \<times> 'v list) list" where
  "group_add k v d =
     AList.update k (case map_of d k of None \<Rightarrow> [v]
                     | Some vs \<Rightarrow> if v \<in> set vs then vs else vs @ [v]) d"

definition group_pairs :: "('k \<times> 'v) list \<Rightarrow> ('k \<times> 'v list) list" where
  "group_pairs ps = foldl (\<lambda>d (k, v). group_add k v d) [] ps"

definition members_of :: "('k \<times> 'v list) list \<Rightarrow> 'k \<Rightarrow> 'v set" where
  "members_of d k = (case map_of d k of None \<Rightarrow> {} | Some vs \<Rightarrow> set vs)"

lemma members_of_Nil [simp]: "members_of [] k = {}"
  by (simp add: members_of_def)

lemma members_of_group_add [agg_simps]:
  "members_of (group_add k v d) x = (if x = k then insert v (members_of d k) else members_of d x)"
  by (auto simp: members_of_def group_add_def update_conv split: option.splits)

lemma members_of_fold_group_add:
  "members_of (foldl (\<lambda>d (k, v). group_add k v d) d ps) x = members_of d x \<union> {v. (x, v) \<in> set ps}"
  by (induction ps arbitrary: d) (auto simp: members_of_group_add split: if_splits)

lemma members_of_group_pairs [agg_simps]: "members_of (group_pairs ps) x = {v. (x, v) \<in> set ps}"
  by (simp add: group_pairs_def members_of_fold_group_add)

lemma keys_group_add [agg_simps]: "fst ` set (group_add k v d) = insert k (fst ` set d)"
  by (simp add: group_add_def dom_update)

lemma keys_fold_group_add:
  "fst ` set (foldl (\<lambda>d (k, v). group_add k v d) d ps) = fst ` set d \<union> fst ` set ps"
proof (induction ps arbitrary: d)
  case Nil
  then show ?case by simp
next
  case (Cons p ps)
  then show ?case by (cases p) (simp add: keys_group_add)
qed

lemma keys_group_pairs [agg_simps]: "fst ` set (group_pairs ps) = fst ` set ps"
  by (simp add: group_pairs_def keys_fold_group_add)

lemma distinct_keys_fold_group_add:
  "distinct (map fst d) \<Longrightarrow> distinct (map fst (foldl (\<lambda>d (k, v). group_add k v d) d ps))"
  by (induction ps arbitrary: d) (auto simp: group_add_def distinct_update)

lemma distinct_keys_group_pairs [simp]: "distinct (map fst (group_pairs ps))"
  by (simp add: group_pairs_def distinct_keys_fold_group_add)

section \<open>Decimal numerals\<close>

text \<open>\<open>str(n)\<close> of a non-negative integer.\<close>

fun show_nat :: "nat \<Rightarrow> string" where
  "show_nat n = (if n < 10 then [char_of (48 + n)] else show_nat (n div 10) @ [char_of (48 + n mod 10)])"

declare show_nat.simps [simp del]

section \<open>Sorting by a key\<close>

lemma sort_key_perm_eq:
  assumes "mset xs = mset ys" "inj_on f (set xs)"
  shows "sort_key f xs = sort_key f ys"
proof -
  have "map f (sort_key f xs) = sort (map f xs)"
    by (rule properties_for_sort [symmetric]) simp_all
  also have "\<dots> = sort (map f ys)"
    using assms(1) by (intro sort_perm_eq) simp
  also have "\<dots> = map f (sort_key f ys)"
    by (rule properties_for_sort) simp_all
  finally have "map f (sort_key f xs) = map f (sort_key f ys)" .
  moreover have "inj_on f (set (sort_key f xs) \<union> set (sort_key f ys))"
    using assms(2) mset_eq_setD [OF assms(1)] by simp
  ultimately show ?thesis by (metis inj_on_map_eq_map)
qed

section \<open>Options\<close>

text \<open>The list of the present values, in order (\<open>[x for x in xs if x is not None]\<close>).\<close>

definition somes :: "'a option list \<Rightarrow> 'a list" where
  "somes xs = List.map_filter (\<lambda>x. x) xs"

lemma somes_simps [simp]:
  "somes [] = []" "somes (None # xs) = somes xs" "somes (Some x # xs) = x # somes xs"
  by (simp_all add: somes_def List.map_filter_def)

lemma set_somes [simp]: "x \<in> set (somes xs) \<longleftrightarrow> Some x \<in> set xs"
  by (induction xs) (auto simp: somes_def List.map_filter_def split: option.splits)

lemma mem_map_of_distinct:
  "distinct (map fst d) \<Longrightarrow> (k, v) \<in> set d \<longleftrightarrow> map_of d k = Some v"
  by (simp add: map_of_eq_Some_iff)

section \<open>A prefix of a sorted set\<close>

lemma set_take_sorted_set:
  "x \<in> set (take n (sorted_set xs)) \<longleftrightarrow> x \<in> set xs \<and> card {y \<in> set xs. y < x} < n"
proof -
  let ?s = "sorted_set xs"
  have below: "card {y \<in> set xs. y < ?s ! i} = i" if i: "i < length ?s" for i
  proof -
    have "{y \<in> set xs. y < ?s ! i} = set (take i ?s)"
    proof (intro set_eqI iffI)
      fix y
      assume "y \<in> {y \<in> set xs. y < ?s ! i}"
      then have "y \<in> set ?s" "y < ?s ! i" by simp_all
      then obtain j where j: "j < length ?s" "?s ! j = y" by (metis in_set_conv_nth)
      have "j < i"
        using \<open>y < ?s ! i\<close> j i sorted_nth_mono [OF sorted_sorted_set [of xs], of i j] by (metis leD not_less)
      then show "y \<in> set (take i ?s)" using j by (metis in_set_conv_nth length_take min_less_iff_conj nth_take)
    next
      fix y
      assume "y \<in> set (take i ?s)"
      then obtain j where j: "j < i" "?s ! j = y" by (metis in_set_conv_nth length_take min_less_iff_conj nth_take)
      have "?s ! j \<le> ?s ! i" using sorted_nth_mono [OF sorted_sorted_set [of xs], of j i] j i by simp
      moreover have "?s ! j \<noteq> ?s ! i" using j i nth_eq_iff_index_eq [OF distinct_sorted_set, of j xs i] by simp
      moreover have "y \<in> set xs" using j i by (metis nth_mem order.strict_trans set_sorted_set)
      ultimately show "y \<in> {y \<in> set xs. y < ?s ! i}" using j by simp
    qed
    then show ?thesis using i by (simp add: distinct_card)
  qed
  show ?thesis
  proof
    assume "x \<in> set (take n ?s)"
    then obtain i where "i < n" "i < length ?s" "?s ! i = x"
      by (metis in_set_conv_nth length_take min_less_iff_conj nth_take)
    then show "x \<in> set xs \<and> card {y \<in> set xs. y < x} < n" using below [of i] by (metis nth_mem set_sorted_set)
  next
    assume a: "x \<in> set xs \<and> card {y \<in> set xs. y < x} < n"
    then have "x \<in> set ?s" by simp
    then obtain i where i: "i < length ?s" "?s ! i = x" by (metis in_set_conv_nth)
    then have "i < n" using a below [of i] by simp
    then show "x \<in> set (take n ?s)" using i by (metis in_set_conv_nth length_take min_less_iff_conj nth_take)
  qed
qed

lemma sorted_take_sorted_set [simp]:
  "sorted (take n (sorted_set xs))" "distinct (take n (sorted_set xs))"
  by (simp_all add: sorted_wrt_take)

lemma length_sorted_set: "length (sorted_set xs) = card (set xs)"
  using distinct_card [OF distinct_sorted_set [of xs]] by simp

lemma card_below_mono:
  "finite A \<Longrightarrow> (\<And>y. y \<in> B \<Longrightarrow> y < b \<Longrightarrow> y \<in> A \<and> y < a) \<Longrightarrow> card {y \<in> B. y < b} \<le> card {y \<in> A. y < a}"
  by (rule card_mono) auto

text \<open>What a prefix dropped has its whole length of smaller members.\<close>

lemma dropped_from_prefix:
  fixes xs :: "'a::linorder list"
  assumes "x \<in> set xs" "x \<notin> set (take n (sorted_set xs))"
  shows "length (take n (sorted_set xs)) = n" "\<And>y. y \<in> set (take n (sorted_set xs)) \<Longrightarrow> y < x"
proof -
  have many: "n \<le> card {y \<in> set xs. y < x}" using assms by (simp add: set_take_sorted_set)
  have "card {y \<in> set xs. y < x} \<le> card (set xs)" by (rule card_mono) auto
  then show "length (take n (sorted_set xs)) = n" using many by (simp add: length_sorted_set)
  fix y
  assume y: "y \<in> set (take n (sorted_set xs))"
  show "y < x"
  proof (rule ccontr)
    assume "\<not> y < x"
    then have "card {z \<in> set xs. z < x} \<le> card {z \<in> set xs. z < y}" by (intro card_below_mono) auto
    then show False using many y by (simp add: set_take_sorted_set)
  qed
qed

text \<open>What a prefix dropped stays dropped: truncating before a union changes nothing.\<close>

lemma take_sorted_set_absorb:
  fixes xs :: "'a::linorder list"
  shows "take n (sorted_set (take n (sorted_set xs) @ zs)) = take n (sorted_set (xs @ zs))"
proof (rule sorted_distinct_set_unique)
  define p where "p = set (take n (sorted_set xs))"
  have p: "p \<subseteq> set xs" by (auto simp: set_take_sorted_set p_def)
  have fin: "finite (p \<union> set zs)" by (simp add: p_def)
  have small: "x \<in> p" if x: "x \<in> set xs" "card {y \<in> p \<union> set zs. y < x} < n" for x
  proof (rule ccontr)
    assume "x \<notin> p"
    then have out: "x \<notin> set (take n (sorted_set xs))" by (simp add: p_def)
    have "card p = n" unfolding p_def
      using dropped_from_prefix(1) [OF x(1) out] distinct_card [OF sorted_take_sorted_set(2), of n xs] by simp
    moreover have "card p \<le> card {y \<in> p \<union> set zs. y < x}"
      using fin dropped_from_prefix(2) [OF x(1) out] by (intro card_mono) (auto simp: p_def)
    ultimately show False using x(2) by simp
  qed
  have wide: "card {y \<in> set xs \<union> set zs. y < x} < n" if "card {y \<in> p \<union> set zs. y < x} < n" for x
  proof -
    have "y \<in> p \<union> set zs" if y: "y \<in> set xs \<union> set zs" "y < x" for y
    proof (cases "y \<in> set xs")
      case True
      have "card {z \<in> p \<union> set zs. z < y} \<le> card {z \<in> p \<union> set zs. z < x}"
        using fin y(2) by (intro card_below_mono) auto
      then show ?thesis using small [OF True] \<open>card {y \<in> p \<union> set zs. y < x} < n\<close> by simp
    next
      case False
      then show ?thesis using y by simp
    qed
    then have "card {y \<in> set xs \<union> set zs. y < x} \<le> card {y \<in> p \<union> set zs. y < x}"
      using fin by (intro card_below_mono) auto
    then show ?thesis using that by simp
  qed
  have narrow: "card {y \<in> p \<union> set zs. y < x} < n" if "card {y \<in> set xs \<union> set zs. y < x} < n" for x
  proof -
    have "card {y \<in> p \<union> set zs. y < x} \<le> card {y \<in> set xs \<union> set zs. y < x}"
      using p by (intro card_below_mono) auto
    then show ?thesis using that by simp
  qed
  have "x \<in> p \<union> set zs \<and> card {y \<in> p \<union> set zs. y < x} < n
      \<longleftrightarrow> x \<in> set xs \<union> set zs \<and> card {y \<in> set xs \<union> set zs. y < x} < n" for x
    using small [of x] wide [of x] narrow [of x] subsetD [OF p, of x] by blast
  then show "set (take n (sorted_set (take n (sorted_set xs) @ zs))) = set (take n (sorted_set (xs @ zs)))"
    by (intro set_eqI) (simp add: set_take_sorted_set [of _ n "_ @ zs"] p_def)
qed simp_all

lemma take_sorted_set_union:
  "take n (sorted_set (take n (sorted_set xs) @ take n (sorted_set ys))) = take n (sorted_set (xs @ ys))"
proof -
  have comm: "sorted_set (as @ bs) = sorted_set (bs @ as)" for as bs :: "'a list" by (rule sorted_set_cong) auto
  have "take n (sorted_set (take n (sorted_set xs) @ take n (sorted_set ys)))
      = take n (sorted_set (take n (sorted_set ys) @ xs))"
    unfolding take_sorted_set_absorb [of n xs] comm [of xs] ..
  also have "\<dots> = take n (sorted_set (xs @ ys))"
    unfolding take_sorted_set_absorb [of n ys] comm [of ys] ..
  finally show ?thesis .
qed

lemma sorted_set_somes_const:
  "xs \<noteq> [] \<Longrightarrow> sorted_set (somes (map (\<lambda>_. x) xs)) = (case x of None \<Rightarrow> [] | Some u \<Rightarrow> [u])"
proof (cases x)
  case None
  have "somes (map (\<lambda>_. None) xs) = []" by (induction xs) simp_all
  then show ?thesis by (simp add: None)
next
  case (Some u)
  assume "xs \<noteq> []"
  then have "set (map (\<lambda>_. Some u) xs) = {Some u}" by (cases xs) auto
  then have "set (somes (map (\<lambda>_. Some u) xs)) = {u}" by (intro set_eqI) (simp only: set_somes, simp)
  then show ?thesis using sorted_set_unique [of "[u]"] by (simp add: Some)
qed

lemma mset_map_filter:
  assumes "mset xs = mset ys"
  shows "mset (filter P xs) = mset (filter P ys)" "mset (map f (filter P xs)) = mset (map f (filter P ys))"
  by (simp_all only: mset_filter mset_map assms)

section \<open>Loops that stop at the first error\<close>

fun traverse :: "('a \<Rightarrow> 'e + 'b) \<Rightarrow> 'a list \<Rightarrow> 'e + 'b list" where
  "traverse f [] = Inr []"
| "traverse f (x # xs) =
     (case f x of Inl e \<Rightarrow> Inl e
      | Inr y \<Rightarrow> (case traverse f xs of Inl e \<Rightarrow> Inl e | Inr ys \<Rightarrow> Inr (y # ys)))"

lemma traverse_Inr: "traverse f xs = Inr ys \<longleftrightarrow> map f xs = map Inr ys"
proof (induction xs arbitrary: ys)
  case Nil
  then show ?case by auto
next
  case (Cons x xs)
  show ?case
  proof (cases ys)
    case Nil
    then show ?thesis by (simp split: sum.splits)
  next
    case (Cons z zs)
    then show ?thesis using Cons.IH [of zs] by (auto split: sum.splits)
  qed
qed

lemma traverse_mem: "traverse f xs = Inr ys \<Longrightarrow> y \<in> set ys \<Longrightarrow> \<exists>x\<in>set xs. f x = Inr y"
proof -
  assume "traverse f xs = Inr ys" "y \<in> set ys"
  then have "Inr y \<in> set (map f xs)" by (simp only: traverse_Inr set_map imageI)
  then show ?thesis by auto
qed

lemma traverse_mem': "traverse f xs = Inr ys \<Longrightarrow> x \<in> set xs \<Longrightarrow> \<exists>y\<in>set ys. f x = Inr y"
proof -
  assume "traverse f xs = Inr ys" "x \<in> set xs"
  then have "f x \<in> set (map Inr ys)" using imageI [of x "set xs" f] by (simp only: traverse_Inr flip: set_map)
  then show ?thesis by auto
qed

lemma traverse_length: "traverse f xs = Inr ys \<Longrightarrow> length ys = length xs"
  unfolding traverse_Inr by (metis length_map)

lemma traverse_Inl: "traverse f xs = Inl e \<Longrightarrow> \<exists>x\<in>set xs. f x = Inl e"
  by (induction xs) (auto split: sum.splits)

lemma traverse_fails: "(\<exists>e. traverse f xs = Inl e) \<longleftrightarrow> (\<exists>x\<in>set xs. \<exists>e. f x = Inl e)"
  by (induction xs) (auto split: sum.splits)

text \<open>The loop on a permutation of its input.\<close>

lemma traverse_perm:
  assumes "traverse f xs = Inr ys" "mset xs = mset xs'"
  obtains ys' where "traverse f xs' = Inr ys'" "mset ys' = mset ys"
proof
  have f: "f x = Inr (projr (f x))" if "x \<in> set xs" for x
    using traverse_mem' [OF assms(1) that] by auto
  have sets: "set xs' = set xs" using assms(2) by (metis mset_eq_setD)
  show "traverse f xs' = Inr (map (projr \<circ> f) xs')"
    unfolding traverse_Inr using f by (simp add: sets)
  have "map f xs = map Inr ys" using assms(1) by (simp add: traverse_Inr)
  then have "map projr (map f xs) = map projr (map Inr ys)" by simp
  then have "ys = map (projr \<circ> f) xs" by (simp add: comp_def)
  then show "mset (map (projr \<circ> f) xs') = mset ys" using assms(2) by simp
qed

text \<open>\<open>str(n)\<close> of any integer.\<close>

definition show_int :: "int \<Rightarrow> string" where
  "show_int i = (if i < 0 then CHR ''-'' # show_nat (nat (- i)) else show_nat (nat i))"

end
