(* ===== verification/Encoding.thy ===== *)
theory Encoding
  imports Prelude
begin

text \<open>
  \<open>common/encoding.py\<close> and \<open>sources/owner_ids.py\<close>: the length-delimited encoding
  every identity hash is taken over, and the owned ids built from it.  \<open>hashlib.sha256\<close> is
  C code outside the repository and is the parameter \<open>H\<close>; nothing is assumed of it.  What
  the code promises is that two equal ids come from equal inputs unless the two owner keys
  themselves collide under \<open>H\<close>; the locale \<open>owner_key\<close> states that once and is
  interpreted on each of the seven key formulas.
\<close>

section \<open>Length-delimited concatenation\<close>

text \<open>\<open>int.to_bytes(k, "big")\<close> for a value that fits.\<close>

fun be_digits :: "nat \<Rightarrow> nat \<Rightarrow> bytes" where
  "be_digits 0 n = []"
| "be_digits (Suc k) n = be_digits k (n div 256) @ [char_of (n mod 256)]"

text \<open>\<open>int.to_bytes\<close> raises OverflowError when the value does not fit.\<close>

definition to_bytes_be :: "nat \<Rightarrow> nat \<Rightarrow> bytes option" where
  "to_bytes_be k n = (if n < 256 ^ k then Some (be_digits k n) else None)"

text \<open>The overflow test without the power, for evaluation.\<close>

fun high_part :: "nat \<Rightarrow> nat \<Rightarrow> nat" where
  "high_part 0 n = n"
| "high_part (Suc k) n = high_part k (n div 256)"

lemma high_part_0: "high_part k n = 0 \<longleftrightarrow> n < 256 ^ k"
  by (induction k arbitrary: n) (auto simp: div_less_iff_less_mult mult.commute)

lemma to_bytes_be_code [code]:
  "to_bytes_be k n = (if high_part k n = 0 then Some (be_digits k n) else None)"
  by (simp add: to_bytes_be_def high_part_0)

definition length_prefix_bytes :: nat where
  "length_prefix_bytes = 8"

fun length_delimited :: "bytes list \<Rightarrow> bytes option" where
  "length_delimited [] = Some []"
| "length_delimited (part # parts) = do {
     prefix \<leftarrow> to_bytes_be length_prefix_bytes (length part);
     rest \<leftarrow> length_delimited parts;
     Some (prefix @ part @ rest)
   }"

definition length_delimited_group :: "bytes list \<Rightarrow> bytes option" where
  "length_delimited_group parts = length_delimited parts"

text \<open>The UTF-8 bytes of a string are the string in this model.\<close>

definition utf8 :: "string \<Rightarrow> bytes" where
  "utf8 text = text"

subsection \<open>A decoder, and injectivity\<close>

definition be_value :: "bytes \<Rightarrow> nat" where
  "be_value bs = foldl (\<lambda>acc c. acc * 256 + of_char c) 0 bs"

lemma length_be_digits [simp]: "length (be_digits k n) = k"
  by (induction k arbitrary: n) auto

lemma be_value_snoc [simp]: "be_value (bs @ [c]) = be_value bs * 256 + of_char c"
  by (simp add: be_value_def)

lemma be_value_digits: "n < 256 ^ k \<Longrightarrow> be_value (be_digits k n) = n"
proof (induction k arbitrary: n)
  case 0
  then show ?case by (simp add: be_value_def)
next
  case (Suc k)
  have "n div 256 < 256 ^ k"
    using Suc.prems by (simp add: less_mult_imp_div_less mult.commute)
  then have "be_value (be_digits k (n div 256)) = n div 256"
    by (rule Suc.IH)
  then show ?case by simp
qed

fun decode_parts :: "nat \<Rightarrow> bytes \<Rightarrow> bytes list option" where
  "decode_parts 0 b = (if b = [] then Some [] else None)"
| "decode_parts (Suc fuel) b =
     (if b = [] then Some []
      else let n = be_value (take length_prefix_bytes b); body = drop length_prefix_bytes b in
        map_option ((#) (take n body)) (decode_parts fuel (drop n body)))"

lemma to_bytes_be_SomeD: "to_bytes_be k n = Some b \<Longrightarrow> length b = k \<and> be_value b = n"
  by (auto simp: to_bytes_be_def be_value_digits split: if_splits)

lemma decode_length_delimited:
  "length_delimited parts = Some b \<Longrightarrow> length parts \<le> fuel \<Longrightarrow> decode_parts fuel b = Some parts"
proof (induction parts arbitrary: b fuel)
  case Nil
  then show ?case by (cases fuel) auto
next
  case (Cons part parts)
  obtain prefix rest where
    prefix: "to_bytes_be length_prefix_bytes (length part) = Some prefix" and
    rest: "length_delimited parts = Some rest" and b: "b = prefix @ part @ rest"
    using Cons.prems(1) by (auto split: Option.bind_splits)
  obtain fuel' where fuel: "fuel = Suc fuel'" "length parts \<le> fuel'"
    using Cons.prems(2) by (cases fuel) auto
  note p = to_bytes_be_SomeD [OF prefix]
  have "b \<noteq> []"
    using p b by (auto simp: length_prefix_bytes_def)
  then show ?case
    using p b fuel Cons.IH [OF rest fuel(2)] by simp
qed

lemma length_delimited_inject:
  assumes "length_delimited ps = Some b" "length_delimited qs = Some b"
  shows "ps = qs"
proof -
  have "decode_parts (max (length ps) (length qs)) b = Some ps"
    using assms(1) by (rule decode_length_delimited) simp
  moreover have "decode_parts (max (length ps) (length qs)) b = Some qs"
    using assms(2) by (rule decode_length_delimited) simp
  ultimately show ?thesis by simp
qed

lemma length_delimited_total:
  "length_delimited ps \<noteq> None \<longleftrightarrow> (\<forall>p\<in>set ps. length p < 256 ^ length_prefix_bytes)"
  by (induction ps) (auto simp: to_bytes_be_def split: Option.bind_splits)

lemma length_of_length_delimited:
  "length_delimited ps = Some b \<Longrightarrow> length b = length_prefix_bytes * length ps + length (concat ps)"
  by (induction ps arbitrary: b) (auto dest!: to_bytes_be_SomeD split: Option.bind_splits)

lemma utf8_inject [simp]: "utf8 a = utf8 b \<longleftrightarrow> a = b"
  by (simp add: utf8_def)

lemma map_utf8_inject [simp]: "map utf8 xs = map utf8 ys \<longleftrightarrow> xs = ys"
  by (simp add: utf8_def [abs_def])

section \<open>Owned ids\<close>

definition encode_source_pointer :: "string \<Rightarrow> string list \<Rightarrow> bytes option" where
  "encode_source_pointer document_path pointer_tokens = do {
     tokens \<leftarrow> length_delimited_group (map utf8 pointer_tokens);
     length_delimited [utf8 document_path, tokens]
   }"

text \<open>
  A parsed YAML or JSON value as far as \<open>x-version\<close> looks at it: absent (the
  \<open>MISSING\<close> sentinel), a string, or another type, named.
\<close>

datatype x_version = XMissing | XString string | XOther string

datatype x_version_error = InvalidXVersionError string

definition normalize_x_version :: "x_version \<Rightarrow> x_version_error + string" where
  "normalize_x_version v = (case v of
     XMissing \<Rightarrow> Inr ''''
   | XString s \<Rightarrow> Inr s
   | XOther type_name \<Rightarrow> Inl (InvalidXVersionError type_name))"

definition schema_owner_key :: "string \<times> string \<times> string \<times> string list \<Rightarrow> bytes option" where
  "schema_owner_key = (\<lambda>(service_id, instance_id, path, tokens). do {
     pointer \<leftarrow> encode_source_pointer path tokens;
     length_delimited [utf8 service_id, utf8 instance_id, pointer]
   })"

definition message_owner_key ::
  "string \<times> string \<times> string \<times> string list \<times> string \<Rightarrow> bytes option" where
  "message_owner_key = (\<lambda>(service_id, instance_id, path, tokens, x_version). do {
     pointer \<leftarrow> encode_source_pointer path tokens;
     length_delimited [utf8 service_id, utf8 instance_id, pointer, utf8 x_version]
   })"

definition inline_payload_key :: "string \<times> string \<times> string list \<Rightarrow> bytes option" where
  "inline_payload_key = (\<lambda>(message_id, path, tokens). do {
     pointer \<leftarrow> encode_source_pointer path tokens;
     length_delimited [utf8 message_id, pointer]
   })"

definition address_owner_key :: "string \<times> string \<times> string \<Rightarrow> bytes option" where
  "address_owner_key = (\<lambda>(broker_id, namespace, address).
     length_delimited [utf8 broker_id, utf8 namespace, utf8 address])"

definition broker_owner_key :: "string \<Rightarrow> bytes option" where
  "broker_owner_key broker_id = length_delimited [utf8 broker_id]"

definition subscription_owner_key :: "string \<times> string \<times> string \<times> string \<Rightarrow> bytes option" where
  "subscription_owner_key = (\<lambda>(broker_id, namespace, topic_id, name).
     length_delimited [utf8 broker_id, utf8 namespace, utf8 topic_id, utf8 name])"

text \<open>\<open>f"<prefix><sha256_hex(key)>"\<close>, or the OverflowError of the key.\<close>

definition owned_id :: "(bytes \<Rightarrow> string) \<Rightarrow> string \<Rightarrow> bytes option \<Rightarrow> string option" where
  "owned_id H prefix key = map_option (\<lambda>k. prefix @ H k) key"

definition schema_owned_id where
  "schema_owned_id H x = owned_id H ''schema:owned:'' (schema_owner_key x)"

definition message_owned_id where
  "message_owned_id H x = owned_id H ''message:owned:'' (message_owner_key x)"

definition inline_payload_schema_id where
  "inline_payload_schema_id H x = owned_id H ''schema:owned:'' (inline_payload_key x)"

definition queue_owned_id where
  "queue_owned_id H x = owned_id H ''queue:owned:'' (address_owner_key x)"

definition topic_owned_id where
  "topic_owned_id H x = owned_id H ''topic:owned:'' (address_owner_key x)"

definition broker_owned_id where
  "broker_owned_id H x = owned_id H ''broker:owned:'' (broker_owner_key x)"

definition subscription_owned_id where
  "subscription_owned_id H x = owned_id H ''subscription:owned:'' (subscription_owner_key x)"

lemmas owned_id_defs = schema_owned_id_def message_owned_id_def inline_payload_schema_id_def
  queue_owned_id_def topic_owned_id_def broker_owned_id_def subscription_owned_id_def owned_id_def

lemma encode_source_pointer_inject:
  "encode_source_pointer p ts = Some b \<Longrightarrow> encode_source_pointer q us = Some b \<Longrightarrow> p = q \<and> ts = us"
  unfolding encode_source_pointer_def length_delimited_group_def
  apply (clarsimp simp: bind_eq_Some_conv simp del: length_delimited.simps)
  apply (drule (1) length_delimited_inject)
  apply (clarsimp simp del: length_delimited.simps)
  apply (drule (1) length_delimited_inject)
  apply simp
  done

text \<open>Two different owner keys with one digest: an explicit collision of the hash.\<close>

definition keys_collide :: "(bytes \<Rightarrow> string) \<Rightarrow> bytes option \<Rightarrow> bytes option \<Rightarrow> bool" where
  "keys_collide H k l \<longleftrightarrow> (case (k, l) of (Some a, Some b) \<Rightarrow> a \<noteq> b \<and> H a = H b | _ \<Rightarrow> False)"

text \<open>The laws a key formula obeys, and what an id built from it then says.\<close>

locale owner_key =
  fixes key :: "'a \<Rightarrow> bytes option"
  assumes key_inject: "key x = Some b \<Longrightarrow> key y = Some b \<Longrightarrow> x = y"
begin

lemma id_eq_cases:
  assumes "owned_id H prefix (key x) = Some i" "owned_id H prefix (key y) = Some i"
  shows "x = y \<or> keys_collide H (key x) (key y)"
proof -
  obtain k l where "key x = Some k" "key y = Some l" "H k = H l"
    using assms by (auto simp: owned_id_def)
  then show ?thesis
    using key_inject [of x k y] by (cases "k = l") (simp_all add: keys_collide_def)
qed

end

interpretation schema_key: owner_key schema_owner_key
  apply unfold_locales
  apply (clarsimp simp: schema_owner_key_def bind_eq_Some_conv simp del: length_delimited.simps split: prod.splits)
  apply (drule (1) length_delimited_inject)
  apply (auto dest: encode_source_pointer_inject simp del: length_delimited.simps)
  done

interpretation message_key: owner_key message_owner_key
  apply unfold_locales
  apply (clarsimp simp: message_owner_key_def bind_eq_Some_conv simp del: length_delimited.simps split: prod.splits)
  apply (drule (1) length_delimited_inject)
  apply (auto dest: encode_source_pointer_inject simp del: length_delimited.simps)
  done

interpretation inline_key: owner_key inline_payload_key
  apply unfold_locales
  apply (clarsimp simp: inline_payload_key_def bind_eq_Some_conv simp del: length_delimited.simps split: prod.splits)
  apply (drule (1) length_delimited_inject)
  apply (auto dest: encode_source_pointer_inject simp del: length_delimited.simps)
  done

interpretation address_key: owner_key address_owner_key
  apply unfold_locales
  apply (clarsimp simp: address_owner_key_def simp del: length_delimited.simps split: prod.splits)
  apply (drule (1) length_delimited_inject)
  apply simp
  done

interpretation broker_key: owner_key broker_owner_key
  apply unfold_locales
  apply (clarsimp simp: broker_owner_key_def simp del: length_delimited.simps)
  apply (drule (1) length_delimited_inject)
  apply simp
  done

interpretation subscription_key: owner_key subscription_owner_key
  apply unfold_locales
  apply (clarsimp simp: subscription_owner_key_def simp del: length_delimited.simps split: prod.splits)
  apply (drule (1) length_delimited_inject)
  apply simp
  done

lemma schema_inline_keys_disjoint:
  "schema_owner_key x = Some b \<Longrightarrow> inline_payload_key y \<noteq> Some b"
  apply (clarsimp simp: schema_owner_key_def inline_payload_key_def bind_eq_Some_conv
      simp del: length_delimited.simps split: prod.splits)
  apply (drule (1) length_delimited_inject)
  apply simp
  done

section \<open>Properties\<close>

text \<open>An owned id identifies the tuple it is built from.  Two schema, message, inline payload,
  queue, topic, broker or subscription ids of one kind are equal only when every field of the two
  owner keys is equal, or the two keys are an explicit SHA-256 collision: no boundary between the
  fields, the path and the pointer tokens can shift.\<close>

theorem owned_ids_identify:
  "(schema_owned_id H s = Some i \<and> schema_owned_id H s' = Some i \<longrightarrow>
      s = s' \<or> keys_collide H (schema_owner_key s) (schema_owner_key s')) \<and>
   (message_owned_id H m = Some i \<and> message_owned_id H m' = Some i \<longrightarrow>
      m = m' \<or> keys_collide H (message_owner_key m) (message_owner_key m')) \<and>
   (inline_payload_schema_id H p = Some i \<and> inline_payload_schema_id H p' = Some i \<longrightarrow>
      p = p' \<or> keys_collide H (inline_payload_key p) (inline_payload_key p')) \<and>
   (queue_owned_id H a = Some i \<and> queue_owned_id H a' = Some i \<longrightarrow>
      a = a' \<or> keys_collide H (address_owner_key a) (address_owner_key a')) \<and>
   (topic_owned_id H a = Some i \<and> topic_owned_id H a' = Some i \<longrightarrow>
      a = a' \<or> keys_collide H (address_owner_key a) (address_owner_key a')) \<and>
   (broker_owned_id H b = Some i \<and> broker_owned_id H b' = Some i \<longrightarrow>
      b = b' \<or> keys_collide H (broker_owner_key b) (broker_owner_key b')) \<and>
   (subscription_owned_id H u = Some i \<and> subscription_owned_id H u' = Some i \<longrightarrow>
      u = u' \<or> keys_collide H (subscription_owner_key u) (subscription_owner_key u'))"
  unfolding schema_owned_id_def message_owned_id_def inline_payload_schema_id_def queue_owned_id_def
    topic_owned_id_def broker_owned_id_def subscription_owned_id_def
  by (intro conjI impI; elim conjE)
    ((rule schema_key.id_eq_cases message_key.id_eq_cases inline_key.id_eq_cases address_key.id_eq_cases
        broker_key.id_eq_cases subscription_key.id_eq_cases; assumption)+)

lemma owned_ids_identify_witness:
  "queue_owned_id (\<lambda>k. k) (''b'', ''n'', ''q'') \<noteq> None \<and>
   queue_owned_id (\<lambda>k. k) (''b'', ''n'', ''q'') \<noteq> queue_owned_id (\<lambda>k. k) (''b'', ''nq'', '''')"
proof -
  have some: "queue_owned_id (\<lambda>k. k) (''b'', ''n'', ''q'') \<noteq> None"
    by (simp add: queue_owned_id_def owned_id_def address_owner_key_def to_bytes_be_def
        length_prefix_bytes_def utf8_def)
  have "queue_owned_id (\<lambda>k. k) (''b'', ''n'', ''q'') \<noteq> queue_owned_id (\<lambda>k. k) (''b'', ''nq'', '''')"
  proof
    assume eq: "queue_owned_id (\<lambda>k. k) (''b'', ''n'', ''q'') = queue_owned_id (\<lambda>k. k) (''b'', ''nq'', '''')"
    obtain i where i: "queue_owned_id (\<lambda>k. k) (''b'', ''n'', ''q'') = Some i" using some by blast
    have "keys_collide (\<lambda>k. k) (address_owner_key (''b'', ''n'', ''q'')) (address_owner_key (''b'', ''nq'', ''''))"
      using owned_ids_identify [where H = "\<lambda>k. k" and a = "(''b'', ''n'', ''q'')" and a' = "(''b'', ''nq'', '''')"
          and i = i] i eq by auto
    then show False by (auto simp: keys_collide_def split: option.splits)
  qed
  then show ?thesis using some by simp
qed

end
