(* ===== verification/SourceModel.thy ===== *)
theory SourceModel
  imports Prelude
begin

text \<open>
  \<open>sources/model.py\<close>: the vocabulary every source kind shares.  A \<open>StrEnum\<close> that the
  program only compares is a datatype; \<open>DiagnosticCode\<close>, a \<open>StrEnum\<close> of some hundred
  members, is its string.  A diagnostic's message text is not modelled, the values interpolated in it
  are (\<open>d_args\<close>).
\<close>

type_synonym source_instance_id = string
type_synonym discovery_scope_id = string
type_synonym diagnostic_code = string

datatype source_kind =
    FILESYSTEM | KUBERNETES | APISIX | APISIX_MEASUREMENT | KAFKA_CONSUMER_STATE
  | KAFKA_SERVICE_MAPPING | EVENT_CATALOG

datatype ingestion_result =
    ACCEPTED | ACCEPTED_WITH_LIMITATIONS | REJECTED_INVALID | REJECTED_UNSUPPORTED | REJECTED_CONFLICT

text \<open>The \<open>NOT_SUPPLIED\<close> sentinel against an explicit, possibly \<open>None\<close>, expectation.\<close>

datatype 'a expectation = NotSupplied | Expected 'a

abbreviation "DC_SERVICE_IDENTITY_UNRESOLVED \<equiv> ''SERVICE_IDENTITY_UNRESOLVED''"
abbreviation "DC_SERVICE_IDENTITY_CONFLICT \<equiv> ''SERVICE_IDENTITY_CONFLICT''"
abbreviation "DC_SERVICE_IDENTITY_INVALID \<equiv> ''SERVICE_IDENTITY_INVALID''"
abbreviation "DC_REFERENCE_LIMIT_EXCEEDED \<equiv> ''REFERENCE_LIMIT_EXCEEDED''"
abbreviation "DC_REFERENCE_CYCLE_UNSUPPORTED \<equiv> ''REFERENCE_CYCLE_UNSUPPORTED''"
abbreviation "DC_REMOTE_REFERENCE_UNSUPPORTED \<equiv> ''REMOTE_REFERENCE_UNSUPPORTED''"
abbreviation "DC_REFERENCE_INVALID \<equiv> ''REFERENCE_INVALID''"
abbreviation "DC_DOCUMENT_PARSE_INVALID \<equiv> ''DOCUMENT_PARSE_INVALID''"
abbreviation "DC_MANIFEST_BINDING_POINTER_INVALID \<equiv> ''MANIFEST_BINDING_POINTER_INVALID''"
abbreviation "DC_MANIFEST_BINDING_UNKNOWN_SOURCE \<equiv> ''MANIFEST_BINDING_UNKNOWN_SOURCE''"
abbreviation "DC_TOMBSTONE_STALE \<equiv> ''TOMBSTONE_STALE''"
abbreviation "DC_TOMBSTONE_SCOPE_MISMATCH \<equiv> ''TOMBSTONE_SCOPE_MISMATCH''"
abbreviation "DC_CANONICAL_MODEL_INVALID \<equiv> ''CANONICAL_MODEL_INVALID''"
abbreviation "DC_SCHEMA_CONTENT_CONFLICT \<equiv> ''SCHEMA_CONTENT_CONFLICT''"
abbreviation "DC_MESSAGE_CONTENT_CONFLICT \<equiv> ''MESSAGE_CONTENT_CONFLICT''"
abbreviation "DC_K8S_RESOURCE_CONFLICT \<equiv> ''K8S_RESOURCE_CONFLICT''"
abbreviation "DC_STALE_INVENTORY_PREDECESSOR \<equiv> ''STALE_INVENTORY_PREDECESSOR''"
abbreviation "DC_K8S_OWNER_UNRESOLVED \<equiv> ''K8S_OWNER_UNRESOLVED''"
abbreviation "DC_K8S_OWNER_INVALID \<equiv> ''K8S_OWNER_INVALID''"
abbreviation "DC_K8S_RESOURCE_UNSUPPORTED \<equiv> ''K8S_RESOURCE_UNSUPPORTED''"
abbreviation "DC_K8S_RESOURCE_INVALID \<equiv> ''K8S_RESOURCE_INVALID''"
abbreviation "DC_K8S_SNAPSHOT_INVALID \<equiv> ''K8S_SNAPSHOT_INVALID''"
abbreviation "DC_K8S_SNAPSHOT_INCOMPLETE \<equiv> ''K8S_SNAPSHOT_INCOMPLETE''"
abbreviation "DC_K8S_LIMIT_EXCEEDED \<equiv> ''K8S_LIMIT_EXCEEDED''"
abbreviation "DC_K8S_CLUSTER_IDENTITY_UNRESOLVED \<equiv> ''K8S_CLUSTER_IDENTITY_UNRESOLVED''"
abbreviation "DC_NO_QUALIFIED_POD_MATCH \<equiv> ''NO_QUALIFIED_POD_MATCH''"
abbreviation "DC_K8S_BACKEND_UNRESOLVED \<equiv> ''K8S_BACKEND_UNRESOLVED''"

record ingestion_diagnostic =
  d_code :: diagnostic_code
  d_args :: "string list"
  d_pointer :: "string option"
  d_source :: "string option"

definition diagnostic ::
  "diagnostic_code \<Rightarrow> string list \<Rightarrow> string option \<Rightarrow> string option \<Rightarrow> ingestion_diagnostic" where
  "diagnostic code args pointer source =
     \<lparr>d_code = code, d_args = args, d_pointer = pointer, d_source = source\<rparr>"

lemma diagnostic_sel [simp]:
  "d_code (diagnostic c a p s) = c" "d_args (diagnostic c a p s) = a"
  "d_pointer (diagnostic c a p s) = p" "d_source (diagnostic c a p s) = s"
  by (simp_all add: diagnostic_def)

lemma diagnostic_eq_iff [simp]:
  "diagnostic c a p s = diagnostic c' a' p' s' \<longleftrightarrow> c = c' \<and> a = a' \<and> p = p' \<and> s = s'"
  by (auto simp: diagnostic_def)

record kubernetes_capture_scope =
  cs_namespaces :: "string list"
  cs_cluster_uid :: string
  cs_revision :: string
  cs_evidence_mode :: string
  cs_captured_at :: string

record source_descriptor =
  sd_source_instance_id :: source_instance_id
  sd_source_kind :: source_kind
  sd_locator :: string
  sd_discovery_scope_id :: discovery_scope_id
  sd_scope_definition_digest :: string
  sd_source_inventory_snapshot_ref :: "string option"
  sd_declared_provider_revision :: "string option"
  sd_content_sha256 :: string
  sd_dependency_closure_digest :: "string option"
  sd_semantic_input_digest :: string
  sd_mapping_context_digest :: string
  sd_declared_service_id :: "string option"
  sd_document_dialect_version :: "string option"
  sd_adapter_identity :: string
  sd_mapping_rule_id :: string
  sd_mapping_rule_version :: string
  sd_capture_scope :: "kubernetes_capture_scope option"

text \<open>Python's \<open>x or y\<close> on an optional string: absent and empty both fall through.\<close>

definition str_or :: "string option \<Rightarrow> string \<Rightarrow> string" where
  "str_or x y = (case x of None \<Rightarrow> y | Some s \<Rightarrow> if s = [] then y else s)"

lemma str_or_simps [simp]: "str_or None y = y" "str_or (Some []) y = y" "str_or (Some (c # s)) y = c # s"
  by (simp_all add: str_or_def)

record filesystem_source_config =
  fs_id :: string
  fs_root :: string
  fs_scope_id :: "string option"
  fs_stable_target_identity :: "string option"

definition fs_resolved_scope_id :: "filesystem_source_config \<Rightarrow> string" where
  "fs_resolved_scope_id c = str_or (fs_scope_id c) (fs_id c)"

definition fs_resolved_stable_target_identity :: "filesystem_source_config \<Rightarrow> string" where
  "fs_resolved_stable_target_identity c =
     str_or (fs_stable_target_identity c) (''urn:aip:logical-root:'' @ fs_id c)"

record kafka_consumer_state_source_config =
  kc_id :: string
  kc_root :: string
  kc_capture_relative_path :: string
  kc_broker_id :: string
  kc_environment :: string
  kc_consumer_groups :: "string list"
  kc_configured_scope_id :: "string option"
  kc_stable_target_identity :: "string option"

text \<open>The field constraints and the after-validator; \<open>False\<close> is pydantic's ValidationError.\<close>

definition kafka_config_valid :: "kafka_consumer_state_source_config \<Rightarrow> bool" where
  "kafka_config_valid c \<longleftrightarrow>
     kc_id c \<noteq> [] \<and> kc_broker_id c \<noteq> [] \<and> kc_environment c \<noteq> [] \<and> kc_consumer_groups c \<noteq> [] \<and>
     (\<forall>group\<in>set (kc_consumer_groups c). group \<noteq> []) \<and>
     card (set (kc_consumer_groups c)) = length (kc_consumer_groups c)"

definition kc_resolved_scope_id :: "kafka_consumer_state_source_config \<Rightarrow> string" where
  "kc_resolved_scope_id c = str_or (kc_configured_scope_id c) (kc_id c)"

definition kc_resolved_stable_target_identity :: "kafka_consumer_state_source_config \<Rightarrow> string" where
  "kc_resolved_stable_target_identity c =
     str_or (kc_stable_target_identity c)
       (''urn:aip:kafka-consumer-state:'' @ kc_broker_id c @ '':'' @ kc_environment c)"

lemma kafka_config_groups_distinct: "kafka_config_valid c \<Longrightarrow> distinct (kc_consumer_groups c)"
  by (auto simp: kafka_config_valid_def card_distinct)

end
