(* ===== verification/CanonicalModel.thy ===== *)
theory CanonicalModel
  imports Encoding SourceModel
begin

text \<open>
  \<open>canonical/model.py\<close>, \<open>canonical/infrastructure.py\<close>, \<open>canonical/pubsub.py\<close>,
  \<open>canonical/api_contracts.py\<close> and the base record of \<open>provenance/model.py\<close>: the data of
  the canonical architecture model.  The twenty gateway, measurement, Kafka and catalog carrier lists,
  which the code handles by iterating over their names, are one field indexed by \<open>carrier_kind\<close>;
  a carrier is its id and its remaining fields.
\<close>

record service =
  svc_id :: string
  svc_name :: string
  svc_version :: "string option"

record operation =
  op_id :: string
  op_service_id :: string
  op_operation_id :: "string option"
  op_method :: string
  op_path :: string
  op_request_schema_ids :: "string list"
  op_response_schema_ids :: "string list"

record queue =
  q_id :: string
  q_name :: string
  q_protocol :: "string option"
  q_namespace :: "string option"
  q_queue_type :: string

record topic =
  t_id :: string
  t_name :: string
  t_protocol :: "string option"
  t_namespace :: "string option"

record subscription =
  sub_id :: string
  sub_name :: string
  sub_protocol :: "string option"
  sub_namespace :: "string option"

record broker =
  br_id :: string
  br_stable_broker_id :: string

record message =
  msg_id :: string
  msg_name :: string
  msg_version :: "string option"
  msg_schema_id :: "string option"
  msg_contract_digest :: "string option"
  msg_document_digest :: "string option"

record schema =
  sch_id :: string
  sch_name :: string
  sch_version :: "string option"
  sch_format :: "string option"
  sch_canonical_hash :: "string option"

record relation =
  rel_type :: string
  rel_source_id :: string
  rel_target_id :: string
  rel_evidence_ids :: "string list"

definition relation_key :: "relation \<Rightarrow> string" where
  "relation_key r = rel_type r @ '':'' @ rel_source_id r @ '':'' @ rel_target_id r"

record provenance =
  prov_id :: string
  prov_source_type :: string
  prov_source_file :: string
  prov_source_revision :: "string option"
  prov_evidence_type :: string

section \<open>Infrastructure facts\<close>

datatype infrastructure_entity_kind =
  KUBERNETES_WORKLOAD | KUBERNETES_POD | KUBERNETES_NETWORK_SERVICE | KUBERNETES_INGRESS

datatype infrastructure_claim_kind =
  WORKLOAD_EXISTS | WORKLOAD_OWNS_POD | NETWORK_SERVICE_SELECTS_WORKLOAD | INGRESS_ROUTES_TO_NETWORK_SERVICE

definition claim_kind_value :: "infrastructure_claim_kind \<Rightarrow> string" where
  "claim_kind_value k = (case k of
     WORKLOAD_EXISTS \<Rightarrow> ''WORKLOAD_EXISTS'' | WORKLOAD_OWNS_POD \<Rightarrow> ''WORKLOAD_OWNS_POD''
   | NETWORK_SERVICE_SELECTS_WORKLOAD \<Rightarrow> ''NETWORK_SERVICE_SELECTS_WORKLOAD''
   | INGRESS_ROUTES_TO_NETWORK_SERVICE \<Rightarrow> ''INGRESS_ROUTES_TO_NETWORK_SERVICE'')"

lemma claim_kind_value_inject [simp]: "claim_kind_value a = claim_kind_value b \<longleftrightarrow> a = b"
  by (cases a; cases b) (simp_all add: claim_kind_value_def)

definition kubernetes_source_type :: string where
  "kubernetes_source_type = ''KUBERNETES''"

definition unary_claim_kinds :: "infrastructure_claim_kind set" where
  "unary_claim_kinds = {WORKLOAD_EXISTS}"

datatype kubernetes_evidence_mode = DECLARED_MANIFEST | CAPTURED_RESOURCE

record infrastructure_port =
  port_name :: "string option"
  port_protocol :: string
  port_port :: int

definition port_sort_key :: "infrastructure_port \<Rightarrow> string \<times> string \<times> int" where
  "port_sort_key p = (str_or (port_name p) '''', port_protocol p, port_port p)"

text \<open>\<open>_check_evidence_refs\<close>: which of the four ValueErrors, if any.\<close>

datatype evidence_refs_error = EmptyRefs | EmptyId | DuplicateRefs | UnsortedRefs

definition check_evidence_refs :: "string list \<Rightarrow> evidence_refs_error + string list" where
  "check_evidence_refs refs =
     (if refs = [] then Inl EmptyRefs
      else if \<exists>ref\<in>set refs. ref = [] then Inl EmptyId
      else if card (set refs) \<noteq> length refs then Inl DuplicateRefs
      else if refs \<noteq> sort refs then Inl UnsortedRefs
      else Inr refs)"

record infrastructure_entity =
  ie_id :: string
  ie_entity_kind :: infrastructure_entity_kind
  ie_cluster_uid :: string
  ie_api_group :: string
  ie_resource_kind :: string
  ie_namespace :: string
  ie_name :: string
  ie_service_type :: "string option"
  ie_ports :: "infrastructure_port list"

definition infrastructure_entity_valid :: "infrastructure_entity \<Rightarrow> bool" where
  "infrastructure_entity_valid e \<longleftrightarrow>
     ie_id e \<noteq> [] \<and> ie_cluster_uid e \<noteq> [] \<and> ie_resource_kind e \<noteq> [] \<and> ie_name e \<noteq> [] \<and>
     (ie_entity_kind e = KUBERNETES_NETWORK_SERVICE \<or> ie_service_type e = None \<and> ie_ports e = []) \<and>
     map port_sort_key (ie_ports e) = sort (map port_sort_key (ie_ports e))"

record infrastructure_contribution =
  ic_entity_id :: string
  ic_source_instance_id :: string
  ic_evidence_mode :: kubernetes_evidence_mode
  ic_resource_semantic_digest :: string
  ic_captured_resource_uid :: "string option"
  ic_service_id_annotation :: "string option"
  ic_captured_at :: "string option"
  ic_evidence_refs :: "string list"
  ic_mapping_rule_id :: string
  ic_mapping_rule_version :: string

definition infrastructure_contribution_valid :: "infrastructure_contribution \<Rightarrow> bool" where
  "infrastructure_contribution_valid c \<longleftrightarrow>
     ic_entity_id c \<noteq> [] \<and> ic_source_instance_id c \<noteq> [] \<and> ic_resource_semantic_digest c \<noteq> [] \<and>
     ic_mapping_rule_id c \<noteq> [] \<and> ic_mapping_rule_version c \<noteq> [] \<and>
     check_evidence_refs (ic_evidence_refs c) = Inr (ic_evidence_refs c)"

record infrastructure_claim =
  cl_kind :: infrastructure_claim_kind
  cl_subject_id :: string
  cl_object_id :: "string option"
  cl_evidence_refs :: "string list"
  cl_mapping_rule_id :: string
  cl_mapping_rule_version :: string

definition infrastructure_claim_valid :: "infrastructure_claim \<Rightarrow> bool" where
  "infrastructure_claim_valid c \<longleftrightarrow>
     cl_subject_id c \<noteq> [] \<and> cl_mapping_rule_id c \<noteq> [] \<and> cl_mapping_rule_version c \<noteq> [] \<and>
     (if cl_kind c \<in> unary_claim_kinds then cl_object_id c = None
      else cl_object_id c \<noteq> None \<and> cl_object_id c \<noteq> Some []) \<and>
     check_evidence_refs (cl_evidence_refs c) = Inr (cl_evidence_refs c)"

text \<open>
  The \<open>id\<close> properties.  The OverflowError of a field of $2^{64}$ bytes, which no Python object
  can reach, is the empty id.
\<close>

definition the_id :: "string option \<Rightarrow> string" where
  "the_id i = (case i of Some s \<Rightarrow> s | None \<Rightarrow> [])"

definition contribution_id :: "(bytes \<Rightarrow> string) \<Rightarrow> infrastructure_contribution \<Rightarrow> string" where
  "contribution_id H c = the_id (owned_id H ''urn:aip:infra-contribution:''
     (length_delimited [utf8 (ic_entity_id c), utf8 (ic_source_instance_id c)]))"

definition claim_id :: "(bytes \<Rightarrow> string) \<Rightarrow> infrastructure_claim \<Rightarrow> string" where
  "claim_id H c = the_id (owned_id H ''urn:aip:infra-claim:''
     (length_delimited [utf8 (claim_kind_value (cl_kind c)), utf8 (cl_subject_id c),
        utf8 (str_or (cl_object_id c) '''')]))"

section \<open>Publish and subscribe carriers\<close>

datatype pubsub_entity_kind = TOPIC | SUBSCRIPTION

record pubsub_declaration =
  pd_entity_id :: string
  pd_entity_kind :: pubsub_entity_kind
  pd_source_instance_id :: string
  pd_source_locator :: string
  pd_source_revision :: "string option"
  pd_source_pointer :: string
  pd_semantic_input_digest :: string
  pd_adapter_identity :: string
  pd_mapping_rule_id :: string
  pd_mapping_rule_version :: string
  pd_broker_id :: "string option"
  pd_namespace :: "string option"
  pd_kind_evidence :: "string list"
  pd_identity_methods :: "string list"
  pd_topic_address :: "string option"
  pd_topic_id :: "string option"
  pd_subscription_name :: "string option"

record dead_letter_configuration =
  dl_subscription_id :: string
  dl_source_instance_id :: string
  dl_source_locator :: string
  dl_source_revision :: "string option"
  dl_source_pointer :: string
  dl_target_token :: string
  dl_target_kind_token :: "string option"

definition declaration_id :: "(bytes \<Rightarrow> string) \<Rightarrow> pubsub_declaration \<Rightarrow> string" where
  "declaration_id H d = the_id (owned_id H ''urn:aip:pubsub-declaration:''
     (length_delimited [utf8 (pd_entity_id d), utf8 (pd_source_instance_id d), utf8 (pd_source_pointer d)]))"

definition dead_letter_id :: "(bytes \<Rightarrow> string) \<Rightarrow> dead_letter_configuration \<Rightarrow> string" where
  "dead_letter_id H d = the_id (owned_id H ''urn:aip:subscription-dlq:''
     (length_delimited [utf8 (dl_subscription_id d), utf8 (dl_source_instance_id d)]))"

section \<open>API contracts and the remaining carriers\<close>

record api_contract =
  ac_id :: string
  ac_openapi_source_instance_id :: string
  ac_limitations :: "string list"

record api_contract_version =
  av_id :: string
  av_contract_id :: string
  av_info_version :: string

record api_contract_association =
  aa_id :: string
  aa_kind :: string
  aa_contract_version_id :: string
  aa_target_id :: string
  aa_evidence_ids :: "string list"

definition api_contract_id :: "(bytes \<Rightarrow> string) \<Rightarrow> string \<Rightarrow> string" where
  "api_contract_id H source = the_id (owned_id H ''api-contract:owned:'' (length_delimited [utf8 source]))"

definition api_contract_version_id :: "(bytes \<Rightarrow> string) \<Rightarrow> string \<Rightarrow> string \<Rightarrow> string" where
  "api_contract_version_id H contract version =
     the_id (owned_id H ''api-contract-version:owned:'' (length_delimited [utf8 contract, utf8 version]))"

definition api_contract_association_id :: "(bytes \<Rightarrow> string) \<Rightarrow> string \<Rightarrow> string \<Rightarrow> string \<Rightarrow> string" where
  "api_contract_association_id H kind version target =
     the_id (owned_id H ''api-contract-association:owned:''
       (length_delimited [utf8 kind, utf8 version, utf8 target]))"

datatype carrier_kind =
    GatewayConsumers | GatewayRoutes | GatewayServices | GatewayConfiguredAccesses | GatewayLimitations
  | GatewaySourceEvidence | MeasurementWindows | MeasurementEvidence | MeasurementSeries
  | MeasurementLimitations | MeasurementMappingEntries | KafkaConsumerGroups | KafkaConsumerAttachments
  | KafkaCaptureEvidence | KafkaServiceMappingEntries | KafkaServiceMappingEvidence | CatalogPromises
  | CatalogMemberships | CatalogEventTopics | CatalogEvidence

record carrier =
  ca_id :: string
  ca_fields :: "(string \<times> string) list"

record architecture_model =
  services :: "service list"
  operations :: "operation list"
  queues :: "queue list"
  messages :: "message list"
  schemas :: "schema list"
  relations :: "relation list"
  provenances :: "provenance list"
  infrastructure_entities :: "infrastructure_entity list"
  infrastructure_contributions :: "infrastructure_contribution list"
  infrastructure_claims :: "infrastructure_claim list"
  topics :: "topic list"
  subscriptions :: "subscription list"
  pubsub_declarations :: "pubsub_declaration list"
  brokers :: "broker list"
  dead_letter_configurations :: "dead_letter_configuration list"
  api_contracts :: "api_contract list"
  api_contract_versions :: "api_contract_version list"
  api_contract_associations :: "api_contract_association list"
  carriers :: "carrier_kind \<Rightarrow> carrier list"

definition empty_model :: architecture_model where
  "empty_model = \<lparr>services = [], operations = [], queues = [], messages = [], schemas = [],
     relations = [], provenances = [], infrastructure_entities = [], infrastructure_contributions = [],
     infrastructure_claims = [], topics = [], subscriptions = [], pubsub_declarations = [], brokers = [],
     dead_letter_configurations = [], api_contracts = [], api_contract_versions = [],
     api_contract_associations = [], carriers = (\<lambda>_. [])\<rparr>"

lemma check_evidence_refs_ok_iff:
  "check_evidence_refs refs = Inr refs \<longleftrightarrow>
     refs \<noteq> [] \<and> [] \<notin> set refs \<and> distinct refs \<and> sorted refs"
proof -
  have "refs = sort refs \<longleftrightarrow> sorted refs" by (metis sorted_sort sorted_sort_id)
  moreover have "card (set refs) = length refs \<longleftrightarrow> distinct refs" by (metis card_distinct distinct_card)
  ultimately show ?thesis by (auto simp: check_evidence_refs_def)
qed

end
