(* ===== verification/ClaimReconciliation.thy ===== *)
theory ClaimReconciliation
  imports CanonicalModel
begin

text \<open>
  \<open>sources/claim_reconciliation.py\<close> and \<open>graph/claim_planning.py\<close>: which claims of a source
  are new, retained, given up or expired by an import.  A mapping from claim key to owners is an
  association list; a set of keys is a set.
\<close>

type_synonym claim_owners = "(string \<times> string set) list"

record reconciliation_plan =
  rp_expired :: "string set"
  rp_ownership_removed :: "string set"
  rp_newly_owned :: "string set"
  rp_retained :: "string set"

definition owners_of :: "claim_owners \<Rightarrow> string \<Rightarrow> string set" where
  "owners_of committed key = (case map_of committed key of Some owners \<Rightarrow> owners | None \<Rightarrow> {})"

definition plan_source_claim_reconciliation ::
  "string \<Rightarrow> claim_owners \<Rightarrow> string set \<Rightarrow> reconciliation_plan" where
  "plan_source_claim_reconciliation source committed emitted =
     (let previously_owned = {key \<in> fst ` set committed. source \<in> owners_of committed key};
          no_longer_emitted = previously_owned - emitted;
          expired = {key \<in> no_longer_emitted. owners_of committed key \<subseteq> {source}} in
      \<lparr>rp_expired = expired, rp_ownership_removed = no_longer_emitted - expired,
       rp_newly_owned = emitted - previously_owned, rp_retained = emitted \<inter> previously_owned\<rparr>)"

definition is_semantic_no_op :: "reconciliation_plan \<Rightarrow> bool" where
  "is_semantic_no_op p \<longleftrightarrow> rp_expired p = {} \<and> rp_ownership_removed p = {} \<and> rp_newly_owned p = {}"

section \<open>Claims of a model\<close>

definition infrastructure_claim_contribution_id :: "(bytes \<Rightarrow> string) \<Rightarrow> string \<Rightarrow> string \<Rightarrow> string" where
  "infrastructure_claim_contribution_id H claim source =
     the_id (owned_id H ''urn:aip:infra-claim-support:'' (length_delimited [utf8 claim, utf8 source]))"

definition all_carrier_kinds :: "carrier_kind list" where
  "all_carrier_kinds = [GatewayConsumers, GatewayRoutes, GatewayServices, GatewayConfiguredAccesses,
     GatewayLimitations, GatewaySourceEvidence, MeasurementWindows, MeasurementEvidence, MeasurementSeries,
     MeasurementLimitations, MeasurementMappingEntries, KafkaConsumerGroups, KafkaConsumerAttachments,
     KafkaCaptureEvidence, KafkaServiceMappingEntries, KafkaServiceMappingEvidence, CatalogPromises,
     CatalogMemberships, CatalogEventTopics, CatalogEvidence]"

definition model_node_ids :: "(bytes \<Rightarrow> string) \<Rightarrow> architecture_model \<Rightarrow> string \<Rightarrow> string set" where
  "model_node_ids H m source =
     svc_id ` set (services m) \<union> op_id ` set (operations m) \<union> q_id ` set (queues m) \<union>
     msg_id ` set (messages m) \<union> sch_id ` set (schemas m) \<union> prov_id ` set (provenances m) \<union>
     t_id ` set (topics m) \<union> sub_id ` set (subscriptions m) \<union> br_id ` set (brokers m) \<union>
     declaration_id H ` set (pubsub_declarations m) \<union> dead_letter_id H ` set (dead_letter_configurations m) \<union>
     (\<Union>k\<in>set all_carrier_kinds. ca_id ` set (carriers m k)) \<union>
     ac_id ` set (api_contracts m) \<union> av_id ` set (api_contract_versions m) \<union>
     aa_id ` set (api_contract_associations m) \<union> ie_id ` set (infrastructure_entities m) \<union>
     contribution_id H ` set (infrastructure_contributions m) \<union> claim_id H ` set (infrastructure_claims m) \<union>
     (\<lambda>c. infrastructure_claim_contribution_id H (claim_id H c) source) ` set (infrastructure_claims m)"

definition model_relation_keys :: "architecture_model \<Rightarrow> string set" where
  "model_relation_keys m = relation_key ` set (relations m)"

section \<open>Ownership after a run\<close>

definition owners_after_run :: "string set \<Rightarrow> string \<Rightarrow> string set \<Rightarrow> claim_owners \<Rightarrow> string set" where
  "owners_after_run committed_owners key run_source_ids run_emitters =
     {owner \<in> committed_owners. owner \<notin> run_source_ids} \<union> owners_of run_emitters key"

definition dropped_claim_owners ::
  "claim_owners \<Rightarrow> string \<Rightarrow> string set \<Rightarrow> claim_owners \<Rightarrow> claim_owners" where
  "dropped_claim_owners owned source run_source_ids run_emitters =
     map (\<lambda>(key, owners). (key, insert source (owners_after_run owners key run_source_ids run_emitters))) owned"

record claim_effect_set =
  ce_public_node_ids :: "string list"
  ce_relation_keys :: "string list"
  ce_internal_count :: nat

definition effect_set :: "string list \<Rightarrow> string list \<Rightarrow> string set \<Rightarrow> claim_effect_set" where
  "effect_set node_ids relation_keys public =
     \<lparr>ce_public_node_ids = sorted_set (filter (\<lambda>n. n \<in> public) node_ids),
      ce_relation_keys = sorted_set relation_keys,
      ce_internal_count = card (set node_ids - public)\<rparr>"

definition without_owners :: "(string \<times> 'v) list option \<Rightarrow> (string \<times> 'v) list option" where
  "without_owners props = map_option (filter (\<lambda>(key, _). key \<noteq> ''owner_source_ids'')) props"

section \<open>Lemmas\<close>

lemma owners_of_Nil [simp]: "owners_of [] key = {}"
  by (simp add: owners_of_def)

lemma owner_key: "source \<in> owners_of committed key \<Longrightarrow> key \<in> fst ` set committed"
  by (auto simp: owners_of_def split: option.splits dest: map_of_SomeD intro: rev_image_eqI)

lemma plan_simps:
  "key \<in> rp_expired (plan_source_claim_reconciliation s c e) \<longleftrightarrow>
     s \<in> owners_of c key \<and> key \<notin> e \<and> owners_of c key \<subseteq> {s}"
  "key \<in> rp_ownership_removed (plan_source_claim_reconciliation s c e) \<longleftrightarrow>
     s \<in> owners_of c key \<and> key \<notin> e \<and> \<not> owners_of c key \<subseteq> {s}"
  "key \<in> rp_newly_owned (plan_source_claim_reconciliation s c e) \<longleftrightarrow> key \<in> e \<and> s \<notin> owners_of c key"
  "key \<in> rp_retained (plan_source_claim_reconciliation s c e) \<longleftrightarrow> key \<in> e \<and> s \<in> owners_of c key"
  using owner_key [of s c key] by (auto simp: plan_source_claim_reconciliation_def Let_def)

lemma owners_of_dropped:
  "owners_of (dropped_claim_owners owned s R E) key =
     (if key \<in> fst ` set owned then insert s (owners_after_run (owners_of owned key) key R E) else {})"
  by (induction owned) (auto simp: owners_of_def dropped_claim_owners_def split: if_splits)

text \<open>The claims each source of a run emits, and the emitters of a key built from them.\<close>

definition emitters_agree :: "claim_owners \<Rightarrow> string set \<Rightarrow> (string \<Rightarrow> string set) \<Rightarrow> bool" where
  "emitters_agree E R emits \<longleftrightarrow> (\<forall>key. owners_of E key = {s \<in> R. key \<in> emits s})"

text \<open>The committed claims a source owns, as the importer passes them to the planner.\<close>

definition owned_claims :: "claim_owners \<Rightarrow> string \<Rightarrow> claim_owners" where
  "owned_claims committed s = filter (\<lambda>(_, owners). s \<in> owners) committed"

lemma owners_of_owned_claims:
  "distinct (map fst committed) \<Longrightarrow>
   owners_of (owned_claims committed s) key = (if s \<in> owners_of committed key then owners_of committed key else {})"
proof (induction committed)
  case (Cons c cs)
  then show ?case
    by (cases c) (auto simp: owned_claims_def owners_of_def split: option.splits dest: map_of_SomeD
        intro: rev_image_eqI)
qed (simp add: owned_claims_def)

lemma key_owned_claims:
  assumes "distinct (map fst committed)"
  shows "key \<in> fst ` set (owned_claims committed s) \<longleftrightarrow> s \<in> owners_of committed key"
proof
  assume "key \<in> fst ` set (owned_claims committed s)"
  then obtain owners where "(key, owners) \<in> set committed" "s \<in> owners" by (auto simp: owned_claims_def)
  then show "s \<in> owners_of committed key" using assms by (simp add: owners_of_def)
next
  assume s: "s \<in> owners_of committed key"
  then obtain owners where "map_of committed key = Some owners" "s \<in> owners"
    by (auto simp: owners_of_def split: option.splits)
  then have "(key, owners) \<in> set (owned_claims committed s)" by (auto simp: owned_claims_def dest: map_of_SomeD)
  then show "key \<in> fst ` set (owned_claims committed s)" by force
qed

lemma run_plan_expired:
  assumes "distinct (map fst committed)" "emitters_agree E R emits" "s \<in> R"
  shows "key \<in> rp_expired (plan_source_claim_reconciliation s
       (dropped_claim_owners (owned_claims committed s) s R E) (emits s)) \<longleftrightarrow>
     s \<in> owners_of committed key \<and> key \<notin> emits s \<and> owners_after_run (owners_of committed key) key R E = {}"
proof -
  note key = key_owned_claims [OF assms(1)]
  have "owners_of E key = {s \<in> R. key \<in> emits s}" using assms(2) by (simp add: emitters_agree_def)
  then show ?thesis
    using assms(3) owners_of_owned_claims [OF assms(1), of s key]
    by (auto simp: plan_simps owners_of_dropped key owners_after_run_def)
qed

section \<open>Properties\<close>

text \<open>C31: a reconciliation plan partitions what it touches.  Of the claims a source owned or now
  emits, exactly one of new, retained, ownership removed and expired holds, and a claim expires exactly
  when the source owned it alone and no longer emits it: a claim shared with any other source
  survives.\<close>

theorem reconciliation_plan_partition:
  "let p = plan_source_claim_reconciliation s committed emitted in
     rp_expired p \<union> rp_ownership_removed p \<union> rp_newly_owned p \<union> rp_retained p =
       emitted \<union> {key. s \<in> owners_of committed key} \<and>
     rp_expired p \<inter> rp_ownership_removed p = {} \<and>
     (rp_expired p \<union> rp_ownership_removed p) \<inter> (rp_newly_owned p \<union> rp_retained p) = {} \<and>
     rp_newly_owned p \<inter> rp_retained p = {} \<and>
     rp_newly_owned p \<union> rp_retained p = emitted \<and>
     rp_expired p = {key. owners_of committed key = {s} \<and> key \<notin> emitted} \<and>
     (is_semantic_no_op p \<longleftrightarrow> emitted = {key. s \<in> owners_of committed key})"
proof -
  let ?p = "plan_source_claim_reconciliation s committed emitted"
  have "rp_expired ?p \<union> rp_ownership_removed ?p \<union> rp_newly_owned ?p \<union> rp_retained ?p =
      emitted \<union> {key. s \<in> owners_of committed key}"
    by (auto simp: plan_simps)
  moreover have "rp_expired ?p \<inter> rp_ownership_removed ?p = {}" by (auto simp: plan_simps)
  moreover have "(rp_expired ?p \<union> rp_ownership_removed ?p) \<inter> (rp_newly_owned ?p \<union> rp_retained ?p) = {}"
    by (auto simp: plan_simps)
  moreover have "rp_newly_owned ?p \<inter> rp_retained ?p = {}" by (auto simp: plan_simps)
  moreover have "rp_newly_owned ?p \<union> rp_retained ?p = emitted" by (auto simp: plan_simps)
  moreover have "rp_expired ?p = {key. owners_of committed key = {s} \<and> key \<notin> emitted}"
  proof (rule set_eqI)
    fix key
    have "(s \<in> owners_of committed key \<and> owners_of committed key \<subseteq> {s}) \<longleftrightarrow> owners_of committed key = {s}"
      by blast
    then show "key \<in> rp_expired ?p \<longleftrightarrow> key \<in> {key. owners_of committed key = {s} \<and> key \<notin> emitted}"
      unfolding plan_simps mem_Collect_eq by argo
  qed
  moreover have "is_semantic_no_op ?p \<longleftrightarrow> emitted = {key. s \<in> owners_of committed key}"
  proof -
    have "is_semantic_no_op ?p \<longleftrightarrow>
        (\<forall>key. key \<notin> rp_expired ?p \<and> key \<notin> rp_ownership_removed ?p \<and> key \<notin> rp_newly_owned ?p)"
      unfolding is_semantic_no_op_def set_eq_iff empty_iff by blast
    also have "\<dots> \<longleftrightarrow> (\<forall>key. (s \<in> owners_of committed key \<longrightarrow> key \<in> emitted) \<and>
        (key \<in> emitted \<longrightarrow> s \<in> owners_of committed key))"
      unfolding plan_simps by (intro arg_cong [where f = All] ext) argo
    also have "\<dots> \<longleftrightarrow> emitted = {key. s \<in> owners_of committed key}"
      unfolding set_eq_iff mem_Collect_eq by (intro arg_cong [where f = All] ext) argo
    finally show ?thesis .
  qed
  ultimately show ?thesis unfolding Let_def by (intro conjI)
qed

text \<open>C26: expiry does not depend on the order in which the sources of a run are reconciled.  With the
  owners the importer computes for a run (committed owners outside the run, plus the run's sources that
  still emit the claim), a claim a source owned and dropped is planned as expired exactly when nobody
  owns it once the whole run has committed; in particular two co-owners that both drop it in one run
  both expire it, in either order, and one source that keeps emitting it keeps it for all.\<close>

theorem co_owner_expiry_order_independent:
  assumes "distinct (map fst committed)" "emitters_agree E R emits" "s \<in> R" "t \<in> R"
    and "s \<in> owners_of committed key" "t \<in> owners_of committed key" "key \<notin> emits s" "key \<notin> emits t"
  defines "plan \<equiv> \<lambda>x. plan_source_claim_reconciliation x
      (dropped_claim_owners (owned_claims committed x) x R E) (emits x)"
  shows "(key \<in> rp_expired (plan s) \<longleftrightarrow> key \<in> rp_expired (plan t)) \<and>
    (key \<in> rp_expired (plan s) \<longleftrightarrow>
       owners_of committed key \<subseteq> R \<and> (\<forall>r. r \<in> R \<longrightarrow> key \<notin> emits r))"
  using run_plan_expired [OF assms(1,2), of s key] run_plan_expired [OF assms(1,2), of t key] assms
  by (auto simp: plan_def owners_after_run_def emitters_agree_def)

lemma co_owner_expiry_order_independent_witness:
  "let committed = [(''k'', {''s'', ''t''})]; R = {''s'', ''t''}; emits = (\<lambda>_. {}) in
   ''k'' \<in> rp_expired (plan_source_claim_reconciliation ''s''
      (dropped_claim_owners (owned_claims committed ''s'') ''s'' R []) (emits ''s''))"
proof -
  have "distinct (map fst [(''k'', {''s'', ''t''})])"
    "emitters_agree [] {''s'', ''t''} (\<lambda>_. {})"
    "''s'' \<in> owners_of [(''k'', {''s'', ''t''})] ''k''" "''t'' \<in> owners_of [(''k'', {''s'', ''t''})] ''k''"
    by (simp_all add: emitters_agree_def owners_of_def)
  note facts = this
  have "owners_of [(''k'', {''s'', ''t''})] ''k'' \<subseteq> {''s'', ''t''}" by (simp add: owners_of_def)
  then show ?thesis
    using co_owner_expiry_order_independent [OF facts(1,2) _ _ facts(3,4)] unfolding Let_def by blast
qed

end
