(* ===== verification/GraphStore.thy ===== *)
theory GraphStore
  imports ClaimReconciliation
begin

text \<open>
  The graph the importer writes: \<open>graph/queries.py\<close>, \<open>graph/writers.py\<close>,
  \<open>graph/labels.py\<close> and \<open>graph/revision_fence.py\<close>.  Every Cypher statement of those
  modules is one function on the store.  A node is found by its id (ids of different labels never
  coincide, they carry their kind in their prefix), a relationship by its type and endpoints, with the
  \<open>key\<close> property the statements match on; \<open>owner_source_ids\<close> absent (telemetry's own nodes)
  and empty are both \<open>[]\<close>, as \<open>coalesce\<close> reads them.  Neo4j itself, its locks and its
  rollback are not modelled: a transaction is a function from store to error or store.
\<close>

datatype prop_value = PNull | PStr string | PList "string list" | PPorts "infrastructure_port list"

fun opt :: "string option \<Rightarrow> prop_value" where
  "opt None = PNull"
| "opt (Some s) = PStr s"

record node_row =
  nr_label :: string
  nr_props :: "(string \<times> prop_value) list"
  nr_owners :: "string list"

type_synonym relation_id = "string \<times> string \<times> string"

record relation_row =
  rr_key :: string
  rr_owners :: "string list"
  rr_evidence :: "string list"

type_synonym capture = "string list \<times> string \<times> string \<times> string \<times> string"

record source_state =
  ss_semantic_input_digest :: "string option"
  ss_scope_definition_digest :: "string option"
  ss_discovery_scope_id :: "string option"
  ss_capture :: "capture option"

record current_inventory =
  ci_inventory_revision :: "string option"
  ci_inventory_capture_id :: "string option"
  ci_inventory_event_id :: "string option"
  ci_scope_definition_digest :: "string option"

record graph_store =
  gs_nodes :: "(string \<times> node_row) list"
  gs_relations :: "(relation_id \<times> relation_row) list"
  gs_sources :: "(string \<times> source_state) list"
  gs_inventories :: "(string \<times> current_inventory) list"
  gs_revision :: "nat option"
  gs_has_scoped_calls :: bool

section \<open>Merging nodes and relationships\<close>

text \<open>\<open>SET n += $props\<close>: a null value removes the property.\<close>

definition set_props :: "(string \<times> prop_value) list \<Rightarrow> (string \<times> prop_value) list \<Rightarrow> (string \<times> prop_value) list" where
  "set_props old new = foldl (\<lambda>d (k, v). if v = PNull then AList.delete k d else AList.update k v d) old new"

definition add_owner :: "string \<Rightarrow> string list \<Rightarrow> string list" where
  "add_owner s owners = (if s \<in> set owners then owners else owners @ [s])"

text \<open>\<open>MERGE_NODE_TEMPLATE\<close>.\<close>

definition merge_node ::
  "string \<Rightarrow> string \<times> string \<times> (string \<times> prop_value) list \<Rightarrow> (string \<times> node_row) list \<Rightarrow> (string \<times> node_row) list" where
  "merge_node s = (\<lambda>(i, label, props) nodes.
     let row = (case map_of nodes i of Some r \<Rightarrow> r | None \<Rightarrow> \<lparr>nr_label = label, nr_props = [], nr_owners = []\<rparr>) in
     AList.update i (row\<lparr>nr_props := set_props (nr_props row) props, nr_owners := add_owner s (nr_owners row)\<rparr>) nodes)"

text \<open>\<open>MERGE_RELATION_TEMPLATE\<close>: nothing is merged unless both endpoints match.\<close>

definition merge_relation ::
  "string \<Rightarrow> relation \<Rightarrow> graph_store \<Rightarrow> graph_store" where
  "merge_relation s r g =
     (if map_of (gs_nodes g) (rel_source_id r) = None \<or> map_of (gs_nodes g) (rel_target_id r) = None then g
      else let i = (rel_type r, rel_source_id r, rel_target_id r);
               row = (case map_of (gs_relations g) i of Some row \<Rightarrow> row
                      | None \<Rightarrow> \<lparr>rr_key = relation_key r, rr_owners = [], rr_evidence = []\<rparr>) in
        g\<lparr>gs_relations := AList.update i
            (row\<lparr>rr_key := relation_key r, rr_owners := add_owner s (rr_owners row),
                 rr_evidence := foldl (\<lambda>acc e. if e \<in> set acc then acc else acc @ [e]) (rr_evidence row)
                   (rel_evidence_ids r)\<rparr>)
            (gs_relations g)\<rparr>)"

section \<open>What a model writes\<close>

definition carrier_label :: "carrier_kind \<Rightarrow> string" where
  "carrier_label k = (case k of
     GatewayConsumers \<Rightarrow> ''GatewayConsumer'' | GatewayRoutes \<Rightarrow> ''GatewayRoute''
   | GatewayServices \<Rightarrow> ''GatewayService'' | GatewayConfiguredAccesses \<Rightarrow> ''GatewayConfiguredAccess''
   | GatewayLimitations \<Rightarrow> ''GatewayLimitation'' | GatewaySourceEvidence \<Rightarrow> ''GatewaySourceEvidence''
   | MeasurementWindows \<Rightarrow> ''MeasurementWindow'' | MeasurementEvidence \<Rightarrow> ''MeasurementEvidence''
   | MeasurementSeries \<Rightarrow> ''MeasurementSeries'' | MeasurementLimitations \<Rightarrow> ''MeasurementLimitation''
   | MeasurementMappingEntries \<Rightarrow> ''MeasurementMappingEntry'' | KafkaConsumerGroups \<Rightarrow> ''KafkaConsumerGroup''
   | KafkaConsumerAttachments \<Rightarrow> ''KafkaConsumerAttachment'' | KafkaCaptureEvidence \<Rightarrow> ''KafkaCaptureEvidence''
   | KafkaServiceMappingEntries \<Rightarrow> ''KafkaServiceMappingEntry''
   | KafkaServiceMappingEvidence \<Rightarrow> ''KafkaServiceMappingEvidence''
   | CatalogPromises \<Rightarrow> ''CatalogPromise'' | CatalogMemberships \<Rightarrow> ''CatalogMembership''
   | CatalogEventTopics \<Rightarrow> ''CatalogEventTopic'' | CatalogEvidence \<Rightarrow> ''CatalogEvidence'')"

type_synonym node_claim = "string \<times> string \<times> (string \<times> prop_value) list"

text \<open>The entities of \<open>NODE_LABELS\<close>.\<close>

definition public_node_claims :: "architecture_model \<Rightarrow> node_claim list" where
  "public_node_claims m =
     map (\<lambda>s. (svc_id s, ''Service'', [(''name'', PStr (svc_name s)), (''version'', opt (svc_version s))])) (services m) @
     map (\<lambda>x. (op_id x, ''Operation'', [(''service_id'', PStr (op_service_id x)),
        (''operation_id'', opt (op_operation_id x)), (''method'', PStr (op_method x)), (''path'', PStr (op_path x)),
        (''request_schema_ids'', PList (op_request_schema_ids x)),
        (''response_schema_ids'', PList (op_response_schema_ids x))])) (operations m) @
     map (\<lambda>q. (q_id q, ''Queue'', [(''name'', PStr (q_name q)), (''protocol'', opt (q_protocol q)),
        (''namespace'', opt (q_namespace q)), (''queue_type'', PStr (q_queue_type q))])) (queues m) @
     map (\<lambda>x. (msg_id x, ''Message'', [(''name'', PStr (msg_name x)), (''version'', opt (msg_version x)),
        (''schema_id'', opt (msg_schema_id x)), (''contract_digest'', opt (msg_contract_digest x)),
        (''document_digest'', opt (msg_document_digest x))])) (messages m) @
     map (\<lambda>s. (sch_id s, ''Schema'', [(''name'', PStr (sch_name s)), (''version'', opt (sch_version s)),
        (''format'', opt (sch_format s)), (''canonical_hash'', opt (sch_canonical_hash s))])) (schemas m) @
     map (\<lambda>t. (t_id t, ''Topic'', [(''name'', PStr (t_name t)), (''protocol'', opt (t_protocol t)),
        (''namespace'', opt (t_namespace t))])) (topics m) @
     map (\<lambda>s. (sub_id s, ''Subscription'', [(''name'', PStr (sub_name s)), (''protocol'', opt (sub_protocol s)),
        (''namespace'', opt (sub_namespace s))])) (subscriptions m) @
     map (\<lambda>b. (br_id b, ''Broker'', [(''stable_broker_id'', PStr (br_stable_broker_id b))])) (brokers m)"

definition evidence_node_claims :: "architecture_model \<Rightarrow> node_claim list" where
  "evidence_node_claims m =
     map (\<lambda>p. (prov_id p, ''Evidence'', [(''source_type'', PStr (prov_source_type p)),
        (''source_file'', PStr (prov_source_file p)), (''source_revision'', opt (prov_source_revision p)),
        (''evidence_type'', PStr (prov_evidence_type p))])) (provenances m)"

definition carrier_node_claims :: "(bytes \<Rightarrow> string) \<Rightarrow> architecture_model \<Rightarrow> node_claim list" where
  "carrier_node_claims H m =
     map (\<lambda>d. (declaration_id H d, ''PubSubDeclaration'', [(''entity_id'', PStr (pd_entity_id d)),
        (''entity_kind'', PStr (if pd_entity_kind d = TOPIC then ''TOPIC'' else ''SUBSCRIPTION'')),
        (''source_instance_id'', PStr (pd_source_instance_id d)), (''source_locator'', PStr (pd_source_locator d)),
        (''source_revision'', opt (pd_source_revision d)), (''source_pointer'', PStr (pd_source_pointer d)),
        (''semantic_input_digest'', PStr (pd_semantic_input_digest d)),
        (''adapter_identity'', PStr (pd_adapter_identity d)), (''mapping_rule_id'', PStr (pd_mapping_rule_id d)),
        (''mapping_rule_version'', PStr (pd_mapping_rule_version d)), (''broker_id'', opt (pd_broker_id d)),
        (''namespace'', opt (pd_namespace d)), (''kind_evidence'', PList (pd_kind_evidence d)),
        (''identity_methods'', PList (pd_identity_methods d)), (''topic_address'', opt (pd_topic_address d)),
        (''topic_id'', opt (pd_topic_id d)), (''subscription_name'', opt (pd_subscription_name d))]))
       (pubsub_declarations m) @
     map (\<lambda>d. (dead_letter_id H d, ''SubscriptionDeadLetterConfiguration'',
        [(''subscription_id'', PStr (dl_subscription_id d)), (''source_instance_id'', PStr (dl_source_instance_id d)),
         (''source_locator'', PStr (dl_source_locator d)), (''source_revision'', opt (dl_source_revision d)),
         (''source_pointer'', PStr (dl_source_pointer d)), (''target_token'', PStr (dl_target_token d)),
         (''target_kind_token'', opt (dl_target_kind_token d))])) (dead_letter_configurations m) @
     map (\<lambda>c. (ac_id c, ''ApiContract'', [(''openapi_source_instance_id'', PStr (ac_openapi_source_instance_id c)),
        (''limitations'', PList (ac_limitations c))])) (api_contracts m) @
     map (\<lambda>v. (av_id v, ''ApiContractVersion'', [(''contract_id'', PStr (av_contract_id v)),
        (''info_version'', PStr (av_info_version v))])) (api_contract_versions m) @
     map (\<lambda>a. (aa_id a, ''ApiContractAssociation'', [(''kind'', PStr (aa_kind a)),
        (''contract_version_id'', PStr (aa_contract_version_id a)), (''target_id'', PStr (aa_target_id a)),
        (''evidence_ids'', PList (aa_evidence_ids a))])) (api_contract_associations m) @
     concat (map (\<lambda>k. map (\<lambda>c. (ca_id c, carrier_label k, map (\<lambda>(f, v). (f, PStr v)) (ca_fields c)))
       (carriers m k)) all_carrier_kinds)"

definition evidence_mode_value :: "kubernetes_evidence_mode \<Rightarrow> string" where
  "evidence_mode_value e = (case e of DECLARED_MANIFEST \<Rightarrow> ''DECLARED_MANIFEST'' | CAPTURED_RESOURCE \<Rightarrow> ''CAPTURED_RESOURCE'')"

definition entity_kind_value :: "infrastructure_entity_kind \<Rightarrow> string" where
  "entity_kind_value k = (case k of KUBERNETES_WORKLOAD \<Rightarrow> ''KUBERNETES_WORKLOAD'' | KUBERNETES_POD \<Rightarrow> ''KUBERNETES_POD''
     | KUBERNETES_NETWORK_SERVICE \<Rightarrow> ''KUBERNETES_NETWORK_SERVICE'' | KUBERNETES_INGRESS \<Rightarrow> ''KUBERNETES_INGRESS'')"

definition infrastructure_entity_props :: "infrastructure_entity \<Rightarrow> (string \<times> prop_value) list" where
  "infrastructure_entity_props e =
     [(''entity_kind'', PStr (entity_kind_value (ie_entity_kind e))), (''cluster_uid'', PStr (ie_cluster_uid e)),
      (''api_group'', PStr (ie_api_group e)), (''resource_kind'', PStr (ie_resource_kind e)),
      (''namespace'', PStr (ie_namespace e)), (''name'', PStr (ie_name e)),
      (''service_type'', opt (ie_service_type e)), (''ports'', PPorts (ie_ports e))]"

text \<open>A claim node carries no evidence of its own; each source's evidence is on its contribution row.\<close>

definition infrastructure_node_claims ::
  "(bytes \<Rightarrow> string) \<Rightarrow> string \<Rightarrow> architecture_model \<Rightarrow> node_claim list" where
  "infrastructure_node_claims H s m =
     map (\<lambda>e. (ie_id e, ''InfrastructureEntity'', infrastructure_entity_props e)) (infrastructure_entities m) @
     map (\<lambda>c. (contribution_id H c, ''InfrastructureContribution'',
        [(''entity_id'', PStr (ic_entity_id c)), (''source_instance_id'', PStr (ic_source_instance_id c)),
         (''evidence_mode'', PStr (evidence_mode_value (ic_evidence_mode c))),
         (''resource_semantic_digest'', PStr (ic_resource_semantic_digest c)),
         (''captured_resource_uid'', opt (ic_captured_resource_uid c)),
         (''service_id_annotation'', opt (ic_service_id_annotation c)), (''captured_at'', opt (ic_captured_at c)),
         (''evidence_refs'', PList (ic_evidence_refs c)), (''mapping_rule_id'', PStr (ic_mapping_rule_id c)),
         (''mapping_rule_version'', PStr (ic_mapping_rule_version c))])) (infrastructure_contributions m) @
     concat (map (\<lambda>c.
        [(claim_id H c, ''InfrastructureClaim'', [(''kind'', PStr (claim_kind_value (cl_kind c))),
           (''subject_id'', PStr (cl_subject_id c)), (''object_id'', opt (cl_object_id c)),
           (''mapping_rule_id'', PStr (cl_mapping_rule_id c)), (''mapping_rule_version'', PStr (cl_mapping_rule_version c))]),
         (infrastructure_claim_contribution_id H (claim_id H c) s, ''InfrastructureClaimContribution'',
          [(''claim_id'', PStr (claim_id H c)), (''evidence_refs'', PList (cl_evidence_refs c)),
           (''mapping_rule_id'', PStr (cl_mapping_rule_id c)), (''mapping_rule_version'', PStr (cl_mapping_rule_version c)),
           (''evidence_mode'',
            opt (map_option (\<lambda>k. evidence_mode_value (ic_evidence_mode k))
              (map_of (rev (map (\<lambda>k. (ic_entity_id k, k)) (infrastructure_contributions m))) (cl_subject_id c))))])])
        (infrastructure_claims m))"

definition node_claims :: "(bytes \<Rightarrow> string) \<Rightarrow> string \<Rightarrow> architecture_model \<Rightarrow> node_claim list" where
  "node_claims H s m = public_node_claims m @ evidence_node_claims m @ carrier_node_claims H m @
     infrastructure_node_claims H s m"

definition write_nodes :: "(bytes \<Rightarrow> string) \<Rightarrow> string \<Rightarrow> architecture_model \<Rightarrow> graph_store \<Rightarrow> graph_store \<times> nat" where
  "write_nodes H s m g =
     (g\<lparr>gs_nodes := fold (merge_node s) (node_claims H s m) (gs_nodes g)\<rparr>, length (node_claims H s m))"

definition write_relations :: "string \<Rightarrow> architecture_model \<Rightarrow> graph_store \<Rightarrow> graph_store \<times> nat" where
  "write_relations s m g = (fold (merge_relation s) (relations m) g, length (relations m))"

section \<open>Reading ownership\<close>

definition owned_nodes :: "string \<Rightarrow> graph_store \<Rightarrow> claim_owners" where
  "owned_nodes s g = map (\<lambda>(i, r). (i, set (nr_owners r))) (filter (\<lambda>(_, r). s \<in> set (nr_owners r)) (gs_nodes g))"

text \<open>A dictionary comprehension over the rows: a repeated key keeps its last row.\<close>

definition owned_relations :: "string \<Rightarrow> graph_store \<Rightarrow> claim_owners" where
  "owned_relations s g = fold (\<lambda>(_, r). AList.update (rr_key r) (set (rr_owners r)))
     (filter (\<lambda>(_, r). s \<in> set (rr_owners r)) (gs_relations g)) []"

section \<open>Expiry\<close>

text \<open>\<open>EXPIRE_RELATIONS_QUERY\<close>.\<close>

definition declared_evidence_of :: "string \<Rightarrow> graph_store \<Rightarrow> string \<Rightarrow> bool" where
  "declared_evidence_of s g e = (case map_of (gs_nodes g) e of None \<Rightarrow> False
     | Some r \<Rightarrow> nr_label r = ''Evidence'' \<and> map_of (nr_props r) ''evidence_type'' = Some (PStr ''DECLARED'') \<and>
                 s \<in> set (nr_owners r))"

definition retire_relation :: "string \<Rightarrow> graph_store \<Rightarrow> relation_row \<Rightarrow> relation_row" where
  "retire_relation s g r = r\<lparr>rr_owners := filter (\<lambda>x. x \<noteq> s) (rr_owners r),
     rr_evidence := filter (\<lambda>e. \<not> declared_evidence_of s g e) (rr_evidence r)\<rparr>"

definition expire_relations :: "string \<Rightarrow> string set \<Rightarrow> graph_store \<Rightarrow> graph_store" where
  "expire_relations s keys g = g\<lparr>gs_relations := List.map_filter (\<lambda>(i, r).
     if rr_key r \<in> keys then
       (if rr_evidence (retire_relation s g r) = [] then None else Some (i, retire_relation s g r))
     else Some (i, r)) (gs_relations g)\<rparr>"

text \<open>\<open>STRIP_STALE_EVIDENCE_QUERY\<close>.\<close>

definition strip_stale_evidence :: "string set \<Rightarrow> graph_store \<Rightarrow> graph_store" where
  "strip_stale_evidence ids g = g\<lparr>gs_relations := map (\<lambda>(i, r).
     (i, r\<lparr>rr_evidence := filter (\<lambda>e. e \<notin> ids) (rr_evidence r)\<rparr>)) (gs_relations g)\<rparr>"

text \<open>\<open>EXPIRE_NODES_QUERY\<close>: \<open>DETACH DELETE\<close> takes the node's relationships with it.\<close>

definition retire_node :: "string \<Rightarrow> node_row \<Rightarrow> node_row" where
  "retire_node s r = r\<lparr>nr_owners := filter (\<lambda>x. x \<noteq> s) (nr_owners r)\<rparr>"

definition expire_nodes :: "string \<Rightarrow> string set \<Rightarrow> graph_store \<Rightarrow> graph_store" where
  "expire_nodes s ids g =
     (let gone = (\<lambda>i. i \<in> ids \<and> (case map_of (gs_nodes g) i of None \<Rightarrow> False
                                  | Some r \<Rightarrow> nr_owners (retire_node s r) = [])) in
      g\<lparr>gs_nodes := map (\<lambda>(i, r). (i, if i \<in> ids then retire_node s r else r))
           (filter (\<lambda>(i, _). \<not> gone i) (gs_nodes g)),
        gs_relations := filter (\<lambda>((_, src, tgt), _). \<not> gone src \<and> \<not> gone tgt) (gs_relations g)\<rparr>)"

definition expire_dropped_claims ::
  "string \<Rightarrow> reconciliation_plan \<Rightarrow> reconciliation_plan \<Rightarrow> graph_store \<Rightarrow> graph_store" where
  "expire_dropped_claims s node_plan relation_plan g =
     expire_nodes s (rp_expired node_plan \<union> rp_ownership_removed node_plan)
       (strip_stale_evidence (rp_expired node_plan)
         (expire_relations s (rp_expired relation_plan \<union> rp_ownership_removed relation_plan) g))"

section \<open>Recomputed claim evidence\<close>

definition claim_contribution_evidence :: "graph_store \<Rightarrow> string \<Rightarrow> string list" where
  "claim_contribution_evidence g claim = sorted_set (concat (map (\<lambda>(_, r).
     if nr_label r = ''InfrastructureClaimContribution'' \<and> map_of (nr_props r) ''claim_id'' = Some (PStr claim)
     then (case map_of (nr_props r) ''evidence_refs'' of Some (PList refs) \<Rightarrow> refs | _ \<Rightarrow> [])
     else []) (gs_nodes g)))"

definition recompute_claim :: "string \<Rightarrow> graph_store \<Rightarrow> graph_store" where
  "recompute_claim claim g =
     (case map_of (gs_nodes g) claim of
        None \<Rightarrow> g
      | Some r \<Rightarrow> if nr_label r \<noteq> ''InfrastructureClaim'' then g
          else g\<lparr>gs_nodes := AList.update claim
            (r\<lparr>nr_props := set_props (nr_props r) [(''evidence_refs'', PList (claim_contribution_evidence g claim))]\<rparr>)
            (gs_nodes g)\<rparr>)"

definition infrastructure_claim_id_prefix :: string where
  "infrastructure_claim_id_prefix = ''urn:aip:infra-claim:''"

text \<open>
  \<open>recompute_affected_infrastructure_claims\<close>; the affected ids are given as the list of the ids
  of claim nodes to look at, and sorted.
\<close>

definition recompute_affected_claims :: "string list \<Rightarrow> graph_store \<Rightarrow> graph_store" where
  "recompute_affected_claims ids g = fold recompute_claim (sorted_set ids) g"

section \<open>Snapshots and the revision fence\<close>

type_synonym node_snapshot = "(string \<times> (string \<times> prop_value) list \<times> string list) list"

definition snapshot_node :: "graph_store \<Rightarrow> string \<Rightarrow> ((string \<times> prop_value) list \<times> string list) option" where
  "snapshot_node g i = map_option (\<lambda>r. (nr_props r, nr_owners r)) (map_of (gs_nodes g) i)"

text \<open>Equality of two Python dictionaries.\<close>

definition dict_eq :: "('k \<times> 'v) list \<Rightarrow> ('k \<times> 'v) list \<Rightarrow> bool" where
  "dict_eq a b \<longleftrightarrow> (\<forall>k\<in>fst ` set a \<union> fst ` set b. map_of a k = map_of b k)"

definition snapshot_eq ::
  "((string \<times> prop_value) list \<times> string list) option \<Rightarrow> ((string \<times> prop_value) list \<times> string list) option \<Rightarrow> bool" where
  "snapshot_eq a b = (case (a, b) of
     (None, None) \<Rightarrow> True
   | (Some (p, o1), Some (q, o2)) \<Rightarrow> dict_eq p q \<and> o1 = o2
   | _ \<Rightarrow> False)"

definition snapshot_relations :: "graph_store \<Rightarrow> string \<Rightarrow> relation_row list" where
  "snapshot_relations g key = map snd (filter (\<lambda>(_, r). rr_key r = key) (gs_relations g))"

definition bump_revision :: "graph_store \<Rightarrow> graph_store" where
  "bump_revision g = g\<lparr>gs_revision := map_option Suc (gs_revision g)\<rparr>"

definition ensure_revision_singleton :: "graph_store \<Rightarrow> graph_store" where
  "ensure_revision_singleton g = g\<lparr>gs_revision := (case gs_revision g of None \<Rightarrow> Some 0 | Some n \<Rightarrow> Some n)\<rparr>"

lemma dict_eq_iff: "dict_eq a b \<longleftrightarrow> map_of a = map_of b"
proof
  assume eq: "dict_eq a b"
  show "map_of a = map_of b"
  proof
    fix k
    show "map_of a k = map_of b k"
      using eq by (cases "k \<in> fst ` set a \<union> fst ` set b") (auto simp: dict_eq_def map_of_eq_None_iff [symmetric])
  qed
qed (simp add: dict_eq_def)

end
