(* ===== verification/Pointers.thy ===== *)
theory Pointers
  imports Prelude
begin

text \<open>
  \<open>sources/pointers.py\<close>: RFC 6901 JSON pointers.  \<open>str.replace\<close> with a one-character
  pattern is \<open>replace1\<close>, with a two-character pattern the left-to-right non-overlapping scan
  \<open>replace2\<close>; \<open>findall("/([^/]*)")\<close> is \<open>find_tokens\<close>.
\<close>

definition replace1 :: "char \<Rightarrow> string \<Rightarrow> string \<Rightarrow> string" where
  "replace1 c r s = concat (map (\<lambda>x. if x = c then r else [x]) s)"

fun replace2 :: "char \<Rightarrow> char \<Rightarrow> string \<Rightarrow> string \<Rightarrow> string" where
  "replace2 a b r (x # y # s) =
     (if x = a \<and> y = b then r @ replace2 a b r s else x # replace2 a b r (y # s))"
| "replace2 a b r s = s"

fun find_tokens :: "string \<Rightarrow> string list" where
  "find_tokens [] = []"
| "find_tokens (c # s) =
     (if c = CHR ''/'' then takeWhile (\<lambda>x. x \<noteq> CHR ''/'') s # find_tokens s else find_tokens s)"

definition encode_token :: "string \<Rightarrow> string" where
  "encode_token token = replace1 (CHR ''/'') ''~1'' (replace1 (CHR ''~'') ''~0'' token)"

definition decode_token :: "string \<Rightarrow> string" where
  "decode_token token = replace2 (CHR ''~'') (CHR ''0'') ''~'' (replace2 (CHR ''~'') (CHR ''1'') ''/'' token)"

definition encode_pointer_tokens :: "string list \<Rightarrow> string" where
  "encode_pointer_tokens tokens = concat (map (\<lambda>token. CHR ''/'' # encode_token token) tokens)"

text \<open>The scan of the while loop from the current index on.\<close>

fun tildes_escaped :: "string \<Rightarrow> bool" where
  "tildes_escaped [] = True"
| "tildes_escaped [c] = (c \<noteq> CHR ''~'')"
| "tildes_escaped (c # d # s) =
     (if c = CHR ''~'' then (d = CHR ''0'' \<or> d = CHR ''1'') \<and> tildes_escaped s
      else tildes_escaped (d # s))"

definition is_well_formed_pointer :: "string \<Rightarrow> bool" where
  "is_well_formed_pointer pointer =
     (if pointer = [] then True
      else if hd pointer \<noteq> CHR ''/'' then False
      else tildes_escaped pointer)"

text \<open>\<open>None\<close> is the ValueError of an ill-formed pointer.\<close>

definition decode_pointer_tokens :: "string \<Rightarrow> string list option" where
  "decode_pointer_tokens pointer =
     (if \<not> is_well_formed_pointer pointer then None
      else if pointer = [] then Some []
      else Some (map decode_token (find_tokens pointer)))"

definition pointer_prefix_matches :: "string \<Rightarrow> string \<Rightarrow> bool option" where
  "pointer_prefix_matches prefix candidate = do {
     prefix_tokens \<leftarrow> decode_pointer_tokens prefix;
     candidate_tokens \<leftarrow> decode_pointer_tokens candidate;
     Some (if length prefix_tokens > length candidate_tokens then False
           else take (length prefix_tokens) candidate_tokens = prefix_tokens)
   }"

section \<open>Tokens\<close>

fun escape :: "char \<Rightarrow> string" where
  "escape c = (if c = CHR ''~'' then ''~0'' else if c = CHR ''/'' then ''~1'' else [c])"

lemma encode_token_escape: "encode_token t = concat (map escape t)"
  by (induction t) (auto simp: encode_token_def replace1_def)

lemma encode_token_Nil [simp]: "encode_token [] = []"
  by (simp add: encode_token_escape)

lemma encode_token_Cons [simp]: "encode_token (c # t) = escape c @ encode_token t"
  by (simp add: encode_token_escape)

lemma replace2_skip: "x \<noteq> a \<Longrightarrow> replace2 a b r (x # s) = x # replace2 a b r s"
  by (cases s) auto

lemma decode_encode_token: "decode_token (encode_token t) = t"
proof -
  let ?half = "\<lambda>t. concat (map (\<lambda>c. if c = CHR ''~'' then ''~0'' else [c]) t)"
  have "replace2 (CHR ''~'') (CHR ''1'') ''/'' (encode_token t) = ?half t"
    by (induction t) (auto simp: replace2_skip)
  moreover have "replace2 (CHR ''~'') (CHR ''0'') ''~'' (?half t) = t"
    by (induction t) (auto simp: replace2_skip)
  ultimately show ?thesis by (simp add: decode_token_def)
qed

lemma slash_free_encode_token: "CHR ''/'' \<notin> set (encode_token t)"
  by (induction t) auto

lemma tildes_escaped_append_escape: "tildes_escaped (escape c @ s) = tildes_escaped s"
  by (cases s) auto

lemma tildes_escaped_encode: "tildes_escaped (encode_token t @ s) = tildes_escaped s"
  by (induction t) (simp_all del: escape.simps add: tildes_escaped_append_escape)

lemma tildes_escaped_slash: "tildes_escaped (CHR ''/'' # s) = tildes_escaped s"
  by (cases s) auto

lemma decode_token_Cons: "c \<noteq> CHR ''~'' \<Longrightarrow> decode_token (c # s) = c # decode_token s"
  by (simp add: decode_token_def replace2_skip)

lemma decode_token_tilde0: "decode_token (CHR ''~'' # CHR ''0'' # s) = CHR ''~'' # decode_token s"
  by (simp add: decode_token_def replace2_skip)

lemma decode_token_tilde1: "decode_token (CHR ''~'' # CHR ''1'' # s) = CHR ''/'' # decode_token s"
  by (simp add: decode_token_def replace2_skip)

lemma decode_token_Nil [simp]: "decode_token [] = []"
  by (simp add: decode_token_def)

lemma encode_decode_token:
  "tildes_escaped t \<Longrightarrow> CHR ''/'' \<notin> set t \<Longrightarrow> encode_token (decode_token t) = t"
  by (induction t rule: tildes_escaped.induct)
    (auto simp: decode_token_Cons decode_token_tilde0 decode_token_tilde1 split: if_splits)

section \<open>Whole pointers\<close>

lemma find_tokens_skip: "CHR ''/'' \<notin> set a \<Longrightarrow> find_tokens (a @ s) = find_tokens s"
  by (induction a) auto

lemma find_tokens_encode:
  "find_tokens (encode_pointer_tokens ts) = map encode_token ts"
proof (induction ts)
  case Nil
  then show ?case by (simp add: encode_pointer_tokens_def)
next
  case (Cons t ts)
  have tail: "takeWhile (\<lambda>x. x \<noteq> CHR ''/'') (encode_pointer_tokens ts) = []"
    by (cases ts) (auto simp: encode_pointer_tokens_def)
  have "takeWhile (\<lambda>x. x \<noteq> CHR ''/'') (encode_token t @ encode_pointer_tokens ts) = encode_token t"
    using slash_free_encode_token [of t] tail
    by (subst takeWhile_append2) (auto simp del: takeWhile_eq_Nil_iff)
  then show ?case
    using Cons.IH by (simp add: encode_pointer_tokens_def find_tokens_skip slash_free_encode_token)
qed

lemma tildes_escaped_encode_pointer: "tildes_escaped (encode_pointer_tokens ts)"
  by (induction ts)
    (simp_all add: encode_pointer_tokens_def tildes_escaped_slash tildes_escaped_encode)

lemma encode_pointer_well_formed: "is_well_formed_pointer (encode_pointer_tokens ts)"
  using tildes_escaped_encode_pointer [of ts]
  by (cases ts) (auto simp: is_well_formed_pointer_def encode_pointer_tokens_def)

lemma decode_encode_pointer: "decode_pointer_tokens (encode_pointer_tokens ts) = Some ts"
proof -
  have "encode_pointer_tokens ts = [] \<longleftrightarrow> ts = []"
    by (cases ts) (auto simp: encode_pointer_tokens_def)
  then show ?thesis
    by (auto simp: decode_pointer_tokens_def encode_pointer_well_formed find_tokens_encode
        decode_encode_token comp_def)
qed

lemma tildes_escaped_takeWhile:
  "tildes_escaped s \<Longrightarrow> tildes_escaped (takeWhile (\<lambda>x. x \<noteq> CHR ''/'') s)"
  by (induction s rule: tildes_escaped.induct) (auto split: if_splits)

lemma tildes_escaped_tl: "tildes_escaped (c # s) \<Longrightarrow> c \<noteq> CHR ''~'' \<Longrightarrow> tildes_escaped s"
  by (cases s) auto

lemma tildes_escaped_dropWhile:
  "tildes_escaped s \<Longrightarrow> tildes_escaped (dropWhile (\<lambda>x. x \<noteq> CHR ''/'') s)"
  by (induction s rule: tildes_escaped.induct) (auto split: if_splits)

lemma find_tokens_dropWhile: "find_tokens (dropWhile (\<lambda>x. x \<noteq> CHR ''/'') s) = find_tokens s"
  by (induction s) auto

lemma encode_decode_slash_string:
  "tildes_escaped s \<Longrightarrow> s = [] \<or> hd s = CHR ''/'' \<Longrightarrow>
   concat (map (\<lambda>t. CHR ''/'' # encode_token (decode_token t)) (find_tokens s)) = s"
proof (induction "length s" arbitrary: s rule: less_induct)
  case less
  show ?case
  proof (cases s)
    case Nil
    then show ?thesis by simp
  next
    case (Cons c r)
    let ?t = "takeWhile (\<lambda>x. x \<noteq> CHR ''/'') r" and ?d = "dropWhile (\<lambda>x. x \<noteq> CHR ''/'') r"
    have c: "c = CHR ''/''" using less.prems(2) Cons by simp
    have r: "tildes_escaped r" using less.prems(1) Cons c by (simp add: tildes_escaped_slash)
    have "?d = [] \<or> hd ?d = CHR ''/''" 
      using hd_dropWhile [of "\<lambda>x. x \<noteq> CHR ''/''" r] by blast
    moreover have "length ?d < length s" using Cons length_dropWhile_le [of _ r] by (simp add: le_imp_less_Suc)
    ultimately have "concat (map (\<lambda>t. CHR ''/'' # encode_token (decode_token t)) (find_tokens ?d)) = ?d"
      using less.hyps [of ?d] tildes_escaped_dropWhile [OF r] by blast
    moreover have "encode_token (decode_token ?t) = ?t"
      by (rule encode_decode_token [OF tildes_escaped_takeWhile [OF r]]) (auto dest: set_takeWhileD)
    ultimately show ?thesis
      using Cons c by (simp add: find_tokens_dropWhile)
  qed
qed

lemma encode_decode_pointer: "decode_pointer_tokens p = Some ts \<Longrightarrow> encode_pointer_tokens ts = p"
  by (auto simp: decode_pointer_tokens_def is_well_formed_pointer_def encode_pointer_tokens_def comp_def
      encode_decode_slash_string split: if_splits)

lemma decode_pointer_total: "decode_pointer_tokens p \<noteq> None \<longleftrightarrow> is_well_formed_pointer p"
  by (simp add: decode_pointer_tokens_def)

lemma encode_pointer_inject [simp]: "encode_pointer_tokens ts = encode_pointer_tokens us \<longleftrightarrow> ts = us"
  using decode_encode_pointer by (metis option.inject)

lemma encode_pointer_append:
  "encode_pointer_tokens (ts @ us) = encode_pointer_tokens ts @ encode_pointer_tokens us"
  by (simp add: encode_pointer_tokens_def)

section \<open>Properties\<close>

text \<open>C40: pointer encoding and decoding are inverse.  Every token list is decoded back from its
  encoding, every pointer that decodes is the encoding of what it decodes to, and decoding raises
  exactly on the ill-formed pointers.\<close>

theorem pointer_round_trip:
  "decode_pointer_tokens (encode_pointer_tokens ts) = Some ts \<and>
   (decode_pointer_tokens p = Some us \<longleftrightarrow> p = encode_pointer_tokens us) \<and>
   (decode_pointer_tokens p = None \<longleftrightarrow> \<not> is_well_formed_pointer p)"
  using decode_encode_pointer encode_decode_pointer decode_pointer_total by metis

text \<open>A pointer prefix is compared token by token, never as a raw string: it matches exactly
  when both pointers are well formed and the candidate's tokens extend the prefix's tokens, so
  \<open>/paths/~1foo\<close> does not match \<open>/paths/~1foobar\<close>.\<close>

theorem pointer_prefix_is_token_prefix:
  "pointer_prefix_matches p c = Some True \<longleftrightarrow>
     (\<exists>ts us. p = encode_pointer_tokens ts \<and> c = encode_pointer_tokens (ts @ us))"
proof
  assume "pointer_prefix_matches p c = Some True"
  then obtain ts cs where ts: "decode_pointer_tokens p = Some ts" "decode_pointer_tokens c = Some cs"
    and pre: "take (length ts) cs = ts"
    by (auto simp: pointer_prefix_matches_def bind_eq_Some_conv split: if_splits)
  then have "cs = ts @ drop (length ts) cs" by (metis append_take_drop_id)
  then show "\<exists>ts us. p = encode_pointer_tokens ts \<and> c = encode_pointer_tokens (ts @ us)"
    using encode_decode_pointer ts by metis
next
  assume "\<exists>ts us. p = encode_pointer_tokens ts \<and> c = encode_pointer_tokens (ts @ us)"
  then show "pointer_prefix_matches p c = Some True"
    by (auto simp: pointer_prefix_matches_def decode_encode_pointer)
qed

end
