(* ===== verification/ServiceIdentity.thy ===== *)
theory ServiceIdentity
  imports SourceModel Pointers
begin

text \<open>
  \<open>sources/service_identity.py\<close>: the Service-id grammar and the per-construct resolution of a
  Service identity from the document extension, the configured mappings and the manifest bindings.
\<close>

section \<open>Grammar\<close>

definition segment_start :: "char \<Rightarrow> bool" where
  "segment_start c \<longleftrightarrow> (CHR ''a'' \<le> c \<and> c \<le> CHR ''z'') \<or> (CHR ''0'' \<le> c \<and> c \<le> CHR ''9'')"

definition segment_char :: "char \<Rightarrow> bool" where
  "segment_char c \<longleftrightarrow> segment_start c \<or> c = CHR ''.'' \<or> c = CHR ''_'' \<or> c = CHR ''-''"

fun is_segment :: "string \<Rightarrow> bool" where
  "is_segment [] = False"
| "is_segment (c # s) = (segment_start c \<and> list_all segment_char s)"

fun split_on :: "char \<Rightarrow> string \<Rightarrow> string list" where
  "split_on sep [] = [[]]"
| "split_on sep (c # s) =
     (if c = sep then [] # split_on sep s
      else case split_on sep s of w # ws \<Rightarrow> (c # w) # ws | [] \<Rightarrow> [[c]])"

text \<open>\<open>^service:SEG(?::SEG)?$\<close> under \<open>fullmatch\<close>.\<close>

definition is_valid_service_id :: "string \<Rightarrow> bool" where
  "is_valid_service_id v \<longleftrightarrow>
     take 8 v = ''service:'' \<and>
     (let segments = split_on (CHR '':'') (drop 8 v) in
        length segments \<le> 2 \<and> list_all is_segment segments)"

lemma split_on_nonempty [simp]: "split_on sep s \<noteq> []"
  by (induction s) (auto split: list.splits)

lemma segment_char_not_colon: "segment_char c \<Longrightarrow> c \<noteq> CHR '':''"
  by (auto simp: segment_char_def segment_start_def less_eq_char_def)

lemma is_segment_no_colon: "is_segment s \<Longrightarrow> CHR '':'' \<notin> set s"
  using segment_char_not_colon by (cases s) (auto simp: list_all_iff segment_char_def)

lemma split_on_no_sep: "sep \<notin> set s \<Longrightarrow> split_on sep s = [s]"
  by (induction s) auto

lemma split_on_append: "sep \<notin> set a \<Longrightarrow> split_on sep (a @ sep # b) = a # split_on sep b"
  by (induction a) auto

lemma split_on_join: "concat (map (\<lambda>w. sep # w) (split_on sep s)) = sep # s"
  by (induction s) (auto split: list.splits)

lemma valid_service_id_iff:
  "is_valid_service_id v \<longleftrightarrow>
     (\<exists>s. is_segment s \<and> (v = ''service:'' @ s \<or>
        (\<exists>n. is_segment n \<and> v = ''service:'' @ n @ '':'' @ s)))" (is "?l \<longleftrightarrow> ?r")
proof
  assume l: ?l
  define r where "r = drop 8 v"
  have v: "v = ''service:'' @ r"
    using l append_take_drop_id [of 8 v] by (simp add: is_valid_service_id_def r_def)
  have segs: "length (split_on (CHR '':'') r) \<le> 2" "list_all is_segment (split_on (CHR '':'') r)"
    using l by (simp_all add: is_valid_service_id_def r_def Let_def)
  then consider a where "split_on (CHR '':'') r = [a]" "is_segment a"
    | a b where "split_on (CHR '':'') r = [a, b]" "is_segment a" "is_segment b"
    by (cases "split_on (CHR '':'') r" rule: remdups_adj.cases) auto
  then show ?r
  proof cases
    case 1
    then show ?thesis using v split_on_join [of "CHR '':''" r] by auto
  next
    case 2
    then have "r = a @ '':'' @ b" using split_on_join [of "CHR '':''" r] by simp
    then show ?thesis using v 2 by auto
  qed
next
  assume ?r
  then show ?l
    by (auto simp: is_valid_service_id_def split_on_no_sep split_on_append is_segment_no_colon)
qed

section \<open>Resolution\<close>

datatype service_identity_path = EXTENSION | CONFIGURED_MAPPING | MANIFEST_BINDING

record pointer_binding =
  pb_source_instance_id :: source_instance_id
  pb_pointer_prefix :: string
  pb_service_id :: string
  pb_path :: service_identity_path

datatype service_identity_outcome =
    RESOLVED | REJECTED_UNSUPPORTED_IDENTITY | REJECTED_CONFLICT_IDENTITY | REJECTED_INVALID_IDENTITY

record service_identity_resolution =
  sir_outcome :: service_identity_outcome
  sir_service_id :: "string option"
  sir_diagnostics :: "ingestion_diagnostic list"

datatype identity_error = InconsistentResolution | MalformedPointer

text \<open>The dataclass constructor with its \<open>__post_init__\<close> check.\<close>

definition service_identity_resolution ::
  "service_identity_outcome \<Rightarrow> string option \<Rightarrow> ingestion_diagnostic list
     \<Rightarrow> identity_error + service_identity_resolution" where
  "service_identity_resolution outcome service_id diagnostics =
     (if (outcome = RESOLVED) \<noteq> (service_id \<noteq> None) then Inl InconsistentResolution
      else Inr \<lparr>sir_outcome = outcome, sir_service_id = service_id, sir_diagnostics = diagnostics\<rparr>)"

text \<open>
  The loop over the configured mappings and manifest bindings: the applicable ones in order, or the
  first applicable malformed one (\<open>Inr (Inl _)\<close>), or the ValueError of a malformed pointer.
\<close>

fun applicable_bindings ::
  "string \<Rightarrow> string \<Rightarrow> pointer_binding list
     \<Rightarrow> identity_error + (pointer_binding + pointer_binding list)" where
  "applicable_bindings source construct [] = Inr (Inr [])"
| "applicable_bindings source construct (b # bs) =
     (if pb_source_instance_id b \<noteq> source then applicable_bindings source construct bs
      else case pointer_prefix_matches (pb_pointer_prefix b) construct of
        None \<Rightarrow> Inl MalformedPointer
      | Some False \<Rightarrow> applicable_bindings source construct bs
      | Some True \<Rightarrow>
          if \<not> is_valid_service_id (pb_service_id b) then Inr (Inl b)
          else (case applicable_bindings source construct bs of
                  Inl e \<Rightarrow> Inl e
                | Inr (Inl bad) \<Rightarrow> Inr (Inl bad)
                | Inr (Inr rest) \<Rightarrow> Inr (Inr (b # rest))))"

definition resolve_applicable ::
  "string \<Rightarrow> string \<Rightarrow> pointer_binding list \<Rightarrow> pointer_binding list
     \<Rightarrow> identity_error + service_identity_resolution" where
  "resolve_applicable source construct extension candidates =
     (case applicable_bindings source construct candidates of
       Inl e \<Rightarrow> Inl e
     | Inr (Inl bad) \<Rightarrow>
         service_identity_resolution REJECTED_INVALID_IDENTITY None
           [diagnostic DC_SERVICE_IDENTITY_INVALID [pb_service_id bad] (Some construct)
              (Some (pb_source_instance_id bad))]
     | Inr (Inr found) \<Rightarrow>
         (case sorted_set (map pb_service_id (extension @ found)) of
            [] \<Rightarrow> service_identity_resolution REJECTED_UNSUPPORTED_IDENTITY None
                   [diagnostic DC_SERVICE_IDENTITY_UNRESOLVED [construct] (Some construct) (Some source)]
          | [service_id] \<Rightarrow> service_identity_resolution RESOLVED (Some service_id) []
          | ids \<Rightarrow> service_identity_resolution REJECTED_CONFLICT_IDENTITY None
                   [diagnostic DC_SERVICE_IDENTITY_CONFLICT (construct # ids) (Some construct)
                      (Some source)]))"

definition resolve_service_identity ::
  "string \<Rightarrow> string \<Rightarrow> string option \<Rightarrow> pointer_binding list \<Rightarrow> pointer_binding list
     \<Rightarrow> identity_error + service_identity_resolution" where
  "resolve_service_identity source construct extension_value configured manifest =
     (case extension_value of
        Some v \<Rightarrow>
          if \<not> is_valid_service_id v then
            service_identity_resolution REJECTED_INVALID_IDENTITY None
              [diagnostic DC_SERVICE_IDENTITY_INVALID [v] (Some construct) (Some source)]
          else resolve_applicable source construct
                 [\<lparr>pb_source_instance_id = source, pb_pointer_prefix = '''', pb_service_id = v,
                   pb_path = EXTENSION\<rparr>] (configured @ manifest)
      | None \<Rightarrow> resolve_applicable source construct [] (configured @ manifest))"

section \<open>What resolution decides\<close>

text \<open>The bindings that speak about the construct, and the ids they and the extension name.\<close>

definition binding_applies :: "string \<Rightarrow> string \<Rightarrow> pointer_binding \<Rightarrow> bool" where
  "binding_applies source construct b \<longleftrightarrow>
     pb_source_instance_id b = source \<and> pointer_prefix_matches (pb_pointer_prefix b) construct = Some True"

definition identity_evidence ::
  "string \<Rightarrow> string \<Rightarrow> string option \<Rightarrow> pointer_binding list \<Rightarrow> string set" where
  "identity_evidence source construct extension_value bs =
     set_option extension_value \<union> pb_service_id ` {b \<in> set bs. binding_applies source construct b}"

definition pointers_ok :: "string \<Rightarrow> string \<Rightarrow> pointer_binding list \<Rightarrow> bool" where
  "pointers_ok source construct bs \<longleftrightarrow>
     is_well_formed_pointer construct \<and>
     (\<forall>b\<in>set bs. pb_source_instance_id b = source \<longrightarrow> is_well_formed_pointer (pb_pointer_prefix b))"

text \<open>The verdict on a set of ids, stated without the code's order of tests.\<close>

definition identity_verdict :: "string set \<Rightarrow> service_identity_outcome \<times> string option" where
  "identity_verdict ids =
     (if \<exists>v\<in>ids. \<not> is_valid_service_id v then (REJECTED_INVALID_IDENTITY, None)
      else if ids = {} then (REJECTED_UNSUPPORTED_IDENTITY, None)
      else if is_singleton ids then (RESOLVED, Some (the_elem ids))
      else (REJECTED_CONFLICT_IDENTITY, None))"

definition resolved_to :: "identity_error + service_identity_resolution
    \<Rightarrow> (service_identity_outcome \<times> string option) option" where
  "resolved_to r = (case r of Inl _ \<Rightarrow> None | Inr s \<Rightarrow> Some (sir_outcome s, sir_service_id s))"

lemma pointer_prefix_matches_total:
  "is_well_formed_pointer p \<Longrightarrow> is_well_formed_pointer c \<Longrightarrow> \<exists>b. pointer_prefix_matches p c = Some b"
  using decode_pointer_total [of p] decode_pointer_total [of c]
  by (auto simp: pointer_prefix_matches_def)

lemma applicable_bindings_cases:
  "pointers_ok source construct bs \<Longrightarrow>
   (case applicable_bindings source construct bs of
      Inl e \<Rightarrow> False
    | Inr (Inl bad) \<Rightarrow> bad \<in> set bs \<and> binding_applies source construct bad \<and>
                         \<not> is_valid_service_id (pb_service_id bad)
    | Inr (Inr found) \<Rightarrow> found = filter (binding_applies source construct) bs \<and>
                           (\<forall>b\<in>set found. is_valid_service_id (pb_service_id b)))"
proof (induction bs)
  case Nil
  then show ?case by simp
next
  case (Cons b bs)
  have "pointers_ok source construct bs" using Cons.prems by (auto simp: pointers_ok_def)
  note IH = Cons.IH [OF this]
  have "pb_source_instance_id b = source \<Longrightarrow>
      \<exists>v. pointer_prefix_matches (pb_pointer_prefix b) construct = Some v"
    using Cons.prems by (intro pointer_prefix_matches_total) (auto simp: pointers_ok_def)
  then show ?case
    using IH by (auto simp: binding_applies_def [abs_def] split: sum.splits option.splits bool.splits)
qed

lemma resolve_applicable_spec:
  assumes "pointers_ok source construct bs"
    and "\<And>v. v \<in> set (map pb_service_id ext) \<Longrightarrow> is_valid_service_id v"
  defines "ids \<equiv> set (map pb_service_id ext) \<union>
      pb_service_id ` {b \<in> set bs. binding_applies source construct b}"
  shows "resolved_to (resolve_applicable source construct ext bs) = Some (identity_verdict ids)"
proof (cases "applicable_bindings source construct bs")
  case (Inl e)
  then show ?thesis using applicable_bindings_cases [OF assms(1)] by simp
next
  case (Inr r)
  show ?thesis
  proof (cases r)
    case bad: (Inl b)
    then have "b \<in> set bs" "binding_applies source construct b" "\<not> is_valid_service_id (pb_service_id b)"
      using applicable_bindings_cases [OF assms(1)] Inr by simp_all
    then have "\<exists>v\<in>ids. \<not> is_valid_service_id v" by (auto simp: ids_def)
    then show ?thesis
      using Inr bad by (simp add: identity_verdict_def resolve_applicable_def resolved_to_def service_identity_resolution_def)
  next
    case found: (Inr bs')
    let ?ids = "sorted_set (map pb_service_id (ext @ bs'))"
    have both: "bs' = filter (binding_applies source construct) bs \<and>
        (\<forall>b\<in>set bs'. is_valid_service_id (pb_service_id b))"
      using applicable_bindings_cases [OF assms(1)] unfolding Inr found by simp
    then have bs': "bs' = filter (binding_applies source construct) bs" by (rule conjunct1)
    have ok: "(\<forall>b\<in>set bs'. is_valid_service_id (pb_service_id b))" using both by (rule conjunct2)
    have set: "set ?ids = ids" by (auto simp: ids_def bs')
    have valid: "\<not> (\<exists>v\<in>ids. \<not> is_valid_service_id v)"
      using ok assms(2) by (auto simp: ids_def bs' list_all_iff)
    have d: "distinct ?ids" by simp
    show ?thesis
    proof (cases ?ids)
      case Nil
      then show ?thesis
        using set valid Inr found
        by (auto simp: identity_verdict_def resolve_applicable_def resolved_to_def service_identity_resolution_def)
    next
      case (Cons x xs)
      then show ?thesis
      proof (cases xs)
        case Nil
        then have "set (x # xs) = ids" using set unfolding \<open>?ids = x # xs\<close> by blast
        then have "ids = {x}" using Nil by simp
        then show ?thesis
          using valid Inr found Cons Nil
          by (auto simp: identity_verdict_def resolve_applicable_def resolved_to_def service_identity_resolution_def)
      next
        case (Cons y ys)
        have "set (x # xs) = ids" "distinct (x # xs)"
          using set d unfolding \<open>?ids = x # xs\<close> by blast+
        then have "x \<in> ids" "y \<in> ids" "x \<noteq> y" using Cons by auto
        then have "ids \<noteq> {}" "\<not> is_singleton ids" by (auto simp: is_singleton_def)
        then show ?thesis
          using valid Inr found Cons \<open>?ids = x # xs\<close>
          by (simp add: identity_verdict_def resolve_applicable_def resolved_to_def service_identity_resolution_def)
      qed
    qed
  qed
qed

section \<open>Properties\<close>

text \<open>C36: Service identity resolution is decided by the set of ids the evidence names.  With
  well-formed pointers the resolution never raises; it is invalid exactly when some applicable
  evidence is malformed, unsupported exactly when there is none, resolved exactly when all of it
  agrees on one id (which is the result), and a conflict otherwise.  The order of the mappings and
  their multiplicity play no part.\<close>

theorem service_identity_decided_by_evidence:
  assumes "pointers_ok source construct (configured @ manifest)"
  shows "resolved_to (resolve_service_identity source construct extension_value configured manifest) =
    Some (identity_verdict (identity_evidence source construct extension_value (configured @ manifest)))"
proof (cases extension_value)
  case None
  then show ?thesis
    using resolve_applicable_spec [OF assms, of "[]"]
    by (simp add: resolve_service_identity_def identity_evidence_def)
next
  case (Some v)
  let ?ext = "[\<lparr>pb_source_instance_id = source, pb_pointer_prefix = '''', pb_service_id = v,
             pb_path = EXTENSION\<rparr>]"
  show ?thesis
  proof (cases "is_valid_service_id v")
    case False
    then show ?thesis using Some
      by (auto simp: resolve_service_identity_def identity_evidence_def resolved_to_def
          service_identity_resolution_def identity_verdict_def)
  next
    case True
    then have "set_option extension_value = set (map pb_service_id ?ext)" using Some by simp
    then show ?thesis
      using Some True resolve_applicable_spec [OF assms, of ?ext]
      unfolding resolve_service_identity_def identity_evidence_def by simp
  qed
qed

lemma service_identity_decided_by_evidence_witness:
  "resolved_to (resolve_service_identity ''s'' ''/paths/x'' None
     [\<lparr>pb_source_instance_id = ''s'', pb_pointer_prefix = ''/paths'', pb_service_id = ''service:a'',
       pb_path = CONFIGURED_MAPPING\<rparr>] []) = Some (RESOLVED, Some ''service:a'')"
proof -
  let ?b = "\<lparr>pb_source_instance_id = ''s'', pb_pointer_prefix = ''/paths'', pb_service_id = ''service:a'',
       pb_path = CONFIGURED_MAPPING\<rparr>"
  have ok: "pointers_ok ''s'' ''/paths/x'' ([?b] @ [])"
    by (simp add: pointers_ok_def is_well_formed_pointer_def)
  have "binding_applies ''s'' ''/paths/x'' ?b"
    by (simp add: binding_applies_def pointer_prefix_matches_def decode_pointer_tokens_def
        is_well_formed_pointer_def decode_token_def)
  then have ids: "identity_evidence ''s'' ''/paths/x'' None ([?b] @ []) = {''service:a''}"
    by (auto simp: identity_evidence_def)
  have "is_valid_service_id ''service:a''" by code_simp
  then show ?thesis
    using service_identity_decided_by_evidence [OF ok, of None] ids
    by (simp add: identity_verdict_def)
qed

end
