(* ===== verification/ManifestBindings.thy ===== *)
theory ManifestBindings
  imports ServiceIdentity
begin

text \<open>
  \<open>sources/manifest_bindings.py\<close>: parsing of the bindings of one ArchitectureIdentityBindings
  document (its JSON-schema check is the jsonschema library's, so a document here has passed it) and
  the binding index over all discovered documents.
\<close>

record raw_binding =
  raw_source_instance_id :: string
  raw_pointer_prefix :: string
  raw_service_id :: string

record architecture_identity_binding =
  ab_source_instance_id :: string
  ab_pointer_prefix :: string
  ab_pointer_tokens :: "string list"
  ab_service_id :: string

record bindings_document =
  bd_manifest_id :: string
  bd_manifest_revision :: string
  bd_locator :: string
  bd_bindings :: "architecture_identity_binding list"

record binding_index_entry =
  be_source_instance_id :: string
  be_pointer_prefix :: string
  be_pointer_tokens :: "string list"
  be_service_id :: string
  be_manifest_id :: string
  be_manifest_revision :: string

section \<open>Parsing one document\<close>

definition parse_binding ::
  "nat \<Rightarrow> raw_binding \<Rightarrow> ingestion_diagnostic + architecture_identity_binding" where
  "parse_binding index raw =
     (case decode_pointer_tokens (raw_pointer_prefix raw) of
        None \<Rightarrow> Inl (diagnostic DC_MANIFEST_BINDING_POINTER_INVALID [show_nat index, raw_pointer_prefix raw]
                      (Some (''/bindings/'' @ show_nat index @ ''/pointerPrefix'')) (Some (raw_source_instance_id raw)))
      | Some tokens \<Rightarrow>
          if \<not> is_valid_service_id (raw_service_id raw) then
            Inl (diagnostic DC_SERVICE_IDENTITY_INVALID [show_nat index, raw_service_id raw]
                  (Some (''/bindings/'' @ show_nat index @ ''/serviceId'')) (Some (raw_source_instance_id raw)))
          else Inr \<lparr>ab_source_instance_id = raw_source_instance_id raw,
                    ab_pointer_prefix = raw_pointer_prefix raw, ab_pointer_tokens = tokens,
                    ab_service_id = raw_service_id raw\<rparr>)"

fun lefts :: "('a + 'b) list \<Rightarrow> 'a list" where
  "lefts [] = []"
| "lefts (Inl x # xs) = x # lefts xs"
| "lefts (Inr y # xs) = lefts xs"

fun rights :: "('a + 'b) list \<Rightarrow> 'b list" where
  "rights [] = []"
| "rights (Inl x # xs) = rights xs"
| "rights (Inr y # xs) = y # rights xs"

text \<open>Either every diagnostic of the document, or the document.\<close>

definition parse_bindings ::
  "string \<Rightarrow> string \<Rightarrow> string \<Rightarrow> raw_binding list \<Rightarrow> ingestion_diagnostic list + bindings_document" where
  "parse_bindings manifest_id revision locator raws =
     (let results = map (\<lambda>(index, raw). parse_binding index raw) (enumerate 0 raws) in
      if lefts results \<noteq> [] then Inl (lefts results)
      else Inr \<lparr>bd_manifest_id = manifest_id, bd_manifest_revision = revision, bd_locator = locator,
                bd_bindings = rights results\<rparr>)"

section \<open>The binding index\<close>

definition entry_sort_key ::
  "binding_index_entry \<Rightarrow> string \<times> string \<times> string \<times> string list \<times> string" where
  "entry_sort_key e = (be_manifest_id e, be_manifest_revision e, be_source_instance_id e,
     be_pointer_tokens e, be_service_id e)"

definition raw_entry :: "bindings_document \<Rightarrow> architecture_identity_binding \<Rightarrow> binding_index_entry" where
  "raw_entry d b = \<lparr>be_source_instance_id = ab_source_instance_id b,
     be_pointer_prefix = ab_pointer_prefix b, be_pointer_tokens = ab_pointer_tokens b,
     be_service_id = ab_service_id b, be_manifest_id = bd_manifest_id d,
     be_manifest_revision = bd_manifest_revision d\<rparr>"

definition known_source :: "string list option \<Rightarrow> string \<Rightarrow> bool" where
  "known_source known s = (case known of None \<Rightarrow> True | Some ids \<Rightarrow> s \<in> set ids)"

definition raw_entries :: "string list option \<Rightarrow> bindings_document list \<Rightarrow> binding_index_entry list" where
  "raw_entries known documents = concat (map (\<lambda>d. map (raw_entry d)
     (filter (\<lambda>b. known_source known (ab_source_instance_id b)) (bd_bindings d))) documents)"

definition unknown_source_diagnostics ::
  "string list option \<Rightarrow> bindings_document list \<Rightarrow> ingestion_diagnostic list" where
  "unknown_source_diagnostics known documents = concat (map (\<lambda>d.
     map (\<lambda>b. diagnostic DC_MANIFEST_BINDING_UNKNOWN_SOURCE [ab_source_instance_id b]
            (Some (ab_pointer_prefix b)) (Some (ab_source_instance_id b)))
       (filter (\<lambda>b. \<not> known_source known (ab_source_instance_id b)) (bd_bindings d))) documents)"

definition dedupe_key :: "binding_index_entry \<Rightarrow> string \<times> string list \<times> string" where
  "dedupe_key e = (be_source_instance_id e, be_pointer_tokens e, be_service_id e)"

text \<open>Keep the first entry of every key (the \<open>seen\<close> set of the loop).\<close>

fun dedupe_by :: "('a \<Rightarrow> 'k) \<Rightarrow> 'k list \<Rightarrow> 'a list \<Rightarrow> 'a list" where
  "dedupe_by key seen [] = []"
| "dedupe_by key seen (e # es) =
     (if key e \<in> set seen then dedupe_by key seen es
      else e # dedupe_by key (key e # seen) es)"

definition entries_overlap :: "binding_index_entry \<Rightarrow> binding_index_entry \<Rightarrow> bool" where
  "entries_overlap shorter longer \<longleftrightarrow>
     take (length (be_pointer_tokens shorter)) (be_pointer_tokens longer) = be_pointer_tokens shorter"

definition pair_conflict :: "binding_index_entry \<Rightarrow> binding_index_entry \<Rightarrow> ingestion_diagnostic list" where
  "pair_conflict first second =
     (if be_service_id first = be_service_id second then []
      else let (shorter, longer) =
             (if length (be_pointer_tokens first) \<le> length (be_pointer_tokens second)
              then (first, second) else (second, first)) in
        if entries_overlap shorter longer then
          [diagnostic DC_SERVICE_IDENTITY_CONFLICT
            [be_source_instance_id first, be_pointer_prefix shorter, be_pointer_prefix longer,
             be_service_id first, be_service_id second]
            (Some (be_pointer_prefix longer)) (Some (be_source_instance_id first))]
        else [])"

fun pair_conflicts :: "binding_index_entry list \<Rightarrow> ingestion_diagnostic list" where
  "pair_conflicts [] = []"
| "pair_conflicts (first # rest) = concat (map (pair_conflict first) rest) @ pair_conflicts rest"

definition by_source :: "binding_index_entry list \<Rightarrow> binding_index_entry list list" where
  "by_source entries = map (\<lambda>s. filter (\<lambda>e. be_source_instance_id e = s) entries)
     (dedupe_by id [] (map be_source_instance_id entries))"

definition index_entries :: "string list option \<Rightarrow> bindings_document list \<Rightarrow> binding_index_entry list" where
  "index_entries known documents =
     dedupe_by dedupe_key [] (sort_key entry_sort_key (raw_entries known documents))"

definition build_binding_index ::
  "string list option \<Rightarrow> bindings_document list \<Rightarrow> binding_index_entry list \<times> ingestion_diagnostic list" where
  "build_binding_index known documents =
     (let deduped = index_entries known documents in
      (deduped, unknown_source_diagnostics known documents @
         concat (map pair_conflicts (by_source deduped))))"

definition applicable_to :: "binding_index_entry list \<Rightarrow> string \<Rightarrow> string \<Rightarrow> binding_index_entry list" where
  "applicable_to entries source construct = filter (\<lambda>e. be_source_instance_id e = source \<and>
     pointer_prefix_matches (be_pointer_prefix e) construct = Some True) entries"

section \<open>Lemmas\<close>

lemma set_dedupe_by_subset: "set (dedupe_by key seen es) \<subseteq> set es"
  by (induction key seen es rule: dedupe_by.induct) auto

lemma keys_dedupe_by: "key ` set (dedupe_by key seen es) = key ` set es - set seen"
  by (induction key seen es rule: dedupe_by.induct) auto

lemma distinct_dedupe_by: "distinct (map key (dedupe_by key seen es))"
proof (induction key seen es rule: dedupe_by.induct)
  case (2 key seen e es)
  then show ?case using keys_dedupe_by [of key "key e # seen" es] by auto
qed simp

lemma set_dedupe_by_id [simp]: "set (dedupe_by id [] es) = set es"
  using keys_dedupe_by [of id "[]" es] by simp

text \<open>
  Well-formed documents: the prefix of a binding and its tokens are the same pointer, as parsing
  leaves them.
\<close>

definition document_ok :: "bindings_document \<Rightarrow> bool" where
  "document_ok d \<longleftrightarrow> (\<forall>b\<in>set (bd_bindings d). ab_pointer_prefix b = encode_pointer_tokens (ab_pointer_tokens b)
     \<and> is_valid_service_id (ab_service_id b))"

lemma set_rights: "y \<in> set (rights xs) \<longleftrightarrow> Inr y \<in> set xs"
  by (induction xs rule: rights.induct) auto

lemma set_lefts: "x \<in> set (lefts xs) \<longleftrightarrow> Inl x \<in> set xs"
  by (induction xs rule: lefts.induct) auto

lemma parse_binding_ok:
  "parse_binding i raw = Inr b \<Longrightarrow>
   ab_pointer_prefix b = encode_pointer_tokens (ab_pointer_tokens b) \<and> is_valid_service_id (ab_service_id b)"
  using encode_decode_pointer [of "raw_pointer_prefix raw"]
  by (auto simp: parse_binding_def split: option.splits if_splits)

lemma parse_bindings_document_ok: "parse_bindings m r l raws = Inr d \<Longrightarrow> document_ok d"
  using parse_binding_ok
  by (fastforce simp: parse_bindings_def document_ok_def set_rights Let_def split: if_splits)

lemma raw_entries_key_inject:
  assumes "\<forall>d\<in>set documents. document_ok d"
  shows "inj_on entry_sort_key (set (raw_entries known documents))"
  using assms
  by (intro inj_onI) (fastforce simp: raw_entries_def raw_entry_def entry_sort_key_def document_ok_def)

lemma mset_raw_entries:
  "mset (raw_entries known documents) =
     (\<Sum>d\<in>#mset documents. {# raw_entry d b. b \<in># mset (filter (\<lambda>b. known_source known (ab_source_instance_id b)) (bd_bindings d)) #})"
  by (induction documents) (simp_all add: raw_entries_def)

lemma mset_raw_entries_perm:
  "mset ds = mset ds' \<Longrightarrow> mset (raw_entries known ds) = mset (raw_entries known ds')"
  by (simp add: mset_raw_entries)

text \<open>Two entries of one source speak about a common construct.\<close>

definition entries_clash :: "binding_index_entry \<Rightarrow> binding_index_entry \<Rightarrow> bool" where
  "entries_clash a b \<longleftrightarrow> be_source_instance_id a = be_source_instance_id b \<and>
     be_service_id a \<noteq> be_service_id b \<and> (entries_overlap a b \<or> entries_overlap b a)"

lemma entries_overlap_length:
  "entries_overlap a b \<Longrightarrow> length (be_pointer_tokens a) \<le> length (be_pointer_tokens b)"
  unfolding entries_overlap_def by (metis length_take min.cobounded1)

lemma entries_overlap_eq:
  "length (be_pointer_tokens a) = length (be_pointer_tokens b) \<Longrightarrow> entries_overlap a b \<Longrightarrow> entries_overlap b a"
  by (simp add: entries_overlap_def)

lemma pair_conflict_Nil_iff:
  "be_source_instance_id a = be_source_instance_id b \<Longrightarrow> pair_conflict a b = [] \<longleftrightarrow> \<not> entries_clash a b"
  using entries_overlap_length [of a b] entries_overlap_length [of b a] entries_overlap_eq [of b a]
  by (auto simp: pair_conflict_def entries_clash_def Let_def)

lemma entries_clash_sym: "entries_clash a b \<longleftrightarrow> entries_clash b a"
  by (auto simp: entries_clash_def)

lemma entries_clash_irrefl [simp]: "\<not> entries_clash a a"
  by (simp add: entries_clash_def)

lemma pair_conflicts_Nil_iff:
  "(\<And>a b. a \<in> set es \<Longrightarrow> b \<in> set es \<Longrightarrow> be_source_instance_id a = be_source_instance_id b) \<Longrightarrow>
   pair_conflicts es = [] \<longleftrightarrow> (\<forall>a\<in>set es. \<forall>b\<in>set es. \<not> entries_clash a b)"
proof (induction es)
  case (Cons e es)
  have "pair_conflicts es = [] \<longleftrightarrow> (\<forall>a\<in>set es. \<forall>b\<in>set es. \<not> entries_clash a b)"
    by (rule Cons.IH, rule Cons.prems; simp)
  moreover have "pair_conflict e b = [] \<longleftrightarrow> \<not> entries_clash e b" if "b \<in> set es" for b
    by (rule pair_conflict_Nil_iff, rule Cons.prems) (simp_all add: that)
  then have "concat (map (pair_conflict e) es) = [] \<longleftrightarrow> (\<forall>b\<in>set es. \<not> entries_clash e b)"
    by (auto simp only: concat_eq_Nil_conv list.set_map)
  moreover have "entries_clash a e \<longleftrightarrow> entries_clash e a" for a
    by (rule entries_clash_sym)
  ultimately show ?case
    by (simp only: pair_conflicts.simps append_is_Nil_conv list.set ball_simps entries_clash_irrefl) blast
qed simp

lemma by_source_conflicts_Nil_iff:
  "concat (map pair_conflicts (by_source es)) = [] \<longleftrightarrow> (\<forall>a\<in>set es. \<forall>b\<in>set es. \<not> entries_clash a b)"
proof -
  have "concat (map pair_conflicts (by_source es)) = [] \<longleftrightarrow>
    (\<forall>s\<in>be_source_instance_id ` set es. pair_conflicts (filter (\<lambda>e. be_source_instance_id e = s) es) = [])"
    by (auto simp: by_source_def)
  also have "\<dots> \<longleftrightarrow> (\<forall>a\<in>set es. \<forall>b\<in>set es. \<not> entries_clash a b)"
    by (subst ball_cong [OF refl pair_conflicts_Nil_iff])
      (auto simp: entries_clash_def, (metis (no_types, lifting))+)
  finally show ?thesis .
qed

lemma entries_clash_key:
  "dedupe_key a = dedupe_key a' \<Longrightarrow> dedupe_key b = dedupe_key b' \<Longrightarrow> entries_clash a b \<longleftrightarrow> entries_clash a' b'"
  by (simp add: entries_clash_def entries_overlap_def dedupe_key_def)

lemma dedupe_key_index_entries:
  "dedupe_key ` set (index_entries known ds) = dedupe_key ` set (raw_entries known ds)"
  by (simp add: index_entries_def keys_dedupe_by)

lemma clash_index_iff_raw:
  "(\<forall>a\<in>set (index_entries known ds). \<forall>b\<in>set (index_entries known ds). \<not> entries_clash a b) \<longleftrightarrow>
   (\<forall>a\<in>set (raw_entries known ds). \<forall>b\<in>set (raw_entries known ds). \<not> entries_clash a b)"
proof -
  have "set (index_entries known ds) \<subseteq> set (raw_entries known ds)"
    using set_dedupe_by_subset [of dedupe_key "[]" "sort_key entry_sort_key (raw_entries known ds)"]
    by (simp add: index_entries_def)
  moreover have "\<exists>a'\<in>set (index_entries known ds). dedupe_key a = dedupe_key a'"
    if "a \<in> set (raw_entries known ds)" for a
    using that dedupe_key_index_entries [of known ds] by (metis imageE image_eqI)
  ultimately show ?thesis by (meson entries_clash_key subsetD)
qed

lemma unknown_source_code:
  "d \<in> set (unknown_source_diagnostics known ds) \<Longrightarrow> d_code d = DC_MANIFEST_BINDING_UNKNOWN_SOURCE"
  by (auto simp: unknown_source_diagnostics_def)

lemma pair_conflicts_code: "d \<in> set (pair_conflicts es) \<Longrightarrow> d_code d = DC_SERVICE_IDENTITY_CONFLICT"
proof (induction es)
  case (Cons e es)
  have "d_code d = DC_SERVICE_IDENTITY_CONFLICT" if "d \<in> set (pair_conflict e b)" for b
    using that unfolding pair_conflict_def Let_def by (simp split: if_splits)
  then show ?case using Cons by auto
qed simp

lemma index_entries_perm:
  assumes "mset (raw_entries known ds) = mset (raw_entries known ds')" "\<forall>d\<in>set ds. document_ok d"
  shows "index_entries known ds = index_entries known ds'"
  using sort_key_perm_eq [OF assms(1) raw_entries_key_inject [OF assms(2)]]
  by (simp add: index_entries_def)

text \<open>What a document contributes, its locator and the order of its bindings aside.\<close>

definition document_content :: "bindings_document \<Rightarrow> string \<times> string \<times> architecture_identity_binding multiset" where
  "document_content d = (bd_manifest_id d, bd_manifest_revision d, mset (bd_bindings d))"

definition content_entries ::
  "string list option \<Rightarrow> string \<times> string \<times> architecture_identity_binding multiset \<Rightarrow> binding_index_entry multiset" where
  "content_entries known = (\<lambda>(m, r, bs). {# raw_entry \<lparr>bd_manifest_id = m, bd_manifest_revision = r,
     bd_locator = [], bd_bindings = []\<rparr> b. b \<in># filter_mset (\<lambda>b. known_source known (ab_source_instance_id b)) bs #})"

lemma mset_raw_entries_content:
  "mset (raw_entries known ds) = (\<Sum>c\<in>#mset (map document_content ds). content_entries known c)"
proof (induction ds)
  case (Cons d ds)
  have "raw_entry d = raw_entry \<lparr>bd_manifest_id = bd_manifest_id d,
      bd_manifest_revision = bd_manifest_revision d, bd_locator = [], bd_bindings = []\<rparr>"
    by (rule ext) (simp add: raw_entry_def)
  then have "mset (map (raw_entry d) (filter (\<lambda>b. known_source known (ab_source_instance_id b)) (bd_bindings d))) =
      content_entries known (document_content d)"
    by (simp add: content_entries_def document_content_def)
  then show ?case using Cons.IH by (simp add: raw_entries_def)
qed (simp add: raw_entries_def)

section \<open>Properties\<close>

text \<open>The binding index does not depend on discovery order.  Permuting the documents, and the
  bindings inside each document, leaves the index, its order included, and the list of conflict
  diagnostics unchanged.\<close>

theorem binding_index_order_independent:
  assumes "mset (map document_content ds) = mset (map document_content ds')" "\<forall>d\<in>set ds. document_ok d"
  shows "fst (build_binding_index known ds) = fst (build_binding_index known ds') \<and>
    filter (\<lambda>d. d_code d = DC_SERVICE_IDENTITY_CONFLICT) (snd (build_binding_index known ds)) =
    filter (\<lambda>d. d_code d = DC_SERVICE_IDENTITY_CONFLICT) (snd (build_binding_index known ds'))"
proof -
  have "mset (raw_entries known ds) = mset (raw_entries known ds')"
    using assms(1) by (simp only: mset_raw_entries_content)
  then have eq: "index_entries known ds = index_entries known ds'"
    using assms(2) by (rule index_entries_perm)
  have "filter (\<lambda>d. d_code d = DC_SERVICE_IDENTITY_CONFLICT) (unknown_source_diagnostics known es) = []" for es
    by (auto simp: filter_empty_conv dest: unknown_source_code)
  then show ?thesis using eq by (simp add: build_binding_index_def Let_def)
qed

lemma binding_index_order_independent_witness:
  "let b1 = \<lparr>ab_source_instance_id = ''s'', ab_pointer_prefix = '''', ab_pointer_tokens = [],
             ab_service_id = ''service:a''\<rparr>;
       b2 = \<lparr>ab_source_instance_id = ''t'', ab_pointer_prefix = '''', ab_pointer_tokens = [],
             ab_service_id = ''service:b''\<rparr>;
       d = (\<lambda>bs. \<lparr>bd_manifest_id = ''m'', bd_manifest_revision = ''1'', bd_locator = [], bd_bindings = bs\<rparr>) in
     fst (build_binding_index None [d [b1, b2]]) = fst (build_binding_index None [d [b2, b1]])"
proof -
  let ?b1 = "\<lparr>ab_source_instance_id = ''s'', ab_pointer_prefix = '''', ab_pointer_tokens = [],
             ab_service_id = ''service:a''\<rparr>"
  let ?b2 = "\<lparr>ab_source_instance_id = ''t'', ab_pointer_prefix = '''', ab_pointer_tokens = [],
             ab_service_id = ''service:b''\<rparr>"
  let ?d = "\<lambda>bs. \<lparr>bd_manifest_id = ''m'', bd_manifest_revision = ''1'', bd_locator = [], bd_bindings = bs\<rparr>"
  have "is_valid_service_id ''service:a''" "is_valid_service_id ''service:b''" by code_simp+
  then have "\<forall>d\<in>set [?d [?b1, ?b2]]. document_ok d"
    by (simp add: document_ok_def encode_pointer_tokens_def)
  moreover have "mset (map document_content [?d [?b1, ?b2]]) = mset (map document_content [?d [?b2, ?b1]])"
    by (simp add: document_content_def add_mset_commute)
  ultimately show ?thesis
    using binding_index_order_independent [of "[?d [?b1, ?b2]]" "[?d [?b2, ?b1]]" None] by (simp add: Let_def)
qed

text \<open>An overlap conflict is reported exactly when there is one.  The index build reports a
  Service identity conflict if and only if two accepted bindings of one source, anywhere in the
  documents, name different services for pointer prefixes one of which extends the other.\<close>

theorem binding_conflicts_complete:
  "(\<exists>d\<in>set (snd (build_binding_index known ds)). d_code d = DC_SERVICE_IDENTITY_CONFLICT) \<longleftrightarrow>
   (\<exists>a\<in>set (raw_entries known ds). \<exists>b\<in>set (raw_entries known ds). entries_clash a b)"
proof -
  let ?cs = "concat (map pair_conflicts (by_source (index_entries known ds)))"
  have codes: "d_code d = DC_SERVICE_IDENTITY_CONFLICT" if "d \<in> set ?cs" for d
    using that pair_conflicts_code by auto
  have other: "d_code d \<noteq> DC_SERVICE_IDENTITY_CONFLICT" if "d \<in> set (unknown_source_diagnostics known ds)" for d
    using unknown_source_code [OF that] by simp
  have "snd (build_binding_index known ds) = unknown_source_diagnostics known ds @ ?cs"
    by (simp add: build_binding_index_def Let_def)
  then have "(\<exists>d\<in>set (snd (build_binding_index known ds)). d_code d = DC_SERVICE_IDENTITY_CONFLICT)
      \<longleftrightarrow> (\<exists>d. d \<in> set ?cs)"
    using codes other by (simp only: set_append) blast
  also have "\<dots> \<longleftrightarrow> ?cs \<noteq> []" by (metis list.set_intros(1) list.set_cases neq_Nil_conv)
  finally show ?thesis
    using by_source_conflicts_Nil_iff [of "index_entries known ds"] clash_index_iff_raw [of known ds] by blast
qed

end
