(* ===== verification/Merge.thy ===== *)
theory Merge
  imports CanonicalModel
begin

text \<open>
  \<open>canonical/merge.py\<close>: \<open>merge_models\<close> combines the partial models of the sources.  Every
  keyed collection is a first-wins dictionary in insertion order; relations are deduplicated by a
  \<open>seen\<close> set over their triple; an infrastructure claim unions the evidence of its duplicates.
  The contract of a first-wins index is the locale below, interpreted on both implementations.
\<close>

section \<open>First-wins indexes\<close>

text \<open>\<open>for x in items: d.setdefault(key(x), x)\<close>, then \<open>list(d.values())\<close>.\<close>

definition setdefault_all :: "('a \<Rightarrow> 'k) \<Rightarrow> 'a list \<Rightarrow> 'a list" where
  "setdefault_all key items = map snd (foldl (\<lambda>d x. setdefault (key x) x d) [] items)"

text \<open>The loop with a \<open>seen\<close> set and an append.\<close>

definition append_unseen :: "('a \<Rightarrow> 'k) \<Rightarrow> 'a list \<Rightarrow> 'a list" where
  "append_unseen key items = snd (foldl (\<lambda>(seen, out) x.
     if key x \<in> seen then (seen, out) else (insert (key x) seen, out @ [x])) ({}, []) items)"

locale first_wins_index =
  fixes key :: "'a \<Rightarrow> 'k" and index :: "'a list \<Rightarrow> 'a list"
  assumes index_Nil: "index [] = []"
    and index_snoc: "index (xs @ [x]) = (if key x \<in> key ` set (index xs) then index xs else index xs @ [x])"
begin

lemma keys_index: "key ` set (index xs) = key ` set xs"
  by (induction xs rule: rev_induct) (auto simp: index_Nil index_snoc)

lemma distinct_keys: "distinct (map key (index xs))"
  by (induction xs rule: rev_induct) (auto simp: index_Nil index_snoc)

lemma set_index_subset: "set (index xs) \<subseteq> set xs"
  by (induction xs rule: rev_induct) (auto simp: index_Nil index_snoc)

lemma mem_index_iff_first: "x \<in> set (index xs) \<longleftrightarrow> find (\<lambda>y. key y = key x) xs = Some x"
proof (induction xs rule: rev_induct)
  case Nil
  then show ?case by (simp add: index_Nil)
next
  case (snoc y ys)
  have find: "find (\<lambda>z. key z = k) (ys @ [y]) =
      (if k \<in> key ` set ys then find (\<lambda>z. key z = k) ys else if key y = k then Some y else None)" for k
    by (induction ys) auto
  have "key x \<in> key ` set ys" if "find (\<lambda>z. key z = key x) ys = Some x"
    using that by (metis find_Some_iff image_eqI nth_mem)
  then show ?case
    using snoc by (auto simp: index_snoc keys_index find)
qed

lemma index_append:
  "index (xs @ ys) = index xs @ filter (\<lambda>y. key y \<notin> key ` set xs) (index ys)"
proof (induction ys rule: rev_induct)
  case Nil
  then show ?case by (simp add: index_Nil)
next
  case (snoc y ys)
  have "index ((xs @ ys) @ [y]) = (if key y \<in> key ` set (xs @ ys) then index (xs @ ys) else index (xs @ ys) @ [y])"
    by (simp only: index_snoc keys_index)
  then show ?case
    using snoc by (auto simp: index_snoc keys_index)
qed

lemma index_distinct: "distinct (map key xs) \<Longrightarrow> index xs = xs"
  by (induction xs rule: rev_induct) (auto simp: index_Nil index_snoc keys_index)

lemma index_idem: "index (index xs) = index xs"
  by (rule index_distinct) (rule distinct_keys)

end

lemma fold_setdefault_invar:
  fixes key :: "'a \<Rightarrow> 'k" and items :: "'a list"
  defines "d \<equiv> foldl (\<lambda>d x. setdefault (key x) x d) [] items"
  shows "map fst d = map key (map snd d)"
  unfolding d_def by (induction items rule: rev_induct) (auto simp: setdefault_def)

interpretation setdefault_index: first_wins_index key "setdefault_all key" for key :: "'a \<Rightarrow> 'k"
proof
  show "setdefault_all key [] = []" by (simp add: setdefault_all_def)
next
  fix xs :: "'a list" and x
  let ?d = "foldl (\<lambda>d x. setdefault (key x) x d) [] xs"
  have "fst ` set ?d = key ` set (map snd ?d)"
    using fold_setdefault_invar [of key xs] by (metis (no_types, lifting) list.set_map)
  then show "setdefault_all key (xs @ [x]) =
      (if key x \<in> key ` set (setdefault_all key xs) then setdefault_all key xs
       else setdefault_all key xs @ [x])"
    by (auto simp: setdefault_all_def setdefault_def map_of_eq_None_iff)
qed

lemma fold_seen_invar:
  fixes key :: "'a \<Rightarrow> 'k"
  shows "fst (foldl (\<lambda>(seen, out) x. if key x \<in> seen then (seen, out) else (insert (key x) seen, out @ [x]))
     ({}, []) items) = key ` set (append_unseen key items)"
  unfolding append_unseen_def
  by (induction items rule: rev_induct) (auto split: prod.splits)

interpretation seen_index: first_wins_index key "append_unseen key" for key :: "'a \<Rightarrow> 'k"
proof
  show "append_unseen key [] = []" by (simp add: append_unseen_def)
next
  fix xs :: "'a list" and x
  show "append_unseen key (xs @ [x]) =
      (if key x \<in> key ` set (append_unseen key xs) then append_unseen key xs else append_unseen key xs @ [x])"
    using fold_seen_invar [of key xs]
    by (auto simp: append_unseen_def split: prod.splits)
qed

section \<open>Claims\<close>

definition claim_key :: "infrastructure_claim \<Rightarrow> infrastructure_claim_kind \<times> string \<times> string option" where
  "claim_key c = (cl_kind c, cl_subject_id c, cl_object_id c)"

type_synonym claim_index = "((infrastructure_claim_kind \<times> string \<times> string option) \<times> infrastructure_claim) list"

definition merge_claim :: "claim_index \<Rightarrow> infrastructure_claim \<Rightarrow> claim_index" where
  "merge_claim d claim =
     (case map_of d (claim_key claim) of
        None \<Rightarrow> d @ [(claim_key claim, claim)]
      | Some existing \<Rightarrow>
          if set (cl_evidence_refs claim) - set (cl_evidence_refs existing) \<noteq> {} then
            AList.update (claim_key claim)
              (existing\<lparr>cl_evidence_refs := sorted_set (cl_evidence_refs existing @ cl_evidence_refs claim)\<rparr>) d
          else d)"

definition merge_claims :: "infrastructure_claim list \<Rightarrow> infrastructure_claim list" where
  "merge_claims claims = map snd (foldl merge_claim [] claims)"

section \<open>Merging models\<close>

definition relation_triple :: "relation \<Rightarrow> string \<times> string \<times> string" where
  "relation_triple r = (rel_type r, rel_source_id r, rel_target_id r)"

definition contribution_key :: "infrastructure_contribution \<Rightarrow> string \<times> string" where
  "contribution_key c = (ic_entity_id c, ic_source_instance_id c)"

definition all_of :: "(architecture_model \<Rightarrow> 'a list) \<Rightarrow> architecture_model list \<Rightarrow> 'a list" where
  "all_of field models = concat (map field models)"

definition merge_models :: "(bytes \<Rightarrow> string) \<Rightarrow> architecture_model list \<Rightarrow> architecture_model" where
  "merge_models H models =
     \<lparr>services = setdefault_all svc_id (all_of services models),
      operations = setdefault_all op_id (all_of operations models),
      queues = setdefault_all q_id (all_of queues models),
      messages = setdefault_all msg_id (all_of messages models),
      schemas = setdefault_all sch_id (all_of schemas models),
      relations = append_unseen relation_triple (all_of relations models),
      provenances = all_of provenances models,
      infrastructure_entities = setdefault_all ie_id (all_of infrastructure_entities models),
      infrastructure_contributions = setdefault_all contribution_key (all_of infrastructure_contributions models),
      infrastructure_claims = merge_claims (all_of infrastructure_claims models),
      topics = setdefault_all t_id (all_of topics models),
      subscriptions = setdefault_all sub_id (all_of subscriptions models),
      pubsub_declarations = setdefault_all (declaration_id H) (all_of pubsub_declarations models),
      brokers = setdefault_all br_id (all_of brokers models),
      dead_letter_configurations = setdefault_all (dead_letter_id H) (all_of dead_letter_configurations models),
      api_contracts = setdefault_all ac_id (all_of api_contracts models),
      api_contract_versions = setdefault_all av_id (all_of api_contract_versions models),
      api_contract_associations = setdefault_all aa_id (all_of api_contract_associations models),
      carriers = (\<lambda>kind. setdefault_all ca_id (all_of (\<lambda>m. carriers m kind) models))\<rparr>"

lemma merge_models_sel [simp]:
  "services (merge_models H models) = setdefault_all svc_id (all_of services models)"
  "operations (merge_models H models) = setdefault_all op_id (all_of operations models)"
  "queues (merge_models H models) = setdefault_all q_id (all_of queues models)"
  "messages (merge_models H models) = setdefault_all msg_id (all_of messages models)"
  "schemas (merge_models H models) = setdefault_all sch_id (all_of schemas models)"
  "relations (merge_models H models) = append_unseen relation_triple (all_of relations models)"
  "provenances (merge_models H models) = all_of provenances models"
  "infrastructure_entities (merge_models H models) = setdefault_all ie_id (all_of infrastructure_entities models)"
  "infrastructure_claims (merge_models H models) = merge_claims (all_of infrastructure_claims models)"
  "topics (merge_models H models) = setdefault_all t_id (all_of topics models)"
  "subscriptions (merge_models H models) = setdefault_all sub_id (all_of subscriptions models)"
  "brokers (merge_models H models) = setdefault_all br_id (all_of brokers models)"
  by (simp_all add: merge_models_def)

lemma map_of_merge_claim:
  "map_of (merge_claim d c) k =
     (if k = claim_key c then
        Some (case map_of d k of None \<Rightarrow> c
              | Some e \<Rightarrow> if set (cl_evidence_refs c) - set (cl_evidence_refs e) \<noteq> {}
                  then e\<lparr>cl_evidence_refs := sorted_set (cl_evidence_refs e @ cl_evidence_refs c)\<rparr> else e)
      else map_of d k)"
  by (auto simp: merge_claim_def map_of_snoc update_conv simp del: map_of_append split: option.splits)

lemma distinct_merge_claim: "distinct (map fst d) \<Longrightarrow> distinct (map fst (merge_claim d c))"
  by (auto simp: merge_claim_def distinct_update map_of_eq_None_iff split: option.splits)

lemma keys_merge_claim: "fst ` set (merge_claim d c) = insert (claim_key c) (fst ` set d)"
  by (auto simp: merge_claim_def dom_update split: option.splits) (metis fst_conv image_eqI map_of_SomeD)

definition claim_evidence :: "infrastructure_claim list \<Rightarrow> infrastructure_claim_kind \<times> string \<times> string option \<Rightarrow> string set"
  where "claim_evidence cs k = (\<Union>c\<in>{c \<in> set cs. claim_key c = k}. set (cl_evidence_refs c))"

lemma claim_evidence_snoc:
  "claim_evidence (cs @ [c]) k =
     (if k = claim_key c then claim_evidence cs k \<union> set (cl_evidence_refs c) else claim_evidence cs k)"
  by (auto simp: claim_evidence_def)

text \<open>What the dictionary holds after the claims \<open>cs\<close>.\<close>

definition claim_entry_ok ::
  "infrastructure_claim list \<Rightarrow> infrastructure_claim_kind \<times> string \<times> string option \<Rightarrow> infrastructure_claim \<Rightarrow> bool" where
  "claim_entry_ok cs k e \<longleftrightarrow> claim_key e = k \<and> set (cl_evidence_refs e) = claim_evidence cs k \<and>
     ((\<forall>c\<in>set cs. infrastructure_claim_valid c) \<longrightarrow> infrastructure_claim_valid e)"

definition claim_index_ok :: "claim_index \<Rightarrow> infrastructure_claim list \<Rightarrow> bool" where
  "claim_index_ok d cs \<longleftrightarrow> distinct (map fst d) \<and> fst ` set d = claim_key ` set cs \<and>
     (\<forall>x\<in>set d. claim_entry_ok cs (fst x) (snd x))"

lemma claim_index_okD: "claim_index_ok d cs \<Longrightarrow> map_of d k = Some e \<Longrightarrow> claim_entry_ok cs k e"
  unfolding claim_index_ok_def by (metis fst_conv map_of_SomeD snd_conv)

lemma claim_index_okI:
  assumes "distinct (map fst d)" "fst ` set d = claim_key ` set cs"
    and "\<And>k e. map_of d k = Some e \<Longrightarrow> claim_entry_ok cs k e"
  shows "claim_index_ok d cs"
  unfolding claim_index_ok_def using assms by (metis map_of_eq_Some_iff prod.collapse)

lemma union_claim_valid:
  assumes "infrastructure_claim_valid e" "infrastructure_claim_valid c"
  shows "infrastructure_claim_valid
    (e\<lparr>cl_evidence_refs := sorted_set (cl_evidence_refs e @ cl_evidence_refs c)\<rparr>)"
  using assms by (auto simp: infrastructure_claim_valid_def check_evidence_refs_ok_iff)

lemma claim_index_ok_step:
  assumes "claim_index_ok d cs"
  shows "claim_index_ok (merge_claim d c) (cs @ [c])"
proof -
  have keys: "distinct (map fst d)" "fst ` set d = claim_key ` set cs"
    using assms by (simp_all add: claim_index_ok_def)
  show ?thesis
  proof (rule claim_index_okI)
    show "distinct (map fst (merge_claim d c))" using keys(1) by (rule distinct_merge_claim)
    show "fst ` set (merge_claim d c) = claim_key ` set (cs @ [c])" using keys(2) by (simp add: keys_merge_claim)
  next
    fix k e
    assume e: "map_of (merge_claim d c) k = Some e"
    show "claim_entry_ok (cs @ [c]) k e"
    proof (cases "k = claim_key c")
      case False
      then have "map_of d k = Some e" using e by (simp add: map_of_merge_claim)
      then have "claim_entry_ok cs k e" by (rule claim_index_okD [OF assms])
      then show ?thesis using False by (simp add: claim_entry_ok_def claim_evidence_snoc)
    next
      case k: True
      show ?thesis
      proof (cases "map_of d k")
        case None
        then have "k \<notin> claim_key ` set cs" using keys(2) by (metis map_of_eq_None_iff)
        then have "claim_evidence cs k = {}" by (auto simp: claim_evidence_def)
        then show ?thesis using e k None by (simp add: map_of_merge_claim claim_evidence_snoc claim_entry_ok_def)
      next
        case (Some f)
        then have f: "claim_entry_ok cs k f" by (rule claim_index_okD [OF assms])
        let ?u = "f\<lparr>cl_evidence_refs := sorted_set (cl_evidence_refs f @ cl_evidence_refs c)\<rparr>"
        have u: "claim_entry_ok (cs @ [c]) k ?u"
          using f union_claim_valid [of f c] k
          unfolding claim_entry_ok_def by (simp add: claim_evidence_snoc claim_key_def)
        have same: "claim_entry_ok (cs @ [c]) k f" if "set (cl_evidence_refs c) \<subseteq> set (cl_evidence_refs f)"
          using f that k unfolding claim_entry_ok_def by (auto simp only: claim_evidence_snoc set_append refl if_True)
        have "e = ?u \<or> e = f \<and> set (cl_evidence_refs c) \<subseteq> set (cl_evidence_refs f)"
          using e k Some by (simp add: map_of_merge_claim split: if_splits)
        then show ?thesis using u same by blast
      qed
    qed
  qed
qed

lemma claim_index_ok_fold: "claim_index_ok (foldl merge_claim [] cs) cs"
proof (induction cs rule: rev_induct)
  case Nil
  then show ?case by (simp add: claim_index_ok_def)
next
  case (snoc c cs)
  then show ?case by (simp add: claim_index_ok_step)
qed

lemma merge_claims_entry: "m \<in> set (merge_claims cs) \<Longrightarrow> claim_entry_ok cs (claim_key m) m"
proof -
  assume "m \<in> set (merge_claims cs)"
  then obtain k where "(k, m) \<in> set (foldl merge_claim [] cs)" by (auto simp: merge_claims_def)
  then have "claim_entry_ok cs k m"
    using claim_index_ok_fold [of cs] by (auto simp only: claim_index_ok_def fst_conv snd_conv dest: bspec)
  then show ?thesis by (simp add: claim_entry_ok_def)
qed

section \<open>Properties\<close>

text \<open>The result of a first-wins merge of \<open>ins\<close>.\<close>

definition first_wins_of :: "('a \<Rightarrow> 'k) \<Rightarrow> 'a list \<Rightarrow> 'a list \<Rightarrow> bool" where
  "first_wins_of key out ins \<longleftrightarrow>
     distinct (map key out) \<and> (\<forall>x. x \<in> set out \<longleftrightarrow> find (\<lambda>y. key y = key x) ins = Some x)"

lemma first_wins_setdefault: "first_wins_of key (setdefault_all key xs) xs"
  by (simp add: first_wins_of_def setdefault_index.distinct_keys setdefault_index.mem_index_iff_first)

lemma first_wins_seen: "first_wins_of key (append_unseen key xs) xs"
  by (simp add: first_wins_of_def seen_index.distinct_keys seen_index.mem_index_iff_first)

text \<open>Merging keeps, for every id (for a relation: type, source and target), exactly the first
  element the sources emit, once; the evidence list is the concatenation of the sources' lists.\<close>

theorem merge_models_first_wins:
  "first_wins_of svc_id (services (merge_models H ms)) (all_of services ms) \<and>
   first_wins_of op_id (operations (merge_models H ms)) (all_of operations ms) \<and>
   first_wins_of q_id (queues (merge_models H ms)) (all_of queues ms) \<and>
   first_wins_of msg_id (messages (merge_models H ms)) (all_of messages ms) \<and>
   first_wins_of sch_id (schemas (merge_models H ms)) (all_of schemas ms) \<and>
   first_wins_of t_id (topics (merge_models H ms)) (all_of topics ms) \<and>
   first_wins_of sub_id (subscriptions (merge_models H ms)) (all_of subscriptions ms) \<and>
   first_wins_of br_id (brokers (merge_models H ms)) (all_of brokers ms) \<and>
   first_wins_of ie_id (infrastructure_entities (merge_models H ms)) (all_of infrastructure_entities ms) \<and>
   first_wins_of relation_triple (relations (merge_models H ms)) (all_of relations ms) \<and>
   first_wins_of ca_id (carriers (merge_models H ms) k) (all_of (\<lambda>m. carriers m k) ms) \<and>
   provenances (merge_models H ms) = concat (map provenances ms)"
  by (simp add: first_wins_setdefault first_wins_seen) (simp add: merge_models_def all_of_def first_wins_setdefault)

text \<open>C35: no source's evidence for an infrastructure claim is lost.  Merged claims are one per
  (kind, subject, object); each carries exactly the union of the evidence its duplicates carry, in
  whatever order the sources came; and merging valid claims yields valid ones (non-empty, sorted,
  duplicate-free evidence, correct arity).\<close>

theorem merge_claims_union_evidence:
  "distinct (map claim_key (merge_claims cs)) \<and>
   claim_key ` set (merge_claims cs) = claim_key ` set cs \<and>
   (\<forall>m. m \<in> set (merge_claims cs) \<longrightarrow> set (cl_evidence_refs m) = claim_evidence cs (claim_key m)) \<and>
   ((\<forall>c. c \<in> set cs \<longrightarrow> infrastructure_claim_valid c) \<longrightarrow>
      (\<forall>m. m \<in> set (merge_claims cs) \<longrightarrow> infrastructure_claim_valid m))"
proof -
  let ?d = "foldl merge_claim [] cs"
  have ok: "claim_index_ok ?d cs" by (rule claim_index_ok_fold)
  have "\<forall>x\<in>set ?d. claim_key (snd x) = fst x"
    using ok by (simp add: claim_index_ok_def claim_entry_ok_def)
  then have keys: "map claim_key (map snd ?d) = map fst ?d" by (simp only: list.map_comp map_eq_conv comp_apply)
  have d: "distinct (map claim_key (merge_claims cs))"
    using ok unfolding merge_claims_def keys by (simp add: claim_index_ok_def)
  have s: "set (map claim_key (merge_claims cs)) = claim_key ` set cs"
    using ok unfolding merge_claims_def keys by (simp add: claim_index_ok_def)
  show ?thesis
    using d s merge_claims_entry [of _ cs] by (simp add: claim_entry_ok_def)
qed

lemma merge_claims_union_evidence_witness:
  "let c = (\<lambda>r. \<lparr>cl_kind = WORKLOAD_EXISTS, cl_subject_id = ''w'', cl_object_id = None,
        cl_evidence_refs = [r], cl_mapping_rule_id = ''m'', cl_mapping_rule_version = ''1''\<rparr>) in
   map cl_evidence_refs (merge_claims [c ''b'', c ''a'']) = [[''a'', ''b'']] \<and>
   (\<forall>m\<in>set (merge_claims [c ''b'', c ''a'']). infrastructure_claim_valid m)"
proof -
  let ?c = "\<lambda>r. \<lparr>cl_kind = WORKLOAD_EXISTS, cl_subject_id = ''w'', cl_object_id = None,
        cl_evidence_refs = [r], cl_mapping_rule_id = ''m'', cl_mapping_rule_version = ''1''\<rparr>"
  have "\<forall>c. c \<in> set [?c ''b'', ?c ''a''] \<longrightarrow> infrastructure_claim_valid c"
    by (simp add: infrastructure_claim_valid_def check_evidence_refs_ok_iff unary_claim_kinds_def)
  then have "\<forall>m\<in>set (merge_claims [?c ''b'', ?c ''a'']). infrastructure_claim_valid m"
    using merge_claims_union_evidence [of "[?c ''b'', ?c ''a'']"] by blast
  moreover have "map cl_evidence_refs (merge_claims [?c ''b'', ?c ''a'']) = [[''a'', ''b'']]"
    by code_simp
  ultimately show ?thesis unfolding Let_def by (rule conjI [rotated])
qed

end
