(* ===== verification/CanonicalValidation.thy ===== *)
theory CanonicalValidation
  imports Merge
begin

text \<open>
  \<open>validation/canonical_validation.py\<close>: the V1-V8 checks, the Pub/Sub and Broker endpoint
  rules and the infrastructure checks over a merged model, as the list of issues in the code's order.
  A message is a constructor carrying the values interpolated in its text.
\<close>

datatype issue_message =
    NotUnique string string
  | ProvidersCount string nat
  | ProviderMismatch string string string
  | CallsUnknownOperation string string
  | UnknownSchemaTarget string string string
  | OperationUnknownSchema string string
  | MessageUnknownSchema string string
  | OwnDeadLetterQueue string
  | UnknownRelationSource string string
  | UnknownRelationTarget string string
  | NotAService string
  | NotABroker string
  | NotOfKind string string string
  | ReceivesFromTopic string
  | CarriesFromSubscription string
  | SubscriptionTopics string "string list"
  | UnknownDeclarationEntity string string
  | UnknownDeadLetterSubscription string string
  | UnknownRelationEvidence string string string string
  | UnknownContributionEntity string string
  | UnknownClaimSubject string string
  | UnknownClaimObject string "string option"
  | UnknownInfrastructureEvidence string string
  | PublicInfrastructureEvidence string string string

record validation_issue =
  vi_message :: issue_message
  vi_element_ids :: "string list"

definition issue :: "issue_message \<Rightarrow> string list \<Rightarrow> validation_issue" where
  "issue msg ids = \<lparr>vi_message = msg, vi_element_ids = ids\<rparr>"

text \<open>A conditional append to \<open>errors\<close>.\<close>

definition issue_if :: "bool \<Rightarrow> issue_message \<Rightarrow> string list \<Rightarrow> validation_issue list" where
  "issue_if b msg ids = (if b then [issue msg ids] else [])"

lemma issue_if_Nil [simp]: "issue_if b msg ids = [] \<longleftrightarrow> \<not> b"
  by (simp add: issue_if_def)

definition for_each :: "'a list \<Rightarrow> ('a \<Rightarrow> 'b list) \<Rightarrow> 'b list" where
  "for_each xs f = concat (map f xs)"

lemma for_each_Nil [simp]: "for_each xs f = [] \<longleftrightarrow> (\<forall>x\<in>set xs. f x = [])"
  by (auto simp: for_each_def)

lemma set_for_each [simp]: "set (for_each xs f) = (\<Union>x\<in>set xs. set (f x))"
  by (simp add: for_each_def)

fun check_unique_from :: "string list \<Rightarrow> string list \<Rightarrow> string \<Rightarrow> validation_issue list" where
  "check_unique_from seen [] label = []"
| "check_unique_from seen (i # ids) label =
     issue_if (i \<in> set seen) (NotUnique label i) [i] @ check_unique_from (i # seen) ids label"

definition check_unique :: "string list \<Rightarrow> string \<Rightarrow> validation_issue list" where
  "check_unique ids label = check_unique_from [] ids label"

definition check_unique_ids :: "architecture_model \<Rightarrow> validation_issue list" where
  "check_unique_ids m =
     check_unique (map svc_id (services m)) ''Service'' @
     check_unique (map q_id (queues m)) ''Queue'' @
     check_unique (map msg_id (messages m)) ''Message'' @
     check_unique (map t_id (topics m)) ''Topic'' @
     check_unique (map sub_id (subscriptions m)) ''Subscription'' @
     check_unique (map br_id (brokers m)) ''Broker''"

definition providers_of :: "architecture_model \<Rightarrow> string \<Rightarrow> string list" where
  "providers_of m op = map rel_source_id
     (filter (\<lambda>r. rel_type r = ''PROVIDES'' \<and> rel_target_id r = op) (relations m))"

definition provides_key :: "string \<Rightarrow> string \<Rightarrow> string" where
  "provides_key provider op = ''PROVIDES:'' @ provider @ '':'' @ op"

definition check_operation_providers :: "architecture_model \<Rightarrow> validation_issue list" where
  "check_operation_providers m = for_each (operations m) (\<lambda>operation.
     let providers = providers_of m (op_id operation);
         ids = op_id operation # map (\<lambda>p. provides_key p (op_id operation)) providers in
     if length providers \<noteq> 1 then [issue (ProvidersCount (op_id operation) (length providers)) ids]
     else if hd providers \<noteq> op_service_id operation then
       [issue (ProviderMismatch (op_id operation) (hd providers) (op_service_id operation)) ids]
     else [])"

definition check_calls_targets :: "architecture_model \<Rightarrow> validation_issue list" where
  "check_calls_targets m = for_each (relations m) (\<lambda>r.
     issue_if (rel_type r = ''CALLS'' \<and> rel_target_id r \<notin> op_id ` set (operations m))
       (CallsUnknownOperation (rel_source_id r) (rel_target_id r)) [relation_key r])"

definition schema_relation_types :: "string list" where
  "schema_relation_types = [''REQUEST_SCHEMA'', ''RESPONSE_SCHEMA'', ''CONFORMS_TO'']"

definition check_schema_references :: "architecture_model \<Rightarrow> validation_issue list" where
  "check_schema_references m =
     (let schema_ids = sch_id ` set (schemas m) in
      for_each (relations m) (\<lambda>r.
        issue_if (rel_type r \<in> set schema_relation_types \<and> rel_target_id r \<notin> schema_ids)
          (UnknownSchemaTarget (rel_type r) (rel_source_id r) (rel_target_id r)) [relation_key r]) @
      for_each (operations m) (\<lambda>operation.
        for_each (op_request_schema_ids operation @ op_response_schema_ids operation) (\<lambda>s.
          issue_if (s \<notin> schema_ids) (OperationUnknownSchema (op_id operation) s) [op_id operation])) @
      for_each (messages m) (\<lambda>msg.
        issue_if (str_or (msg_schema_id msg) [] \<noteq> [] \<and> str_or (msg_schema_id msg) [] \<notin> schema_ids)
          (MessageUnknownSchema (msg_id msg) (str_or (msg_schema_id msg) [])) [msg_id msg]))"

definition check_dead_letter_targets :: "architecture_model \<Rightarrow> validation_issue list" where
  "check_dead_letter_targets m = for_each (relations m) (\<lambda>r.
     issue_if (rel_type r = ''DEAD_LETTERS_TO'' \<and> rel_source_id r = rel_target_id r)
       (OwnDeadLetterQueue (rel_source_id r)) [relation_key r])"

definition known_ids :: "architecture_model \<Rightarrow> string set" where
  "known_ids m = svc_id ` set (services m) \<union> op_id ` set (operations m) \<union> q_id ` set (queues m) \<union>
     msg_id ` set (messages m) \<union> sch_id ` set (schemas m) \<union> t_id ` set (topics m) \<union>
     sub_id ` set (subscriptions m) \<union> br_id ` set (brokers m)"

definition check_relation_endpoints :: "architecture_model \<Rightarrow> validation_issue list" where
  "check_relation_endpoints m = for_each (relations m) (\<lambda>r.
     issue_if (rel_source_id r \<notin> known_ids m) (UnknownRelationSource (rel_type r) (rel_source_id r))
       [relation_key r] @
     issue_if (rel_target_id r \<notin> known_ids m) (UnknownRelationTarget (rel_type r) (rel_target_id r))
       [relation_key r])"

section \<open>Pub/Sub and brokers\<close>

datatype pubsub_side = ServiceSide | TopicSide | SubscriptionSide

definition side_name :: "pubsub_side \<Rightarrow> string" where
  "side_name k = (case k of ServiceSide \<Rightarrow> ''service'' | TopicSide \<Rightarrow> ''topic''
     | SubscriptionSide \<Rightarrow> ''subscription'')"

definition ids_by_kind :: "architecture_model \<Rightarrow> pubsub_side \<Rightarrow> string set" where
  "ids_by_kind m k = (case k of ServiceSide \<Rightarrow> svc_id ` set (services m)
     | TopicSide \<Rightarrow> t_id ` set (topics m) | SubscriptionSide \<Rightarrow> sub_id ` set (subscriptions m))"

definition pubsub_triples :: "(string \<times> pubsub_side \<times> pubsub_side) list" where
  "pubsub_triples = [(''PUBLISHES_TO'', ServiceSide, TopicSide), (''SUBSCRIPTION_OF'', SubscriptionSide, TopicSide)]"

definition pubsub_relation_issues :: "architecture_model \<Rightarrow> relation \<Rightarrow> validation_issue list" where
  "pubsub_relation_issues m r =
     (case map_of pubsub_triples (rel_type r) of
        Some (source_kind, target_kind) \<Rightarrow>
          issue_if (rel_source_id r \<notin> ids_by_kind m source_kind)
            (NotOfKind (rel_type r) (rel_source_id r) (side_name source_kind)) [relation_key r] @
          issue_if (rel_target_id r \<notin> ids_by_kind m target_kind)
            (NotOfKind (rel_type r) (rel_target_id r) (side_name target_kind)) [relation_key r]
      | None \<Rightarrow>
          if rel_type r = ''RECEIVES_FROM'' \<and> rel_target_id r \<in> t_id ` set (topics m) then
            [issue (ReceivesFromTopic (rel_target_id r)) [relation_key r]]
          else if rel_type r = ''CARRIES'' \<and> rel_source_id r \<in> sub_id ` set (subscriptions m) then
            [issue (CarriesFromSubscription (rel_source_id r)) [relation_key r]]
          else [])"

definition bound_topics :: "architecture_model \<Rightarrow> string \<Rightarrow> string list" where
  "bound_topics m s = sorted_set (map rel_target_id
     (filter (\<lambda>r. rel_type r = ''SUBSCRIPTION_OF'' \<and> rel_source_id r = s) (relations m)))"

definition subscription_issues :: "architecture_model \<Rightarrow> string \<Rightarrow> validation_issue list" where
  "subscription_issues m s =
     (let bound = bound_topics m s in
      issue_if (length bound \<noteq> 1) (SubscriptionTopics s bound)
        (s # map (\<lambda>t. ''SUBSCRIPTION_OF:'' @ s @ '':'' @ t) bound))"

definition validate_pubsub :: "(bytes \<Rightarrow> string) \<Rightarrow> architecture_model \<Rightarrow> validation_issue list" where
  "validate_pubsub H m =
     for_each (relations m) (pubsub_relation_issues m) @
     for_each (sorted_set (map sub_id (subscriptions m))) (subscription_issues m) @
     for_each (pubsub_declarations m) (\<lambda>d.
       issue_if (pd_entity_id d \<notin> ids_by_kind m (if pd_entity_kind d = TOPIC then TopicSide else SubscriptionSide))
         (UnknownDeclarationEntity (declaration_id H d) (pd_entity_id d)) [declaration_id H d]) @
     for_each (dead_letter_configurations m) (\<lambda>d.
       issue_if (dl_subscription_id d \<notin> sub_id ` set (subscriptions m))
         (UnknownDeadLetterSubscription (dead_letter_id H d) (dl_subscription_id d)) [dead_letter_id H d])"

definition validate_broker_relations :: "architecture_model \<Rightarrow> validation_issue list" where
  "validate_broker_relations m = for_each (relations m) (\<lambda>r.
     if rel_type r \<noteq> ''USES_BROKER'' then []
     else issue_if (rel_source_id r \<notin> svc_id ` set (services m)) (NotAService (rel_source_id r)) [relation_key r] @
          issue_if (rel_target_id r \<notin> br_id ` set (brokers m)) (NotABroker (rel_target_id r)) [relation_key r])"

definition check_relation_evidence :: "architecture_model \<Rightarrow> validation_issue list" where
  "check_relation_evidence m = for_each (relations m) (\<lambda>r. for_each (rel_evidence_ids r) (\<lambda>e.
     issue_if (e \<notin> prov_id ` set (provenances m))
       (UnknownRelationEvidence (rel_type r) (rel_source_id r) (rel_target_id r) e) [relation_key r]))"

section \<open>Infrastructure\<close>

text \<open>\<open>{p.id: p for p in model.provenance}\<close>: the last record of an id.\<close>

definition provenance_by_id :: "architecture_model \<Rightarrow> string \<Rightarrow> provenance option" where
  "provenance_by_id m = map_of (rev (map (\<lambda>p. (prov_id p, p)) (provenances m)))"

definition check_infrastructure_evidence_ref ::
  "architecture_model \<Rightarrow> string \<Rightarrow> string \<Rightarrow> validation_issue list" where
  "check_infrastructure_evidence_ref m owner_id ref =
     (case provenance_by_id m ref of
        None \<Rightarrow> [issue (UnknownInfrastructureEvidence owner_id ref) [owner_id]]
      | Some p \<Rightarrow> issue_if (prov_source_type p \<noteq> kubernetes_source_type)
          (PublicInfrastructureEvidence owner_id ref (prov_source_type p)) [owner_id, ref])"

definition validate_infrastructure :: "(bytes \<Rightarrow> string) \<Rightarrow> architecture_model \<Rightarrow> validation_issue list" where
  "validate_infrastructure H m =
     (let entity_ids = ie_id ` set (infrastructure_entities m) in
      check_unique (map ie_id (infrastructure_entities m)) ''Infrastructure entity'' @
      for_each (infrastructure_contributions m) (\<lambda>c.
        issue_if (ic_entity_id c \<notin> entity_ids)
          (UnknownContributionEntity (ic_source_instance_id c) (ic_entity_id c)) [contribution_id H c] @
        for_each (ic_evidence_refs c) (check_infrastructure_evidence_ref m (contribution_id H c))) @
      for_each (infrastructure_claims m) (\<lambda>c.
        issue_if (cl_subject_id c \<notin> entity_ids)
          (UnknownClaimSubject (claim_kind_value (cl_kind c)) (cl_subject_id c)) [claim_id H c] @
        issue_if (cl_kind c \<notin> unary_claim_kinds \<and> cl_object_id c \<notin> Some ` entity_ids)
          (UnknownClaimObject (claim_kind_value (cl_kind c)) (cl_object_id c)) [claim_id H c] @
        for_each (cl_evidence_refs c) (check_infrastructure_evidence_ref m (claim_id H c))))"

definition canonical_validation_issues ::
  "(bytes \<Rightarrow> string) \<Rightarrow> architecture_model \<Rightarrow> validation_issue list" where
  "canonical_validation_issues H m =
     check_unique_ids m @ check_operation_providers m @ check_calls_targets m @
     check_schema_references m @ check_dead_letter_targets m @ check_relation_endpoints m @
     validate_pubsub H m @ validate_broker_relations m @ check_relation_evidence m @
     validate_infrastructure H m"

text \<open>\<open>Inl\<close> is the CanonicalValidationError with its messages.\<close>

definition validate_canonical_model ::
  "(bytes \<Rightarrow> string) \<Rightarrow> architecture_model \<Rightarrow> issue_message list + unit" where
  "validate_canonical_model H m =
     (let issues = canonical_validation_issues H m in
      if issues \<noteq> [] then Inl (map vi_message issues) else Inr ())"

section \<open>The invariants, stated over the model\<close>

definition unique_ids :: "architecture_model \<Rightarrow> bool" where
  "unique_ids m \<longleftrightarrow>
     distinct (map svc_id (services m)) \<and> distinct (map q_id (queues m)) \<and>
     distinct (map msg_id (messages m)) \<and> distinct (map t_id (topics m)) \<and>
     distinct (map sub_id (subscriptions m)) \<and> distinct (map br_id (brokers m)) \<and>
     distinct (map ie_id (infrastructure_entities m))"

definition provided_once :: "architecture_model \<Rightarrow> bool" where
  "provided_once m \<longleftrightarrow> (\<forall>op\<in>set (operations m). providers_of m (op_id op) = [op_service_id op])"

definition references_resolve :: "architecture_model \<Rightarrow> bool" where
  "references_resolve m \<longleftrightarrow>
     (\<forall>r\<in>set (relations m).
        rel_source_id r \<in> known_ids m \<and> rel_target_id r \<in> known_ids m \<and>
        (rel_type r = ''CALLS'' \<longrightarrow> rel_target_id r \<in> op_id ` set (operations m)) \<and>
        (rel_type r \<in> set schema_relation_types \<longrightarrow> rel_target_id r \<in> sch_id ` set (schemas m)) \<and>
        (rel_type r = ''DEAD_LETTERS_TO'' \<longrightarrow> rel_source_id r \<noteq> rel_target_id r) \<and>
        set (rel_evidence_ids r) \<subseteq> prov_id ` set (provenances m)) \<and>
     (\<forall>op\<in>set (operations m).
        set (op_request_schema_ids op) \<union> set (op_response_schema_ids op) \<subseteq> sch_id ` set (schemas m)) \<and>
     (\<forall>msg\<in>set (messages m). msg_schema_id msg \<in> {None, Some []} \<union> Some ` sch_id ` set (schemas m))"

definition pubsub_well_formed :: "architecture_model \<Rightarrow> bool" where
  "pubsub_well_formed m \<longleftrightarrow>
     (\<forall>r\<in>set (relations m).
        (rel_type r = ''PUBLISHES_TO'' \<longrightarrow> rel_source_id r \<in> svc_id ` set (services m) \<and>
            rel_target_id r \<in> t_id ` set (topics m)) \<and>
        (rel_type r = ''SUBSCRIPTION_OF'' \<longrightarrow> rel_source_id r \<in> sub_id ` set (subscriptions m) \<and>
            rel_target_id r \<in> t_id ` set (topics m)) \<and>
        (rel_type r = ''RECEIVES_FROM'' \<longrightarrow> rel_target_id r \<notin> t_id ` set (topics m)) \<and>
        (rel_type r = ''CARRIES'' \<longrightarrow> rel_source_id r \<notin> sub_id ` set (subscriptions m)) \<and>
        (rel_type r = ''USES_BROKER'' \<longrightarrow> rel_source_id r \<in> svc_id ` set (services m) \<and>
            rel_target_id r \<in> br_id ` set (brokers m))) \<and>
     (\<forall>s\<in>set (subscriptions m). \<exists>!t. \<exists>r\<in>set (relations m).
        rel_type r = ''SUBSCRIPTION_OF'' \<and> rel_source_id r = sub_id s \<and> rel_target_id r = t) \<and>
     (\<forall>d\<in>set (pubsub_declarations m). pd_entity_id d \<in>
        (if pd_entity_kind d = TOPIC then t_id ` set (topics m) else sub_id ` set (subscriptions m))) \<and>
     (\<forall>d\<in>set (dead_letter_configurations m). dl_subscription_id d \<in> sub_id ` set (subscriptions m))"

definition internal_evidence :: "architecture_model \<Rightarrow> string \<Rightarrow> bool" where
  "internal_evidence m ref \<longleftrightarrow>
     (\<exists>p. provenance_by_id m ref = Some p \<and> prov_source_type p = kubernetes_source_type)"

definition infrastructure_well_formed :: "architecture_model \<Rightarrow> bool" where
  "infrastructure_well_formed m \<longleftrightarrow>
     (\<forall>c\<in>set (infrastructure_contributions m). ic_entity_id c \<in> ie_id ` set (infrastructure_entities m) \<and>
        (\<forall>ref\<in>set (ic_evidence_refs c). internal_evidence m ref)) \<and>
     (\<forall>c\<in>set (infrastructure_claims m). cl_subject_id c \<in> ie_id ` set (infrastructure_entities m) \<and>
        (cl_kind c = WORKLOAD_EXISTS \<or> cl_object_id c \<in> Some ` ie_id ` set (infrastructure_entities m)) \<and>
        (\<forall>ref\<in>set (cl_evidence_refs c). internal_evidence m ref))"

definition canonical_well_formed :: "architecture_model \<Rightarrow> bool" where
  "canonical_well_formed m \<longleftrightarrow> unique_ids m \<and> provided_once m \<and> references_resolve m \<and>
     pubsub_well_formed m \<and> infrastructure_well_formed m"

section \<open>Lemmas\<close>

lemma check_unique_from_Nil:
  "check_unique_from seen ids label = [] \<longleftrightarrow> distinct ids \<and> set ids \<inter> set seen = {}"
  by (induction seen ids label rule: check_unique_from.induct) auto

lemma check_unique_Nil [simp]: "check_unique ids label = [] \<longleftrightarrow> distinct ids"
  by (simp add: check_unique_def check_unique_from_Nil)

lemma check_operation_providers_Nil: "check_operation_providers m = [] \<longleftrightarrow> provided_once m"
proof -
  have "(length xs = 1 \<and> hd xs = a) \<longleftrightarrow> xs = [a]" for xs :: "string list" and a
    by (cases xs) auto
  then show ?thesis
    by (auto simp: check_operation_providers_def provided_once_def Let_def split: if_splits)
qed

lemma length_sorted_set_1: "length (sorted_set xs) = Suc 0 \<longleftrightarrow> (\<exists>!x. x \<in> set xs)"
proof -
  have "length (sorted_set xs) = card (set xs)"
    by (metis distinct_card distinct_sorted_set set_sorted_set)
  then show ?thesis by (auto simp: card_1_singleton_iff)
qed

lemma subscription_issues_Nil:
  "subscription_issues m s = [] \<longleftrightarrow>
     (\<exists>!t. \<exists>r\<in>set (relations m). rel_type r = ''SUBSCRIPTION_OF'' \<and> rel_source_id r = s \<and> rel_target_id r = t)"
proof -
  let ?ts = "map rel_target_id (filter (\<lambda>r. rel_type r = ''SUBSCRIPTION_OF'' \<and> rel_source_id r = s) (relations m))"
  have "t \<in> set ?ts \<longleftrightarrow>
      (\<exists>r\<in>set (relations m). rel_type r = ''SUBSCRIPTION_OF'' \<and> rel_source_id r = s \<and> rel_target_id r = t)" for t
    by auto
  then have "(\<exists>!t. t \<in> set ?ts) \<longleftrightarrow>
      (\<exists>!t. \<exists>r\<in>set (relations m). rel_type r = ''SUBSCRIPTION_OF'' \<and> rel_source_id r = s \<and> rel_target_id r = t)"
    by (simp only:)
  moreover have "subscription_issues m s = [] \<longleftrightarrow> length (sorted_set ?ts) = Suc 0"
    by (simp add: subscription_issues_def bound_topics_def Let_def)
  ultimately show ?thesis by (simp only: length_sorted_set_1)
qed

lemma check_infrastructure_evidence_ref_Nil [simp]:
  "check_infrastructure_evidence_ref m owner ref = [] \<longleftrightarrow> internal_evidence m ref"
  by (auto simp: check_infrastructure_evidence_ref_def internal_evidence_def split: option.splits)

lemma pubsub_relation_issues_Nil:
  "pubsub_relation_issues m r = [] \<longleftrightarrow>
     (rel_type r = ''PUBLISHES_TO'' \<longrightarrow> rel_source_id r \<in> svc_id ` set (services m) \<and>
        rel_target_id r \<in> t_id ` set (topics m)) \<and>
     (rel_type r = ''SUBSCRIPTION_OF'' \<longrightarrow> rel_source_id r \<in> sub_id ` set (subscriptions m) \<and>
        rel_target_id r \<in> t_id ` set (topics m)) \<and>
     (rel_type r = ''RECEIVES_FROM'' \<longrightarrow> rel_target_id r \<notin> t_id ` set (topics m)) \<and>
     (rel_type r = ''CARRIES'' \<longrightarrow> rel_source_id r \<notin> sub_id ` set (subscriptions m))"
  by (auto simp: pubsub_relation_issues_def pubsub_triples_def ids_by_kind_def)

lemma validate_pubsub_Nil:
  "validate_pubsub H m = [] \<and> validate_broker_relations m = [] \<longleftrightarrow> pubsub_well_formed m"
  by (auto simp: validate_pubsub_def validate_broker_relations_def pubsub_well_formed_def
      pubsub_relation_issues_Nil subscription_issues_Nil ids_by_kind_def)

lemma reference_checks_Nil:
  "check_calls_targets m = [] \<and> check_schema_references m = [] \<and> check_dead_letter_targets m = [] \<and>
   check_relation_endpoints m = [] \<and> check_relation_evidence m = [] \<longleftrightarrow> references_resolve m"
proof -
  have "str_or x [] \<noteq> [] \<and> str_or x [] \<notin> A \<longleftrightarrow> x \<notin> {None, Some []} \<union> Some ` A" for x A
    by (auto simp: str_or_def split: option.splits)
  then show ?thesis
    by (auto simp: check_calls_targets_def check_schema_references_def check_dead_letter_targets_def
        check_relation_endpoints_def check_relation_evidence_def references_resolve_def Let_def)
qed

lemma check_unique_ids_Nil:
  "check_unique_ids m = [] \<and> validate_infrastructure H m = [] \<longleftrightarrow> unique_ids m \<and> infrastructure_well_formed m"
  by (auto simp: check_unique_ids_def validate_infrastructure_def unique_ids_def infrastructure_well_formed_def
      unary_claim_kinds_def Let_def)

section \<open>Properties\<close>

lemma canonical_issues_Nil: "canonical_validation_issues H m = [] \<longleftrightarrow> canonical_well_formed m"
  using check_unique_ids_Nil [of m H] check_operation_providers_Nil [of m] reference_checks_Nil [of m]
    validate_pubsub_Nil [of H m]
  unfolding canonical_validation_issues_def canonical_well_formed_def append_is_Nil_conv by blast

text \<open>C34: validation accepts exactly the well-formed models.  The issue list is empty, and
  \<open>validate_canonical_model\<close> returns, if and only if ids are unique, every operation has exactly
  its own service as provider, every relation endpoint, call target, schema reference and evidence id
  resolves, every subscription is bound to exactly one topic with correctly typed Pub/Sub and broker
  endpoints, and all infrastructure facts resolve to evidence stamped internal-only.\<close>

theorem validation_accepts_exactly_well_formed:
  "(canonical_validation_issues H m = [] \<longleftrightarrow> canonical_well_formed m) \<and>
   (validate_canonical_model H m = Inr () \<longleftrightarrow> canonical_well_formed m)"
  using canonical_issues_Nil [of H m] by (auto simp: validate_canonical_model_def Let_def)

text \<open>The ids and relation keys the elements of a model carry.\<close>

definition model_element_ids :: "(bytes \<Rightarrow> string) \<Rightarrow> architecture_model \<Rightarrow> string set" where
  "model_element_ids H m = known_ids m \<union> relation_key ` set (relations m) \<union>
     prov_id ` set (provenances m) \<union> ie_id ` set (infrastructure_entities m) \<union>
     contribution_id H ` set (infrastructure_contributions m) \<union> claim_id H ` set (infrastructure_claims m) \<union>
     declaration_id H ` set (pubsub_declarations m) \<union> dead_letter_id H ` set (dead_letter_configurations m)"

definition attributable :: "(bytes \<Rightarrow> string) \<Rightarrow> architecture_model \<Rightarrow> validation_issue list \<Rightarrow> bool" where
  "attributable H m is \<longleftrightarrow>
     (\<forall>i\<in>set is. vi_element_ids i \<noteq> [] \<and> set (vi_element_ids i) \<subseteq> model_element_ids H m)"

lemma attributable_append [simp]: "attributable H m (xs @ ys) \<longleftrightarrow> attributable H m xs \<and> attributable H m ys"
  by (auto simp: attributable_def)

lemma attributable_Nil [simp]: "attributable H m []"
  by (simp add: attributable_def)

lemma attributable_for_each: "(\<And>x. x \<in> set xs \<Longrightarrow> attributable H m (f x)) \<Longrightarrow> attributable H m (for_each xs f)"
  by (auto simp: attributable_def)

lemma attributable_issue: "ids \<noteq> [] \<Longrightarrow> set ids \<subseteq> model_element_ids H m \<Longrightarrow> attributable H m [issue msg ids]"
  by (simp add: attributable_def issue_def)

lemma attributable_issue_if:
  "(b \<Longrightarrow> ids \<noteq> [] \<and> set ids \<subseteq> model_element_ids H m) \<Longrightarrow> attributable H m (issue_if b msg ids)"
  by (simp add: issue_if_def attributable_issue)

lemmas attributable_intros = attributable_for_each attributable_issue attributable_issue_if

lemma element_ids [simp]:
  "x \<in> known_ids m \<Longrightarrow> x \<in> model_element_ids H m"
  "r \<in> set (relations m) \<Longrightarrow> relation_key r \<in> model_element_ids H m"
  "op \<in> set (operations m) \<Longrightarrow> op_id op \<in> model_element_ids H m"
  "msg \<in> set (messages m) \<Longrightarrow> msg_id msg \<in> model_element_ids H m"
  "c \<in> set (infrastructure_contributions m) \<Longrightarrow> contribution_id H c \<in> model_element_ids H m"
  "cl \<in> set (infrastructure_claims m) \<Longrightarrow> claim_id H cl \<in> model_element_ids H m"
  "d \<in> set (pubsub_declarations m) \<Longrightarrow> declaration_id H d \<in> model_element_ids H m"
  "dl \<in> set (dead_letter_configurations m) \<Longrightarrow> dead_letter_id H dl \<in> model_element_ids H m"
  by (auto simp: model_element_ids_def known_ids_def)

lemma attributable_check_unique:
  "set ids \<subseteq> model_element_ids H m \<Longrightarrow> attributable H m (check_unique_from seen ids label)"
  by (induction seen ids label rule: check_unique_from.induct) (auto intro!: attributable_issue_if)

lemma attributable_unique_ids: "attributable H m (check_unique_ids m)"
  unfolding check_unique_ids_def check_unique_def
  by (auto intro!: attributable_check_unique simp: model_element_ids_def known_ids_def)

lemma provides_key_element:
  "p \<in> set (providers_of m op) \<Longrightarrow> provides_key p op \<in> model_element_ids H m"
  unfolding providers_of_def provides_key_def
  by (auto simp: model_element_ids_def relation_key_def image_iff) force

lemma attributable_providers: "attributable H m (check_operation_providers m)"
  unfolding check_operation_providers_def
  by (auto intro!: attributable_intros simp: Let_def provides_key_element)

lemma attributable_references:
  "attributable H m (check_calls_targets m @ check_schema_references m @ check_dead_letter_targets m @
     check_relation_endpoints m @ check_relation_evidence m @ validate_broker_relations m)"
  unfolding check_calls_targets_def check_schema_references_def check_dead_letter_targets_def
    check_relation_endpoints_def check_relation_evidence_def validate_broker_relations_def Let_def
  by (auto intro!: attributable_intros)

lemma attributable_subscription: "s \<in> sub_id ` set (subscriptions m) \<Longrightarrow> attributable H m (subscription_issues m s)"
  unfolding subscription_issues_def Let_def
  by (rule attributable_issue_if)
    (auto simp: bound_topics_def model_element_ids_def known_ids_def relation_key_def image_iff, force)

lemma attributable_pubsub: "attributable H m (validate_pubsub H m)"
  unfolding validate_pubsub_def pubsub_relation_issues_def
  by (auto intro!: attributable_intros attributable_subscription split: option.splits)

lemma attributable_infrastructure_ref:
  "owner \<in> model_element_ids H m \<Longrightarrow> attributable H m (check_infrastructure_evidence_ref m owner ref)"
  unfolding check_infrastructure_evidence_ref_def
  by (auto intro!: attributable_issue attributable_issue_if split: option.splits
      simp: model_element_ids_def provenance_by_id_def dest!: map_of_SomeD)

lemma attributable_infrastructure: "attributable H m (validate_infrastructure H m)"
  unfolding validate_infrastructure_def check_unique_def Let_def
  by (auto intro!: attributable_intros attributable_infrastructure_ref attributable_check_unique)
    (auto simp: model_element_ids_def)

text \<open>Every validation issue can be attributed.  Each issue names at least one element, and
  everything it names is the id or relation key of an element of the validated model, so a discovery
  run can always trace it to the sources that emitted those elements.\<close>

theorem validation_issues_attributable:
  "\<forall>i. i \<in> set (canonical_validation_issues H m) \<longrightarrow>
     vi_element_ids i \<noteq> [] \<and> set (vi_element_ids i) \<subseteq> model_element_ids H m"
proof -
  have "attributable H m (canonical_validation_issues H m)"
    using attributable_unique_ids attributable_providers attributable_references attributable_pubsub
      attributable_infrastructure
    by (simp add: canonical_validation_issues_def)
  then show ?thesis by (simp add: attributable_def)
qed

lemma validation_issues_attributable_witness:
  "let m = empty_model\<lparr>relations := [\<lparr>rel_type = ''CALLS'', rel_source_id = ''a'', rel_target_id = ''b'',
      rel_evidence_ids = []\<rparr>]\<rparr> in
   \<exists>i. i \<in> set (canonical_validation_issues (\<lambda>b. b) m) \<and> vi_element_ids i \<noteq> []"
proof -
  let ?m = "empty_model\<lparr>relations := [\<lparr>rel_type = ''CALLS'', rel_source_id = ''a'', rel_target_id = ''b'',
      rel_evidence_ids = []\<rparr>]\<rparr>"
  let ?i = "issue (CallsUnknownOperation ''a'' ''b'') [''CALLS:a:b'']"
  have "?i \<in> set (canonical_validation_issues (\<lambda>b. b) ?m)"
    by (simp add: canonical_validation_issues_def check_calls_targets_def empty_model_def relation_key_def
        issue_if_def)
  then show ?thesis
    unfolding Let_def using validation_issues_attributable [of "\<lambda>b. b" ?m] by blast
qed

end
