(* ===== verification/ClaimConflicts.thy ===== *)
theory ClaimConflicts
  imports CanonicalModel
begin

text \<open>
  \<open>sources/claim_conflicts.py\<close> and \<open>ingestion/conflicts.py\<close>: disagreeing content under one
  id, within one source at insertion and across the sources of a run before they are merged.  The
  groups are dictionaries from an id to the set of values seen (\<open>group_pairs\<close>).
\<close>

section \<open>Within one source\<close>

text \<open>The dictionary after the upsert and the diagnostic, if any.\<close>

definition upsert_or_conflict ::
  "diagnostic_code \<Rightarrow> ('a \<Rightarrow> string option) \<Rightarrow> (string \<times> 'a) list \<Rightarrow> string \<Rightarrow> 'a
     \<Rightarrow> (string \<times> 'a) list \<times> ingestion_diagnostic option" where
  "upsert_or_conflict code content d key candidate =
     (case map_of d key of
        None \<Rightarrow> (AList.update key candidate d, None)
      | Some existing \<Rightarrow>
          if content existing = content candidate then (d, None)
          else (d, Some (diagnostic code
                 [key, str_or (content existing) ''None'', str_or (content candidate) ''None''] (Some key) None)))"

definition upsert_schema_or_conflict where
  "upsert_schema_or_conflict = upsert_or_conflict DC_SCHEMA_CONTENT_CONFLICT sch_canonical_hash"

definition upsert_message_or_conflict where
  "upsert_message_or_conflict = upsert_or_conflict DC_MESSAGE_CONTENT_CONFLICT msg_contract_digest"

section \<open>Across sources\<close>

definition diagnostic_sort_key :: "ingestion_diagnostic \<Rightarrow> string \<times> string" where
  "diagnostic_sort_key d = (d_code d, str_or (d_pointer d) '''')"

text \<open>\<open>sorted(h or '<none>' for h in hashes)\<close> over the distinct values of a group.\<close>

definition shown_values :: "string option list \<Rightarrow> string list" where
  "shown_values vs = sort (map (\<lambda>v. str_or v ''<none>'') vs)"

definition content_conflicts ::
  "diagnostic_code \<Rightarrow> (string \<times> string option) list \<Rightarrow> ingestion_diagnostic list" where
  "content_conflicts code claims =
     map (\<lambda>(i, vs). diagnostic code (i # shown_values vs) (Some i) None)
       (filter (\<lambda>(i, vs). length vs > 1) (group_pairs claims))"

definition schema_claims :: "architecture_model list \<Rightarrow> (string \<times> string option) list" where
  "schema_claims models = concat (map (\<lambda>m. map (\<lambda>s. (sch_id s, sch_canonical_hash s)) (schemas m)) models)"

definition message_claims :: "architecture_model list \<Rightarrow> (string \<times> string option) list" where
  "message_claims models = concat (map (\<lambda>m. map (\<lambda>s. (msg_id s, msg_contract_digest s)) (messages m)) models)"

definition detect_shared_claim_content_conflicts :: "architecture_model list \<Rightarrow> ingestion_diagnostic list" where
  "detect_shared_claim_content_conflicts models = sort_key diagnostic_sort_key
     (content_conflicts DC_SCHEMA_CONTENT_CONFLICT (schema_claims models) @
      content_conflicts DC_MESSAGE_CONTENT_CONFLICT (message_claims models))"

record conflicts =
  cf_diagnostics :: "ingestion_diagnostic list"
  cf_sources :: "string set"

definition group_of :: "('k \<times> 'v list) list \<Rightarrow> 'k \<Rightarrow> 'v list" where
  "group_of d k = (case map_of d k of None \<Rightarrow> [] | Some vs \<Rightarrow> vs)"

definition all_contributions :: "architecture_model list \<Rightarrow> infrastructure_contribution list" where
  "all_contributions models = concat (map infrastructure_contributions models)"

definition digests_by_entity :: "architecture_model list \<Rightarrow> (string \<times> string list) list" where
  "digests_by_entity models =
     group_pairs (map (\<lambda>c. (ic_entity_id c, ic_resource_semantic_digest c)) (all_contributions models))"

definition captured_uids_by_entity :: "architecture_model list \<Rightarrow> (string \<times> string list) list" where
  "captured_uids_by_entity models =
     group_pairs (List.map_filter (\<lambda>c. map_option (Pair (ic_entity_id c)) (ic_captured_resource_uid c))
       (all_contributions models))"

definition sources_by_entity :: "architecture_model list \<Rightarrow> (string \<times> string list) list" where
  "sources_by_entity models =
     group_pairs (map (\<lambda>c. (ic_entity_id c, ic_source_instance_id c)) (all_contributions models))"

definition conflicted_entity_ids :: "architecture_model list \<Rightarrow> string list" where
  "conflicted_entity_ids models =
     filter (\<lambda>e. length (group_of (digests_by_entity models) e) > 1 \<or>
                 length (group_of (captured_uids_by_entity models) e) > 1)
       (map fst (digests_by_entity models))"

definition detect_infrastructure_entity_content_conflicts :: "architecture_model list \<Rightarrow> conflicts" where
  "detect_infrastructure_entity_content_conflicts models =
     (let ids = conflicted_entity_ids models in
      \<lparr>cf_diagnostics = sort_key diagnostic_sort_key
         (map (\<lambda>e. diagnostic DC_K8S_RESOURCE_CONFLICT
            (e # sort (group_of (digests_by_entity models) e) @ sort (group_of (captured_uids_by_entity models) e) @
             sort (group_of (sources_by_entity models) e)) (Some e) None) ids),
       cf_sources = (\<Union>e\<in>set ids. set (group_of (sources_by_entity models) e))\<rparr>)"

definition subscription_bindings ::
  "(string \<times> architecture_model) list \<Rightarrow> (string \<times> string \<times> string) list" where
  "subscription_bindings models_by_source = concat (map (\<lambda>(source, m).
     map (\<lambda>r. (rel_source_id r, rel_target_id r, source))
       (filter (\<lambda>r. rel_type r = ''SUBSCRIPTION_OF'') (relations m))) models_by_source)"

definition detect_subscription_topic_binding_conflicts ::
  "(string \<times> architecture_model) list \<Rightarrow> conflicts" where
  "detect_subscription_topic_binding_conflicts models_by_source =
     (let bindings = subscription_bindings models_by_source;
          topics = group_pairs (map (\<lambda>(s, t, _). (s, t)) bindings);
          sources = group_pairs (map (\<lambda>(s, _, i). (s, i)) bindings);
          bad = filter (\<lambda>(s, ts). length ts \<ge> 2) topics in
      \<lparr>cf_diagnostics = sort_key diagnostic_sort_key
         (map (\<lambda>(s, ts). diagnostic ''SUBSCRIPTION_IDENTITY_CONFLICT''
            (s # sort ts @ sort (group_of sources s)) (Some s) None) bad),
       cf_sources = (\<Union>(s, _)\<in>set bad. set (group_of sources s))\<rparr>)"

section \<open>Lemmas\<close>

lemma distinct_groups: "map_of (group_pairs ps) k = Some vs \<Longrightarrow> distinct vs"
proof (induction ps arbitrary: k vs rule: rev_induct)
  case Nil
  then show ?case by (simp add: group_pairs_def)
next
  case (snoc p ps)
  obtain i v where p: "p = (i, v)" by (cases p)
  have "group_pairs (ps @ [p]) = group_add i v (group_pairs ps)"
    by (simp add: group_pairs_def p)
  then show ?case
    using snoc.prems snoc.IH
    by (auto simp: group_add_def update_conv split: if_splits option.splits)
qed

lemma set_group_of: "set (group_of d k) = members_of d k"
  by (cases "map_of d k") (simp_all add: group_of_def members_of_def)

lemma group_of_members [simp]: "set (group_of (group_pairs ps) k) = {v. (k, v) \<in> set ps}"
  by (simp only: set_group_of members_of_group_pairs)

lemma distinct_group_of [simp]: "distinct (group_of (group_pairs ps) k)"
  using distinct_groups [of ps k] by (simp add: group_of_def split: option.splits)

lemma mem_group_pairs_iff:
  "(k, vs) \<in> set (group_pairs ps) \<longleftrightarrow> k \<in> fst ` set ps \<and> vs = group_of (group_pairs ps) k"
proof
  assume "(k, vs) \<in> set (group_pairs ps)"
  then have "map_of (group_pairs ps) k = Some vs" by (simp add: map_of_eq_Some_iff)
  moreover have "k \<in> fst ` set (group_pairs ps)" using \<open>(k, vs) \<in> _\<close> by force
  ultimately show "k \<in> fst ` set ps \<and> vs = group_of (group_pairs ps) k"
    by (simp add: group_of_def keys_group_pairs)
next
  assume r: "k \<in> fst ` set ps \<and> vs = group_of (group_pairs ps) k"
  then have "k \<in> fst ` set (group_pairs ps)" by (simp add: keys_group_pairs)
  then obtain ws where "map_of (group_pairs ps) k = Some ws" by (metis map_of_eq_None_iff not_Some_eq)
  then show "(k, vs) \<in> set (group_pairs ps)" using r by (simp add: group_of_def map_of_eq_Some_iff)
qed

lemma length_gt1_iff: "distinct vs \<Longrightarrow> Suc 0 < length vs \<longleftrightarrow> (\<exists>a\<in>set vs. \<exists>b\<in>set vs. a \<noteq> b)"
  by (cases vs rule: remdups_adj.cases) auto

text \<open>Two claims for one id that do not agree.\<close>

definition disagree :: "('k \<times> 'v) list \<Rightarrow> 'k \<Rightarrow> bool" where
  "disagree claims k \<longleftrightarrow> (\<exists>a b. (k, a) \<in> set claims \<and> (k, b) \<in> set claims \<and> a \<noteq> b)"

lemma group_disagree: "Suc 0 < length (group_of (group_pairs claims) k) \<longleftrightarrow> disagree claims k"
  unfolding disagree_def by (subst length_gt1_iff) auto

lemma conflicting_groups: "fst ` {g \<in> set (group_pairs claims). Suc 0 < length (snd g)} = {k. disagree claims k}"
proof (intro set_eqI iffI)
  fix k
  assume "k \<in> fst ` {g \<in> set (group_pairs claims). Suc 0 < length (snd g)}"
  then obtain vs where "(k, vs) \<in> set (group_pairs claims)" "Suc 0 < length vs" by auto
  then have "Suc 0 < length (group_of (group_pairs claims) k)" by (simp add: mem_group_pairs_iff)
  then show "k \<in> {k. disagree claims k}" by (simp add: group_disagree)
next
  fix k
  assume k: "k \<in> {k. disagree claims k}"
  then have "k \<in> fst ` set claims" by (force simp: disagree_def)
  then have "(k, group_of (group_pairs claims) k) \<in> set (group_pairs claims)"
    by (simp add: mem_group_pairs_iff)
  moreover have "Suc 0 < length (group_of (group_pairs claims) k)" using k by (simp add: group_disagree)
  ultimately show "k \<in> fst ` {g \<in> set (group_pairs claims). Suc 0 < length (snd g)}" by force
qed

lemma content_conflicts_pointers:
  "d_pointer ` set (content_conflicts code claims) = Some ` {k. disagree claims k}"
  by (auto simp: content_conflicts_def image_image split_beta simp flip: conflicting_groups)

lemma content_conflicts_code: "d \<in> set (content_conflicts code claims) \<Longrightarrow> d_code d = code"
  by (auto simp: content_conflicts_def)

lemma content_conflicts_distinct: "distinct (map d_pointer (content_conflicts code claims))"
proof -
  have "map d_pointer (content_conflicts code claims) =
      map Some (map fst (filter (\<lambda>(i, vs). length vs > 1) (group_pairs claims)))"
    by (simp add: content_conflicts_def comp_def split_beta)
  moreover have "distinct (map fst (filter (\<lambda>(i, vs). length vs > 1) (group_pairs claims)))"
    by (rule distinct_map_filter) simp
  ultimately show ?thesis by (simp only: distinct_map [of Some] inj_Some simp_thms)
qed

lemma set_detect_shared:
  "set (detect_shared_claim_content_conflicts models) =
     set (content_conflicts DC_SCHEMA_CONTENT_CONFLICT (schema_claims models)) \<union>
     set (content_conflicts DC_MESSAGE_CONTENT_CONFLICT (message_claims models))"
  by (simp add: detect_shared_claim_content_conflicts_def)

lemma shown_values_cong:
  "distinct vs \<Longrightarrow> distinct ws \<Longrightarrow> set vs = set ws \<Longrightarrow> shown_values vs = shown_values ws"
  unfolding shown_values_def by (intro sort_perm_eq) (simp add: set_eq_iff_mset_eq_distinct)

lemma set_content_conflicts:
  "set (content_conflicts code claims) =
     (\<lambda>k. diagnostic code (k # shown_values (group_of (group_pairs claims) k)) (Some k) None) ` {k. disagree claims k}"
proof -
  have "set (content_conflicts code claims) =
      (\<lambda>g. diagnostic code (fst g # shown_values (snd g)) (Some (fst g)) None)
        ` {g \<in> set (group_pairs claims). Suc 0 < length (snd g)}"
    by (simp add: content_conflicts_def split_beta)
  also have "\<dots> = (\<lambda>g. diagnostic code (fst g # shown_values (group_of (group_pairs claims) (fst g))) (Some (fst g)) None)
        ` {g \<in> set (group_pairs claims). Suc 0 < length (snd g)}"
    by (intro image_cong) (auto simp: mem_group_pairs_iff)
  finally show ?thesis by (simp only: image_image flip: conflicting_groups)
qed

lemma content_conflicts_cong:
  assumes "set claims = set claims'"
  shows "set (content_conflicts code claims) = set (content_conflicts code claims')"
proof -
  have "disagree claims = disagree claims'" using assms by (auto simp: disagree_def fun_eq_iff)
  moreover have "shown_values (group_of (group_pairs claims) k) = shown_values (group_of (group_pairs claims') k)" for k
    using assms by (intro shown_values_cong) auto
  ultimately show ?thesis by (simp add: set_content_conflicts)
qed

lemma detect_shared_distinct:
  "distinct (map diagnostic_sort_key (content_conflicts DC_SCHEMA_CONTENT_CONFLICT a @
     content_conflicts DC_MESSAGE_CONTENT_CONFLICT b))"
proof -
  have key: "distinct (map diagnostic_sort_key (content_conflicts code claims))" for code claims
  proof -
    have "map diagnostic_sort_key (content_conflicts code claims) =
        map (\<lambda>p. (code, str_or p '''')) (map d_pointer (content_conflicts code claims))"
      using content_conflicts_code by (auto simp: diagnostic_sort_key_def)
    moreover have "inj_on (\<lambda>p. (code, str_or p '''')) (set (map d_pointer (content_conflicts code claims)))"
      by (rule inj_onI) (auto simp: set_content_conflicts str_or_def split: if_splits)
    ultimately show ?thesis
      using content_conflicts_distinct [of code claims] by (simp only: distinct_map [of _ "map d_pointer _"] simp_thms)
  qed
  moreover have "set (map diagnostic_sort_key (content_conflicts DC_SCHEMA_CONTENT_CONFLICT a)) \<inter>
      set (map diagnostic_sort_key (content_conflicts DC_MESSAGE_CONTENT_CONFLICT b)) = {}"
    by (auto simp: diagnostic_sort_key_def dest!: content_conflicts_code)
  ultimately show ?thesis by (simp only: map_append distinct_append)
qed

lemma sort_key_set_eq:
  assumes "distinct (map f xs)" "distinct (map f ys)" "set xs = set ys"
  shows "sort_key f xs = sort_key f ys"
proof (rule sort_key_perm_eq)
  show "mset xs = mset ys" using assms by (simp add: set_eq_iff_mset_eq_distinct distinct_map)
  show "inj_on f (set xs)" using assms(1) by (simp add: distinct_map)
qed

lemma disagree_map:
  "disagree (map (\<lambda>x. (f x, g x)) xs) k \<longleftrightarrow>
     (\<exists>x y. x \<in> set xs \<and> y \<in> set xs \<and> f x = k \<and> f y = k \<and> g x \<noteq> g y)"
  by (auto simp: disagree_def image_iff) metis+

lemma schema_claims_map: "schema_claims ms = map (\<lambda>s. (sch_id s, sch_canonical_hash s)) (concat (map schemas ms))"
  by (simp add: schema_claims_def map_concat comp_def)

lemma message_claims_map: "message_claims ms = map (\<lambda>s. (msg_id s, msg_contract_digest s)) (concat (map messages ms))"
  by (simp add: message_claims_def map_concat comp_def)

section \<open>Properties\<close>

text \<open>Content conflicts across sources are reported exactly.  A schema (message) id gets a
  conflict diagnostic if and only if two claims for it, in any two of the models about to be merged,
  carry different hashes (digests), the absent hash counting as a value.\<close>

theorem shared_content_conflict_iff:
  "((\<exists>d. d \<in> set (detect_shared_claim_content_conflicts ms) \<and>
        d_code d = DC_SCHEMA_CONTENT_CONFLICT \<and> d_pointer d = Some k) \<longleftrightarrow>
     (\<exists>s s'. s \<in> set (concat (map schemas ms)) \<and> s' \<in> set (concat (map schemas ms)) \<and>
        sch_id s = k \<and> sch_id s' = k \<and> sch_canonical_hash s \<noteq> sch_canonical_hash s')) \<and>
   ((\<exists>d. d \<in> set (detect_shared_claim_content_conflicts ms) \<and>
        d_code d = DC_MESSAGE_CONTENT_CONFLICT \<and> d_pointer d = Some k) \<longleftrightarrow>
     (\<exists>s s'. s \<in> set (concat (map messages ms)) \<and> s' \<in> set (concat (map messages ms)) \<and>
        msg_id s = k \<and> msg_id s' = k \<and> msg_contract_digest s \<noteq> msg_contract_digest s'))"
proof -
  have s: "disagree (schema_claims ms) k \<longleftrightarrow>
      (\<exists>s s'. s \<in> set (concat (map schemas ms)) \<and> s' \<in> set (concat (map schemas ms)) \<and>
        sch_id s = k \<and> sch_id s' = k \<and> sch_canonical_hash s \<noteq> sch_canonical_hash s')"
    unfolding schema_claims_map by (rule disagree_map)
  have m: "disagree (message_claims ms) k \<longleftrightarrow>
      (\<exists>s s'. s \<in> set (concat (map messages ms)) \<and> s' \<in> set (concat (map messages ms)) \<and>
        msg_id s = k \<and> msg_id s' = k \<and> msg_contract_digest s \<noteq> msg_contract_digest s')"
    unfolding message_claims_map by (rule disagree_map)
  show ?thesis
    unfolding s [symmetric] m [symmetric] set_detect_shared
    by (auto simp: set_content_conflicts)
qed

text \<open>Conflict diagnostics are independent of the order of the sources: permuting the models
  (and repeating one) yields the identical diagnostic list, message values included.\<close>

theorem shared_content_conflicts_order_independent:
  assumes "set ms = set ms'"
  shows "detect_shared_claim_content_conflicts ms = detect_shared_claim_content_conflicts ms'"
proof -
  have sch: "set (schema_claims ms) = set (schema_claims ms')"
    and msg: "set (message_claims ms) = set (message_claims ms')"
    using assms by (simp_all add: schema_claims_def message_claims_def)
  show ?thesis
    unfolding detect_shared_claim_content_conflicts_def
    by (intro sort_key_set_eq detect_shared_distinct)
      (simp only: set_append content_conflicts_cong [OF sch] content_conflicts_cong [OF msg])
qed

lemma shared_content_conflicts_order_independent_witness:
  "let a = empty_model\<lparr>schemas := [\<lparr>sch_id = ''x'', sch_name = ''n'', sch_version = None, sch_format = None,
         sch_canonical_hash = Some ''1''\<rparr>]\<rparr>;
       b = empty_model\<lparr>schemas := [\<lparr>sch_id = ''x'', sch_name = ''n'', sch_version = None, sch_format = None,
         sch_canonical_hash = None\<rparr>]\<rparr> in
   detect_shared_claim_content_conflicts [a, b] = detect_shared_claim_content_conflicts [b, a]"
  unfolding Let_def by (rule shared_content_conflicts_order_independent) (simp only: list.set insert_commute)

end
