(* ===== verification/Inventory.thy ===== *)
theory Inventory
  imports SourceModel Encoding
begin

text \<open>
  \<open>sources/inventory.py\<close>, \<open>sources/commit_gate.py\<close>, \<open>sources/tombstones.py\<close>,
  \<open>sources/removal_authority.py\<close> and \<open>sources/replay.py\<close>: the decisions around a committed
  source inventory.  A raised InconsistentCommittedInventoryStateError or InconsistentReplayStateError
  is \<open>Inl\<close>.
\<close>

section \<open>Inventory status and the commit gate\<close>

datatype inventory_status = COMPLETE | PARTIAL | FAILED

definition inventory_status_value :: "inventory_status \<Rightarrow> string" where
  "inventory_status_value s = (case s of COMPLETE \<Rightarrow> ''COMPLETE'' | PARTIAL \<Rightarrow> ''PARTIAL'' | FAILED \<Rightarrow> ''FAILED'')"

definition rejected_results :: "ingestion_result set" where
  "rejected_results = {REJECTED_INVALID, REJECTED_UNSUPPORTED, REJECTED_CONFLICT}"

definition classify_inventory_status :: "ingestion_result list \<Rightarrow> bool \<Rightarrow> inventory_status" where
  "classify_inventory_status source_results enumeration_complete =
     (if \<not> enumeration_complete then FAILED
      else if \<exists>r\<in>set source_results. r \<in> rejected_results then PARTIAL
      else COMPLETE)"

definition run_is_eligible_to_commit :: "inventory_status \<Rightarrow> bool" where
  "run_is_eligible_to_commit status \<longleftrightarrow> status = COMPLETE"

lemma eligible_iff:
  "run_is_eligible_to_commit (classify_inventory_status results complete) \<longleftrightarrow>
     complete \<and> (\<forall>r\<in>set results. r \<notin> rejected_results)"
  by (auto simp: run_is_eligible_to_commit_def classify_inventory_status_def)

section \<open>Tombstones\<close>

record tombstone =
  ts_target_source_instance_id :: source_instance_id
  ts_discovery_scope_id :: discovery_scope_id
  ts_expected_prior_inventory_revision :: string
  ts_scope_definition_digest :: string
  ts_actor :: string
  ts_reason :: string
  ts_tombstone_revision :: string

datatype tombstone_rejection_reason = STALE_PRIOR_REVISION | NO_COMMITTED_INVENTORY | SCOPE_MISMATCH

record tombstone_validation =
  tv_accepted :: bool
  tv_rejection_reason :: "tombstone_rejection_reason option"
  tv_diagnostic :: "ingestion_diagnostic option"

datatype inconsistent_inventory_state = InconsistentCommittedInventoryState

definition reject_tombstone ::
  "tombstone \<Rightarrow> tombstone_rejection_reason \<Rightarrow> diagnostic_code \<Rightarrow> string list \<Rightarrow> tombstone_validation" where
  "reject_tombstone t reason code args =
     \<lparr>tv_accepted = False, tv_rejection_reason = Some reason,
      tv_diagnostic = Some (diagnostic code args None (Some (ts_target_source_instance_id t)))\<rparr>"

definition validate_tombstone ::
  "tombstone \<Rightarrow> string option \<Rightarrow> string option \<Rightarrow> string option
     \<Rightarrow> inconsistent_inventory_state + tombstone_validation" where
  "validate_tombstone t scope_id scope_digest revision =
     (let fields = [scope_id, scope_digest, revision] in
      if (\<exists>f\<in>set fields. f = None) \<and> (\<exists>f\<in>set fields. f \<noteq> None) then Inl InconsistentCommittedInventoryState
      else Inr (case revision of
          None \<Rightarrow> reject_tombstone t NO_COMMITTED_INVENTORY DC_TOMBSTONE_STALE []
        | Some r \<Rightarrow>
            if Some (ts_discovery_scope_id t) \<noteq> scope_id \<or> Some (ts_scope_definition_digest t) \<noteq> scope_digest then
              reject_tombstone t SCOPE_MISMATCH DC_TOMBSTONE_SCOPE_MISMATCH []
            else if ts_expected_prior_inventory_revision t \<noteq> r then
              reject_tombstone t STALE_PRIOR_REVISION DC_TOMBSTONE_STALE
                [ts_expected_prior_inventory_revision t, r]
            else \<lparr>tv_accepted = True, tv_rejection_reason = None, tv_diagnostic = None\<rparr>))"

text \<open>A configured tombstone file as reading and parsing (pathlib, PyYAML, pydantic) leave it.\<close>

datatype tombstone_file =
    UnreadableFile | InvalidYaml | NoTombstonesList | TombstoneEntries "tombstone option list"

definition load_tombstone_file :: "string \<times> tombstone_file \<Rightarrow> tombstone list \<times> ingestion_diagnostic list" where
  "load_tombstone_file = (\<lambda>(locator, file). case file of
     UnreadableFile \<Rightarrow> ([], [diagnostic ''TOMBSTONE_FILE_UNAVAILABLE'' [locator] (Some locator) None])
   | InvalidYaml \<Rightarrow> ([], [diagnostic ''TOMBSTONE_SHAPE_INVALID'' [locator] (Some locator) None])
   | NoTombstonesList \<Rightarrow> ([], [diagnostic ''TOMBSTONE_SHAPE_INVALID'' [locator] (Some locator) None])
   | TombstoneEntries entries \<Rightarrow>
       (somes entries,
        map (\<lambda>(index, _). diagnostic ''TOMBSTONE_SHAPE_INVALID'' [locator, show_nat index] (Some locator) None)
          (filter (\<lambda>(_, entry). entry = None) (enumerate 0 entries))))"

definition load_tombstones ::
  "(string \<times> tombstone_file) list \<Rightarrow> tombstone list \<times> ingestion_diagnostic list" where
  "load_tombstones files =
     (concat (map (fst \<circ> load_tombstone_file) files), concat (map (snd \<circ> load_tombstone_file) files))"

section \<open>Inventory revisions\<close>

definition tombstone_bytes :: "tombstone \<Rightarrow> bytes option" where
  "tombstone_bytes t = length_delimited
     [utf8 (ts_target_source_instance_id t), utf8 (ts_discovery_scope_id t),
      utf8 (ts_expected_prior_inventory_revision t), utf8 (ts_scope_definition_digest t),
      utf8 (ts_actor t), utf8 (ts_reason t), utf8 (ts_tombstone_revision t)]"

definition tombstone_sort_key :: "tombstone \<Rightarrow> string \<times> string" where
  "tombstone_sort_key t = (ts_target_source_instance_id t, ts_tombstone_revision t)"

fun sequence_option :: "'a option list \<Rightarrow> 'a list option" where
  "sequence_option [] = Some []"
| "sequence_option (x # xs) = do { y \<leftarrow> x; ys \<leftarrow> sequence_option xs; Some (y # ys) }"

definition inventory_revision_key ::
  "discovery_scope_id \<Rightarrow> string \<Rightarrow> string list \<Rightarrow> tombstone list \<Rightarrow> inventory_status \<Rightarrow> bytes option" where
  "inventory_revision_key scope digest source_ids tombstones status = do {
     ids \<leftarrow> length_delimited_group (map utf8 (sort source_ids));
     parts \<leftarrow> sequence_option (map tombstone_bytes (sort_key tombstone_sort_key tombstones));
     ts \<leftarrow> length_delimited_group parts;
     length_delimited [utf8 scope, utf8 digest, ids, ts, utf8 (inventory_status_value status)]
   }"

definition inventory_revision ::
  "(bytes \<Rightarrow> string) \<Rightarrow> discovery_scope_id \<Rightarrow> string \<Rightarrow> string list \<Rightarrow> tombstone list \<Rightarrow> inventory_status
     \<Rightarrow> string option" where
  "inventory_revision H scope digest source_ids tombstones status =
     owned_id H ''urn:aip:inventory-revision:''
       (inventory_revision_key scope digest source_ids tombstones status)"

definition inventory_capture_id :: "(bytes \<Rightarrow> string) \<Rightarrow> string \<Rightarrow> string option \<Rightarrow> string \<Rightarrow> string option" where
  "inventory_capture_id H revision provider_revision capture_time =
     owned_id H ''urn:aip:inventory-capture:''
       (length_delimited [utf8 revision, utf8 (str_or provider_revision ''''), utf8 capture_time])"

definition inventory_event_id :: "(bytes \<Rightarrow> string) \<Rightarrow> string option \<Rightarrow> string \<Rightarrow> string option" where
  "inventory_event_id H previous capture =
     owned_id H ''urn:aip:inventory-event:'' (length_delimited [utf8 (str_or previous ''''), utf8 capture])"

section \<open>Removal authority\<close>

datatype removal_denial_reason =
  ENUMERATION_NOT_COMPLETE | ENUMERATION_SCOPE_MISMATCH | SOURCE_STILL_PRESENT_IN_ENUMERATION

record removal_decision =
  rd_authorized :: bool
  rd_reason :: "removal_denial_reason option"

definition deny :: "removal_denial_reason \<Rightarrow> removal_decision" where
  "deny reason = \<lparr>rd_authorized = False, rd_reason = Some reason\<rparr>"

definition authorize_source_removal ::
  "tombstone_validation option \<Rightarrow> inventory_status \<Rightarrow> string option \<times> string option
     \<Rightarrow> string option \<times> string option \<Rightarrow> bool \<Rightarrow> removal_decision" where
  "authorize_source_removal validation status enumeration_scope committed_scope absent =
     (if (case validation of Some v \<Rightarrow> tv_accepted v | None \<Rightarrow> False) then
        \<lparr>rd_authorized = True, rd_reason = None\<rparr>
      else if status \<noteq> COMPLETE then deny ENUMERATION_NOT_COMPLETE
      else if fst enumeration_scope = None \<or> snd enumeration_scope = None \<or>
              fst committed_scope = None \<or> snd committed_scope = None \<or>
              enumeration_scope \<noteq> committed_scope then deny ENUMERATION_SCOPE_MISMATCH
      else if \<not> absent then deny SOURCE_STILL_PRESENT_IN_ENUMERATION
      else \<lparr>rd_authorized = True, rd_reason = None\<rparr>)"

section \<open>Replay classification\<close>

datatype replay_case =
    FAILED_LOAD_PRESERVE_PRIOR | FIRST_SUCCESSFUL_LOAD | SCOPE_CHANGED_PRESERVE_PENDING_TOMBSTONE
  | REPLAY_NO_OP | RECONCILE_SAME_SCOPE_CHANGED_SEMANTIC_DIGEST

record replay_decision =
  rp_case :: replay_case
  rp_advance_possible :: bool

datatype inconsistent_replay_state = InconsistentReplayState

definition classify_replay_case ::
  "bool \<Rightarrow> string option \<Rightarrow> string option \<Rightarrow> string option \<Rightarrow> string option
     \<Rightarrow> inconsistent_replay_state + replay_decision" where
  "classify_replay_case successful committed_semantic new_semantic committed_scope new_scope =
     (if (committed_semantic = None) \<noteq> (committed_scope = None) then Inl InconsistentReplayState
      else if successful \<and> (new_semantic = None \<or> new_scope = None) then Inl InconsistentReplayState
      else if \<not> successful then Inr \<lparr>rp_case = FAILED_LOAD_PRESERVE_PRIOR, rp_advance_possible = False\<rparr>
      else if committed_semantic = None \<and> committed_scope = None then
        Inr \<lparr>rp_case = FIRST_SUCCESSFUL_LOAD, rp_advance_possible = True\<rparr>
      else if committed_scope \<noteq> new_scope then
        Inr \<lparr>rp_case = SCOPE_CHANGED_PRESERVE_PENDING_TOMBSTONE, rp_advance_possible = True\<rparr>
      else if committed_semantic = new_semantic then
        Inr \<lparr>rp_case = REPLAY_NO_OP, rp_advance_possible = False\<rparr>
      else Inr \<lparr>rp_case = RECONCILE_SAME_SCOPE_CHANGED_SEMANTIC_DIGEST, rp_advance_possible = True\<rparr>)"

section \<open>Lemmas\<close>

lemma inventory_status_value_inject [simp]: "inventory_status_value a = inventory_status_value b \<longleftrightarrow> a = b"
  by (cases a; cases b) (simp_all add: inventory_status_value_def)

lemma validate_tombstone_accepted_iff:
  "(\<exists>v. validate_tombstone t scope_id scope_digest revision = Inr v \<and> tv_accepted v) \<longleftrightarrow>
     scope_id = Some (ts_discovery_scope_id t) \<and> scope_digest = Some (ts_scope_definition_digest t) \<and>
     revision = Some (ts_expected_prior_inventory_revision t)"
  by (auto simp: validate_tombstone_def reject_tombstone_def Let_def split: option.splits if_splits)

lemma validate_tombstone_raises_iff:
  "validate_tombstone t scope_id scope_digest revision = Inl InconsistentCommittedInventoryState \<longleftrightarrow>
     \<not> (scope_id = None \<longleftrightarrow> scope_digest = None) \<or> \<not> (scope_digest = None \<longleftrightarrow> revision = None)"
  by (auto simp: validate_tombstone_def Let_def)

lemma tombstone_bytes_inject:
  "tombstone_bytes t = Some b \<Longrightarrow> tombstone_bytes u = Some b \<Longrightarrow> t = u"
  unfolding tombstone_bytes_def
  by (drule (1) length_delimited_inject) simp

lemma sequence_option_SomeD:
  "sequence_option xs = Some ys \<Longrightarrow> xs = map Some ys"
  by (induction xs arbitrary: ys) (auto simp: bind_eq_Some_conv)

lemma inventory_revision_key_inject:
  assumes "inventory_revision_key s d ids ts st = Some b" "inventory_revision_key s' d' ids' ts' st' = Some b"
  shows "s = s' \<and> d = d' \<and> st = st' \<and> mset ids = mset ids' \<and> mset ts = mset ts'"
proof -
  obtain i p g i' p' g' where
    i: "length_delimited (map utf8 (sort ids)) = Some i" "length_delimited (map utf8 (sort ids')) = Some i'" and
    p: "map tombstone_bytes (sort_key tombstone_sort_key ts) = map Some p"
       "map tombstone_bytes (sort_key tombstone_sort_key ts') = map Some p'" and
    g: "length_delimited p = Some g" "length_delimited p' = Some g'" and
    b: "length_delimited [utf8 s, utf8 d, i, g, utf8 (inventory_status_value st)] = Some b"
       "length_delimited [utf8 s', utf8 d', i', g', utf8 (inventory_status_value st')] = Some b"
    using assms
    by (auto simp: inventory_revision_key_def length_delimited_group_def bind_eq_Some_conv
        simp del: length_delimited.simps dest!: sequence_option_SomeD)
  have eq: "s = s'" "d = d'" "i = i'" "g = g'" "st = st'"
    using length_delimited_inject [OF b] by simp_all
  then have "p = p'" using g by (auto dest: length_delimited_inject)
  then have "map tombstone_bytes (sort_key tombstone_sort_key ts) =
      map tombstone_bytes (sort_key tombstone_sort_key ts')"
    using p by simp
  moreover have "inj_on tombstone_bytes (set (sort_key tombstone_sort_key ts) \<union> set (sort_key tombstone_sort_key ts'))"
  proof (rule inj_onI)
    fix t u
    assume t: "t \<in> set (sort_key tombstone_sort_key ts) \<union> set (sort_key tombstone_sort_key ts')"
      and eq: "tombstone_bytes t = tombstone_bytes u"
    have "tombstone_bytes t \<in> Some ` set p \<union> Some ` set p'"
      using t p by (metis (no_types, lifting) UnE UnI1 UnI2 image_eqI list.set_map)
    then show "t = u" using eq tombstone_bytes_inject by auto
  qed
  ultimately have "sort_key tombstone_sort_key ts = sort_key tombstone_sort_key ts'"
    by (metis inj_on_map_eq_map)
  then have "mset ts = mset ts'" by (metis mset_sort)
  moreover have "sort ids = sort ids'" using i eq length_delimited_inject by fastforce
  then have "mset ids = mset ids'" by (metis mset_sort)
  ultimately show ?thesis using eq by simp
qed

section \<open>Properties\<close>

text \<open>Whole-source removal needs real authority: an accepted tombstone, or a COMPLETE enumeration whose scope is
  set and equal to the committed one and in which the source is absent.\<close>

lemma removal_authority:
  "rd_authorized (authorize_source_removal validation status (es, ed) (cs, cd) absent) \<longleftrightarrow>
     (\<exists>v. validation = Some v \<and> tv_accepted v) \<or>
     (status = COMPLETE \<and> absent \<and> es = cs \<and> ed = cd \<and> cs \<noteq> None \<and> cd \<noteq> None)"
  by (cases validation) (auto simp: authorize_source_removal_def deny_def)

text \<open>Replay classification.  It raises exactly on an inconsistent digest state.  Otherwise a
  failed load always preserves the prior state, a source without committed digests is a first load, a
  changed scope digest takes precedence over any content change, equal digests are a no-op, and the
  graph revision can advance in exactly the three cases where a successful load saw something new.\<close>

theorem replay_case_decided:
  "(classify_replay_case ok cm nm cs ns = Inl InconsistentReplayState \<longleftrightarrow>
      (cm = None) \<noteq> (cs = None) \<or> (ok \<and> (nm = None \<or> ns = None))) \<and>
   (classify_replay_case ok cm nm cs ns = Inr d \<longrightarrow>
      (rp_case d = FAILED_LOAD_PRESERVE_PRIOR \<longleftrightarrow> \<not> ok) \<and>
      (rp_case d = FIRST_SUCCESSFUL_LOAD \<longleftrightarrow> ok \<and> cm = None) \<and>
      (rp_case d = SCOPE_CHANGED_PRESERVE_PENDING_TOMBSTONE \<longleftrightarrow> ok \<and> cm \<noteq> None \<and> cs \<noteq> ns) \<and>
      (rp_case d = REPLAY_NO_OP \<longleftrightarrow> ok \<and> cm \<noteq> None \<and> cs = ns \<and> cm = nm) \<and>
      (rp_advance_possible d \<longleftrightarrow> ok \<and> (cm \<noteq> nm \<or> cs \<noteq> ns)))"
  by (cases d) (auto simp: classify_replay_case_def)

lemma replay_case_decided_witness:
  "\<exists>d. classify_replay_case True (Some ''a'') (Some ''a'') (Some ''s'') (Some ''t'') = Inr d \<and>
     rp_case d = SCOPE_CHANGED_PRESERVE_PENDING_TOMBSTONE \<and> rp_advance_possible d"
proof -
  obtain d where d: "classify_replay_case True (Some ''a'') (Some ''a'') (Some ''s'') (Some ''t'') = Inr d"
    by (simp add: classify_replay_case_def)
  then show ?thesis
    using replay_case_decided [of True "Some ''a''" "Some ''a''" "Some ''s''" "Some ''t''" d] by simp
qed

text \<open>The inventory revision identifies the enumeration.  It does not depend on the order in
  which the sources were enumerated, nor on the order of the tombstones when no two share target and
  revision; and two equal revisions come from the same scope, digest, status, source ids and
  tombstones, or exhibit an explicit SHA-256 collision.\<close>

theorem inventory_revision_semantic:
  "(mset ids = mset ids' \<and> mset ts = mset ts' \<and> inj_on tombstone_sort_key (set ts) \<longrightarrow>
      inventory_revision H s d ids ts st = inventory_revision H s d ids' ts' st) \<and>
   (inventory_revision H s d ids ts st = Some r \<and> inventory_revision H s' d' ids' ts' st' = Some r \<longrightarrow>
      (s = s' \<and> d = d' \<and> st = st' \<and> mset ids = mset ids' \<and> mset ts = mset ts') \<or>
      keys_collide H (inventory_revision_key s d ids ts st) (inventory_revision_key s' d' ids' ts' st'))"
proof (intro conjI impI)
  assume "mset ids = mset ids' \<and> mset ts = mset ts' \<and> inj_on tombstone_sort_key (set ts)"
  then have "sort ids = sort ids'" "sort_key tombstone_sort_key ts = sort_key tombstone_sort_key ts'"
    by (auto intro: sort_perm_eq sort_key_perm_eq)
  then show "inventory_revision H s d ids ts st = inventory_revision H s d ids' ts' st"
    by (simp add: inventory_revision_def inventory_revision_key_def)
next
  assume "inventory_revision H s d ids ts st = Some r \<and> inventory_revision H s' d' ids' ts' st' = Some r"
  then obtain k l where "inventory_revision_key s d ids ts st = Some k"
    "inventory_revision_key s' d' ids' ts' st' = Some l" "H k = H l"
    by (auto simp: inventory_revision_def owned_id_def)
  then show "(s = s' \<and> d = d' \<and> st = st' \<and> mset ids = mset ids' \<and> mset ts = mset ts') \<or>
      keys_collide H (inventory_revision_key s d ids ts st) (inventory_revision_key s' d' ids' ts' st')"
    using inventory_revision_key_inject [of s d ids ts st k s' d' ids' ts' st']
    by (cases "k = l") (simp_all add: keys_collide_def)
qed

lemma inventory_revision_semantic_witness:
  "inventory_revision (\<lambda>k. k) ''s'' ''d'' [''b'', ''a''] [] COMPLETE =
   inventory_revision (\<lambda>k. k) ''s'' ''d'' [''a'', ''b''] [] COMPLETE"
  using inventory_revision_semantic [where ids = "[''b'', ''a'']" and ids' = "[''a'', ''b'']" and ts = "[]"
      and ts' = "[]" and H = "\<lambda>k. k" and s = "''s''" and d = "''d''" and st = COMPLETE]
  by (simp add: add_mset_commute)

end
