(* ===== verification/Discovery.thy ===== *)
theory Discovery
  imports ManifestBindings CanonicalValidation ClaimConflicts Inventory
begin

text \<open>
  \<open>ingestion/orchestrator.py\<close>, the registry of \<open>sources/registry.py\<close> and the rejections of
  \<open>ingestion/adapter_outcomes.py\<close>: one discovery run, in memory, from the enumerated sources to
  the run result with its inventory snapshot.  A discoverer and the adapters are the registry's
  interfaces and appear as values (\<open>discovery_outcome\<close>, \<open>adapter\<close>); a document that is not an
  identity-bindings manifest is opaque (\<open>'d\<close>).  The digest of the mapping context and the capture
  time are parameters.
\<close>

datatype 'd source_document =
    BindingsManifest string string "raw_binding list"
  | MisshapenManifest "string list"
  | OtherDocument 'd

record 'd loaded_source =
  ls_descriptor :: source_descriptor
  ls_document :: "'d source_document"

record adapter_outcome =
  ao_result :: ingestion_result
  ao_model :: architecture_model
  ao_diagnostics :: "ingestion_diagnostic list"
  ao_semantic_input_digest :: "string option"

text \<open>
  An adapter: \<open>Inl p\<close> is the CanonicalIntegerDomainError its mapping raises, with the pointer of the
  offending integer.
\<close>

record 'd adapter =
  ad_identity :: string
  ad_mapping_rule_version :: string
  ad_dependency_phase :: int
  ad_supports :: "'d loaded_source \<Rightarrow> bool"
  ad_map :: "'d loaded_source \<Rightarrow> pointer_binding list \<Rightarrow> architecture_model \<Rightarrow> string
     \<Rightarrow> string option + adapter_outcome"

record 'd discovery_outcome =
  do_loaded_sources :: "'d loaded_source list"
  do_enumeration_complete :: bool
  do_diagnostics :: "ingestion_diagnostic list"
  do_discovery_scope_id :: "string option"
  do_scope_definition_digest :: "string option"
  do_expected_prior_inventory_revision :: "string option expectation"

record source_run_outcome =
  so_locator :: string
  so_outcome :: adapter_outcome
  so_descriptor :: "source_descriptor option"

type_synonym source_outcomes = "(string \<times> source_run_outcome) list"

record inventory_snapshot =
  in_revision :: string
  in_capture_id :: string
  in_scope_id :: string
  in_scope_digest :: string
  in_adapter_identities :: "string list"
  in_mapping_rule_identities :: "string list"
  in_status :: inventory_status
  in_discovered_source_ids :: "string list"
  in_tombstones :: "tombstone list"
  in_capture_time :: string
  in_diagnostics :: "ingestion_diagnostic list"

record discovery_run_result =
  dr_status :: inventory_status
  dr_commit_eligible :: bool
  dr_scope_id :: "string option"
  dr_scope_digest :: "string option"
  dr_merged_model :: architecture_model
  dr_outcomes :: source_outcomes
  dr_diagnostics :: "ingestion_diagnostic list"
  dr_snapshot :: "inventory_snapshot option"
  dr_expected_prior :: "string option expectation"

datatype discovery_error = AmbiguousAdapterRegistration string "string list"

abbreviation source_id_of :: "'d loaded_source \<Rightarrow> string" where
  "source_id_of l \<equiv> sd_source_instance_id (ls_descriptor l)"

section \<open>Registry and rejections\<close>

definition adapter_for :: "'d adapter list \<Rightarrow> 'd loaded_source \<Rightarrow> discovery_error + 'd adapter option" where
  "adapter_for adapters loaded =
     (let matches = filter (\<lambda>a. ad_supports a loaded) adapters in
      if length matches > 1 then
        Inl (AmbiguousAdapterRegistration (sd_locator (ls_descriptor loaded)) (map ad_identity matches))
      else Inr (case matches of [] \<Rightarrow> None | a # _ \<Rightarrow> Some a))"

definition phases :: "'d adapter list \<Rightarrow> int list" where
  "phases adapters = sorted_set (map ad_dependency_phase adapters)"

definition rejected_outcome :: "ingestion_result \<Rightarrow> ingestion_diagnostic list \<Rightarrow> adapter_outcome" where
  "rejected_outcome result diagnostics = \<lparr>ao_result = result, ao_model = empty_model,
     ao_diagnostics = diagnostics, ao_semantic_input_digest = None\<rparr>"

definition rejected_for_integer_domain :: "'d loaded_source \<Rightarrow> string option \<Rightarrow> adapter_outcome" where
  "rejected_for_integer_domain loaded p = rejected_outcome REJECTED_INVALID
     [diagnostic DC_DOCUMENT_PARSE_INVALID (case p of None \<Rightarrow> [] | Some q \<Rightarrow> [q])
        (Some (sd_locator (ls_descriptor loaded))) None]"

section \<open>Identity manifests\<close>

definition is_identity_bindings :: "'d loaded_source \<Rightarrow> bool" where
  "is_identity_bindings l = (case ls_document l of OtherDocument _ \<Rightarrow> False | _ \<Rightarrow> True)"

definition parse_manifest :: "'d loaded_source \<Rightarrow> ingestion_diagnostic list + bindings_document" where
  "parse_manifest l = (case ls_document l of
     BindingsManifest manifest_id revision raws \<Rightarrow>
       parse_bindings manifest_id revision (sd_locator (ls_descriptor l)) raws
   | MisshapenManifest msgs \<Rightarrow> Inl (map (\<lambda>msg.
       diagnostic ''MANIFEST_BINDING_SHAPE_INVALID'' [msg] (Some (sd_locator (ls_descriptor l))) None) msgs)
   | OtherDocument _ \<Rightarrow> Inl [])"

definition phase1_codes :: "diagnostic_code list" where
  "phase1_codes = [''MANIFEST_BINDING_SHAPE_INVALID'', DC_MANIFEST_BINDING_POINTER_INVALID,
     DC_SERVICE_IDENTITY_INVALID]"

definition bind_identity_manifests ::
  "'d loaded_source list \<Rightarrow> ingestion_diagnostic list
     \<Rightarrow> binding_index_entry list \<times> bool \<times> ingestion_diagnostic list" where
  "bind_identity_manifests loaded run_diagnostics =
     (let parsed = map parse_manifest (filter is_identity_bindings loaded);
          (index, index_diagnostics) = build_binding_index (Some (map source_id_of loaded)) (rights parsed);
          diagnostics = run_diagnostics @ concat (lefts parsed) @ index_diagnostics in
      (index, index_diagnostics \<noteq> [] \<or> (\<exists>d\<in>set diagnostics. d_code d \<in> set phase1_codes), diagnostics))"

definition binding_index_to_pointer_bindings :: "binding_index_entry list \<Rightarrow> pointer_binding list" where
  "binding_index_to_pointer_bindings entries = map (\<lambda>e.
     \<lparr>pb_source_instance_id = be_source_instance_id e, pb_pointer_prefix = be_pointer_prefix e,
      pb_service_id = be_service_id e, pb_path = MANIFEST_BINDING\<rparr>) entries"

section \<open>Mapping the sources\<close>

record map_state =
  ms_outcomes :: source_outcomes
  ms_models :: "architecture_model list"
  ms_diagnostics :: "ingestion_diagnostic list"

definition enrich :: "'d adapter \<Rightarrow> 'd loaded_source \<Rightarrow> 'd loaded_source" where
  "enrich a l = l\<lparr>ls_descriptor := (ls_descriptor l)\<lparr>sd_adapter_identity := ad_identity a,
     sd_mapping_rule_id := ad_identity a, sd_mapping_rule_version := ad_mapping_rule_version a\<rparr>\<rparr>"

definition map_one ::
  "'d adapter list \<Rightarrow> pointer_binding list \<Rightarrow> string \<Rightarrow> int \<Rightarrow> architecture_model \<Rightarrow> 'd loaded_source
     \<Rightarrow> map_state \<Rightarrow> discovery_error + map_state" where
  "map_one adapters bindings digest phase upstream loaded st =
     (if source_id_of loaded \<in> fst ` set (ms_outcomes st) then Inr st
      else case adapter_for adapters loaded of
        Inl e \<Rightarrow> Inl e
      | Inr None \<Rightarrow> Inr st
      | Inr (Some a) \<Rightarrow>
          if ad_dependency_phase a \<noteq> phase then Inr st
          else let enriched = enrich a loaded;
                   outcome = (case ad_map a enriched bindings upstream digest of
                     Inl p \<Rightarrow> rejected_for_integer_domain enriched p
                   | Inr outcome \<Rightarrow> outcome) in
            Inr (st\<lparr>ms_outcomes := ms_outcomes st @ [(source_id_of loaded,
                      \<lparr>so_locator = sd_locator (ls_descriptor loaded), so_outcome = outcome,
                       so_descriptor = Some (ls_descriptor enriched)\<rparr>)],
                    ms_models := ms_models st @ [ao_model outcome],
                    ms_diagnostics := ms_diagnostics st @ ao_diagnostics outcome\<rparr>))"

fun fold_error :: "('a \<Rightarrow> 's \<Rightarrow> 'e + 's) \<Rightarrow> 'a list \<Rightarrow> 's \<Rightarrow> 'e + 's" where
  "fold_error f [] s = Inr s"
| "fold_error f (x # xs) s = (case f x s of Inl e \<Rightarrow> Inl e | Inr s' \<Rightarrow> fold_error f xs s')"

fun map_phases ::
  "(bytes \<Rightarrow> string) \<Rightarrow> 'd adapter list \<Rightarrow> pointer_binding list \<Rightarrow> string \<Rightarrow> 'd loaded_source list \<Rightarrow> int list
     \<Rightarrow> architecture_model \<Rightarrow> map_state \<Rightarrow> discovery_error + map_state" where
  "map_phases H adapters bindings digest sources [] upstream st = Inr st"
| "map_phases H adapters bindings digest sources (phase # ps) upstream st =
     (case fold_error (map_one adapters bindings digest phase upstream) sources (st\<lparr>ms_models := []\<rparr>) of
        Inl e \<Rightarrow> Inl e
      | Inr st' \<Rightarrow> map_phases H adapters bindings digest sources ps
          (merge_models H (upstream # ms_models st')) st')"

definition unmatched_outcome :: "'d loaded_source \<Rightarrow> source_run_outcome" where
  "unmatched_outcome l =
     \<lparr>so_locator = sd_locator (ls_descriptor l),
      so_outcome = rejected_outcome REJECTED_UNSUPPORTED
        [diagnostic DC_DOCUMENT_PARSE_INVALID [sd_locator (ls_descriptor l)]
           (Some (sd_locator (ls_descriptor l))) (Some (source_id_of l))],
      so_descriptor = Some (ls_descriptor l)\<rparr>"

definition add_unmatched :: "'d loaded_source \<Rightarrow> map_state \<Rightarrow> map_state" where
  "add_unmatched l st =
     (if source_id_of l \<in> fst ` set (ms_outcomes st) then st
      else st\<lparr>ms_outcomes := ms_outcomes st @ [(source_id_of l, unmatched_outcome l)],
              ms_diagnostics := ms_diagnostics st @ ao_diagnostics (so_outcome (unmatched_outcome l))\<rparr>)"

definition map_sources ::
  "(bytes \<Rightarrow> string) \<Rightarrow> 'd adapter list \<Rightarrow> pointer_binding list \<Rightarrow> string \<Rightarrow> 'd loaded_source list
     \<Rightarrow> ingestion_diagnostic list \<Rightarrow> discovery_error + source_outcomes \<times> ingestion_diagnostic list" where
  "map_sources H adapters bindings digest sources run_diagnostics =
     (case map_phases H adapters bindings digest sources (phases adapters) empty_model
        \<lparr>ms_outcomes = [], ms_models = [], ms_diagnostics = run_diagnostics\<rparr> of
        Inl e \<Rightarrow> Inl e
      | Inr st \<Rightarrow> let st' = fold add_unmatched sources st in Inr (ms_outcomes st', ms_diagnostics st'))"

section \<open>Conflicts and validation\<close>

definition outcome_models :: "source_outcomes \<Rightarrow> architecture_model list" where
  "outcome_models outcomes = map (\<lambda>(_, so). ao_model (so_outcome so)) outcomes"

definition run_content_conflicts :: "source_outcomes \<Rightarrow> ingestion_diagnostic list \<times> string set" where
  "run_content_conflicts outcomes =
     (let models = outcome_models outcomes;
          infrastructure = detect_infrastructure_entity_content_conflicts models;
          subscription = detect_subscription_topic_binding_conflicts
            (map (\<lambda>(s, so). (s, ao_model (so_outcome so))) outcomes) in
      (sort_key diagnostic_sort_key (detect_shared_claim_content_conflicts models @
         cf_diagnostics infrastructure @ cf_diagnostics subscription),
       cf_sources infrastructure \<union> cf_sources subscription))"

definition rejected_conflict :: "source_run_outcome \<Rightarrow> source_run_outcome" where
  "rejected_conflict so = so\<lparr>so_outcome := (so_outcome so)\<lparr>ao_result := REJECTED_CONFLICT\<rparr>\<rparr>"

definition emitted_element_ids :: "(bytes \<Rightarrow> string) \<Rightarrow> architecture_model \<Rightarrow> string set" where
  "emitted_element_ids H m = model_element_ids H m \<union>
     ac_id ` set (api_contracts m) \<union> av_id ` set (api_contract_versions m) \<union>
     aa_id ` set (api_contract_associations m) \<union> (\<Union>k. ca_id ` set (carriers m k))"

text \<open>The text of an issue is not modelled; the constructor's values stand in \<open>d_args\<close>.\<close>

definition issue_diagnostic ::
  "(bytes \<Rightarrow> string) \<Rightarrow> source_outcomes \<Rightarrow> string \<Rightarrow> validation_issue \<Rightarrow> ingestion_diagnostic option" where
  "issue_diagnostic H outcomes s i =
     (case map_of outcomes s of
        None \<Rightarrow> None
      | Some so \<Rightarrow>
          case sorted_set (filter (\<lambda>e. e \<in> emitted_element_ids H (ao_model (so_outcome so))) (vi_element_ids i)) of
            [] \<Rightarrow> None
          | e # _ \<Rightarrow> Some (diagnostic DC_CANONICAL_MODEL_INVALID (vi_element_ids i) (Some e) (Some s)))"

definition reject_source ::
  "(bytes \<Rightarrow> string) \<Rightarrow> source_outcomes \<Rightarrow> validation_issue list \<Rightarrow> string \<times> source_run_outcome
     \<Rightarrow> string \<times> source_run_outcome" where
  "reject_source H outcomes issues = (\<lambda>(s, so).
     let ds = somes (map (issue_diagnostic H outcomes s) issues); ao = so_outcome so in
     if ds = [] then (s, so)
     else (s, so\<lparr>so_outcome := ao\<lparr>
        ao_result := (if ao_result ao = ACCEPTED \<or> ao_result ao = ACCEPTED_WITH_LIMITATIONS
                      then REJECTED_INVALID else ao_result ao),
        ao_diagnostics := ao_diagnostics ao @ ds\<rparr>\<rparr>))"

definition unattributed_issues ::
  "(bytes \<Rightarrow> string) \<Rightarrow> source_outcomes \<Rightarrow> validation_issue list \<Rightarrow> validation_issue list" where
  "unattributed_issues H outcomes issues =
     filter (\<lambda>i. \<forall>s\<in>fst ` set outcomes. issue_diagnostic H outcomes s i = None) issues"

definition reject_canonically_invalid ::
  "(bytes \<Rightarrow> string) \<Rightarrow> source_outcomes \<Rightarrow> validation_issue list
     \<Rightarrow> source_outcomes \<times> ingestion_diagnostic list \<times> validation_issue list" where
  "reject_canonically_invalid H outcomes issues =
     (let unattributed = unattributed_issues H outcomes issues in
      (map (reject_source H outcomes issues) outcomes,
       concat (map (\<lambda>s. somes (map (issue_diagnostic H outcomes s) issues)) (sort (map fst outcomes))) @
         map (\<lambda>i. diagnostic DC_CANONICAL_MODEL_INVALID (vi_element_ids i)
            (case sorted_set (vi_element_ids i) of [] \<Rightarrow> None | e # _ \<Rightarrow> Some e) None) unattributed,
       unattributed))"

section \<open>The run result\<close>

definition build_inventory_snapshot ::
  "(bytes \<Rightarrow> string) \<Rightarrow> string \<Rightarrow> 'd adapter list \<Rightarrow> string option \<Rightarrow> string option \<Rightarrow> inventory_status
     \<Rightarrow> source_outcomes \<Rightarrow> ingestion_diagnostic list \<Rightarrow> tombstone list \<Rightarrow> inventory_snapshot option" where
  "build_inventory_snapshot H capture_time adapters scope digest status outcomes diagnostics tombstones =
     (case (scope, digest) of
        (Some s, Some d) \<Rightarrow>
          let in_scope = filter (\<lambda>t. ts_discovery_scope_id t = s) tombstones;
              ids = sort (map fst outcomes);
              revision = the_id (inventory_revision H s d ids in_scope status) in
          Some \<lparr>in_revision = revision,
            in_capture_id = the_id (inventory_capture_id H revision None capture_time),
            in_scope_id = s, in_scope_digest = d,
            in_adapter_identities = sort (map ad_identity adapters),
            in_mapping_rule_identities = sort (map ad_mapping_rule_version adapters),
            in_status = status, in_discovered_source_ids = ids, in_tombstones = in_scope,
            in_capture_time = capture_time, in_diagnostics = diagnostics\<rparr>
      | _ \<Rightarrow> None)"

definition run_result ::
  "(bytes \<Rightarrow> string) \<Rightarrow> string \<Rightarrow> 'd adapter list \<Rightarrow> 'd discovery_outcome \<Rightarrow> tombstone list \<Rightarrow> inventory_status
     \<Rightarrow> bool \<Rightarrow> architecture_model \<Rightarrow> source_outcomes \<Rightarrow> ingestion_diagnostic list \<Rightarrow> discovery_run_result" where
  "run_result H capture_time adapters outcome tombstones status eligible merged outcomes diagnostics =
     \<lparr>dr_status = status, dr_commit_eligible = eligible, dr_scope_id = do_discovery_scope_id outcome,
      dr_scope_digest = do_scope_definition_digest outcome, dr_merged_model = merged,
      dr_outcomes = outcomes, dr_diagnostics = diagnostics,
      dr_snapshot = build_inventory_snapshot H capture_time adapters (do_discovery_scope_id outcome)
        (do_scope_definition_digest outcome) status outcomes diagnostics tombstones,
      dr_expected_prior = do_expected_prior_inventory_revision outcome\<rparr>"

definition without_api_contract_carriers :: "architecture_model \<Rightarrow> architecture_model" where
  "without_api_contract_carriers m =
     m\<lparr>api_contracts := [], api_contract_versions := [], api_contract_associations := []\<rparr>"

definition strip_contracts :: "source_outcomes \<Rightarrow> source_outcomes" where
  "strip_contracts = map (\<lambda>(s, so). (s, so\<lparr>so_outcome := (so_outcome so)
     \<lparr>ao_model := without_api_contract_carriers (ao_model (so_outcome so))\<rparr>\<rparr>))"

definition judge_outcomes ::
  "(bytes \<Rightarrow> string) \<Rightarrow> (inventory_status \<Rightarrow> bool \<Rightarrow> architecture_model \<Rightarrow> source_outcomes \<Rightarrow>
      ingestion_diagnostic list \<Rightarrow> discovery_run_result)
     \<Rightarrow> source_outcomes \<Rightarrow> ingestion_diagnostic list \<Rightarrow> discovery_run_result" where
  "judge_outcomes H result outcomes diagnostics =
     (let (conflicts, conflicted) = run_content_conflicts outcomes in
      if conflicts \<noteq> [] then
        result PARTIAL False empty_model
          (map (\<lambda>(s, so). (s, if s \<in> conflicted then rejected_conflict so else so)) outcomes)
          (diagnostics @ conflicts)
      else
        let merged = merge_models H (outcome_models outcomes);
            issues = canonical_validation_issues H merged in
        if issues \<noteq> [] then
          let (outcomes', new_diagnostics, unattributed) = reject_canonically_invalid H outcomes issues in
          result (if unattributed \<noteq> [] then FAILED else PARTIAL) False empty_model outcomes'
            (diagnostics @ new_diagnostics)
        else
          let status = classify_inventory_status (map (\<lambda>(_, so). ao_result (so_outcome so)) outcomes) True in
          result status (run_is_eligible_to_commit status) merged outcomes diagnostics)"

definition run_discovery ::
  "(bytes \<Rightarrow> string) \<Rightarrow> string \<Rightarrow> (binding_index_entry list \<Rightarrow> string) \<Rightarrow> 'd adapter list \<Rightarrow> tombstone list \<Rightarrow> bool
     \<Rightarrow> 'd discovery_outcome \<Rightarrow> discovery_error + discovery_run_result" where
  "run_discovery H capture_time context_digest adapters tombstones contracts outcome =
     (let result = run_result H capture_time adapters outcome tombstones in
      if \<not> do_enumeration_complete outcome then
        let status = classify_inventory_status [] False in
        Inr (result status (run_is_eligible_to_commit status) empty_model [] (do_diagnostics outcome))
      else
        let loaded = sort_key source_id_of (do_loaded_sources outcome);
            (index, failed, diagnostics) = bind_identity_manifests loaded (do_diagnostics outcome) in
        if failed then
          let status = classify_inventory_status [] False in
          Inr (result status (run_is_eligible_to_commit status) empty_model [] diagnostics)
        else case map_sources H adapters (binding_index_to_pointer_bindings index) (context_digest index)
               (filter (\<lambda>l. \<not> is_identity_bindings l) loaded) diagnostics of
            Inl e \<Rightarrow> Inl e
          | Inr (outcomes, diagnostics') \<Rightarrow>
              Inr (judge_outcomes H result (if contracts then outcomes else strip_contracts outcomes)
                diagnostics'))"

section \<open>A run that may commit is clean\<close>

lemma judge_eligible:
  assumes "dr_commit_eligible (judge_outcomes H (run_result H t adapters outcome tombs) outcomes ds)"
  shows "judge_outcomes H (run_result H t adapters outcome tombs) outcomes ds =
      run_result H t adapters outcome tombs COMPLETE True (merge_models H (outcome_models outcomes)) outcomes ds \<and>
    fst (run_content_conflicts outcomes) = [] \<and>
    canonical_validation_issues H (merge_models H (outcome_models outcomes)) = [] \<and>
    (\<forall>(_, so)\<in>set outcomes. ao_result (so_outcome so) \<notin> rejected_results)"
proof -
  obtain cs conflicted where c: "run_content_conflicts outcomes = (cs, conflicted)"
    by (cases "run_content_conflicts outcomes")
  let ?issues = "canonical_validation_issues H (merge_models H (outcome_models outcomes))"
  have none: "cs = []"
    using assms by (rule contrapos_pp) (simp add: judge_outcomes_def c run_result_def)
  have valid: "?issues = []"
    using assms
    by (rule contrapos_pp) (simp add: judge_outcomes_def c none Let_def run_result_def split: prod.splits)
  let ?status = "classify_inventory_status (map (\<lambda>(_, so). ao_result (so_outcome so)) outcomes) True"
  have judged: "judge_outcomes H (run_result H t adapters outcome tombs) outcomes ds =
      run_result H t adapters outcome tombs ?status (run_is_eligible_to_commit ?status)
        (merge_models H (outcome_models outcomes)) outcomes ds"
    by (simp add: judge_outcomes_def c none Let_def valid)
  then have eligible: "run_is_eligible_to_commit ?status"
    using assms by (simp add: run_result_def)
  then have "?status = COMPLETE" by (simp add: run_is_eligible_to_commit_def)
  moreover have "\<forall>(_, so)\<in>set outcomes. ao_result (so_outcome so) \<notin> rejected_results"
    using eligible by (auto simp: eligible_iff)
  ultimately show ?thesis
    using judged eligible c none valid by simp
qed

lemma run_result_sel [simp]:
  "dr_status (run_result H t ad oc tb st el m os ds) = st"
  "dr_commit_eligible (run_result H t ad oc tb st el m os ds) = el"
  "dr_merged_model (run_result H t ad oc tb st el m os ds) = m"
  "dr_outcomes (run_result H t ad oc tb st el m os ds) = os"
  "dr_diagnostics (run_result H t ad oc tb st el m os ds) = ds"
  "dr_scope_id (run_result H t ad oc tb st el m os ds) = do_discovery_scope_id oc"
  by (simp_all add: run_result_def)

lemma ineligible_incomplete: "\<not> run_is_eligible_to_commit (classify_inventory_status rs False)"
  by (simp add: eligible_iff)

text \<open>C3: A discovery run is eligible to commit only if the enumeration was complete, no source was rejected,
  the sources have no content conflict, and the model to commit is the merge of exactly the reported
  sources' models and satisfies every rule of the canonical validation.\<close>

theorem eligible_run_is_clean:
  assumes "run_discovery H t context_digest adapters tombs contracts outcome = Inr r"
    and "dr_commit_eligible r"
  shows "do_enumeration_complete outcome \<and> dr_status r = COMPLETE \<and>
    (\<forall>(_, so)\<in>set (dr_outcomes r). ao_result (so_outcome so) \<notin> rejected_results) \<and>
    fst (run_content_conflicts (dr_outcomes r)) = [] \<and>
    dr_merged_model r = merge_models H (outcome_models (dr_outcomes r)) \<and>
    canonical_well_formed (dr_merged_model r)"
proof -
  let ?result = "run_result H t adapters outcome tombs"
  let ?loaded = "sort_key source_id_of (do_loaded_sources outcome)"
  obtain index failed ds where b: "bind_identity_manifests ?loaded (do_diagnostics outcome) = (index, failed, ds)"
    by (cases "bind_identity_manifests ?loaded (do_diagnostics outcome)")
  have complete: "do_enumeration_complete outcome"
    using assms by (auto simp: run_discovery_def Let_def ineligible_incomplete split: if_splits)
  moreover have "\<not> failed"
    using assms complete by (auto simp: run_discovery_def Let_def b ineligible_incomplete split: if_splits)
  ultimately obtain os ds' where r: "r = judge_outcomes H ?result os ds'"
    using assms(1) by (auto simp: run_discovery_def Let_def b split: sum.splits prod.splits)
  show ?thesis
    using judge_eligible [OF assms(2) [unfolded r]] complete unfolding r by (auto simp: canonical_issues_Nil)
qed

section \<open>Loops that stop at the first error\<close>

lemma fold_error_invar:
  assumes "fold_error f xs s = Inr s'" "P s"
    and "\<And>x s s'. x \<in> set xs \<Longrightarrow> P s \<Longrightarrow> f x s = Inr s' \<Longrightarrow> P s'"
  shows "P s'"
  using assms
proof (induction xs arbitrary: s)
  case Nil
  then show ?case by simp
next
  case (Cons x xs)
  obtain s1 where s1: "f x s = Inr s1" "fold_error f xs s1 = Inr s'"
    using Cons.prems(1) by (auto split: sum.splits)
  have "P s1" using Cons.prems(2,3) s1(1) by (metis list.set_intros(1))
  then show ?case
    using Cons.IH [OF s1(2)] Cons.prems(3) by (metis list.set_intros(2))
qed

lemma fold_error_reaches:
  assumes "fold_error f xs s = Inr s'" "x \<in> set xs"
    and established: "\<And>s s'. f x s = Inr s' \<Longrightarrow> Q s'"
    and kept: "\<And>y s s'. y \<in> set xs \<Longrightarrow> Q s \<Longrightarrow> f y s = Inr s' \<Longrightarrow> Q s'"
  shows "Q s'"
  using assms
proof (induction xs arbitrary: s)
  case Nil
  then show ?case by simp
next
  case (Cons y ys)
  obtain s1 where s1: "f y s = Inr s1" "fold_error f ys s1 = Inr s'"
    using Cons.prems(1) by (auto split: sum.splits)
  show ?case
  proof (cases "x = y")
    case True
    then have "Q s1" using Cons.prems(3) s1(1) by simp
    then show ?thesis
      using fold_error_invar [OF s1(2)] Cons.prems(4) by (metis list.set_intros(2))
  next
    case False
    then show ?thesis
      using Cons.IH [OF s1(2)] Cons.prems(2-4) by (metis list.set_intros(2) set_ConsD)
  qed
qed

section \<open>A small run\<close>

definition sample_source :: "string \<Rightarrow> unit loaded_source" where
  "sample_source s = \<lparr>ls_descriptor =
     \<lparr>sd_source_instance_id = s, sd_source_kind = FILESYSTEM, sd_locator = ''file:'' @ s,
      sd_discovery_scope_id = ''scope'', sd_scope_definition_digest = ''d'',
      sd_source_inventory_snapshot_ref = None, sd_declared_provider_revision = None,
      sd_content_sha256 = ''c'', sd_dependency_closure_digest = None, sd_semantic_input_digest = ''i'',
      sd_mapping_context_digest = ''m'', sd_declared_service_id = None, sd_document_dialect_version = None,
      sd_adapter_identity = '''', sd_mapping_rule_id = '''', sd_mapping_rule_version = '''', sd_capture_scope = None\<rparr>,
    ls_document = OtherDocument ()\<rparr>"

definition sample_adapter :: "unit adapter" where
  "sample_adapter = \<lparr>ad_identity = ''sample'', ad_mapping_rule_version = ''1'', ad_dependency_phase = 1,
     ad_supports = (\<lambda>l. True),
     ad_map = (\<lambda>l bs up digest. Inr \<lparr>ao_result = ACCEPTED,
       ao_model = empty_model\<lparr>services := [\<lparr>svc_id = ''svc'', svc_name = ''S'', svc_version = None\<rparr>]\<rparr>,
       ao_diagnostics = [], ao_semantic_input_digest = Some digest\<rparr>)\<rparr>"

definition sample_outcome :: "unit discovery_outcome" where
  "sample_outcome = \<lparr>do_loaded_sources = [sample_source ''b'', sample_source ''a''],
     do_enumeration_complete = True, do_diagnostics = [], do_discovery_scope_id = None,
     do_scope_definition_digest = None, do_expected_prior_inventory_revision = NotSupplied\<rparr>"

definition sample_run :: "discovery_error + discovery_run_result" where
  "sample_run = run_discovery (\<lambda>b. b) ''t'' (\<lambda>_. ''ctx'') [sample_adapter] [] True sample_outcome"

definition sample_outcomes :: source_outcomes where
  "sample_outcomes = map (\<lambda>s. (s, \<lparr>so_locator = ''file:'' @ s,
     so_outcome = \<lparr>ao_result = ACCEPTED,
       ao_model = empty_model\<lparr>services := [\<lparr>svc_id = ''svc'', svc_name = ''S'', svc_version = None\<rparr>]\<rparr>,
       ao_diagnostics = [], ao_semantic_input_digest = Some ''ctx''\<rparr>,
     so_descriptor = Some (ls_descriptor (enrich sample_adapter (sample_source s)))\<rparr>)) [''a'', ''b'']"

lemma sample_loaded: "sort_key source_id_of [sample_source ''b'', sample_source ''a''] = [sample_source ''a'', sample_source ''b'']"
  by (simp add: sample_source_def)

lemma sample_bind: "bind_identity_manifests [sample_source ''a'', sample_source ''b''] [] = ([], False, [])"
  by (simp add: bind_identity_manifests_def is_identity_bindings_def sample_source_def build_binding_index_def
      index_entries_def raw_entries_def unknown_source_diagnostics_def by_source_def)

lemma sample_mapped:
  "map_sources (\<lambda>b. b) [sample_adapter] bs ''ctx'' [sample_source ''a'', sample_source ''b''] [] =
     Inr (sample_outcomes, [])"
  by (simp add: map_sources_def phases_def map_one_def adapter_for_def sample_adapter_def sample_source_def
      enrich_def add_unmatched_def sample_outcomes_def Let_def)

lemma sample_conflicts: "fst (run_content_conflicts sample_outcomes) = []"
  by (simp add: run_content_conflicts_def sample_outcomes_def outcome_models_def empty_model_def
      detect_shared_claim_content_conflicts_def content_conflicts_def schema_claims_def message_claims_def
      group_pairs_def detect_infrastructure_entity_content_conflicts_def conflicted_entity_ids_def
      digests_by_entity_def captured_uids_by_entity_def all_contributions_def
      detect_subscription_topic_binding_conflicts_def subscription_bindings_def Let_def)

lemma sample_well_formed:
  "canonical_well_formed (merge_models (\<lambda>b. b) (outcome_models sample_outcomes))"
  by (simp add: canonical_well_formed_def unique_ids_def provided_once_def references_resolve_def
      pubsub_well_formed_def infrastructure_well_formed_def outcome_models_def sample_outcomes_def empty_model_def
      all_of_def setdefault_all_def setdefault_def append_unseen_def merge_claims_def merge_models_def)

lemma sample_run_result:
  "sample_run = Inr (run_result (\<lambda>b. b) ''t'' [sample_adapter] sample_outcome [] COMPLETE True
     (merge_models (\<lambda>b. b) (outcome_models sample_outcomes)) sample_outcomes [])"
proof -
  obtain conflicted where "run_content_conflicts sample_outcomes = ([], conflicted)"
    using sample_conflicts by (cases "run_content_conflicts sample_outcomes") simp
  moreover have "canonical_validation_issues (\<lambda>b. b) (merge_models (\<lambda>b. b) (outcome_models sample_outcomes)) = []"
    using sample_well_formed by (simp add: canonical_issues_Nil)
  moreover have "classify_inventory_status (map (\<lambda>(_, so). ao_result (so_outcome so)) sample_outcomes) True = COMPLETE"
    by (simp add: classify_inventory_status_def sample_outcomes_def rejected_results_def)
  moreover have "\<not> is_identity_bindings (sample_source s)" for s
    by (simp add: is_identity_bindings_def sample_source_def)
  moreover have "do_loaded_sources sample_outcome = [sample_source ''b'', sample_source ''a'']"
      "do_enumeration_complete sample_outcome" "do_diagnostics sample_outcome = []"
    by (simp_all add: sample_outcome_def)
  ultimately show ?thesis
    by (simp add: sample_run_def run_discovery_def sample_loaded sample_bind sample_mapped Let_def
        judge_outcomes_def run_is_eligible_to_commit_def del: sort_key_simps)
qed

lemma eligible_run_is_clean_witness: "\<exists>r. sample_run = Inr r \<and> canonical_well_formed (dr_merged_model r)"
proof -
  obtain r where r: "sample_run = Inr r" "dr_commit_eligible r" by (simp add: sample_run_result)
  show ?thesis using eligible_run_is_clean [OF r [unfolded sample_run_def]] r by blast
qed

end
