(* ===== verification/GraphImport.thy ===== *)
theory GraphImport
  imports GraphStore Discovery
begin

text \<open>
  \<open>graph/importer.py\<close>: the commit of one discovery run.  A transaction function maps a store
  to an error, which aborts the transaction and leaves the store as it was, or to its result with the
  new store.  \<open>ensure_schema\<close> runs outside the transaction and only creates the revision
  singleton here.  The statistics of \<open>sources/import_stats.py\<close> are values of the result.
\<close>

datatype import_error =
    UnknownRelationType string
  | ReplayStateInconsistent
  | InventoryStateInconsistent
  | NullDiscoveryScope
  | StalePredecessor "string option" "string option"
  | CommitGuardRejected ingestion_diagnostic
  | MissingInventorySnapshot

record source_claim_effects =
  ef_added :: claim_effect_set
  ef_changed :: claim_effect_set
  ef_expired :: claim_effect_set
  ef_ownership_removed :: claim_effect_set

record source_import_stats =
  st_source :: string
  st_locator :: string
  st_result :: ingestion_result
  st_nodes_written :: nat
  st_relations_written :: nat
  st_nodes_expired :: nat
  st_relations_expired :: nat
  st_revision_advanced :: bool
  st_effects :: source_claim_effects

text \<open>What the whole run passes to the import of one source; \<open>None\<close> for a source imported alone.\<close>

record run_context =
  rc_nodes_before :: "string \<Rightarrow> ((string \<times> prop_value) list \<times> string list) option"
  rc_relations_before :: "string \<Rightarrow> relation_row option"
  rc_source_ids :: "string set"
  rc_node_emitters :: claim_owners
  rc_relation_emitters :: claim_owners

definition known_relation_types :: "string list" where
  "known_relation_types = [''PROVIDES'', ''CALLS'', ''REQUEST_SCHEMA'', ''RESPONSE_SCHEMA'', ''SENDS'',
     ''RECEIVES_FROM'', ''CARRIES'', ''PUBLISHES_TO'', ''SUBSCRIPTION_OF'', ''USES_BROKER'', ''CONFORMS_TO'',
     ''DEAD_LETTERS_TO'']"

definition public_labels :: "string list" where
  "public_labels = [''Service'', ''Operation'', ''Queue'', ''Message'', ''Schema'', ''Topic'', ''Subscription'',
     ''Broker'']"

definition public_node_ids :: "graph_store \<Rightarrow> string set \<Rightarrow> architecture_model \<Rightarrow> string set" where
  "public_node_ids g ids m =
     {i \<in> ids. i \<in> fst ` set (public_node_claims m) \<or>
               (case map_of (gs_nodes g) i of None \<Rightarrow> False | Some r \<Rightarrow> nr_label r \<in> set public_labels)}"

section \<open>Snapshots\<close>

definition snapshot_nodes ::
  "graph_store \<Rightarrow> string set \<Rightarrow> string \<Rightarrow> ((string \<times> prop_value) list \<times> string list) option" where
  "snapshot_nodes g ids i = (if i \<in> ids then snapshot_node g i else None)"

definition snapshot_relation_rows :: "graph_store \<Rightarrow> string set \<Rightarrow> string \<Rightarrow> relation_row option" where
  "snapshot_relation_rows g keys k = (if k \<notin> keys then None
     else case rev (snapshot_relations g k) of [] \<Rightarrow> None | r # _ \<Rightarrow> Some r)"

section \<open>Source state\<close>

definition source_state_of :: "graph_store \<Rightarrow> string \<Rightarrow> source_state" where
  "source_state_of g s = (case map_of (gs_sources g) s of Some st \<Rightarrow> st
     | None \<Rightarrow> \<lparr>ss_semantic_input_digest = None, ss_scope_definition_digest = None,
                 ss_discovery_scope_id = None, ss_capture = None\<rparr>)"

definition write_source_state ::
  "string \<Rightarrow> string option \<Rightarrow> string option \<Rightarrow> string option \<Rightarrow> graph_store \<Rightarrow> graph_store" where
  "write_source_state s digest scope scope_digest g =
     g\<lparr>gs_sources := AList.update s ((source_state_of g s)
        \<lparr>ss_semantic_input_digest := digest, ss_scope_definition_digest := scope_digest,
         ss_discovery_scope_id := scope\<rparr>) (gs_sources g)\<rparr>"

definition capture_of :: "kubernetes_capture_scope \<Rightarrow> capture" where
  "capture_of c = (sort (cs_namespaces c), cs_cluster_uid c, cs_revision c, cs_evidence_mode c, cs_captured_at c)"

definition write_capture_scope :: "string \<Rightarrow> kubernetes_capture_scope option \<Rightarrow> graph_store \<Rightarrow> graph_store" where
  "write_capture_scope s capture g = (case capture of None \<Rightarrow> g
     | Some c \<Rightarrow> g\<lparr>gs_sources := AList.update s ((source_state_of g s)\<lparr>ss_capture := Some (capture_of c)\<rparr>)
                    (gs_sources g)\<rparr>)"

definition delete_source_state :: "string \<Rightarrow> graph_store \<Rightarrow> graph_store" where
  "delete_source_state s g = g\<lparr>gs_sources := AList.delete s (gs_sources g)\<rparr>"

section \<open>Importing one source\<close>

record import_request =
  rq_source :: string
  rq_locator :: string
  rq_model :: architecture_model
  rq_result :: ingestion_result
  rq_semantic_input_digest :: "string option"
  rq_scope :: "string option"
  rq_scope_digest :: "string option"
  rq_capture :: "kubernetes_capture_scope option"

text \<open>The claims the source has after the import: on a changed scope it keeps everything it owned.\<close>

definition kept_claims :: "replay_case \<Rightarrow> string set \<Rightarrow> string set \<Rightarrow> string set" where
  "kept_claims c emitted existing =
     (if c = SCOPE_CHANGED_PRESERVE_PENDING_TOMBSTONE then emitted \<union> existing else emitted)"

definition claim_plan ::
  "string \<Rightarrow> claim_owners \<Rightarrow> (string set \<times> claim_owners) option \<Rightarrow> string set \<Rightarrow> reconciliation_plan" where
  "claim_plan s owned run new_keys =
     (let (run_sources, emitters) = (case run of
            None \<Rightarrow> ({s}, map (\<lambda>k. (k, {s})) (sorted_list_of_set new_keys))
          | Some r \<Rightarrow> r) in
      plan_source_claim_reconciliation s (dropped_claim_owners owned s run_sources emitters) new_keys)"

definition affected_claim_ids :: "(bytes \<Rightarrow> string) \<Rightarrow> architecture_model \<Rightarrow> reconciliation_plan \<Rightarrow> string list" where
  "affected_claim_ids H m plan = map (claim_id H) (infrastructure_claims m) @
     filter (\<lambda>i. take (length infrastructure_claim_id_prefix) i = infrastructure_claim_id_prefix)
       (sorted_list_of_set (rp_expired plan \<union> rp_ownership_removed plan))"

text \<open>Everything the import writes to nodes and relationships, in the order of the code.\<close>

definition reconcile_claims ::
  "(bytes \<Rightarrow> string) \<Rightarrow> string \<Rightarrow> architecture_model \<Rightarrow> reconciliation_plan \<Rightarrow> reconciliation_plan
     \<Rightarrow> graph_store \<Rightarrow> graph_store" where
  "reconcile_claims H s m node_plan relation_plan g =
     recompute_affected_claims (affected_claim_ids H m node_plan)
       (expire_dropped_claims s node_plan relation_plan
         (fst (write_relations s m (fst (write_nodes H s m g)))))"

definition emitted_evidence :: "architecture_model \<Rightarrow> string \<Rightarrow> string set" where
  "emitted_evidence m key = (\<Union>r\<in>{r \<in> set (relations m). relation_key r = key}. set (rel_evidence_ids r))"

definition owned_before :: "string \<Rightarrow> ((string \<times> prop_value) list \<times> string list) option \<Rightarrow> bool" where
  "owned_before s snap = (case snap of None \<Rightarrow> False | Some (_, owners) \<Rightarrow> s \<in> set owners)"

definition relation_owned_before :: "string \<Rightarrow> relation_row option \<Rightarrow> bool" where
  "relation_owned_before s row = (case row of None \<Rightarrow> False | Some r \<Rightarrow> s \<in> set (rr_owners r))"

definition same_without_owners ::
  "((string \<times> prop_value) list \<times> string list) option \<Rightarrow> ((string \<times> prop_value) list \<times> string list) option \<Rightarrow> bool" where
  "same_without_owners a b = (case (a, b) of
     (None, None) \<Rightarrow> True | (Some (p, _), Some (q, _)) \<Rightarrow> dict_eq p q | _ \<Rightarrow> False)"

definition effects_of :: "string set \<Rightarrow> string set \<Rightarrow> string set \<Rightarrow> claim_effect_set" where
  "effects_of nodes keys public = effect_set (sorted_list_of_set nodes) (sorted_list_of_set keys) public"

definition unknown_relation_type :: "architecture_model \<Rightarrow> string option" where
  "unknown_relation_type m = find (\<lambda>t. t \<notin> set known_relation_types) (map rel_type (relations m))"

definition content_changed ::
  "string set \<Rightarrow> string set \<Rightarrow> (string \<Rightarrow> ((string \<times> prop_value) list \<times> string list) option)
     \<Rightarrow> (string \<Rightarrow> relation_row option) \<Rightarrow> graph_store \<Rightarrow> bool" where
  "content_changed node_ids keys nodes_before relations_before g \<longleftrightarrow>
     (\<exists>i\<in>node_ids. \<not> snapshot_eq (nodes_before i) (snapshot_node g i)) \<or>
     (\<exists>k\<in>keys. relations_before k \<noteq> snapshot_relation_rows g keys k)"

definition source_effects ::
  "(bytes \<Rightarrow> string) \<Rightarrow> string \<Rightarrow> architecture_model \<Rightarrow> string set \<Rightarrow> string set \<Rightarrow> string set \<Rightarrow> string set
     \<Rightarrow> (string \<Rightarrow> ((string \<times> prop_value) list \<times> string list) option) \<Rightarrow> (string \<Rightarrow> relation_row option)
     \<Rightarrow> graph_store \<Rightarrow> reconciliation_plan \<Rightarrow> reconciliation_plan \<Rightarrow> string set \<Rightarrow> source_claim_effects" where
  "source_effects H s m new_ids new_keys existing_ids existing_keys nodes_before relations_before g
       node_plan relation_plan public =
     (let model_ids = model_node_ids H m s; model_keys = model_relation_keys m;
          owned_ids = (existing_ids - model_ids) \<union> {i \<in> model_ids. owned_before s (nodes_before i)};
          owned_keys = (existing_keys - model_keys) \<union> {k \<in> model_keys. relation_owned_before s (relations_before k)} in
      \<lparr>ef_added = effects_of (new_ids - owned_ids) (new_keys - owned_keys) public,
       ef_changed = effects_of
         {i \<in> new_ids \<inter> owned_ids. \<not> same_without_owners (nodes_before i) (snapshot_node g i)}
         {k \<in> new_keys \<inter> owned_keys. \<not> emitted_evidence m k \<subseteq>
            (case relations_before k of None \<Rightarrow> {} | Some r \<Rightarrow> set (rr_evidence r))} public,
       ef_expired = effects_of (rp_expired node_plan) (rp_expired relation_plan) public,
       ef_ownership_removed = effects_of (rp_ownership_removed node_plan) (rp_ownership_removed relation_plan) public\<rparr>)"

text \<open>
  The revision moves on a real change, or, once scoped observations exist, when the capture
  properties of the source changed.
\<close>

definition revision_advances ::
  "replay_decision \<Rightarrow> bool \<Rightarrow> capture option \<Rightarrow> capture option \<Rightarrow> graph_store \<Rightarrow> bool" where
  "revision_advances decision no_op committed_capture new_capture g \<longleftrightarrow>
     (rp_advance_possible decision \<and> \<not> no_op) \<or>
     (new_capture \<noteq> None \<and> new_capture \<noteq> committed_capture \<and> gs_has_scoped_calls g)"

text \<open>The claims the source keeps, its two plans, and the store it leaves before the revision fence.\<close>

definition kept_node_ids :: "(bytes \<Rightarrow> string) \<Rightarrow> import_request \<Rightarrow> replay_case \<Rightarrow> graph_store \<Rightarrow> string set" where
  "kept_node_ids H rq c g = kept_claims c (model_node_ids H (rq_model rq) (rq_source rq))
     (fst ` set (owned_nodes (rq_source rq) g))"

definition kept_relation_keys :: "import_request \<Rightarrow> replay_case \<Rightarrow> graph_store \<Rightarrow> string set" where
  "kept_relation_keys rq c g = kept_claims c (model_relation_keys (rq_model rq))
     (fst ` set (owned_relations (rq_source rq) g))"

definition source_node_plan ::
  "(bytes \<Rightarrow> string) \<Rightarrow> run_context option \<Rightarrow> import_request \<Rightarrow> replay_case \<Rightarrow> graph_store \<Rightarrow> reconciliation_plan" where
  "source_node_plan H ctx rq c g = claim_plan (rq_source rq) (owned_nodes (rq_source rq) g)
     (map_option (\<lambda>r. (rc_source_ids r, rc_node_emitters r)) ctx) (kept_node_ids H rq c g)"

definition source_relation_plan ::
  "run_context option \<Rightarrow> import_request \<Rightarrow> replay_case \<Rightarrow> graph_store \<Rightarrow> reconciliation_plan" where
  "source_relation_plan ctx rq c g = claim_plan (rq_source rq) (owned_relations (rq_source rq) g)
     (map_option (\<lambda>r. (rc_source_ids r, rc_relation_emitters r)) ctx) (kept_relation_keys rq c g)"

definition imported_store ::
  "(bytes \<Rightarrow> string) \<Rightarrow> run_context option \<Rightarrow> import_request \<Rightarrow> replay_case \<Rightarrow> graph_store \<Rightarrow> graph_store" where
  "imported_store H ctx rq c g =
     write_capture_scope (rq_source rq) (rq_capture rq)
       (write_source_state (rq_source rq) (rq_semantic_input_digest rq) (rq_scope rq) (rq_scope_digest rq)
         (reconcile_claims H (rq_source rq) (rq_model rq) (source_node_plan H ctx rq c g)
           (source_relation_plan ctx rq c g) g))"

definition replay_decision_of :: "import_request \<Rightarrow> graph_store \<Rightarrow> inconsistent_replay_state + replay_decision" where
  "replay_decision_of rq g = (let committed = source_state_of g (rq_source rq) in
     classify_replay_case True (ss_semantic_input_digest committed) (rq_semantic_input_digest rq)
       (ss_scope_definition_digest committed) (rq_scope_digest rq))"

definition source_no_op ::
  "(bytes \<Rightarrow> string) \<Rightarrow> run_context option \<Rightarrow> import_request \<Rightarrow> replay_case \<Rightarrow> graph_store \<Rightarrow> bool" where
  "source_no_op H ctx rq c g \<longleftrightarrow>
     is_semantic_no_op (source_node_plan H ctx rq c g) \<and> is_semantic_no_op (source_relation_plan ctx rq c g) \<and>
     \<not> content_changed (kept_node_ids H rq c g) (kept_relation_keys rq c g)
        (case ctx of None \<Rightarrow> snapshot_nodes g (kept_node_ids H rq c g) | Some r \<Rightarrow> rc_nodes_before r)
        (case ctx of None \<Rightarrow> snapshot_relation_rows g (kept_relation_keys rq c g)
         | Some r \<Rightarrow> rc_relations_before r)
        (imported_store H ctx rq c g)"

definition advances ::
  "(bytes \<Rightarrow> string) \<Rightarrow> run_context option \<Rightarrow> import_request \<Rightarrow> replay_decision \<Rightarrow> graph_store \<Rightarrow> bool" where
  "advances H ctx rq decision g \<longleftrightarrow>
     revision_advances decision (source_no_op H ctx rq (rp_case decision) g)
       (ss_capture (source_state_of g (rq_source rq))) (map_option capture_of (rq_capture rq)) g"

definition import_source_tx ::
  "(bytes \<Rightarrow> string) \<Rightarrow> run_context option \<Rightarrow> import_request \<Rightarrow> graph_store
     \<Rightarrow> import_error + source_import_stats \<times> graph_store" where
  "import_source_tx H ctx rq g =
     (let s = rq_source rq; m = rq_model rq in
      case unknown_relation_type m of Some t \<Rightarrow> Inl (UnknownRelationType t) | None \<Rightarrow>
      case replay_decision_of rq g of
        Inl _ \<Rightarrow> Inl ReplayStateInconsistent
      | Inr decision \<Rightarrow>
          let c = rp_case decision; new_ids = kept_node_ids H rq c g; new_keys = kept_relation_keys rq c g;
              node_plan = source_node_plan H ctx rq c g; relation_plan = source_relation_plan ctx rq c g;
              existing_ids = fst ` set (owned_nodes s g); existing_keys = fst ` set (owned_relations s g);
              nodes_before = (case ctx of None \<Rightarrow> snapshot_nodes g new_ids | Some r \<Rightarrow> rc_nodes_before r);
              relations_before = (case ctx of None \<Rightarrow> snapshot_relation_rows g new_keys
                                  | Some r \<Rightarrow> rc_relations_before r);
              g' = imported_store H ctx rq c g; advanced = advances H ctx rq decision g in
          Inr (\<lparr>st_source = s, st_locator = rq_locator rq, st_result = rq_result rq,
                st_nodes_written = length (node_claims H s m), st_relations_written = length (relations m),
                st_nodes_expired = card (rp_expired node_plan), st_relations_expired = card (rp_expired relation_plan),
                st_revision_advanced = advanced,
                st_effects = source_effects H s m new_ids new_keys existing_ids existing_keys nodes_before
                  relations_before g' node_plan relation_plan
                  (public_node_ids g (existing_ids \<union> new_ids) m)\<rparr>,
               if advanced then bump_revision g' else g'))"

section \<open>Removing one source\<close>

definition remove_source_tx ::
  "string set \<Rightarrow> string \<Rightarrow> graph_store \<Rightarrow> source_import_stats \<times> graph_store" where
  "remove_source_tx removed_sources s g =
     (let removed = insert s removed_sources;
          node_plan = claim_plan s (owned_nodes s g) (Some (removed, [])) {};
          relation_plan = claim_plan s (owned_relations s g) (Some (removed, [])) {};
          public = public_node_ids g (fst ` set (owned_nodes s g)) empty_model;
          g' = delete_source_state s
            (recompute_affected_claims (affected_claim_ids (\<lambda>_. []) empty_model node_plan)
              (expire_dropped_claims s node_plan relation_plan g)) in
      (\<lparr>st_source = s, st_locator = '''', st_result = ACCEPTED, st_nodes_written = 0, st_relations_written = 0,
        st_nodes_expired = card (rp_expired node_plan), st_relations_expired = card (rp_expired relation_plan),
        st_revision_advanced = True,
        st_effects = \<lparr>ef_added = effects_of {} {} public, ef_changed = effects_of {} {} public,
          ef_expired = effects_of (rp_expired node_plan) (rp_expired relation_plan) public,
          ef_ownership_removed = effects_of (rp_ownership_removed node_plan) (rp_ownership_removed relation_plan) public\<rparr>\<rparr>,
       bump_revision g'))"

section \<open>Importing a run\<close>

definition run_emitters :: "(string \<Rightarrow> architecture_model \<Rightarrow> string set) \<Rightarrow> source_outcomes \<Rightarrow> claim_owners" where
  "run_emitters keys_of outcomes = map (\<lambda>(k, ss). (k, set ss)) (group_pairs (concat (map (\<lambda>(s, so).
     map (\<lambda>k. (k, s)) (sorted_list_of_set (keys_of s (ao_model (so_outcome so))))) outcomes)))"

definition emitted_by_run :: "(string \<Rightarrow> architecture_model \<Rightarrow> string set) \<Rightarrow> source_outcomes \<Rightarrow> string set" where
  "emitted_by_run keys_of outcomes = (\<Union>(s, so)\<in>set outcomes. keys_of s (ao_model (so_outcome so)))"

definition current_inventory_of :: "graph_store \<Rightarrow> string \<Rightarrow> current_inventory" where
  "current_inventory_of g scope = (case map_of (gs_inventories g) scope of Some i \<Rightarrow> i
     | None \<Rightarrow> \<lparr>ci_inventory_revision = None, ci_inventory_capture_id = None, ci_inventory_event_id = None,
                ci_scope_definition_digest = None\<rparr>)"

definition write_current_inventory :: "string \<Rightarrow> current_inventory \<Rightarrow> graph_store \<Rightarrow> graph_store" where
  "write_current_inventory scope i g = g\<lparr>gs_inventories := AList.update scope i (gs_inventories g)\<rparr>"

definition pre_merge :: "(bytes \<Rightarrow> string) \<Rightarrow> source_outcomes \<Rightarrow> graph_store \<Rightarrow> graph_store" where
  "pre_merge H outcomes g = fold (\<lambda>(s, so) g. fst (write_nodes H s (ao_model (so_outcome so)) g)) outcomes g"

record tombstone_decision =
  td_target :: string
  td_revision :: string
  td_accepted :: bool
  td_reason :: "tombstone_rejection_reason option"

definition validate_tombstones ::
  "string option \<Rightarrow> string option \<Rightarrow> string option \<Rightarrow> tombstone list
     \<Rightarrow> import_error + (tombstone \<times> tombstone_validation) list" where
  "validate_tombstones scope scope_digest revision tombstones =
     (case filter (\<lambda>t. case validate_tombstone t scope scope_digest revision of Inl _ \<Rightarrow> True | Inr _ \<Rightarrow> False)
         tombstones of
        _ # _ \<Rightarrow> Inl InventoryStateInconsistent
      | [] \<Rightarrow> Inr (concat (map (\<lambda>t. case validate_tombstone t scope scope_digest revision of
            Inl _ \<Rightarrow> [] | Inr v \<Rightarrow> [(t, v)]) tombstones)))"

text \<open>A later tombstone of the same target replaces the verdict of an earlier one.\<close>

definition validation_of :: "(tombstone \<times> tombstone_validation) list \<Rightarrow> string \<Rightarrow> tombstone_validation option" where
  "validation_of vs target = map_of (rev (map (\<lambda>(t, v). (ts_target_source_instance_id t, v)) vs)) target"

definition removed_sources ::
  "discovery_run_result \<Rightarrow> string option \<Rightarrow> (tombstone \<times> tombstone_validation) list \<Rightarrow> graph_store \<Rightarrow> string list" where
  "removed_sources run committed_scope validations g =
     (if dr_status run \<noteq> COMPLETE then [] else
      map fst (filter (\<lambda>(s, st). s \<notin> fst ` set (dr_outcomes run) \<and>
        rd_authorized (authorize_source_removal (validation_of validations s) (dr_status run)
          (dr_scope_id run, dr_scope_digest run) (committed_scope, ss_scope_definition_digest st) True))
       (filter (\<lambda>(_, st). ss_discovery_scope_id st = dr_scope_id run) (gs_sources g))))"

definition run_context_of ::
  "(bytes \<Rightarrow> string) \<Rightarrow> source_outcomes \<Rightarrow> string list \<Rightarrow> graph_store \<Rightarrow> run_context" where
  "run_context_of H outcomes removed g =
     (let node_ids = (\<lambda>s m. model_node_ids H m s); keys = (\<lambda>s m. model_relation_keys m) in
      \<lparr>rc_nodes_before = snapshot_nodes g (emitted_by_run node_ids outcomes),
       rc_relations_before = snapshot_relation_rows g (emitted_by_run keys outcomes),
       rc_source_ids = fst ` set outcomes \<union> set removed,
       rc_node_emitters = run_emitters node_ids outcomes,
       rc_relation_emitters = run_emitters keys outcomes\<rparr>)"

definition request_of :: "discovery_run_result \<Rightarrow> string \<times> source_run_outcome \<Rightarrow> import_request" where
  "request_of run = (\<lambda>(s, so).
     \<lparr>rq_source = s, rq_locator = so_locator so, rq_model = ao_model (so_outcome so),
      rq_result = ao_result (so_outcome so), rq_semantic_input_digest = ao_semantic_input_digest (so_outcome so),
      rq_scope = dr_scope_id run, rq_scope_digest = dr_scope_digest run,
      rq_capture = (case so_descriptor so of None \<Rightarrow> None | Some d \<Rightarrow> sd_capture_scope d)\<rparr>)"

definition import_step ::
  "(bytes \<Rightarrow> string) \<Rightarrow> run_context \<Rightarrow> import_request \<Rightarrow> source_import_stats list \<times> graph_store
     \<Rightarrow> import_error + source_import_stats list \<times> graph_store" where
  "import_step H ctx rq = (\<lambda>(stats, g). case import_source_tx H (Some ctx) rq g of
     Inl e \<Rightarrow> Inl e | Inr (st, g') \<Rightarrow> Inr (stats @ [st], g'))"

definition remove_step ::
  "string set \<Rightarrow> string \<Rightarrow> source_import_stats list \<times> graph_store \<Rightarrow> source_import_stats list \<times> graph_store" where
  "remove_step removed s = (\<lambda>(stats, g). let (st, g') = remove_source_tx removed s g in (stats @ [st], g'))"

record run_commit =
  cm_per_source :: "source_import_stats list"
  cm_removed :: "string list"
  cm_tombstone_diagnostics :: "ingestion_diagnostic list"
  cm_tombstone_decisions :: "tombstone_decision list"
  cm_removal_stats :: "source_import_stats list"

definition decisions_of :: "(tombstone \<times> tombstone_validation) list \<Rightarrow> tombstone_decision list" where
  "decisions_of = map (\<lambda>(t, v). \<lparr>td_target = ts_target_source_instance_id t, td_revision = ts_tombstone_revision t,
     td_accepted = tv_accepted v, td_reason = tv_rejection_reason v\<rparr>)"

definition rejection_diagnostics :: "(tombstone \<times> tombstone_validation) list \<Rightarrow> ingestion_diagnostic list" where
  "rejection_diagnostics vs = somes (map (\<lambda>(_, v). if tv_accepted v then None else tv_diagnostic v) vs)"

text \<open>The writes of a run whose guards have passed.\<close>

definition reconcile_run ::
  "(bytes \<Rightarrow> string) \<Rightarrow> discovery_run_result \<Rightarrow> string list \<Rightarrow> graph_store
     \<Rightarrow> import_error + (source_import_stats list \<times> source_import_stats list) \<times> graph_store" where
  "reconcile_run H run removed g =
     (let outcomes = dr_outcomes run; ctx = run_context_of H outcomes removed g in
      case fold_error (\<lambda>o1. import_step H ctx (request_of run o1)) outcomes ([], pre_merge H outcomes g) of
        Inl e \<Rightarrow> Inl e
      | Inr (stats, g1) \<Rightarrow>
          let (removal_stats, g2) = fold (remove_step (set removed)) removed ([], g1) in
          Inr ((stats, removal_stats), g2))"

definition import_all_sources_tx ::
  "(bytes \<Rightarrow> string) \<Rightarrow> string option expectation \<Rightarrow> (graph_store \<Rightarrow> ingestion_diagnostic option) option
     \<Rightarrow> discovery_run_result \<Rightarrow> graph_store \<Rightarrow> import_error + run_commit \<times> graph_store" where
  "import_all_sources_tx H expected guard run g =
     (case dr_scope_id run of None \<Rightarrow> Inl NullDiscoveryScope | Some scope \<Rightarrow>
      let persisted = current_inventory_of g scope; committed = ci_inventory_revision persisted;
          committed_scope = (if committed = None then None else Some scope) in
      if (case expected of NotSupplied \<Rightarrow> False | Expected e \<Rightarrow> committed \<noteq> e) then
        Inl (StalePredecessor (case expected of Expected e \<Rightarrow> e | NotSupplied \<Rightarrow> None) committed)
      else case (case guard of None \<Rightarrow> None | Some check \<Rightarrow> check g) of
        Some d \<Rightarrow> Inl (CommitGuardRejected d)
      | None \<Rightarrow> case dr_snapshot run of
        None \<Rightarrow> Inl MissingInventorySnapshot
      | Some snapshot \<Rightarrow> case validate_tombstones committed_scope (ci_scope_definition_digest persisted) committed
            (in_tombstones snapshot) of
        Inl e \<Rightarrow> Inl e
      | Inr validations \<Rightarrow>
          let removed = removed_sources run committed_scope validations g in
          case reconcile_run H run removed g of
            Inl e \<Rightarrow> Inl e
          | Inr ((stats, removal_stats), g') \<Rightarrow>
              Inr (\<lparr>cm_per_source = stats, cm_removed = removed,
                    cm_tombstone_diagnostics = rejection_diagnostics validations,
                    cm_tombstone_decisions = decisions_of validations, cm_removal_stats = removal_stats\<rparr>,
                   write_current_inventory scope
                     \<lparr>ci_inventory_revision = Some (in_revision snapshot),
                      ci_inventory_capture_id = Some (in_capture_id snapshot),
                      ci_inventory_event_id = inventory_event_id H (ci_inventory_event_id persisted) (in_capture_id snapshot),
                      ci_scope_definition_digest = dr_scope_digest run\<rparr> g'))"

section \<open>The commit entry point\<close>

record source_run_result =
  sr_source :: string
  sr_locator :: string
  sr_result :: ingestion_result
  sr_diagnostics :: "ingestion_diagnostic list"
  sr_source_kind :: "source_kind option"
  sr_semantic_input_digest :: "string option"
  sr_service_ids :: "string list"
  sr_emitted :: "nat list"

text \<open>The counts of \<open>EmittedCounts\<close>, in the order of its fields.\<close>

definition emitted_counts :: "architecture_model \<Rightarrow> nat list" where
  "emitted_counts m = [length (services m), length (operations m), length (schemas m), length (messages m),
     length (queues m), length (topics m), length (subscriptions m), length (relations m),
     length (infrastructure_entities m), length (infrastructure_claims m)]"

definition source_run_results :: "discovery_run_result \<Rightarrow> source_run_result list" where
  "source_run_results run = map (\<lambda>(s, so). let m = ao_model (so_outcome so) in
     \<lparr>sr_source = s, sr_locator = so_locator so, sr_result = ao_result (so_outcome so),
      sr_diagnostics = ao_diagnostics (so_outcome so),
      sr_source_kind = map_option sd_source_kind (so_descriptor so),
      sr_semantic_input_digest = ao_semantic_input_digest (so_outcome so),
      sr_service_ids = sorted_set (map svc_id (services m)), sr_emitted = emitted_counts m\<rparr>)
     (sort_key fst (dr_outcomes run))"

record import_run_stats =
  ir_status :: inventory_status
  ir_committed :: bool
  ir_commit :: "run_commit option"
  ir_diagnostics :: "ingestion_diagnostic list"
  ir_source_results :: "source_run_result list"
  ir_inventory_revision :: "string option"

definition uncommitted_stats ::
  "discovery_run_result \<Rightarrow> ingestion_diagnostic list \<Rightarrow> source_run_result list \<Rightarrow> import_run_stats" where
  "uncommitted_stats run diagnostics results =
     \<lparr>ir_status = dr_status run, ir_committed = False, ir_commit = None,
      ir_diagnostics = dr_diagnostics run @ diagnostics, ir_source_results = results, ir_inventory_revision = None\<rparr>"

definition reject_result :: "ingestion_diagnostic \<Rightarrow> source_run_result \<Rightarrow> source_run_result" where
  "reject_result d r = r\<lparr>sr_result := REJECTED_CONFLICT, sr_diagnostics := sr_diagnostics r @ [d]\<rparr>"

text \<open>The store after the call, and the exception that escapes it or the run's statistics.\<close>

definition import_discovery_run ::
  "(bytes \<Rightarrow> string) \<Rightarrow> string option expectation \<Rightarrow> (graph_store \<Rightarrow> ingestion_diagnostic option) option
     \<Rightarrow> discovery_run_result \<Rightarrow> graph_store \<Rightarrow> graph_store \<times> (import_error + import_run_stats)" where
  "import_discovery_run H expected guard run g =
     (let results = source_run_results run in
      if \<not> dr_commit_eligible run then (g, Inr (uncommitted_stats run [] results))
      else let g0 = ensure_revision_singleton g in
        case import_all_sources_tx H expected guard run g0 of
          Inl (CommitGuardRejected d) \<Rightarrow> (g0, Inr (uncommitted_stats run [d] (map (reject_result d) results)))
        | Inl (StalePredecessor e a) \<Rightarrow>
            (g0, Inr (uncommitted_stats run
               [diagnostic DC_STALE_INVENTORY_PREDECESSOR (somes [e, a]) None None] results))
        | Inl e \<Rightarrow> (g0, Inl e)
        | Inr (commit, g') \<Rightarrow>
            (g', Inr \<lparr>ir_status = dr_status run, ir_committed = True, ir_commit = Some commit,
               ir_diagnostics = dr_diagnostics run @ cm_tombstone_diagnostics commit,
               ir_source_results = results,
               ir_inventory_revision = map_option in_revision (dr_snapshot run)\<rparr>))"

end
