(* ===== verification/GraphOwnership.thy ===== *)
theory GraphOwnership
  imports GraphImport
begin

text \<open>
  Who owns a node after an import.  \<open>node_owners\<close> abstracts the store to a map from node id to
  owner set; each operation of the importer is a function on that map, and a committed run refines one
  step: the run's emitters join, and the run's sources that no longer emit a node leave.
\<close>

definition node_owners :: "graph_store \<Rightarrow> string \<Rightarrow> string set option" where
  "node_owners g i = map_option (\<lambda>r. set (nr_owners r)) (map_of (gs_nodes g) i)"

text \<open>\<open>join S\<close>: the sources \<open>S\<close> claim the node; \<open>leave X\<close>: the sources \<open>X\<close> give it up,
  and the node goes with its last owner.\<close>

definition join_owners :: "string set \<Rightarrow> string set option \<Rightarrow> string set option" where
  "join_owners S os = (if S = {} then os else Some (S \<union> (case os of None \<Rightarrow> {} | Some O1 \<Rightarrow> O1)))"

definition leave_owners :: "string set \<Rightarrow> string set option \<Rightarrow> string set option" where
  "leave_owners X os = (case os of None \<Rightarrow> None
     | Some O1 \<Rightarrow> if O1 \<inter> X = {} then Some O1 else if O1 \<subseteq> X then None else Some (O1 - X))"

lemma join_empty [simp]: "join_owners {} os = os"
  by (simp add: join_owners_def)

lemma leave_empty [simp]: "leave_owners {} os = os"
  by (simp add: leave_owners_def split: option.split)

lemma join_join: "join_owners S (join_owners T os) = join_owners (S \<union> T) os"
  by (auto simp: join_owners_def split: option.split)

lemma leave_leave: "leave_owners X (leave_owners Y os) = leave_owners (X \<union> Y) os"
proof (cases os)
  case (Some O1)
  consider "O1 \<inter> Y = {}" | "O1 \<inter> Y \<noteq> {}" "O1 \<subseteq> Y" | "O1 \<inter> Y \<noteq> {}" "\<not> O1 \<subseteq> Y" by blast
  then show ?thesis
  proof cases
    case 1
    then have "O1 \<subseteq> X \<union> Y \<longleftrightarrow> O1 \<subseteq> X" "O1 \<inter> (X \<union> Y) = O1 \<inter> X" "O1 - (X \<union> Y) = O1 - X" by blast+
    then show ?thesis using 1 Some by (simp add: leave_owners_def)
  next
    case 2
    then have "O1 \<inter> (X \<union> Y) \<noteq> {}" "O1 \<subseteq> X \<union> Y" by blast+
    then show ?thesis using 2 Some by (simp add: leave_owners_def)
  next
    case 3
    then have "O1 \<inter> (X \<union> Y) \<noteq> {}" by blast
    moreover have "(O1 - Y) \<inter> X = {} \<Longrightarrow> O1 - (X \<union> Y) = O1 - Y \<and> \<not> O1 \<subseteq> X \<union> Y" using 3 by blast
    moreover have "O1 - Y \<subseteq> X \<longleftrightarrow> O1 \<subseteq> X \<union> Y" "O1 - Y - X = O1 - (X \<union> Y)" by blast+
    ultimately show ?thesis using 3 Some by (simp add: leave_owners_def)
  qed
qed (simp add: leave_owners_def)

lemma leave_kept: "s \<notin> X \<Longrightarrow> os = Some O1 \<Longrightarrow> s \<in> O1 \<Longrightarrow> \<exists>O2. leave_owners X os = Some O2 \<and> s \<in> O2"
  by (auto simp: leave_owners_def)

lemma join_kept: "os = Some O1 \<Longrightarrow> S \<subseteq> O1 \<Longrightarrow> join_owners S os = os"
  by (auto simp: join_owners_def)

section \<open>Writing\<close>

lemma map_of_merge_node:
  "map_of (merge_node s c nodes) i =
     (if i = fst c then Some ((case map_of nodes i of Some r \<Rightarrow> r
          | None \<Rightarrow> \<lparr>nr_label = fst (snd c), nr_props = [], nr_owners = []\<rparr>)
        \<lparr>nr_props := set_props (case map_of nodes i of Some r \<Rightarrow> nr_props r | None \<Rightarrow> []) (snd (snd c)),
         nr_owners := add_owner s (case map_of nodes i of Some r \<Rightarrow> nr_owners r | None \<Rightarrow> [])\<rparr>)
      else map_of nodes i)"
  by (cases c) (simp add: merge_node_def Let_def update_conv' split: option.split)

lemma set_add_owner [simp]: "set (add_owner s os) = insert s (set os)"
  by (auto simp: add_owner_def)

lemma owners_fold_merge:
  "map_option (\<lambda>r. set (nr_owners r)) (map_of (fold (merge_node s) cs nodes) i) =
     join_owners (if i \<in> fst ` set cs then {s} else {}) (map_option (\<lambda>r. set (nr_owners r)) (map_of nodes i))"
proof (induction cs arbitrary: nodes)
  case Nil
  then show ?case by simp
next
  case (Cons c cs)
  show ?case
    by (simp add: Cons.IH map_of_merge_node join_owners_def split: option.split)
qed

lemma model_node_ids_claims: "fst ` set (node_claims H s m) = model_node_ids H m s"
  unfolding node_claims_def public_node_claims_def evidence_node_claims_def carrier_node_claims_def
    infrastructure_node_claims_def model_node_ids_def set_append set_map image_Un image_image fst_conv
    set_concat image_UN
  by (simp add: image_image image_Un UN_Un ac_simps) blast

lemma owners_write_nodes:
  "node_owners (fst (write_nodes H s m g)) i =
     join_owners (if i \<in> model_node_ids H m s then {s} else {}) (node_owners g i)"
  by (simp add: write_nodes_def node_owners_def owners_fold_merge model_node_ids_claims)

lemma nodes_merge_relation [simp]: "gs_nodes (merge_relation s r g) = gs_nodes g"
  by (simp add: merge_relation_def Let_def)

lemma nodes_write_relations [simp]: "gs_nodes (fst (write_relations s m g)) = gs_nodes g"
proof -
  have "gs_nodes (fold (merge_relation s) rs g) = gs_nodes g" for rs
    by (induction rs arbitrary: g) simp_all
  then show ?thesis by (simp add: write_relations_def)
qed

section \<open>Expiring\<close>

lemma nodes_expire_relations [simp]: "gs_nodes (expire_relations s keys g) = gs_nodes g"
  by (simp add: expire_relations_def)

lemma nodes_strip [simp]: "gs_nodes (strip_stale_evidence ids g) = gs_nodes g"
  by (simp add: strip_stale_evidence_def)

lemma map_of_filter_key: "map_of (filter (\<lambda>(k, _). P k) d) k = (if P k then map_of d k else None)"
  by (induction d) auto

lemma map_of_map_entry: "map_of (map (\<lambda>(k, r). (k, f k r)) d) k = map_option (f k) (map_of d k)"
  by (induction d) auto

lemma owners_expire_nodes:
  "node_owners (expire_nodes s ids g) i = (if i \<in> ids then
     (case node_owners g i of None \<Rightarrow> None | Some O1 \<Rightarrow> if O1 \<subseteq> {s} then None else Some (O1 - {s}))
   else node_owners g i)"
proof -
  have gone: "filter (\<lambda>x. x \<noteq> s) os = [] \<longleftrightarrow> set os \<subseteq> {s}" for os :: "string list"
    by (auto simp: filter_empty_conv)
  have "set (filter (\<lambda>x. x \<noteq> s) os) = set os - {s}" for os :: "string list" by auto
  then show ?thesis
    by (simp add: expire_nodes_def node_owners_def Let_def map_of_map_entry map_of_filter_key retire_node_def gone
        split: option.split)
qed

lemma owners_expire_dropped:
  "node_owners (expire_dropped_claims s np rp g) i =
     node_owners (expire_nodes s (rp_expired np \<union> rp_ownership_removed np) g) i"
  by (simp add: expire_dropped_claims_def owners_expire_nodes) (simp add: node_owners_def)

lemma owners_recompute_claim [simp]: "node_owners (recompute_claim c g) i = node_owners g i"
  by (auto simp: recompute_claim_def node_owners_def update_conv' split: option.split)

lemma owners_recompute [simp]: "node_owners (recompute_affected_claims ids g) i = node_owners g i"
proof -
  have "node_owners (fold recompute_claim cs g) i = node_owners g i" for cs
    by (induction cs arbitrary: g) simp_all
  then show ?thesis by (simp add: recompute_affected_claims_def)
qed

section \<open>One source\<close>

lemma owned_nodes_claims: "owned_nodes s g = owned_claims (map (\<lambda>(i, r). (i, set (nr_owners r))) (gs_nodes g)) s"
  by (simp add: owned_nodes_def owned_claims_def filter_map comp_def split_def)

lemma key_owned_nodes:
  assumes "distinct (map fst (gs_nodes g))"
  shows "i \<in> fst ` set (owned_nodes s g) \<longleftrightarrow> (\<exists>O1. node_owners g i = Some O1 \<and> s \<in> O1)"
proof -
  let ?c = "map (\<lambda>(i, r). (i, set (nr_owners r))) (gs_nodes g)"
  have "distinct (map fst ?c)" using assms by (simp add: comp_def split_def)
  moreover have "owners_of ?c i = (case node_owners g i of None \<Rightarrow> {} | Some O1 \<Rightarrow> O1)"
    by (simp add: owners_of_def node_owners_def map_of_map_entry split: option.split)
  ultimately show ?thesis
    unfolding owned_nodes_claims by (simp add: key_owned_claims split: option.splits)
qed

lemma claim_plan_dropped:
  "rp_expired (claim_plan s owned run new) \<union> rp_ownership_removed (claim_plan s owned run new) =
     fst ` set owned - new"
proof (rule set_eqI)
  fix k
  obtain R E where "claim_plan s owned run new =
      plan_source_claim_reconciliation s (dropped_claim_owners owned s R E) new"
    by (cases run) (auto simp: claim_plan_def)
  then show "k \<in> rp_expired (claim_plan s owned run new) \<union> rp_ownership_removed (claim_plan s owned run new) \<longleftrightarrow>
      k \<in> fst ` set owned - new"
    by (auto simp: plan_simps owners_of_dropped)
qed

text \<open>What giving up a node means to its owners.\<close>

lemma drop_owner:
  assumes "\<exists>O1. os = Some O1 \<and> s \<in> O1"
  shows "(case os of None \<Rightarrow> None | Some O1 \<Rightarrow> if O1 \<subseteq> {s} then None else Some (O1 - {s})) = leave_owners {s} os"
  using assms by (auto simp: leave_owners_def)

lemma leave_non_owner: "(\<And>O1. os = Some O1 \<Longrightarrow> s \<notin> O1) \<Longrightarrow> leave_owners {s} os = os"
  by (auto simp: leave_owners_def split: option.split)

section \<open>The store invariant\<close>

definition endpoints :: "relation_id \<Rightarrow> string set" where
  "endpoints = (\<lambda>(_, src, tgt). {src, tgt})"

abbreviation node_keys :: "graph_store \<Rightarrow> string set" where
  "node_keys g \<equiv> fst ` set (gs_nodes g)"

definition store_ok :: "graph_store \<Rightarrow> bool" where
  "store_ok g \<longleftrightarrow> distinct (map fst (gs_nodes g)) \<and>
     (\<forall>x\<in>set (gs_relations g). endpoints (fst x) \<subseteq> node_keys g)"

lemma node_keys_iff: "i \<in> node_keys g \<longleftrightarrow> node_owners g i \<noteq> None"
  by (auto simp: node_owners_def map_of_eq_None_iff)

lemma store_okI:
  assumes "store_ok g" "distinct (map fst (gs_nodes g'))" "node_keys g \<subseteq> node_keys g'"
    and "fst ` set (gs_relations g') \<subseteq> fst ` set (gs_relations g)"
  shows "store_ok g'"
  unfolding store_ok_def
proof (intro conjI ballI)
  fix x assume "x \<in> set (gs_relations g')"
  then have "fst x \<in> fst ` set (gs_relations g')" by (rule imageI)
  with assms(4) have "fst x \<in> fst ` set (gs_relations g)" by (rule subsetD)
  then obtain y where "y \<in> set (gs_relations g)" "fst y = fst x" by (elim imageE) simp
  then have "endpoints (fst x) \<subseteq> node_keys g" using assms(1) unfolding store_ok_def by metis
  then show "endpoints (fst x) \<subseteq> node_keys g'" using assms(3) by (rule subset_trans)
qed (rule assms(2))

lemma merge_node_keys: "fst ` set (merge_node s c nodes) = insert (fst c) (fst ` set nodes)"
  by (cases c) (simp add: merge_node_def Let_def dom_update)

lemma merge_node_distinct: "distinct (map fst nodes) \<Longrightarrow> distinct (map fst (merge_node s c nodes))"
  by (cases c) (simp add: merge_node_def Let_def distinct_update)

lemma write_nodes_ok: "store_ok g \<Longrightarrow> store_ok (fst (write_nodes H s m g))"
proof -
  assume ok: "store_ok g"
  have "distinct (map fst nodes) \<Longrightarrow> distinct (map fst (fold (merge_node s) cs nodes)) \<and>
      fst ` set nodes \<subseteq> fst ` set (fold (merge_node s) cs nodes)" for cs nodes
  proof (induction cs arbitrary: nodes)
    case (Cons c cs)
    show ?case using Cons.IH [OF merge_node_distinct [OF Cons.prems]] by (simp add: merge_node_keys)
  qed simp
  from this [of "gs_nodes g" "node_claims H s m"] show ?thesis
    using ok by (intro store_okI [OF ok]) (simp_all add: write_nodes_def store_ok_def)
qed

lemma relation_rows_update: "fst ` set (AList.update i r d) = insert i (fst ` set d)"
  by (simp add: dom_update)

lemma merge_relation_ok:
  assumes ok: "store_ok g"
  shows "store_ok (merge_relation s r g)"
proof (cases "map_of (gs_nodes g) (rel_source_id r) = None \<or> map_of (gs_nodes g) (rel_target_id r) = None")
  case True
  then show ?thesis using ok by (simp add: merge_relation_def)
next
  case False
  let ?g = "merge_relation s r g"
  have keys: "fst ` set (gs_relations ?g) = insert (rel_type r, rel_source_id r, rel_target_id r) (fst ` set (gs_relations g))"
    using False unfolding merge_relation_def Let_def if_not_P [OF False] by (simp add: dom_update)
  have "rel_source_id r \<in> node_keys g" "rel_target_id r \<in> node_keys g"
    using False by (simp_all add: map_of_eq_None_iff)
  then have "\<forall>k\<in>fst ` set (gs_relations ?g). endpoints k \<subseteq> node_keys g"
    using ok unfolding keys store_ok_def by (simp add: endpoints_def split_def)
  then show ?thesis using ok by (simp add: store_ok_def)
qed

lemma write_relations_ok: "store_ok g \<Longrightarrow> store_ok (fst (write_relations s m g))"
proof -
  have "store_ok g \<Longrightarrow> store_ok (fold (merge_relation s) rs g)" for rs
    by (induction rs arbitrary: g) (simp_all add: merge_relation_ok)
  then show "store_ok g \<Longrightarrow> ?thesis" by (simp add: write_relations_def)
qed

lemma expire_relations_ok: "store_ok g \<Longrightarrow> store_ok (expire_relations s keys g)"
proof (rule store_okI)
  show "fst ` set (gs_relations (expire_relations s keys g)) \<subseteq> fst ` set (gs_relations g)"
    by (auto simp: expire_relations_def List.map_filter_def image_iff split: if_splits) force+
qed (simp_all add: store_ok_def)

lemma strip_ok: "store_ok g \<Longrightarrow> store_ok (strip_stale_evidence ids g)"
proof (rule store_okI)
  show "fst ` set (gs_relations (strip_stale_evidence ids g)) \<subseteq> fst ` set (gs_relations g)"
    by (force simp: strip_stale_evidence_def)
qed (simp_all add: store_ok_def)

lemma expire_nodes_ok:
  assumes ok: "store_ok g"
  shows "store_ok (expire_nodes s ids g)"
proof -
  define gone where "gone i \<longleftrightarrow> i \<in> ids \<and> (case map_of (gs_nodes g) i of None \<Rightarrow> False
      | Some r \<Rightarrow> nr_owners (retire_node s r) = [])" for i
  let ?g = "expire_nodes s ids g"
  have g: "gs_nodes ?g = map (\<lambda>(i, r). (i, if i \<in> ids then retire_node s r else r))
      (filter (\<lambda>(i, _). \<not> gone i) (gs_nodes g))"
    "gs_relations ?g = filter (\<lambda>((_, src, tgt), _). \<not> gone src \<and> \<not> gone tgt) (gs_relations g)"
    by (simp_all add: expire_nodes_def Let_def gone_def)
  have fst: "map fst (gs_nodes ?g) = filter (\<lambda>i. \<not> gone i) (map fst (gs_nodes g))"
    unfolding g(1) by (simp add: comp_def split_def filter_map)
  then have keys: "node_keys ?g = {i \<in> node_keys g. \<not> gone i}"
  proof -
    have "node_keys ?g = set (map fst (gs_nodes ?g))" by simp
    then show ?thesis unfolding fst by auto
  qed
  show ?thesis
    unfolding store_ok_def
  proof (intro conjI ballI)
    show "distinct (map fst (gs_nodes ?g))" using ok unfolding fst by (simp add: store_ok_def)
  next
    fix x assume x: "x \<in> set (gs_relations ?g)"
    obtain t a b r where xe: "x = ((t, a, b), r)" by (cases x) auto
    have "x \<in> set (gs_relations g)" "\<not> gone a" "\<not> gone b" using x unfolding g(2) xe by auto
    moreover from this have "endpoints (fst x) \<subseteq> node_keys g" using ok by (simp add: store_ok_def)
    ultimately show "endpoints (fst x) \<subseteq> node_keys ?g"
      unfolding keys by (simp add: xe endpoints_def)
  qed
qed

lemma recompute_claim_ok: "store_ok g \<Longrightarrow> store_ok (recompute_claim c g)"
  by (rule store_okI)
    (auto simp: recompute_claim_def store_ok_def distinct_update dom_update split: option.split)

lemma recompute_ok: "store_ok g \<Longrightarrow> store_ok (recompute_affected_claims ids g)"
proof -
  have "store_ok g \<Longrightarrow> store_ok (fold recompute_claim cs g)" for cs
    by (induction cs arbitrary: g) (simp_all add: recompute_claim_ok)
  then show "store_ok g \<Longrightarrow> ?thesis" by (simp add: recompute_affected_claims_def)
qed

lemma expire_dropped_ok: "store_ok g \<Longrightarrow> store_ok (expire_dropped_claims s np rp g)"
  by (simp add: expire_dropped_claims_def expire_nodes_ok strip_ok expire_relations_ok)

lemma reconcile_claims_ok: "store_ok g \<Longrightarrow> store_ok (reconcile_claims H s m np rp g)"
  by (simp add: reconcile_claims_def recompute_ok expire_dropped_ok write_relations_ok write_nodes_ok)

section \<open>The owners after one import\<close>

lemma owners_reconcile:
  assumes "distinct (map fst (gs_nodes g))"
    and np: "np = claim_plan s (owned_nodes s g) run (kept_claims c (model_node_ids H m s) (fst ` set (owned_nodes s g)))"
  shows "node_owners (reconcile_claims H s m np rp g) i =
    (if i \<in> model_node_ids H m s then join_owners {s} (node_owners g i)
     else if c = SCOPE_CHANGED_PRESERVE_PENDING_TOMBSTONE then node_owners g i
     else leave_owners {s} (node_owners g i))"
proof -
  let ?new = "kept_claims c (model_node_ids H m s) (fst ` set (owned_nodes s g))"
  let ?w = "fst (write_relations s m (fst (write_nodes H s m g)))"
  have w: "node_owners ?w i = join_owners (if i \<in> model_node_ids H m s then {s} else {}) (node_owners g i)"
    using owners_write_nodes [of H s m g i] by (simp add: node_owners_def)
  have "node_owners (reconcile_claims H s m np rp g) i = node_owners (expire_nodes s (fst ` set (owned_nodes s g) - ?new) ?w) i"
    by (simp add: reconcile_claims_def owners_expire_dropped np claim_plan_dropped)
  also have "\<dots> = (if i \<in> fst ` set (owned_nodes s g) - ?new then
      (case node_owners ?w i of None \<Rightarrow> None | Some O1 \<Rightarrow> if O1 \<subseteq> {s} then None else Some (O1 - {s}))
      else node_owners ?w i)"
    by (rule owners_expire_nodes)
  finally have after: "node_owners (reconcile_claims H s m np rp g) i = \<dots>" .
  note owned = key_owned_nodes [OF assms(1), of i s]
  consider "i \<in> model_node_ids H m s" | "i \<notin> model_node_ids H m s" "c = SCOPE_CHANGED_PRESERVE_PENDING_TOMBSTONE"
    | "i \<notin> model_node_ids H m s" "c \<noteq> SCOPE_CHANGED_PRESERVE_PENDING_TOMBSTONE" by blast
  then show ?thesis
  proof cases
    case 1
    then have "i \<in> ?new" by (simp add: kept_claims_def)
    then show ?thesis using 1 after w by simp
  next
    case 2
    then have "i \<notin> fst ` set (owned_nodes s g) - ?new" by (simp add: kept_claims_def)
    then have "i \<notin> fst ` set (owned_nodes s g) - kept_claims SCOPE_CHANGED_PRESERVE_PENDING_TOMBSTONE
        (model_node_ids H m s) (fst ` set (owned_nodes s g))" using 2 by simp
    then have "node_owners (reconcile_claims H s m np rp g) i = node_owners ?w i"
      unfolding after 2(2) by (rule if_not_P)
    then show ?thesis using 2 w by simp
  next
    case 3
    then have new: "i \<notin> ?new" by (simp add: kept_claims_def)
    show ?thesis
    proof (cases "i \<in> fst ` set (owned_nodes s g)")
      case True
      then show ?thesis using 3 new after w owned drop_owner [of "node_owners g i" s] by simp
    next
      case False
      then have "leave_owners {s} (node_owners g i) = node_owners g i"
        unfolding owned by (intro leave_non_owner) blast
      then show ?thesis using 3 False after w by simp
    qed
  qed
qed

text \<open>A source whose scope definition changed keeps everything it owned.\<close>

definition scope_changed :: "graph_store \<Rightarrow> string \<Rightarrow> string option \<Rightarrow> bool" where
  "scope_changed g s scope_digest \<longleftrightarrow> ss_scope_definition_digest (source_state_of g s) \<noteq> None \<and>
     ss_scope_definition_digest (source_state_of g s) \<noteq> scope_digest"

lemma classify_scope_changed:
  assumes "classify_replay_case True cd nd cs ns = Inr decision"
  shows "rp_case decision = SCOPE_CHANGED_PRESERVE_PENDING_TOMBSTONE \<longleftrightarrow> cs \<noteq> None \<and> cs \<noteq> ns"
  using assms by (auto simp: classify_replay_case_def split: if_splits)

definition source_step :: "(bytes \<Rightarrow> string) \<Rightarrow> graph_store \<Rightarrow> import_request \<Rightarrow> string \<Rightarrow> string set option \<Rightarrow> string set option" where
  "source_step H g rq i os = (if i \<in> model_node_ids H (rq_model rq) (rq_source rq) then join_owners {rq_source rq} os
     else if scope_changed g (rq_source rq) (rq_scope_digest rq) then os
     else leave_owners {rq_source rq} os)"

lemma nodes_source_writes [simp]:
  "gs_nodes (write_source_state s d sc sd g) = gs_nodes g"
  "gs_nodes (write_capture_scope s c g) = gs_nodes g"
  "gs_nodes (bump_revision g) = gs_nodes g"
  "gs_nodes (delete_source_state s g) = gs_nodes g"
  "gs_relations (write_source_state s d sc sd g) = gs_relations g"
  "gs_relations (write_capture_scope s c g) = gs_relations g"
  "gs_relations (bump_revision g) = gs_relations g"
  "gs_relations (delete_source_state s g) = gs_relations g"
  by (simp_all add: write_source_state_def write_capture_scope_def bump_revision_def delete_source_state_def
      split: option.split)

lemma store_ok_cong: "gs_nodes g = gs_nodes g' \<Longrightarrow> gs_relations g = gs_relations g' \<Longrightarrow> store_ok g = store_ok g'"
  by (simp add: store_ok_def)

lemma node_owners_cong: "gs_nodes g = gs_nodes g' \<Longrightarrow> node_owners g = node_owners g'"
  by (intro ext) (simp add: node_owners_def)

text \<open>What a successful import does to nodes and relationships.\<close>

lemma import_source_writes:
  assumes "import_source_tx H ctx rq g = Inr (st, g')"
  shows "\<exists>decision. replay_decision_of rq g = Inr decision \<and>
     gs_nodes g' = gs_nodes (imported_store H ctx rq (rp_case decision) g) \<and>
     gs_relations g' = gs_relations (imported_store H ctx rq (rp_case decision) g) \<and>
     gs_sources g' = gs_sources (imported_store H ctx rq (rp_case decision) g)"
proof -
  obtain decision where "replay_decision_of rq g = Inr decision"
    and "g' = (if advances H ctx rq decision g then bump_revision (imported_store H ctx rq (rp_case decision) g)
               else imported_store H ctx rq (rp_case decision) g)"
    using assms by (auto simp: import_source_tx_def Let_def split: option.splits sum.splits)
  then show ?thesis by (intro exI [of _ decision]) (simp add: bump_revision_def)
qed

lemma imported_store_ok: "store_ok g \<Longrightarrow> store_ok (imported_store H ctx rq c g)"
  using reconcile_claims_ok [of g] by (simp add: imported_store_def store_ok_def)

lemma owners_imported_store:
  assumes "distinct (map fst (gs_nodes g))"
  shows "node_owners (imported_store H ctx rq c g) i =
    (if i \<in> model_node_ids H (rq_model rq) (rq_source rq) then join_owners {rq_source rq} (node_owners g i)
     else if c = SCOPE_CHANGED_PRESERVE_PENDING_TOMBSTONE then node_owners g i
     else leave_owners {rq_source rq} (node_owners g i))"
proof -
  have "node_owners (imported_store H ctx rq c g) i = node_owners (reconcile_claims H (rq_source rq) (rq_model rq)
      (source_node_plan H ctx rq c g) (source_relation_plan ctx rq c g) g) i"
    by (simp add: imported_store_def node_owners_def)
  also have "\<dots> = (if i \<in> model_node_ids H (rq_model rq) (rq_source rq) then join_owners {rq_source rq} (node_owners g i)
     else if c = SCOPE_CHANGED_PRESERVE_PENDING_TOMBSTONE then node_owners g i
     else leave_owners {rq_source rq} (node_owners g i))"
    by (rule owners_reconcile [OF assms]) (simp add: source_node_plan_def kept_node_ids_def)
  finally show ?thesis .
qed

lemma import_source_ok:
  assumes "import_source_tx H ctx rq g = Inr (st, g')" "store_ok g"
  shows "store_ok g' \<and> node_owners g' i = source_step H g rq i (node_owners g i)"
proof -
  obtain decision where d: "replay_decision_of rq g = Inr decision"
    and g': "gs_nodes g' = gs_nodes (imported_store H ctx rq (rp_case decision) g)"
      "gs_relations g' = gs_relations (imported_store H ctx rq (rp_case decision) g)"
    using import_source_writes [OF assms(1)] by blast
  have "rp_case decision = SCOPE_CHANGED_PRESERVE_PENDING_TOMBSTONE \<longleftrightarrow> scope_changed g (rq_source rq) (rq_scope_digest rq)"
    using classify_scope_changed d unfolding replay_decision_of_def Let_def scope_changed_def by blast
  moreover have "distinct (map fst (gs_nodes g))" using assms(2) by (simp add: store_ok_def)
  ultimately have "node_owners g' i = source_step H g rq i (node_owners g i)"
    using owners_imported_store [of g H ctx rq "rp_case decision" i] node_owners_cong [OF g'(1)]
    by (simp add: source_step_def)
  moreover have "store_ok g'" using store_ok_cong [OF g'] imported_store_ok [OF assms(2)] by simp
  ultimately show ?thesis by simp
qed

section \<open>The owners after a run\<close>

lemma sources_merge_relation [simp]: "gs_sources (merge_relation s r g) = gs_sources g"
  by (simp add: merge_relation_def Let_def)

lemma sources_write_relations [simp]: "gs_sources (fst (write_relations s m g)) = gs_sources g"
proof -
  have "gs_sources (fold (merge_relation s) rs g) = gs_sources g" for rs
    by (induction rs arbitrary: g) simp_all
  then show ?thesis by (simp add: write_relations_def)
qed

lemma sources_expire [simp]: "gs_sources (expire_dropped_claims s np rp g) = gs_sources g"
  by (simp add: expire_dropped_claims_def expire_nodes_def strip_stale_evidence_def expire_relations_def Let_def)

lemma sources_recompute [simp]: "gs_sources (recompute_affected_claims ids g) = gs_sources g"
proof -
  have "gs_sources (recompute_claim c g) = gs_sources g" for c g
    by (simp add: recompute_claim_def split: option.split)
  then have "gs_sources (fold recompute_claim cs g) = gs_sources g" for cs
    by (induction cs arbitrary: g) simp_all
  then show ?thesis by (simp add: recompute_affected_claims_def)
qed

lemma sources_write_nodes [simp]: "gs_sources (fst (write_nodes H s m g)) = gs_sources g"
  by (simp add: write_nodes_def)

lemma sources_reconcile [simp]: "gs_sources (reconcile_claims H s m np rp g) = gs_sources g"
  by (simp add: reconcile_claims_def)

lemma source_state_other:
  assumes "import_source_tx H ctx rq g = Inr (st, g')" "t \<noteq> rq_source rq"
  shows "source_state_of g' t = source_state_of g t"
proof -
  obtain c where "gs_sources g' = gs_sources (imported_store H ctx rq c g)"
    using import_source_writes [OF assms(1)] by blast
  then show ?thesis
    using assms(2)
    by (simp add: source_state_of_def imported_store_def write_capture_scope_def write_source_state_def update_conv'
        split: option.split)
qed

definition outcome_node_ids :: "(bytes \<Rightarrow> string) \<Rightarrow> string \<times> source_run_outcome \<Rightarrow> string set" where
  "outcome_node_ids H x = model_node_ids H (ao_model (so_outcome (snd x))) (fst x)"

definition run_joiners :: "(bytes \<Rightarrow> string) \<Rightarrow> source_outcomes \<Rightarrow> string \<Rightarrow> string set" where
  "run_joiners H outs i = fst ` {x \<in> set outs. i \<in> outcome_node_ids H x}"

definition run_leavers :: "(bytes \<Rightarrow> string) \<Rightarrow> graph_store \<Rightarrow> string option \<Rightarrow> source_outcomes \<Rightarrow> string \<Rightarrow> string set" where
  "run_leavers H g digest outs i =
     fst ` {x \<in> set outs. i \<notin> outcome_node_ids H x \<and> \<not> scope_changed g (fst x) digest}"

lemma run_joiners_Cons:
  "run_joiners H (x # outs) i = (if i \<in> outcome_node_ids H x then {fst x} else {}) \<union> run_joiners H outs i"
  by (auto simp: run_joiners_def)

lemma run_leavers_Cons:
  "run_leavers H g digest (x # outs) i =
     (if i \<notin> outcome_node_ids H x \<and> \<not> scope_changed g (fst x) digest then {fst x} else {}) \<union>
     run_leavers H g digest outs i"
  by (auto simp: run_leavers_def)

lemma pre_merge_owners:
  assumes "store_ok g"
  shows "store_ok (pre_merge H outs g) \<and> gs_sources (pre_merge H outs g) = gs_sources g \<and>
    node_owners (pre_merge H outs g) i = join_owners (run_joiners H outs i) (node_owners g i)"
  using assms
proof (induction outs arbitrary: g)
  case Nil
  then show ?case by (simp add: pre_merge_def run_joiners_def)
next
  case (Cons x outs)
  let ?g = "fst (write_nodes H (fst x) (ao_model (so_outcome (snd x))) g)"
  have step: "pre_merge H (x # outs) g = pre_merge H outs ?g"
    by (simp add: pre_merge_def split_def)
  have "node_owners ?g i = join_owners (if i \<in> outcome_node_ids H x then {fst x} else {}) (node_owners g i)"
    by (simp add: owners_write_nodes outcome_node_ids_def)
  then show ?case
    using Cons.IH [OF write_nodes_ok [OF Cons.prems], of H "fst x" "ao_model (so_outcome (snd x))"]
    by (simp add: step join_join run_joiners_Cons Un_commute)
qed

lemma request_of_sel [simp]:
  "rq_source (request_of run x) = fst x" "rq_model (request_of run x) = ao_model (so_outcome (snd x))"
  "rq_scope_digest (request_of run x) = dr_scope_digest run"
  by (simp_all add: request_of_def split_def)

lemma import_step_Inr:
  "import_step H ctx rq (stats, g) = Inr (stats', g') \<longleftrightarrow>
     (\<exists>st. import_source_tx H (Some ctx) rq g = Inr (st, g') \<and> stats' = stats @ [st])"
  by (auto simp: import_step_def split: sum.splits)

lemma import_fold_owners:
  assumes "fold_error (\<lambda>x. import_step H ctx (request_of run x)) outs (stats, g) = Inr (stats', g')"
    and "store_ok g" "distinct (map fst outs)"
    and "\<And>s. s \<in> run_joiners H outs i \<Longrightarrow> \<exists>O1. node_owners g i = Some O1 \<and> s \<in> O1"
  shows "store_ok g' \<and>
    node_owners g' i = leave_owners (run_leavers H g (dr_scope_digest run) outs i) (node_owners g i)"
  using assms
proof (induction outs arbitrary: stats g)
  case Nil
  then show ?case by (simp add: run_leavers_def)
next
  case (Cons x outs)
  let ?d = "dr_scope_digest run"
  obtain stats1 g1 where first: "import_step H ctx (request_of run x) (stats, g) = Inr (stats1, g1)"
    and rest: "fold_error (\<lambda>x. import_step H ctx (request_of run x)) outs (stats1, g1) = Inr (stats', g')"
    using Cons.prems(1) by (auto split: sum.splits)
  then obtain st where tx: "import_source_tx H (Some ctx) (request_of run x) g = Inr (st, g1)"
    by (auto simp: import_step_Inr)
  note ok = import_source_ok [OF tx Cons.prems(2)]
  have fresh: "fst x \<notin> fst ` set outs" using Cons.prems(3) by simp
  have others: "scope_changed g1 (fst y) ?d = scope_changed g (fst y) ?d" if "y \<in> set outs" for y
  proof -
    have "fst y \<noteq> fst x" using fresh that by (metis imageI)
    then show ?thesis using source_state_other [OF tx, of "fst y"] by (simp add: scope_changed_def)
  qed
  then have leavers: "run_leavers H g1 ?d outs i = run_leavers H g ?d outs i"
    unfolding run_leavers_def by (intro arg_cong [where f = "image fst"] Collect_cong) blast
  have step: "node_owners g1 i =
      leave_owners (if i \<notin> outcome_node_ids H x \<and> \<not> scope_changed g (fst x) ?d then {fst x} else {}) (node_owners g i)"
  proof (cases "i \<in> outcome_node_ids H x")
    case True
    then have "fst x \<in> run_joiners H (x # outs) i" by (simp add: run_joiners_Cons)
    then obtain O1 where "node_owners g i = Some O1" "fst x \<in> O1" using Cons.prems(4) by blast
    then have "join_owners {fst x} (node_owners g i) = node_owners g i" by (intro join_kept) simp_all
    then show ?thesis using True ok [of i] by (simp add: source_step_def outcome_node_ids_def)
  next
    case False
    then show ?thesis using ok [of i] by (simp add: source_step_def outcome_node_ids_def)
  qed
  have "\<exists>O1. node_owners g1 i = Some O1 \<and> s \<in> O1" if s: "s \<in> run_joiners H outs i" for s
  proof -
    have "s \<in> fst ` set outs" using s unfolding run_joiners_def by blast
    then have "s \<noteq> fst x" using fresh by metis
    moreover obtain O1 where "node_owners g i = Some O1" "s \<in> O1"
      using Cons.prems(4) [of s] s unfolding run_joiners_Cons by blast
    ultimately show ?thesis unfolding step by (intro leave_kept) (auto split: if_splits)
  qed
  then have "store_ok g' \<and> node_owners g' i = leave_owners (run_leavers H g1 ?d outs i) (node_owners g1 i)"
    using Cons.prems(3) ok by (intro Cons.IH [OF rest]) simp_all
  then show ?case
    by (simp add: step leavers leave_leave run_leavers_Cons Un_commute)
qed

lemma remove_source_ok:
  assumes "store_ok g"
  shows "store_ok (snd (remove_source_tx R s g)) \<and>
    node_owners (snd (remove_source_tx R s g)) i = leave_owners {s} (node_owners g i)"
proof -
  let ?np = "claim_plan s (owned_nodes s g) (Some (insert s R, [])) {}"
  let ?rp = "claim_plan s (owned_relations s g) (Some (insert s R, [])) {}"
  let ?g = "recompute_affected_claims (affected_claim_ids (\<lambda>_. []) empty_model ?np) (expire_dropped_claims s ?np ?rp g)"
  let ?g' = "snd (remove_source_tx R s g)"
  have eq: "gs_nodes ?g' = gs_nodes ?g" "gs_relations ?g' = gs_relations ?g"
    by (simp_all add: remove_source_tx_def Let_def)
  have "store_ok ?g" by (rule recompute_ok [OF expire_dropped_ok [OF assms]])
  then have ok: "store_ok ?g'" using store_ok_cong [OF eq] by simp
  have distinct: "distinct (map fst (gs_nodes g))" using assms by (simp add: store_ok_def)
  have "node_owners ?g' i = node_owners (expire_nodes s (fst ` set (owned_nodes s g)) g) i"
    using node_owners_cong [OF eq(1)] by (simp add: owners_expire_dropped claim_plan_dropped)
  also have "\<dots> = leave_owners {s} (node_owners g i)"
  proof (cases "i \<in> fst ` set (owned_nodes s g)")
    case True
    then show ?thesis
      using drop_owner [of "node_owners g i" s] unfolding key_owned_nodes [OF distinct] by (simp add: owners_expire_nodes key_owned_nodes [OF distinct])
  next
    case False
    then have "leave_owners {s} (node_owners g i) = node_owners g i"
      unfolding key_owned_nodes [OF distinct] by (intro leave_non_owner) blast
    then show ?thesis using False by (simp add: owners_expire_nodes)
  qed
  finally show ?thesis using ok by simp
qed

lemma remove_fold_owners:
  assumes "store_ok g"
  shows "store_ok (snd (fold (remove_step R) ss (stats, g))) \<and>
    node_owners (snd (fold (remove_step R) ss (stats, g))) i = leave_owners (set ss) (node_owners g i)"
  using assms
proof (induction ss arbitrary: stats g)
  case Nil
  then show ?case by simp
next
  case (Cons s ss)
  obtain st g1 where g1: "remove_source_tx R s g = (st, g1)" by (cases "remove_source_tx R s g")
  then have ok: "store_ok g1" "node_owners g1 i = leave_owners {s} (node_owners g i)"
    using remove_source_ok [OF Cons.prems, of R s i] by simp_all
  have "fold (remove_step R) (s # ss) (stats, g) = fold (remove_step R) ss (stats @ [st], g1)"
    by (simp add: remove_step_def g1)
  then show ?case using Cons.IH [OF ok(1), of "stats @ [st]"] ok(2) by (simp add: leave_leave)
qed

lemma reconcile_run_owners:
  assumes "reconcile_run H run removed g = Inr (stats, g')" "store_ok g" "distinct (map fst (dr_outcomes run))"
  shows "store_ok g' \<and> node_owners g' i =
    leave_owners (run_leavers H g (dr_scope_digest run) (dr_outcomes run) i \<union> set removed)
      (join_owners (run_joiners H (dr_outcomes run) i) (node_owners g i))"
proof -
  let ?outs = "dr_outcomes run"
  let ?ctx = "run_context_of H ?outs removed g"
  let ?g0 = "pre_merge H ?outs g"
  obtain stats1 g1 where fold: "fold_error (\<lambda>x. import_step H ?ctx (request_of run x)) ?outs ([], ?g0) = Inr (stats1, g1)"
    and g': "g' = snd (fold (remove_step (set removed)) removed ([], g1))"
    using assms(1) by (auto simp: reconcile_run_def Let_def split: sum.splits prod.splits)
  note pre = pre_merge_owners [OF assms(2), of H ?outs]
  have "\<exists>O1. node_owners ?g0 i = Some O1 \<and> s \<in> O1" if "s \<in> run_joiners H ?outs i" for s
    using pre [of i] that by (auto simp: join_owners_def)
  then have "store_ok g1 \<and> node_owners g1 i = leave_owners (run_leavers H ?g0 (dr_scope_digest run) ?outs i) (node_owners ?g0 i)"
    using pre assms(3) by (intro import_fold_owners [OF fold]) simp_all
  moreover have "run_leavers H ?g0 (dr_scope_digest run) ?outs i = run_leavers H g (dr_scope_digest run) ?outs i"
    using pre by (simp add: run_leavers_def scope_changed_def source_state_of_def)
  ultimately show ?thesis
    using remove_fold_owners [of g1 "set removed" removed "[]" i] pre [of i]
    unfolding g' by (simp add: leave_leave Un_commute)
qed

lemma key_of_filter: "s \<in> set (map fst (filter (\<lambda>(s, st). Q s \<and> R s st) xs)) \<Longrightarrow> Q s"
  by (induction xs) (auto split: if_splits)

lemma removed_absent: "set (removed_sources run scope vs g) \<inter> fst ` set (dr_outcomes run) = {}"
proof -
  have "s \<notin> fst ` set (dr_outcomes run)" if "s \<in> set (removed_sources run scope vs g)" for s
  proof (cases "dr_status run = COMPLETE")
    case True
    show ?thesis
      using that unfolding removed_sources_def True simp_thms if_False
      by (rule key_of_filter [where Q = "\<lambda>s. s \<notin> fst ` set (dr_outcomes run)"])
  next
    case False
    then show ?thesis using that by (simp add: removed_sources_def)
  qed
  then show ?thesis by blast
qed

lemma import_all_run:
  assumes "import_all_sources_tx H expected guard run g = Inr (commit, g')"
  shows "\<exists>scope snapshot stats g1. dr_scope_id run = Some scope \<and> dr_snapshot run = Some snapshot \<and>
    reconcile_run H run (cm_removed commit) g = Inr (stats, g1) \<and>
    (case expected of NotSupplied \<Rightarrow> True | Expected e \<Rightarrow> ci_inventory_revision (current_inventory_of g scope) = e) \<and>
    (case guard of None \<Rightarrow> True | Some check \<Rightarrow> check g = None) \<and>
    set (cm_removed commit) \<inter> fst ` set (dr_outcomes run) = {} \<and>
    g' = write_current_inventory scope
      \<lparr>ci_inventory_revision = Some (in_revision snapshot), ci_inventory_capture_id = Some (in_capture_id snapshot),
       ci_inventory_event_id = inventory_event_id H (ci_inventory_event_id (current_inventory_of g scope)) (in_capture_id snapshot),
       ci_scope_definition_digest = dr_scope_digest run\<rparr> g1"
  using assms
  by (auto simp del: disjoint_iff simp: removed_absent import_all_sources_tx_def Let_def split: option.splits expectation.splits if_splits sum.splits)

lemma finite_model_node_ids [simp]: "finite (model_node_ids H m s)"
  unfolding model_node_ids_claims [symmetric] by simp

lemma owners_of_run_emitters:
  "owners_of (run_emitters (\<lambda>s m. model_node_ids H m s) outs) i = run_joiners H outs i"
proof -
  let ?ps = "concat (map (\<lambda>(s, so). map (\<lambda>k. (k, s)) (sorted_list_of_set (model_node_ids H (ao_model (so_outcome so)) s))) outs)"
  have "owners_of (map (\<lambda>(k, ss). (k, set ss)) d) i = members_of d i" for d :: "(string \<times> string list) list"
    unfolding owners_of_def members_of_def map_of_map by (cases "map_of d i") simp_all
  then have "owners_of (run_emitters (\<lambda>s m. model_node_ids H m s) outs) i = members_of (group_pairs ?ps) i"
    by (simp add: run_emitters_def)
  also have "\<dots> = {s. (i, s) \<in> set ?ps}" by (rule members_of_group_pairs)
  also have "\<dots> = run_joiners H outs i"
  proof (rule set_eqI)
    fix s
    have "(i, s) \<in> set ?ps \<longleftrightarrow> (\<exists>so. (s, so) \<in> set outs \<and> i \<in> model_node_ids H (ao_model (so_outcome so)) s)"
      by auto
    also have "\<dots> \<longleftrightarrow> s \<in> run_joiners H outs i"
      unfolding run_joiners_def outcome_node_ids_def image_iff Bex_def split_paired_Ex mem_Collect_eq fst_conv snd_conv
      by auto
    finally show "s \<in> {s. (i, s) \<in> set ?ps} \<longleftrightarrow> s \<in> run_joiners H outs i" by simp
  qed
  finally show ?thesis .
qed

lemma leave_join_planned:
  assumes "O1 \<noteq> {}" "E \<subseteq> R"
  shows "leave_owners (R - E) (join_owners E (Some O1)) =
    (if {x \<in> O1. x \<notin> R} \<union> E = {} then None else Some ({x \<in> O1. x \<notin> R} \<union> E))"
proof (cases "E = {}")
  case True
  have "O1 \<inter> R = {} \<longleftrightarrow> {x \<in> O1. x \<notin> R} = O1" "{x \<in> O1. x \<notin> R} = {} \<longleftrightarrow> O1 \<subseteq> R" "{x \<in> O1. x \<notin> R} = O1 - R"
    by blast+
  then show ?thesis using assms(1) True by (auto simp: leave_owners_def)
next
  case False
  have "(E \<union> O1) \<inter> (R - E) = {} \<Longrightarrow> E \<union> O1 = {x \<in> O1. x \<notin> R} \<union> E" by blast
  moreover have "\<not> E \<union> O1 \<subseteq> R - E" using False by blast
  moreover have "E \<union> O1 - (R - E) = {x \<in> O1. x \<notin> R} \<union> E" by (use assms(2) in blast)
  ultimately have "leave_owners (R - E) (Some (E \<union> O1)) = Some ({x \<in> O1. x \<notin> R} \<union> E)"
    unfolding leave_owners_def option.case by (metis (no_types))
  then show ?thesis using False by (simp add: join_owners_def)
qed

section \<open>A quiet import\<close>

lemma revision_write_relations: "gs_revision (fst (write_relations s m g)) = gs_revision g"
proof -
  have "gs_revision (merge_relation s r g) = gs_revision g" for r g
    by (simp add: merge_relation_def Let_def)
  then have "gs_revision (fold (merge_relation s) rs g) = gs_revision g" for rs
    by (induction rs arbitrary: g) simp_all
  then show ?thesis by (simp add: write_relations_def)
qed

lemma revision_recompute: "gs_revision (recompute_affected_claims ids g) = gs_revision g"
proof -
  have "gs_revision (recompute_claim c g) = gs_revision g" for c g
    by (simp add: recompute_claim_def split: option.split)
  then have "gs_revision (fold recompute_claim cs g) = gs_revision g" for cs
    by (induction cs arbitrary: g) simp_all
  then show ?thesis by (simp add: recompute_affected_claims_def)
qed

lemma revision_reconcile: "gs_revision (imported_store H ctx rq c g) = gs_revision g"
  by (simp add: imported_store_def reconcile_claims_def revision_recompute write_capture_scope_def
      write_source_state_def expire_dropped_claims_def expire_nodes_def strip_stale_evidence_def
      expire_relations_def Let_def revision_write_relations write_nodes_def split: option.split)

lemma map_of_fold_merge_other:
  "i \<notin> fst ` set cs \<Longrightarrow> map_of (fold (merge_node s) cs nodes) i = map_of nodes i"
  by (induction cs arbitrary: nodes) (simp_all add: map_of_merge_node)

lemma recompute_claim_other: "i \<noteq> c \<Longrightarrow> map_of (gs_nodes (recompute_claim c g)) i = map_of (gs_nodes g) i"
  by (simp add: recompute_claim_def update_conv' split: option.split)

lemma recompute_other:
  assumes "i \<notin> set ids"
  shows "map_of (gs_nodes (recompute_affected_claims ids g)) i = map_of (gs_nodes g) i"
proof -
  have "i \<notin> set cs \<Longrightarrow> map_of (gs_nodes (fold recompute_claim cs g)) i = map_of (gs_nodes g) i" for cs
    by (induction cs arbitrary: g) (simp_all add: recompute_claim_other)
  then show ?thesis using assms by (simp add: recompute_affected_claims_def)
qed

lemma expire_nodes_none [simp]: "gs_nodes (expire_nodes s {} g) = gs_nodes g"
  by (simp add: expire_nodes_def split_def)

lemma no_op_drops_nothing:
  "is_semantic_no_op p \<Longrightarrow> rp_expired p \<union> rp_ownership_removed p = {}"
  by (simp add: is_semantic_no_op_def)

lemma snapshot_eq_refl [simp]: "snapshot_eq a a"
  by (simp add: snapshot_eq_def dict_eq_def split: option.split prod.split)

section \<open>Properties\<close>

text \<open>C1: Refinement of a committed run to one ownership step.  Although the importer pre-merges every source,
  reconciles the sources one after another and then removes the absent ones, the owners of every node
  after the commit are exactly those one simultaneous step gives: the sources that emit the node join,
  the sources that do not emit it (unless their scope definition changed) and the removed sources leave,
  and a node whose last owner leaves is deleted.  The result does not depend on the order of the
  sources.\<close>

theorem committed_run_ownership:
  assumes "import_all_sources_tx H expected guard run g = Inr (commit, g')" "store_ok g"
    and "distinct (map fst (dr_outcomes run))"
  shows "node_owners g' i =
    leave_owners (run_leavers H g (dr_scope_digest run) (dr_outcomes run) i \<union> set (cm_removed commit))
      (join_owners (run_joiners H (dr_outcomes run) i) (node_owners g i))"
proof -
  obtain scope stats g1 inv where r: "reconcile_run H run (cm_removed commit) g = Inr (stats, g1)"
    and g': "g' = write_current_inventory scope inv g1"
    using import_all_run [OF assms(1)] by blast
  have "gs_nodes g' = gs_nodes g1" by (simp add: g' write_current_inventory_def)
  then show ?thesis using reconcile_run_owners [OF r assms(2,3), of i] node_owners_cong by metis
qed

text \<open>C2: The planner's forecast is what the run does.  For a node with owners, in a run where no source's
  scope definition changed, the owners after the commit are exactly the planner's
  \<open>owners_after_run\<close>, and the node is gone exactly when that set is empty.\<close>

theorem ownership_as_planned:
  assumes "import_all_sources_tx H expected guard run g = Inr (commit, g')" "store_ok g"
    and "distinct (map fst (dr_outcomes run))"
    and "\<forall>x\<in>set (dr_outcomes run). \<not> scope_changed g (fst x) (dr_scope_digest run)"
    and "node_owners g i = Some O1" "O1 \<noteq> {}"
  defines "after \<equiv> owners_after_run O1 i (fst ` set (dr_outcomes run) \<union> set (cm_removed commit))
    (run_emitters (\<lambda>s m. model_node_ids H m s) (dr_outcomes run))"
  shows "node_owners g' i = (if after = {} then None else Some after)"
proof -
  let ?outs = "dr_outcomes run"
  let ?E = "run_joiners H ?outs i" and ?R = "fst ` set ?outs \<union> set (cm_removed commit)"
  obtain scope stats g1 inv where r: "reconcile_run H run (cm_removed commit) g = Inr (stats, g1)"
    and g': "g' = write_current_inventory scope inv g1"
    and absent: "set (cm_removed commit) \<inter> fst ` set ?outs = {}"
    using import_all_run [OF assms(1)] by blast
  have "gs_nodes g' = gs_nodes g1" by (simp add: g' write_current_inventory_def)
  then have owners: "node_owners g' i = leave_owners (run_leavers H g (dr_scope_digest run) ?outs i \<union> set (cm_removed commit))
      (join_owners ?E (node_owners g i))"
    using reconcile_run_owners [OF r assms(2,3), of i] node_owners_cong by metis
  have inj: "inj_on fst (set ?outs)" using assms(3) by (simp add: distinct_map)
  have "run_leavers H g (dr_scope_digest run) ?outs i = fst ` {x \<in> set ?outs. i \<notin> outcome_node_ids H x}"
    unfolding run_leavers_def using assms(4) by (intro arg_cong [where f = "image fst"]) auto
  also have "\<dots> = fst ` (set ?outs - {x \<in> set ?outs. i \<in> outcome_node_ids H x})"
    by (intro arg_cong [where f = "image fst"]) auto
  also have "\<dots> = fst ` set ?outs - ?E"
    unfolding run_joiners_def by (rule inj_on_image_set_diff [OF inj]) auto
  finally have leavers: "run_leavers H g (dr_scope_digest run) ?outs i = fst ` set ?outs - ?E" .
  have "?E \<subseteq> fst ` set ?outs" by (auto simp: run_joiners_def)
  then have "fst ` set ?outs - ?E \<union> set (cm_removed commit) = ?R - ?E" "?E \<subseteq> ?R" using absent by blast+
  then show ?thesis
    using leave_join_planned [OF assms(6), of ?E ?R] owners leavers
    by (simp add: after_def owners_after_run_def owners_of_run_emitters assms(5))
qed

text \<open>C4: A run commits only through its gates: it was commit-eligible, a supplied predecessor expectation
  equals the committed revision (or its absence), the guard raised no objection on the store the
  transaction saw, and afterwards the scope's current inventory is the run's snapshot.\<close>

theorem committed_run_passed_its_gates:
  assumes "import_discovery_run H expected guard run g = (g', Inr stats)" "ir_committed stats"
  shows "dr_commit_eligible run \<and> (\<exists>scope snapshot. dr_scope_id run = Some scope \<and> dr_snapshot run = Some snapshot \<and>
    (\<forall>e. expected = Expected e \<longrightarrow> ci_inventory_revision (current_inventory_of g scope) = e) \<and>
    (\<forall>check. guard = Some check \<longrightarrow> check (ensure_revision_singleton g) = None) \<and>
    ci_inventory_revision (current_inventory_of g' scope) = Some (in_revision snapshot) \<and>
    ir_inventory_revision stats = Some (in_revision snapshot))"
proof -
  let ?g = "ensure_revision_singleton g"
  have eligible: "dr_commit_eligible run"
    using assms by (auto simp: import_discovery_run_def Let_def uncommitted_stats_def split: if_splits)
  then obtain commit where tx: "import_all_sources_tx H expected guard run ?g = Inr (commit, g')"
    and stats: "ir_inventory_revision stats = map_option in_revision (dr_snapshot run)"
    using assms by (auto simp: import_discovery_run_def Let_def uncommitted_stats_def
        split: sum.splits import_error.splits)
  have same: "current_inventory_of ?g scope = current_inventory_of g scope" for scope
    by (simp add: current_inventory_of_def ensure_revision_singleton_def)
  obtain scope snapshot stats1 g1 inv where "dr_scope_id run = Some scope" "dr_snapshot run = Some snapshot"
    "case expected of NotSupplied \<Rightarrow> True | Expected e \<Rightarrow> ci_inventory_revision (current_inventory_of ?g scope) = e"
    "case guard of None \<Rightarrow> True | Some check \<Rightarrow> check ?g = None"
    "g' = write_current_inventory scope inv g1" "ci_inventory_revision inv = Some (in_revision snapshot)"
    using import_all_run [OF tx] by fastforce
  then have "dr_scope_id run = Some scope \<and> dr_snapshot run = Some snapshot \<and>
    (\<forall>e. expected = Expected e \<longrightarrow> ci_inventory_revision (current_inventory_of g scope) = e) \<and>
    (\<forall>check. guard = Some check \<longrightarrow> check ?g = None) \<and>
    ci_inventory_revision (current_inventory_of g' scope) = Some (in_revision snapshot)"
    by (auto simp: same write_current_inventory_def current_inventory_of_def [of "_\<lparr>gs_inventories := _\<rparr>"]
        update_conv' split: expectation.splits option.splits)
  then show ?thesis using eligible stats by (intro conjI exI [of _ scope] exI [of _ snapshot]) auto
qed

section \<open>A small commit\<close>

lemma import_source_succeeds:
  assumes "unknown_relation_type (rq_model rq) = None" "replay_decision_of rq g = Inr d"
  shows "\<exists>st g'. import_source_tx H ctx rq g = Inr (st, g')"
  using assms by (simp add: import_source_tx_def Let_def)

text \<open>Source \<open>a\<close> owned the node \<open>old\<close> and now declares the Service \<open>v\<close> instead.\<close>

definition sample_model :: architecture_model where
  "sample_model = empty_model\<lparr>services := [\<lparr>svc_id = ''v'', svc_name = ''n'', svc_version = None\<rparr>]\<rparr>"

definition sample_store :: graph_store where
  "sample_store = \<lparr>gs_nodes = [(''old'', \<lparr>nr_label = ''Service'', nr_props = [], nr_owners = [''a'']\<rparr>)],
     gs_relations = [],
     gs_sources = [(''a'', \<lparr>ss_semantic_input_digest = Some ''d0'', ss_scope_definition_digest = Some ''x'',
       ss_discovery_scope_id = Some ''c'', ss_capture = None\<rparr>)],
     gs_inventories = [], gs_revision = Some 0, gs_has_scoped_calls = False\<rparr>"

definition sample_import :: discovery_run_result where
  "sample_import = \<lparr>dr_status = COMPLETE, dr_commit_eligible = True, dr_scope_id = Some ''c'',
     dr_scope_digest = Some ''x'', dr_merged_model = sample_model,
     dr_outcomes = [(''a'', \<lparr>so_locator = ''l'', so_outcome = \<lparr>ao_result = ACCEPTED, ao_model = sample_model,
       ao_diagnostics = [], ao_semantic_input_digest = Some ''d''\<rparr>, so_descriptor = None\<rparr>)],
     dr_diagnostics = [],
     dr_snapshot = Some \<lparr>in_revision = ''r'', in_capture_id = ''k'', in_scope_id = ''c'', in_scope_digest = ''x'',
       in_adapter_identities = [], in_mapping_rule_identities = [], in_status = COMPLETE,
       in_discovered_source_ids = [''a''], in_tombstones = [], in_capture_time = ''t'', in_diagnostics = []\<rparr>,
     dr_expected_prior = NotSupplied\<rparr>"

lemma sample_store_ok: "store_ok sample_store" "distinct (map fst (dr_outcomes sample_import))"
  by (simp_all add: store_ok_def sample_store_def sample_import_def)

lemma sample_node_ids: "model_node_ids (\<lambda>b. b) sample_model s = {''v''}"
  by (simp add: model_node_ids_def sample_model_def empty_model_def all_carrier_kinds_def)

lemma sample_decision:
  "gs_sources g = gs_sources sample_store \<Longrightarrow>
   replay_decision_of (request_of sample_import (hd (dr_outcomes sample_import))) g =
     Inr \<lparr>rp_case = RECONCILE_SAME_SCOPE_CHANGED_SEMANTIC_DIGEST, rp_advance_possible = True\<rparr>"
  by (simp add: replay_decision_of_def source_state_of_def request_of_def sample_import_def sample_store_def
      classify_replay_case_def Let_def)

lemma sample_relations_known: "unknown_relation_type sample_model = None"
  by (simp add: unknown_relation_type_def sample_model_def empty_model_def)

lemma sample_commits:
  "\<exists>commit g'. import_all_sources_tx (\<lambda>b. b) NotSupplied None sample_import sample_store = Inr (commit, g') \<and>
     cm_removed commit = []"
proof -
  let ?x = "hd (dr_outcomes sample_import)"
  let ?ctx = "run_context_of (\<lambda>b. b) (dr_outcomes sample_import) [] sample_store"
  let ?g = "pre_merge (\<lambda>b. b) (dr_outcomes sample_import) sample_store"
  have outs: "dr_outcomes sample_import = [?x]" "ao_model (so_outcome (snd ?x)) = sample_model"
    by (simp_all add: sample_import_def)
  have "gs_sources ?g = gs_sources sample_store" using pre_merge_owners [OF sample_store_ok(1)] by blast
  then obtain st g1 where "import_source_tx (\<lambda>b. b) (Some ?ctx) (request_of sample_import ?x) ?g = Inr (st, g1)"
    using import_source_succeeds [OF _ sample_decision] sample_relations_known outs(2) by fastforce
  then have "fold_error (\<lambda>x. import_step (\<lambda>b. b) ?ctx (request_of sample_import x)) [?x] ([], ?g) = Inr ([st], g1)"
    by (simp add: import_step_def)
  then have "reconcile_run (\<lambda>b. b) sample_import [] sample_store = Inr (([st], []), g1)"
    using outs(1) by (simp add: reconcile_run_def Let_def)
  moreover have "dr_snapshot sample_import \<noteq> None" "dr_scope_id sample_import = Some ''c''"
      "\<And>s. dr_snapshot sample_import = Some s \<Longrightarrow> in_tombstones s = []"
      "current_inventory_of sample_store ''c'' = \<lparr>ci_inventory_revision = None, ci_inventory_capture_id = None,
         ci_inventory_event_id = None, ci_scope_definition_digest = None\<rparr>"
    by (auto simp: sample_import_def current_inventory_of_def sample_store_def)
  moreover have "removed_sources sample_import None [] sample_store = []"
    by (simp add: removed_sources_def sample_import_def sample_store_def)
  ultimately show ?thesis
    by (auto simp: import_all_sources_tx_def Let_def validate_tombstones_def)
qed

lemma sample_owners:
  "run_joiners (\<lambda>b. b) (dr_outcomes sample_import) ''v'' = {''a''}"
  "run_leavers (\<lambda>b. b) sample_store (Some ''x'') (dr_outcomes sample_import) ''old'' = {''a''}"
  "run_joiners (\<lambda>b. b) (dr_outcomes sample_import) ''old'' = {}"
  "dr_scope_digest sample_import = Some ''x''"
  "node_owners sample_store ''old'' = Some {''a''}"
  by (simp_all add: run_joiners_def run_leavers_def outcome_node_ids_def sample_import_def sample_node_ids
      scope_changed_def source_state_of_def sample_store_def node_owners_def Collect_conv_if)

lemma committed_run_ownership_witness:
  "\<exists>commit g'. import_all_sources_tx (\<lambda>b. b) NotSupplied None sample_import sample_store = Inr (commit, g') \<and>
     node_owners g' ''old'' = None"
proof -
  obtain commit g' where c: "import_all_sources_tx (\<lambda>b. b) NotSupplied None sample_import sample_store = Inr (commit, g')"
    "cm_removed commit = []"
    using sample_commits by blast
  have "node_owners g' ''old'' = None"
    using committed_run_ownership [OF c(1) sample_store_ok, of "''old''"]
    by (simp add: c(2) sample_owners leave_owners_def)
  then show ?thesis using c(1) by blast
qed

lemma ownership_as_planned_witness:
  "\<exists>commit g'. import_all_sources_tx (\<lambda>b. b) NotSupplied None sample_import sample_store = Inr (commit, g') \<and>
     node_owners g' ''old'' = None"
proof -
  obtain commit g' where c: "import_all_sources_tx (\<lambda>b. b) NotSupplied None sample_import sample_store = Inr (commit, g')"
    "cm_removed commit = []"
    using sample_commits by blast
  have "\<forall>x\<in>set (dr_outcomes sample_import). \<not> scope_changed sample_store (fst x) (dr_scope_digest sample_import)"
    by (simp add: sample_import_def scope_changed_def source_state_of_def sample_store_def)
  note planned = ownership_as_planned [OF c(1) sample_store_ok this sample_owners(5)]
  have "fst ` set (dr_outcomes sample_import) = {''a''}" by (simp add: sample_import_def)
  then have "node_owners g' ''old'' = None"
    using planned by (simp add: owners_after_run_def owners_of_run_emitters sample_owners c(2))
  then show ?thesis using c(1) by blast
qed

lemma sample_run_commits:
  "\<exists>g' stats. import_discovery_run (\<lambda>b. b) NotSupplied None sample_import sample_store = (g', Inr stats) \<and> ir_committed stats"
proof -
  have "ensure_revision_singleton sample_store = sample_store" "dr_commit_eligible sample_import"
    by (simp_all add: ensure_revision_singleton_def sample_store_def sample_import_def)
  then show ?thesis using sample_commits by (auto simp: import_discovery_run_def Let_def)
qed

lemma committed_run_passed_its_gates_witness:
  "\<exists>g'. ci_inventory_revision (current_inventory_of g' ''c'') = Some ''r''"
proof -
  obtain g' stats where run: "import_discovery_run (\<lambda>b. b) NotSupplied None sample_import sample_store = (g', Inr stats)"
    "ir_committed stats"
    using sample_run_commits by blast
  have "dr_scope_id sample_import = Some ''c''" "map_option in_revision (dr_snapshot sample_import) = Some ''r''"
    by (simp_all add: sample_import_def)
  then show ?thesis using committed_run_passed_its_gates [OF run] by fastforce
qed

end
