(* ===== verification/GraphRevision.thy ===== *)
theory GraphRevision
  imports GraphOwnership
begin

text \<open>
  The revision fence of a whole run (\<open>graph/importer.py\<close>, \<open>_import_all_sources_tx\<close>): the run
  pre-merges every source's nodes, so a source compares the store it leaves with a snapshot taken
  before any write of the run.  The lemmas follow one node through the transaction; the property at
  the end says that its change is never missed.
\<close>

section \<open>What a source that reports no advance leaves of a node\<close>

text \<open>The source repeats its committed input: \<open>REPLAY_NO_OP\<close>.\<close>

definition replayed :: "graph_store \<Rightarrow> discovery_run_result \<Rightarrow> string \<times> source_run_outcome \<Rightarrow> bool" where
  "replayed g run x \<longleftrightarrow> (case replay_decision_of (request_of run x) g of
     Inl _ \<Rightarrow> False | Inr d \<Rightarrow> rp_case d = REPLAY_NO_OP)"

text \<open>The source emits the node or owned it before the run.\<close>

definition touches :: "(bytes \<Rightarrow> string) \<Rightarrow> graph_store \<Rightarrow> string \<Rightarrow> string \<times> source_run_outcome \<Rightarrow> bool" where
  "touches H g i x \<longleftrightarrow> i \<in> outcome_node_ids H x \<or> (\<exists>O1. node_owners g i = Some O1 \<and> fst x \<in> O1)"

lemma undropped_node:
  assumes "i \<notin> model_node_ids H m s" "i \<notin> rp_expired np \<union> rp_ownership_removed np"
  shows "map_of (gs_nodes (reconcile_claims H s m np rp g)) i = map_of (gs_nodes g) i"
proof -
  have fin: "set (sorted_list_of_set A) \<subseteq> A" for A :: "string set"
    by (cases "finite A") simp_all
  have "set (affected_claim_ids H m np) \<subseteq> claim_id H ` set (infrastructure_claims m) \<union> (rp_expired np \<union> rp_ownership_removed np)"
    using fin by (fastforce simp: affected_claim_ids_def)
  moreover have "i \<notin> claim_id H ` set (infrastructure_claims m)" using assms(1) by (auto simp: model_node_ids_def)
  ultimately have "i \<notin> set (affected_claim_ids H m np)" using assms(2) by blast
  then have "map_of (gs_nodes (reconcile_claims H s m np rp g)) i =
      map_of (gs_nodes (expire_dropped_claims s np rp (fst (write_relations s m (fst (write_nodes H s m g)))))) i"
    by (simp add: reconcile_claims_def recompute_other)
  also have "\<dots> = map_of (gs_nodes (fst (write_nodes H s m g))) i"
    using assms(2) by (simp add: expire_dropped_claims_def expire_nodes_def Let_def map_of_map_entry map_of_filter_key)
      (cases "map_of (gs_nodes (fst (write_nodes H s m g))) i"; simp)
  also have "\<dots> = map_of (gs_nodes g) i"
    using assms(1) by (simp add: write_nodes_def map_of_fold_merge_other model_node_ids_claims)
  finally show ?thesis .
qed

lemma import_source_result:
  assumes "import_source_tx H ctx rq g = Inr (st, g')"
  shows "\<exists>d. replay_decision_of rq g = Inr d \<and> st_revision_advanced st = advances H ctx rq d g \<and>
    gs_nodes g' = gs_nodes (imported_store H ctx rq (rp_case d) g) \<and>
    gs_revision g' = (if st_revision_advanced st then map_option Suc (gs_revision g) else gs_revision g)"
proof -
  obtain d where "replay_decision_of rq g = Inr d" "st_revision_advanced st = advances H ctx rq d g"
    "g' = (if advances H ctx rq d g then bump_revision (imported_store H ctx rq (rp_case d) g)
           else imported_store H ctx rq (rp_case d) g)"
    using assms by (auto simp: import_source_tx_def Let_def split: option.splits sum.splits)
  then show ?thesis
    by (intro exI [of _ d]) (simp add: bump_revision_def revision_reconcile)
qed

lemma not_replayed_can_advance:
  assumes "replay_decision_of rq g = Inr d" "rp_case d \<noteq> REPLAY_NO_OP"
  shows "rp_advance_possible d"
  using assms by (auto simp: replay_decision_of_def classify_replay_case_def Let_def split: if_splits)

lemma quiet_step_emitter:
  assumes "import_source_tx H (Some ctx) rq g = Inr (st, g')" "\<not> st_revision_advanced st"
    and "replay_decision_of rq g = Inr d" "rp_case d \<noteq> REPLAY_NO_OP"
    and "i \<in> model_node_ids H (rq_model rq) (rq_source rq)"
  shows "snapshot_eq (rc_nodes_before ctx i) (snapshot_node g' i)"
proof -
  obtain d' where d': "replay_decision_of rq g = Inr d'" "st_revision_advanced st = advances H (Some ctx) rq d' g"
    "gs_nodes g' = gs_nodes (imported_store H (Some ctx) rq (rp_case d') g)"
    using import_source_result [OF assms(1)] by blast
  then have "d' = d" using assms(3) by simp
  note d' = d' [unfolded this]
  have "source_no_op H (Some ctx) rq (rp_case d) g"
    using assms(2) d'(2) not_replayed_can_advance [OF assms(3,4)] by (simp add: advances_def revision_advances_def)
  moreover have "i \<in> kept_node_ids H rq (rp_case d) g" using assms(5) by (simp add: kept_node_ids_def kept_claims_def)
  ultimately have "snapshot_eq (rc_nodes_before ctx i) (snapshot_node (imported_store H (Some ctx) rq (rp_case d) g) i)"
    unfolding source_no_op_def content_changed_def option.case by blast
  then show ?thesis by (simp add: snapshot_node_def d'(3))
qed

lemma quiet_step_other:
  assumes "import_source_tx H (Some ctx) rq g = Inr (st, g')" "\<not> st_revision_advanced st" "store_ok g"
    and "i \<notin> model_node_ids H (rq_model rq) (rq_source rq)"
    and "(\<exists>O1. node_owners g i = Some O1 \<and> rq_source rq \<in> O1) \<Longrightarrow>
      \<exists>d. replay_decision_of rq g = Inr d \<and> rp_case d \<noteq> REPLAY_NO_OP"
  shows "map_of (gs_nodes g') i = map_of (gs_nodes g) i"
proof -
  obtain d where d: "replay_decision_of rq g = Inr d" "st_revision_advanced st = advances H (Some ctx) rq d g"
    "gs_nodes g' = gs_nodes (imported_store H (Some ctx) rq (rp_case d) g)"
    using import_source_result [OF assms(1)] by blast
  let ?np = "source_node_plan H (Some ctx) rq (rp_case d) g"
  have dropped: "rp_expired ?np \<union> rp_ownership_removed ?np =
      fst ` set (owned_nodes (rq_source rq) g) - kept_node_ids H rq (rp_case d) g"
    by (simp add: source_node_plan_def claim_plan_dropped)
  have "i \<notin> rp_expired ?np \<union> rp_ownership_removed ?np"
  proof (cases "\<exists>O1. node_owners g i = Some O1 \<and> rq_source rq \<in> O1")
    case True
    then have "rp_case d \<noteq> REPLAY_NO_OP" using assms(5) d(1) by auto
    then have "source_no_op H (Some ctx) rq (rp_case d) g"
      using assms(2) d(2) not_replayed_can_advance [OF d(1)] by (simp add: advances_def revision_advances_def)
    then show ?thesis using no_op_drops_nothing unfolding source_no_op_def by blast
  next
    case False
    have "distinct (map fst (gs_nodes g))" using assms(3) by (simp add: store_ok_def)
    then show ?thesis using False unfolding dropped by (simp add: key_owned_nodes)
  qed
  then show ?thesis
    using undropped_node [OF assms(4)] by (simp add: d(3) imported_store_def)
qed

section \<open>Through the whole run\<close>

text \<open>The number of sources that report an advance.\<close>

definition advances_reported :: "source_import_stats list \<Rightarrow> nat" where
  "advances_reported stats = length (filter st_revision_advanced stats)"

lemma advances_reported_simps [simp]:
  "advances_reported [] = 0"
  "advances_reported (st # xs) = (if st_revision_advanced st then 1 else 0) + advances_reported xs"
  "advances_reported (xs @ ys) = advances_reported xs + advances_reported ys"
  by (simp_all add: advances_reported_def)

lemma import_fold_revision:
  assumes "fold_error (\<lambda>x. import_step H ctx (request_of run x)) outs (stats, g) = Inr (stats', g')"
    and "gs_revision g = Some (n + advances_reported stats)"
  shows "gs_revision g' = Some (n + advances_reported stats')"
proof -
  have "gs_revision (snd (stats', g')) = Some (n + advances_reported (fst (stats', g')))"
  proof (rule fold_error_invar [OF assms(1), where P = "\<lambda>(stats, g). gs_revision g = Some (n + advances_reported stats)", simplified split_def])
    show "gs_revision (snd (stats, g)) = Some (n + advances_reported (fst (stats, g)))" using assms(2) by simp
  next
    fix x s s'
    assume s: "import_step H ctx (request_of run x) s = Inr s'" "gs_revision (snd s) = Some (n + advances_reported (fst s))"
    obtain st where tx: "import_source_tx H (Some ctx) (request_of run x) (snd s) = Inr (st, snd s')" "fst s' = fst s @ [st]"
      using s(1) by (cases s; cases s') (auto simp: import_step_Inr)
    then show "gs_revision (snd s') = Some (n + advances_reported (fst s'))"
      using import_source_result [OF tx(1)] s(2) by auto
  qed
  then show ?thesis by simp
qed

lemma remove_fold_revision:
  assumes "gs_revision g = Some (n + advances_reported stats)"
  shows "gs_revision (snd (fold (remove_step R) ss (stats, g))) =
      Some (n + advances_reported (fst (fold (remove_step R) ss (stats, g)))) \<and>
    advances_reported (fst (fold (remove_step R) ss (stats, g))) = advances_reported stats + length ss"
  using assms
proof (induction ss arbitrary: stats g)
  case Nil
  then show ?case by simp
next
  case (Cons s ss)
  obtain st g1 where g1: "remove_source_tx R s g = (st, g1)" by (cases "remove_source_tx R s g")
  have "st_revision_advanced st" using g1 by (auto simp: remove_source_tx_def Let_def)
  moreover have "gs_revision g1 = map_option Suc (gs_revision g)"
    using g1 by (auto simp: remove_source_tx_def Let_def bump_revision_def delete_source_state_def revision_recompute
        expire_dropped_claims_def expire_nodes_def strip_stale_evidence_def expire_relations_def)
  ultimately show ?case
    using Cons.IH [of g1 "stats @ [st]"] Cons.prems by (simp add: remove_step_def g1)
qed

lemma revision_pre_merge [simp]: "gs_revision (pre_merge H outs g) = gs_revision g"
  by (induction outs arbitrary: g) (simp_all add: pre_merge_def split_def write_nodes_def)

lemma pre_merge_other:
  assumes "\<forall>x\<in>set outs. i \<notin> outcome_node_ids H x"
  shows "map_of (gs_nodes (pre_merge H outs g)) i = map_of (gs_nodes g) i"
  using assms
proof (induction outs arbitrary: g)
  case (Cons x outs)
  let ?g = "fst (write_nodes H (fst x) (ao_model (so_outcome (snd x))) g)"
  have "map_of (gs_nodes ?g) i = map_of (gs_nodes g) i"
    using Cons.prems by (simp add: write_nodes_def map_of_fold_merge_other model_node_ids_claims outcome_node_ids_def)
  then show ?case using Cons by (simp add: pre_merge_def split_def)
qed (simp add: pre_merge_def)

text \<open>
  One source of the loop.  The node is settled when it is as before the run.  A quiet source that
  emits it settles it; any other quiet source leaves it alone.
\<close>

lemma quiet_step_settles:
  assumes "import_source_tx H (Some ctx) (request_of run x) g = Inr (st, g')" "\<not> st_revision_advanced st" "store_ok g"
    and "i \<in> outcome_node_ids H x \<Longrightarrow> rc_nodes_before ctx i = snapshot_node g0 i"
    and "source_state_of g (fst x) = source_state_of g0 (fst x)" "touches H g0 i x \<longrightarrow> \<not> replayed g0 run x"
    and "\<And>O1. node_owners g i = Some O1 \<Longrightarrow> fst x \<in> O1 \<Longrightarrow> touches H g0 i x"
    and "i \<in> outcome_node_ids H x \<or> snapshot_eq (snapshot_node g0 i) (snapshot_node g i) \<or> pending"
  shows "snapshot_eq (snapshot_node g0 i) (snapshot_node g' i) \<or> pending"
proof -
  have same: "replay_decision_of (request_of run x) g = replay_decision_of (request_of run x) g0"
    using assms(5) by (simp add: replay_decision_of_def)
  obtain d where d: "replay_decision_of (request_of run x) g = Inr d" using import_source_result [OF assms(1)] by blast
  have fresh: "rp_case d \<noteq> REPLAY_NO_OP" if "touches H g0 i x"
    using assms(6) that d by (simp add: replayed_def same [symmetric])
  show ?thesis
  proof (cases "i \<in> outcome_node_ids H x")
    case True
    then have "rp_case d \<noteq> REPLAY_NO_OP" by (intro fresh) (simp add: touches_def)
    from quiet_step_emitter [OF assms(1,2) d this, of i] show ?thesis
      using True assms(4) by (simp add: outcome_node_ids_def)
  next
    case False
    have "map_of (gs_nodes g') i = map_of (gs_nodes g) i"
      using assms(7) d fresh False by (intro quiet_step_other [OF assms(1,2,3)]) (auto simp: outcome_node_ids_def)
    then show ?thesis using assms(8) False by (simp add: snapshot_node_def)
  qed
qed

lemma step_owners_subset:
  assumes "import_source_tx H (Some ctx) (request_of run x) g = Inr (st, g')" "store_ok g"
    and "\<And>O1. node_owners g i = Some O1 \<Longrightarrow> O1 \<subseteq> B" "i \<in> outcome_node_ids H x \<Longrightarrow> fst x \<in> B"
    and "node_owners g' i = Some O1"
  shows "O1 \<subseteq> B"
proof -
  have "node_owners g' i = source_step H g (request_of run x) i (node_owners g i)"
    using import_source_ok [OF assms(1,2)] by blast
  then have eq: "Some O1 = source_step H g (request_of run x) i (node_owners g i)" using assms(5) by simp
  show ?thesis
    using eq assms(3,4) by (cases "node_owners g i")
      (auto simp: source_step_def join_owners_def leave_owners_def outcome_node_ids_def split: if_splits)
qed

lemma quiet_fold_settles:
  assumes "fold_error (\<lambda>x. import_step H ctx (request_of run x)) outs (stats, g) = Inr (stats', g')"
    and "advances_reported stats' = 0" "store_ok g" "distinct (map fst outs)"
    and "\<forall>x\<in>set outs. i \<in> outcome_node_ids H x \<longrightarrow> rc_nodes_before ctx i = snapshot_node g0 i"
    and "\<forall>x\<in>set outs. source_state_of g (fst x) = source_state_of g0 (fst x)"
    and "\<forall>x\<in>set outs. touches H g0 i x \<longrightarrow> \<not> replayed g0 run x"
    and "\<And>O1. node_owners g i = Some O1 \<Longrightarrow> O1 \<subseteq> B"
    and "\<forall>x\<in>set outs. (i \<in> outcome_node_ids H x \<longrightarrow> fst x \<in> B) \<and> (fst x \<in> B \<longrightarrow> touches H g0 i x)"
    and "snapshot_eq (snapshot_node g0 i) (snapshot_node g i) \<or> (\<exists>x\<in>set outs. i \<in> outcome_node_ids H x)"
  shows "snapshot_eq (snapshot_node g0 i) (snapshot_node g' i)"
  using assms
proof (induction outs arbitrary: stats g)
  case Nil
  then show ?case by simp
next
  case (Cons x outs)
  let ?pending = "\<exists>y\<in>set outs. i \<in> outcome_node_ids H y"
  obtain st g1 where tx: "import_source_tx H (Some ctx) (request_of run x) g = Inr (st, g1)"
    and rest: "fold_error (\<lambda>x. import_step H ctx (request_of run x)) outs (stats @ [st], g1) = Inr (stats', g')"
    using Cons.prems(1) by (auto split: sum.splits simp: import_step_Inr)
  have "\<exists>more. stats' = (stats @ [st]) @ more"
  proof -
    have "\<exists>more. fst (stats', g') = (stats @ [st]) @ more"
    proof (rule fold_error_invar [OF rest])
      show "\<exists>more. fst (stats @ [st], g1) = (stats @ [st]) @ more" by simp
    next
      fix y s s' assume "import_step H ctx (request_of run y) s = Inr s'" "\<exists>more. fst s = (stats @ [st]) @ more"
      then show "\<exists>more. fst s' = (stats @ [st]) @ more"
        by (cases s; cases s') (auto simp: import_step_Inr)
    qed
    then show ?thesis by simp
  qed
  then have quiet: "\<not> st_revision_advanced st" using Cons.prems(2) by (auto split: if_splits)
  have fresh: "fst x \<notin> fst ` set outs" using Cons.prems(4) by simp
  have states: "\<forall>y\<in>set outs. source_state_of g1 (fst y) = source_state_of g0 (fst y)"
  proof
    fix y assume "y \<in> set outs"
    moreover from this have "fst y \<noteq> fst x" using fresh by (metis imageI)
    ultimately show "source_state_of g1 (fst y) = source_state_of g0 (fst y)"
      using source_state_other [OF tx, of "fst y"] Cons.prems(6) by simp
  qed
  have settled: "snapshot_eq (snapshot_node g0 i) (snapshot_node g1 i) \<or> ?pending"
    by (rule quiet_step_settles [OF tx quiet Cons.prems(3)]) (use Cons.prems(5-10) in auto)
  have "O1 \<subseteq> B" if "node_owners g1 i = Some O1" for O1
    by (rule step_owners_subset [OF tx Cons.prems(3) Cons.prems(8) _ that]) (use Cons.prems(9) in auto)
  moreover have "store_ok g1" using import_source_ok [OF tx Cons.prems(3)] by blast
  ultimately show ?case
    using Cons.prems(2,4,5,7,9) states settled by (intro Cons.IH [OF rest]) simp_all
qed

lemma import_all_stats:
  assumes "import_all_sources_tx H expected guard run g = Inr (commit, g')"
  shows "\<exists>g1. reconcile_run H run (cm_removed commit) g = Inr ((cm_per_source commit, cm_removal_stats commit), g1) \<and>
    gs_nodes g' = gs_nodes g1 \<and> gs_revision g' = gs_revision g1"
  using assms
  by (auto simp: write_current_inventory_def import_all_sources_tx_def Let_def split: option.splits if_splits sum.splits)

lemma reconcile_run_revision:
  assumes "reconcile_run H run removed g = Inr ((stats, removal), g')" "gs_revision g = Some n"
  shows "gs_revision g' = Some (n + advances_reported stats + advances_reported removal) \<and>
    advances_reported removal = length removed"
proof -
  let ?ctx = "run_context_of H (dr_outcomes run) removed g"
  obtain g1 where fold: "fold_error (\<lambda>x. import_step H ?ctx (request_of run x)) (dr_outcomes run) ([], pre_merge H (dr_outcomes run) g) = Inr (stats, g1)"
    and rem: "(removal, g') = fold (remove_step (set removed)) removed ([], g1)"
    using assms(1) by (auto simp: reconcile_run_def Let_def split: sum.splits prod.splits)
  have "gs_revision g1 = Some (n + advances_reported stats)"
    by (rule import_fold_revision [OF fold]) (simp add: assms(2))
  then show ?thesis
    using remove_fold_revision [of g1 "n + advances_reported stats" "[]" "set removed" removed] rem [symmetric] by simp
qed

lemma reconcile_run_quiet:
  assumes "reconcile_run H run removed g = Inr ((stats, removal), g')" "advances_reported stats = 0" "removed = []"
    and "store_ok g" "distinct (map fst (dr_outcomes run))"
    and "\<forall>x\<in>set (dr_outcomes run). touches H g i x \<longrightarrow> \<not> replayed g run x"
  shows "snapshot_eq (snapshot_node g i) (snapshot_node g' i)"
proof -
  let ?outs = "dr_outcomes run"
  let ?ctx = "run_context_of H ?outs removed g" and ?g = "pre_merge H ?outs g"
  let ?B = "run_joiners H ?outs i \<union> (case node_owners g i of None \<Rightarrow> {} | Some O1 \<Rightarrow> O1)"
  have fold: "fold_error (\<lambda>x. import_step H ?ctx (request_of run x)) ?outs ([], ?g) = Inr (stats, g')"
    using assms(1,3) by (auto simp: reconcile_run_def Let_def split: sum.splits prod.splits)
  note pre = pre_merge_owners [OF assms(4), of H ?outs]
  have before: "\<forall>x\<in>set ?outs. i \<in> outcome_node_ids H x \<longrightarrow> rc_nodes_before ?ctx i = snapshot_node g i"
    by (auto simp: run_context_of_def snapshot_nodes_def emitted_by_run_def outcome_node_ids_def split_def)
  have B: "\<forall>x\<in>set ?outs. (i \<in> outcome_node_ids H x \<longrightarrow> fst x \<in> ?B) \<and> (fst x \<in> ?B \<longrightarrow> touches H g i x)"
  proof
    fix x assume x: "x \<in> set ?outs"
    have "inj_on fst (set ?outs)" using assms(5) by (simp add: distinct_map)
    then have "fst x \<in> run_joiners H ?outs i \<longleftrightarrow> x \<in> {y \<in> set ?outs. i \<in> outcome_node_ids H y}"
      unfolding run_joiners_def by (intro inj_on_image_mem_iff [OF _ x]) auto
    then have joins: "fst x \<in> run_joiners H ?outs i \<longleftrightarrow> i \<in> outcome_node_ids H x" using x by simp
    show "(i \<in> outcome_node_ids H x \<longrightarrow> fst x \<in> ?B) \<and> (fst x \<in> ?B \<longrightarrow> touches H g i x)"
      by (cases "node_owners g i") (simp_all add: joins touches_def)
  qed
  have owners: "O1 \<subseteq> ?B" if "node_owners ?g i = Some O1" for O1
    using that pre [of i] by (auto simp: join_owners_def split: option.splits if_splits)
  have start: "snapshot_eq (snapshot_node g i) (snapshot_node ?g i) \<or> (\<exists>x\<in>set ?outs. i \<in> outcome_node_ids H x)"
    using pre_merge_other [of ?outs i H g] by (auto simp: snapshot_node_def)
  have states: "\<forall>x\<in>set ?outs. source_state_of ?g (fst x) = source_state_of g (fst x)"
    using pre by (simp add: source_state_of_def)
  show ?thesis
    by (rule quiet_fold_settles [OF fold assms(2) _ assms(5) before states assms(6) owners B start])
      (use pre in simp)
qed

section \<open>Properties\<close>

lemma committed_run_transaction:
  assumes "import_discovery_run H expected guard run g = (g', Inr stats)" "ir_commit stats = Some commit"
  shows "import_all_sources_tx H expected guard run (ensure_revision_singleton g) = Inr (commit, g')"
  using assms
  by (auto simp: import_discovery_run_def Let_def uncommitted_stats_def split: sum.splits import_error.splits if_splits)

text \<open>C5: The revision fence never misses a change.  When a committed run changes any node (its properties or
  its owners, its creation and deletion included), and no source that emits or owned the node merely
  repeated its committed input, at least one source of the run reports an advance and the graph
  revision has grown by exactly the number of sources that do.  The snapshot the sources compare with
  is the one taken before the run pre-merged every source's nodes.\<close>

theorem run_node_change_advances_revision:
  assumes "import_discovery_run H expected guard run g = (g', Inr stats)" "ir_commit stats = Some commit"
    and "store_ok g" "distinct (map fst (dr_outcomes run))"
    and "\<forall>x\<in>set (dr_outcomes run). touches H g i x \<longrightarrow> \<not> replayed g run x"
    and "\<not> snapshot_eq (snapshot_node g i) (snapshot_node g' i)"
  defines "reported \<equiv> advances_reported (cm_per_source commit @ cm_removal_stats commit)"
  shows "0 < reported \<and>
    gs_revision g' = Some ((case gs_revision g of None \<Rightarrow> 0 | Some n \<Rightarrow> n) + reported)"
proof -
  let ?g = "ensure_revision_singleton g" and ?n = "case gs_revision g of None \<Rightarrow> 0 | Some n \<Rightarrow> n"
  obtain g1 where r: "reconcile_run H run (cm_removed commit) ?g = Inr ((cm_per_source commit, cm_removal_stats commit), g1)"
    and g': "gs_nodes g' = gs_nodes g1" "gs_revision g' = gs_revision g1"
    using import_all_stats [OF committed_run_transaction [OF assms(1,2)]] by blast
  have same: "store_ok ?g" "touches H ?g i x = touches H g i x" "replayed ?g run x = replayed g run x"
    "snapshot_node ?g i = snapshot_node g i" for x
    using assms(3) by (simp_all add: ensure_revision_singleton_def store_ok_def touches_def node_owners_def replayed_def
        replay_decision_of_def source_state_of_def snapshot_node_def)
  have "gs_revision ?g = Some ?n" by (simp add: ensure_revision_singleton_def split: option.split)
  note rev = reconcile_run_revision [OF r this]
  have last: "gs_revision g' = gs_revision g1" "snapshot_node g' i = snapshot_node g1 i"
    by (simp_all add: g' snapshot_node_def)
  have "0 < reported"
  proof (rule ccontr)
    assume "\<not> 0 < reported"
    then have "advances_reported (cm_per_source commit) = 0" "cm_removed commit = []"
      using rev by (simp_all add: reported_def)
    then have "snapshot_eq (snapshot_node ?g i) (snapshot_node g1 i)"
      using reconcile_run_quiet [OF r _ _ same(1) assms(4)] assms(5) same(2,3) by blast
    then show False using assms(6) same(4) last(2) by simp
  qed
  then show ?thesis using rev last(1) by (simp add: reported_def add.assoc)
qed

lemma run_node_change_advances_revision_witness:
  "\<exists>g'. fst (import_discovery_run (\<lambda>b. b) NotSupplied None sample_import sample_store) = g' \<and>
     (\<exists>n > 0. gs_revision g' = Some n)"
proof -
  obtain g' stats where run: "import_discovery_run (\<lambda>b. b) NotSupplied None sample_import sample_store = (g', Inr stats)"
    "ir_committed stats"
    using sample_run_commits by blast
  then obtain commit where commit: "ir_commit stats = Some commit"
    by (auto simp: import_discovery_run_def Let_def uncommitted_stats_def split: sum.splits import_error.splits if_splits)
  note tx = committed_run_transaction [OF run(1) commit]
  have start: "ensure_revision_singleton sample_store = sample_store"
    by (simp add: ensure_revision_singleton_def sample_store_def)
  obtain g1 where r: "reconcile_run (\<lambda>b. b) sample_import (cm_removed commit) sample_store =
      Inr ((cm_per_source commit, cm_removal_stats commit), g1)"
    and g': "gs_nodes g' = gs_nodes g1"
    using import_all_stats [OF tx] start by auto
  have "node_owners g1 ''old'' = None"
    using reconcile_run_owners [OF r sample_store_ok, of "''old''"] by (simp add: sample_owners leave_owners_def)
  then have "snapshot_node g' ''old'' = None" by (simp add: g' node_owners_def snapshot_node_def)
  moreover have "snapshot_node sample_store ''old'' \<noteq> None" by (simp add: snapshot_node_def sample_store_def)
  ultimately have changed: "\<not> snapshot_eq (snapshot_node sample_store ''old'') (snapshot_node g' ''old'')"
    by (simp add: snapshot_eq_def split: option.splits)
  have "\<forall>x\<in>set (dr_outcomes sample_import). touches (\<lambda>b. b) sample_store ''old'' x \<longrightarrow> \<not> replayed sample_store sample_import x"
  proof -
    have "set (dr_outcomes sample_import) = {hd (dr_outcomes sample_import)}" by (simp add: sample_import_def)
    then show ?thesis using sample_decision [OF refl] by (simp add: replayed_def)
  qed
  from run_node_change_advances_revision [OF run(1) commit sample_store_ok this changed]
  show ?thesis using run(1) by (auto simp: sample_store_def)
qed

end
