(* ===== verification/GraphRemovals.thy ===== *)
theory GraphRemovals
  imports GraphOwnership
begin

text \<open>
  Which sources a committed run removes (\<open>graph/importer.py\<close>, \<open>_import_all_sources_tx\<close>; the
  decision itself is \<open>authorize_source_removal\<close> of \<open>sources/inventory.py\<close>).  A tombstone is checked
  against the scope digest of the committed inventory, an enumeration against the digest the absent
  source was last committed under.
\<close>

section \<open>The verdict on a target\<close>

definition last_of :: "'a list \<Rightarrow> 'a option" where
  "last_of xs = (if xs = [] then None else Some (last xs))"

text \<open>The tombstone that counts for a target is the last one presented for it.\<close>

definition last_tombstone :: "inventory_snapshot \<Rightarrow> string \<Rightarrow> tombstone option" where
  "last_tombstone snapshot s =
     last_of (filter (\<lambda>t. ts_target_source_instance_id t = s) (in_tombstones snapshot))"

text \<open>It names the scope of the run and the digest and revision of the scope's committed inventory.\<close>

definition tombstoned :: "discovery_run_result \<Rightarrow> graph_store \<Rightarrow> string \<Rightarrow> bool" where
  "tombstoned run g s \<longleftrightarrow> (\<exists>scope snapshot t. dr_scope_id run = Some scope \<and> dr_snapshot run = Some snapshot \<and>
     last_tombstone snapshot s = Some t \<and> ts_discovery_scope_id t = scope \<and>
     ci_inventory_revision (current_inventory_of g scope) = Some (ts_expected_prior_inventory_revision t) \<and>
     ci_scope_definition_digest (current_inventory_of g scope) = Some (ts_scope_definition_digest t))"

lemma validation_of_last:
  "validation_of vs s = map_option snd (last_of (filter (\<lambda>x. ts_target_source_instance_id (fst x) = s) vs))"
proof (induction vs rule: rev_induct)
  case Nil
  then show ?case by (simp add: validation_of_def last_of_def)
next
  case (snoc x vs)
  obtain t v where x: "x = (t, v)" by (cases x)
  show ?case
  proof (cases "ts_target_source_instance_id t = s")
    case True
    then show ?thesis by (simp add: validation_of_def last_of_def x)
  next
    case False
    then show ?thesis using snoc by (simp add: validation_of_def x)
  qed
qed

lemma validate_tombstones_Inr:
  assumes "validate_tombstones cs cd cr ts = Inr vs"
  shows "map fst vs = ts \<and> (\<forall>x\<in>set vs. validate_tombstone (fst x) cs cd cr = Inr (snd x))"
proof -
  have none: "\<forall>t\<in>set ts. \<exists>v. validate_tombstone t cs cd cr = Inr v"
  proof
    fix t assume "t \<in> set ts"
    moreover have "filter (\<lambda>t. case validate_tombstone t cs cd cr of Inl _ \<Rightarrow> True | Inr _ \<Rightarrow> False) ts = []"
      using assms by (simp add: validate_tombstones_def split: list.splits)
    ultimately show "\<exists>v. validate_tombstone t cs cd cr = Inr v"
      unfolding filter_empty_conv by (cases "validate_tombstone t cs cd cr") auto
  qed
  have vs: "vs = concat (map (\<lambda>t. case validate_tombstone t cs cd cr of Inl _ \<Rightarrow> [] | Inr v \<Rightarrow> [(t, v)]) ts)"
    using assms by (simp add: validate_tombstones_def split: list.splits)
  have "map fst (concat (map (\<lambda>t. case validate_tombstone t cs cd cr of Inl _ \<Rightarrow> [] | Inr v \<Rightarrow> [(t, v)]) ts)) = ts"
    using none by (induction ts) auto
  then show ?thesis unfolding vs by (auto split: sum.splits)
qed

lemma accepted_target:
  assumes "validate_tombstones cs cd cr ts = Inr vs"
  shows "(\<exists>v. validation_of vs s = Some v \<and> tv_accepted v) \<longleftrightarrow>
    (\<exists>t. last_of (filter (\<lambda>t. ts_target_source_instance_id t = s) ts) = Some t \<and>
       cs = Some (ts_discovery_scope_id t) \<and> cd = Some (ts_scope_definition_digest t) \<and>
       cr = Some (ts_expected_prior_inventory_revision t))"
proof -
  let ?of = "filter (\<lambda>x. ts_target_source_instance_id (fst x) = s) vs"
  note vs = validate_tombstones_Inr [OF assms]
  have ts: "filter (\<lambda>t. ts_target_source_instance_id t = s) ts = map fst ?of"
    using vs by (metis (no_types, lifting) comp_apply filter_cong filter_map)
  show ?thesis
  proof (cases "?of = []")
    case True
    then show ?thesis by (simp add: validation_of_last last_of_def ts)
  next
    case False
    obtain t v where last: "last ?of = (t, v)" by (cases "last ?of")
    have "(t, v) \<in> set vs" using last_in_set [OF False] last by simp
    then have valid: "validate_tombstone t cs cd cr = Inr v" using vs by auto
    have "validation_of vs s = Some v" using False last by (simp add: validation_of_last last_of_def)
    moreover have "last_of (map fst ?of) = Some t"
      using False last last_map [OF False, of fst] by (simp add: last_of_def)
    moreover have "tv_accepted v \<longleftrightarrow> cs = Some (ts_discovery_scope_id t) \<and> cd = Some (ts_scope_definition_digest t) \<and>
        cr = Some (ts_expected_prior_inventory_revision t)"
      using validate_tombstone_accepted_iff [of t cs cd cr] valid by simp
    ultimately show ?thesis unfolding ts by simp
  qed
qed

lemma import_all_removed:
  assumes "import_all_sources_tx H expected guard run g = Inr (commit, g')"
  obtains scope snapshot vs where "dr_scope_id run = Some scope" "dr_snapshot run = Some snapshot"
    "validate_tombstones (if ci_inventory_revision (current_inventory_of g scope) = None then None else Some scope)
       (ci_scope_definition_digest (current_inventory_of g scope)) (ci_inventory_revision (current_inventory_of g scope))
       (in_tombstones snapshot) = Inr vs"
    "cm_removed commit = removed_sources run
       (if ci_inventory_revision (current_inventory_of g scope) = None then None else Some scope) vs g"
  using assms unfolding import_all_sources_tx_def Let_def
  by (auto split: option.splits sum.splits if_splits)

section \<open>Properties\<close>

text \<open>C6: A committed run removes exactly the sources it has authority over.  They are sources last committed under
  the run's own scope and absent from the run, the run is COMPLETE, and either the last tombstone presented for
  the source names the run's scope and the digest and revision of the scope's committed inventory, or, with or
  without a tombstone, the scope has a committed inventory and the digest the source itself was committed under
  is the digest of the run.\<close>

theorem run_removes_exactly:
  assumes "import_all_sources_tx H expected guard run g = Inr (commit, g')"
  shows "s \<in> set (cm_removed commit) \<longleftrightarrow>
    dr_status run = COMPLETE \<and> s \<notin> fst ` set (dr_outcomes run) \<and>
    (\<exists>scope st. dr_scope_id run = Some scope \<and> (s, st) \<in> set (gs_sources g) \<and> ss_discovery_scope_id st = Some scope \<and>
       (tombstoned run g s \<or>
        (ci_inventory_revision (current_inventory_of g scope) \<noteq> None \<and>
         ss_scope_definition_digest st \<noteq> None \<and> ss_scope_definition_digest st = dr_scope_digest run)))"
proof -
  obtain scope snapshot vs where r: "dr_scope_id run = Some scope" "dr_snapshot run = Some snapshot"
    "validate_tombstones (if ci_inventory_revision (current_inventory_of g scope) = None then None else Some scope)
       (ci_scope_definition_digest (current_inventory_of g scope)) (ci_inventory_revision (current_inventory_of g scope))
       (in_tombstones snapshot) = Inr vs"
    "cm_removed commit = removed_sources run
       (if ci_inventory_revision (current_inventory_of g scope) = None then None else Some scope) vs g"
    using assms by (rule import_all_removed)
  let ?cs = "if ci_inventory_revision (current_inventory_of g scope) = None then None else Some scope"
  have stone: "(\<exists>v. validation_of vs s = Some v \<and> tv_accepted v) \<longleftrightarrow> tombstoned run g s"
    unfolding accepted_target [OF r(3)] tombstoned_def last_tombstone_def
    by (auto simp: r(1,2) split: if_splits)
  have "s \<in> set (cm_removed commit) \<longleftrightarrow> dr_status run = COMPLETE \<and> s \<notin> fst ` set (dr_outcomes run) \<and>
      (\<exists>st. (s, st) \<in> set (gs_sources g) \<and> ss_discovery_scope_id st = Some scope \<and>
         rd_authorized (authorize_source_removal (validation_of vs s) COMPLETE
           (Some scope, dr_scope_digest run) (?cs, ss_scope_definition_digest st) True))"
    unfolding r(4) removed_sources_def by (auto simp: r(1) image_iff)
  then show ?thesis unfolding removal_authority stone by (auto simp: r(1))
qed

section \<open>A small removal\<close>

text \<open>Source \<open>b\<close> was committed under the run's scope and digest and is no longer enumerated.\<close>

definition removal_store :: graph_store where
  "removal_store = sample_store\<lparr>gs_sources := gs_sources sample_store @ [(''b'', \<lparr>ss_semantic_input_digest = Some ''d1'',
       ss_scope_definition_digest = Some ''x'', ss_discovery_scope_id = Some ''c'', ss_capture = None\<rparr>)],
     gs_inventories := [(''c'', \<lparr>ci_inventory_revision = Some ''r0'', ci_inventory_capture_id = Some ''k0'',
       ci_inventory_event_id = Some ''e0'', ci_scope_definition_digest = Some ''x''\<rparr>)]\<rparr>"

lemma removal_commits:
  "\<exists>commit g'. import_all_sources_tx (\<lambda>b. b) NotSupplied None sample_import removal_store = Inr (commit, g')"
proof -
  let ?x = "hd (dr_outcomes sample_import)"
  let ?removed = "removed_sources sample_import (Some ''c'') [] removal_store"
  let ?ctx = "run_context_of (\<lambda>b. b) (dr_outcomes sample_import) ?removed removal_store"
  let ?g = "pre_merge (\<lambda>b. b) (dr_outcomes sample_import) removal_store"
  have outs: "dr_outcomes sample_import = [?x]" "ao_model (so_outcome (snd ?x)) = sample_model"
    by (simp_all add: sample_import_def)
  have ok: "store_ok removal_store" using sample_store_ok(1) by (simp add: removal_store_def store_ok_def)
  have "gs_sources ?g = gs_sources removal_store" using pre_merge_owners [OF ok] by blast
  then have "replay_decision_of (request_of sample_import ?x) ?g =
      Inr \<lparr>rp_case = RECONCILE_SAME_SCOPE_CHANGED_SEMANTIC_DIGEST, rp_advance_possible = True\<rparr>"
    by (simp add: replay_decision_of_def source_state_of_def request_of_def sample_import_def sample_store_def
      removal_store_def classify_replay_case_def Let_def)
  then obtain st g1 where "import_source_tx (\<lambda>b. b) (Some ?ctx) (request_of sample_import ?x) ?g = Inr (st, g1)"
    using import_source_succeeds sample_relations_known outs(2) by fastforce
  then have "fold_error (\<lambda>x. import_step (\<lambda>b. b) ?ctx (request_of sample_import x)) [?x] ([], ?g) = Inr ([st], g1)"
    by (simp add: import_step_def)
  moreover obtain gone g2 where "fold (remove_step (set ?removed)) ?removed ([], g1) = (gone, g2)"
    by (cases "fold (remove_step (set ?removed)) ?removed ([], g1)")
  ultimately have "reconcile_run (\<lambda>b. b) sample_import ?removed removal_store = Inr (([st], gone), g2)"
    using outs(1) by (simp add: reconcile_run_def Let_def)
  moreover have "dr_scope_id sample_import = Some ''c''"
      "\<exists>s. dr_snapshot sample_import = Some s \<and> in_tombstones s = []"
      "ci_inventory_revision (current_inventory_of removal_store ''c'') = Some ''r0''"
    by (auto simp: sample_import_def current_inventory_of_def removal_store_def)
  ultimately show ?thesis
    by (auto simp: import_all_sources_tx_def Let_def validate_tombstones_def)
qed

lemma run_removes_exactly_witness:
  "\<exists>commit g'. import_all_sources_tx (\<lambda>b. b) NotSupplied None sample_import removal_store = Inr (commit, g') \<and>
     ''b'' \<in> set (cm_removed commit) \<and> ''a'' \<notin> set (cm_removed commit)"
proof -
  obtain commit g' where c: "import_all_sources_tx (\<lambda>b. b) NotSupplied None sample_import removal_store = Inr (commit, g')"
    using removal_commits by blast
  have run: "dr_status sample_import = COMPLETE" "fst ` set (dr_outcomes sample_import) = {''a''}"
    "dr_scope_id sample_import = Some ''c''" "dr_scope_digest sample_import = Some ''x''"
    by (simp_all add: sample_import_def)
  have "''b'' \<in> set (cm_removed commit)"
    unfolding run_removes_exactly [OF c] run by (auto simp: removal_store_def current_inventory_of_def)
  moreover have "''a'' \<notin> set (cm_removed commit)" unfolding run_removes_exactly [OF c] run by simp
  ultimately show ?thesis using c by blast
qed

end
