(* ===== verification/DiscoveryOutcomes.thy ===== *)
theory DiscoveryOutcomes
  imports Discovery
begin

text \<open>
  What \<open>run_discovery\<close> (\<open>ingestion/orchestrator.py\<close>) reports of each source.  The loop over
  dependency phases is described by the outcome each source gets: the value of the one adapter that
  claims it, on that source, with the merged models of the sources of the earlier phases as upstream.
\<close>

section \<open>The outcome of one source\<close>

text \<open>What an adapter makes of a source, an integer outside the canonical domain included.\<close>

definition adapter_result ::
  "'d adapter \<Rightarrow> pointer_binding list \<Rightarrow> architecture_model \<Rightarrow> string \<Rightarrow> 'd loaded_source \<Rightarrow> source_run_outcome" where
  "adapter_result a bindings upstream digest l =
     \<lparr>so_locator = sd_locator (ls_descriptor l),
      so_outcome = (case ad_map a (enrich a l) bindings upstream digest of
        Inl p \<Rightarrow> rejected_for_integer_domain (enrich a l) p | Inr outcome \<Rightarrow> outcome),
      so_descriptor = Some (ls_descriptor (enrich a l))\<rparr>"

definition claimed_in :: "'d adapter list \<Rightarrow> int \<Rightarrow> 'd loaded_source \<Rightarrow> bool" where
  "claimed_in adapters phase l \<longleftrightarrow> (case adapter_for adapters l of
     Inr (Some a) \<Rightarrow> ad_dependency_phase a = phase | _ \<Rightarrow> False)"

definition phase_outcomes ::
  "'d adapter list \<Rightarrow> pointer_binding list \<Rightarrow> string \<Rightarrow> int \<Rightarrow> architecture_model \<Rightarrow> 'd loaded_source list \<Rightarrow> source_outcomes" where
  "phase_outcomes adapters bindings digest phase upstream sources =
     concat (map (\<lambda>l. case adapter_for adapters l of
       Inr (Some a) \<Rightarrow> (if ad_dependency_phase a = phase
         then [(source_id_of l, adapter_result a bindings upstream digest l)] else [])
     | _ \<Rightarrow> []) sources)"

text \<open>The model a phase sees: everything the sources of the earlier phases emitted, merged.\<close>

fun upstream_of ::
  "(bytes \<Rightarrow> string) \<Rightarrow> 'd adapter list \<Rightarrow> pointer_binding list \<Rightarrow> string \<Rightarrow> 'd loaded_source list \<Rightarrow> int list
     \<Rightarrow> architecture_model \<Rightarrow> int \<Rightarrow> architecture_model" where
  "upstream_of H adapters bindings digest sources [] upstream phase = upstream"
| "upstream_of H adapters bindings digest sources (p # ps) upstream phase =
     (if p = phase then upstream
      else upstream_of H adapters bindings digest sources ps
        (merge_models H (upstream # outcome_models (phase_outcomes adapters bindings digest p upstream sources))) phase)"

definition expected_outcome ::
  "(bytes \<Rightarrow> string) \<Rightarrow> 'd adapter list \<Rightarrow> pointer_binding list \<Rightarrow> string \<Rightarrow> 'd loaded_source list \<Rightarrow> 'd loaded_source
     \<Rightarrow> source_run_outcome" where
  "expected_outcome H adapters bindings digest sources l =
     (case adapter_for adapters l of
        Inr (Some a) \<Rightarrow> adapter_result a bindings
          (upstream_of H adapters bindings digest sources (phases adapters) empty_model (ad_dependency_phase a)) digest l
      | _ \<Rightarrow> unmatched_outcome l)"

section \<open>One phase\<close>

abbreviation outcome_keys :: "map_state \<Rightarrow> string set" where
  "outcome_keys st \<equiv> fst ` set (ms_outcomes st)"

lemma map_one_cases:
  assumes "map_one adapters bs dg phase up l st = Inr st'"
    and "claimed_in adapters phase l \<Longrightarrow> source_id_of l \<notin> outcome_keys st"
  shows "ms_outcomes st' = ms_outcomes st @ phase_outcomes adapters bs dg phase up [l] \<and>
    ms_models st' = ms_models st @ outcome_models (phase_outcomes adapters bs dg phase up [l]) \<and>
    (source_id_of l \<notin> outcome_keys st \<longrightarrow> (\<exists>r. adapter_for adapters l = Inr r))"
proof (cases "source_id_of l \<in> outcome_keys st")
  case True
  then have "\<not> claimed_in adapters phase l" "st' = st" using assms by (auto simp: map_one_def)
  then show ?thesis using True
    by (auto simp: phase_outcomes_def outcome_models_def claimed_in_def split: sum.splits option.splits)
next
  case False
  show ?thesis
  proof (cases "adapter_for adapters l")
    case (Inl e)
    then show ?thesis using assms(1) False by (simp add: map_one_def)
  next
    case (Inr r)
    then show ?thesis using assms(1) False
      by (cases r) (auto simp: map_one_def phase_outcomes_def outcome_models_def claimed_in_def
          adapter_result_def Let_def split: if_splits)
  qed
qed

lemma phase_outcomes_Cons:
  "phase_outcomes adapters bs dg phase up (l # ls) =
     phase_outcomes adapters bs dg phase up [l] @ phase_outcomes adapters bs dg phase up ls"
  by (simp add: phase_outcomes_def)

lemma phase_outcome_ids:
  "map fst (phase_outcomes adapters bs dg phase up ls) = map source_id_of (filter (claimed_in adapters phase) ls)"
  by (induction ls) (auto simp: phase_outcomes_def claimed_in_def split: sum.split option.split)

lemma phase_outcome_keys:
  "fst ` set (phase_outcomes adapters bs dg phase up ls) = source_id_of ` {l \<in> set ls. claimed_in adapters phase l}"
proof -
  have "map fst (phase_outcomes adapters bs dg phase up ls) = map source_id_of (filter (claimed_in adapters phase) ls)"
    by (rule phase_outcome_ids)
  then have "fst ` set (phase_outcomes adapters bs dg phase up ls) = source_id_of ` set (filter (claimed_in adapters phase) ls)"
    by (metis list.set_map)
  then show ?thesis by simp
qed

lemma outcome_models_append [simp]: "outcome_models (xs @ ys) = outcome_models xs @ outcome_models ys"
  by (simp add: outcome_models_def)

lemma phase_fold:
  assumes "fold_error (map_one adapters bs dg phase up) ls st = Inr st'" "distinct (map source_id_of ls)"
    and "\<forall>l\<in>set ls. claimed_in adapters phase l \<longrightarrow> source_id_of l \<notin> outcome_keys st"
  shows "ms_outcomes st' = ms_outcomes st @ phase_outcomes adapters bs dg phase up ls \<and>
    ms_models st' = ms_models st @ outcome_models (phase_outcomes adapters bs dg phase up ls) \<and>
    (\<forall>l\<in>set ls. source_id_of l \<notin> outcome_keys st \<longrightarrow> (\<exists>r. adapter_for adapters l = Inr r))"
  using assms
proof (induction ls arbitrary: st)
  case Nil
  then show ?case by (simp add: phase_outcomes_def outcome_models_def)
next
  case (Cons l ls)
  obtain s where s: "map_one adapters bs dg phase up l st = Inr s" "fold_error (map_one adapters bs dg phase up) ls s = Inr st'"
    using Cons.prems(1) by (auto split: sum.splits)
  have "claimed_in adapters phase l \<Longrightarrow> source_id_of l \<notin> outcome_keys st" using Cons.prems(3) by simp
  note first = map_one_cases [OF s(1) this]
  have keys: "outcome_keys s \<subseteq> insert (source_id_of l) (outcome_keys st)"
    using first phase_outcome_keys [of adapters bs dg phase up "[l]"] by (auto simp: image_Un)
  have fresh: "source_id_of l \<notin> source_id_of ` set ls" using Cons.prems(2) by simp
  have other: "source_id_of m \<notin> outcome_keys s" if "m \<in> set ls" "source_id_of m \<notin> outcome_keys st" for m
  proof -
    have "source_id_of m \<noteq> source_id_of l" using fresh that(1) by (metis imageI)
    then show ?thesis using keys that(2) by blast
  qed
  have "\<forall>m\<in>set ls. claimed_in adapters phase m \<longrightarrow> source_id_of m \<notin> outcome_keys s"
    using Cons.prems(3) other by simp
  moreover have "distinct (map source_id_of ls)" using Cons.prems(2) by simp
  ultimately have rest: "ms_outcomes st' = ms_outcomes s @ phase_outcomes adapters bs dg phase up ls \<and>
    ms_models st' = ms_models s @ outcome_models (phase_outcomes adapters bs dg phase up ls) \<and>
    (\<forall>m\<in>set ls. source_id_of m \<notin> outcome_keys s \<longrightarrow> (\<exists>r. adapter_for adapters m = Inr r))"
    using Cons.IH [OF s(2)] by blast
  show ?case
    using first rest other by (simp add: phase_outcomes_Cons [of _ _ _ _ _ l ls])
qed

section \<open>All phases\<close>

fun phased_outcomes ::
  "(bytes \<Rightarrow> string) \<Rightarrow> 'd adapter list \<Rightarrow> pointer_binding list \<Rightarrow> string \<Rightarrow> 'd loaded_source list \<Rightarrow> int list
     \<Rightarrow> architecture_model \<Rightarrow> source_outcomes" where
  "phased_outcomes H adapters bs dg sources [] up = []"
| "phased_outcomes H adapters bs dg sources (p # ps) up =
     phase_outcomes adapters bs dg p up sources @
     phased_outcomes H adapters bs dg sources ps
       (merge_models H (up # outcome_models (phase_outcomes adapters bs dg p up sources)))"

lemma same_source: "distinct (map source_id_of sources) \<Longrightarrow> l \<in> set sources \<Longrightarrow> m \<in> set sources \<Longrightarrow>
    source_id_of l = source_id_of m \<Longrightarrow> l = m"
  by (simp add: distinct_map inj_on_def)

lemma claimed_once: "claimed_in adapters p l \<Longrightarrow> claimed_in adapters q l \<Longrightarrow> p = q"
  by (auto simp: claimed_in_def split: sum.splits option.splits)

lemma map_phases_outcomes:
  assumes "map_phases H adapters bs dg sources ps up st = Inr st'" "distinct (map source_id_of sources)" "distinct ps"
    and "\<forall>p\<in>set ps. \<forall>l\<in>set sources. claimed_in adapters p l \<longrightarrow> source_id_of l \<notin> outcome_keys st"
  shows "ms_outcomes st' = ms_outcomes st @ phased_outcomes H adapters bs dg sources ps up \<and>
    (ps \<noteq> [] \<longrightarrow> (\<forall>l\<in>set sources. source_id_of l \<notin> outcome_keys st \<longrightarrow> (\<exists>r. adapter_for adapters l = Inr r)))"
  using assms
proof (induction ps arbitrary: up st)
  case Nil
  then show ?case by simp
next
  case (Cons p ps)
  let ?os = "phase_outcomes adapters bs dg p up sources"
  obtain s where s: "fold_error (map_one adapters bs dg p up) sources (st\<lparr>ms_models := []\<rparr>) = Inr s"
    and rest: "map_phases H adapters bs dg sources ps (merge_models H (up # ms_models s)) s = Inr st'"
    using Cons.prems(1) by (auto split: sum.splits)
  have first: "ms_outcomes s = ms_outcomes st @ ?os" "ms_models s = outcome_models ?os"
    "\<forall>l\<in>set sources. source_id_of l \<notin> outcome_keys st \<longrightarrow> (\<exists>r. adapter_for adapters l = Inr r)"
    using phase_fold [OF s Cons.prems(2)] Cons.prems(4) by simp_all
  have "source_id_of l \<notin> outcome_keys s" if q: "q \<in> set ps" "l \<in> set sources" "claimed_in adapters q l" for q l
  proof
    assume "source_id_of l \<in> outcome_keys s"
    moreover have "source_id_of l \<notin> outcome_keys st" using Cons.prems(4) q by simp
    ultimately have "source_id_of l \<in> fst ` set ?os" by (simp add: first(1) image_Un)
    then obtain m where m: "m \<in> set sources" "claimed_in adapters p m" "source_id_of l = source_id_of m"
      unfolding phase_outcome_keys by auto
    have "l = m" by (rule same_source [OF Cons.prems(2) q(2) m(1,3)])
    then have "p = q" using m(2) q(3) claimed_once by blast
    then show False using Cons.prems(3) q(1) by simp
  qed
  then have "ms_outcomes st' = ms_outcomes s @ phased_outcomes H adapters bs dg sources ps (merge_models H (up # ms_models s))"
    using Cons.IH [OF rest Cons.prems(2)] Cons.prems(3) by simp
  then show ?case using first by simp
qed

lemma phased_keys:
  "fst ` set (phased_outcomes H adapters bs dg sources ps up) =
     source_id_of ` {l \<in> set sources. \<exists>p\<in>set ps. claimed_in adapters p l}"
  by (induction ps arbitrary: up) (auto simp: phase_outcome_keys image_Un)

lemma phased_distinct:
  assumes "distinct (map source_id_of sources)" "distinct ps"
  shows "distinct (map fst (phased_outcomes H adapters bs dg sources ps up))"
  using assms(2)
proof (induction ps arbitrary: up)
  case Nil
  then show ?case by simp
next
  case (Cons p ps)
  have "distinct (map fst (phase_outcomes adapters bs dg p up sources))"
    using assms(1) by (simp add: phase_outcome_ids distinct_map_filter)
  moreover have "fst ` set (phase_outcomes adapters bs dg p up sources) \<inter>
      fst ` set (phased_outcomes H adapters bs dg sources ps up') = {}" for up'
  proof (rule Int_emptyI)
    fix k assume "k \<in> fst ` set (phase_outcomes adapters bs dg p up sources)"
      and "k \<in> fst ` set (phased_outcomes H adapters bs dg sources ps up')"
    then obtain l m q where lm: "l \<in> set sources" "claimed_in adapters p l" "k = source_id_of l"
      "m \<in> set sources" "q \<in> set ps" "claimed_in adapters q m" "k = source_id_of m"
      unfolding phase_outcome_keys phased_keys by blast
    have "l = m" by (rule same_source [OF assms(1) lm(1,4)]) (simp add: lm(3) [symmetric] lm(7))
    then have "p = q" using claimed_once [OF lm(2)] lm(6) by blast
    then show False using Cons.prems lm(5) by simp
  qed
  ultimately show ?case using Cons by simp
qed

lemma phased_member:
  assumes "l \<in> set sources" "adapter_for adapters l = Inr (Some a)" "ad_dependency_phase a \<in> set ps"
  shows "(source_id_of l, adapter_result a bs (upstream_of H adapters bs dg sources ps up (ad_dependency_phase a)) dg l)
    \<in> set (phased_outcomes H adapters bs dg sources ps up)"
  using assms(3)
proof (induction ps arbitrary: up)
  case Nil
  then show ?case by simp
next
  case (Cons p ps)
  show ?case
  proof (cases "p = ad_dependency_phase a")
    case True
    then show ?thesis using assms(1,2) by (force simp: phase_outcomes_def)
  next
    case False
    then show ?thesis using Cons by simp
  qed
qed

section \<open>The sources no adapter claims\<close>

lemma fold_unmatched:
  assumes "distinct (map source_id_of ls)"
  shows "ms_outcomes (fold add_unmatched ls st) = ms_outcomes st @
    map (\<lambda>l. (source_id_of l, unmatched_outcome l)) (filter (\<lambda>l. source_id_of l \<notin> outcome_keys st) ls)"
  using assms
proof (induction ls arbitrary: st)
  case Nil
  then show ?case by simp
next
  case (Cons l ls)
  show ?case
  proof (cases "source_id_of l \<in> outcome_keys st")
    case True
    then show ?thesis using Cons by (simp add: add_unmatched_def)
  next
    case False
    have "filter (\<lambda>m. source_id_of m \<notin> outcome_keys (add_unmatched l st)) ls = filter (\<lambda>m. source_id_of m \<notin> outcome_keys st) ls"
      using Cons.prems False by (intro filter_cong refl) (auto simp: add_unmatched_def rev_image_eqI)
    then show ?thesis using Cons False by (simp add: add_unmatched_def)
  qed
qed

lemma adapter_for_mem: "adapter_for adapters l = Inr (Some a) \<Longrightarrow> a \<in> set adapters"
  by (auto simp: adapter_for_def Let_def filter_eq_Cons_iff split: if_splits list.splits)

lemma adapter_for_phase: "adapter_for adapters l = Inr (Some a) \<Longrightarrow> ad_dependency_phase a \<in> set (phases adapters)"
  by (auto simp: phases_def dest: adapter_for_mem)

lemma adapter_for_ambiguous: "adapter_for adapters l = Inl e \<Longrightarrow> phases adapters \<noteq> []"
  by (auto simp: phases_def adapter_for_def Let_def split: if_splits)

lemma map_sources_outcomes:
  assumes "map_sources H adapters bs dg sources ds = Inr (os, ds')" "distinct (map source_id_of sources)"
  shows "distinct (map fst os)" "fst ` set os = source_id_of ` set sources"
    "\<forall>l\<in>set sources. (source_id_of l, expected_outcome H adapters bs dg sources l) \<in> set os"
proof -
  let ?init = "\<lparr>ms_outcomes = [], ms_models = [], ms_diagnostics = ds\<rparr>"
  let ?ph = "phased_outcomes H adapters bs dg sources (phases adapters) empty_model"
  obtain st where st: "map_phases H adapters bs dg sources (phases adapters) empty_model ?init = Inr st"
    and os: "os = ms_outcomes (fold add_unmatched sources st)"
    using assms(1) by (auto simp: map_sources_def Let_def split: sum.splits)
  have dist: "distinct (phases adapters)" by (simp add: phases_def sorted_set_def)
  have mapped: "ms_outcomes st = ?ph"
    "phases adapters \<noteq> [] \<longrightarrow> (\<forall>l\<in>set sources. \<exists>r. adapter_for adapters l = Inr r)"
    using map_phases_outcomes [OF st assms(2) dist] by simp_all
  define left where "left = filter (\<lambda>l. source_id_of l \<notin> fst ` set ?ph) sources"
  have os: "os = ?ph @ map (\<lambda>l. (source_id_of l, unmatched_outcome l)) left"
    unfolding os fold_unmatched [OF assms(2)] mapped(1) left_def ..
  have "distinct (map source_id_of left)" using assms(2) by (simp add: left_def distinct_map_filter)
  moreover have "fst ` set ?ph \<inter> source_id_of ` set left = {}"
  proof (rule Int_emptyI)
    fix k assume "k \<in> fst ` set ?ph" "k \<in> source_id_of ` set left"
    then show False by (elim imageE [where b = k and A = "set left"]) (simp add: left_def)
  qed
  ultimately show "distinct (map fst os)"
    using phased_distinct [OF assms(2) dist, of H adapters bs dg empty_model] by (simp add: os comp_def)
  have "fst ` set os = fst ` set ?ph \<union> source_id_of ` set left" by (simp add: os image_Un image_image)
  also have "\<dots> = source_id_of ` set sources"
    unfolding left_def phased_keys by auto
  finally show "fst ` set os = source_id_of ` set sources" .
  show "\<forall>l\<in>set sources. (source_id_of l, expected_outcome H adapters bs dg sources l) \<in> set os"
  proof
    fix l assume l: "l \<in> set sources"
    show "(source_id_of l, expected_outcome H adapters bs dg sources l) \<in> set os"
    proof (cases "\<exists>a. adapter_for adapters l = Inr (Some a)")
      case True
      then obtain a where a: "adapter_for adapters l = Inr (Some a)" ..
      show ?thesis using phased_member [OF l a adapter_for_phase [OF a], of bs H dg empty_model]
        by (simp add: os expected_outcome_def a)
    next
      case False
      have "\<not> claimed_in adapters p m" if "m \<in> set sources" "source_id_of m = source_id_of l" for m p
        using same_source [OF assms(2) that(1) l that(2)] False by (auto simp: claimed_in_def split: sum.splits option.splits)
      then have "source_id_of l \<notin> fst ` set ?ph" unfolding phased_keys by force
      then have "(source_id_of l, unmatched_outcome l) \<in> set os" using l by (auto simp: os left_def)
      moreover have "expected_outcome H adapters bs dg sources l = unmatched_outcome l"
        using False by (simp add: expected_outcome_def split: sum.split option.split)
      ultimately show ?thesis by simp
    qed
  qed
qed

section \<open>What the later stages may do to an outcome\<close>

text \<open>They may only reject: the source, its descriptor, model and digest stay, its diagnostics only grow.\<close>

definition only_rejects :: "source_run_outcome \<Rightarrow> source_run_outcome \<Rightarrow> bool" where
  "only_rejects so so' \<longleftrightarrow> so_locator so' = so_locator so \<and> so_descriptor so' = so_descriptor so \<and>
     ao_model (so_outcome so') = ao_model (so_outcome so) \<and>
     ao_semantic_input_digest (so_outcome so') = ao_semantic_input_digest (so_outcome so) \<and>
     (\<exists>more. ao_diagnostics (so_outcome so') = ao_diagnostics (so_outcome so) @ more) \<and>
     (ao_result (so_outcome so') = ao_result (so_outcome so) \<or> ao_result (so_outcome so') \<in> rejected_results)"

lemma only_rejects_refl [simp]: "only_rejects so so"
  by (simp add: only_rejects_def)

lemma reject_source_only_rejects:
  "fst (reject_source H os issues x) = fst x \<and> only_rejects (snd x) (snd (reject_source H os issues x))"
  by (cases x) (auto simp: reject_source_def Let_def only_rejects_def rejected_results_def)

lemma judge_outcomes_only_reject:
  obtains f where "dr_outcomes (judge_outcomes H (run_result H t ads outcome tombs) os ds) = map f os"
    "\<forall>x. fst (f x) = fst x \<and> only_rejects (snd x) (snd (f x))"
    "dr_commit_eligible (judge_outcomes H (run_result H t ads outcome tombs) os ds) \<longrightarrow> map f os = os"
proof -
  let ?r = "judge_outcomes H (run_result H t ads outcome tombs) os ds"
  obtain cs conflicted where c: "run_content_conflicts os = (cs, conflicted)"
    by (cases "run_content_conflicts os")
  let ?issues = "canonical_validation_issues H (merge_models H (outcome_models os))"
  let ?conflict = "\<lambda>(s, so). (s, if s \<in> conflicted then rejected_conflict so else so)"
  define f where "f = (if cs \<noteq> [] then ?conflict else if ?issues \<noteq> [] then reject_source H os ?issues else id)"
  have "dr_outcomes ?r = map f os"
    by (simp add: f_def judge_outcomes_def c Let_def reject_canonically_invalid_def run_result_def split: prod.split)
  moreover have "\<forall>x. fst (f x) = fst x \<and> only_rejects (snd x) (snd (f x))"
  proof
    fix x
    have "fst (?conflict x) = fst x \<and> only_rejects (snd x) (snd (?conflict x))"
      by (cases x) (simp add: only_rejects_def rejected_conflict_def rejected_results_def)
    then show "fst (f x) = fst x \<and> only_rejects (snd x) (snd (f x))"
      using reject_source_only_rejects [of H os ?issues x] by (simp add: f_def)
  qed
  moreover have "dr_commit_eligible ?r \<longrightarrow> map f os = os"
  proof
    assume e: "dr_commit_eligible ?r"
    note eligible = judge_eligible [OF e]
    have "cs = []" "?issues = []" using eligible by (simp_all add: c)
    then show "map f os = os" by (simp add: f_def)
  qed
  ultimately show ?thesis by (rule that)
qed

section \<open>Properties\<close>

text \<open>The bindings and the mapping-context digest the identity manifests of the run give.\<close>

definition run_bindings :: "'d discovery_outcome \<Rightarrow> binding_index_entry list \<times> bool \<times> ingestion_diagnostic list" where
  "run_bindings outcome = bind_identity_manifests (sort_key source_id_of (do_loaded_sources outcome)) (do_diagnostics outcome)"

definition mapped_sources :: "'d discovery_outcome \<Rightarrow> 'd loaded_source list" where
  "mapped_sources outcome =
     filter (\<lambda>l. \<not> is_identity_bindings l) (sort_key source_id_of (do_loaded_sources outcome))"

text \<open>The outcome as it is reported, without the contract carriers when contracts are switched off.\<close>

definition reported_outcome :: "bool \<Rightarrow> source_run_outcome \<Rightarrow> source_run_outcome" where
  "reported_outcome contracts so = (if contracts then so else so\<lparr>so_outcome := (so_outcome so)
     \<lparr>ao_model := without_api_contract_carriers (ao_model (so_outcome so))\<rparr>\<rparr>)"

text \<open>C14: For a discovery run over sources with pairwise distinct ids: when the enumeration is incomplete or an
  identity manifest fails to bind, the run reports no outcome at all.  Otherwise it reports exactly one
  outcome for every source that is not an identity manifest and none for anything else, and that outcome
  is what the one adapter that supports the source returned on it, given the bindings of the run and the
  merged models of the sources of the earlier dependency phases; a source no adapter supports gets the
  unsupported rejection.  The conflict and validation stages can only add diagnostics and reject; in a
  run that may commit they changed nothing.\<close>

theorem one_outcome_per_source:
  assumes "run_discovery H t context_digest adapters tombs contracts outcome = Inr r"
    and "distinct (map source_id_of (do_loaded_sources outcome))"
  defines "index \<equiv> fst (run_bindings outcome)"
  defines "expected \<equiv> \<lambda>l. reported_outcome contracts (expected_outcome H adapters
      (binding_index_to_pointer_bindings index) (context_digest index) (mapped_sources outcome) l)"
  shows "if do_enumeration_complete outcome \<and> \<not> fst (snd (run_bindings outcome))
    then distinct (map fst (dr_outcomes r)) \<and>
      fst ` set (dr_outcomes r) = source_id_of ` set (mapped_sources outcome) \<and>
      (\<forall>l\<in>set (mapped_sources outcome). \<exists>so. (source_id_of l, so) \<in> set (dr_outcomes r) \<and>
         only_rejects (expected l) so \<and> (dr_commit_eligible r \<longrightarrow> so = expected l))
    else dr_outcomes r = []"
proof (cases "do_enumeration_complete outcome \<and> \<not> fst (snd (run_bindings outcome))")
  case False
  then have "dr_outcomes r = []"
    using assms(1) by (auto simp: run_discovery_def run_bindings_def Let_def run_result_def split: prod.splits if_splits sum.splits)
  then show ?thesis unfolding if_not_P [OF False] .
next
  case True
  let ?loaded = "sort_key source_id_of (do_loaded_sources outcome)" and ?sources = "mapped_sources outcome"
  let ?e = "expected_outcome H adapters (binding_index_to_pointer_bindings index) (context_digest index) ?sources"
  obtain failed ds where b: "bind_identity_manifests ?loaded (do_diagnostics outcome) = (index, failed, ds)"
    by (cases "bind_identity_manifests ?loaded (do_diagnostics outcome)") (simp add: index_def run_bindings_def)
  obtain os ds' where mapped: "map_sources H adapters (binding_index_to_pointer_bindings index)
        (context_digest index) ?sources ds = Inr (os, ds')"
    and r: "r = judge_outcomes H (run_result H t adapters outcome tombs)
        (if contracts then os else strip_contracts os) ds'"
    using assms(1) True by (auto simp: run_discovery_def Let_def b mapped_sources_def run_bindings_def split: sum.splits prod.splits)
  have "distinct (map source_id_of ?loaded)"
    using assms(2) by (simp add: distinct_map)
  then have dist: "distinct (map source_id_of ?sources)" by (simp add: mapped_sources_def distinct_map_filter)
  note os = map_sources_outcomes [OF mapped dist]
  define rep where "rep = (\<lambda>(s :: string, so). (s, reported_outcome contracts so))"
  have "(if contracts then os else strip_contracts os) = map rep os"
    by (auto simp: rep_def reported_outcome_def strip_contracts_def intro!: map_idI [symmetric])
  then have r: "r = judge_outcomes H (run_result H t adapters outcome tombs) (map rep os) ds'" using r by simp
  obtain f where f: "dr_outcomes r = map f (map rep os)" "\<forall>x. fst (f x) = fst x \<and> only_rejects (snd x) (snd (f x))"
    "dr_commit_eligible r \<longrightarrow> map f (map rep os) = map rep os"
    unfolding r by (rule judge_outcomes_only_reject)
  have keys: "map fst (dr_outcomes r) = map fst os" using f(2) by (simp add: f(1) rep_def split_def)
  have "fst ` set (dr_outcomes r) = source_id_of ` set ?sources" using os(2) keys by (metis list.set_map)
  moreover have "\<exists>so. (source_id_of l, so) \<in> set (dr_outcomes r) \<and> only_rejects (expected l) so \<and>
      (dr_commit_eligible r \<longrightarrow> so = expected l)" if l: "l \<in> set ?sources" for l
  proof -
    let ?x = "(source_id_of l, expected l)"
    have x: "?x \<in> set (map rep os)" using os(3) l by (force simp: rep_def expected_def)
    have fx: "f ?x = (source_id_of l, snd (f ?x))" "only_rejects (expected l) (snd (f ?x))"
      using f(2) by (metis fst_conv prod.collapse, metis snd_conv)
    have "f ?x = ?x" if e: "dr_commit_eligible r"
    proof -
      have "map f (map rep os) = map id (map rep os)" using f(3) e by simp
      then have "\<forall>y\<in>set (map rep os). f y = id y" by (simp only: map_eq_conv)
      then show ?thesis using x by (metis id_apply)
    qed
    then have "dr_commit_eligible r \<longrightarrow> snd (f ?x) = expected l" by (metis snd_conv)
    moreover have "f ?x \<in> set (dr_outcomes r)" unfolding f(1) using x by (metis image_eqI list.set_map)
    ultimately show ?thesis using fx by (intro exI [of _ "snd (f ?x)"] conjI) simp_all
  qed
  ultimately show ?thesis using True os(1) keys by simp
qed

lemma one_outcome_per_source_witness:
  "\<exists>r. sample_run = Inr r \<and> fst ` set (dr_outcomes r) = {''a'', ''b''} \<and> dr_commit_eligible r \<and>
     (''a'', reported_outcome True (expected_outcome (\<lambda>b. b) [sample_adapter] [] ''ctx''
        [sample_source ''a'', sample_source ''b''] (sample_source ''a''))) \<in> set (dr_outcomes r)"
proof -
  obtain r where r: "sample_run = Inr r" "dr_commit_eligible r" by (simp add: sample_run_result)
  have loaded: "do_loaded_sources sample_outcome = [sample_source ''b'', sample_source ''a'']"
    "do_enumeration_complete sample_outcome" "do_diagnostics sample_outcome = []"
    by (simp_all add: sample_outcome_def)
  have bound: "run_bindings sample_outcome = ([], False, [])"
    unfolding run_bindings_def loaded sample_loaded sample_bind ..
  have "\<not> is_identity_bindings (sample_source s)" for s by (simp add: is_identity_bindings_def sample_source_def)
  then have sources: "mapped_sources sample_outcome = [sample_source ''a'', sample_source ''b'']"
    unfolding mapped_sources_def loaded sample_loaded by simp
  have ids: "source_id_of (sample_source s) = s" for s by (simp add: sample_source_def)
  have "distinct (map source_id_of (do_loaded_sources sample_outcome))" by (simp add: loaded ids)
  note one = one_outcome_per_source [OF r(1) [unfolded sample_run_def] this]
  have "fst ` set (dr_outcomes r) = {''a'', ''b''}" using one by (simp add: loaded bound sources ids)
  moreover have "(''a'', reported_outcome True (expected_outcome (\<lambda>b. b) [sample_adapter] [] ''ctx''
        [sample_source ''a'', sample_source ''b''] (sample_source ''a''))) \<in> set (dr_outcomes r)"
    using one r(2) by (auto simp: loaded bound sources ids binding_index_to_pointer_bindings_def)
  ultimately show ?thesis using r by blast
qed

end
