(* ===== verification/CorrelationBuffer.thy ===== *)
theory CorrelationBuffer
  imports Prelude
begin

text \<open>
  \<open>telemetry/correlation_buffer.py\<close>: the store of unpaired CLIENT and SERVER spans awaiting a
  counterpart from a later batch.  An \<open>OrderedDict\<close> is the list of its items from the oldest
  position; assigning to a present key keeps its position, as Python does.  A timestamp is its
  microseconds.  The clock reading of a call is an argument; the lock makes a call atomic, so a call is
  one function.  The bound is a natural number (a negative one makes \<open>popitem\<close> raise).
\<close>

datatype span_kind = CLIENT | SERVER

record pending_http_span =
  ps_trace_id :: string
  ps_span_id :: string
  ps_parent_span_id :: "string option"
  ps_span_kind :: span_kind
  ps_service_name :: string
  ps_service_namespace :: "string option"
  ps_service_version :: "string option"
  ps_environment :: "string option"
  ps_method :: "string option"
  ps_route :: "string option"
  ps_target_identity :: "string option"
  ps_timestamp :: int
  ps_k8s_pod_uid :: "string option"
  ps_k8s_cluster_uid :: "string option"
  ps_k8s_namespace_name :: "string option"
  ps_k8s_pod_name :: "string option"
  ps_k8s_deployment_name :: "string option"
  ps_k8s_statefulset_name :: "string option"
  ps_k8s_daemonset_name :: "string option"

type_synonym pair_key = "string \<times> string"
type_synonym pending_store = "(pair_key \<times> pending_http_span \<times> int) list"

record correlation_buffer =
  cb_ttl :: int
  cb_max :: nat
  cb_clients :: pending_store
  cb_servers :: pending_store
  cb_matches :: nat
  cb_expirations :: nat
  cb_evictions :: nat

definition new_buffer :: "int \<Rightarrow> nat \<Rightarrow> correlation_buffer" where
  "new_buffer ttl max_pending = \<lparr>cb_ttl = ttl, cb_max = max_pending, cb_clients = [], cb_servers = [],
     cb_matches = 0, cb_expirations = 0, cb_evictions = 0\<rparr>"

section \<open>The store\<close>

fun pop_expired :: "int \<Rightarrow> int \<Rightarrow> pending_store \<Rightarrow> pending_http_span list \<times> pending_store" where
  "pop_expired ttl now [] = ([], [])"
| "pop_expired ttl now ((k, span, inserted) # rest) =
     (if now - inserted \<le> ttl then ([], (k, span, inserted) # rest)
      else let (expired, kept) = pop_expired ttl now rest in (span # expired, kept))"

definition enforce_bound :: "nat \<Rightarrow> pending_store \<Rightarrow> nat \<times> pending_store" where
  "enforce_bound max_pending store = (length store - max_pending, drop (length store - max_pending) store)"

definition evict_expired :: "int \<Rightarrow> correlation_buffer \<Rightarrow> correlation_buffer" where
  "evict_expired now b =
     (let (expired_clients, clients) = pop_expired (cb_ttl b) now (cb_clients b);
          (expired_servers, servers) = pop_expired (cb_ttl b) now (cb_servers b) in
      b\<lparr>cb_clients := clients, cb_servers := servers,
        cb_expirations := cb_expirations b + length expired_clients + length expired_servers\<rparr>)"

definition sweep_expired ::
  "int \<Rightarrow> correlation_buffer \<Rightarrow> (pending_http_span list \<times> pending_http_span list) \<times> correlation_buffer" where
  "sweep_expired now b =
     ((fst (pop_expired (cb_ttl b) now (cb_clients b)), fst (pop_expired (cb_ttl b) now (cb_servers b))),
      evict_expired now b)"

section \<open>Offering a span\<close>

definition offer_server ::
  "int \<Rightarrow> pending_http_span \<Rightarrow> correlation_buffer \<Rightarrow> pending_http_span option \<times> correlation_buffer" where
  "offer_server now span b0 =
     (case ps_parent_span_id span of None \<Rightarrow> (None, b0) | Some parent \<Rightarrow>
      let key = (ps_trace_id span, parent); b = evict_expired now b0 in
      case map_of (cb_clients b) key of
        Some (other, _) \<Rightarrow> (Some other, b\<lparr>cb_clients := AList.delete key (cb_clients b), cb_matches := cb_matches b + 1\<rparr>)
      | None \<Rightarrow>
          let (evicted, store) = enforce_bound (cb_max b) (AList.update key (span, now) (cb_servers b)) in
          (None, b\<lparr>cb_servers := store, cb_evictions := cb_evictions b + evicted\<rparr>))"

definition offer_client ::
  "int \<Rightarrow> pending_http_span \<Rightarrow> correlation_buffer \<Rightarrow> pending_http_span option \<times> correlation_buffer" where
  "offer_client now span b0 =
     (let key = (ps_trace_id span, ps_span_id span); b = evict_expired now b0 in
      case map_of (cb_servers b) key of
        Some (other, _) \<Rightarrow> (Some other, b\<lparr>cb_servers := AList.delete key (cb_servers b), cb_matches := cb_matches b + 1\<rparr>)
      | None \<Rightarrow>
          let (evicted, store) = enforce_bound (cb_max b) (AList.update key (span, now) (cb_clients b)) in
          (None, b\<lparr>cb_clients := store, cb_evictions := cb_evictions b + evicted\<rparr>))"

section \<open>Histories\<close>

datatype buffer_call = Sweep int | OfferServer int pending_http_span | OfferClient int pending_http_span

fun call_time :: "buffer_call \<Rightarrow> int" where
  "call_time (Sweep now) = now"
| "call_time (OfferServer now _) = now"
| "call_time (OfferClient now _) = now"

fun perform :: "buffer_call \<Rightarrow> correlation_buffer \<Rightarrow> correlation_buffer" where
  "perform (Sweep now) b = snd (sweep_expired now b)"
| "perform (OfferServer now span) b = snd (offer_server now span b)"
| "perform (OfferClient now span) b = snd (offer_client now span b)"

text \<open>Reachable buffers, with the clock reading of the last call: the clock does not go back.\<close>

inductive reachable :: "int \<Rightarrow> nat \<Rightarrow> int \<Rightarrow> correlation_buffer \<Rightarrow> bool" for ttl max_pending where
  start: "reachable ttl max_pending t (new_buffer ttl max_pending)"
| call: "reachable ttl max_pending t b \<Longrightarrow> t \<le> call_time c \<Longrightarrow> reachable ttl max_pending (call_time c) (perform c b)"

inductive_cases reachableE: "reachable ttl max_pending t b"

section \<open>Lemmas on one store\<close>

abbreviation keys_of :: "pending_store \<Rightarrow> pair_key set" where
  "keys_of store \<equiv> fst ` set store"

definition expired_at :: "int \<Rightarrow> int \<Rightarrow> pair_key \<times> pending_http_span \<times> int \<Rightarrow> bool" where
  "expired_at ttl now e \<longleftrightarrow> now - snd (snd e) > ttl"

lemma pop_expired_split:
  "\<exists>front. store = front @ snd (pop_expired ttl now store) \<and>
     fst (pop_expired ttl now store) = map (fst \<circ> snd) front \<and> (\<forall>e\<in>set front. expired_at ttl now e) \<and>
     (\<forall>e rest. snd (pop_expired ttl now store) = e # rest \<longrightarrow> \<not> expired_at ttl now e)"
proof (induction ttl now store rule: pop_expired.induct)
  case (1 ttl now)
  then show ?case by simp
next
  case (2 ttl now k span inserted rest)
  show ?case
  proof (cases "now - inserted \<le> ttl")
    case True
    then show ?thesis by (simp add: expired_at_def)
  next
    case False
    then obtain front where "rest = front @ snd (pop_expired ttl now rest)"
      "fst (pop_expired ttl now rest) = map (fst \<circ> snd) front" "\<forall>e\<in>set front. expired_at ttl now e"
      "\<forall>e tl. snd (pop_expired ttl now rest) = e # tl \<longrightarrow> \<not> expired_at ttl now e"
      using 2 by blast
    then show ?thesis
      using False by (intro exI [of _ "(k, span, inserted) # front"]) (auto simp: split_def expired_at_def)
  qed
qed

text \<open>What every pending store satisfies: unique keys, the bound, entries under their own pairing key,
  insertion times not in the future.\<close>

definition store_inv :: "(pending_http_span \<Rightarrow> pair_key option) \<Rightarrow> nat \<Rightarrow> int \<Rightarrow> pending_store \<Rightarrow> bool" where
  "store_inv key max_pending t store \<longleftrightarrow> distinct (map fst store) \<and> length store \<le> max_pending \<and>
     (\<forall>e\<in>set store. key (fst (snd e)) = Some (fst e) \<and> snd (snd e) \<le> t)"

lemma store_inv_suffix: "store_inv key m t (front @ store) \<Longrightarrow> store_inv key m t store"
  by (auto simp: store_inv_def)

lemma store_inv_pop: "store_inv key m t store \<Longrightarrow> store_inv key m t (snd (pop_expired ttl now store))"
  using pop_expired_split [of store ttl now] store_inv_suffix by metis

lemma set_pop: "set (snd (pop_expired ttl now store)) \<subseteq> set store"
proof -
  obtain front where "store = front @ snd (pop_expired ttl now store)" using pop_expired_split [of store ttl now] by blast
  then show ?thesis by (metis Un_upper2 set_append)
qed

lemma keys_pop: "keys_of (snd (pop_expired ttl now store)) \<subseteq> keys_of store"
  using pop_expired_split [of store ttl now] by (metis image_mono set_append Un_upper2)

lemma store_inv_later: "store_inv key m t store \<Longrightarrow> t \<le> now \<Longrightarrow> store_inv key m now store"
  by (auto simp: store_inv_def)

lemma set_delete: "set (AList.delete k store) = {e \<in> set store. fst e \<noteq> k}"
  by (auto simp: AList.delete_eq)

lemma store_inv_delete: "store_inv key m t store \<Longrightarrow> store_inv key m t (AList.delete k store)"
  unfolding store_inv_def using length_delete_le [of k store] by (auto simp: distinct_delete set_delete)

lemma keys_delete: "keys_of (AList.delete k store) = keys_of store - {k}"
  by (auto simp: set_delete)

lemma set_update_subset: "set (AList.update k v store) \<subseteq> insert (k, v) (set store)"
  by (induction store) auto

lemma enforce_bound_inv:
  assumes "distinct (map fst store)" "\<forall>e\<in>set store. key (fst (snd e)) = Some (fst e) \<and> snd (snd e) \<le> t"
  shows "store_inv key m t (snd (enforce_bound m store))"
proof -
  have "set (drop (length store - m) store) \<subseteq> set store" by (rule set_drop_subset)
  moreover have "distinct (map fst (drop (length store - m) store))"
    using assms(1) by (metis distinct_drop drop_map)
  ultimately show ?thesis using assms(2) by (auto simp: store_inv_def enforce_bound_def)
qed

lemma store_inv_offer:
  assumes "store_inv key m t store" "t \<le> now" "key span = Some k"
  shows "store_inv key m now (snd (enforce_bound m (AList.update k (span, now) store)))"
proof (rule enforce_bound_inv)
  show "distinct (map fst (AList.update k (span, now) store))"
    using assms(1) by (simp add: store_inv_def distinct_update)
  show "\<forall>e\<in>set (AList.update k (span, now) store). key (fst (snd e)) = Some (fst e) \<and> snd (snd e) \<le> now"
    using set_update_subset [of k "(span, now)" store] assms by (force simp: store_inv_def)
qed

lemma keys_enforce_bound: "keys_of (snd (enforce_bound m store)) \<subseteq> keys_of store"
  unfolding enforce_bound_def by (simp add: image_mono set_drop_subset)

section \<open>The two sides\<close>

text \<open>
  A CLIENT and a SERVER are offered by the same procedure with the stores exchanged.  The locale states
  what a caller of either side relies on; both sides are instances.
\<close>

locale correlation_side =
  fixes key :: "pending_http_span \<Rightarrow> pair_key option"
    and own other :: "correlation_buffer \<Rightarrow> pending_store"
    and offer :: "int \<Rightarrow> pending_http_span \<Rightarrow> correlation_buffer \<Rightarrow> pending_http_span option \<times> correlation_buffer"
  assumes offer_no_key: "key span = None \<Longrightarrow> offer now span b = (None, b)"
    and offer_match: "key span = Some k \<Longrightarrow> map_of (other (evict_expired now b)) k = Some (s, i) \<Longrightarrow>
      fst (offer now span b) = Some s \<and> own (snd (offer now span b)) = own (evict_expired now b) \<and>
      other (snd (offer now span b)) = AList.delete k (other (evict_expired now b))"
    and offer_wait: "key span = Some k \<Longrightarrow> map_of (other (evict_expired now b)) k = None \<Longrightarrow>
      fst (offer now span b) = None \<and> other (snd (offer now span b)) = other (evict_expired now b) \<and>
      own (snd (offer now span b)) = snd (enforce_bound (cb_max b) (AList.update k (span, now) (own (evict_expired now b))))"
    and offer_config: "cb_max (snd (offer now span b)) = cb_max b \<and> cb_ttl (snd (offer now span b)) = cb_ttl b"
    and evict_own: "own (evict_expired now b) = snd (pop_expired (cb_ttl b) now (own b))"
    and evict_other: "other (evict_expired now b) = snd (pop_expired (cb_ttl b) now (other b))"
begin

lemma offer_result:
  assumes "fst (offer now span b) = Some s"
  shows "\<exists>k i. key span = Some k \<and> (k, s, i) \<in> set (other (evict_expired now b)) \<and>
    k \<notin> keys_of (other (snd (offer now span b)))"
proof -
  obtain k where k: "key span = Some k" using assms offer_no_key by (cases "key span") auto
  show ?thesis
  proof (cases "map_of (other (evict_expired now b)) k")
    case None
    then show ?thesis using offer_wait [OF k] assms by simp
  next
    case (Some e)
    obtain s' i where e: "e = (s', i)" by (cases e)
    then have "s' = s" "other (snd (offer now span b)) = AList.delete k (other (evict_expired now b))"
      using offer_match [OF k] Some assms by auto
    then show ?thesis
      using k Some e map_of_SomeD by (intro exI [of _ k] exI [of _ i]) (auto simp: keys_delete dest: map_of_SomeD)
  qed
qed

lemma offer_keeps:
  assumes own: "store_inv key (cb_max b) t (own b)" and other: "store_inv okey (cb_max b) t (other b)"
    and disjoint: "keys_of (own b) \<inter> keys_of (other b) = {}" and "t \<le> now"
  shows "store_inv key (cb_max b) now (own (snd (offer now span b))) \<and>
    store_inv okey (cb_max b) now (other (snd (offer now span b))) \<and>
    keys_of (own (snd (offer now span b))) \<inter> keys_of (other (snd (offer now span b))) = {}"
proof -
  let ?b = "evict_expired now b"
  have own': "store_inv key (cb_max b) t (own ?b)" and other': "store_inv okey (cb_max b) t (other ?b)"
    using own other by (simp_all add: evict_own evict_other store_inv_pop)
  have disjoint': "keys_of (own ?b) \<inter> keys_of (other ?b) = {}"
    using disjoint keys_pop [of "cb_ttl b" now "own b"] keys_pop [of "cb_ttl b" now "other b"]
    unfolding evict_own evict_other by blast
  show ?thesis
  proof (cases "key span")
    case None
    then show ?thesis using own other disjoint store_inv_later [OF _ assms(4)] by (simp add: offer_no_key)
  next
    case (Some k)
    show ?thesis
    proof (cases "map_of (other ?b) k")
      case None
      note step = offer_wait [OF Some None]
      let ?own = "snd (enforce_bound (cb_max b) (AList.update k (span, now) (own ?b)))"
      have "k \<notin> keys_of (other ?b)" using None by (simp add: map_of_eq_None_iff)
      moreover have "keys_of ?own \<subseteq> insert k (keys_of (own ?b))"
        using keys_enforce_bound [of "cb_max b" "AList.update k (span, now) (own ?b)"] by (simp add: dom_update)
      ultimately have "keys_of ?own \<inter> keys_of (other ?b) = {}" using disjoint' by blast
      then show ?thesis
        using step store_inv_offer [OF own' assms(4) Some] store_inv_later [OF other' assms(4)] by simp
    next
      case (Some e)
      obtain s i where "e = (s, i)" by (cases e)
      note step = offer_match [OF \<open>key span = Some k\<close>, of now b s i]
      have "keys_of (own ?b) \<inter> keys_of (AList.delete k (other ?b)) = {}"
        using disjoint' by (simp only: keys_delete) blast
      then show ?thesis
        using step Some \<open>e = (s, i)\<close> store_inv_later [OF own' assms(4)]
          store_inv_later [OF store_inv_delete [OF other'] assms(4)] by simp
    qed
  qed
qed

end

section \<open>Stores in insertion order\<close>

definition in_order :: "pending_store \<Rightarrow> bool" where
  "in_order store \<longleftrightarrow> sorted (map (snd \<circ> snd) store)"

lemma in_order_suffix: "in_order (front @ store) \<Longrightarrow> in_order store"
  by (simp add: in_order_def sorted_append)

lemma in_order_pop: "in_order store \<Longrightarrow> in_order (snd (pop_expired ttl now store))"
  using pop_expired_split [of store ttl now] in_order_suffix by metis

lemma in_order_none_expired:
  assumes "in_order store" "e \<in> set (snd (pop_expired ttl now store))"
  shows "\<not> expired_at ttl now e"
proof (cases "snd (pop_expired ttl now store)")
  case Nil
  then show ?thesis using assms(2) by simp
next
  case (Cons f rest)
  then have "\<not> expired_at ttl now f" using pop_expired_split [of store ttl now] by metis
  moreover have "snd (snd f) \<le> snd (snd e)"
    using in_order_pop [OF assms(1), of ttl now] assms(2) Cons by (auto simp: in_order_def)
  ultimately show ?thesis by (simp add: expired_at_def)
qed

lemma in_order_delete: "in_order store \<Longrightarrow> in_order (AList.delete k store)"
  unfolding in_order_def AList.delete_eq by (rule sorted_filter)

lemma in_order_enforce: "in_order store \<Longrightarrow> in_order (snd (enforce_bound m store))"
  by (simp add: in_order_def enforce_bound_def drop_map [symmetric] sorted_wrt_drop)

lemma update_fresh: "k \<notin> fst ` set store \<Longrightarrow> AList.update k v store = store @ [(k, v)]"
  by (induction store) auto

lemma in_order_update:
  assumes "in_order store" "k \<notin> keys_of store" "\<forall>e\<in>set store. snd (snd e) \<le> now"
  shows "in_order (AList.update k (span, now) store)"
  unfolding update_fresh [OF assms(2)] using assms by (auto simp: in_order_def sorted_append)

context correlation_side
begin

lemma offer_in_order:
  assumes "store_inv key (cb_max b) t (own b)" "t \<le> now" "in_order (own b)" "in_order (other b)"
    and fresh: "\<And>k. key span = Some k \<Longrightarrow> k \<notin> keys_of (own b)"
  shows "in_order (own (snd (offer now span b))) \<and> in_order (other (snd (offer now span b)))"
proof (cases "key span")
  case None
  then show ?thesis using assms by (simp add: offer_no_key)
next
  case (Some k)
  let ?b = "evict_expired now b"
  have order: "in_order (own ?b)" "in_order (other ?b)" using assms(3,4) by (simp_all add: evict_own evict_other in_order_pop)
  show ?thesis
  proof (cases "map_of (other ?b) k")
    case None
    have "k \<notin> keys_of (own ?b)" 
      using fresh [OF Some] keys_pop [of "cb_ttl b" now "own b"] unfolding evict_own by (rule contra_subsetD [rotated])
    moreover have "\<forall>e\<in>set (own ?b). snd (snd e) \<le> now"
      using store_inv_later [OF store_inv_pop [OF assms(1)] assms(2)] unfolding evict_own by (simp add: store_inv_def)
    ultimately show ?thesis
      using offer_wait [OF Some None] order by (simp add: in_order_enforce in_order_update)
  next
    case (Some e)
    obtain s i where "e = (s, i)" by (cases e)
    then show ?thesis
      using offer_match [OF \<open>key span = Some k\<close>, of now b s i] Some order by (simp add: in_order_delete)
  qed
qed

lemma offer_counterpart:
  assumes inv: "store_inv okey m t (other b)" and match: "fst (offer now span b) = Some s"
  shows "okey s = key span \<and> (\<forall>e\<in>set (other (snd (offer now span b))). okey (fst (snd e)) \<noteq> key span)"
proof -
  obtain k where k: "key span = Some k" using match offer_no_key by (cases "key span") auto
  have inv': "store_inv okey m t (other (evict_expired now b))" using inv by (simp add: evict_other store_inv_pop)
  show ?thesis
  proof (cases "map_of (other (evict_expired now b)) k")
    case None
    then show ?thesis using offer_wait [OF k] match by simp
  next
    case (Some e)
    obtain s' i where e: "e = (s', i)" by (cases e)
    have s: "s' = s" "other (snd (offer now span b)) = AList.delete k (other (evict_expired now b))"
      using offer_match [OF k] Some match e by auto
    have "(k, s, i) \<in> set (other (evict_expired now b))" using Some e s(1) map_of_SomeD by metis
    then have "okey s = Some k" using inv' by (auto simp: store_inv_def)
    moreover have "\<forall>e\<in>set (AList.delete k (other (evict_expired now b))). okey (fst (snd e)) \<noteq> Some k"
    proof
      fix e assume "e \<in> set (AList.delete k (other (evict_expired now b)))"
      then have "fst e \<noteq> k" "okey (fst (snd e)) = Some (fst e)" using inv' by (auto simp: set_delete store_inv_def)
      then show "okey (fst (snd e)) \<noteq> Some k" by simp
    qed
    ultimately show ?thesis unfolding s(2) k by simp
  qed
qed

lemma match_within_ttl:
  assumes "fst (offer now span b) = Some s" "in_order (other b)"
  shows "\<exists>k i. key span = Some k \<and> (k, s, i) \<in> set (other b) \<and> now - i \<le> cb_ttl b"
proof -
  obtain k i where k: "key span = Some k" "(k, s, i) \<in> set (other (evict_expired now b))"
    using offer_result [OF assms(1)] by blast
  then have "\<not> expired_at (cb_ttl b) now (k, s, i)"
    using in_order_none_expired [OF assms(2)] by (simp add: evict_other)
  moreover have "(k, s, i) \<in> set (other b)"
    using k(2) set_pop [of "cb_ttl b" now "other b"] unfolding evict_other by (rule subsetD [rotated])
  ultimately show ?thesis using k(1) by (auto simp: expired_at_def)
qed

end

definition client_key :: "pending_http_span \<Rightarrow> pair_key option" where
  "client_key span = Some (ps_trace_id span, ps_span_id span)"

definition server_key :: "pending_http_span \<Rightarrow> pair_key option" where
  "server_key span = map_option (\<lambda>parent. (ps_trace_id span, parent)) (ps_parent_span_id span)"

interpretation client_side: correlation_side client_key cb_clients cb_servers offer_client
  by unfold_locales
    (auto simp: client_key_def offer_client_def evict_expired_def Let_def split: prod.splits option.splits)

interpretation server_side: correlation_side server_key cb_servers cb_clients offer_server
  by unfold_locales
    (auto simp: server_key_def offer_server_def evict_expired_def Let_def split: prod.splits option.splits)

section \<open>Reachable buffers\<close>

definition buffer_inv :: "int \<Rightarrow> nat \<Rightarrow> int \<Rightarrow> correlation_buffer \<Rightarrow> bool" where
  "buffer_inv ttl m t b \<longleftrightarrow> cb_ttl b = ttl \<and> cb_max b = m \<and> store_inv client_key m t (cb_clients b) \<and>
     store_inv server_key m t (cb_servers b) \<and> keys_of (cb_clients b) \<inter> keys_of (cb_servers b) = {}"

lemma evict_config: "cb_ttl (evict_expired now b) = cb_ttl b" "cb_max (evict_expired now b) = cb_max b"
  by (simp_all add: evict_expired_def split: prod.splits)

lemma perform_inv:
  assumes "buffer_inv ttl m t b" "t \<le> call_time c"
  shows "buffer_inv ttl m (call_time c) (perform c b)"
proof (cases c)
  case (Sweep now)
  have "store_inv client_key m now (cb_clients (evict_expired now b))"
    "store_inv server_key m now (cb_servers (evict_expired now b))"
    using assms Sweep
    by (auto simp: client_side.evict_own server_side.evict_own buffer_inv_def intro: store_inv_later [OF store_inv_pop])
  moreover have "keys_of (cb_clients (evict_expired now b)) \<inter> keys_of (cb_servers (evict_expired now b)) = {}"
    using assms(1) keys_pop [of "cb_ttl b" now "cb_clients b"] keys_pop [of "cb_ttl b" now "cb_servers b"]
    unfolding client_side.evict_own server_side.evict_own buffer_inv_def by blast
  ultimately show ?thesis using assms(1) Sweep by (simp add: buffer_inv_def sweep_expired_def evict_config)
next
  case (OfferServer now span)
  have "store_inv server_key (cb_max b) t (cb_servers b)" "store_inv client_key (cb_max b) t (cb_clients b)"
    "keys_of (cb_servers b) \<inter> keys_of (cb_clients b) = {}" "t \<le> now"
    using assms OfferServer by (auto simp: buffer_inv_def)
  from server_side.offer_keeps [OF this] show ?thesis
    using assms(1) OfferServer server_side.offer_config by (simp add: buffer_inv_def Int_commute)
next
  case (OfferClient now span)
  have "store_inv client_key (cb_max b) t (cb_clients b)" "store_inv server_key (cb_max b) t (cb_servers b)"
    "keys_of (cb_clients b) \<inter> keys_of (cb_servers b) = {}" "t \<le> now"
    using assms OfferClient by (auto simp: buffer_inv_def)
  from client_side.offer_keeps [OF this] show ?thesis
    using assms(1) OfferClient client_side.offer_config by (simp add: buffer_inv_def)
qed

lemma reachable_inv: "reachable ttl m t b \<Longrightarrow> buffer_inv ttl m t b"
proof (induction rule: reachable.induct)
  case (start t)
  then show ?case by (simp add: buffer_inv_def new_buffer_def store_inv_def)
next
  case (call t b c)
  then show ?case by (simp add: perform_inv)
qed

text \<open>Histories in which no span is offered again while it is still pending.\<close>

fun fresh_call :: "buffer_call \<Rightarrow> correlation_buffer \<Rightarrow> bool" where
  "fresh_call (Sweep now) b = True"
| "fresh_call (OfferServer now span) b = (\<forall>k. server_key span = Some k \<longrightarrow> k \<notin> keys_of (cb_servers b))"
| "fresh_call (OfferClient now span) b = (\<forall>k. client_key span = Some k \<longrightarrow> k \<notin> keys_of (cb_clients b))"

inductive reachable_fresh :: "int \<Rightarrow> nat \<Rightarrow> int \<Rightarrow> correlation_buffer \<Rightarrow> bool" for ttl max_pending where
  start_fresh: "reachable_fresh ttl max_pending t (new_buffer ttl max_pending)"
| call_fresh: "reachable_fresh ttl max_pending t b \<Longrightarrow> t \<le> call_time c \<Longrightarrow> fresh_call c b \<Longrightarrow>
    reachable_fresh ttl max_pending (call_time c) (perform c b)"

lemma reachable_fresh_reachable: "reachable_fresh ttl m t b \<Longrightarrow> reachable ttl m t b"
  by (induction rule: reachable_fresh.induct) (auto intro: reachable.intros)

lemma perform_in_order:
  assumes "buffer_inv ttl m t b" "t \<le> call_time c" "fresh_call c b"
    and order: "in_order (cb_clients b)" "in_order (cb_servers b)"
  shows "in_order (cb_clients (perform c b)) \<and> in_order (cb_servers (perform c b))"
proof (cases c)
  case (Sweep now)
  then show ?thesis
    using order by (simp add: sweep_expired_def client_side.evict_own server_side.evict_own in_order_pop)
next
  case (OfferServer now span)
  have "store_inv server_key (cb_max b) t (cb_servers b)" "t \<le> now" using assms OfferServer by (auto simp: buffer_inv_def)
  note step = server_side.offer_in_order [OF this order(2,1)]
  have "k \<notin> keys_of (cb_servers b)" if "server_key span = Some k" for k using assms(3) OfferServer that by simp
  from step [OF this] show ?thesis using OfferServer by simp
next
  case (OfferClient now span)
  have "store_inv client_key (cb_max b) t (cb_clients b)" "t \<le> now" using assms OfferClient by (auto simp: buffer_inv_def)
  note step = client_side.offer_in_order [OF this order]
  have "k \<notin> keys_of (cb_clients b)" if "client_key span = Some k" for k using assms(3) OfferClient that by simp
  from step [OF this] show ?thesis using OfferClient by simp
qed

lemma reachable_fresh_in_order: "reachable_fresh ttl m t b \<Longrightarrow> in_order (cb_clients b) \<and> in_order (cb_servers b)"
proof (induction rule: reachable_fresh.induct)
  case (start_fresh t)
  then show ?case by (simp add: new_buffer_def in_order_def)
next
  case (call_fresh t b c)
  then show ?case
    using perform_in_order reachable_inv [OF reachable_fresh_reachable] by blast
qed

section \<open>Properties\<close>

text \<open>The correlation buffer never becomes an unbounded trace store.  Whatever sequence of sweeps and offers
  is made, each side holds at most the configured number of spans, at most one per pairing key, each
  under its own key, and no CLIENT waits while its SERVER counterpart waits too.\<close>

theorem pending_spans_bounded:
  assumes "reachable ttl max_pending t b"
  shows "length (cb_clients b) \<le> max_pending \<and> length (cb_servers b) \<le> max_pending \<and>
    distinct (map fst (cb_clients b)) \<and> distinct (map fst (cb_servers b)) \<and>
    (\<forall>e\<in>set (cb_clients b). client_key (fst (snd e)) = Some (fst e)) \<and>
    (\<forall>e\<in>set (cb_servers b). server_key (fst (snd e)) = Some (fst e)) \<and>
    fst ` set (cb_clients b) \<inter> fst ` set (cb_servers b) = {}"
  using reachable_inv [OF assms] by (simp add: buffer_inv_def store_inv_def)

text \<open>Pairing is sound: an offered span is only ever given a pending span of the other side with the same
  pairing key (trace and CLIENT span id), and that span is consumed, so it cannot be paired twice.\<close>

theorem offered_match_is_counterpart:
  assumes "reachable ttl max_pending t b"
  shows "(fst (offer_client now span b) = Some s \<longrightarrow> server_key s = client_key span \<and>
      (\<forall>e\<in>set (cb_servers (snd (offer_client now span b))). server_key (fst (snd e)) \<noteq> client_key span)) \<and>
    (fst (offer_server now span b) = Some s \<longrightarrow> client_key s = server_key span \<and>
      (\<forall>e\<in>set (cb_clients (snd (offer_server now span b))). client_key (fst (snd e)) \<noteq> server_key span))"
proof -
  have "store_inv server_key max_pending t (cb_servers b)" "store_inv client_key max_pending t (cb_clients b)"
    using reachable_inv [OF assms] by (simp_all add: buffer_inv_def)
  then show ?thesis
    using client_side.offer_counterpart server_side.offer_counterpart by blast
qed

text \<open>The TTL holds for pairing as long as no span is offered again while it is pending: the span an offer
  is paired with was inserted at most the configured TTL before.\<close>

theorem fresh_match_within_ttl:
  assumes "reachable_fresh ttl max_pending t b"
  shows "(fst (offer_client now span b) = Some s \<longrightarrow>
      (\<exists>k i. (k, s, i) \<in> set (cb_servers b) \<and> now - i \<le> ttl)) \<and>
    (fst (offer_server now span b) = Some s \<longrightarrow>
      (\<exists>k i. (k, s, i) \<in> set (cb_clients b) \<and> now - i \<le> ttl))"
proof -
  have "cb_ttl b = ttl" using reachable_inv [OF reachable_fresh_reachable [OF assms]] by (simp add: buffer_inv_def)
  then show ?thesis
    using reachable_fresh_in_order [OF assms] client_side.match_within_ttl server_side.match_within_ttl by metis
qed

section \<open>A re-offered span\<close>

definition sample_span :: "span_kind \<Rightarrow> string \<Rightarrow> string option \<Rightarrow> pending_http_span" where
  "sample_span kind span parent = \<lparr>ps_trace_id = ''t'', ps_span_id = span, ps_parent_span_id = parent,
     ps_span_kind = kind, ps_service_name = ''svc'', ps_service_namespace = None, ps_service_version = None,
     ps_environment = None, ps_method = None, ps_route = None, ps_target_identity = None, ps_timestamp = 0,
     ps_k8s_pod_uid = None, ps_k8s_cluster_uid = None, ps_k8s_namespace_name = None, ps_k8s_pod_name = None,
     ps_k8s_deployment_name = None, ps_k8s_statefulset_name = None, ps_k8s_daemonset_name = None\<rparr>"

text \<open>CLIENT \<open>a\<close> at 0, CLIENT \<open>b\<close> at 1, and \<open>a\<close> again at 60, before it expired.\<close>

definition reoffered :: correlation_buffer where
  "reoffered = fold perform [OfferClient 0 (sample_span CLIENT ''a'' None),
     OfferClient 1 (sample_span CLIENT ''b'' None), OfferClient 60 (sample_span CLIENT ''a'' None)] (new_buffer 60 10)"

text \<open>Without that freshness the TTL is not kept.  Offering a pending span again refreshes its entry but
  leaves it at the front of the dictionary, where the sweep stops at it: the entry behind it is older
  than the TTL, survives the sweep, and is paired.\<close>

theorem stale_match_after_reoffer:
  "reachable 60 10 60 reoffered \<and>
   snd (fst (sweep_expired 70 reoffered)) = [] \<and> fst (fst (sweep_expired 70 reoffered)) = [] \<and>
   fst (offer_server 70 (sample_span SERVER ''s'' (Some ''b'')) reoffered) = Some (sample_span CLIENT ''b'' None) \<and>
   map_of (cb_clients reoffered) (''t'', ''b'') = Some (sample_span CLIENT ''b'' None, 1) \<and>
   70 - 1 > cb_ttl reoffered"
proof -
  let ?a = "sample_span CLIENT ''a'' None" and ?b = "sample_span CLIENT ''b'' None"
  have eq: "reoffered = perform (OfferClient 60 ?a) (perform (OfferClient 1 ?b) (perform (OfferClient 0 ?a) (new_buffer 60 10)))"
    by (simp add: reoffered_def)
  have "reachable 60 10 0 (perform (OfferClient 0 ?a) (new_buffer 60 10))"
    using reachable.call [OF reachable.start [of 60 10 0], of "OfferClient 0 ?a"] by simp
  from reachable.call [OF this, of "OfferClient 1 ?b"]
  have "reachable 60 10 1 (perform (OfferClient 1 ?b) (perform (OfferClient 0 ?a) (new_buffer 60 10)))" by simp
  from reachable.call [OF this, of "OfferClient 60 ?a"] have "reachable 60 10 60 reoffered" by (simp add: eq)
  moreover have "cb_clients reoffered = [((''t'', ''a''), ?a, 60), ((''t'', ''b''), ?b, 1)]" "cb_servers reoffered = []"
    "cb_ttl reoffered = 60" "cb_max reoffered = 10"
    by (simp_all add: reoffered_def new_buffer_def offer_client_def evict_expired_def enforce_bound_def sample_span_def)
  moreover from this have "evict_expired 70 reoffered = reoffered" by (simp add: evict_expired_def)
  ultimately show ?thesis
    by (simp add: sweep_expired_def offer_server_def sample_span_def)
qed

section \<open>Witnesses\<close>

definition one_client :: correlation_buffer where
  "one_client = perform (OfferClient 0 (sample_span CLIENT ''b'' None)) (new_buffer 60 10)"

lemma one_client_fresh: "reachable_fresh 60 10 0 one_client"
  using call_fresh [OF start_fresh [of 60 10 0], of "OfferClient 0 (sample_span CLIENT ''b'' None)"]
  by (simp add: one_client_def new_buffer_def)

lemma one_client_stores:
  "cb_clients one_client = [((''t'', ''b''), sample_span CLIENT ''b'' None, 0)]" "cb_servers one_client = []"
  "cb_ttl one_client = 60" "cb_max one_client = 10"
  by (simp_all add: one_client_def new_buffer_def offer_client_def evict_expired_def enforce_bound_def sample_span_def)

lemma pending_spans_bounded_witness: "length (cb_clients one_client) \<le> 10 \<and> cb_clients one_client \<noteq> []"
  using pending_spans_bounded [OF reachable_fresh_reachable [OF one_client_fresh]] by (simp add: one_client_stores)

lemma one_client_match:
  "fst (offer_server 5 (sample_span SERVER ''s'' (Some ''b'')) one_client) = Some (sample_span CLIENT ''b'' None)"
  by (simp add: offer_server_def evict_expired_def one_client_stores sample_span_def)

lemma offered_match_is_counterpart_witness:
  "client_key (sample_span CLIENT ''b'' None) = server_key (sample_span SERVER ''s'' (Some ''b''))"
  using offered_match_is_counterpart [OF reachable_fresh_reachable [OF one_client_fresh]] one_client_match by blast

lemma fresh_match_within_ttl_witness:
  "\<exists>k i. (k, sample_span CLIENT ''b'' None, i) \<in> set (cb_clients one_client) \<and> 5 - i \<le> 60"
  using fresh_match_within_ttl [OF one_client_fresh] one_client_match by blast

end
