(* ===== verification/ScopedEvidence.thy ===== *)
theory ScopedEvidence
  imports Prelude
begin

text \<open>
  \<open>telemetry/scoped_evidence.py\<close> and the two v1 merges of \<open>telemetry/aggregator.py\<close>: how
  observations of the same identity are folded into one persisted record.  A timestamp is its
  microseconds.  The optional consistency attributes of a record are indexed by the attribute.  The
  record id is a function \<open>key_id\<close> of the six variable identity fields (canonical JSON and SHA-256).
\<close>

datatype consistency_field =
    K8S_NAMESPACE_NAME | K8S_POD_NAME | K8S_DEPLOYMENT_NAME | K8S_STATEFULSET_NAME | K8S_DAEMONSET_NAME

fun field_name :: "consistency_field \<Rightarrow> string" where
  "field_name K8S_NAMESPACE_NAME = ''k8s_namespace_name''"
| "field_name K8S_POD_NAME = ''k8s_pod_name''"
| "field_name K8S_DEPLOYMENT_NAME = ''k8s_deployment_name''"
| "field_name K8S_STATEFULSET_NAME = ''k8s_statefulset_name''"
| "field_name K8S_DAEMONSET_NAME = ''k8s_daemonset_name''"

definition consistency_fields :: "consistency_field list" where
  "consistency_fields = [K8S_NAMESPACE_NAME, K8S_POD_NAME, K8S_DEPLOYMENT_NAME, K8S_STATEFULSET_NAME,
     K8S_DAEMONSET_NAME]"

datatype correlation_mode =
    CLIENT_SERVER | CLIENT_ONLY | SERVER_ONLY | MESSAGING_SEND | MESSAGING_RECEIVE | MESSAGING_PROCESS

fun mode_strength :: "correlation_mode option \<Rightarrow> nat" where
  "mode_strength None = 0"
| "mode_strength (Some MESSAGING_SEND) = 1"
| "mode_strength (Some MESSAGING_RECEIVE) = 1"
| "mode_strength (Some MESSAGING_PROCESS) = 1"
| "mode_strength (Some SERVER_ONLY) = 2"
| "mode_strength (Some CLIENT_ONLY) = 2"
| "mode_strength (Some CLIENT_SERVER) = 3"

definition stronger_correlation_mode ::
  "correlation_mode option \<Rightarrow> correlation_mode option \<Rightarrow> correlation_mode option" where
  "stronger_correlation_mode a b = (if mode_strength a \<ge> mode_strength b then a else b)"

text \<open>The six variable identity fields: environment, day, subject, object, caller cluster, caller Pod.\<close>

type_synonym scoped_key = "string \<times> string \<times> string \<times> string \<times> string \<times> string"

record scoped_call_seed =
  sd_key :: scoped_key
  sd_fact_timestamp :: int
  sd_trace_id :: string
  sd_correlation_mode :: correlation_mode
  sd_names :: "consistency_field \<Rightarrow> string option"
  sd_rule_id :: string
  sd_rule_version :: int

record scoped_observed_call =
  sc_id :: string
  sc_key :: scoped_key
  sc_first_seen :: int
  sc_last_seen :: int
  sc_observation_count :: int
  sc_correlation_mode :: correlation_mode
  sc_sample_trace_ids :: "string list"
  sc_names :: "consistency_field \<Rightarrow> string option"
  sc_conflicts :: "string list"
  sc_rule_id :: string
  sc_rule_version :: int

definition sample_trace_id_limit :: nat where
  "sample_trace_id_limit = 5"

definition record_from_seed :: "(scoped_key \<Rightarrow> string) \<Rightarrow> scoped_call_seed \<Rightarrow> scoped_observed_call" where
  "record_from_seed key_id seed =
     \<lparr>sc_id = key_id (sd_key seed), sc_key = sd_key seed, sc_first_seen = sd_fact_timestamp seed,
      sc_last_seen = sd_fact_timestamp seed, sc_observation_count = 1,
      sc_correlation_mode = sd_correlation_mode seed, sc_sample_trace_ids = [sd_trace_id seed],
      sc_names = sd_names seed, sc_conflicts = [], sc_rule_id = sd_rule_id seed,
      sc_rule_version = sd_rule_version seed\<rparr>"

section \<open>The scoped merge\<close>

datatype merge_error = DifferentIds string string

definition fields_disagree :: "string option \<Rightarrow> string option \<Rightarrow> bool" where
  "fields_disagree old new \<longleftrightarrow> old \<noteq> None \<and> new \<noteq> None \<and> old \<noteq> new"

definition merged_name :: "string set \<Rightarrow> consistency_field \<Rightarrow> string option \<Rightarrow> string option \<Rightarrow> string option" where
  "merged_name conflicts f old new =
     (if field_name f \<in> conflicts \<or> fields_disagree old new then None else if old \<noteq> None then old else new)"

definition merge_records :: "scoped_observed_call \<Rightarrow> scoped_observed_call \<Rightarrow> scoped_observed_call" where
  "merge_records existing seed =
     (let conflicts = sc_conflicts existing @ sc_conflicts seed;
          fresh = filter (\<lambda>f. field_name f \<notin> set conflicts \<and> fields_disagree (sc_names existing f) (sc_names seed f))
                    consistency_fields in
      existing\<lparr>
        sc_names := (\<lambda>f. merged_name (set conflicts) f (sc_names existing f) (sc_names seed f)),
        sc_first_seen := min (sc_first_seen existing) (sc_first_seen seed),
        sc_last_seen := max (sc_last_seen existing) (sc_last_seen seed),
        sc_observation_count := sc_observation_count existing + sc_observation_count seed,
        sc_correlation_mode := the (stronger_correlation_mode (Some (sc_correlation_mode existing))
                                      (Some (sc_correlation_mode seed))),
        sc_sample_trace_ids := take sample_trace_id_limit
          (sorted_set (sc_sample_trace_ids existing @ sc_sample_trace_ids seed)),
        sc_conflicts := sorted_set (conflicts @ map field_name fresh)\<rparr>)"

definition merge_scoped_call ::
  "scoped_observed_call option \<Rightarrow> scoped_observed_call \<Rightarrow> merge_error + scoped_observed_call" where
  "merge_scoped_call existing seed =
     (case existing of None \<Rightarrow> Inr seed
      | Some e \<Rightarrow> if sc_id e \<noteq> sc_id seed then Inl (DifferentIds (sc_id e) (sc_id seed))
                  else Inr (merge_records e seed))"

text \<open>The sequential persistence of a unit's seeds for one id (\<open>_persist_scoped_seed\<close>).\<close>

fun fold_seeds :: "(scoped_key \<Rightarrow> string) \<Rightarrow> scoped_observed_call option \<Rightarrow> scoped_call_seed list
     \<Rightarrow> merge_error + scoped_observed_call option" where
  "fold_seeds key_id existing [] = Inr existing"
| "fold_seeds key_id existing (seed # seeds) =
     (case merge_scoped_call existing (record_from_seed key_id seed) of
        Inl e \<Rightarrow> Inl e
      | Inr r \<Rightarrow> fold_seeds key_id (Some r) seeds)"

section \<open>The v1 merges\<close>

record observed_evidence =
  oe_id :: string
  oe_environment :: string
  oe_bucket_start :: int
  oe_bucket_end :: int
  oe_first_seen :: int
  oe_last_seen :: int
  oe_observation_count :: int
  oe_sample_trace_ids :: "string list"
  oe_service_version :: "string option"
  oe_correlation_mode :: "correlation_mode option"

definition cap_trace_ids :: "string list \<Rightarrow> string list \<Rightarrow> string list" where
  "cap_trace_ids existing new =
     take 5 (foldl (\<lambda>acc t. if t \<in> set acc then acc else acc @ [t]) existing new)"

definition merge_evidence :: "observed_evidence option \<Rightarrow> observed_evidence \<Rightarrow> observed_evidence" where
  "merge_evidence existing seed =
     (case existing of None \<Rightarrow> seed
      | Some e \<Rightarrow> seed\<lparr>oe_first_seen := min (oe_first_seen e) (oe_first_seen seed),
          oe_last_seen := max (oe_last_seen e) (oe_last_seen seed),
          oe_observation_count := oe_observation_count e + oe_observation_count seed,
          oe_sample_trace_ids := cap_trace_ids (oe_sample_trace_ids e) (oe_sample_trace_ids seed),
          oe_correlation_mode := stronger_correlation_mode (oe_correlation_mode e) (oe_correlation_mode seed)\<rparr>)"

text \<open>The consistency attributes of a runtime identity observation, by name.\<close>

definition identity_fields :: "string list" where
  "identity_fields = [''service_version'', ''k8s_pod_name'', ''k8s_namespace_name'', ''k8s_cluster_uid'',
     ''k8s_deployment_name'', ''k8s_statefulset_name'', ''k8s_daemonset_name'']"

record runtime_identity_observation =
  ri_id :: string
  ri_attributes :: "string \<Rightarrow> string option"
  ri_first_seen :: int
  ri_last_seen :: int
  ri_observation_count :: int
  ri_conflicts :: "string list"

definition merge_runtime_identity_observation ::
  "runtime_identity_observation option \<Rightarrow> runtime_identity_observation \<Rightarrow> runtime_identity_observation" where
  "merge_runtime_identity_observation existing seed =
     (case existing of None \<Rightarrow> seed
      | Some e \<Rightarrow>
          let disagree = filter (\<lambda>f. fields_disagree (ri_attributes e f) (ri_attributes seed f)) identity_fields in
          seed\<lparr>ri_attributes := (\<lambda>f. if f \<notin> set identity_fields then ri_attributes seed f
                 else if fields_disagree (ri_attributes e f) (ri_attributes seed f) then None
                 else if ri_attributes e f \<noteq> None then ri_attributes e f else ri_attributes seed f),
               ri_first_seen := min (ri_first_seen e) (ri_first_seen seed),
               ri_last_seen := max (ri_last_seen e) (ri_last_seen seed),
               ri_observation_count := ri_observation_count e + ri_observation_count seed,
               ri_conflicts := sorted_set (ri_conflicts e @ disagree)\<rparr>)"

section \<open>What a record says about the seeds folded into it\<close>

text \<open>The abstract record of a non-empty list of seeds: extrema, a count, the five smallest traces and,
  per consistency field, the only value seen.\<close>

definition known_values :: "consistency_field \<Rightarrow> scoped_call_seed list \<Rightarrow> string list" where
  "known_values f seeds = sorted_set (somes (map (\<lambda>s. sd_names s f) seeds))"

definition agreed_name :: "consistency_field \<Rightarrow> scoped_call_seed list \<Rightarrow> string option" where
  "agreed_name f seeds = (case known_values f seeds of [v] \<Rightarrow> Some v | _ \<Rightarrow> None)"

definition contested :: "consistency_field \<Rightarrow> scoped_call_seed list \<Rightarrow> bool" where
  "contested f seeds \<longleftrightarrow> length (known_values f seeds) \<ge> 2"

definition record_of :: "(scoped_key \<Rightarrow> string) \<Rightarrow> scoped_call_seed list \<Rightarrow> scoped_observed_call" where
  "record_of key_id seeds =
     \<lparr>sc_id = key_id (sd_key (hd seeds)), sc_key = sd_key (hd seeds),
      sc_first_seen = Min (sd_fact_timestamp ` set seeds),
      sc_last_seen = Max (sd_fact_timestamp ` set seeds),
      sc_observation_count = int (length seeds),
      sc_correlation_mode = (if CLIENT_SERVER \<in> sd_correlation_mode ` set seeds then CLIENT_SERVER else CLIENT_ONLY),
      sc_sample_trace_ids = take sample_trace_id_limit (sorted_set (map sd_trace_id seeds)),
      sc_names = (\<lambda>f. agreed_name f seeds),
      sc_conflicts = sorted_set (map field_name (filter (\<lambda>f. contested f seeds) consistency_fields)),
      sc_rule_id = sd_rule_id (hd seeds), sc_rule_version = sd_rule_version (hd seeds)\<rparr>"

text \<open>Seeds of one record: one identity, one normalization rule, an original CLIENT in each.\<close>

definition same_record :: "scoped_call_seed list \<Rightarrow> bool" where
  "same_record seeds \<longleftrightarrow> seeds \<noteq> [] \<and>
     (\<forall>s\<in>set seeds. sd_key s = sd_key (hd seeds) \<and> sd_rule_id s = sd_rule_id (hd seeds)
        \<and> sd_rule_version s = sd_rule_version (hd seeds)
        \<and> sd_correlation_mode s \<in> {CLIENT_SERVER, CLIENT_ONLY})"

section \<open>Merging records is concatenating their seeds\<close>

lemma same_recordD:
  assumes "same_record seeds" "s \<in> set seeds"
  shows "sd_key s = sd_key (hd seeds)" "sd_rule_id s = sd_rule_id (hd seeds)"
    "sd_rule_version s = sd_rule_version (hd seeds)" "sd_correlation_mode s \<in> {CLIENT_SERVER, CLIENT_ONLY}"
  using assms unfolding same_record_def by blast+

lemma same_record_iff:
  "same_record seeds \<longleftrightarrow> seeds \<noteq> [] \<and> (\<exists>k i v. \<forall>s\<in>set seeds.
     sd_key s = k \<and> sd_rule_id s = i \<and> sd_rule_version s = v \<and> sd_correlation_mode s \<in> {CLIENT_SERVER, CLIENT_ONLY})"
  (is "_ \<longleftrightarrow> _ \<and> ?all")
proof
  assume "same_record seeds"
  then show "seeds \<noteq> [] \<and> ?all" unfolding same_record_def by blast
next
  assume a: "seeds \<noteq> [] \<and> ?all"
  then have "hd seeds \<in> set seeds" by simp
  then show "same_record seeds" using a unfolding same_record_def by metis
qed

lemma same_record_append:
  assumes "same_record (xs @ ys)"
  shows "xs \<noteq> [] \<Longrightarrow> same_record xs" "ys \<noteq> [] \<Longrightarrow> same_record ys"
    "xs \<noteq> [] \<Longrightarrow> ys \<noteq> [] \<Longrightarrow> sd_key (hd ys) = sd_key (hd xs)"
proof -
  note all = assms [unfolded same_record_iff set_append]
  show "xs \<noteq> [] \<Longrightarrow> same_record xs" using all unfolding same_record_iff by blast
  show "ys \<noteq> [] \<Longrightarrow> same_record ys" using all unfolding same_record_iff by blast
  assume "xs \<noteq> []" "ys \<noteq> []"
  then have "hd xs \<in> set (xs @ ys)" "hd ys \<in> set (xs @ ys)" by simp_all
  then show "sd_key (hd ys) = sd_key (hd xs)" using same_recordD(1) [OF assms] by metis
qed

lemma field_name_inj: "field_name f = field_name g \<longleftrightarrow> f = g"
  by (cases f; cases g) simp_all

lemma all_consistency_fields [simp]: "f \<in> set consistency_fields"
  by (cases f) (simp_all add: consistency_fields_def)

text \<open>The values a field was seen with, as a set.\<close>

definition seen :: "consistency_field \<Rightarrow> scoped_call_seed list \<Rightarrow> string set" where
  "seen f seeds = set (somes (map (\<lambda>s. sd_names s f) seeds))"

lemma seen_append [simp]: "seen f (xs @ ys) = seen f xs \<union> seen f ys"
  unfolding seen_def by (induction xs) (auto simp: image_iff)

lemma set_known_values: "set (known_values f seeds) = seen f seeds"
  by (simp only: known_values_def seen_def set_sorted_set)

lemma seen_cases:
  obtains (unknown) "seen f seeds = {}" "agreed_name f seeds = None" "\<not> contested f seeds"
  | (agreed) v where "seen f seeds = {v}" "agreed_name f seeds = Some v" "\<not> contested f seeds"
  | (contested) v w where "v \<noteq> w" "{v, w} \<subseteq> seen f seeds" "agreed_name f seeds = None" "contested f seeds"
proof -
  note facts = set_known_values [of f seeds, symmetric] agreed_name_def [of f seeds] contested_def [of f seeds]
  show thesis
  proof (cases "known_values f seeds")
    case Nil
    then show thesis by (intro unknown) (simp_all add: facts)
  next
    case first: (Cons v vs)
    show thesis
    proof (cases vs)
      case Nil
      then show thesis using first by (intro agreed [of v]) (simp_all add: facts)
    next
      case (Cons w ws)
      have "distinct (known_values f seeds)" by (simp only: known_values_def distinct_sorted_set)
      then have "v \<noteq> w" using first Cons by simp
      then show thesis using first Cons by (intro contested [of v w]) (simp_all add: facts)
    qed
  qed
qed

lemma agreed_iff: "agreed_name f seeds = Some v \<longleftrightarrow> seen f seeds = {v}"
proof (cases f seeds rule: seen_cases)
  case unknown
  then show ?thesis by simp
next
  case (agreed w)
  show ?thesis unfolding agreed by auto
next
  case (contested x y)
  have "seen f seeds \<noteq> {v}"
  proof
    assume "seen f seeds = {v}"
    then show False using contested(1,2) by simp
  qed
  then show ?thesis unfolding contested(3) by simp
qed

lemma contested_iff: "contested f seeds \<longleftrightarrow> (\<exists>v w. v \<noteq> w \<and> {v, w} \<subseteq> seen f seeds)"
proof (cases f seeds rule: seen_cases)
  case unknown
  then show ?thesis by simp
next
  case (agreed w)
  then show ?thesis by simp
next
  case (contested x y)
  then show ?thesis by blast
qed

lemma contested_append:
  "contested f (xs @ ys) \<longleftrightarrow>
     contested f xs \<or> contested f ys \<or> fields_disagree (agreed_name f xs) (agreed_name f ys)"
proof
  assume "contested f (xs @ ys)"
  then obtain v w where vw: "v \<noteq> w" "{v, w} \<subseteq> seen f xs \<union> seen f ys" by (auto simp: contested_iff)
  show "contested f xs \<or> contested f ys \<or> fields_disagree (agreed_name f xs) (agreed_name f ys)"
  proof (cases "contested f xs \<or> contested f ys")
    case False
    then have "\<not> {v, w} \<subseteq> seen f xs" "\<not> {v, w} \<subseteq> seen f ys" using vw(1) unfolding contested_iff by blast+
    then obtain a b where ab: "a \<in> seen f xs" "b \<in> seen f ys" "a \<noteq> b" using vw by blast
    then have "seen f xs = {a}" "seen f ys = {b}" using False unfolding contested_iff by blast+
    then have "agreed_name f xs = Some a" "agreed_name f ys = Some b" by (simp_all add: agreed_iff)
    then show ?thesis using ab(3) by (simp add: fields_disagree_def)
  next
    case True
    then show ?thesis by (elim disjE) simp_all
  qed
next
  assume a: "contested f xs \<or> contested f ys \<or> fields_disagree (agreed_name f xs) (agreed_name f ys)"
  show "contested f (xs @ ys)"
  proof (cases "contested f xs \<or> contested f ys")
    case True
    then show ?thesis unfolding contested_iff seen_append by blast
  next
    case False
    then obtain v w where "agreed_name f xs = Some v" "agreed_name f ys = Some w" "v \<noteq> w"
      using a by (auto simp: fields_disagree_def)
    then have "v \<noteq> w" "{v, w} \<subseteq> seen f (xs @ ys)" by (simp_all add: agreed_iff)
    then show ?thesis unfolding contested_iff by blast
  qed
qed

lemma agreed_None_iff: "agreed_name f seeds = None \<longleftrightarrow> seen f seeds = {} \<or> contested f seeds"
proof (cases f seeds rule: seen_cases)
  case unknown
  show ?thesis unfolding unknown by simp
next
  case (agreed v)
  show ?thesis using agreed(3) unfolding agreed by simp
next
  case (contested v w)
  show ?thesis using contested(4) unfolding contested(3) by simp
qed

lemma agreed_append:
  "agreed_name f (xs @ ys) =
     (if contested f (xs @ ys) then None
      else if agreed_name f xs \<noteq> None then agreed_name f xs else agreed_name f ys)"
proof (cases f "xs @ ys" rule: seen_cases)
  case unknown
  then have "agreed_name f xs = None" "agreed_name f ys = None" by (simp_all add: agreed_None_iff)
  then show ?thesis using unknown(2) by simp
next
  case (agreed v)
  have union: "seen f xs \<union> seen f ys = {v}" using agreed(1) by simp
  have "agreed_name f xs = Some v \<or> agreed_name f xs = None \<and> agreed_name f ys = Some v"
  proof (cases "seen f xs = {}")
    case True
    then show ?thesis using union by (simp add: agreed_iff agreed_None_iff)
  next
    case False
    moreover have "seen f xs \<subseteq> {v}" using union Un_upper1 [of "seen f xs" "seen f ys"] by simp
    ultimately have "seen f xs = {v}" using subset_singletonD by metis
    then show ?thesis by (simp add: agreed_iff)
  qed
  then show ?thesis
  proof
    assume xs: "agreed_name f xs = Some v"
    show ?thesis unfolding agreed(2) xs using agreed(3) by simp
  next
    assume "agreed_name f xs = None \<and> agreed_name f ys = Some v"
    then have xs: "agreed_name f xs = None" and ys: "agreed_name f ys = Some v" by simp_all
    show ?thesis unfolding agreed(2) xs ys using agreed(3) by simp
  qed
next
  case (contested v w)
  then show ?thesis by simp
qed

lemma mem_record_conflicts:
  "field_name f \<in> set (sc_conflicts (record_of key_id seeds)) \<longleftrightarrow> contested f seeds"
  by (auto simp: record_of_def field_name_inj)

lemma merge_record_of:
  assumes "same_record (xs @ ys)" "xs \<noteq> []" "ys \<noteq> []"
  shows "merge_records (record_of key_id xs) (record_of key_id ys) = record_of key_id (xs @ ys)"
proof -
  let ?c = "sc_conflicts (record_of key_id xs) @ sc_conflicts (record_of key_id ys)"
  have mem: "field_name f \<in> set ?c \<longleftrightarrow> contested f xs \<or> contested f ys" for f
    by (simp add: mem_record_conflicts)
  have names: "merged_name (set ?c) f (agreed_name f xs) (agreed_name f ys) = agreed_name f (xs @ ys)" for f
    unfolding merged_name_def mem agreed_append [of f xs ys] contested_append by simp
  have conflicts: "sorted_set (?c @ map field_name (filter (\<lambda>f. field_name f \<notin> set ?c
        \<and> fields_disagree (agreed_name f xs) (agreed_name f ys)) consistency_fields))
      = sorted_set (map field_name (filter (\<lambda>f. contested f (xs @ ys)) consistency_fields))"
  proof (rule sorted_set_cong)
    have "set (sc_conflicts (record_of key_id zs)) = field_name ` {f. contested f zs}" for zs
      by (auto simp: record_of_def)
    then show "set (?c @ map field_name (filter (\<lambda>f. field_name f \<notin> set ?c
        \<and> fields_disagree (agreed_name f xs) (agreed_name f ys)) consistency_fields))
      = set (map field_name (filter (\<lambda>f. contested f (xs @ ys)) consistency_fields))"
      unfolding mem by (auto simp: contested_append)
  qed
  have sel: "sc_names (record_of key_id zs) = (\<lambda>f. agreed_name f zs)" for zs by (simp add: record_of_def)
  have merged: "merge_records (record_of key_id xs) (record_of key_id ys) =
      (record_of key_id xs)\<lparr>
        sc_names := (\<lambda>f. agreed_name f (xs @ ys)),
        sc_first_seen := min (sc_first_seen (record_of key_id xs)) (sc_first_seen (record_of key_id ys)),
        sc_last_seen := max (sc_last_seen (record_of key_id xs)) (sc_last_seen (record_of key_id ys)),
        sc_observation_count := sc_observation_count (record_of key_id xs) + sc_observation_count (record_of key_id ys),
        sc_correlation_mode := the (stronger_correlation_mode (Some (sc_correlation_mode (record_of key_id xs)))
                                      (Some (sc_correlation_mode (record_of key_id ys)))),
        sc_sample_trace_ids := take sample_trace_id_limit
          (sorted_set (sc_sample_trace_ids (record_of key_id xs) @ sc_sample_trace_ids (record_of key_id ys))),
        sc_conflicts := sorted_set (map field_name (filter (\<lambda>f. contested f (xs @ ys)) consistency_fields))\<rparr>"
    unfolding merge_records_def Let_def sel names conflicts ..
  show ?thesis
    unfolding merged using assms(2,3)
    by (simp add: record_of_def take_sorted_set_union image_Un stronger_correlation_mode_def Min_Un Max_Un)
qed

section \<open>Evidence that represents a bag of seeds\<close>

text \<open>The contract of a merge whose records describe the seeds folded into them and not their order.\<close>

locale seed_evidence =
  fixes single :: "'s \<Rightarrow> 'r" and merge :: "'r \<Rightarrow> 'r \<Rightarrow> 'r" and rep :: "'s list \<Rightarrow> 'r"
    and mergeable :: "'s list \<Rightarrow> bool"
  assumes rep_single: "mergeable [s] \<Longrightarrow> rep [s] = single s"
    and rep_append: "mergeable (xs @ ys) \<Longrightarrow> xs \<noteq> [] \<Longrightarrow> ys \<noteq> [] \<Longrightarrow> merge (rep xs) (rep ys) = rep (xs @ ys)"
    and rep_perm: "mergeable xs \<Longrightarrow> mset xs = mset ys \<Longrightarrow> rep xs = rep ys"
    and mergeable_append: "mergeable (xs @ ys) \<Longrightarrow> xs \<noteq> [] \<Longrightarrow> mergeable xs"
      "mergeable (xs @ ys) \<Longrightarrow> ys \<noteq> [] \<Longrightarrow> mergeable ys"
begin

lemma fold_from: "mergeable (xs @ ys) \<Longrightarrow> xs \<noteq> [] \<Longrightarrow>
    foldl (\<lambda>r s. merge r (single s)) (rep xs) ys = rep (xs @ ys)"
proof (induction ys arbitrary: xs)
  case Nil
  then show ?case by simp
next
  case (Cons y ys)
  have all: "mergeable ((xs @ [y]) @ ys)" using Cons.prems(1) by simp
  then have "mergeable (xs @ [y])" by (rule mergeable_append(1)) simp
  moreover from this have "mergeable [y]" by (rule mergeable_append(2)) simp
  ultimately have "merge (rep xs) (single y) = rep (xs @ [y])"
    using rep_append [of xs "[y]"] rep_single Cons.prems(2) by simp
  then show ?case using Cons.IH [OF all] by simp
qed

lemma fold_is_rep: "mergeable (x # xs) \<Longrightarrow> foldl (\<lambda>r s. merge r (single s)) (single x) xs = rep (x # xs)"
  using fold_from [of "[x]" xs] mergeable_append(1) [of "[x]" xs] rep_single [of x] by simp

lemma groups_are_rep:
  "mergeable (concat (g # gs)) \<Longrightarrow> [] \<notin> set (g # gs) \<Longrightarrow>
     foldl (\<lambda>r g. merge r (rep g)) (rep g) gs = rep (concat (g # gs))"
proof (induction gs arbitrary: g)
  case Nil
  then show ?case by simp
next
  case (Cons h hs)
  have "mergeable ((g @ h) @ concat hs)" using Cons.prems(1) by simp
  then have "mergeable (g @ h)" by (rule mergeable_append(1)) (use Cons.prems(2) in auto)
  then have "merge (rep g) (rep h) = rep (g @ h)" using rep_append [of g h] Cons.prems(2) by auto
  moreover have "mergeable (concat ((g @ h) # hs))" "[] \<notin> set ((g @ h) # hs)" using Cons.prems by auto
  ultimately show ?case using Cons.IH [of "g @ h"] by simp
qed

end

lemma same_record_mset: "mset xs = mset ys \<Longrightarrow> same_record xs = same_record ys"
proof -
  assume eq: "mset xs = mset ys"
  then have sets: "set xs = set ys" by (rule mset_eq_setD)
  have empty: "xs = [] \<longleftrightarrow> ys = []" using arg_cong [OF eq, of "\<lambda>m. m = {#}"] by (simp only: mset_zero_iff)
  show ?thesis unfolding same_record_iff sets empty ..
qed

lemma mem_seen: "v \<in> seen f xs \<longleftrightarrow> Some v \<in> (\<lambda>s. sd_names s f) ` set xs"
  unfolding seen_def set_somes set_map ..

lemma seen_cong: "set xs = set ys \<Longrightarrow> seen f xs = seen f ys"
  by (rule set_eqI) (simp only: mem_seen)

lemma record_of_perm:
  assumes "same_record xs" "mset xs = mset ys"
  shows "record_of key_id xs = record_of key_id ys"
proof -
  have sets: "set xs = set ys" using assms(2) by (rule mset_eq_setD)
  have "same_record ys" using assms(1) unfolding same_record_mset [OF assms(2)] .
  then have "ys \<noteq> []" unfolding same_record_def by (rule conjunct1)
  then have "hd ys \<in> set xs" by (simp add: sets)
  note heads = same_recordD [OF assms(1) this]
  have "known_values f xs = known_values f ys" for f
    unfolding known_values_def by (rule sorted_set_cong) (rule seen_cong [OF sets, of f, unfolded seen_def])
  then have names: "agreed_name f xs = agreed_name f ys" "contested f xs = contested f ys" for f
    by (simp_all only: agreed_name_def contested_def)
  have traces: "sorted_set (map sd_trace_id xs) = sorted_set (map sd_trace_id ys)"
    by (rule sorted_set_cong) (simp only: set_map sets)
  show ?thesis
    unfolding record_of_def sets names traces heads(1-3) using mset_eq_length [OF assms(2)] by simp
qed

lemma record_of_single: "same_record [s] \<Longrightarrow> record_of key_id [s] = record_from_seed key_id s"
proof -
  assume a: "same_record [s]"
  have seen: "seen f [s] = set_option (sd_names s f)" for f
    by (cases "sd_names s f") (simp_all add: seen_def)
  have "agreed_name f [s] = sd_names s f" for f
  proof (cases "sd_names s f")
    case None
    then show ?thesis using seen [of f] by (simp add: agreed_None_iff)
  next
    case (Some v)
    then show ?thesis using seen [of f] by (simp add: agreed_iff)
  qed
  moreover have "\<not> contested f [s]" for f
  proof
    assume "contested f [s]"
    then obtain v w where "v \<noteq> w" "{v, w} \<subseteq> set_option (sd_names s f)" by (auto simp: contested_iff seen)
    then show False by (cases "sd_names s f") simp_all
  qed
  moreover have "sd_correlation_mode s \<in> {CLIENT_SERVER, CLIENT_ONLY}" using same_recordD(4) [OF a] by simp
  ultimately show ?thesis by (auto simp: record_of_def record_from_seed_def sample_trace_id_limit_def)
qed

interpretation scoped: seed_evidence "record_from_seed key_id" merge_records "record_of key_id" same_record
  for key_id
proof
  fix s :: scoped_call_seed and xs ys :: "scoped_call_seed list"
  show "same_record [s] \<Longrightarrow> record_of key_id [s] = record_from_seed key_id s" by (rule record_of_single)
  show "same_record (xs @ ys) \<Longrightarrow> xs \<noteq> [] \<Longrightarrow> ys \<noteq> [] \<Longrightarrow>
      merge_records (record_of key_id xs) (record_of key_id ys) = record_of key_id (xs @ ys)"
    by (rule merge_record_of)
  show "same_record xs \<Longrightarrow> mset xs = mset ys \<Longrightarrow> record_of key_id xs = record_of key_id ys"
    by (rule record_of_perm)
  show "same_record (xs @ ys) \<Longrightarrow> xs \<noteq> [] \<Longrightarrow> same_record xs" by (rule same_record_append(1))
  show "same_record (xs @ ys) \<Longrightarrow> ys \<noteq> [] \<Longrightarrow> same_record ys" by (rule same_record_append(2))
qed

section \<open>The persisted fold\<close>

lemma merge_records_id [simp]: "sc_id (merge_records r s) = sc_id r"
  by (simp add: merge_records_def Let_def)

lemma record_ids [simp]:
  "sc_id (record_from_seed key_id s) = key_id (sd_key s)"
  "sc_id (record_of key_id seeds) = key_id (sd_key (hd seeds))"
  by (simp_all add: record_from_seed_def record_of_def)

lemma fold_seeds_foldl:
  "\<forall>s\<in>set seeds. key_id (sd_key s) = sc_id r \<Longrightarrow>
     fold_seeds key_id (Some r) seeds
       = Inr (Some (foldl (\<lambda>r s. merge_records r (record_from_seed key_id s)) r seeds))"
  by (induction seeds arbitrary: r) (simp_all add: merge_scoped_call_def)

lemma fold_seeds_record_of:
  assumes "same_record seeds"
  shows "fold_seeds key_id None seeds = Inr (Some (record_of key_id seeds))"
proof (cases seeds)
  case Nil
  then show ?thesis using assms unfolding same_record_def by simp
next
  case (Cons s ss)
  have "sd_key t = sd_key s" if "t \<in> set ss" for t
    using same_recordD(1) [OF assms, of t] that Cons by simp
  then have "\<forall>t\<in>set ss. key_id (sd_key t) = sc_id (record_from_seed key_id s)"
    unfolding record_ids by metis
  from fold_seeds_foldl [OF this] show ?thesis
    using scoped.fold_is_rep [of s ss key_id] assms unfolding Cons
    by (simp add: merge_scoped_call_def)
qed

text \<open>C27: the seeds of one identity, folded one at a time as a unit persists them, give exactly the
  record that describes them: the extreme fact timestamps, their number, the stronger correlation mode,
  the five smallest trace ids, each consistency name that was seen with one value only, and a flag for
  each that was seen with several.\<close>

theorem scoped_fold_refines_record:
  assumes "same_record seeds"
  shows "fold_seeds key_id None seeds = Inr (Some (record_of key_id seeds))"
  using assms by (rule fold_seeds_record_of)

text \<open>The record of an identity does not depend on the order in which its interactions arrived.\<close>

theorem scoped_fold_order_independent:
  assumes "same_record seeds" "mset seeds = mset seeds'"
  shows "fold_seeds key_id None seeds = fold_seeds key_id None seeds'"
  using assms same_record_mset [OF assms(2)] record_of_perm [OF assms]
  by (simp add: fold_seeds_record_of)

text \<open>Merging the records of two groups of interactions of one identity is persisting them all one
  after the other, so a different split of the same interactions into units gives the same record.\<close>

theorem scoped_merge_of_groups:
  assumes "same_record (xs @ ys)"
    and "fold_seeds key_id None xs = Inr (Some a)" "fold_seeds key_id None ys = Inr (Some b)"
  shows "\<exists>r. merge_scoped_call (Some a) b = Inr r \<and> fold_seeds key_id None (xs @ ys) = Inr (Some r)"
proof -
  have nonempty: "xs \<noteq> []" "ys \<noteq> []" using assms(2,3) by auto
  note parts = same_record_append [OF assms(1)]
  have "a = record_of key_id xs" "b = record_of key_id ys"
    using assms(2,3) parts(1,2) nonempty by (simp_all add: fold_seeds_record_of)
  then show ?thesis
    using parts(3) nonempty merge_record_of [OF assms(1) nonempty] fold_seeds_record_of [OF assms(1)]
    by (simp add: merge_scoped_call_def)
qed

text \<open>A consistency name flagged as conflicting in either of two merged records is withheld from the
  result and stays flagged there, whatever value the other record carries.\<close>

theorem flagged_name_stays_withheld:
  assumes "merge_scoped_call (Some existing) seed = Inr merged"
    and "field_name f \<in> set (sc_conflicts existing) \<union> set (sc_conflicts seed)"
  shows "sc_names merged f = None \<and> field_name f \<in> set (sc_conflicts merged)"
proof -
  have "merged = merge_records existing seed" using assms(1) by (simp add: merge_scoped_call_def split: if_splits)
  then show ?thesis using assms(2) by (auto simp: merge_records_def Let_def merged_name_def)
qed

section \<open>Concrete evidence\<close>

definition sample_key_id :: "scoped_key \<Rightarrow> string" where
  "sample_key_id k = fst (snd (snd k))"

definition sample_seed :: "int \<Rightarrow> string \<Rightarrow> string option \<Rightarrow> int \<Rightarrow> scoped_call_seed" where
  "sample_seed t trace pod version =
     \<lparr>sd_key = (''prod'', ''2026-01-01'', ''orders'', ''billing'', ''c1'', ''p1''), sd_fact_timestamp = t,
      sd_trace_id = trace, sd_correlation_mode = CLIENT_SERVER,
      sd_names = (\<lambda>f. if f = K8S_POD_NAME then pod else None), sd_rule_id = ''rule'', sd_rule_version = version\<rparr>"

definition sample_seeds :: "scoped_call_seed list" where
  "sample_seeds = [sample_seed 7 ''t2'' (Some ''a'') 1, sample_seed 3 ''t1'' (Some ''b'') 1, sample_seed 5 ''t1'' None 1]"

lemma sample_seeds_same_record: "same_record sample_seeds" "same_record (rev sample_seeds)"
  by (simp_all add: same_record_iff sample_seeds_def sample_seed_def)

lemma scoped_fold_refines_record_witness:
  "fold_seeds sample_key_id None sample_seeds = Inr (Some (record_of sample_key_id sample_seeds))"
  by (rule scoped_fold_refines_record) (rule sample_seeds_same_record)

lemma scoped_fold_order_independent_witness:
  "fold_seeds sample_key_id None sample_seeds = fold_seeds sample_key_id None (rev sample_seeds)"
  by (rule scoped_fold_order_independent) (simp_all add: sample_seeds_same_record)

lemma scoped_merge_of_groups_witness:
  "\<exists>r. merge_scoped_call (Some (record_of sample_key_id (take 1 sample_seeds)))
         (record_of sample_key_id (drop 1 sample_seeds)) = Inr r
     \<and> fold_seeds sample_key_id None (take 1 sample_seeds @ drop 1 sample_seeds) = Inr (Some r)"
proof (rule scoped_merge_of_groups)
  show all: "same_record (take 1 sample_seeds @ drop 1 sample_seeds)" by (simp add: sample_seeds_same_record)
  have "take 1 sample_seeds \<noteq> []" "drop 1 sample_seeds \<noteq> []" by (simp_all add: sample_seeds_def)
  note parts = same_record_append(1,2) [OF all] this
  show "fold_seeds sample_key_id None (take 1 sample_seeds)
      = Inr (Some (record_of sample_key_id (take 1 sample_seeds)))"
    by (rule fold_seeds_record_of) (use parts in blast)
  show "fold_seeds sample_key_id None (drop 1 sample_seeds)
      = Inr (Some (record_of sample_key_id (drop 1 sample_seeds)))"
    by (rule fold_seeds_record_of) (use parts in blast)
qed

lemma flagged_name_stays_withheld_witness:
  "\<exists>e s r. merge_scoped_call (Some e) s = Inr r \<and> sc_names s K8S_POD_NAME = Some ''a''
     \<and> sc_names r K8S_POD_NAME = None \<and> field_name K8S_POD_NAME \<in> set (sc_conflicts r)"
proof -
  let ?s = "record_from_seed sample_key_id (sample_seed 7 ''t2'' (Some ''a'') 1)"
  let ?e = "?s\<lparr>sc_names := (\<lambda>f. None), sc_conflicts := [''k8s_pod_name'']\<rparr>"
  have "merge_scoped_call (Some ?e) ?s = Inr (merge_records ?e ?s)" by (simp add: merge_scoped_call_def)
  moreover have "sc_names ?s K8S_POD_NAME = Some ''a''" by (simp add: record_from_seed_def sample_seed_def)
  ultimately show ?thesis using flagged_name_stays_withheld [of ?e ?s _ K8S_POD_NAME] by force
qed

text \<open>Across normalization rule versions the fold is not order-independent: the record keeps the rule
  version of the interaction that arrived first.\<close>

theorem rule_version_of_first_arrival:
  "fold_seeds sample_key_id None [sample_seed 1 ''t1'' None 1, sample_seed 1 ''t1'' None 2]
     \<noteq> fold_seeds sample_key_id None [sample_seed 1 ''t1'' None 2, sample_seed 1 ''t1'' None 1]"
proof -
  have v: "sc_rule_version (merge_records r s) = sc_rule_version r" for r s by (simp add: merge_records_def Let_def)
  have "sc_rule_version (merge_records (record_from_seed sample_key_id (sample_seed 1 ''t1'' None 1))
          (record_from_seed sample_key_id (sample_seed 1 ''t1'' None 2)))
      \<noteq> sc_rule_version (merge_records (record_from_seed sample_key_id (sample_seed 1 ''t1'' None 2))
          (record_from_seed sample_key_id (sample_seed 1 ''t1'' None 1)))"
    unfolding v by (simp add: record_from_seed_def sample_seed_def)
  then show ?thesis by (auto simp: merge_scoped_call_def sample_seed_def)
qed

end
