(* ===== verification/PyValues.thy ===== *)
theory PyValues
  imports Prelude
begin

text \<open>
  A parsed YAML or JSON value as the adapters inspect it with \<open>isinstance\<close> and \<open>dict.get\<close>.  A
  dictionary is its item list; \<open>POther\<close> is a scalar of any other type (a float, a date) with its
  \<open>str\<close> and its truth value.
\<close>

datatype py = PNone | PBool bool | PInt int | PStr string | PList "py list" | PDict "(py \<times> py) list"
  | POther string bool

type_synonym py_dict = "(py \<times> py) list"

fun truthy :: "py \<Rightarrow> bool" where
  "truthy PNone = False"
| "truthy (PBool b) = b"
| "truthy (PInt i) = (i \<noteq> 0)"
| "truthy (PStr s) = (s \<noteq> [])"
| "truthy (PList xs) = (xs \<noteq> [])"
| "truthy (PDict d) = (d \<noteq> [])"
| "truthy (POther s b) = b"

definition get_or :: "string \<Rightarrow> py \<Rightarrow> py_dict \<Rightarrow> py" where
  "get_or k v d = (case map_of d (PStr k) of None \<Rightarrow> v | Some x \<Rightarrow> x)"

definition get :: "string \<Rightarrow> py_dict \<Rightarrow> py" where
  "get k d = get_or k PNone d"

fun as_dict :: "py \<Rightarrow> py_dict" where
  "as_dict (PDict d) = d"
| "as_dict _ = []"

fun as_str :: "py \<Rightarrow> string" where
  "as_str (PStr s) = s"
| "as_str _ = []"

fun non_empty_str :: "py \<Rightarrow> string option" where
  "non_empty_str (PStr s) = (if s = [] then None else Some s)"
| "non_empty_str _ = None"

text \<open>\<open>None\<close> or a string; \<open>Inl ()\<close> is a value of another type.\<close>

fun optional_str :: "py \<Rightarrow> unit + string option" where
  "optional_str PNone = Inr None"
| "optional_str (PStr s) = Inr (Some s)"
| "optional_str _ = Inl ()"

text \<open>An f-string field.\<close>

definition py_text :: "(py \<Rightarrow> string) \<Rightarrow> py \<Rightarrow> string" where
  "py_text repr v = (case v of PNone \<Rightarrow> ''None'' | PBool b \<Rightarrow> (if b then ''True'' else ''False'')
     | PInt i \<Rightarrow> show_int i | PStr s \<Rightarrow> s | POther s _ \<Rightarrow> s | _ \<Rightarrow> repr v)"

text \<open>The parts of a value are smaller than the value.\<close>

lemma py_size_item [termination_simp]: "kv \<in> set d \<Longrightarrow> size (snd kv) < size (PDict d)"
  by (induction d) auto

lemma py_size_element [termination_simp]: "v \<in> set xs \<Longrightarrow> size v < size (PList xs)"
  by (induction xs) auto

end
