(* ===== verification/KubernetesMapping.thy ===== *)
theory KubernetesMapping
  imports CanonicalModel Encoding PyValues
begin

text \<open>
  \<open>sources/kubernetes_mapping.py\<close>: every admitted resource of a Kubernetes bundle is
  classified, validated, projected to its allowlisted fields and merged with its duplicates.
  Outside the repository and so parameters, in
  \<open>kubernetes_library\<close>: SHA-256, the RFC 8785 bytes of a list of Ingress paths, of a projection, and of
  a projection with the captured UID, and \<open>repr\<close> of a container.  An uncaught exception is a value of \<open>raised\<close>.
\<close>

section \<open>Kinds\<close>

abbreviation "NAMESPACE_KIND \<equiv> ''Namespace''"
abbreviation "POD_KIND \<equiv> ''Pod''"
abbreviation "SERVICE_KIND \<equiv> ''Service''"
abbreviation "DEPLOYMENT_KIND \<equiv> ''Deployment''"
abbreviation "STATEFULSET_KIND \<equiv> ''StatefulSet''"
abbreviation "DAEMONSET_KIND \<equiv> ''DaemonSet''"
abbreviation "REPLICASET_KIND \<equiv> ''ReplicaSet''"
abbreviation "INGRESS_KIND \<equiv> ''Ingress''"

definition workload_kinds :: "string list" where
  "workload_kinds = [DEPLOYMENT_KIND, STATEFULSET_KIND, DAEMONSET_KIND]"

definition api_group :: "string \<Rightarrow> string" where
  "api_group api_version = rev (drop 1 (dropWhile (\<lambda>c. c \<noteq> CHR ''/'') (rev api_version)))"

definition expected_resource_types :: "string list" where
  "expected_resource_types = [''v1/Namespace'', ''v1/Pod'', ''v1/Service'', ''apps/v1/Deployment'',
     ''apps/v1/StatefulSet'', ''apps/v1/DaemonSet'', ''apps/v1/ReplicaSet'', ''networking.k8s.io/v1/Ingress'']"

record kubernetes_resource_entry =
  kr_source_pointer :: string
  kr_document :: py_dict

text \<open>The type key of a document; \<open>None\<close> when a part is not a string, whose \<open>str\<close>
  is no part of any expected type.\<close>

definition resource_type_key :: "py_dict \<Rightarrow> string option" where
  "resource_type_key d = (case (get ''apiVersion'' d, get ''kind'' d) of
     (PStr v, PStr k) \<Rightarrow> Some (v @ ''/'' @ k) | _ \<Rightarrow> None)"

definition is_admitted :: "py_dict \<Rightarrow> bool" where
  "is_admitted d = (case resource_type_key d of None \<Rightarrow> False | Some k \<Rightarrow> k \<in> set expected_resource_types)"

definition is_namespaced :: "string \<Rightarrow> bool" where
  "is_namespaced kind = (kind \<noteq> NAMESPACE_KIND)"

definition kind_of :: "py_dict \<Rightarrow> string" where
  "kind_of d = as_str (get ''kind'' d)"

definition api_version_of :: "py_dict \<Rightarrow> string" where
  "api_version_of d = as_str (get ''apiVersion'' d)"

definition metadata_of :: "py_dict \<Rightarrow> py_dict" where
  "metadata_of d = as_dict (get ''metadata'' d)"

definition entity_kind_for :: "string \<Rightarrow> infrastructure_entity_kind option" where
  "entity_kind_for kind =
     (if kind \<in> set workload_kinds then Some KUBERNETES_WORKLOAD
      else if kind = POD_KIND then Some KUBERNETES_POD
      else if kind = SERVICE_KIND then Some KUBERNETES_NETWORK_SERVICE
      else if kind = INGRESS_KIND then Some KUBERNETES_INGRESS else None)"

definition kubernetes_logical_resource_id ::
  "(bytes \<Rightarrow> string) \<Rightarrow> string \<Rightarrow> string \<Rightarrow> string \<Rightarrow> string \<Rightarrow> string \<Rightarrow> string option" where
  "kubernetes_logical_resource_id H cluster_uid grp kind namespace name =
     owned_id H ''urn:aip:k8s-resource:''
       (length_delimited [utf8 cluster_uid, utf8 grp, utf8 kind, utf8 namespace, utf8 name])"

section \<open>Projections\<close>

record owner_reference =
  or_api_version :: string
  or_kind :: string
  or_name :: string
  or_uid :: string
  or_controller :: bool

definition owner_reference_or_error :: "py \<Rightarrow> string + owner_reference" where
  "owner_reference_or_error ref = (case ref of
     PDict d \<Rightarrow>
       (case (non_empty_str (get ''apiVersion'' d), non_empty_str (get ''kind'' d),
              non_empty_str (get ''name'' d), non_empty_str (get ''uid'' d)) of
          (Some v, Some k, Some n, Some u) \<Rightarrow>
            (case get_or ''controller'' (PBool False) d of
               PBool c \<Rightarrow> Inr \<lparr>or_api_version = v, or_kind = k, or_name = n, or_uid = u, or_controller = c\<rparr>
             | _ \<Rightarrow> Inl ''metadata.ownerReferences[].controller must be a boolean'')
        | _ \<Rightarrow> Inl ''metadata.ownerReferences entries require non-empty string apiVersion/kind/name/uid'')
   | _ \<Rightarrow> Inl ''metadata.ownerReferences entries must be objects'')"

definition owner_references_or_error :: "py \<Rightarrow> string + owner_reference list" where
  "owner_references_or_error raw = (case raw of
     PNone \<Rightarrow> Inr []
   | PList refs \<Rightarrow>
       (case traverse owner_reference_or_error refs of Inl e \<Rightarrow> Inl e
        | Inr rs \<Rightarrow> Inr (sort_key (\<lambda>r. (or_api_version r, or_kind r, or_name r, or_uid r)) rs))
   | _ \<Rightarrow> Inl ''metadata.ownerReferences must be a list'')"

definition string_map_or_error :: "py \<Rightarrow> string \<Rightarrow> string + (string \<times> string) list" where
  "string_map_or_error raw field = (case raw of
     PNone \<Rightarrow> Inr []
   | PDict items \<Rightarrow> traverse (\<lambda>item. case item of (PStr k, PStr v) \<Rightarrow> Inr (k, v)
       | _ \<Rightarrow> Inl (field @ '' keys/values must be strings'')) items
   | _ \<Rightarrow> Inl (field @ '' must be a mapping''))"

definition service_port_or_error :: "py \<Rightarrow> string + infrastructure_port" where
  "service_port_or_error entry = (case entry of
     PDict d \<Rightarrow>
       (case optional_str (get ''name'' d) of
          Inl _ \<Rightarrow> Inl ''spec.ports[].name must be a string''
        | Inr name \<Rightarrow>
            (case non_empty_str (get_or ''protocol'' (PStr ''TCP'') d) of
               None \<Rightarrow> Inl ''spec.ports[].protocol must be a non-empty string''
             | Some protocol \<Rightarrow>
                 (case get ''port'' d of
                    PInt port \<Rightarrow> Inr \<lparr>port_name = name, port_protocol = protocol, port_port = port\<rparr>
                  | _ \<Rightarrow> Inl ''spec.ports[].port must be an integer'')))
   | _ \<Rightarrow> Inl ''spec.ports entries must be objects'')"

definition service_ports_or_error :: "py \<Rightarrow> string + infrastructure_port list" where
  "service_ports_or_error raw = (case raw of
     PNone \<Rightarrow> Inr []
   | PList entries \<Rightarrow>
       (case traverse service_port_or_error entries of Inl e \<Rightarrow> Inl e
        | Inr ports \<Rightarrow> Inr (sort_key port_sort_key ports))
   | _ \<Rightarrow> Inl ''spec.ports must be a list'')"

datatype ingress_backend = ResourceBackend | ServiceBackend string "string option" "int option"

definition backend_port_or_error :: "string \<Rightarrow> py_dict \<Rightarrow> string + ingress_backend option" where
  "backend_port_or_error name port =
     (case optional_str (get ''name'' port) of
        Inl _ \<Rightarrow> Inl ''ingress backend.service.port.name must be a string''
      | Inr pname \<Rightarrow>
          (case get ''number'' port of
             PNone \<Rightarrow>
               (if pname = None then Inl ''ingress backend.service.port must set name or number''
                else Inr (Some (ServiceBackend name pname None)))
           | PInt number \<Rightarrow>
               (if pname \<noteq> None then Inl ''ingress backend.service.port must not set both name and number''
                else Inr (Some (ServiceBackend name None (Some number))))
           | _ \<Rightarrow> Inl ''ingress backend.service.port.number must be an integer''))"

definition ingress_backend_or_error :: "py \<Rightarrow> string + ingress_backend option" where
  "ingress_backend_or_error raw = (case raw of
     PNone \<Rightarrow> Inr None
   | PDict d \<Rightarrow>
       (if get ''service'' d \<noteq> PNone \<and> get ''resource'' d \<noteq> PNone then
          Inl ''ingress backend must not set both service and resource''
        else if get ''service'' d = PNone \<and> get ''resource'' d \<noteq> PNone then Inr (Some ResourceBackend)
        else
          (case get ''service'' d of
             PDict service \<Rightarrow>
               (case non_empty_str (get ''name'' service) of
                  None \<Rightarrow> Inl ''ingress backend.service.name must be a non-empty string''
                | Some name \<Rightarrow>
                    (case get ''port'' service of
                       PDict port \<Rightarrow> backend_port_or_error name port
                     | _ \<Rightarrow> Inl ''ingress backend.service.port must be an object''))
           | _ \<Rightarrow> Inl ''ingress backend.service must be an object''))
   | _ \<Rightarrow> Inl ''ingress backend must be an object'')"

record ingress_path =
  ip_path :: "string option"
  ip_path_type :: "string option"
  ip_backend :: "ingress_backend option"

record ingress_rule =
  ir_host :: "string option"
  ir_paths :: "ingress_path list"

definition ingress_path_or_error :: "py \<Rightarrow> string + ingress_path" where
  "ingress_path_or_error entry = (case entry of
     PDict d \<Rightarrow>
       (case optional_str (get ''path'' d) of
          Inl _ \<Rightarrow> Inl ''spec.rules[].http.paths[].path must be a string''
        | Inr path \<Rightarrow>
            (case optional_str (get ''pathType'' d) of
               Inl _ \<Rightarrow> Inl ''spec.rules[].http.paths[].pathType must be a string''
             | Inr path_type \<Rightarrow>
                 (case ingress_backend_or_error (get ''backend'' d) of
                    Inl e \<Rightarrow> Inl e
                  | Inr backend \<Rightarrow> Inr \<lparr>ip_path = path, ip_path_type = path_type, ip_backend = backend\<rparr>)))
   | _ \<Rightarrow> Inl ''spec.rules[].http.paths entries must be objects'')"

definition ingress_paths_or_error :: "py \<Rightarrow> string + ingress_path list" where
  "ingress_paths_or_error http = (case http of
     PNone \<Rightarrow> Inr []
   | PDict h \<Rightarrow>
       (case get ''paths'' h of
          PNone \<Rightarrow> Inr []
        | PList raw_paths \<Rightarrow> traverse ingress_path_or_error raw_paths
        | _ \<Rightarrow> Inl ''spec.rules[].http.paths must be a list'')
   | _ \<Rightarrow> Inl ''spec.rules[].http must be an object'')"

definition ingress_rule_or_error :: "py \<Rightarrow> string + ingress_rule" where
  "ingress_rule_or_error rule = (case rule of
     PDict d \<Rightarrow>
       (case optional_str (get ''host'' d) of
          Inl _ \<Rightarrow> Inl ''spec.rules[].host must be a string''
        | Inr host \<Rightarrow>
            (case ingress_paths_or_error (get ''http'' d) of
               Inl e \<Rightarrow> Inl e
             | Inr paths \<Rightarrow> Inr \<lparr>ir_host = host,
                 ir_paths = sort_key (\<lambda>p. (str_or (ip_path p) [], str_or (ip_path_type p) [])) paths\<rparr>))
   | _ \<Rightarrow> Inl ''spec.rules entries must be objects'')"

datatype projection_body =
    PlainBody
  | WorkloadBody "string option"
  | PodBody "(string \<times> string) list"
  | ServiceBody "(string \<times> string) list" "string option" "infrastructure_port list"
  | IngressBody "ingress_backend option" "ingress_rule list"

record projection =
  pj_api_version :: string
  pj_kind :: string
  pj_namespace :: string
  pj_name :: string
  pj_owner_references :: "owner_reference list"
  pj_body :: projection_body

record kubernetes_library =
  lib_sha256 :: "bytes \<Rightarrow> string"
  lib_paths_bytes :: "ingress_path list \<Rightarrow> bytes"
  lib_projection_bytes :: "projection \<Rightarrow> bytes"
  lib_captured_bytes :: "projection \<Rightarrow> string option \<Rightarrow> bytes"
  lib_repr :: "py \<Rightarrow> string"

datatype raised = CanonicalIntegerDomainError | AttributeError | OverflowError

datatype projection_failure = Malformed string | ProjectionRaised raised

text \<open>RFC 8785 refuses an integer beyond \<open>2 ** 53 - 1\<close> in magnitude.\<close>

definition safe_integer :: "int \<Rightarrow> bool" where
  "safe_integer n = (\<bar>n\<bar> \<le> 9007199254740991)"

fun backend_in_domain :: "ingress_backend option \<Rightarrow> bool" where
  "backend_in_domain (Some (ServiceBackend _ _ (Some n))) = safe_integer n"
| "backend_in_domain _ = True"

definition paths_in_domain :: "ingress_path list \<Rightarrow> bool" where
  "paths_in_domain paths = list_all (\<lambda>p. backend_in_domain (ip_backend p)) paths"

definition projection_in_domain :: "projection \<Rightarrow> bool" where
  "projection_in_domain p = (case pj_body p of
     ServiceBody _ _ ports \<Rightarrow> list_all (\<lambda>q. safe_integer (port_port q)) ports
   | IngressBody fallback rules \<Rightarrow>
       backend_in_domain fallback \<and> list_all (\<lambda>r. paths_in_domain (ir_paths r)) rules
   | _ \<Rightarrow> True)"

definition ingress_rules_or_error ::
  "kubernetes_library \<Rightarrow> py \<Rightarrow> projection_failure + ingress_rule list" where
  "ingress_rules_or_error lib raw = (case raw of
     PNone \<Rightarrow> Inr []
   | PList entries \<Rightarrow>
       (case traverse ingress_rule_or_error entries of
          Inl e \<Rightarrow> Inl (Malformed e)
        | Inr rules \<Rightarrow>
            if list_all (\<lambda>r. paths_in_domain (ir_paths r)) rules
            then Inr (sort_key (\<lambda>r. (str_or (ir_host r) [], lib_paths_bytes lib (ir_paths r))) rules)
            else Inl (ProjectionRaised CanonicalIntegerDomainError))
   | _ \<Rightarrow> Inl (Malformed ''spec.rules must be a list''))"

text \<open>The label keys some admitted Service selects by.\<close>

definition selector_keys :: "py_dict \<Rightarrow> string list" where
  "selector_keys d =
     (if resource_type_key d \<noteq> Some ''v1/Service'' then []
      else case get ''spec'' d of
        PDict spec \<Rightarrow> (case get ''selector'' spec of
          PDict selector \<Rightarrow> somes (map (\<lambda>(k, _). case k of PStr s \<Rightarrow> Some s | _ \<Rightarrow> None) selector)
        | _ \<Rightarrow> [])
      | _ \<Rightarrow> [])"

definition needed_pod_label_keys :: "kubernetes_resource_entry list \<Rightarrow> string set" where
  "needed_pod_label_keys resources = set (concat (map (\<lambda>e. selector_keys (kr_document e)) resources))"

text \<open>The kind-specific part of \<open>_project_or_error\<close>.\<close>

definition workload_body :: "py_dict \<Rightarrow> projection_failure + projection_body" where
  "workload_body metadata = (case get ''annotations'' metadata of
     PNone \<Rightarrow> Inr (WorkloadBody None)
   | PDict annotations \<Rightarrow>
       (case optional_str (get ''architecture-intelligence.io/service-id'' annotations) of
          Inl _ \<Rightarrow> Inl (Malformed ''architecture-intelligence.io/service-id annotation must be a string'')
        | Inr service_id \<Rightarrow> Inr (WorkloadBody service_id))
   | _ \<Rightarrow> Inl (Malformed ''metadata.annotations must be a mapping''))"

definition pod_body :: "string set \<Rightarrow> py_dict \<Rightarrow> projection_failure + projection_body" where
  "pod_body needed metadata = (case string_map_or_error (get ''labels'' metadata) ''metadata.labels'' of
     Inl e \<Rightarrow> Inl (Malformed e)
   | Inr labels \<Rightarrow> Inr (PodBody (sort (filter (\<lambda>(k, v). k \<in> needed) labels))))"

definition service_body :: "py_dict \<Rightarrow> projection_failure + projection_body" where
  "service_body spec = (case string_map_or_error (get ''selector'' spec) ''spec.selector'' of
     Inl e \<Rightarrow> Inl (Malformed e)
   | Inr selector \<Rightarrow>
       (case optional_str (get ''type'' spec) of
          Inl _ \<Rightarrow> Inl (Malformed ''spec.type must be a string'')
        | Inr service_type \<Rightarrow>
            (case service_ports_or_error (get ''ports'' spec) of
               Inl e \<Rightarrow> Inl (Malformed e)
             | Inr ports \<Rightarrow> Inr (ServiceBody (sort selector) service_type ports))))"

definition ingress_body :: "kubernetes_library \<Rightarrow> py_dict \<Rightarrow> projection_failure + projection_body" where
  "ingress_body lib spec = (case ingress_backend_or_error (get ''defaultBackend'' spec) of
     Inl e \<Rightarrow> Inl (Malformed e)
   | Inr default_backend \<Rightarrow>
       (case ingress_rules_or_error lib (get ''rules'' spec) of
          Inl f \<Rightarrow> Inl f
        | Inr rules \<Rightarrow> Inr (IngressBody default_backend rules)))"

definition with_spec :: "py_dict \<Rightarrow> (py_dict \<Rightarrow> projection_failure + projection_body)
     \<Rightarrow> projection_failure + projection_body" where
  "with_spec document body = (case get ''spec'' document of
     PNone \<Rightarrow> body [] | PDict spec \<Rightarrow> body spec | _ \<Rightarrow> Inl (Malformed ''spec must be a mapping''))"

definition project_body ::
  "kubernetes_library \<Rightarrow> string set \<Rightarrow> py_dict \<Rightarrow> projection_failure + projection_body" where
  "project_body lib needed document =
     (let kind = kind_of document in
      if kind \<in> set workload_kinds then workload_body (metadata_of document)
      else if kind = POD_KIND then pod_body needed (metadata_of document)
      else if kind = SERVICE_KIND then with_spec document service_body
      else if kind = INGRESS_KIND then with_spec document (ingress_body lib)
      else Inr PlainBody)"

definition project_or_error ::
  "kubernetes_library \<Rightarrow> string set \<Rightarrow> py_dict \<Rightarrow> projection_failure + projection" where
  "project_or_error lib needed document =
     (case owner_references_or_error (get ''ownerReferences'' (metadata_of document)) of
        Inl e \<Rightarrow> Inl (Malformed e)
      | Inr owner_refs \<Rightarrow>
          (case project_body lib needed document of
             Inl f \<Rightarrow> Inl f
           | Inr body \<Rightarrow> Inr \<lparr>pj_api_version = api_version_of document, pj_kind = kind_of document,
               pj_namespace = as_str (get ''namespace'' (metadata_of document)),
               pj_name = as_str (get ''name'' (metadata_of document)),
               pj_owner_references = owner_refs, pj_body = body\<rparr>))"

section \<open>Validation of one resource\<close>

definition validation_error ::
  "kubernetes_library \<Rightarrow> kubernetes_resource_entry \<Rightarrow> diagnostic_code \<Rightarrow> string \<Rightarrow> ingestion_diagnostic" where
  "validation_error lib entry code message =
     (let d = kr_document entry; text = py_text (lib_repr lib); md = metadata_of d in
      diagnostic code [message]
        (Some (kr_source_pointer entry @ '':'' @ text (get ''apiVersion'' d) @ ''/'' @ text (get ''kind'' d) @
           ''/'' @ text (get_or ''namespace'' (PStr []) md) @ ''/'' @ text (get_or ''name'' (PStr ''<missing>'') md)))
        None)"

definition unsupported_diagnostic :: "kubernetes_library \<Rightarrow> kubernetes_resource_entry \<Rightarrow> ingestion_diagnostic" where
  "unsupported_diagnostic lib entry =
     (let d = kr_document entry; text = py_text (lib_repr lib); md = metadata_of d;
          base = kr_source_pointer entry @ '':'' @ text (get ''apiVersion'' d) @ ''/'' @ text (get ''kind'' d) in
      diagnostic DC_K8S_RESOURCE_UNSUPPORTED []
        (Some (case non_empty_str (get ''name'' md) of
           None \<Rightarrow> base
         | Some name \<Rightarrow>
             (case non_empty_str (get ''namespace'' md) of
                None \<Rightarrow> base @ ''/'' @ name
              | Some namespace \<Rightarrow> base @ ''/'' @ namespace @ ''/'' @ name))) None)"

definition scope_error :: "string list \<Rightarrow> string \<Rightarrow> py_dict \<Rightarrow> string \<Rightarrow> (diagnostic_code \<times> string) option" where
  "scope_error scope kind metadata name =
     (if is_namespaced kind then
        (case non_empty_str (get ''namespace'' metadata) of
           None \<Rightarrow> Some (DC_K8S_RESOURCE_INVALID, ''namespaced resource is missing metadata.namespace'')
         | Some namespace \<Rightarrow>
             if namespace \<notin> set scope
             then Some (DC_K8S_SNAPSHOT_INVALID, ''resource namespace is not in the declared scope'') else None)
      else if name \<notin> set scope
      then Some (DC_K8S_SNAPSHOT_INVALID, ''Namespace object is not in the declared scope'') else None)"

definition resource_error :: "string list \<Rightarrow> bool \<Rightarrow> py_dict \<Rightarrow> (diagnostic_code \<times> string) option" where
  "resource_error scope requires_capture_identity d = (case get ''metadata'' d of
     PDict metadata \<Rightarrow>
       (case non_empty_str (get ''name'' metadata) of
          None \<Rightarrow> Some (DC_K8S_RESOURCE_INVALID, ''resource is missing metadata.name'')
        | Some name \<Rightarrow>
            (case scope_error scope (kind_of d) metadata name of
               Some e \<Rightarrow> Some e
             | None \<Rightarrow>
                 if requires_capture_identity \<and> (non_empty_str (get ''uid'' metadata) = None
                      \<or> non_empty_str (get ''resourceVersion'' metadata) = None)
                 then Some (DC_K8S_RESOURCE_INVALID,
                   ''captured resource requires metadata.uid and metadata.resourceVersion'') else None))
   | _ \<Rightarrow> Some (DC_K8S_RESOURCE_INVALID, ''resource has no metadata''))"

definition validate_resource ::
  "kubernetes_library \<Rightarrow> string list \<Rightarrow> bool \<Rightarrow> kubernetes_resource_entry \<Rightarrow> ingestion_diagnostic option" where
  "validate_resource lib scope requires_capture_identity entry =
     map_option (\<lambda>(code, message). validation_error lib entry code message)
       (resource_error scope requires_capture_identity (kr_document entry))"

text \<open>The first loop: the diagnostic that rejects the source, or the limitations.\<close>

fun scan_entries :: "kubernetes_library \<Rightarrow> string list \<Rightarrow> bool \<Rightarrow> kubernetes_resource_entry list
     \<Rightarrow> ingestion_diagnostic + ingestion_diagnostic list" where
  "scan_entries lib scope captured [] = Inr []"
| "scan_entries lib scope captured (entry # entries) =
     (case (if is_admitted (kr_document entry) then validate_resource lib scope captured entry else None) of
        Some d \<Rightarrow> Inl d
      | None \<Rightarrow>
          (case scan_entries lib scope captured entries of
             Inl d \<Rightarrow> Inl d
           | Inr ds \<Rightarrow> Inr (if is_admitted (kr_document entry) then ds else unsupported_diagnostic lib entry # ds)))"

section \<open>Grouping and merging duplicates\<close>

record mapped_resource =
  mr_logical_id :: string
  mr_resource_kind :: string
  mr_entity :: "infrastructure_entity option"
  mr_semantic_digest :: string
  mr_source_pointers :: "string list"
  mr_projection :: projection
  mr_captured_uid :: "string option"

record kubernetes_mapping_result =
  km_result :: ingestion_result
  km_resources :: "mapped_resource list"
  km_diagnostics :: "ingestion_diagnostic list"

text \<open>\<open>metadata.get("namespace") or ""\<close>, which must then encode.\<close>

definition namespace_or_empty :: "py_dict \<Rightarrow> raised + string" where
  "namespace_or_empty metadata = (case get ''namespace'' metadata of
     PStr s \<Rightarrow> Inr s | v \<Rightarrow> if truthy v then Inl AttributeError else Inr [])"

definition logical_id_of :: "kubernetes_library \<Rightarrow> string \<Rightarrow> py_dict \<Rightarrow> raised + string" where
  "logical_id_of lib cluster_uid d =
     (case namespace_or_empty (metadata_of d) of
        Inl r \<Rightarrow> Inl r
      | Inr namespace \<Rightarrow>
          (case kubernetes_logical_resource_id (lib_sha256 lib) cluster_uid (api_group (api_version_of d))
                  (kind_of d) namespace (as_str (get ''name'' (metadata_of d))) of
             None \<Rightarrow> Inl OverflowError | Some i \<Rightarrow> Inr i))"

definition captured_uid :: "bool \<Rightarrow> py_dict \<Rightarrow> string option" where
  "captured_uid requires_capture_identity d =
     (if requires_capture_identity then Some (as_str (get ''uid'' (metadata_of d))) else None)"

definition entity_of :: "string \<Rightarrow> string \<Rightarrow> py_dict \<Rightarrow> projection \<Rightarrow> infrastructure_entity option" where
  "entity_of cluster_uid logical_id d first = (case entity_kind_for (kind_of d) of
     None \<Rightarrow> None
   | Some entity_kind \<Rightarrow> Some
       \<lparr>ie_id = logical_id, ie_entity_kind = entity_kind, ie_cluster_uid = cluster_uid,
        ie_api_group = api_group (api_version_of d), ie_resource_kind = kind_of d,
        ie_namespace = as_str (get ''namespace'' (metadata_of d)),
        ie_name = as_str (get ''name'' (metadata_of d)),
        ie_service_type = (case pj_body first of ServiceBody _ t _ \<Rightarrow> t | _ \<Rightarrow> None),
        ie_ports = (case pj_body first of ServiceBody _ _ ports \<Rightarrow> ports | _ \<Rightarrow> [])\<rparr>)"

datatype group_failure = GroupRaised raised | GroupRejected ingestion_result ingestion_diagnostic

definition project_entry ::
  "kubernetes_library \<Rightarrow> string set \<Rightarrow> kubernetes_resource_entry \<Rightarrow> group_failure + projection" where
  "project_entry lib needed entry = (case project_or_error lib needed (kr_document entry) of
     Inl (Malformed message) \<Rightarrow>
       Inl (GroupRejected REJECTED_INVALID (validation_error lib entry DC_K8S_RESOURCE_INVALID message))
   | Inl (ProjectionRaised r) \<Rightarrow> Inl (GroupRaised r)
   | Inr p \<Rightarrow> Inr p)"

definition map_group :: "kubernetes_library \<Rightarrow> string \<Rightarrow> bool \<Rightarrow> string set \<Rightarrow> string
     \<Rightarrow> kubernetes_resource_entry list \<Rightarrow> group_failure + mapped_resource" where
  "map_group lib cluster_uid captured needed logical_id entries =
     (case traverse (project_entry lib needed) entries of
        Inl f \<Rightarrow> Inl f
      | Inr projections \<Rightarrow>
          let first = hd projections;
              uids = sorted_set (somes (map (\<lambda>e. captured_uid captured (kr_document e)) entries)) in
          if \<exists>p\<in>set (tl projections). p \<noteq> first then
            Inl (GroupRejected REJECTED_CONFLICT (diagnostic DC_K8S_RESOURCE_CONFLICT
              [''conflicting duplicate resources under one logical resource id''] (Some logical_id) None))
          else if length uids > 1 then
            Inl (GroupRejected REJECTED_CONFLICT (diagnostic DC_K8S_RESOURCE_CONFLICT
              [''conflicting captured UIDs under one logical resource id''] (Some logical_id) None))
          else if \<not> projection_in_domain first then Inl (GroupRaised CanonicalIntegerDomainError)
          else Inr
            \<lparr>mr_logical_id = logical_id, mr_resource_kind = kind_of (kr_document (hd entries)),
             mr_entity = entity_of cluster_uid logical_id (kr_document (hd entries)) first,
             mr_semantic_digest = lib_sha256 lib (lib_projection_bytes lib first),
             mr_source_pointers = sorted_set (map kr_source_pointer entries), mr_projection = first,
             mr_captured_uid = (if uids = [] then None else Some (hd uids))\<rparr>)"

definition keyed_entries :: "kubernetes_library \<Rightarrow> string \<Rightarrow> kubernetes_resource_entry list
     \<Rightarrow> raised + (string \<times> kubernetes_resource_entry) list" where
  "keyed_entries lib cluster_uid resources =
     traverse (\<lambda>e. case logical_id_of lib cluster_uid (kr_document e) of Inl r \<Rightarrow> Inl r | Inr i \<Rightarrow> Inr (i, e))
       (filter (\<lambda>e. is_admitted (kr_document e)) resources)"

definition map_groups :: "kubernetes_library \<Rightarrow> string \<Rightarrow> bool \<Rightarrow> string set
     \<Rightarrow> (string \<times> kubernetes_resource_entry) list \<Rightarrow> group_failure + mapped_resource list" where
  "map_groups lib cluster_uid captured needed keyed =
     traverse (\<lambda>i. map_group lib cluster_uid captured needed i (map snd (filter (\<lambda>(j, _). j = i) keyed)))
       (sorted_set (map fst keyed))"

definition map_kubernetes_resources :: "kubernetes_library \<Rightarrow> string \<Rightarrow> bool \<Rightarrow> string list
     \<Rightarrow> kubernetes_resource_entry list \<Rightarrow> raised + kubernetes_mapping_result" where
  "map_kubernetes_resources lib cluster_uid captured scope resources =
     (case scan_entries lib scope captured resources of
        Inl d \<Rightarrow> Inr \<lparr>km_result = REJECTED_INVALID, km_resources = [], km_diagnostics = [d]\<rparr>
      | Inr limitations \<Rightarrow>
          (case keyed_entries lib cluster_uid resources of
             Inl r \<Rightarrow> Inl r
           | Inr keyed \<Rightarrow>
               (case map_groups lib cluster_uid captured (needed_pod_label_keys resources) keyed of
                  Inl (GroupRaised r) \<Rightarrow> Inl r
                | Inl (GroupRejected result d) \<Rightarrow>
                    Inr \<lparr>km_result = result, km_resources = [], km_diagnostics = [d]\<rparr>
                | Inr mapped \<Rightarrow>
                    Inr \<lparr>km_result = (if limitations = [] then ACCEPTED else ACCEPTED_WITH_LIMITATIONS),
                      km_resources = mapped, km_diagnostics = limitations\<rparr>)))"

section \<open>Well-typed mapped resources\<close>

definition well_formed_reference :: "owner_reference \<Rightarrow> bool" where
  "well_formed_reference r \<longleftrightarrow> or_api_version r \<noteq> [] \<and> or_kind r \<noteq> [] \<and> or_name r \<noteq> [] \<and> or_uid r \<noteq> []"

fun body_of_kind :: "string \<Rightarrow> projection_body \<Rightarrow> bool" where
  "body_of_kind kind (WorkloadBody _) = (kind \<in> set workload_kinds)"
| "body_of_kind kind (PodBody labels) = (kind = POD_KIND \<and> sorted labels)"
| "body_of_kind kind (ServiceBody selector _ ports) =
     (kind = SERVICE_KIND \<and> sorted selector \<and> sorted (map port_sort_key ports) \<and> (\<forall>p\<in>set ports. port_protocol p \<noteq> []))"
| "body_of_kind kind (IngressBody _ _) = (kind = INGRESS_KIND)"
| "body_of_kind kind PlainBody = (entity_kind_for kind = None)"

definition well_projected :: "projection \<Rightarrow> bool" where
  "well_projected p \<longleftrightarrow> pj_name p \<noteq> [] \<and> (\<forall>r\<in>set (pj_owner_references p). well_formed_reference r)
     \<and> body_of_kind (pj_kind p) (pj_body p)"

text \<open>What every mapped resource of a bundle satisfies.\<close>

definition well_mapped :: "kubernetes_library \<Rightarrow> string \<Rightarrow> bool \<Rightarrow> mapped_resource \<Rightarrow> bool" where
  "well_mapped lib uid captured r \<longleftrightarrow>
     (let p = mr_projection r in
      mr_resource_kind r = pj_kind p \<and> well_projected p \<and>
      kubernetes_logical_resource_id (lib_sha256 lib) uid (api_group (pj_api_version p)) (pj_kind p)
        (pj_namespace p) (pj_name p) = Some (mr_logical_id r) \<and>
      mr_source_pointers r \<noteq> [] \<and> sorted (mr_source_pointers r) \<and> distinct (mr_source_pointers r) \<and>
      map_option ie_entity_kind (mr_entity r) = entity_kind_for (pj_kind p) \<and>
      (\<forall>e. mr_entity r = Some e \<longrightarrow> infrastructure_entity_valid e \<and> ie_id e = mr_logical_id r) \<and>
      (if captured then \<exists>u. u \<noteq> [] \<and> mr_captured_uid r = Some u else mr_captured_uid r = None) \<and>
      mr_semantic_digest r = lib_sha256 lib (lib_projection_bytes lib p))"

lemma non_empty_str_Some: "non_empty_str v = Some s \<longleftrightarrow> v = PStr s \<and> s \<noteq> []"
  by (cases v) auto

lemma owner_reference_ok: "owner_reference_or_error ref = Inr r \<Longrightarrow> well_formed_reference r"
  by (auto simp: owner_reference_or_error_def well_formed_reference_def non_empty_str_Some
      split: py.splits option.splits)

lemma owner_references_ok:
  assumes "owner_references_or_error raw = Inr rs" "r \<in> set rs"
  shows "well_formed_reference r"
proof -
  obtain refs rs' where "traverse owner_reference_or_error refs = Inr rs'" "r \<in> set rs'"
    using assms by (cases raw) (auto simp: owner_references_or_error_def split: sum.splits)
  then show ?thesis using traverse_mem owner_reference_ok by metis
qed

lemma service_port_ok: "service_port_or_error entry = Inr p \<Longrightarrow> port_protocol p \<noteq> []"
  by (auto simp: service_port_or_error_def non_empty_str_Some split: py.splits option.splits sum.splits)

lemma service_ports_ok:
  assumes "service_ports_or_error raw = Inr ports"
  shows "sorted (map port_sort_key ports)" "\<forall>p\<in>set ports. port_protocol p \<noteq> []"
proof -
  obtain entries ports' where *: "ports = [] \<or>
      traverse service_port_or_error entries = Inr ports' \<and> ports = sort_key port_sort_key ports'"
    using assms by (auto simp: service_ports_or_error_def split: py.splits sum.splits)
  then show "sorted (map port_sort_key ports)" by auto
  show "\<forall>p\<in>set ports. port_protocol p \<noteq> []" using * traverse_mem service_port_ok by fastforce
qed

lemma project_body_ok:
  assumes "project_body lib needed d = Inr body"
  shows "body_of_kind (kind_of d) body"
proof -
  have kinds: "POD_KIND \<notin> set workload_kinds" "SERVICE_KIND \<notin> set workload_kinds" "INGRESS_KIND \<notin> set workload_kinds"
    by (simp_all add: workload_kinds_def)
  consider "kind_of d \<in> set workload_kinds" "workload_body (metadata_of d) = Inr body"
    | "kind_of d = POD_KIND" "pod_body needed (metadata_of d) = Inr body"
    | "kind_of d = SERVICE_KIND" "with_spec d service_body = Inr body"
    | "kind_of d = INGRESS_KIND" "with_spec d (ingress_body lib) = Inr body"
    | "entity_kind_for (kind_of d) = None" "body = PlainBody"
    using assms unfolding project_body_def Let_def
    by (auto simp: entity_kind_for_def split: if_splits)
  then show ?thesis
  proof cases
    case 1
    then show ?thesis by (auto simp: workload_body_def split: py.splits sum.splits)
  next
    case 2
    then show ?thesis by (auto simp: pod_body_def split: sum.splits)
  next
    case 3
    then obtain spec where "service_body spec = Inr body" by (auto simp: with_spec_def split: py.splits)
    then show ?thesis using 3 service_ports_ok by (auto simp: service_body_def split: sum.splits)
  next
    case 4
    then obtain spec where "ingress_body lib spec = Inr body" by (auto simp: with_spec_def split: py.splits)
    then show ?thesis using 4 by (auto simp: ingress_body_def split: sum.splits)
  next
    case 5
    then show ?thesis by simp
  qed
qed

lemma project_or_error_fields:
  assumes "project_or_error lib needed d = Inr p"
  shows "pj_api_version p = api_version_of d" "pj_kind p = kind_of d"
    "pj_namespace p = as_str (get ''namespace'' (metadata_of d))" "pj_name p = as_str (get ''name'' (metadata_of d))"
    "\<forall>r\<in>set (pj_owner_references p). well_formed_reference r" "body_of_kind (kind_of d) (pj_body p)"
  using assms owner_references_ok project_body_ok
  by (auto simp: project_or_error_def split: sum.splits)

lemma scan_entries_ok:
  assumes "scan_entries lib scope captured entries = Inr ds" "e \<in> set entries" "is_admitted (kr_document e)"
  shows "resource_error scope captured (kr_document e) = None"
  using assms
proof (induction entries arbitrary: ds)
  case Nil
  then show ?case by simp
next
  case (Cons x xs)
  from Cons.prems(1) obtain ds' where ds': "scan_entries lib scope captured xs = Inr ds'"
    and x: "is_admitted (kr_document x) \<longrightarrow> resource_error scope captured (kr_document x) = None"
    by (auto simp: validate_resource_def split: option.splits sum.splits if_splits)
  show ?case
  proof (cases "e = x")
    case True
    then show ?thesis using x Cons.prems(3) by simp
  next
    case False
    then show ?thesis using Cons.IH [OF ds'] Cons.prems by simp
  qed
qed

lemma resource_error_None:
  assumes "resource_error scope captured d = None"
  shows "as_str (get ''name'' (metadata_of d)) \<noteq> []"
    "captured \<Longrightarrow> as_str (get ''uid'' (metadata_of d)) \<noteq> []"
    "is_namespaced (kind_of d) \<Longrightarrow> as_str (get ''namespace'' (metadata_of d)) \<in> set scope"
proof -
  obtain md name where md: "get ''metadata'' d = PDict md" "non_empty_str (get ''name'' md) = Some name"
    "scope_error scope (kind_of d) md name = None"
    "captured \<longrightarrow> non_empty_str (get ''uid'' md) \<noteq> None"
    using assms by (auto simp: resource_error_def split: py.splits option.splits if_splits)
  have m: "metadata_of d = md" using md(1) by (simp add: metadata_of_def)
  show "as_str (get ''name'' (metadata_of d)) \<noteq> []" using md(2) by (auto simp: m non_empty_str_Some)
  show "captured \<Longrightarrow> as_str (get ''uid'' (metadata_of d)) \<noteq> []"
    using md(4) by (auto simp: m non_empty_str_Some)
  show "is_namespaced (kind_of d) \<Longrightarrow> as_str (get ''namespace'' (metadata_of d)) \<in> set scope"
    using md(3) by (auto simp: m scope_error_def non_empty_str_Some split: option.splits if_splits)
qed

lemma logical_id_ofD:
  assumes "logical_id_of lib uid d = Inr i"
  shows "kubernetes_logical_resource_id (lib_sha256 lib) uid (api_group (api_version_of d)) (kind_of d)
    (as_str (get ''namespace'' (metadata_of d))) (as_str (get ''name'' (metadata_of d))) = Some i"
proof -
  have "namespace_or_empty md = Inr n \<Longrightarrow> n = as_str (get ''namespace'' md)" for md n
    by (cases "get ''namespace'' md") (auto simp: namespace_or_empty_def split: if_splits)
  then show ?thesis using assms by (auto simp: logical_id_of_def split: sum.splits option.splits)
qed

lemma kubernetes_id_not_Nil: "kubernetes_logical_resource_id H uid grp k ns n = Some i \<Longrightarrow> i \<noteq> []"
  by (auto simp: kubernetes_logical_resource_id_def owned_id_def)

lemma keyed_entriesD:
  assumes "keyed_entries lib uid resources = Inr keyed" "(i, e) \<in> set keyed"
  shows "e \<in> set resources" "is_admitted (kr_document e)" "logical_id_of lib uid (kr_document e) = Inr i"
proof -
  from traverse_mem [OF assms(1) [unfolded keyed_entries_def] assms(2)] obtain x where
    "x \<in> set resources" "is_admitted (kr_document x)"
    "(case logical_id_of lib uid (kr_document x) of Inl r \<Rightarrow> Inl r | Inr j \<Rightarrow> Inr (j, x)) = Inr (i, e)"
    by auto
  then show "e \<in> set resources" "is_admitted (kr_document e)" "logical_id_of lib uid (kr_document e) = Inr i"
    by (auto split: sum.splits)
qed

lemma admitted_kind_not_Nil: "is_admitted d \<Longrightarrow> kind_of d \<noteq> []"
  by (auto simp: is_admitted_def resource_type_key_def kind_of_def expected_resource_types_def
      append_eq_Cons_conv split: py.splits)

lemma project_entry_Inr: "project_entry lib needed e = Inr p \<longleftrightarrow> project_or_error lib needed (kr_document e) = Inr p"
  by (auto simp: project_entry_def split: sum.splits projection_failure.splits)

text \<open>What an accepted group is made of.\<close>

lemma map_groupD:
  assumes "map_group lib uid captured needed i entries = Inr r" "entries \<noteq> []"
  shows "\<forall>e\<in>set entries. project_or_error lib needed (kr_document e) = Inr (mr_projection r)"
    "projection_in_domain (mr_projection r)"
    "\<forall>e\<in>set entries. captured_uid captured (kr_document e) = mr_captured_uid r"
    "mr_logical_id r = i" "mr_resource_kind r = kind_of (kr_document (hd entries))"
    "mr_entity r = entity_of uid i (kr_document (hd entries)) (mr_projection r)"
    "mr_semantic_digest r = lib_sha256 lib (lib_projection_bytes lib (mr_projection r))"
    "mr_source_pointers r = sorted_set (map kr_source_pointer entries)"
proof -
  define us where "us = map (\<lambda>e. captured_uid captured (kr_document e)) entries"
  from assms(1) obtain ps where ps: "traverse (project_entry lib needed) entries = Inr ps"
    and same: "\<forall>p\<in>set (tl ps). p = hd ps" and uids: "length (sorted_set (somes us)) \<le> 1"
    and dom: "projection_in_domain (hd ps)"
    and r: "r = \<lparr>mr_logical_id = i, mr_resource_kind = kind_of (kr_document (hd entries)),
             mr_entity = entity_of uid i (kr_document (hd entries)) (hd ps),
             mr_semantic_digest = lib_sha256 lib (lib_projection_bytes lib (hd ps)),
             mr_source_pointers = sorted_set (map kr_source_pointer entries), mr_projection = hd ps,
             mr_captured_uid = (if sorted_set (somes us) = [] then None else Some (hd (sorted_set (somes us))))\<rparr>"
    unfolding map_group_def Let_def us_def [symmetric] by (auto split: sum.splits if_splits)
  have "length ps = length entries" using traverse_length [OF ps] .
  then have "ps \<noteq> []" using assms(2) by auto
  then have all: "\<forall>p\<in>set ps. p = hd ps" using same by (cases ps) auto
  show "\<forall>e\<in>set entries. project_or_error lib needed (kr_document e) = Inr (mr_projection r)"
    using traverse_mem' [OF ps] all by (fastforce simp: r project_entry_Inr)
  show "projection_in_domain (mr_projection r)" using dom by (simp add: r)
  show "\<forall>e\<in>set entries. captured_uid captured (kr_document e) = mr_captured_uid r"
  proof (cases captured)
    case False
    then have "somes us = []" by (auto simp: us_def captured_uid_def somes_def List.map_filter_def)
    then show ?thesis using False by (simp add: r captured_uid_def)
  next
    case True
    then have us: "us = map (\<lambda>e. Some (as_str (get ''uid'' (metadata_of (kr_document e))))) entries"
      by (simp add: us_def captured_uid_def)
    then have "somes us \<noteq> []" using assms(2) by (cases entries) simp_all
    then have "length (sorted_set (somes us)) = Suc 0"
      using uids by (metis One_nat_def le_antisym length_greater_0_conv less_eq_Suc_le sorted_set_eq_Nil)
    then obtain u where u: "sorted_set (somes us) = [u]" by (auto simp: length_Suc_conv)
    have "v = u" if "Some v \<in> set us" for v
    proof -
      have "v \<in> set (sorted_set (somes us))" using that by simp
      then show ?thesis unfolding u by simp
    qed
    then show ?thesis using u by (auto simp: r us captured_uid_def True)
  qed
  show "mr_logical_id r = i" "mr_resource_kind r = kind_of (kr_document (hd entries))"
    "mr_entity r = entity_of uid i (kr_document (hd entries)) (mr_projection r)"
    "mr_semantic_digest r = lib_sha256 lib (lib_projection_bytes lib (mr_projection r))"
    "mr_source_pointers r = sorted_set (map kr_source_pointer entries)" by (simp_all add: r)
qed

lemma entity_of_kind: "map_option ie_entity_kind (entity_of uid i d p) = entity_kind_for (kind_of d)"
  by (simp add: entity_of_def split: option.splits)

lemma entity_of_valid:
  assumes "entity_of uid i d p = Some e" "i \<noteq> []" "uid \<noteq> []" "kind_of d \<noteq> []"
    "as_str (get ''name'' (metadata_of d)) \<noteq> []" "body_of_kind (kind_of d) (pj_body p)"
  shows "infrastructure_entity_valid e" "ie_id e = i"
proof -
  obtain k where k: "entity_kind_for (kind_of d) = Some k"
    and e: "e = \<lparr>ie_id = i, ie_entity_kind = k, ie_cluster_uid = uid,
        ie_api_group = api_group (api_version_of d), ie_resource_kind = kind_of d,
        ie_namespace = as_str (get ''namespace'' (metadata_of d)), ie_name = as_str (get ''name'' (metadata_of d)),
        ie_service_type = (case pj_body p of ServiceBody _ t _ \<Rightarrow> t | _ \<Rightarrow> None),
        ie_ports = (case pj_body p of ServiceBody _ _ ports \<Rightarrow> ports | _ \<Rightarrow> [])\<rparr>"
    using assms(1) by (auto simp: entity_of_def split: option.splits)
  show "ie_id e = i" by (simp add: e)
  have "k = KUBERNETES_NETWORK_SERVICE \<or> (case pj_body p of ServiceBody _ _ _ \<Rightarrow> False | _ \<Rightarrow> True)"
    using k assms(6) by (cases "pj_body p") (auto simp: entity_kind_for_def workload_kinds_def split: if_splits)
  moreover have "sorted (map port_sort_key ports)" if "pj_body p = ServiceBody s t ports" for s t ports
    using assms(6) that by simp
  ultimately show "infrastructure_entity_valid e"
    using assms(2-5) by (auto simp: infrastructure_entity_valid_def e sorted_sort_id split: projection_body.splits)
qed

lemma keyed_group:
  assumes "keyed_entries lib uid resources = Inr keyed" "i \<in> set (map fst keyed)"
  shows "map snd (filter (\<lambda>(j, _). j = i) keyed) \<noteq> []"
    "\<forall>e\<in>set (map snd (filter (\<lambda>(j, _). j = i) keyed)).
       e \<in> set resources \<and> is_admitted (kr_document e) \<and> logical_id_of lib uid (kr_document e) = Inr i"
proof -
  obtain e where "(i, e) \<in> set keyed" using assms(2) by auto
  then show "map snd (filter (\<lambda>(j, _). j = i) keyed) \<noteq> []" by (auto simp: filter_empty_conv)
  show "\<forall>e\<in>set (map snd (filter (\<lambda>(j, _). j = i) keyed)).
       e \<in> set resources \<and> is_admitted (kr_document e) \<and> logical_id_of lib uid (kr_document e) = Inr i"
    using keyed_entriesD [OF assms(1)] by auto
qed

lemma map_group_well_mapped:
  assumes g: "map_group lib uid captured needed i entries = Inr r" "entries \<noteq> []" "uid \<noteq> []"
    and e: "\<forall>e\<in>set entries. is_admitted (kr_document e) \<and> logical_id_of lib uid (kr_document e) = Inr i
      \<and> resource_error scope captured (kr_document e) = None"
  shows "well_mapped lib uid captured r"
proof -
  define d where "d = kr_document (hd entries)"
  have hd: "hd entries \<in> set entries" using g(2) by simp
  note D = map_groupD [OF g(1,2)]
  have d: "is_admitted d" "logical_id_of lib uid d = Inr i" "resource_error scope captured d = None"
    using e hd by (simp_all add: d_def)
  have p: "project_or_error lib needed d = Inr (mr_projection r)" using D(1) hd by (simp add: d_def)
  note f = project_or_error_fields [OF p]
  note v = resource_error_None [OF d(3)]
  have i: "kubernetes_logical_resource_id (lib_sha256 lib) uid (api_group (pj_api_version (mr_projection r)))
      (pj_kind (mr_projection r)) (pj_namespace (mr_projection r)) (pj_name (mr_projection r)) = Some i"
    unfolding f by (rule logical_id_ofD [OF d(2)])
  note i_ne = kubernetes_id_not_Nil [OF i]
  have ent: "mr_entity r = entity_of uid i d (mr_projection r)" using D(6) by (simp add: d_def)
  have uids: "mr_captured_uid r = captured_uid captured d" using D(3) hd by (simp add: d_def)
  have ok: "well_projected (mr_projection r)" using f v(1) by (simp add: well_projected_def)
  have "map_option ie_entity_kind (mr_entity r) = entity_kind_for (pj_kind (mr_projection r))"
    unfolding ent entity_of_kind f ..
  moreover have "infrastructure_entity_valid x \<and> ie_id x = mr_logical_id r" if "mr_entity r = Some x" for x
    using entity_of_valid [OF _ i_ne g(3) admitted_kind_not_Nil [OF d(1)] v(1) f(6)] that
    by (simp add: ent D(4))
  moreover have "if captured then \<exists>u. u \<noteq> [] \<and> mr_captured_uid r = Some u else mr_captured_uid r = None"
    using v(2) by (simp add: uids captured_uid_def)
  moreover have "mr_source_pointers r \<noteq> []" "sorted (mr_source_pointers r)" "distinct (mr_source_pointers r)"
    using g(2) by (simp_all add: D(8))
  moreover have "mr_resource_kind r = pj_kind (mr_projection r)" unfolding f D(5) d_def ..
  ultimately show ?thesis
    using ok i D(4) D(7) unfolding well_mapped_def Let_def by simp
qed

text \<open>The result of a run that was not rejected comes from its groups.\<close>

lemma map_kubernetes_accepted:
  assumes "map_kubernetes_resources lib uid captured scope resources = Inr res" "km_resources res \<noteq> []
      \<or> km_result res \<in> {ACCEPTED, ACCEPTED_WITH_LIMITATIONS}"
  obtains ds keyed where "scan_entries lib scope captured resources = Inr ds"
    "keyed_entries lib uid resources = Inr keyed"
    "map_groups lib uid captured (needed_pod_label_keys resources) keyed = Inr (km_resources res)"
    "km_diagnostics res = ds" "km_result res = (if ds = [] then ACCEPTED else ACCEPTED_WITH_LIMITATIONS)"
proof -
  have rejected: "r \<in> {REJECTED_INVALID, REJECTED_CONFLICT}"
    if g: "map_groups lib uid captured needed keyed = Inl (GroupRejected r d)" for needed keyed r d
  proof -
    obtain i entries where g: "map_group lib uid captured needed i entries = Inl (GroupRejected r d)"
      using traverse_Inl [OF g [unfolded map_groups_def]] by blast
    show ?thesis
    proof (cases "traverse (project_entry lib needed) entries")
      case (Inl f)
      obtain e where "project_entry lib needed e = Inl f" using traverse_Inl [OF Inl] by blast
      then show ?thesis using g Inl
        by (auto simp: map_group_def project_entry_def split: sum.splits projection_failure.splits)
    next
      case (Inr ps)
      then show ?thesis using g by (auto simp: map_group_def Let_def split: if_splits)
    qed
  qed
  show thesis
    using assms rejected that unfolding map_kubernetes_resources_def
    by (fastforce split: sum.splits group_failure.splits)
qed

lemma mapped_well_typed:
  assumes "map_kubernetes_resources lib uid captured scope resources = Inr res" "uid \<noteq> []"
  shows "(\<forall>r\<in>set (km_resources res). well_mapped lib uid captured r)
    \<and> sorted (map mr_logical_id (km_resources res)) \<and> distinct (map mr_logical_id (km_resources res))"
proof (cases "km_resources res = []")
  case False
  then obtain ds keyed where scan: "scan_entries lib scope captured resources = Inr ds"
    and keyed: "keyed_entries lib uid resources = Inr keyed"
    and groups: "map_groups lib uid captured (needed_pod_label_keys resources) keyed = Inr (km_resources res)"
    using map_kubernetes_accepted [OF assms(1)] by metis
  let ?group = "\<lambda>i. map snd (filter (\<lambda>(j, _). j = i) keyed)"
  let ?f = "\<lambda>i. map_group lib uid captured (needed_pod_label_keys resources) i (?group i)"
  have ok: "well_mapped lib uid captured r \<and> mr_logical_id r = i"
    if i: "i \<in> set (map fst keyed)" "?f i = Inr r" for i r
  proof -
    note g = keyed_group [OF keyed i(1)]
    have "well_mapped lib uid captured r"
      by (rule map_group_well_mapped [OF i(2) g(1) assms(2)]) (use g(2) scan_entries_ok [OF scan] in blast)
    then show ?thesis using map_groupD(4) [OF i(2) g(1)] by simp
  qed
  have m: "map ?f (sorted_set (map fst keyed)) = map Inr (km_resources res)"
    using groups unfolding map_groups_def traverse_Inr .
  have "map mr_logical_id (km_resources res) = sorted_set (map fst keyed)"
  proof (rule nth_equalityI)
    show len: "length (map mr_logical_id (km_resources res)) = length (sorted_set (map fst keyed))"
      using arg_cong [OF m, of length] by simp
    fix n
    assume n: "n < length (map mr_logical_id (km_resources res))"
    then have "?f (sorted_set (map fst keyed) ! n) = Inr (km_resources res ! n)"
      using arg_cong [OF m, of "\<lambda>l. l ! n"] len by simp
    moreover have "sorted_set (map fst keyed) ! n \<in> set (map fst keyed)"
      using nth_mem [of n "sorted_set (map fst keyed)"] n len by simp
    ultimately show "map mr_logical_id (km_resources res) ! n = sorted_set (map fst keyed) ! n"
      using ok n by simp
  qed
  moreover have "well_mapped lib uid captured r" if mem: "r \<in> set (km_resources res)" for r
  proof -
    obtain i where "i \<in> set (sorted_set (map fst keyed))" "?f i = Inr r"
      using traverse_mem [OF groups [unfolded map_groups_def] mem] by blast
    then show ?thesis using ok by simp
  qed
  ultimately show ?thesis by simp
qed simp

text \<open>C25: every resource a bundle is mapped to is well typed: its projection has the shape of its kind,
  with sorted labels, selectors and ports and non-empty owner references; its logical id is the hash of
  its own identity fields; a promoted entity passes the validators of its model under that id; a captured
  resource has its UID; and the resources are in strict order of logical id.\<close>

theorem mapped_resources_well_typed:
  assumes "map_kubernetes_resources lib uid captured scope resources = Inr res" "uid \<noteq> []"
  shows "(\<forall>r\<in>set (km_resources res). well_mapped lib uid captured r)
    \<and> sorted (map mr_logical_id (km_resources res)) \<and> distinct (map mr_logical_id (km_resources res))"
  using assms by (rule mapped_well_typed)

section \<open>The order of the resource files\<close>

lemma scan_entries_iff:
  "scan_entries lib scope captured entries = Inr ds \<longleftrightarrow>
     (\<forall>e\<in>set entries. is_admitted (kr_document e) \<longrightarrow> resource_error scope captured (kr_document e) = None) \<and>
     ds = map (unsupported_diagnostic lib) (filter (\<lambda>e. \<not> is_admitted (kr_document e)) entries)"
proof (induction entries arbitrary: ds)
  case Nil
  then show ?case by auto
next
  case (Cons a entries)
  show ?case
  proof (cases "scan_entries lib scope captured entries")
    case (Inl d)
    then show ?thesis
      using Cons.IH [of "map (unsupported_diagnostic lib) (filter (\<lambda>e. \<not> is_admitted (kr_document e)) entries)"]
      by (auto split: option.splits)
  next
    case (Inr ds')
    then show ?thesis using Cons.IH [of ds'] by (auto simp: validate_resource_def split: option.splits)
  qed
qed

lemma map_group_perm:
  assumes r: "map_group lib uid captured needed i entries = Inr r" and ne: "entries \<noteq> []"
    and perm: "mset entries = mset entries'"
  shows "map_group lib uid captured needed i entries' = Inr r"
proof -
  have sets: "set entries' = set entries" using perm by (metis mset_eq_setD)
  have ne': "entries' \<noteq> []" using ne perm by auto
  note D = map_groupD [OF r ne]
  have "project_entry lib needed e = Inr (mr_projection r)" if "e \<in> set entries'" for e
    using D(1) that unfolding project_entry_Inr sets by blast
  then have t: "traverse (project_entry lib needed) entries' = Inr (map (\<lambda>_. mr_projection r) entries')"
    unfolding traverse_Inr by simp
  have hd: "hd (map (\<lambda>_. mr_projection r) entries') = mr_projection r" using ne' by (cases entries') simp_all
  have tl: "\<not> (\<exists>p\<in>set (tl (map (\<lambda>_. mr_projection r) entries')). p \<noteq> mr_projection r)"
    using ne' by (cases entries') auto
  define us where "us = sorted_set (somes (map (\<lambda>e. captured_uid captured (kr_document e)) entries'))"
  have const: "map (\<lambda>e. captured_uid captured (kr_document e)) entries' = map (\<lambda>_. mr_captured_uid r) entries'"
    using D(3) by (simp add: sets)
  have us: "us = (case mr_captured_uid r of None \<Rightarrow> [] | Some u \<Rightarrow> [u])"
    unfolding us_def const by (rule sorted_set_somes_const [OF ne'])
  have "hd entries \<in> set entries" "hd entries' \<in> set entries"
    using hd_in_set [OF ne] hd_in_set [OF ne'] unfolding sets by simp_all
  then have p: "project_or_error lib needed (kr_document (hd entries)) = Inr (mr_projection r)"
    "project_or_error lib needed (kr_document (hd entries')) = Inr (mr_projection r)" using D(1) by blast+
  have ent: "entity_of uid i (kr_document (hd entries')) (mr_projection r) = mr_entity r"
    unfolding D(6) entity_of_def project_or_error_fields(1-4) [OF p(1), symmetric]
      project_or_error_fields(1-4) [OF p(2), symmetric] ..
  have kind: "kind_of (kr_document (hd entries')) = mr_resource_kind r"
    unfolding D(5) project_or_error_fields(2) [OF p(1), symmetric] project_or_error_fields(2) [OF p(2), symmetric] ..
  have ptrs: "sorted_set (map kr_source_pointer entries') = mr_source_pointers r"
    unfolding D(8) by (rule sorted_set_cong) (simp add: sets)
  have len: "\<not> 1 < length us" by (simp add: us split: option.splits)
  have u: "(if us = [] then None else Some (hd us)) = mr_captured_uid r" by (simp add: us split: option.splits)
  show ?thesis
    unfolding map_group_def t sum.case Let_def hd us_def [symmetric] if_not_P [OF tl] if_not_P [OF len] u ent kind ptrs
    using D(2) by (simp add: D(4,7) [symmetric])
qed

lemma map_groups_perm:
  assumes groups: "map_groups lib uid captured needed keyed = Inr rs" and perm: "mset keyed = mset keyed'"
  shows "map_groups lib uid captured needed keyed' = Inr rs"
proof -
  have "set (map fst keyed) = set (map fst keyed')" using perm by (metis mset_eq_setD mset_map)
  then have keys: "sorted_set (map fst keyed') = sorted_set (map fst keyed)" by (simp only: sorted_set_eq_iff)
  have each: "map_group lib uid captured needed i (map snd (filter (\<lambda>(j, _). j = i) keyed')) = Inr r"
    if i: "i \<in> set (sorted_set (map fst keyed))"
      and r: "map_group lib uid captured needed i (map snd (filter (\<lambda>(j, _). j = i) keyed)) = Inr r" for i r
  proof (rule map_group_perm [OF r])
    show "map snd (filter (\<lambda>(j, _). j = i) keyed) \<noteq> []" using i by (auto simp: filter_empty_conv)
    show "mset (map snd (filter (\<lambda>(j, _). j = i) keyed)) = mset (map snd (filter (\<lambda>(j, _). j = i) keyed'))"
      by (rule mset_map_filter(2) [OF perm])
  qed
  have "map_group lib uid captured needed i (map snd (filter (\<lambda>(j, _). j = i) keyed'))
      = map_group lib uid captured needed i (map snd (filter (\<lambda>(j, _). j = i) keyed))"
    if i: "i \<in> set (sorted_set (map fst keyed))" for i
    using each [OF i] traverse_mem' [OF groups [unfolded map_groups_def] i] by auto
  note same = this
  show ?thesis
    using groups same unfolding map_groups_def keys traverse_Inr by (metis (no_types, lifting) map_cong)
qed

text \<open>An accepted bundle is mapped to the same resources, with the same result and the same
  limitations up to order, in whatever order its resource entries are read.\<close>

theorem mapping_order_independent:
  assumes "map_kubernetes_resources lib uid captured scope resources = Inr res"
    and "km_result res \<in> {ACCEPTED, ACCEPTED_WITH_LIMITATIONS}" and perm: "mset resources = mset resources'"
  shows "\<exists>res'. map_kubernetes_resources lib uid captured scope resources' = Inr res'
    \<and> km_resources res' = km_resources res \<and> km_result res' = km_result res
    \<and> mset (km_diagnostics res') = mset (km_diagnostics res)"
proof -
  obtain ds keyed where scan: "scan_entries lib scope captured resources = Inr ds"
    and keyed: "keyed_entries lib uid resources = Inr keyed"
    and groups: "map_groups lib uid captured (needed_pod_label_keys resources) keyed = Inr (km_resources res)"
    and res: "km_diagnostics res = ds" "km_result res = (if ds = [] then ACCEPTED else ACCEPTED_WITH_LIMITATIONS)"
    using map_kubernetes_accepted [OF assms(1)] assms(2) by metis
  have sets: "set resources' = set resources" using perm by (metis mset_eq_setD)
  define ds' where "ds' = map (unsupported_diagnostic lib) (filter (\<lambda>e. \<not> is_admitted (kr_document e)) resources')"
  have scan': "scan_entries lib scope captured resources' = Inr ds'"
    using scan unfolding scan_entries_iff sets ds'_def by blast
  have "ds = map (unsupported_diagnostic lib) (filter (\<lambda>e. \<not> is_admitted (kr_document e)) resources)"
    using scan unfolding scan_entries_iff by (rule conjunct2)
  then have ds: "mset ds' = mset ds" unfolding ds'_def using mset_map_filter(2) [OF perm [symmetric]] by (simp only:)
  have filt: "mset (filter (\<lambda>e. is_admitted (kr_document e)) resources)
      = mset (filter (\<lambda>e. is_admitted (kr_document e)) resources')" by (rule mset_map_filter(1) [OF perm])
  obtain keyed' where keyed': "keyed_entries lib uid resources' = Inr keyed'" "mset keyed' = mset keyed"
    by (rule traverse_perm [OF keyed [unfolded keyed_entries_def] filt, folded keyed_entries_def]) (rule that)
  have needed: "needed_pod_label_keys resources' = needed_pod_label_keys resources"
    unfolding needed_pod_label_keys_def by (simp add: sets)
  have "map_groups lib uid captured (needed_pod_label_keys resources') keyed' = Inr (km_resources res)"
    unfolding needed by (rule map_groups_perm [OF groups]) (simp add: keyed'(2))
  moreover have "ds' = [] \<longleftrightarrow> ds = []" using arg_cong [OF ds, of size] by auto
  ultimately show ?thesis
    using res ds by (simp add: map_kubernetes_resources_def scan' keyed'(1))
qed

section \<open>A concrete bundle\<close>

definition sample_library :: kubernetes_library where
  "sample_library = \<lparr>lib_sha256 = (\<lambda>b. CHR ''h'' # b), lib_paths_bytes = (\<lambda>_. []), lib_projection_bytes = pj_name,
     lib_captured_bytes = (\<lambda>p u. pj_name p), lib_repr = (\<lambda>_. [])\<rparr>"

definition sample_metadata :: "string \<Rightarrow> py_dict" where
  "sample_metadata name = [(PStr ''name'', PStr name), (PStr ''namespace'', PStr ''ns''),
     (PStr ''uid'', PStr (''u-'' @ name)), (PStr ''resourceVersion'', PStr ''1'')]"

definition sample_set :: kubernetes_resource_entry where
  "sample_set = \<lparr>kr_source_pointer = ''set.yaml'', kr_document = [(PStr ''apiVersion'', PStr ''apps/v1''),
     (PStr ''kind'', PStr ''StatefulSet''), (PStr ''metadata'', PDict (sample_metadata ''db''))]\<rparr>"

definition sample_pod :: kubernetes_resource_entry where
  "sample_pod = \<lparr>kr_source_pointer = ''pod.yaml'', kr_document = [(PStr ''apiVersion'', PStr ''v1''),
     (PStr ''kind'', PStr ''Pod''), (PStr ''metadata'', PDict (sample_metadata ''db-0'' @
       [(PStr ''labels'', PDict [(PStr ''app'', PStr ''db'')]),
        (PStr ''ownerReferences'', PList [PDict [(PStr ''apiVersion'', PStr ''apps/v1''),
          (PStr ''kind'', PStr ''StatefulSet''), (PStr ''name'', PStr ''db''), (PStr ''uid'', PStr ''u-db''),
          (PStr ''controller'', PBool True)]])]))]\<rparr>"

lemma sample_mapping:
  obtains res where
    "map_kubernetes_resources sample_library ''c'' True [''ns''] [sample_set, sample_pod] = Inr res"
    "km_result res = ACCEPTED" "length (km_resources res) = 2"
proof -
  have "case map_kubernetes_resources sample_library ''c'' True [''ns''] [sample_set, sample_pod] of
      Inl _ \<Rightarrow> False | Inr r \<Rightarrow> km_result r = ACCEPTED \<and> length (km_resources r) = 2"
    by code_simp
  then show thesis using that by (auto split: sum.splits)
qed

lemma mapped_resources_well_typed_witness:
  "\<exists>res. map_kubernetes_resources sample_library ''c'' True [''ns''] [sample_set, sample_pod] = Inr res
     \<and> length (km_resources res) = 2
     \<and> (\<forall>r\<in>set (km_resources res). well_mapped sample_library ''c'' True r)"
proof -
  obtain res where "map_kubernetes_resources sample_library ''c'' True [''ns''] [sample_set, sample_pod] = Inr res"
    "length (km_resources res) = 2" using sample_mapping by metis
  then show ?thesis using mapped_resources_well_typed by blast
qed

lemma mapping_order_independent_witness:
  "\<exists>res. map_kubernetes_resources sample_library ''c'' True [''ns''] [sample_pod, sample_set] = Inr res
     \<and> length (km_resources res) = 2"
proof -
  obtain res where res:
    "map_kubernetes_resources sample_library ''c'' True [''ns''] [sample_set, sample_pod] = Inr res"
    "km_result res = ACCEPTED" "length (km_resources res) = 2" using sample_mapping by metis
  have "mset [sample_set, sample_pod] = mset [sample_pod, sample_set]" by simp
  from mapping_order_independent [OF res(1) _ this] show ?thesis using res(2,3) by auto
qed

section \<open>Two documents the validation lets through\<close>

definition numeric_namespace :: kubernetes_resource_entry where
  "numeric_namespace = \<lparr>kr_source_pointer = ''ns.yaml'', kr_document = [(PStr ''apiVersion'', PStr ''v1''),
     (PStr ''kind'', PStr ''Namespace''),
     (PStr ''metadata'', PDict [(PStr ''name'', PStr ''ns''), (PStr ''namespace'', PInt 5)])]\<rparr>"

definition split_kind :: kubernetes_resource_entry where
  "split_kind = \<lparr>kr_source_pointer = ''d.yaml'', kr_document = [(PStr ''apiVersion'', PStr ''apps''),
     (PStr ''kind'', PStr ''v1/Deployment''),
     (PStr ''metadata'', PDict [(PStr ''name'', PStr ''web''), (PStr ''namespace'', PStr ''ns'')])]\<rparr>"

text \<open>A Namespace object whose \<open>metadata.namespace\<close> is a number passes validation, and the
  mapping then raises AttributeError instead of rejecting the source.\<close>

theorem numeric_namespace_raises:
  "map_kubernetes_resources sample_library ''c'' False [''ns''] [numeric_namespace] = Inl AttributeError"
  by code_simp

text \<open>The admission test reads the joined type key, so a document of kind \<open>v1/Deployment\<close> in API
  version \<open>apps\<close>, which is none of the eight admitted types, is admitted and mapped without an
  entity.\<close>

theorem split_kind_admitted:
  "\<exists>res. map_kubernetes_resources sample_library ''c'' False [''ns''] [split_kind] = Inr res
     \<and> km_result res = ACCEPTED \<and> map mr_resource_kind (km_resources res) = [''v1/Deployment'']
     \<and> map mr_entity (km_resources res) = [None]"
proof -
  have "case map_kubernetes_resources sample_library ''c'' False [''ns''] [split_kind] of Inl _ \<Rightarrow> False
      | Inr r \<Rightarrow> km_result r = ACCEPTED \<and> map mr_resource_kind (km_resources r) = [''v1/Deployment'']
          \<and> map (\<lambda>r. mr_entity r = None) (km_resources r) = [True]"
    by code_simp
  then show ?thesis by (auto split: sum.splits)
qed

end
