(* ===== verification/KubernetesClaims.thy ===== *)
theory KubernetesClaims
  imports KubernetesMapping
begin

text \<open>
  \<open>sources/kubernetes_owner_chain.py\<close>, \<open>kubernetes_service_selection.py\<close> and
  \<open>kubernetes_ingress_backend.py\<close>: the three relations a bundle's mapped resources yield.  The
  walk along controller references is a total function: its visited set grows inside the finite set of
  the bundle's logical ids.
\<close>

section \<open>Shared lookups\<close>

text \<open>\<open>{r.logical_id: r for r in resources}\<close>: the last resource of an id.\<close>

definition by_logical_id :: "mapped_resource list \<Rightarrow> string \<Rightarrow> mapped_resource option" where
  "by_logical_id resources = map_of (map (\<lambda>r. (mr_logical_id r, r)) (rev resources))"

lemma by_logical_idD:
  assumes "by_logical_id resources i = Some r"
  shows "r \<in> set resources" "mr_logical_id r = i"
  using map_of_SomeD [OF assms [unfolded by_logical_id_def]] by auto

fun join :: "string \<Rightarrow> string list \<Rightarrow> string" where
  "join sep [] = []"
| "join sep [x] = x"
| "join sep (x # y # zs) = x @ sep @ join sep (y # zs)"

definition resource_pointer :: "mapped_resource \<Rightarrow> string" where
  "resource_pointer r =
     (let p = mr_projection r in
      join '','' (mr_source_pointers r) @ '':'' @ pj_api_version p @ ''/'' @ mr_resource_kind r @
        ''/'' @ pj_namespace p @ ''/'' @ pj_name p)"

definition of_kind :: "string \<Rightarrow> mapped_resource list \<Rightarrow> mapped_resource list" where
  "of_kind kind resources = filter (\<lambda>r. mr_resource_kind r = kind) resources"

section \<open>Owner chains\<close>

record resolved_ownership =
  ro_workload :: string
  ro_pod :: string
  ro_evidence :: "string list"

record owner_chain_result =
  oc_result :: ingestion_result
  oc_resolved :: "resolved_ownership list"
  oc_diagnostics :: "ingestion_diagnostic list"

definition direct_workload_kinds :: "string list" where
  "direct_workload_kinds = removeAll DEPLOYMENT_KIND workload_kinds"

definition controller_references :: "mapped_resource \<Rightarrow> owner_reference list" where
  "controller_references r = filter or_controller (pj_owner_references (mr_projection r))"

text \<open>A reference whose id would overflow, a field of $2^{64}$ bytes, finds no owner.\<close>

definition find_owner :: "kubernetes_library \<Rightarrow> string \<Rightarrow> mapped_resource list \<Rightarrow> string \<Rightarrow> owner_reference
     \<Rightarrow> mapped_resource option" where
  "find_owner lib cluster_uid resources namespace ref =
     (case kubernetes_logical_resource_id (lib_sha256 lib) cluster_uid (api_group (or_api_version ref))
             (or_kind ref) namespace (or_name ref) of
        None \<Rightarrow> None
      | Some i \<Rightarrow>
          (case by_logical_id resources i of
             None \<Rightarrow> None
           | Some candidate \<Rightarrow>
               if mr_captured_uid candidate \<noteq> Some (or_uid ref) then None else Some candidate))"

lemma find_owner_mem: "find_owner lib uid resources ns ref = Some c \<Longrightarrow> c \<in> set resources"
  by (auto simp: find_owner_def dest: by_logical_idD split: option.splits if_splits)

datatype walked = MultipleControllers mapped_resource | Cycle | Path "mapped_resource list"

function walk_from :: "kubernetes_library \<Rightarrow> string \<Rightarrow> mapped_resource list \<Rightarrow> string list
     \<Rightarrow> mapped_resource list \<Rightarrow> mapped_resource \<Rightarrow> walked" where
  "walk_from lib uid resources visited path current =
     (case controller_references current of
        [] \<Rightarrow> Path path
      | [ref] \<Rightarrow>
          (case find_owner lib uid resources (pj_namespace (mr_projection current)) ref of
             None \<Rightarrow> Path path
           | Some candidate \<Rightarrow>
               if mr_logical_id candidate \<in> set visited then Cycle
               else walk_from lib uid resources (mr_logical_id candidate # visited) (path @ [candidate]) candidate)
      | _ \<Rightarrow> MultipleControllers current)"
  by pat_completeness auto
termination
proof (relation "measure (\<lambda>(lib, uid, resources, visited, path, current).
    card (mr_logical_id ` set resources - set visited))")
  fix lib uid resources visited path current ref refs candidate
  assume "controller_references current = ref # refs" "refs = []"
    and found: "find_owner lib uid resources (pj_namespace (mr_projection current)) ref = Some candidate"
    and new: "mr_logical_id candidate \<notin> set visited"
  have "mr_logical_id candidate \<in> mr_logical_id ` set resources - set visited"
    using find_owner_mem [OF found] new by simp
  then have "card (mr_logical_id ` set resources - set (mr_logical_id candidate # visited))
      < card (mr_logical_id ` set resources - set visited)"
    by (intro psubset_card_mono) auto
  then show "((lib, uid, resources, mr_logical_id candidate # visited, path @ [candidate], candidate),
      lib, uid, resources, visited, path, current)
      \<in> measure (\<lambda>(lib, uid, resources, visited, path, current).
          card (mr_logical_id ` set resources - set visited))" by simp
qed simp

declare walk_from.simps [simp del]

definition walk_owner_chain :: "kubernetes_library \<Rightarrow> string \<Rightarrow> mapped_resource list \<Rightarrow> mapped_resource \<Rightarrow> walked" where
  "walk_owner_chain lib uid resources pod = walk_from lib uid resources [mr_logical_id pod] [pod] pod"

definition owner_limitation :: "mapped_resource \<Rightarrow> string \<Rightarrow> ingestion_diagnostic" where
  "owner_limitation r message = diagnostic DC_K8S_OWNER_UNRESOLVED [message] (Some (resource_pointer r)) None"

definition owner_invalid :: "mapped_resource \<Rightarrow> string \<Rightarrow> ingestion_diagnostic" where
  "owner_invalid r message = diagnostic DC_K8S_OWNER_INVALID [message] (Some (resource_pointer r)) None"

definition ownership_along :: "mapped_resource \<Rightarrow> mapped_resource list \<Rightarrow> resolved_ownership" where
  "ownership_along pod path =
     \<lparr>ro_workload = mr_logical_id (last path), ro_pod = mr_logical_id pod,
      ro_evidence = sort (map mr_logical_id path)\<rparr>"

definition supported_chain :: "mapped_resource list \<Rightarrow> bool" where
  "supported_chain path = (case path of
     [_, w] \<Rightarrow> mr_resource_kind w \<in> set direct_workload_kinds
   | [_, r, d] \<Rightarrow> mr_resource_kind r = REPLICASET_KIND \<and> mr_resource_kind d = DEPLOYMENT_KIND
   | _ \<Rightarrow> False)"

text \<open>One Pod: the diagnostic that rejects the source, or its limitation, or its ownership.\<close>

definition resolve_pod :: "kubernetes_library \<Rightarrow> string \<Rightarrow> bool \<Rightarrow> mapped_resource list \<Rightarrow> mapped_resource
     \<Rightarrow> ingestion_diagnostic + (ingestion_diagnostic + resolved_ownership)" where
  "resolve_pod lib uid captured resources pod =
     (if length (controller_references pod) > 1 then
        Inl (owner_invalid pod ''resource has more than one controller owner reference'')
      else if \<not> captured then Inr (Inl (owner_limitation pod ''declaration-only input cannot resolve ownership''))
      else
        (case walk_owner_chain lib uid resources pod of
           MultipleControllers offender \<Rightarrow>
             Inl (owner_invalid offender ''resource has more than one controller owner reference'')
         | Cycle \<Rightarrow> Inl (owner_invalid pod ''cyclic owner reference chain'')
         | Path path \<Rightarrow>
             if supported_chain path then Inr (Inr (ownership_along pod path))
             else Inr (Inl (owner_limitation pod
               ''controller owner reference chain does not resolve to a supported Workload''))))"

fun lefts :: "('a + 'b) list \<Rightarrow> 'a list" where
  "lefts [] = []" | "lefts (Inl x # xs) = x # lefts xs" | "lefts (Inr _ # xs) = lefts xs"

fun rights :: "('a + 'b) list \<Rightarrow> 'b list" where
  "rights [] = []" | "rights (Inl _ # xs) = rights xs" | "rights (Inr x # xs) = x # rights xs"

lemma set_lefts_rights [simp]: "x \<in> set (lefts xs) \<longleftrightarrow> Inl x \<in> set xs" "y \<in> set (rights xs) \<longleftrightarrow> Inr y \<in> set xs"
  by (induction xs rule: lefts.induct; auto)+

definition limited :: "ingestion_diagnostic list \<Rightarrow> ingestion_result" where
  "limited diagnostics = (if diagnostics \<noteq> [] then ACCEPTED_WITH_LIMITATIONS else ACCEPTED)"

definition resolve_owner_chains ::
  "kubernetes_library \<Rightarrow> mapped_resource list \<Rightarrow> string \<Rightarrow> bool \<Rightarrow> owner_chain_result" where
  "resolve_owner_chains lib resources uid captured =
     (case traverse (resolve_pod lib uid captured resources) (of_kind POD_KIND resources) of
        Inl d \<Rightarrow> \<lparr>oc_result = REJECTED_INVALID, oc_resolved = [], oc_diagnostics = [d]\<rparr>
      | Inr outcomes \<Rightarrow> \<lparr>oc_result = limited (lefts outcomes), oc_resolved = rights outcomes,
          oc_diagnostics = lefts outcomes\<rparr>)"

section \<open>Service selection\<close>

record resolved_selection =
  rs_service :: string
  rs_workload :: string
  rs_evidence :: "string list"

record service_selection_result =
  ss_result :: ingestion_result
  ss_resolved :: "resolved_selection list"
  ss_diagnostics :: "ingestion_diagnostic list"

definition pod_labels :: "mapped_resource \<Rightarrow> (string \<times> string) list" where
  "pod_labels r = (case pj_body (mr_projection r) of PodBody labels \<Rightarrow> labels | _ \<Rightarrow> [])"

definition service_selector :: "mapped_resource \<Rightarrow> (string \<times> string) list" where
  "service_selector r = (case pj_body (mr_projection r) of ServiceBody selector _ _ \<Rightarrow> selector | _ \<Rightarrow> [])"

definition service_type :: "mapped_resource \<Rightarrow> string option" where
  "service_type r = (case pj_body (mr_projection r) of ServiceBody _ t _ \<Rightarrow> t | _ \<Rightarrow> None)"

definition service_ports :: "mapped_resource \<Rightarrow> infrastructure_port list" where
  "service_ports r = (case pj_body (mr_projection r) of ServiceBody _ _ ports \<Rightarrow> ports | _ \<Rightarrow> [])"

definition matches_selector :: "mapped_resource \<Rightarrow> (string \<times> string) list \<Rightarrow> bool" where
  "matches_selector pod selector = list_all (\<lambda>(k, v). map_of (pod_labels pod) k = Some v) selector"

definition no_qualified_pod_match :: "mapped_resource \<Rightarrow> string \<Rightarrow> ingestion_diagnostic" where
  "no_qualified_pod_match r message =
     diagnostic DC_NO_QUALIFIED_POD_MATCH [message] (Some (resource_pointer r)) None"

definition ownership_by_pod :: "resolved_ownership list \<Rightarrow> string \<Rightarrow> resolved_ownership option" where
  "ownership_by_pod ownerships = map_of (map (\<lambda>o'. (ro_pod o', o')) (rev ownerships))"

definition matching_pods :: "mapped_resource list \<Rightarrow> mapped_resource \<Rightarrow> mapped_resource list" where
  "matching_pods pods service =
     filter (\<lambda>pod. pj_namespace (mr_projection pod) = pj_namespace (mr_projection service)
        \<and> matches_selector pod (service_selector service)) pods"

text \<open>The ownerships of the matching Pods, in order, and the selection of one Workload among them.\<close>

definition matching_ownerships ::
  "mapped_resource list \<Rightarrow> resolved_ownership list \<Rightarrow> mapped_resource \<Rightarrow> resolved_ownership list" where
  "matching_ownerships pods ownerships service =
     somes (map (\<lambda>pod. ownership_by_pod ownerships (mr_logical_id pod)) (matching_pods pods service))"

definition selection_record ::
  "resolved_ownership list \<Rightarrow> mapped_resource \<Rightarrow> string \<Rightarrow> resolved_selection" where
  "selection_record owned service w =
     \<lparr>rs_service = mr_logical_id service, rs_workload = w,
      rs_evidence = sorted_set (mr_logical_id service #
        concat (map ro_evidence (filter (\<lambda>o'. ro_workload o' = w) owned)))\<rparr>"

text \<open>One Service: its diagnostics and its selections.\<close>

definition select_workloads :: "mapped_resource list \<Rightarrow> resolved_ownership list \<Rightarrow> mapped_resource
     \<Rightarrow> ingestion_diagnostic list \<times> resolved_selection list" where
  "select_workloads pods ownerships service =
     (if service_selector service = [] \<or> service_type service = Some ''ExternalName'' then ([], [])
      else
        (let matching = matching_pods pods service;
             owned = matching_ownerships pods ownerships service in
         if matching = [] then
           ([no_qualified_pod_match service ''no captured Pod matches this Service's selector''], [])
         else
           (map (\<lambda>pod. no_qualified_pod_match pod ''matching Pod's controller-owner chain did not resolve'')
              (filter (\<lambda>pod. ownership_by_pod ownerships (mr_logical_id pod) = None) matching),
            map (selection_record owned service) (sorted_set (map ro_workload owned)))))"

definition resolve_service_selections ::
  "mapped_resource list \<Rightarrow> resolved_ownership list \<Rightarrow> service_selection_result" where
  "resolve_service_selections resources ownerships =
     (let per_service = map (select_workloads (of_kind POD_KIND resources) ownerships) (of_kind SERVICE_KIND resources);
          diagnostics = concat (map fst per_service) in
      \<lparr>ss_result = limited diagnostics, ss_resolved = concat (map snd per_service), ss_diagnostics = diagnostics\<rparr>)"

section \<open>Ingress backends\<close>

record resolved_route =
  rr_ingress :: string
  rr_service :: string
  rr_evidence :: "string list"

record ingress_backend_result =
  ib_result :: ingestion_result
  ib_resolved :: "resolved_route list"
  ib_diagnostics :: "ingestion_diagnostic list"

definition backend_unresolved :: "mapped_resource \<Rightarrow> string list \<Rightarrow> ingestion_diagnostic" where
  "backend_unresolved r args =
     diagnostic DC_K8S_BACKEND_UNRESOLVED (mr_logical_id r # args) (Some (resource_pointer r)) None"

definition iter_backends :: "mapped_resource \<Rightarrow> ingress_backend list" where
  "iter_backends ingress = (case pj_body (mr_projection ingress) of
     IngressBody fallback rules \<Rightarrow>
       somes (fallback # map ip_backend (concat (map ir_paths rules)))
   | _ \<Rightarrow> [])"

definition matching_ports ::
  "infrastructure_port list \<Rightarrow> string option \<Rightarrow> int option \<Rightarrow> infrastructure_port list" where
  "matching_ports ports wanted_name wanted_number = (case wanted_number of
     Some n \<Rightarrow> filter (\<lambda>p. port_port p = n) ports
   | None \<Rightarrow> filter (\<lambda>p. port_name p = wanted_name) ports)"

definition service_named :: "mapped_resource list \<Rightarrow> string \<Rightarrow> string \<Rightarrow> mapped_resource option" where
  "service_named resources namespace name =
     map_of (map (\<lambda>r. ((pj_namespace (mr_projection r), pj_name (mr_projection r)), r))
       (rev (of_kind SERVICE_KIND resources))) (namespace, name)"

definition resolve_backend :: "mapped_resource list \<Rightarrow> mapped_resource \<Rightarrow> ingress_backend
     \<Rightarrow> ingestion_diagnostic + string" where
  "resolve_backend resources ingress backend = (case backend of
     ResourceBackend \<Rightarrow> Inl (backend_unresolved ingress [''resource backends are unsupported''])
   | ServiceBackend name wanted_name wanted_number \<Rightarrow>
       (case service_named resources (pj_namespace (mr_projection ingress)) name of
          None \<Rightarrow> Inl (backend_unresolved ingress [''referenced Service was not found'', name])
        | Some service \<Rightarrow>
            let matches = matching_ports (service_ports service) wanted_name wanted_number in
            if length matches \<noteq> 1 then
              Inl (backend_unresolved ingress
                [''backend port does not match exactly one declared port'', name, show_nat (length matches)])
            else Inr (mr_logical_id service)))"

definition route_ingress :: "mapped_resource list \<Rightarrow> mapped_resource
     \<Rightarrow> ingestion_diagnostic list \<times> resolved_route list" where
  "route_ingress resources ingress =
     (let outcomes = map (resolve_backend resources ingress) (iter_backends ingress) in
      (lefts outcomes,
       map (\<lambda>s. \<lparr>rr_ingress = mr_logical_id ingress, rr_service = s, rr_evidence = [mr_logical_id ingress, s]\<rparr>)
         (sorted_set (rights outcomes))))"

definition resolve_ingress_backends :: "mapped_resource list \<Rightarrow> ingress_backend_result" where
  "resolve_ingress_backends resources =
     (let per_ingress = map (route_ingress resources) (of_kind INGRESS_KIND resources);
          diagnostics = concat (map fst per_ingress) in
      \<lparr>ib_result = limited diagnostics, ib_resolved = concat (map snd per_ingress), ib_diagnostics = diagnostics\<rparr>)"

section \<open>Chains of a deterministic step\<close>

text \<open>A step with at most one successor; the walk of the code follows one.\<close>

locale deterministic_step =
  fixes step :: "'r \<Rightarrow> 'r \<Rightarrow> bool"
  assumes unique_successor: "step x y \<Longrightarrow> step x z \<Longrightarrow> y = z"
begin

lemma linear: "step\<^sup>*\<^sup>* a b \<Longrightarrow> step\<^sup>*\<^sup>* a c \<Longrightarrow> step\<^sup>*\<^sup>* b c \<or> step\<^sup>*\<^sup>* c b"
proof (induction rule: rtranclp_induct)
  case base
  then show ?case by simp
next
  case (step y z)
  from step.IH [OF step.prems] show ?case
  proof
    assume "step\<^sup>*\<^sup>* y c"
    then show ?thesis
    proof (cases rule: converse_rtranclpE)
      case base
      then show ?thesis using step.hyps(2) by auto
    next
      case (step w)
      then show ?thesis using unique_successor [OF step.hyps(2)] by auto
    qed
  next
    assume "step\<^sup>*\<^sup>* c y"
    then show ?thesis using step.hyps(2) by (meson rtranclp.rtrancl_into_rtrancl)
  qed
qed

lemma on_loop: "step\<^sup>*\<^sup>* r x \<Longrightarrow> step\<^sup>+\<^sup>+ r r \<Longrightarrow> step\<^sup>+\<^sup>+ x x"
proof (induction rule: rtranclp_induct)
  case base
  then show ?case .
next
  case (step y z)
  from step.IH [OF step.prems] obtain w where w: "step y w" "step\<^sup>*\<^sup>* w y" by (meson tranclpD)
  then have "w = z" using unique_successor step.hyps(2) by blast
  then show ?case using w step.hyps(2) by (meson rtranclp_into_tranclp1)
qed

lemma on_loop_step: "step\<^sup>+\<^sup>+ x x \<Longrightarrow> \<exists>y. step x y"
  by (drule tranclpD) blast

lemma end_of_reach: "step\<^sup>*\<^sup>* a b \<Longrightarrow> \<nexists>y. step a y \<Longrightarrow> b = a"
  by (erule converse_rtranclpE) simp_all

lemma loop_has_no_end:
  assumes r: "step\<^sup>*\<^sup>* a r" "step\<^sup>+\<^sup>+ r r" and e: "step\<^sup>*\<^sup>* a e"
  shows "\<exists>y. step e y"
  using linear [OF r(1) e]
proof
  assume "step\<^sup>*\<^sup>* r e"
  then show ?thesis using on_loop_step [OF on_loop [OF _ r(2)]] by simp
next
  assume er: "step\<^sup>*\<^sup>* e r"
  show ?thesis
  proof (rule ccontr)
    assume no: "\<nexists>y. step e y"
    then have "r = e" by (rule end_of_reach [OF er])
    then show False using no on_loop_step [OF r(2)] by simp
  qed
qed

lemma one_end:
  assumes "step\<^sup>*\<^sup>* a d" "step\<^sup>*\<^sup>* a e" "\<nexists>y. step d y" "\<nexists>y. step e y"
  shows "d = e"
  using linear [OF assms(1,2)]
proof
  assume "step\<^sup>*\<^sup>* d e"
  then show ?thesis using end_of_reach assms(3) by metis
next
  assume "step\<^sup>*\<^sup>* e d"
  then show ?thesis using end_of_reach assms(4) by metis
qed

lemma path_reaches: "successively step p \<Longrightarrow> x \<in> set p \<Longrightarrow> step\<^sup>*\<^sup>* (hd p) x"
proof (induction p)
  case Nil
  then show ?case by simp
next
  case (Cons a p)
  show ?case
  proof (cases "x = a")
    case False
    then have "p \<noteq> []" "x \<in> set p" using Cons.prems(2) by auto
    then have "step a (hd p)" "step\<^sup>*\<^sup>* (hd p) x" using Cons by (auto simp: successively_Cons)
    then show ?thesis by (simp add: converse_rtranclp_into_rtranclp)
  qed simp
qed

lemma one_maximal_path:
  "successively step p \<Longrightarrow> successively step q \<Longrightarrow> p \<noteq> [] \<Longrightarrow> q \<noteq> [] \<Longrightarrow> hd p = hd q \<Longrightarrow>
     \<nexists>y. step (last p) y \<Longrightarrow> \<nexists>y. step (last q) y \<Longrightarrow> p = q"
proof (induction p arbitrary: q)
  case Nil
  then show ?case by simp
next
  case (Cons a p)
  obtain q' where q: "q = a # q'" using Cons.prems by (cases q) auto
  show ?case
  proof (cases "p = [] \<or> q' = []")
    case True
    then show ?thesis using Cons.prems unfolding q by (cases p; cases q') (auto simp: successively_Cons)
  next
    case False
    then have "step a (hd p)" "step a (hd q')" "successively step p" "successively step q'"
      using Cons.prems(1,2) by (simp_all add: q successively_Cons)
    then have "p = q'" using Cons.IH [of q'] Cons.prems(6,7) False unique_successor unfolding q by auto
    then show ?thesis by (simp add: q)
  qed
qed

end

definition owner_step :: "kubernetes_library \<Rightarrow> string \<Rightarrow> mapped_resource list \<Rightarrow> mapped_resource
     \<Rightarrow> mapped_resource \<Rightarrow> bool" where
  "owner_step lib uid resources r c \<longleftrightarrow>
     (\<exists>ref. controller_references r = [ref] \<and>
        find_owner lib uid resources (pj_namespace (mr_projection r)) ref = Some c)"

interpretation owners: deterministic_step "owner_step lib uid resources" for lib uid resources
  by unfold_locales (auto simp: owner_step_def)

text \<open>A whole controller chain: it starts at the Pod and stops where no owner is found.\<close>

definition owner_chain :: "kubernetes_library \<Rightarrow> string \<Rightarrow> mapped_resource list \<Rightarrow> mapped_resource
     \<Rightarrow> mapped_resource list \<Rightarrow> bool" where
  "owner_chain lib uid resources pod path \<longleftrightarrow>
     path \<noteq> [] \<and> hd path = pod \<and> successively (owner_step lib uid resources) path \<and>
     (\<nexists>c. owner_step lib uid resources (last path) c) \<and> length (controller_references (last path)) \<le> 1"

definition too_many_controllers :: "mapped_resource \<Rightarrow> bool" where
  "too_many_controllers r \<longleftrightarrow> length (controller_references r) > 1"

lemma too_many_no_step: "too_many_controllers r \<Longrightarrow> \<not> owner_step lib uid resources r c"
  by (auto simp: too_many_controllers_def owner_step_def)

definition owner_loop :: "kubernetes_library \<Rightarrow> string \<Rightarrow> mapped_resource list \<Rightarrow> mapped_resource \<Rightarrow> bool" where
  "owner_loop lib uid resources pod \<longleftrightarrow>
     (\<exists>r. (owner_step lib uid resources)\<^sup>*\<^sup>* pod r \<and> (owner_step lib uid resources)\<^sup>+\<^sup>+ r r)"

definition walk_describes :: "kubernetes_library \<Rightarrow> string \<Rightarrow> mapped_resource list \<Rightarrow> mapped_resource \<Rightarrow> walked \<Rightarrow> bool" where
  "walk_describes lib uid resources pod w = (case w of
     Path p \<Rightarrow> owner_chain lib uid resources pod p
   | Cycle \<Rightarrow> owner_loop lib uid resources pod
   | MultipleControllers r \<Rightarrow> (owner_step lib uid resources)\<^sup>*\<^sup>* pod r \<and> too_many_controllers r)"

lemma loop_through_path:
  assumes path: "successively (owner_step lib uid resources) path" "path \<noteq> []"
    and again: "owner_step lib uid resources (last path) c" "c \<in> set path"
  shows "owner_loop lib uid resources (hd path)"
proof -
  obtain ys zs where path_eq: "path = ys @ c # zs" using split_list [OF again(2)] by blast
  have "successively (owner_step lib uid resources) (c # zs)" using path(1) by (simp add: path_eq successively_append_iff)
  moreover have "last path \<in> set (c # zs)" by (simp add: path_eq)
  ultimately have "(owner_step lib uid resources)\<^sup>*\<^sup>* c (last path)" using owners.path_reaches by fastforce
  then have "(owner_step lib uid resources)\<^sup>+\<^sup>+ c c" using again(1) by (rule rtranclp_into_tranclp1)
  then show ?thesis unfolding owner_loop_def using owners.path_reaches [OF path(1) again(2)] by blast
qed

lemma walk_from_describes:
  assumes "path \<noteq> []" "last path = current" "successively (owner_step lib uid resources) path"
    and "set visited = mr_logical_id ` set path" "set path \<subseteq> set resources" "inj_on mr_logical_id (set resources)"
  shows "walk_describes lib uid resources (hd path) (walk_from lib uid resources visited path current)"
  using assms
proof (induction lib uid resources visited path current rule: walk_from.induct)
  case (1 lib uid resources visited path current)
  note IH = 1(1) and ne = 1(2) and last = 1(3) and path = 1(4) and visited = 1(5) and sub = 1(6) and inj = 1(7)
  let ?step = "owner_step lib uid resources"
  consider (none) "controller_references current = []" | (one) ref where "controller_references current = [ref]"
    | (many) a b cs where "controller_references current = a # b # cs"
    by (cases "controller_references current" rule: remdups_adj.cases) auto
  then show ?case
  proof cases
    case none
    then have "owner_chain lib uid resources (hd path) path"
      using ne last path by (simp add: owner_chain_def owner_step_def)
    then show ?thesis using none by (simp add: walk_from.simps [of lib] walk_describes_def)
  next
    case many
    then have "too_many_controllers current" by (simp add: too_many_controllers_def)
    moreover have "?step\<^sup>*\<^sup>* (hd path) current" using owners.path_reaches [OF path, of current] ne last by auto
    ultimately show ?thesis using many by (simp add: walk_from.simps [of lib] walk_describes_def)
  next
    case one
    let ?found = "find_owner lib uid resources (pj_namespace (mr_projection current)) ref"
    show ?thesis
    proof (cases ?found)
      case None
      then have "owner_chain lib uid resources (hd path) path"
        using ne last path one by (simp add: owner_chain_def owner_step_def)
      then show ?thesis using None one by (simp add: walk_from.simps [of lib] walk_describes_def)
    next
      case (Some c)
      then have step: "?step current c" using one by (simp add: owner_step_def)
      have mem: "c \<in> set resources" using find_owner_mem [OF Some] .
      show ?thesis
      proof (cases "mr_logical_id c \<in> set visited")
        case True
        then have "c \<in> set path" using visited sub mem inj by (auto dest: inj_onD)
        then have "owner_loop lib uid resources (hd path)" using loop_through_path [OF path ne] step last by simp
        then show ?thesis using True Some one by (simp add: walk_from.simps [of lib] walk_describes_def)
      next
        case False
        have "walk_describes lib uid resources (hd (path @ [c]))
            (walk_from lib uid resources (mr_logical_id c # visited) (path @ [c]) c)"
          using IH [OF one refl Some False] path step last ne visited sub mem inj
          by (simp add: successively_append_iff)
        then show ?thesis using False Some one ne by (simp add: walk_from.simps [of lib _ _ _ _ current])
      qed
    qed
  qed
qed

text \<open>The three outcomes exclude each other and determine their argument.\<close>

lemma chain_facts:
  assumes "owner_chain lib uid resources pod p"
  shows "(owner_step lib uid resources)\<^sup>*\<^sup>* pod (last p)" "\<nexists>c. owner_step lib uid resources (last p) c"
    "\<not> too_many_controllers (last p)"
proof -
  have "last p \<in> set p" using assms by (simp add: owner_chain_def)
  then show "(owner_step lib uid resources)\<^sup>*\<^sup>* pod (last p)"
    using owners.path_reaches [of lib uid resources p "last p"] assms by (simp add: owner_chain_def)
  show "\<nexists>c. owner_step lib uid resources (last p) c" "\<not> too_many_controllers (last p)"
    using assms by (simp_all add: owner_chain_def too_many_controllers_def)
qed

lemma walk_describes_unique:
  assumes "walk_describes lib uid resources pod v" "walk_describes lib uid resources pod w"
  shows "v = w"
proof -
  let ?step = "owner_step lib uid resources"
  have lc: "\<not> owner_loop lib uid resources pod" if "owner_chain lib uid resources pod p" for p
    using owners.loop_has_no_end [of lib uid resources pod] chain_facts [OF that] unfolding owner_loop_def by metis
  have lm: "\<not> owner_loop lib uid resources pod" if "?step\<^sup>*\<^sup>* pod r" "too_many_controllers r" for r
    using owners.loop_has_no_end [of lib uid resources pod] too_many_no_step that unfolding owner_loop_def by metis
  have cm: False if "owner_chain lib uid resources pod p" "?step\<^sup>*\<^sup>* pod r" "too_many_controllers r" for p r
  proof -
    have "last p = r"
      by (rule owners.one_end [OF chain_facts(1) [OF that(1)] that(2) chain_facts(2) [OF that(1)]])
        (use too_many_no_step [OF that(3)] in blast)
    then show False using chain_facts(3) [OF that(1)] that(3) by simp
  qed
  have cc: "p = q" if "owner_chain lib uid resources pod p" "owner_chain lib uid resources pod q" for p q
    using owners.one_maximal_path [of lib uid resources p q] that unfolding owner_chain_def by simp
  have mm: "r = r'" if "?step\<^sup>*\<^sup>* pod r" "too_many_controllers r" "?step\<^sup>*\<^sup>* pod r'" "too_many_controllers r'" for r r'
    by (rule owners.one_end [OF that(1,3)]) (use too_many_no_step that(2,4) in blast)+
  show ?thesis
    using assms lc lm cm cc mm unfolding walk_describes_def
    by (cases v; cases w) (simp_all, blast+)
qed

lemma walk_iff:
  assumes "pod \<in> set resources" "inj_on mr_logical_id (set resources)"
  shows "walk_owner_chain lib uid resources pod = w \<longleftrightarrow> walk_describes lib uid resources pod w"
proof -
  have "walk_describes lib uid resources pod (walk_owner_chain lib uid resources pod)"
    unfolding walk_owner_chain_def using walk_from_describes [of "[pod]" pod lib uid resources "[mr_logical_id pod]"] assms
    by simp
  then show ?thesis using walk_describes_unique by blast
qed

text \<open>C23: the walk along controller references always ends, and its outcome is exactly what the chain of
  owners is: a cycle if some resource reachable from the Pod owns itself through others, the offending
  resource if a reachable one has more than one controller, and otherwise the whole chain from the Pod to
  the last owner found in the bundle.\<close>

theorem owner_walk_classifies:
  assumes "pod \<in> set resources" "inj_on mr_logical_id (set resources)"
  shows "(walk_owner_chain lib uid resources pod = Cycle \<longleftrightarrow> owner_loop lib uid resources pod)
    \<and> (\<forall>r. walk_owner_chain lib uid resources pod = MultipleControllers r
          \<longleftrightarrow> (owner_step lib uid resources)\<^sup>*\<^sup>* pod r \<and> too_many_controllers r)
    \<and> (\<forall>p. walk_owner_chain lib uid resources pod = Path p \<longleftrightarrow> owner_chain lib uid resources pod p)"
  unfolding walk_iff [OF assms] walk_describes_def by simp

section \<open>What the resolution returns\<close>

definition invalid_ownership :: "kubernetes_library \<Rightarrow> string \<Rightarrow> bool \<Rightarrow> mapped_resource list \<Rightarrow> mapped_resource \<Rightarrow> bool" where
  "invalid_ownership lib uid captured resources pod \<longleftrightarrow>
     too_many_controllers pod \<or> captured \<and> (owner_loop lib uid resources pod \<or>
       (\<exists>r. (owner_step lib uid resources)\<^sup>*\<^sup>* pod r \<and> too_many_controllers r))"

definition owned_by :: "kubernetes_library \<Rightarrow> string \<Rightarrow> mapped_resource list \<Rightarrow> mapped_resource \<Rightarrow> resolved_ownership \<Rightarrow> bool" where
  "owned_by lib uid resources pod owned \<longleftrightarrow>
     (\<exists>p. owner_chain lib uid resources pod p \<and> supported_chain p \<and> owned = ownership_along pod p)"

lemma resolve_pod_cases:
  assumes "pod \<in> set resources" "inj_on mr_logical_id (set resources)"
  shows "(\<exists>d. resolve_pod lib uid captured resources pod = Inl d) \<longleftrightarrow> invalid_ownership lib uid captured resources pod"
    "resolve_pod lib uid captured resources pod = Inr (Inr owned) \<longleftrightarrow>
       captured \<and> \<not> too_many_controllers pod \<and> owned_by lib uid resources pod owned"
proof -
  let ?w = "walk_owner_chain lib uid resources pod"
  have iff: "?w = v \<longleftrightarrow> walk_describes lib uid resources pod v" for v by (rule walk_iff [OF assms])
  have loop: "owner_loop lib uid resources pod \<longleftrightarrow> ?w = Cycle" unfolding iff by (simp add: walk_describes_def)
  have multi: "(\<exists>r. (owner_step lib uid resources)\<^sup>*\<^sup>* pod r \<and> too_many_controllers r) \<longleftrightarrow> (\<exists>r. ?w = MultipleControllers r)"
    unfolding iff by (simp add: walk_describes_def)
  have path: "owner_chain lib uid resources pod p \<longleftrightarrow> ?w = Path p" for p unfolding iff by (simp add: walk_describes_def)
  show "(\<exists>d. resolve_pod lib uid captured resources pod = Inl d) \<longleftrightarrow> invalid_ownership lib uid captured resources pod"
    unfolding invalid_ownership_def loop multi
    by (auto simp: resolve_pod_def too_many_controllers_def split: walked.splits if_splits)
  show "resolve_pod lib uid captured resources pod = Inr (Inr owned) \<longleftrightarrow>
       captured \<and> \<not> too_many_controllers pod \<and> owned_by lib uid resources pod owned"
    unfolding owned_by_def path
    by (auto simp: resolve_pod_def too_many_controllers_def split: walked.splits if_splits)
qed

lemma of_kind_mem [simp]: "r \<in> set (of_kind k resources) \<longleftrightarrow> r \<in> set resources \<and> mr_resource_kind r = k"
  by (auto simp: of_kind_def)

lemma resolve_owner_chains_exact:
  assumes inj: "inj_on mr_logical_id (set resources)"
  shows "oc_result (resolve_owner_chains lib resources uid captured) = REJECTED_INVALID \<longleftrightarrow>
      (\<exists>pod\<in>set resources. mr_resource_kind pod = POD_KIND \<and> invalid_ownership lib uid captured resources pod)"
    (is "?rejected \<longleftrightarrow> ?invalid")
    and "oc_result (resolve_owner_chains lib resources uid captured) \<noteq> REJECTED_INVALID \<Longrightarrow>
      owned \<in> set (oc_resolved (resolve_owner_chains lib resources uid captured)) \<longleftrightarrow>
      captured \<and> (\<exists>pod\<in>set resources. mr_resource_kind pod = POD_KIND \<and> owned_by lib uid resources pod owned)"
proof -
  let ?t = "traverse (resolve_pod lib uid captured resources) (of_kind POD_KIND resources)"
  have fails: "(\<exists>d. ?t = Inl d) \<longleftrightarrow> ?invalid"
    unfolding traverse_fails using resolve_pod_cases(1) [OF _ inj] by fastforce
  show rej: "?rejected \<longleftrightarrow> ?invalid"
    unfolding fails [symmetric] by (auto simp: resolve_owner_chains_def limited_def split: sum.splits)
  assume "oc_result (resolve_owner_chains lib resources uid captured) \<noteq> REJECTED_INVALID"
  then have valid: "\<not> ?invalid" using rej by simp
  then obtain outcomes where t: "?t = Inr outcomes" using fails by (cases ?t) auto
  have "Inr owned \<in> set outcomes \<longleftrightarrow>
      (\<exists>pod\<in>set (of_kind POD_KIND resources). resolve_pod lib uid captured resources pod = Inr (Inr owned))"
    using traverse_mem [OF t, of "Inr owned"] traverse_mem' [OF t] by fastforce
  also have "\<dots> \<longleftrightarrow> captured \<and> (\<exists>pod\<in>set resources. mr_resource_kind pod = POD_KIND \<and> owned_by lib uid resources pod owned)"
    using resolve_pod_cases(2) [OF _ inj] valid by (auto simp: invalid_ownership_def)
  finally show "owned \<in> set (oc_resolved (resolve_owner_chains lib resources uid captured)) \<longleftrightarrow>
      captured \<and> (\<exists>pod\<in>set resources. mr_resource_kind pod = POD_KIND \<and> owned_by lib uid resources pod owned)"
    by (simp add: resolve_owner_chains_def t)
qed

text \<open>C24: a bundle's ownership is rejected exactly when some Pod has two controllers, or, for a captured
  bundle, its chain runs into a cycle or a resource with two controllers; otherwise the ownerships
  returned are exactly those of the Pods whose whole chain is Pod to StatefulSet or DaemonSet, or Pod to
  ReplicaSet to Deployment, with all the chain's members as evidence.\<close>

theorem owner_resolution_exact:
  assumes "inj_on mr_logical_id (set resources)"
  shows "(oc_result (resolve_owner_chains lib resources uid captured) = REJECTED_INVALID \<longleftrightarrow>
        (\<exists>pod\<in>set resources. mr_resource_kind pod = POD_KIND \<and> invalid_ownership lib uid captured resources pod))
    \<and> (oc_result (resolve_owner_chains lib resources uid captured) \<noteq> REJECTED_INVALID \<longrightarrow>
        (\<forall>owned. owned \<in> set (oc_resolved (resolve_owner_chains lib resources uid captured)) \<longleftrightarrow>
          captured \<and> (\<exists>pod\<in>set resources. mr_resource_kind pod = POD_KIND \<and> owned_by lib uid resources pod owned)))"
  using resolve_owner_chains_exact [OF assms] by blast

section \<open>What selections and routes are\<close>

definition selects :: "mapped_resource \<Rightarrow> mapped_resource \<Rightarrow> bool" where
  "selects service pod \<longleftrightarrow>
     mr_resource_kind service = SERVICE_KIND \<and> mr_resource_kind pod = POD_KIND \<and>
     service_selector service \<noteq> [] \<and> service_type service \<noteq> Some ''ExternalName'' \<and>
     pj_namespace (mr_projection pod) = pj_namespace (mr_projection service) \<and>
     (\<forall>(k, v)\<in>set (service_selector service). map_of (pod_labels pod) k = Some v)"

lemma select_workloads_mem:
  assumes "mr_resource_kind service = SERVICE_KIND"
  shows "s \<in> set (snd (select_workloads (of_kind POD_KIND resources) ownerships service)) \<longleftrightarrow>
     (\<exists>pod\<in>set resources. \<exists>owned. selects service pod \<and>
        ownership_by_pod ownerships (mr_logical_id pod) = Some owned \<and>
        s = selection_record (matching_ownerships (of_kind POD_KIND resources) ownerships service) service
              (ro_workload owned))"
proof (cases "service_selector service = [] \<or> service_type service = Some ''ExternalName''")
  case True
  then show ?thesis by (auto simp: select_workloads_def selects_def)
next
  case False
  let ?pods = "of_kind POD_KIND resources"
  have match: "pod \<in> set (matching_pods ?pods service) \<longleftrightarrow> pod \<in> set resources \<and> selects service pod" for pod
    using False assms by (auto simp: matching_pods_def selects_def matches_selector_def list_all_iff)
  have owned: "owned \<in> set (matching_ownerships ?pods ownerships service) \<longleftrightarrow>
      (\<exists>pod\<in>set resources. selects service pod \<and> ownership_by_pod ownerships (mr_logical_id pod) = Some owned)" for owned
    unfolding matching_ownerships_def set_somes set_map image_iff Bex_def match by metis
  show ?thesis
  proof (cases "matching_pods ?pods service = []")
    case True
    then have "\<not> (pod \<in> set resources \<and> selects service pod)" for pod using match [of pod] by simp
    then show ?thesis using True False by (auto simp: select_workloads_def Let_def)
  next
    case ne: False
    have list: "snd (select_workloads ?pods ownerships service)
        = map (selection_record (matching_ownerships ?pods ownerships service) service)
            (sorted_set (map ro_workload (matching_ownerships ?pods ownerships service)))"
      using False ne by (simp add: select_workloads_def Let_def)
    have "s \<in> set (snd (select_workloads ?pods ownerships service))
        \<longleftrightarrow> (\<exists>owned\<in>set (matching_ownerships ?pods ownerships service).
              s = selection_record (matching_ownerships ?pods ownerships service) service (ro_workload owned))"
      unfolding list set_map set_sorted_set by blast
    then show ?thesis using owned by (metis (no_types, lifting))
  qed
qed

lemma selection_record_sel [simp]:
  "rs_service (selection_record owned service w) = mr_logical_id service"
  "rs_workload (selection_record owned service w) = w"
  by (simp_all add: selection_record_def)

lemma selection_iff:
  "s \<in> set (ss_resolved (resolve_service_selections resources ownerships)) \<longleftrightarrow>
     (\<exists>service\<in>set resources. mr_resource_kind service = SERVICE_KIND \<and>
        s \<in> set (snd (select_workloads (of_kind POD_KIND resources) ownerships service)))"
  by (auto simp: resolve_service_selections_def Let_def)

text \<open>A Service selects a Workload exactly when some Pod in its namespace carries every label of its
  non-empty selector and that Pod's resolved ownership names the Workload; an ExternalName Service selects
  nothing.\<close>

theorem service_selection_exact:
  "(\<exists>s\<in>set (ss_resolved (resolve_service_selections resources ownerships)). rs_service s = i \<and> rs_workload s = w)
   \<longleftrightarrow> (\<exists>service\<in>set resources. \<exists>pod\<in>set resources. \<exists>owned.
        mr_logical_id service = i \<and> selects service pod \<and>
        ownership_by_pod ownerships (mr_logical_id pod) = Some owned \<and> ro_workload owned = w)"
proof
  assume "\<exists>s\<in>set (ss_resolved (resolve_service_selections resources ownerships)). rs_service s = i \<and> rs_workload s = w"
  then obtain s service where s: "rs_service s = i" "rs_workload s = w"
    and service: "service \<in> set resources" "mr_resource_kind service = SERVICE_KIND"
    and mem: "s \<in> set (snd (select_workloads (of_kind POD_KIND resources) ownerships service))"
    by (auto simp: selection_iff)
  show "\<exists>service\<in>set resources. \<exists>pod\<in>set resources. \<exists>owned.
        mr_logical_id service = i \<and> selects service pod \<and>
        ownership_by_pod ownerships (mr_logical_id pod) = Some owned \<and> ro_workload owned = w"
  proof -
    obtain pod owned where "pod \<in> set resources" "selects service pod"
      "ownership_by_pod ownerships (mr_logical_id pod) = Some owned"
      "mr_logical_id service = i" "ro_workload owned = w"
      using mem [unfolded select_workloads_mem [OF service(2)]] s by (elim bexE exE conjE) simp
    then show ?thesis using service(1) by blast
  qed
next
  assume "\<exists>service\<in>set resources. \<exists>pod\<in>set resources. \<exists>owned.
        mr_logical_id service = i \<and> selects service pod \<and>
        ownership_by_pod ownerships (mr_logical_id pod) = Some owned \<and> ro_workload owned = w"
  then obtain service pod owned where *: "service \<in> set resources" "pod \<in> set resources"
    "mr_logical_id service = i" "selects service pod" "ownership_by_pod ownerships (mr_logical_id pod) = Some owned"
    "ro_workload owned = w" by blast
  then have kind: "mr_resource_kind service = SERVICE_KIND" by (simp add: selects_def)
  show "\<exists>s\<in>set (ss_resolved (resolve_service_selections resources ownerships)). rs_service s = i \<and> rs_workload s = w"
  proof (rule bexI)
    let ?s = "selection_record (matching_ownerships (of_kind POD_KIND resources) ownerships service) service w"
    show "rs_service ?s = i \<and> rs_workload ?s = w" using *(3) by simp
    have "?s \<in> set (snd (select_workloads (of_kind POD_KIND resources) ownerships service))"
      unfolding select_workloads_mem [OF kind] using *(2,4-6) by blast
    then show "?s \<in> set (ss_resolved (resolve_service_selections resources ownerships))"
      unfolding selection_iff using *(1) kind by blast
  qed
qed

definition routes_to :: "mapped_resource list \<Rightarrow> mapped_resource \<Rightarrow> mapped_resource \<Rightarrow> bool" where
  "routes_to resources ingress service \<longleftrightarrow>
     (\<exists>name wanted_name wanted_number. ServiceBackend name wanted_name wanted_number \<in> set (iter_backends ingress) \<and>
        service_named resources (pj_namespace (mr_projection ingress)) name = Some service \<and>
        (\<exists>p. matching_ports (service_ports service) wanted_name wanted_number = [p]))"

lemma resolve_backend_Inr:
  "resolve_backend resources ingress b = Inr i \<longleftrightarrow>
     (\<exists>name wanted_name wanted_number service. b = ServiceBackend name wanted_name wanted_number \<and>
        service_named resources (pj_namespace (mr_projection ingress)) name = Some service \<and>
        (\<exists>p. matching_ports (service_ports service) wanted_name wanted_number = [p]) \<and> mr_logical_id service = i)"
  by (cases b) (auto simp: resolve_backend_def Let_def length_Suc_conv split: option.splits)

lemma route_mem:
  "r \<in> set (ib_resolved (resolve_ingress_backends resources)) \<longleftrightarrow>
     (\<exists>ingress\<in>set resources. \<exists>service. mr_resource_kind ingress = INGRESS_KIND \<and> routes_to resources ingress service \<and>
        r = \<lparr>rr_ingress = mr_logical_id ingress, rr_service = mr_logical_id service,
             rr_evidence = [mr_logical_id ingress, mr_logical_id service]\<rparr>)"
proof -
  have rights: "i \<in> set (rights (map (resolve_backend resources ingress) (iter_backends ingress))) \<longleftrightarrow>
      (\<exists>service. routes_to resources ingress service \<and> mr_logical_id service = i)" for ingress i
  proof -
    have "i \<in> set (rights (map (resolve_backend resources ingress) (iter_backends ingress))) \<longleftrightarrow>
        (\<exists>b\<in>set (iter_backends ingress). resolve_backend resources ingress b = Inr i)"
      by (auto simp: image_iff) metis
    then show ?thesis unfolding resolve_backend_Inr routes_to_def by blast
  qed
  have "r \<in> set (snd (route_ingress resources ingress)) \<longleftrightarrow>
      (\<exists>service. routes_to resources ingress service \<and>
        r = \<lparr>rr_ingress = mr_logical_id ingress, rr_service = mr_logical_id service,
             rr_evidence = [mr_logical_id ingress, mr_logical_id service]\<rparr>)" for ingress
    using rights [of _ ingress] by (auto simp: route_ingress_def Let_def simp del: set_lefts_rights)
  then show ?thesis unfolding resolve_ingress_backends_def Let_def by auto
qed

lemma service_namedD:
  assumes "service_named resources namespace name = Some r"
  shows "r \<in> set resources" "mr_resource_kind r = SERVICE_KIND"
    "pj_namespace (mr_projection r) = namespace" "pj_name (mr_projection r) = name"
  using map_of_SomeD [OF assms [unfolded service_named_def]] by auto

text \<open>An Ingress routes to a Service exactly when one of its backends names that Service, in the
  Ingress's own namespace, and the backend's port matches exactly one of the Service's declared
  ports.\<close>

theorem ingress_routes_exact:
  "(\<exists>r\<in>set (ib_resolved (resolve_ingress_backends resources)). rr_ingress r = i \<and> rr_service r = j)
   \<longleftrightarrow> (\<exists>ingress\<in>set resources. \<exists>service. mr_resource_kind ingress = INGRESS_KIND \<and>
        routes_to resources ingress service \<and> mr_logical_id ingress = i \<and> mr_logical_id service = j)"
proof
  assume "\<exists>r\<in>set (ib_resolved (resolve_ingress_backends resources)). rr_ingress r = i \<and> rr_service r = j"
  then obtain r where "r \<in> set (ib_resolved (resolve_ingress_backends resources))" "rr_ingress r = i" "rr_service r = j"
    by blast
  then obtain ingress service where "ingress \<in> set resources" "mr_resource_kind ingress = INGRESS_KIND"
    "routes_to resources ingress service" "mr_logical_id ingress = i" "mr_logical_id service = j"
    unfolding route_mem by (elim bexE exE conjE) simp
  then show "\<exists>ingress\<in>set resources. \<exists>service. mr_resource_kind ingress = INGRESS_KIND \<and>
        routes_to resources ingress service \<and> mr_logical_id ingress = i \<and> mr_logical_id service = j" by blast
next
  assume "\<exists>ingress\<in>set resources. \<exists>service. mr_resource_kind ingress = INGRESS_KIND \<and>
        routes_to resources ingress service \<and> mr_logical_id ingress = i \<and> mr_logical_id service = j"
  then obtain ingress service where *: "ingress \<in> set resources" "mr_resource_kind ingress = INGRESS_KIND"
    "routes_to resources ingress service" "mr_logical_id ingress = i" "mr_logical_id service = j" by blast
  then have "\<lparr>rr_ingress = i, rr_service = j, rr_evidence = [i, j]\<rparr> \<in> set (ib_resolved (resolve_ingress_backends resources))"
    unfolding route_mem by blast
  then show "\<exists>r\<in>set (ib_resolved (resolve_ingress_backends resources)). rr_ingress r = i \<and> rr_service r = j" by force
qed

section \<open>Two resources that own each other\<close>

definition looped :: "string \<Rightarrow> string \<Rightarrow> string \<Rightarrow> string \<Rightarrow> mapped_resource" where
  "looped kind name owner_kind owner_name =
     \<lparr>mr_logical_id = (case kubernetes_logical_resource_id (lib_sha256 sample_library) ''c'' [] kind ''ns'' name of
          None \<Rightarrow> [] | Some i \<Rightarrow> i),
      mr_resource_kind = kind, mr_entity = None, mr_semantic_digest = ''d'', mr_source_pointers = [''f''],
      mr_projection = \<lparr>pj_api_version = ''v1'', pj_kind = kind, pj_namespace = ''ns'', pj_name = name,
        pj_owner_references = [\<lparr>or_api_version = ''v1'', or_kind = owner_kind, or_name = owner_name,
          or_uid = owner_name, or_controller = True\<rparr>], pj_body = PlainBody\<rparr>,
      mr_captured_uid = Some name\<rparr>"

definition looped_pod :: mapped_resource where
  "looped_pod = looped POD_KIND ''p'' REPLICASET_KIND ''r''"

definition loop_bundle :: "mapped_resource list" where
  "loop_bundle = [looped_pod, looped REPLICASET_KIND ''r'' POD_KIND ''p'']"

lemma loop_bundle_facts:
  "looped_pod \<in> set loop_bundle" "inj_on mr_logical_id (set loop_bundle)" "mr_resource_kind looped_pod = POD_KIND"
proof -
  have "distinct (map mr_logical_id loop_bundle)" by code_simp
  then show "inj_on mr_logical_id (set loop_bundle)" by (simp add: distinct_map)
qed (simp_all add: loop_bundle_def looped_pod_def looped_def)

lemma loop_walk: "walk_owner_chain sample_library ''c'' loop_bundle looped_pod = Cycle"
proof -
  have "case walk_owner_chain sample_library ''c'' loop_bundle looped_pod of Cycle \<Rightarrow> True | _ \<Rightarrow> False"
    by code_simp
  then show ?thesis by (simp split: walked.splits)
qed

lemma owner_walk_classifies_witness: "owner_loop sample_library ''c'' loop_bundle looped_pod"
  using owner_walk_classifies [OF loop_bundle_facts(1,2), of sample_library "''c''"] loop_walk by simp

lemma owner_resolution_exact_witness:
  "oc_result (resolve_owner_chains sample_library loop_bundle ''c'' True) = REJECTED_INVALID"
proof -
  have "invalid_ownership sample_library ''c'' True loop_bundle looped_pod"
    using walk_iff [OF loop_bundle_facts(1,2), of sample_library "''c''" Cycle] loop_walk
    by (simp add: invalid_ownership_def walk_describes_def)
  then show ?thesis
    using owner_resolution_exact [OF loop_bundle_facts(2), of sample_library "''c''" True] loop_bundle_facts(1,3) by blast
qed

end
