(* ===== verification/KubernetesAdapter.thy ===== *)
theory KubernetesAdapter
  imports KubernetesClaims Discovery
begin

text \<open>
  \<open>ingestion/kubernetes_adapter.py\<close>: one loaded Kubernetes source to an adapter outcome.  A
  \<open>kubernetes_source\<close> holds what the adapter reads of the source: the discovery-time diagnostics, the
  descriptor's id and revision, the parsed envelope and the resource entries.  A dictionary lookup that
  fails is a \<open>KeyError\<close>.  The validators of the canonical models the adapter constructs
  (\<open>infrastructure_claim_valid\<close> and its siblings) are not run by these definitions: that they would
  accept is proved.
\<close>

record kubernetes_source =
  ks_diagnostics :: "ingestion_diagnostic list"
  ks_source_instance_id :: string
  ks_revision :: "string option"
  ks_cluster_uid :: string
  ks_mode :: kubernetes_evidence_mode
  ks_captured_at :: string
  ks_namespaces :: "string list"
  ks_resources :: "kubernetes_resource_entry list"

datatype adapter_fault = Fault raised | KeyError string

definition adapter_identity :: string where
  "adapter_identity = ''kubernetes-adapter@1''"

definition mapping_rule_version :: string where
  "mapping_rule_version = ''1''"

definition result_by_diagnostic_code :: "(string \<times> ingestion_result) list" where
  "result_by_diagnostic_code = [(DC_K8S_CLUSTER_IDENTITY_UNRESOLVED, REJECTED_UNSUPPORTED),
     (DC_K8S_LIMIT_EXCEEDED, REJECTED_UNSUPPORTED), (DC_K8S_SNAPSHOT_INVALID, REJECTED_INVALID),
     (DC_K8S_SNAPSHOT_INCOMPLETE, REJECTED_INVALID)]"

section \<open>Evidence\<close>

definition ascii_lower :: "string \<Rightarrow> string" where
  "ascii_lower s = map (\<lambda>c. if CHR ''A'' \<le> c \<and> c \<le> CHR ''Z'' then char_of (of_char c + 32 :: nat) else c) s"

definition evidence_id :: "string \<Rightarrow> string \<Rightarrow> string option \<Rightarrow> string" where
  "evidence_id source_type slug revision =
     ''evidence:'' @ ascii_lower source_type @ '':'' @ slug @
       (case revision of None \<Rightarrow> [] | Some r \<Rightarrow> if r = [] then [] else '':'' @ r)"

definition pointer_evidence :: "string option \<Rightarrow> string \<Rightarrow> string \<Rightarrow> string" where
  "pointer_evidence revision logical_id p = evidence_id kubernetes_source_type (logical_id @ ''#'' @ p) revision"

definition pointer_provenance :: "string option \<Rightarrow> string \<Rightarrow> string \<Rightarrow> provenance" where
  "pointer_provenance revision logical_id p =
     \<lparr>prov_id = pointer_evidence revision logical_id p, prov_source_type = kubernetes_source_type,
      prov_source_file = p, prov_source_revision = revision, prov_evidence_type = ''DECLARED''\<rparr>"

record evidence_state =
  ev_provenance :: "provenance list"
  ev_refs :: "string \<Rightarrow> string list option"

definition mint_evidence :: "string option \<Rightarrow> string \<Rightarrow> string list \<Rightarrow> evidence_state \<Rightarrow> evidence_state" where
  "mint_evidence revision logical_id pointers st =
     \<lparr>ev_provenance = ev_provenance st @ map (pointer_provenance revision logical_id) pointers,
      ev_refs = (ev_refs st)(logical_id \<mapsto> sort (map (pointer_evidence revision logical_id) pointers))\<rparr>"

definition refs_of :: "evidence_state \<Rightarrow> string list \<Rightarrow> adapter_fault + string list" where
  "refs_of st logical_ids =
     (case traverse (\<lambda>i. case ev_refs st i of None \<Rightarrow> Inl (KeyError i) | Some refs \<Rightarrow> Inr refs) logical_ids of
        Inl e \<Rightarrow> Inl e | Inr refs \<Rightarrow> Inr (sorted_set (concat refs)))"

section \<open>Entities\<close>

definition promoted :: "mapped_resource list \<Rightarrow> (mapped_resource \<times> infrastructure_entity) list" where
  "promoted resources = concat (map (\<lambda>r. case mr_entity r of None \<Rightarrow> [] | Some e \<Rightarrow> [(r, e)]) resources)"

definition mint_entities ::
  "string option \<Rightarrow> (mapped_resource \<times> infrastructure_entity) list \<Rightarrow> evidence_state \<Rightarrow> evidence_state" where
  "mint_entities revision pairs st =
     foldl (\<lambda>st (r, e). mint_evidence revision (ie_id e) (mr_source_pointers r) st) st pairs"

definition entity_refs :: "string option \<Rightarrow> mapped_resource \<times> infrastructure_entity \<Rightarrow> string list" where
  "entity_refs revision = (\<lambda>(r, e). sort (map (pointer_evidence revision (ie_id e)) (mr_source_pointers r)))"

definition contribution_of ::
  "kubernetes_source \<Rightarrow> mapped_resource \<times> infrastructure_entity \<Rightarrow> infrastructure_contribution" where
  "contribution_of src = (\<lambda>(r, e).
     \<lparr>ic_entity_id = ie_id e, ic_source_instance_id = ks_source_instance_id src, ic_evidence_mode = ks_mode src,
      ic_resource_semantic_digest = mr_semantic_digest r, ic_captured_resource_uid = mr_captured_uid r,
      ic_service_id_annotation = (case pj_body (mr_projection r) of WorkloadBody s \<Rightarrow> s | _ \<Rightarrow> None),
      ic_captured_at = Some (ks_captured_at src), ic_evidence_refs = entity_refs (ks_revision src) (r, e),
      ic_mapping_rule_id = adapter_identity, ic_mapping_rule_version = mapping_rule_version\<rparr>)"

definition make_claim ::
  "infrastructure_claim_kind \<Rightarrow> string \<Rightarrow> string option \<Rightarrow> string list \<Rightarrow> infrastructure_claim" where
  "make_claim kind subject obj refs =
     \<lparr>cl_kind = kind, cl_subject_id = subject, cl_object_id = obj, cl_evidence_refs = refs,
      cl_mapping_rule_id = adapter_identity, cl_mapping_rule_version = mapping_rule_version\<rparr>"

definition workload_claims ::
  "string option \<Rightarrow> (mapped_resource \<times> infrastructure_entity) list \<Rightarrow> infrastructure_claim list" where
  "workload_claims revision pairs =
     map (\<lambda>(r, e). make_claim WORKLOAD_EXISTS (ie_id e) None (entity_refs revision (r, e)))
       (filter (\<lambda>(r, e). ie_entity_kind e = KUBERNETES_WORKLOAD) pairs)"

section \<open>Relations\<close>

text \<open>An owner chain mints the evidence of a participant that has none yet (a ReplicaSet).\<close>

fun mint_missing :: "string option \<Rightarrow> mapped_resource list \<Rightarrow> string list \<Rightarrow> evidence_state
     \<Rightarrow> adapter_fault + evidence_state" where
  "mint_missing revision resources [] st = Inr st"
| "mint_missing revision resources (i # ids) st =
     (if ev_refs st i \<noteq> None then mint_missing revision resources ids st
      else case by_logical_id resources i of
        None \<Rightarrow> Inl (KeyError i)
      | Some r \<Rightarrow> mint_missing revision resources ids (mint_evidence revision i (mr_source_pointers r) st))"

fun ownership_claims :: "string option \<Rightarrow> mapped_resource list \<Rightarrow> resolved_ownership list \<Rightarrow> evidence_state
     \<Rightarrow> adapter_fault + evidence_state \<times> infrastructure_claim list" where
  "ownership_claims revision resources [] st = Inr (st, [])"
| "ownership_claims revision resources (owned # rest) st =
     (case mint_missing revision resources (ro_evidence owned) st of
        Inl e \<Rightarrow> Inl e
      | Inr st' \<Rightarrow>
          (case refs_of st' (ro_evidence owned) of
             Inl e \<Rightarrow> Inl e
           | Inr refs \<Rightarrow>
               (case ownership_claims revision resources rest st' of
                  Inl e \<Rightarrow> Inl e
                | Inr (st'', claims) \<Rightarrow>
                    Inr (st'', make_claim WORKLOAD_OWNS_POD (ro_workload owned) (Some (ro_pod owned)) refs # claims))))"

definition selection_claim :: "evidence_state \<Rightarrow> resolved_selection \<Rightarrow> adapter_fault + infrastructure_claim" where
  "selection_claim st s = (case refs_of st (rs_evidence s) of Inl e \<Rightarrow> Inl e
     | Inr refs \<Rightarrow> Inr (make_claim NETWORK_SERVICE_SELECTS_WORKLOAD (rs_service s) (Some (rs_workload s)) refs))"

definition route_claim :: "evidence_state \<Rightarrow> resolved_route \<Rightarrow> adapter_fault + infrastructure_claim" where
  "route_claim st r = (case refs_of st (rr_evidence r) of Inl e \<Rightarrow> Inl e
     | Inr refs \<Rightarrow> Inr (make_claim INGRESS_ROUTES_TO_NETWORK_SERVICE (rr_ingress r) (Some (rr_service r)) refs))"

section \<open>The replay digest\<close>

definition normalized_projection_bytes :: "(string \<times> bytes) list \<Rightarrow> bytes option" where
  "normalized_projection_bytes documents =
     length_delimited (concat (map (\<lambda>(path, document). [utf8 path, document])
       (sort_key (\<lambda>d. utf8 (fst d)) documents)))"

definition semantic_input_digest :: "(bytes \<Rightarrow> string) \<Rightarrow> bytes \<Rightarrow> string \<Rightarrow> string option" where
  "semantic_input_digest H projection_bytes mapping_context_digest =
     map_option H (length_delimited [projection_bytes, utf8 mapping_context_digest])"

definition source_digest :: "kubernetes_library \<Rightarrow> mapped_resource list \<Rightarrow> string \<Rightarrow> string option" where
  "source_digest lib resources mapping_context_digest =
     (case normalized_projection_bytes (map (\<lambda>r. (mr_logical_id r,
          lib_captured_bytes lib (mr_projection r) (mr_captured_uid r))) resources) of
        None \<Rightarrow> None | Some b \<Rightarrow> semantic_input_digest (lib_sha256 lib) b mapping_context_digest)"

section \<open>The adapter\<close>

definition with_source :: "string \<Rightarrow> ingestion_diagnostic \<Rightarrow> ingestion_diagnostic" where
  "with_source source d = (if d_source d = None then d\<lparr>d_source := Some source\<rparr> else d)"

definition combined_result :: "ingestion_result list \<Rightarrow> ingestion_result" where
  "combined_result results =
     (if ACCEPTED_WITH_LIMITATIONS \<in> set results then ACCEPTED_WITH_LIMITATIONS else ACCEPTED)"

definition kubernetes_facts :: "kubernetes_source \<Rightarrow> mapped_resource list \<Rightarrow> resolved_ownership list
     \<Rightarrow> resolved_selection list \<Rightarrow> resolved_route list \<Rightarrow> adapter_fault + architecture_model" where
  "kubernetes_facts src resources ownerships selections routes =
     (let pairs = promoted resources;
          st = mint_entities (ks_revision src) pairs \<lparr>ev_provenance = [], ev_refs = Map.empty\<rparr> in
      case ownership_claims (ks_revision src) resources ownerships st of
        Inl e \<Rightarrow> Inl e
      | Inr (st', owns) \<Rightarrow>
          (case traverse (selection_claim st') selections of
             Inl e \<Rightarrow> Inl e
           | Inr selected \<Rightarrow>
               (case traverse (route_claim st') routes of
                  Inl e \<Rightarrow> Inl e
                | Inr ingresses \<Rightarrow> Inr (empty_model
                    \<lparr>infrastructure_entities := map snd pairs,
                     infrastructure_contributions := map (contribution_of src) pairs,
                     infrastructure_claims := workload_claims (ks_revision src) pairs @ owns @ selected @ ingresses,
                     provenances := ev_provenance st'\<rparr>))))"

definition map_clean_source ::
  "kubernetes_library \<Rightarrow> kubernetes_source \<Rightarrow> string \<Rightarrow> adapter_fault + adapter_outcome" where
  "map_clean_source lib src mapping_context_digest =
     (let captured = (ks_mode src = CAPTURED_RESOURCE) in
      case map_kubernetes_resources lib (ks_cluster_uid src) captured (ks_namespaces src) (ks_resources src) of
        Inl r \<Rightarrow> Inl (Fault r)
      | Inr mapping \<Rightarrow>
          if km_result mapping \<in> {REJECTED_INVALID, REJECTED_CONFLICT} then
            Inr (rejected_outcome (km_result mapping) (km_diagnostics mapping))
          else
            (let resources = km_resources mapping;
                 owners = resolve_owner_chains lib resources (ks_cluster_uid src) captured in
             if oc_result owners = REJECTED_INVALID then
               Inr (rejected_outcome (oc_result owners) (oc_diagnostics owners))
             else
               (let selection = resolve_service_selections resources (oc_resolved owners);
                    ingress = resolve_ingress_backends resources in
                case kubernetes_facts src resources (oc_resolved owners) (ss_resolved selection) (ib_resolved ingress) of
                  Inl e \<Rightarrow> Inl e
                | Inr model \<Rightarrow>
                    (case source_digest lib resources mapping_context_digest of
                       None \<Rightarrow> Inl (Fault OverflowError)
                     | Some digest \<Rightarrow> Inr
                         \<lparr>ao_result = combined_result [km_result mapping, oc_result owners, ss_result selection,
                            ib_result ingress],
                          ao_model = model,
                          ao_diagnostics = map (with_source (ks_source_instance_id src))
                            (km_diagnostics mapping @ oc_diagnostics owners @ ss_diagnostics selection @
                             ib_diagnostics ingress),
                          ao_semantic_input_digest = Some digest\<rparr>))))"

definition kubernetes_map ::
  "kubernetes_library \<Rightarrow> kubernetes_source \<Rightarrow> string \<Rightarrow> adapter_fault + adapter_outcome" where
  "kubernetes_map lib src mapping_context_digest =
     (case ks_diagnostics src of
        [] \<Rightarrow> map_clean_source lib src mapping_context_digest
      | d # _ \<Rightarrow>
          (case map_of result_by_diagnostic_code (d_code d) of
             None \<Rightarrow> Inl (KeyError (d_code d))
           | Some result \<Rightarrow> Inr (rejected_outcome result (ks_diagnostics src))))"

section \<open>The evidence the adapter holds\<close>

definition good_refs :: "string list \<Rightarrow> bool" where
  "good_refs refs \<longleftrightarrow> refs \<noteq> [] \<and> [] \<notin> set refs \<and> distinct refs \<and> sorted refs"

lemma good_refs_check: "good_refs refs \<longleftrightarrow> check_evidence_refs refs = Inr refs"
  by (simp add: good_refs_def check_evidence_refs_ok_iff)

definition evidence_ok :: "evidence_state \<Rightarrow> bool" where
  "evidence_ok st \<longleftrightarrow>
     (\<forall>p\<in>set (ev_provenance st). prov_source_type p = kubernetes_source_type) \<and>
     (\<forall>i refs. ev_refs st i = Some refs \<longrightarrow> good_refs refs \<and> set refs \<subseteq> prov_id ` set (ev_provenance st))"

lemma pointer_evidence_inject: "pointer_evidence v i p = pointer_evidence v i q \<longleftrightarrow> p = q"
  by (simp add: pointer_evidence_def evidence_id_def)

lemma pointer_evidence_not_Nil: "pointer_evidence v i p \<noteq> []"
  by (simp add: pointer_evidence_def evidence_id_def)

lemma minted_refs_good:
  assumes "pointers \<noteq> []" "distinct pointers"
  shows "good_refs (sort (map (pointer_evidence v i) pointers))"
proof -
  have "length (sort (map (pointer_evidence v i) pointers)) \<noteq> 0" using assms(1) by simp
  then have "sort (map (pointer_evidence v i) pointers) \<noteq> []" by (simp only: length_0_conv not_False_eq_True)
  moreover have "[] \<notin> pointer_evidence v i ` set pointers" by (metis imageE pointer_evidence_not_Nil)
  ultimately show ?thesis
    using assms(2) by (simp add: good_refs_def distinct_map inj_on_def pointer_evidence_inject)
qed

lemma minted_refs_known: "set (sort (map (pointer_evidence v i) pointers)) = prov_id ` set (map (pointer_provenance v i) pointers)"
  by (simp add: image_image pointer_provenance_def)

lemma mint_evidence_ok:
  assumes "evidence_ok st" "pointers \<noteq> []" "distinct pointers"
  shows "evidence_ok (mint_evidence v i pointers st)"
proof -
  have "good_refs refs \<and> set refs \<subseteq> prov_id ` set (ev_provenance (mint_evidence v i pointers st))"
    if "ev_refs (mint_evidence v i pointers st) j = Some refs" for j refs
  proof (cases "j = i")
    case True
    then have refs: "refs = sort (map (pointer_evidence v i) pointers)" using that by (simp add: mint_evidence_def)
    show ?thesis unfolding refs
      using minted_refs_good [OF assms(2,3)] minted_refs_known [of v i pointers] by (auto simp: mint_evidence_def)
  next
    case False
    then have "ev_refs st j = Some refs" using that by (simp add: mint_evidence_def)
    then have "good_refs refs" "set refs \<subseteq> prov_id ` set (ev_provenance st)"
      using assms(1) unfolding evidence_ok_def by blast+
    then show ?thesis by (auto simp: mint_evidence_def)
  qed
  moreover have "\<forall>p\<in>set (ev_provenance (mint_evidence v i pointers st)). prov_source_type p = kubernetes_source_type"
    using assms(1) by (auto simp: evidence_ok_def mint_evidence_def pointer_provenance_def)
  ultimately show ?thesis unfolding evidence_ok_def by blast
qed

lemma mint_evidence_dom: "dom (ev_refs (mint_evidence v i pointers st)) = insert i (dom (ev_refs st))"
  by (simp add: mint_evidence_def)

lemma mint_evidence_provenance:
  "set (ev_provenance st) \<subseteq> set (ev_provenance (mint_evidence v i pointers st))"
  by (simp add: mint_evidence_def)

definition good_pairs :: "(mapped_resource \<times> infrastructure_entity) list \<Rightarrow> bool" where
  "good_pairs pairs \<longleftrightarrow> (\<forall>(r, e)\<in>set pairs. mr_source_pointers r \<noteq> [] \<and> distinct (mr_source_pointers r))"

lemma mint_entities_ok:
  assumes "good_pairs pairs" "evidence_ok st"
  shows "evidence_ok (mint_entities v pairs st)
    \<and> dom (ev_refs (mint_entities v pairs st)) = ie_id ` snd ` set pairs \<union> dom (ev_refs st)"
  using assms
proof (induction pairs arbitrary: st)
  case Nil
  then show ?case by (simp add: mint_entities_def)
next
  case (Cons p pairs)
  obtain r e where p: "p = (r, e)" by (cases p)
  have "evidence_ok (mint_evidence v (ie_id e) (mr_source_pointers r) st)"
    using Cons.prems by (intro mint_evidence_ok) (simp_all add: good_pairs_def p)
  moreover have "good_pairs pairs" using Cons.prems(1) by (simp add: good_pairs_def)
  moreover have "mint_entities v (p # pairs) st = mint_entities v pairs (mint_evidence v (ie_id e) (mr_source_pointers r) st)"
    by (simp add: mint_entities_def p)
  ultimately show ?case using Cons.IH [of "mint_evidence v (ie_id e) (mr_source_pointers r) st"]
    by (auto simp: mint_evidence_dom p)
qed

text \<open>The evidence of an entity is still there when all entities have been minted.\<close>

lemma mint_entities_provenance:
  "set (ev_provenance (mint_entities v pairs st)) =
     set (ev_provenance st) \<union> (\<Union>(r, e)\<in>set pairs. set (map (pointer_provenance v (ie_id e)) (mr_source_pointers r)))"
proof (induction pairs arbitrary: st)
  case Nil
  then show ?case by (simp add: mint_entities_def)
next
  case (Cons p pairs)
  obtain r e where p: "p = (r, e)" by (cases p)
  have "mint_entities v (p # pairs) st = mint_entities v pairs (mint_evidence v (ie_id e) (mr_source_pointers r) st)"
    by (simp add: mint_entities_def p)
  then show ?case using Cons.IH [of "mint_evidence v (ie_id e) (mr_source_pointers r) st"]
    by (auto simp: mint_evidence_def p)
qed

lemma refs_of_ok:
  assumes "evidence_ok st" "set ids \<subseteq> dom (ev_refs st)" "ids \<noteq> []"
  obtains refs where "refs_of st ids = Inr refs" "good_refs refs" "set refs \<subseteq> prov_id ` set (ev_provenance st)"
proof -
  let ?look = "\<lambda>i. case ev_refs st i of None \<Rightarrow> Inl (KeyError i) | Some refs \<Rightarrow> Inr refs"
  have "\<not> (\<exists>e. traverse ?look ids = Inl e)"
    unfolding traverse_fails using assms(2) by (auto split: option.splits)
  then obtain rs where rs: "traverse ?look ids = Inr rs" by (cases "traverse ?look ids") auto
  have each: "good_refs refs \<and> set refs \<subseteq> prov_id ` set (ev_provenance st)" if mem: "refs \<in> set rs" for refs
  proof -
    obtain i where "ev_refs st i = Some refs" using traverse_mem [OF rs mem] by (auto split: option.splits)
    then show ?thesis using assms(1) unfolding evidence_ok_def by blast
  qed
  have "rs \<noteq> []" using traverse_length [OF rs] assms(3) by auto
  then have "hd rs \<in> set rs" by simp
  then have "concat rs \<noteq> []" using each [of "hd rs"] by (auto simp: good_refs_def)
  then have "good_refs (sorted_set (concat rs))" using each by (auto simp: good_refs_def)
  moreover have "set (sorted_set (concat rs)) \<subseteq> prov_id ` set (ev_provenance st)" using each by auto
  moreover have "refs_of st ids = Inr (sorted_set (concat rs))" by (simp add: refs_of_def rs)
  ultimately show thesis using that by blast
qed

lemma mint_missing_ok:
  assumes "set ids \<subseteq> mr_logical_id ` set resources" "evidence_ok st"
    and "\<forall>r\<in>set resources. mr_source_pointers r \<noteq> [] \<and> distinct (mr_source_pointers r)"
  shows "\<exists>st'. mint_missing v resources ids st = Inr st' \<and> evidence_ok st'
    \<and> dom (ev_refs st) \<union> set ids \<subseteq> dom (ev_refs st') \<and> set (ev_provenance st) \<subseteq> set (ev_provenance st')"
  using assms(1,2)
proof (induction ids arbitrary: st)
  case Nil
  then show ?case by simp
next
  case (Cons i ids)
  show ?case
  proof (cases "ev_refs st i = None")
    case False
    then have i: "i \<in> dom (ev_refs st)" by auto
    obtain st' where "mint_missing v resources ids st = Inr st'" "evidence_ok st'"
      "dom (ev_refs st) \<union> set ids \<subseteq> dom (ev_refs st')" "set (ev_provenance st) \<subseteq> set (ev_provenance st')"
      using Cons.IH [OF _ Cons.prems(2)] Cons.prems(1) by auto
    then show ?thesis using False i by auto
  next
    case True
    have "i \<in> mr_logical_id ` set resources" using Cons.prems(1) by simp
    then have "by_logical_id resources i \<noteq> None"
      by (simp add: by_logical_id_def map_of_eq_None_iff image_image)
    then obtain r where r: "by_logical_id resources i = Some r" by auto
    let ?st = "mint_evidence v i (mr_source_pointers r) st"
    have "evidence_ok ?st"
      using assms(3) by_logical_idD(1) [OF r] by (intro mint_evidence_ok Cons.prems(2)) auto
    then obtain st' where "mint_missing v resources ids ?st = Inr st'" "evidence_ok st'"
      "dom (ev_refs ?st) \<union> set ids \<subseteq> dom (ev_refs st')" "set (ev_provenance ?st) \<subseteq> set (ev_provenance st')"
      using Cons.IH [of ?st] Cons.prems(1) by auto
    then show ?thesis
      using True r mint_evidence_dom [of v i "mr_source_pointers r" st]
        mint_evidence_provenance [of st v i "mr_source_pointers r"] by auto
  qed
qed

text \<open>A claim whose evidence is in the state, between two given ids.\<close>

definition sound_claim :: "evidence_state \<Rightarrow> infrastructure_claim \<Rightarrow> bool" where
  "sound_claim st c \<longleftrightarrow> good_refs (cl_evidence_refs c) \<and>
     set (cl_evidence_refs c) \<subseteq> prov_id ` set (ev_provenance st) \<and>
     cl_mapping_rule_id c \<noteq> [] \<and> cl_mapping_rule_version c \<noteq> []"

lemma sound_make_claim:
  "good_refs refs \<Longrightarrow> set refs \<subseteq> prov_id ` set (ev_provenance st) \<Longrightarrow> sound_claim st (make_claim k i j refs)"
  by (simp add: sound_claim_def make_claim_def adapter_identity_def mapping_rule_version_def)

lemma sound_claim_mono:
  "sound_claim st c \<Longrightarrow> set (ev_provenance st) \<subseteq> set (ev_provenance st') \<Longrightarrow> sound_claim st' c"
  unfolding sound_claim_def by blast

definition claim_ends :: "infrastructure_claim \<Rightarrow> infrastructure_claim_kind \<times> string \<times> string option" where
  "claim_ends c = (cl_kind c, cl_subject_id c, cl_object_id c)"

lemma claim_ends_make [simp]: "claim_ends (make_claim k i j refs) = (k, i, j)"
  by (simp add: claim_ends_def make_claim_def)

lemma ownership_claims_ok:
  assumes "\<forall>owned\<in>set ownerships. set (ro_evidence owned) \<subseteq> mr_logical_id ` set resources \<and> ro_evidence owned \<noteq> []"
    and "evidence_ok st" and "\<forall>r\<in>set resources. mr_source_pointers r \<noteq> [] \<and> distinct (mr_source_pointers r)"
  shows "\<exists>st' claims. ownership_claims v resources ownerships st = Inr (st', claims) \<and> evidence_ok st'
    \<and> dom (ev_refs st) \<subseteq> dom (ev_refs st') \<and> (\<forall>owned\<in>set ownerships. set (ro_evidence owned) \<subseteq> dom (ev_refs st'))
    \<and> set (ev_provenance st) \<subseteq> set (ev_provenance st') \<and> (\<forall>c\<in>set claims. sound_claim st' c)
    \<and> map claim_ends claims = map (\<lambda>owned. (WORKLOAD_OWNS_POD, ro_workload owned, Some (ro_pod owned))) ownerships"
  using assms(1,2)
proof (induction ownerships arbitrary: st)
  case Nil
  then show ?case by simp
next
  case (Cons owned rest)
  obtain st1 where st1: "mint_missing v resources (ro_evidence owned) st = Inr st1" "evidence_ok st1"
    "dom (ev_refs st) \<union> set (ro_evidence owned) \<subseteq> dom (ev_refs st1)" "set (ev_provenance st) \<subseteq> set (ev_provenance st1)"
    using mint_missing_ok [of "ro_evidence owned" resources st v] Cons.prems assms(3) by auto
  obtain refs where refs: "refs_of st1 (ro_evidence owned) = Inr refs" "good_refs refs"
    "set refs \<subseteq> prov_id ` set (ev_provenance st1)"
    using refs_of_ok [OF st1(2), of "ro_evidence owned"] st1(3) Cons.prems(1) by auto
  obtain st' claims where rest: "ownership_claims v resources rest st1 = Inr (st', claims)" "evidence_ok st'"
    "dom (ev_refs st1) \<subseteq> dom (ev_refs st')" "\<forall>owned\<in>set rest. set (ro_evidence owned) \<subseteq> dom (ev_refs st')"
    "set (ev_provenance st1) \<subseteq> set (ev_provenance st')" "\<forall>c\<in>set claims. sound_claim st' c"
    "map claim_ends claims = map (\<lambda>owned. (WORKLOAD_OWNS_POD, ro_workload owned, Some (ro_pod owned))) rest"
    using Cons.IH [of st1] Cons.prems(1) st1(2) by auto
  have "sound_claim st' (make_claim WORKLOAD_OWNS_POD (ro_workload owned) (Some (ro_pod owned)) refs)"
    by (rule sound_claim_mono [OF sound_make_claim [OF refs(2,3)] rest(5)])
  moreover have "dom (ev_refs st) \<subseteq> dom (ev_refs st')" "set (ro_evidence owned) \<subseteq> dom (ev_refs st')"
    using st1(3) rest(3) by blast+
  moreover have "set (ev_provenance st) \<subseteq> set (ev_provenance st')" using st1(4) rest(5) by blast
  ultimately show ?case using st1(1) refs(1) rest(1,2,4,6,7) by simp
qed

section \<open>The model the adapter builds\<close>

definition well_mapped_bundle :: "kubernetes_library \<Rightarrow> string \<Rightarrow> bool \<Rightarrow> mapped_resource list \<Rightarrow> bool" where
  "well_mapped_bundle lib uid captured resources \<longleftrightarrow>
     (\<forall>r\<in>set resources. well_mapped lib uid captured r) \<and> distinct (map mr_logical_id resources)"

lemma bundle_inj: "well_mapped_bundle lib uid captured resources \<Longrightarrow> inj_on mr_logical_id (set resources)"
  by (simp add: well_mapped_bundle_def distinct_map)

lemma bundle_pointers:
  "well_mapped_bundle lib uid captured resources \<Longrightarrow>
     \<forall>r\<in>set resources. mr_source_pointers r \<noteq> [] \<and> distinct (mr_source_pointers r)"
  unfolding well_mapped_bundle_def well_mapped_def Let_def by blast

lemma bundle_entity:
  assumes "well_mapped_bundle lib uid captured resources" "r \<in> set resources" "mr_entity r = Some e"
  shows "infrastructure_entity_valid e" "ie_id e = mr_logical_id r"
  using assms unfolding well_mapped_bundle_def well_mapped_def Let_def by blast+

lemma bundle_promotes:
  assumes "well_mapped_bundle lib uid captured resources" "r \<in> set resources"
  shows "map_option ie_entity_kind (mr_entity r) = entity_kind_for (mr_resource_kind r)"
  using assms unfolding well_mapped_bundle_def well_mapped_def Let_def by metis

lemma mem_promoted: "(r, e) \<in> set (promoted resources) \<longleftrightarrow> r \<in> set resources \<and> mr_entity r = Some e"
  by (induction resources) (auto simp: promoted_def split: option.splits)

lemma promoted_distinct:
  assumes "well_mapped_bundle lib uid captured resources"
  shows "distinct (map (\<lambda>p. ie_id (snd p)) (promoted resources))"
proof -
  have "map (\<lambda>p. ie_id (snd p)) (promoted rs) = map mr_logical_id (filter (\<lambda>r. mr_entity r \<noteq> None) rs)"
    if "set rs \<subseteq> set resources" for rs
    using that bundle_entity(2) [OF assms] by (induction rs) (auto simp: promoted_def split: option.splits)
  then have "map (\<lambda>p. ie_id (snd p)) (promoted resources)
      = map mr_logical_id (filter (\<lambda>r. mr_entity r \<noteq> None) resources)" by simp
  then show ?thesis using assms by (simp add: well_mapped_bundle_def distinct_map_filter)
qed

definition entity_ids :: "mapped_resource list \<Rightarrow> string set" where
  "entity_ids resources = ie_id ` snd ` set (promoted resources)"

lemma entity_idI:
  assumes "well_mapped_bundle lib uid captured resources" "r \<in> set resources"
    and "entity_kind_for (mr_resource_kind r) \<noteq> None"
  shows "mr_logical_id r \<in> entity_ids resources"
proof -
  obtain e where e: "mr_entity r = Some e" using bundle_promotes [OF assms(1,2)] assms(3) by auto
  then have "(r, e) \<in> set (promoted resources)" using assms(2) by (simp add: mem_promoted)
  moreover have "ie_id (snd (r, e)) = mr_logical_id r" using bundle_entity(2) [OF assms(1,2) e] by simp
  ultimately show ?thesis unfolding entity_ids_def by (metis imageI)
qed

lemma entity_id_not_Nil:
  assumes "well_mapped_bundle lib uid captured resources" "i \<in> entity_ids resources"
  shows "i \<noteq> []"
proof -
  obtain r e where re: "(r, e) \<in> set (promoted resources)" "i = ie_id e" using assms(2) by (auto simp: entity_ids_def)
  then have "infrastructure_entity_valid e" using bundle_entity(1) [OF assms(1), of r e] by (simp add: mem_promoted)
  then show ?thesis using re(2) by (simp add: infrastructure_entity_valid_def)
qed

lemma promoted_kinds:
  "entity_kind_for POD_KIND \<noteq> None" "entity_kind_for SERVICE_KIND \<noteq> None" "entity_kind_for INGRESS_KIND \<noteq> None"
  "k \<in> set workload_kinds \<Longrightarrow> entity_kind_for k \<noteq> None"
  by (simp_all add: entity_kind_for_def)

lemma chain_in_bundle:
  "successively (owner_step lib uid resources) p \<Longrightarrow> p \<noteq> [] \<Longrightarrow> hd p \<in> set resources \<Longrightarrow> set p \<subseteq> set resources"
proof (induction p)
  case Nil
  then show ?case by simp
next
  case (Cons a p)
  show ?case
  proof (cases "p = []")
    case False
    then have "owner_step lib uid resources a (hd p)" "successively (owner_step lib uid resources) p"
      using Cons.prems(1) by (simp_all add: successively_Cons)
    moreover from this have "hd p \<in> set resources" by (auto simp: owner_step_def dest: find_owner_mem)
    ultimately show ?thesis using Cons.IH Cons.prems(3) False by simp
  qed (use Cons.prems in simp)
qed

lemma supported_last: "supported_chain p \<Longrightarrow> mr_resource_kind (last p) \<in> set workload_kinds"
  by (auto simp: supported_chain_def direct_workload_kinds_def workload_kinds_def split: list.splits)

text \<open>Everything an ownership names is in the bundle, its Pod and its Workload as entities.\<close>

lemma owned_by_facts:
  assumes b: "well_mapped_bundle lib uid captured resources" and pod: "pod \<in> set resources" "mr_resource_kind pod = POD_KIND"
    and o: "owned_by lib uid resources pod owned"
  shows "set (ro_evidence owned) \<subseteq> mr_logical_id ` set resources" "ro_evidence owned \<noteq> []"
    "ro_pod owned \<in> entity_ids resources" "ro_workload owned \<in> entity_ids resources"
proof -
  obtain p where p: "owner_chain lib uid resources pod p" "supported_chain p" "owned = ownership_along pod p"
    using o unfolding owned_by_def by blast
  have ne: "p \<noteq> []" and sub: "set p \<subseteq> set resources"
    using p(1) pod(1) chain_in_bundle [of lib uid resources p] by (simp_all add: owner_chain_def)
  show "set (ro_evidence owned) \<subseteq> mr_logical_id ` set resources" using sub by (auto simp: p(3) ownership_along_def)
  have "length (ro_evidence owned) \<noteq> 0" using ne by (simp add: p(3) ownership_along_def)
  then show "ro_evidence owned \<noteq> []" by (simp only: length_0_conv not_False_eq_True)
  show "ro_pod owned \<in> entity_ids resources"
    using entity_idI [OF b pod(1)] promoted_kinds(1) pod(2) by (simp add: p(3) ownership_along_def)
  have "last p \<in> set resources" using ne sub by auto
  then show "ro_workload owned \<in> entity_ids resources"
    using entity_idI [OF b] promoted_kinds(4) [OF supported_last [OF p(2)]] by (simp add: p(3) ownership_along_def)
qed

lemma ownership_by_podD: "ownership_by_pod ownerships i = Some owned \<Longrightarrow> owned \<in> set ownerships"
  unfolding ownership_by_pod_def by (drule map_of_SomeD) auto

lemma selection_facts:
  assumes b: "well_mapped_bundle lib uid captured resources"
    and s: "s \<in> set (ss_resolved (resolve_service_selections resources ownerships))"
  shows "rs_service s \<in> entity_ids resources" "\<exists>owned\<in>set ownerships. rs_workload s = ro_workload owned"
    "set (rs_evidence s) \<subseteq> entity_ids resources \<union> (\<Union>owned\<in>set ownerships. set (ro_evidence owned))"
    "rs_evidence s \<noteq> []"
proof -
  obtain service where service: "service \<in> set resources" "mr_resource_kind service = SERVICE_KIND"
    "s \<in> set (snd (select_workloads (of_kind POD_KIND resources) ownerships service))"
    using s unfolding selection_iff by blast
  let ?owned = "matching_ownerships (of_kind POD_KIND resources) ownerships service"
  obtain pod :: mapped_resource and owned where pod: "ownership_by_pod ownerships (mr_logical_id pod) = Some owned"
    "s = selection_record ?owned service (ro_workload owned)"
    using service(3) [unfolded select_workloads_mem [OF service(2)]] by blast
  have id: "mr_logical_id service \<in> entity_ids resources"
    using entity_idI [OF b service(1)] promoted_kinds(2) service(2) by simp
  then show "rs_service s \<in> entity_ids resources" by (simp add: pod(2))
  show "\<exists>owned\<in>set ownerships. rs_workload s = ro_workload owned"
    using ownership_by_podD [OF pod(1)] by (auto simp: pod(2))
  have sub: "set ?owned \<subseteq> set ownerships"
  proof
    fix x
    assume "x \<in> set ?owned"
    then obtain pod :: mapped_resource where "ownership_by_pod ownerships (mr_logical_id pod) = Some x"
      unfolding matching_ownerships_def set_somes by auto
    then show "x \<in> set ownerships" by (rule ownership_by_podD)
  qed
  show "set (rs_evidence s) \<subseteq> entity_ids resources \<union> (\<Union>owned\<in>set ownerships. set (ro_evidence owned))"
  proof
    fix x
    assume "x \<in> set (rs_evidence s)"
    then have "x = mr_logical_id service \<or> (\<exists>o'\<in>set ?owned. x \<in> set (ro_evidence o'))"
      unfolding pod(2) selection_record_def by auto
    then show "x \<in> entity_ids resources \<union> (\<Union>owned\<in>set ownerships. set (ro_evidence owned))"
    proof
      assume "\<exists>o'\<in>set ?owned. x \<in> set (ro_evidence o')"
      then obtain o' where "o' \<in> set ?owned" "x \<in> set (ro_evidence o')" by (rule bexE)
      then show ?thesis using sub by (intro UnI2 UN_I [of o']) (rule subsetD)
    qed (simp add: id)
  qed
  show "rs_evidence s \<noteq> []" by (simp add: pod(2) selection_record_def)
qed

lemma route_facts:
  assumes b: "well_mapped_bundle lib uid captured resources"
    and r: "r \<in> set (ib_resolved (resolve_ingress_backends resources))"
  shows "rr_ingress r \<in> entity_ids resources" "rr_service r \<in> entity_ids resources"
    "set (rr_evidence r) \<subseteq> entity_ids resources" "rr_evidence r \<noteq> []"
proof -
  obtain ingress service where *: "ingress \<in> set resources" "mr_resource_kind ingress = INGRESS_KIND"
    "routes_to resources ingress service" and r: "r = \<lparr>rr_ingress = mr_logical_id ingress, rr_service = mr_logical_id service,
      rr_evidence = [mr_logical_id ingress, mr_logical_id service]\<rparr>"
    using r unfolding route_mem by blast
  have service: "service \<in> set resources" "mr_resource_kind service = SERVICE_KIND"
    using *(3) service_namedD unfolding routes_to_def by blast+
  have "mr_logical_id ingress \<in> entity_ids resources" using entity_idI [OF b *(1)] promoted_kinds(3) *(2) by simp
  moreover have "mr_logical_id service \<in> entity_ids resources"
    using entity_idI [OF b service(1)] promoted_kinds(2) service(2) by simp
  ultimately show "rr_ingress r \<in> entity_ids resources" "rr_service r \<in> entity_ids resources"
    "set (rr_evidence r) \<subseteq> entity_ids resources" "rr_evidence r \<noteq> []" by (simp_all add: r)
qed

lemma traverse_total:
  assumes "\<And>x. x \<in> set xs \<Longrightarrow> \<exists>y. f x = Inr y \<and> P x y"
  shows "\<exists>ys. traverse f xs = Inr ys \<and> list_all2 P xs ys"
  using assms
proof (induction xs)
  case Nil
  then show ?case by simp
next
  case (Cons x xs)
  obtain y where "f x = Inr y" "P x y" using Cons.prems [of x] by auto
  moreover obtain ys where "traverse f xs = Inr ys" "list_all2 P xs ys" using Cons.IH Cons.prems by auto
  ultimately show ?case by simp
qed

definition facts_sound :: "architecture_model \<Rightarrow> bool" where
  "facts_sound m \<longleftrightarrow> canonical_well_formed m \<and>
     list_all infrastructure_entity_valid (infrastructure_entities m) \<and>
     list_all infrastructure_contribution_valid (infrastructure_contributions m) \<and>
     list_all infrastructure_claim_valid (infrastructure_claims m)"

lemma internal_evidenceI:
  assumes "ref \<in> prov_id ` set (provenances m)" "\<forall>p\<in>set (provenances m). prov_source_type p = kubernetes_source_type"
  shows "internal_evidence m ref"
proof -
  have "provenance_by_id m ref \<noteq> None"
    using assms(1) unfolding provenance_by_id_def map_of_eq_None_iff by (simp add: image_image)
  then obtain p where p: "provenance_by_id m ref = Some p" by auto
  then have "p \<in> set (provenances m)" unfolding provenance_by_id_def by (auto dest: map_of_SomeD)
  then show ?thesis using p assms(2) unfolding internal_evidence_def by blast
qed

lemma contribution_valid:
  assumes b: "well_mapped_bundle lib uid captured resources" and re: "(r, e) \<in> set (promoted resources)"
    and src: "ks_source_instance_id src \<noteq> []" and lib: "\<And>x. lib_sha256 lib x \<noteq> []"
  shows "infrastructure_contribution_valid (contribution_of src (r, e))"
proof -
  have r: "r \<in> set resources" "mr_entity r = Some e" using re by (simp_all add: mem_promoted)
  have "ie_id e \<noteq> []" using bundle_entity(1) [OF b r] by (simp add: infrastructure_entity_valid_def)
  moreover have "mr_semantic_digest r \<noteq> []"
    using b r(1) lib unfolding well_mapped_bundle_def well_mapped_def Let_def by metis
  moreover have "good_refs (entity_refs (ks_revision src) (r, e))"
    unfolding entity_refs_def case_prod_conv
    by (rule minted_refs_good) (use bundle_pointers [OF b] r(1) in blast)+
  ultimately show ?thesis
    using src by (simp add: infrastructure_contribution_valid_def contribution_of_def adapter_identity_def
        mapping_rule_version_def good_refs_check)
qed

text \<open>The claims of a model, from their ends and their evidence.\<close>

definition claim_ends_known :: "string set \<Rightarrow> infrastructure_claim \<Rightarrow> bool" where
  "claim_ends_known ids c \<longleftrightarrow> cl_subject_id c \<in> ids \<and>
     (if cl_kind c = WORKLOAD_EXISTS then cl_object_id c = None else cl_object_id c \<in> Some ` ids)"

lemma claim_valid:
  assumes "claim_ends_known ids c" "sound_claim st c" "[] \<notin> ids"
  shows "infrastructure_claim_valid c"
proof -
  have "cl_subject_id c \<noteq> []" using assms(1,3) by (auto simp: claim_ends_known_def)
  moreover have "cl_object_id c \<noteq> Some []" using assms(1,3) by (auto simp: claim_ends_known_def split: if_splits)
  ultimately show ?thesis
    using assms(1,2) by (auto simp: infrastructure_claim_valid_def claim_ends_known_def sound_claim_def
        unary_claim_kinds_def good_refs_check split: if_splits)
qed

lemma known_ends:
  "claim_ends c = (k, i, j) \<Longrightarrow> i \<in> ids \<Longrightarrow> (if k = WORKLOAD_EXISTS then j = None else j \<in> Some ` ids) \<Longrightarrow>
     claim_ends_known ids c"
  by (simp add: claim_ends_def claim_ends_known_def)

lemma workload_claims_ok:
  assumes b: "well_mapped_bundle lib uid captured resources"
    and st: "\<forall>(r, e)\<in>set (promoted resources). \<forall>p\<in>set (mr_source_pointers r).
      pointer_provenance v (ie_id e) p \<in> set (ev_provenance st)"
    and c: "c \<in> set (workload_claims v (promoted resources))"
  shows "sound_claim st c" "claim_ends_known (entity_ids resources) c"
proof -
  obtain r e where re: "(r, e) \<in> set (promoted resources)" and c: "c = make_claim WORKLOAD_EXISTS (ie_id e) None (entity_refs v (r, e))"
    using c by (auto simp: workload_claims_def)
  have r: "r \<in> set resources" using re by (simp add: mem_promoted)
  show "sound_claim st c" unfolding c
  proof (rule sound_make_claim)
    show "good_refs (entity_refs v (r, e))"
      unfolding entity_refs_def case_prod_conv
      by (rule minted_refs_good) (use bundle_pointers [OF b] r in blast)+
    show "set (entity_refs v (r, e)) \<subseteq> prov_id ` set (ev_provenance st)"
      unfolding entity_refs_def case_prod_conv minted_refs_known using st re by auto
  qed
  have "ie_id e \<in> entity_ids resources" unfolding entity_ids_def using re by force
  then show "claim_ends_known (entity_ids resources) c"
    unfolding c by (intro known_ends [OF claim_ends_make]) simp_all
qed

lemma selection_claim_ok:
  assumes "evidence_ok st" "set (rs_evidence s) \<subseteq> dom (ev_refs st)" "rs_evidence s \<noteq> []"
  shows "\<exists>c. selection_claim st s = Inr c \<and> sound_claim st c
    \<and> claim_ends c = (NETWORK_SERVICE_SELECTS_WORKLOAD, rs_service s, Some (rs_workload s))"
  by (rule refs_of_ok [OF assms]) (simp add: selection_claim_def sound_make_claim)

lemma route_claim_ok:
  assumes "evidence_ok st" "set (rr_evidence r) \<subseteq> dom (ev_refs st)" "rr_evidence r \<noteq> []"
  shows "\<exists>c. route_claim st r = Inr c \<and> sound_claim st c
    \<and> claim_ends c = (INGRESS_ROUTES_TO_NETWORK_SERVICE, rr_ingress r, Some (rr_service r))"
  by (rule refs_of_ok [OF assms]) (simp add: route_claim_def sound_make_claim)

lemma facts_sound_intro:
  assumes b: "well_mapped_bundle lib uid captured resources"
    and src: "ks_source_instance_id src \<noteq> []" and lib: "\<And>x. lib_sha256 lib x \<noteq> []"
    and ok: "evidence_ok st"
    and prov: "\<forall>(r, e)\<in>set (promoted resources). \<forall>p\<in>set (mr_source_pointers r).
      pointer_provenance (ks_revision src) (ie_id e) p \<in> set (ev_provenance st)"
    and claims: "\<forall>c\<in>set claims. sound_claim st c \<and> claim_ends_known (entity_ids resources) c"
    and m: "m = empty_model\<lparr>infrastructure_entities := map snd (promoted resources),
       infrastructure_contributions := map (contribution_of src) (promoted resources),
       infrastructure_claims := claims, provenances := ev_provenance st\<rparr>"
  shows "facts_sound m"
proof -
  have ids: "ie_id ` set (infrastructure_entities m) = entity_ids resources" by (simp add: m entity_ids_def)
  have kube: "\<forall>p\<in>set (provenances m). prov_source_type p = kubernetes_source_type"
    using ok by (simp add: m evidence_ok_def)
  have refs: "internal_evidence m ref" if "ref \<in> prov_id ` set (ev_provenance st)" for ref
    using internal_evidenceI [OF _ kube] that by (simp add: m)
  have no_nil: "[] \<notin> entity_ids resources" using entity_id_not_Nil [OF b] by blast
  have contributions: "ic_entity_id c \<in> entity_ids resources \<and> (\<forall>ref\<in>set (ic_evidence_refs c). internal_evidence m ref)
      \<and> infrastructure_contribution_valid c" if c: "c \<in> set (infrastructure_contributions m)" for c
  proof -
    obtain r e where re: "(r, e) \<in> set (promoted resources)" and c: "c = contribution_of src (r, e)"
      using c by (auto simp: m)
    have "ic_entity_id c = ie_id e" by (simp add: c contribution_of_def)
    moreover have "ie_id e \<in> entity_ids resources" unfolding entity_ids_def using re by force
    moreover have "set (ic_evidence_refs c) \<subseteq> prov_id ` set (ev_provenance st)"
      using prov re by (auto simp: c contribution_of_def entity_refs_def pointer_provenance_def
          intro!: rev_image_eqI [of "pointer_provenance (ks_revision src) (ie_id e) _"])
    moreover have "infrastructure_contribution_valid c"
      unfolding c by (rule contribution_valid [OF b re src lib])
    ultimately show ?thesis using refs by auto
  qed
  have claim: "claim_ends_known (entity_ids resources) c \<and> (\<forall>ref\<in>set (cl_evidence_refs c). internal_evidence m ref)
      \<and> infrastructure_claim_valid c" if c: "c \<in> set (infrastructure_claims m)" for c
  proof -
    have c: "sound_claim st c" "claim_ends_known (entity_ids resources) c" using claims c by (simp_all add: m)
    have "\<forall>ref\<in>set (cl_evidence_refs c). internal_evidence m ref" using c(1) refs by (auto simp: sound_claim_def)
    then show ?thesis using c(2) claim_valid [OF c(2,1) no_nil] by blast
  qed
  have "cl_subject_id c \<in> entity_ids resources
      \<and> (cl_kind c = WORKLOAD_EXISTS \<or> cl_object_id c \<in> Some ` entity_ids resources)
      \<and> (\<forall>ref\<in>set (cl_evidence_refs c). internal_evidence m ref)" if "c \<in> set (infrastructure_claims m)" for c
    using claim [OF that] by (cases "cl_kind c = WORKLOAD_EXISTS") (simp_all add: claim_ends_known_def)
  then have "infrastructure_well_formed m"
    unfolding infrastructure_well_formed_def ids using contributions by blast
  moreover have "unique_ids m" using promoted_distinct [OF b] by (simp add: unique_ids_def m empty_model_def comp_def)
  moreover have "provided_once m" "references_resolve m" "pubsub_well_formed m"
    by (simp_all add: provided_once_def references_resolve_def pubsub_well_formed_def m empty_model_def)
  moreover have "list_all infrastructure_entity_valid (infrastructure_entities m)"
    using bundle_entity(1) [OF b] by (auto simp: list_all_iff m mem_promoted)
  ultimately show ?thesis
    using contributions claim unfolding facts_sound_def canonical_well_formed_def list_all_iff by blast
qed

lemma kubernetes_facts_ok:
  assumes b: "well_mapped_bundle lib uid captured resources"
    and src: "ks_source_instance_id src \<noteq> []" and lib: "\<And>x. lib_sha256 lib x \<noteq> []"
    and owned: "\<forall>owned\<in>set ownerships. \<exists>pod\<in>set resources. mr_resource_kind pod = POD_KIND \<and> owned_by lib uid resources pod owned"
    and sel: "selections = ss_resolved (resolve_service_selections resources ownerships)"
    and routes: "routes = ib_resolved (resolve_ingress_backends resources)"
  shows "\<exists>m. kubernetes_facts src resources ownerships selections routes = Inr m \<and> facts_sound m"
proof -
  let ?v = "ks_revision src" and ?ids = "entity_ids resources" and ?pairs = "promoted resources"
  define st where "st = mint_entities ?v ?pairs \<lparr>ev_provenance = [], ev_refs = Map.empty\<rparr>"
  have owned_facts: "set (ro_evidence owned) \<subseteq> mr_logical_id ` set resources" "ro_evidence owned \<noteq> []"
    "ro_pod owned \<in> ?ids" "ro_workload owned \<in> ?ids" if "owned \<in> set ownerships" for owned
    using owned that owned_by_facts [OF b] by blast+
  have good: "good_pairs ?pairs" using bundle_pointers [OF b] by (auto simp: good_pairs_def mem_promoted)
  have st: "evidence_ok st" "dom (ev_refs st) = ?ids"
    using mint_entities_ok [OF good, of "\<lparr>ev_provenance = [], ev_refs = Map.empty\<rparr>" ?v]
    by (simp_all add: st_def evidence_ok_def entity_ids_def)
  obtain st' owns where owns: "ownership_claims ?v resources ownerships st = Inr (st', owns)" "evidence_ok st'"
    "dom (ev_refs st) \<subseteq> dom (ev_refs st')" "\<forall>owned\<in>set ownerships. set (ro_evidence owned) \<subseteq> dom (ev_refs st')"
    "set (ev_provenance st) \<subseteq> set (ev_provenance st')" "\<forall>c\<in>set owns. sound_claim st' c"
    "map claim_ends owns = map (\<lambda>owned. (WORKLOAD_OWNS_POD, ro_workload owned, Some (ro_pod owned))) ownerships"
    using ownership_claims_ok [OF _ st(1) bundle_pointers [OF b], of ownerships ?v] owned_facts(1,2) by auto
  have dom': "?ids \<union> (\<Union>owned\<in>set ownerships. set (ro_evidence owned)) \<subseteq> dom (ev_refs st')"
    using owns(3,4) st(2) by auto
  have prov: "\<forall>(r, e)\<in>set ?pairs. \<forall>p\<in>set (mr_source_pointers r).
      pointer_provenance ?v (ie_id e) p \<in> set (ev_provenance st')"
    using owns(5) by (auto simp: st_def mint_entities_provenance)
  obtain selected where selected: "traverse (selection_claim st') selections = Inr selected"
    "list_all2 (\<lambda>s c. sound_claim st' c \<and> claim_ends_known ?ids c) selections selected"
  proof -
    have "\<exists>c. selection_claim st' s = Inr c \<and> (sound_claim st' c \<and> claim_ends_known ?ids c)"
      if s: "s \<in> set selections" for s
    proof -
      note f = selection_facts [OF b s [unfolded sel]]
      obtain c where c: "selection_claim st' s = Inr c" "sound_claim st' c"
        "claim_ends c = (NETWORK_SERVICE_SELECTS_WORKLOAD, rs_service s, Some (rs_workload s))"
        using selection_claim_ok [OF owns(2) subset_trans [OF f(3) dom'] f(4)] by blast
      have "rs_workload s \<in> ?ids" using f(2) owned_facts(4) by auto
      then have "claim_ends_known ?ids c" by (intro known_ends [OF c(3) f(1)]) simp
      then show ?thesis using c by blast
    qed
    then have "\<exists>ys. traverse (selection_claim st') selections = Inr ys \<and>
        list_all2 (\<lambda>s c. sound_claim st' c \<and> claim_ends_known ?ids c) selections ys" by (rule traverse_total)
    then show thesis using that by blast
  qed
  obtain ingresses where ingresses: "traverse (route_claim st') routes = Inr ingresses"
    "list_all2 (\<lambda>r c. sound_claim st' c \<and> claim_ends_known ?ids c) routes ingresses"
  proof -
    have "\<exists>c. route_claim st' r = Inr c \<and> (sound_claim st' c \<and> claim_ends_known ?ids c)"
      if r: "r \<in> set routes" for r
    proof -
      note f = route_facts [OF b r [unfolded routes]]
      have "set (rr_evidence r) \<subseteq> dom (ev_refs st')" using f(3) dom' by blast
      from route_claim_ok [OF owns(2) this f(4)] obtain c where c: "route_claim st' r = Inr c" "sound_claim st' c"
        "claim_ends c = (INGRESS_ROUTES_TO_NETWORK_SERVICE, rr_ingress r, Some (rr_service r))" by blast
      have "claim_ends_known ?ids c" using f(2) by (intro known_ends [OF c(3) f(1)]) simp
      then show ?thesis using c by blast
    qed
    then have "\<exists>ys. traverse (route_claim st') routes = Inr ys \<and>
        list_all2 (\<lambda>r c. sound_claim st' c \<and> claim_ends_known ?ids c) routes ys" by (rule traverse_total)
    then show thesis using that by blast
  qed
  have owns_known: "claim_ends_known ?ids c" if c: "c \<in> set owns" for c
  proof -
    have "claim_ends c \<in> set (map claim_ends owns)" using c by simp
    then obtain owned where "owned \<in> set ownerships" "claim_ends c = (WORKLOAD_OWNS_POD, ro_workload owned, Some (ro_pod owned))"
      unfolding owns(7) by auto
    then show ?thesis using owned_facts(3,4) by (intro known_ends) auto
  qed
  have all: "\<forall>c\<in>set (workload_claims ?v ?pairs @ owns @ selected @ ingresses).
      sound_claim st' c \<and> claim_ends_known ?ids c"
    using workload_claims_ok [OF b prov] owns(6) owns_known selected(2) ingresses(2)
    by (auto simp: list_all2_conv_all_nth in_set_conv_nth)
  have "kubernetes_facts src resources ownerships selections routes = Inr (empty_model
      \<lparr>infrastructure_entities := map snd ?pairs, infrastructure_contributions := map (contribution_of src) ?pairs,
       infrastructure_claims := workload_claims ?v ?pairs @ owns @ selected @ ingresses,
       provenances := ev_provenance st'\<rparr>)"
    unfolding kubernetes_facts_def Let_def st_def [symmetric] owns(1) by (simp add: selected(1) ingresses(1))
  then show ?thesis using facts_sound_intro [OF b src lib owns(2) prov all refl] by blast
qed

section \<open>Outcomes\<close>

lemma accepted_facts:
  assumes m: "map_kubernetes_resources lib (ks_cluster_uid src) captured (ks_namespaces src) (ks_resources src) = Inr mapping"
    and uid: "ks_cluster_uid src \<noteq> []" and sid: "ks_source_instance_id src \<noteq> []" and lib: "\<And>x. lib_sha256 lib x \<noteq> []"
    and owners: "owners = resolve_owner_chains lib (km_resources mapping) (ks_cluster_uid src) captured"
      "oc_result owners \<noteq> REJECTED_INVALID"
  shows "\<exists>model. kubernetes_facts src (km_resources mapping) (oc_resolved owners)
      (ss_resolved (resolve_service_selections (km_resources mapping) (oc_resolved owners)))
      (ib_resolved (resolve_ingress_backends (km_resources mapping))) = Inr model \<and> facts_sound model"
proof (rule kubernetes_facts_ok [OF _ sid lib _ refl refl])
  show b: "well_mapped_bundle lib (ks_cluster_uid src) captured (km_resources mapping)"
    using mapped_well_typed [OF m uid] unfolding well_mapped_bundle_def by blast
  show "\<forall>owned\<in>set (oc_resolved owners). \<exists>pod\<in>set (km_resources mapping).
      mr_resource_kind pod = POD_KIND \<and> owned_by lib (ks_cluster_uid src) (km_resources mapping) pod owned"
    using resolve_owner_chains_exact(2) [OF bundle_inj [OF b] owners(2) [unfolded owners(1)]]
    unfolding owners(1) by blast
qed

text \<open>C22: no lookup of the adapter fails.  Every resource a relation names, and all evidence a relation
  joins, is there when it is looked up, so a loaded source whose discovery-time diagnostics are the
  discoverer's own never raises KeyError.\<close>

theorem kubernetes_lookups_succeed:
  assumes "ks_cluster_uid src \<noteq> []" "ks_source_instance_id src \<noteq> []" "\<And>x. lib_sha256 lib x \<noteq> []"
    and "\<forall>d\<in>set (ks_diagnostics src). d_code d \<in> fst ` set result_by_diagnostic_code"
  shows "kubernetes_map lib src ctx \<noteq> Inl (KeyError k)"
proof (cases "ks_diagnostics src")
  case (Cons d ds)
  then have "map_of result_by_diagnostic_code (d_code d) \<noteq> None" using assms(4) by (simp add: map_of_eq_None_iff)
  then show ?thesis by (auto simp: kubernetes_map_def Cons)
next
  case Nil
  show ?thesis
    using accepted_facts [OF _ assms(1-3) refl]
    unfolding kubernetes_map_def Nil map_clean_source_def Let_def list.case
    by (fastforce split: sum.splits option.splits if_splits)
qed

definition accepted_outcome :: "adapter_outcome \<Rightarrow> bool" where
  "accepted_outcome outcome \<longleftrightarrow> ao_result outcome \<in> {ACCEPTED, ACCEPTED_WITH_LIMITATIONS}"

lemma rejected_outcome_sel [simp]:
  "ao_result (rejected_outcome r ds) = r" "ao_model (rejected_outcome r ds) = empty_model"
  "ao_semantic_input_digest (rejected_outcome r ds) = None"
  by (simp_all add: rejected_outcome_def)

text \<open>C21: an accepted Kubernetes source contributes a model that passes canonical validation on its own,
  whose entities, contributions and claims pass their validators, together with a replay digest; a
  rejected one contributes an empty model and no digest.\<close>

theorem kubernetes_outcome_sound:
  assumes "kubernetes_map lib src ctx = Inr outcome"
    and "ks_cluster_uid src \<noteq> []" "ks_source_instance_id src \<noteq> []" "\<And>x. lib_sha256 lib x \<noteq> []"
  shows "if accepted_outcome outcome then facts_sound (ao_model outcome) \<and> ao_semantic_input_digest outcome \<noteq> None
     else ao_model outcome = empty_model \<and> ao_semantic_input_digest outcome = None"
proof (cases "ks_diagnostics src")
  case (Cons d ds)
  have "r \<notin> {ACCEPTED, ACCEPTED_WITH_LIMITATIONS}" if "map_of result_by_diagnostic_code c = Some r" for c r
    using map_of_SomeD [OF that] by (auto simp: result_by_diagnostic_code_def)
  then show ?thesis using assms(1) by (auto simp: kubernetes_map_def Cons accepted_outcome_def split: option.splits)
next
  case Nil
  let ?captured = "ks_mode src = CAPTURED_RESOURCE"
  have map: "map_clean_source lib src ctx = Inr outcome" using assms(1) by (simp add: kubernetes_map_def Nil)
  obtain mapping where m: "map_kubernetes_resources lib (ks_cluster_uid src) ?captured (ks_namespaces src) (ks_resources src)
      = Inr mapping"
    using map by (auto simp: map_clean_source_def Let_def split: sum.splits)
  define owners where "owners = resolve_owner_chains lib (km_resources mapping) (ks_cluster_uid src) ?captured"
  show ?thesis
  proof (cases "km_result mapping \<in> {REJECTED_INVALID, REJECTED_CONFLICT} \<or> oc_result owners = REJECTED_INVALID")
    case True
    then have "ao_result outcome \<in> {REJECTED_INVALID, REJECTED_CONFLICT} \<and> ao_model outcome = empty_model
        \<and> ao_semantic_input_digest outcome = None"
      using map by (auto simp: map_clean_source_def Let_def m owners_def split: if_splits)
    then show ?thesis by (auto simp: accepted_outcome_def)
  next
    case False
    then obtain model where model: "kubernetes_facts src (km_resources mapping) (oc_resolved owners)
        (ss_resolved (resolve_service_selections (km_resources mapping) (oc_resolved owners)))
        (ib_resolved (resolve_ingress_backends (km_resources mapping))) = Inr model" "facts_sound model"
      using accepted_facts [OF m assms(2-4) owners_def] by auto
    have "ao_result outcome \<in> {ACCEPTED, ACCEPTED_WITH_LIMITATIONS} \<and> ao_model outcome = model
        \<and> ao_semantic_input_digest outcome \<noteq> None"
      using map False model(1)
      by (auto simp: map_clean_source_def Let_def m owners_def combined_result_def split: option.splits)
    then show ?thesis using model(2) by (simp add: accepted_outcome_def)
  qed
qed

section \<open>A concrete source\<close>

definition sample_source :: kubernetes_source where
  "sample_source = \<lparr>ks_diagnostics = [], ks_source_instance_id = ''k8s'', ks_revision = Some ''r1'',
     ks_cluster_uid = ''c'', ks_mode = CAPTURED_RESOURCE, ks_captured_at = ''t'', ks_namespaces = [''ns''],
     ks_resources = [sample_set, sample_pod]\<rparr>"

lemma sample_source_facts:
  "ks_cluster_uid sample_source \<noteq> []" "ks_source_instance_id sample_source \<noteq> []"
  "lib_sha256 sample_library x \<noteq> []" "ks_diagnostics sample_source = []"
  by (simp_all add: sample_source_def sample_library_def)

lemma kubernetes_lookups_succeed_witness:
  "\<forall>k. kubernetes_map sample_library sample_source ''ctx'' \<noteq> Inl (KeyError k)"
  using kubernetes_lookups_succeed [OF sample_source_facts(1-3), of "''ctx''"] sample_source_facts(4) by simp

lemma kubernetes_outcome_sound_witness:
  "\<exists>outcome. kubernetes_map sample_library sample_source ''ctx'' = Inr outcome \<and> facts_sound (ao_model outcome)
     \<and> length (infrastructure_claims (ao_model outcome)) = 2"
proof -
  have "case kubernetes_map sample_library sample_source ''ctx'' of Inl _ \<Rightarrow> False
      | Inr outcome \<Rightarrow> ao_result outcome = ACCEPTED \<and> length (infrastructure_claims (ao_model outcome)) = 2"
    by code_simp
  then obtain outcome where outcome: "kubernetes_map sample_library sample_source ''ctx'' = Inr outcome"
    "accepted_outcome outcome" "length (infrastructure_claims (ao_model outcome)) = 2"
    by (auto simp: accepted_outcome_def split: sum.splits)
  show ?thesis
    using kubernetes_outcome_sound [OF outcome(1) sample_source_facts(1-3)] outcome by auto
qed

end
