(* ===== verification/Qualification.thy ===== *)
theory Qualification
  imports Prelude
begin

text \<open>
  \<open>qualification/declared_observed.py\<close>, the rule that qualifies a relation as confirmed, observed
  only or not observed in a window, in its two forms: the Python kernel over evidence rows, and the Cypher
  WHERE-clauses that \<open>analysis/runtime.py\<close> builds from the same module.  A row's property is
  \<open>None\<close> where the store has null; a Cypher comparison with null is not true, so a clause is read as
  whether it holds.  Timestamps are microseconds.
\<close>

record evidence_row =
  er_evidence_type :: "string option"
  er_environment :: "string option"
  er_first_seen :: "int option"
  er_last_seen :: "int option"
  er_observation_count :: "int option"

type_synonym evidence_map = "string \<Rightarrow> evidence_row option"

record observation_context =
  cx_environment :: string
  cx_since :: int
  cx_until :: "int option"

datatype qualification = CONFIRMED | OBSERVED_ONLY | NOT_OBSERVED_IN_WINDOW

datatype coverage = SUFFICIENT | PARTIAL | NONE | UNKNOWN

section \<open>The kernel\<close>

definition messaging_relation_types :: "string list" where
  "messaging_relation_types = [''SENDS'', ''RECEIVES_FROM'', ''PUBLISHES_TO'']"

definition matches_declared_evidence :: "string list \<Rightarrow> evidence_map \<Rightarrow> string list" where
  "matches_declared_evidence evidence_ids evidence_by_id =
     sorted_set (filter (\<lambda>i. case evidence_by_id i of None \<Rightarrow> False
       | Some row \<Rightarrow> er_evidence_type row = Some ''DECLARED'') evidence_ids)"

definition row_observed :: "observation_context \<Rightarrow> evidence_row \<Rightarrow> bool" where
  "row_observed cx row =
     (if er_evidence_type row \<noteq> Some ''OBSERVED'' then False
      else if er_environment row \<noteq> Some (cx_environment cx) then False
      else (case er_last_seen row of
        None \<Rightarrow> False
      | Some last_seen \<Rightarrow>
          if last_seen < cx_since cx then False
          else (case cx_until cx of None \<Rightarrow> True | Some until \<Rightarrow> \<not> last_seen > until)))"

definition matches_observed_evidence ::
  "string list \<Rightarrow> evidence_map \<Rightarrow> observation_context \<Rightarrow> string list" where
  "matches_observed_evidence evidence_ids evidence_by_id cx =
     sorted_set (filter (\<lambda>i. case evidence_by_id i of None \<Rightarrow> False | Some row \<Rightarrow> row_observed cx row) evidence_ids)"

text \<open>\<open>None\<close> is the ValueError for a relation type the rule does not know.\<close>

definition relevant_coverage_signal :: "string \<Rightarrow> bool \<Rightarrow> bool \<Rightarrow> bool option" where
  "relevant_coverage_signal relation_type http_observed messaging_observed =
     (if relation_type = ''CALLS'' then Some http_observed
      else if relation_type \<in> set messaging_relation_types then Some messaging_observed else None)"

definition classify_coverage :: "string \<Rightarrow> bool \<Rightarrow> bool \<Rightarrow> bool \<Rightarrow> bool \<Rightarrow> bool \<Rightarrow> coverage option" where
  "classify_coverage relation_type http_observed messaging_observed spans_observed coverage_row_exists
       qualification_enabled =
     (if \<not> qualification_enabled \<or> \<not> coverage_row_exists then Some UNKNOWN
      else (case relevant_coverage_signal relation_type http_observed messaging_observed of
        None \<Rightarrow> None
      | Some relevant \<Rightarrow> Some (if relevant then SUFFICIENT else if spans_observed then PARTIAL else NONE)))"

record qualified_relation =
  qr_qualification :: qualification
  qr_coverage :: "coverage option"
  qr_evidence_refs :: "string list"

text \<open>The coverage facts of a relation's subject, as the callers pass them.\<close>

record coverage_facts =
  cf_http_observed :: bool
  cf_messaging_observed :: bool
  cf_spans_observed :: bool
  cf_row_exists :: bool
  cf_enabled :: bool

text \<open>The outer \<open>None\<close> is the ValueError, the inner one no qualified relation.\<close>

definition qualify_relation :: "string list \<Rightarrow> evidence_map \<Rightarrow> observation_context \<Rightarrow> string \<Rightarrow> coverage_facts
     \<Rightarrow> qualified_relation option option" where
  "qualify_relation evidence_ids evidence_by_id cx relation_type facts =
     (let declared = matches_declared_evidence evidence_ids evidence_by_id;
          observed = matches_observed_evidence evidence_ids evidence_by_id cx in
      if declared \<noteq> [] \<and> observed \<noteq> [] then
        Some (Some \<lparr>qr_qualification = CONFIRMED, qr_coverage = None, qr_evidence_refs = sorted_set (declared @ observed)\<rparr>)
      else if observed \<noteq> [] then
        Some (Some \<lparr>qr_qualification = OBSERVED_ONLY, qr_coverage = None, qr_evidence_refs = observed\<rparr>)
      else if declared \<noteq> [] then
        (case classify_coverage relation_type (cf_http_observed facts) (cf_messaging_observed facts)
                (cf_spans_observed facts) (cf_row_exists facts) (cf_enabled facts) of
           None \<Rightarrow> None
         | Some coverage \<Rightarrow> Some (Some \<lparr>qr_qualification = NOT_OBSERVED_IN_WINDOW, qr_coverage = Some coverage,
             qr_evidence_refs = declared\<rparr>))
      else Some None)"

section \<open>The Cypher clauses\<close>

definition null_or :: "'a option \<Rightarrow> ('a \<Rightarrow> bool) \<Rightarrow> bool" where
  "null_or x P = (case x of None \<Rightarrow> True | Some v \<Rightarrow> P v)"

definition holds :: "'a option \<Rightarrow> ('a \<Rightarrow> bool) \<Rightarrow> bool" where
  "holds x P = (case x of None \<Rightarrow> False | Some v \<Rightarrow> P v)"

text \<open>The parameters of a query; \<open>$environment\<close> may be null where the clause allows it.\<close>

record query_parameters =
  qp_environment :: "string option"
  qp_since :: int
  qp_until :: "int option"

definition observed_evidence_condition :: "bool \<Rightarrow> query_parameters \<Rightarrow> evidence_row \<Rightarrow> bool" where
  "observed_evidence_condition environment_optional q e \<longleftrightarrow>
     holds (er_evidence_type e) (\<lambda>t. t = ''OBSERVED'') \<and>
     (if environment_optional then
        null_or (qp_environment q) (\<lambda>v. holds (er_environment e) (\<lambda>w. w = v))
      else holds (er_environment e) (\<lambda>w. holds (qp_environment q) (\<lambda>v. w = v))) \<and>
     holds (er_last_seen e) (\<lambda>l. l \<ge> qp_since q) \<and>
     null_or (qp_until q) (\<lambda>u. holds (er_last_seen e) (\<lambda>l. l \<le> u))"

definition declared_evidence_condition :: "evidence_row \<Rightarrow> bool" where
  "declared_evidence_condition e \<longleftrightarrow> holds (er_evidence_type e) (\<lambda>t. t = ''DECLARED'')"

text \<open>\<open>UNWIND r.evidence_ids\<close>, then \<open>MATCH\<close> of the Evidence node of each id: the rows of the ids that
  have one, in order; a null list has none.\<close>

definition evidence_rows :: "evidence_map \<Rightarrow> string list option \<Rightarrow> evidence_row list" where
  "evidence_rows evidence ids = somes (map evidence (case ids of None \<Rightarrow> [] | Some xs \<Rightarrow> xs))"

definition observed_evidence_exists :: "query_parameters \<Rightarrow> evidence_map \<Rightarrow> string list option \<Rightarrow> bool" where
  "observed_evidence_exists q evidence ids \<longleftrightarrow>
     list_ex (observed_evidence_condition False q) (evidence_rows evidence ids)"

definition declared_evidence_exists :: "evidence_map \<Rightarrow> string list option \<Rightarrow> bool" where
  "declared_evidence_exists evidence ids \<longleftrightarrow> list_ex declared_evidence_condition (evidence_rows evidence ids)"

definition not_observed_evidence_exists :: "query_parameters \<Rightarrow> evidence_map \<Rightarrow> string list option \<Rightarrow> bool" where
  "not_observed_evidence_exists q evidence ids \<longleftrightarrow> \<not> observed_evidence_exists q evidence ids"

definition not_declared_evidence_exists :: "evidence_map \<Rightarrow> string list option \<Rightarrow> bool" where
  "not_declared_evidence_exists evidence ids \<longleftrightarrow> \<not> declared_evidence_exists evidence ids"

section \<open>The two forms agree\<close>

definition parameters_of :: "observation_context \<Rightarrow> query_parameters" where
  "parameters_of cx = \<lparr>qp_environment = Some (cx_environment cx), qp_since = cx_since cx, qp_until = cx_until cx\<rparr>"

definition ids_of :: "string list option \<Rightarrow> string list" where
  "ids_of ids = (case ids of None \<Rightarrow> [] | Some xs \<Rightarrow> xs)"

lemma observed_condition_iff: "observed_evidence_condition False (parameters_of cx) e \<longleftrightarrow> row_observed cx e"
  by (auto simp: observed_evidence_condition_def parameters_of_def row_observed_def holds_def null_or_def
      split: option.splits)

lemma declared_condition_iff: "declared_evidence_condition e \<longleftrightarrow> er_evidence_type e = Some ''DECLARED''"
  by (auto simp: declared_evidence_condition_def holds_def split: option.splits)

lemma mem_evidence_rows: "e \<in> set (evidence_rows evidence ids) \<longleftrightarrow> (\<exists>i\<in>set (ids_of ids). evidence i = Some e)"
  unfolding evidence_rows_def ids_of_def [symmetric] set_somes set_map by (metis imageE imageI)

lemma observed_exists_iff:
  "observed_evidence_exists (parameters_of cx) evidence ids \<longleftrightarrow> matches_observed_evidence (ids_of ids) evidence cx \<noteq> []"
proof -
  have "matches_observed_evidence (ids_of ids) evidence cx \<noteq> [] \<longleftrightarrow>
      (\<exists>i\<in>set (ids_of ids). \<exists>e. evidence i = Some e \<and> row_observed cx e)"
    by (simp add: matches_observed_evidence_def filter_empty_conv split: option.splits) (intro bex_cong refl, auto)
  moreover have "observed_evidence_exists (parameters_of cx) evidence ids \<longleftrightarrow>
      (\<exists>e\<in>set (evidence_rows evidence ids). row_observed cx e)"
    by (simp add: observed_evidence_exists_def list_ex_iff observed_condition_iff)
  ultimately show ?thesis unfolding Bex_def mem_evidence_rows by blast
qed

lemma declared_exists_iff:
  "declared_evidence_exists evidence ids \<longleftrightarrow> matches_declared_evidence (ids_of ids) evidence \<noteq> []"
proof -
  have "matches_declared_evidence (ids_of ids) evidence \<noteq> [] \<longleftrightarrow>
      (\<exists>i\<in>set (ids_of ids). \<exists>e. evidence i = Some e \<and> er_evidence_type e = Some ''DECLARED'')"
    by (simp add: matches_declared_evidence_def filter_empty_conv split: option.splits) (intro bex_cong refl, auto)
  moreover have "declared_evidence_exists evidence ids \<longleftrightarrow>
      (\<exists>e\<in>set (evidence_rows evidence ids). er_evidence_type e = Some ''DECLARED'')"
    by (simp add: declared_evidence_exists_def list_ex_iff declared_condition_iff)
  ultimately show ?thesis unfolding Bex_def mem_evidence_rows by blast
qed

definition qualifies_as :: "qualification \<Rightarrow> qualified_relation option option \<Rightarrow> bool" where
  "qualifies_as q r \<longleftrightarrow> (\<exists>x. r = Some (Some x) \<and> qr_qualification x = q)"

text \<open>What each guard pair of the status queries selects, for the known relation types.\<close>

lemma guards_qualify:
  "qualifies_as CONFIRMED (qualify_relation (ids_of ids) evidence cx t facts) \<longleftrightarrow>
     declared_evidence_exists evidence ids \<and> observed_evidence_exists (parameters_of cx) evidence ids"
  "qualifies_as OBSERVED_ONLY (qualify_relation (ids_of ids) evidence cx t facts) \<longleftrightarrow>
     not_declared_evidence_exists evidence ids \<and> observed_evidence_exists (parameters_of cx) evidence ids"
  "t \<in> {''CALLS'', ''SENDS'', ''RECEIVES_FROM''} \<Longrightarrow>
   qualifies_as NOT_OBSERVED_IN_WINDOW (qualify_relation (ids_of ids) evidence cx t facts) \<longleftrightarrow>
     declared_evidence_exists evidence ids \<and> not_observed_evidence_exists (parameters_of cx) evidence ids"
  unfolding not_declared_evidence_exists_def not_observed_evidence_exists_def declared_exists_iff observed_exists_iff
  by (auto simp: qualifies_as_def qualify_relation_def Let_def classify_coverage_def relevant_coverage_signal_def
      messaging_relation_types_def split: option.splits)

lemma qualified_coverage:
  "qualify_relation ids evidence cx t facts = Some (Some x) \<Longrightarrow> qr_qualification x = NOT_OBSERVED_IN_WINDOW \<Longrightarrow>
     qr_coverage x = classify_coverage t (cf_http_observed facts) (cf_messaging_observed facts)
       (cf_spans_observed facts) (cf_row_exists facts) (cf_enabled facts)"
  by (auto simp: qualify_relation_def Let_def split: if_splits option.splits)

end
