(* ===== verification/RuntimeAnalysis.thy ===== *)
theory RuntimeAnalysis
  imports Qualification
begin

text \<open>
  \<open>analysis/runtime.py\<close>: the runtime queries O1-O5 and the per-service profile, over the part of the
  graph they read.  A query is its result rows: the pattern matches, grouped by the returned key with
  Cypher's aggregates, which skip nulls.  A grouped query has no row for an empty group, and
  \<open>ORDER BY\<close> leaves ties in an order the store chooses, here the order of the matches.
\<close>

section \<open>The graph the queries read\<close>

record service_node =
  sn_id :: string
  sn_name :: "string option"

record operation_node =
  on_id :: string
  on_name :: "string option"
  on_method :: "string option"
  on_path :: "string option"

datatype target_label = OperationLabel | QueueLabel | TopicLabel | SubscriptionLabel

record runtime_relation =
  rt_type :: string
  rt_source :: string
  rt_target :: string
  rt_label :: target_label
  rt_evidence_ids :: "string list option"

record runtime_graph =
  rg_services :: "service_node list"
  rg_operations :: "operation_node list"
  rg_queues :: "(string \<times> string option) list"
  rg_relations :: "runtime_relation list"
  rg_evidence :: evidence_map

text \<open>\<open>coalesce\<close>, and \<open>+\<close> on strings, which is null when a side is.\<close>

fun coalesce :: "'a option list \<Rightarrow> 'a option" where
  "coalesce [] = None"
| "coalesce (Some x # xs) = Some x"
| "coalesce (None # xs) = coalesce xs"

definition plus_null :: "string option \<Rightarrow> string option \<Rightarrow> string option" where
  "plus_null a b = (case (a, b) of (Some x, Some y) \<Rightarrow> Some (x @ y) | _ \<Rightarrow> None)"

text \<open>The returned key of a match: source id and name, relation type, target id and name.\<close>

type_synonym row_key = "string \<times> string option \<times> string \<times> string \<times> string option"

definition calls_target_id :: "service_node option \<Rightarrow> operation_node \<Rightarrow> string" where
  "calls_target_id provider op = (case provider of Some s \<Rightarrow> sn_id s | None \<Rightarrow> on_id op)"

definition calls_target_name :: "service_node option \<Rightarrow> operation_node \<Rightarrow> string option" where
  "calls_target_name provider op =
     coalesce [Option.bind provider sn_name, on_name op,
       plus_null (plus_null (on_method op) (Some '' '')) (on_path op), Some (on_id op)]"

definition providers :: "runtime_graph \<Rightarrow> operation_node \<Rightarrow> service_node list" where
  "providers g op = concat (map (\<lambda>r. filter (\<lambda>s. sn_id s = rt_source r) (rg_services g))
     (filter (\<lambda>r. rt_type r = ''PROVIDES'' \<and> rt_target r = on_id op \<and> rt_label r = OperationLabel) (rg_relations g)))"

definition optional_match :: "'a list \<Rightarrow> 'a option list" where
  "optional_match xs = (if xs = [] then [None] else map Some xs)"

definition calls_matches :: "runtime_graph \<Rightarrow> (runtime_relation \<times> row_key) list" where
  "calls_matches g = concat (map (\<lambda>r. concat (map (\<lambda>a. concat (map (\<lambda>op.
       map (\<lambda>provider. (r, sn_id a, sn_name a, ''CALLS'', calls_target_id provider op, calls_target_name provider op))
         (optional_match (providers g op)))
     (filter (\<lambda>op. on_id op = rt_target r) (rg_operations g))))
     (filter (\<lambda>a. sn_id a = rt_source r) (rg_services g))))
     (filter (\<lambda>r. rt_type r = ''CALLS'' \<and> rt_label r = OperationLabel) (rg_relations g)))"

definition queue_matches :: "runtime_graph \<Rightarrow> (runtime_relation \<times> row_key) list" where
  "queue_matches g = concat (map (\<lambda>r. concat (map (\<lambda>a.
       map (\<lambda>(b, name). (r, sn_id a, sn_name a, rt_type r, b, name)) (filter (\<lambda>(b, _). b = rt_target r) (rg_queues g)))
     (filter (\<lambda>a. sn_id a = rt_source r) (rg_services g))))
     (filter (\<lambda>r. rt_type r \<in> {''SENDS'', ''RECEIVES_FROM''} \<and> rt_label r = QueueLabel) (rg_relations g)))"

section \<open>Observed rows (O1, O2, O3)\<close>

record relation_observation =
  ob_key :: row_key
  ob_environment :: "string option"
  ob_first_seen :: "int option"
  ob_last_seen :: "int option"
  ob_observation_count :: int

definition min_null :: "int option list \<Rightarrow> int option" where
  "min_null xs = (if somes xs = [] then None else Some (Min (set (somes xs))))"

definition max_null :: "int option list \<Rightarrow> int option" where
  "max_null xs = (if somes xs = [] then None else Some (Max (set (somes xs))))"

definition observation_of :: "(row_key \<times> string option) \<Rightarrow> evidence_row list \<Rightarrow> relation_observation" where
  "observation_of k rows = \<lparr>ob_key = fst k, ob_environment = snd k,
     ob_first_seen = min_null (map er_first_seen rows), ob_last_seen = max_null (map er_last_seen rows),
     ob_observation_count = sum_list (somes (map er_observation_count rows))\<rparr>"

text \<open>\<open>UNWIND\<close>, \<open>MATCH\<close>, \<open>WHERE\<close> and the grouping \<open>RETURN\<close> of one branch.\<close>

definition bindings :: "(evidence_row \<Rightarrow> bool) \<Rightarrow> evidence_map \<Rightarrow> (runtime_relation \<times> row_key) list
     \<Rightarrow> ((row_key \<times> string option) \<times> evidence_row) list" where
  "bindings condition evidence matches = concat (map (\<lambda>(r, k).
     map (\<lambda>e. ((k, er_environment e), e)) (filter condition (evidence_rows evidence (rt_evidence_ids r)))) matches)"

definition grouped :: "((row_key \<times> string option) \<times> evidence_row) list \<Rightarrow> relation_observation list" where
  "grouped bs = map (\<lambda>k. observation_of k (map snd (filter (\<lambda>b. fst b = k) bs))) (remdups (map fst bs))"

definition source_target :: "row_key \<Rightarrow> string \<times> string" where
  "source_target k = (fst k, fst (snd (snd (snd k))))"

definition union_rows :: "relation_observation list \<Rightarrow> relation_observation list \<Rightarrow> relation_observation list" where
  "union_rows xs ys = sort_key (\<lambda>o'. source_target (ob_key o')) (remdups (xs @ ys))"

record relation_filters =
  rf_from_id :: "string option"
  rf_to_id :: "string option"
  rf_relation_type :: "string option"

definition observed_relations ::
  "runtime_graph \<Rightarrow> query_parameters \<Rightarrow> relation_filters \<Rightarrow> relation_observation list" where
  "observed_relations g q f =
     (let wanted = (\<lambda>(_, source, _, t, target, _). null_or (rf_relation_type f) (\<lambda>v. v = t) \<and>
            null_or (rf_from_id f) (\<lambda>v. source = v) \<and> null_or (rf_to_id f) (\<lambda>v. target = v));
          rows = (\<lambda>ms. grouped (bindings (observed_evidence_condition True q) (rg_evidence g) (filter wanted ms))) in
      union_rows (rows (calls_matches g)) (rows (queue_matches g)))"

definition status_query :: "(evidence_map \<Rightarrow> string list option \<Rightarrow> bool)
     \<Rightarrow> (query_parameters \<Rightarrow> evidence_map \<Rightarrow> string list option \<Rightarrow> bool)
     \<Rightarrow> runtime_graph \<Rightarrow> query_parameters \<Rightarrow> relation_observation list" where
  "status_query declared_guard observed_guard g q =
     (let guarded = filter (\<lambda>(r, _). declared_guard (rg_evidence g) (rt_evidence_ids r) \<and>
            observed_guard q (rg_evidence g) (rt_evidence_ids r));
          rows = (\<lambda>ms. grouped (bindings (observed_evidence_condition False q) (rg_evidence g) (guarded ms))) in
      union_rows (rows (calls_matches g)) (rows (queue_matches g)))"

definition confirmed_relations :: "runtime_graph \<Rightarrow> observation_context \<Rightarrow> relation_observation list" where
  "confirmed_relations g cx = status_query declared_evidence_exists observed_evidence_exists g (parameters_of cx)"

definition observed_only_relations :: "runtime_graph \<Rightarrow> observation_context \<Rightarrow> relation_observation list" where
  "observed_only_relations g cx = status_query not_declared_evidence_exists observed_evidence_exists g (parameters_of cx)"

section \<open>Coverage (O5)\<close>

record service_telemetry_coverage =
  tc_service_id :: string
  tc_service_name :: "string option"
  tc_http_observed :: bool
  tc_messaging_observed :: bool
  tc_spans_observed :: bool

definition observed_relation :: "runtime_graph \<Rightarrow> query_parameters \<Rightarrow> runtime_relation \<Rightarrow> bool" where
  "observed_relation g q r = observed_evidence_exists q (rg_evidence g) (rt_evidence_ids r)"

definition has_service :: "runtime_graph \<Rightarrow> string \<Rightarrow> bool" where
  "has_service g i = (i \<in> sn_id ` set (rg_services g))"

definition http_caller_observed :: "runtime_graph \<Rightarrow> query_parameters \<Rightarrow> string \<Rightarrow> bool" where
  "http_caller_observed g q i = (has_service g i \<and> (\<exists>r\<in>set (rg_relations g).
     rt_type r = ''CALLS'' \<and> rt_source r = i \<and> rt_label r = OperationLabel \<and> observed_relation g q r))"

definition http_provider_observed :: "runtime_graph \<Rightarrow> query_parameters \<Rightarrow> string \<Rightarrow> bool" where
  "http_provider_observed g q i = (has_service g i \<and> (\<exists>p\<in>set (rg_relations g). \<exists>r\<in>set (rg_relations g).
     rt_type p = ''PROVIDES'' \<and> rt_source p = i \<and> rt_label p = OperationLabel \<and>
     rt_type r = ''CALLS'' \<and> rt_target r = rt_target p \<and> rt_label r = OperationLabel \<and>
     has_service g (rt_source r) \<and> observed_relation g q r))"

definition sends_observed :: "runtime_graph \<Rightarrow> query_parameters \<Rightarrow> string \<Rightarrow> bool" where
  "sends_observed g q i = (has_service g i \<and> (\<exists>r\<in>set (rg_relations g). rt_source r = i \<and>
     (rt_type r = ''SENDS'' \<and> rt_label r = QueueLabel \<or> rt_type r = ''PUBLISHES_TO'' \<and> rt_label r = TopicLabel) \<and>
     observed_relation g q r))"

definition receives_observed :: "runtime_graph \<Rightarrow> query_parameters \<Rightarrow> string \<Rightarrow> bool" where
  "receives_observed g q i = (has_service g i \<and> (\<exists>r\<in>set (rg_relations g). rt_source r = i \<and>
     rt_type r = ''RECEIVES_FROM'' \<and> rt_label r \<in> {QueueLabel, SubscriptionLabel} \<and> observed_relation g q r))"

definition coverage_of :: "runtime_graph \<Rightarrow> query_parameters \<Rightarrow> string \<times> string option \<Rightarrow> service_telemetry_coverage" where
  "coverage_of g q service =
     (let i = fst service;
          http = http_caller_observed g q i \<or> http_provider_observed g q i;
          messaging = sends_observed g q i \<or> receives_observed g q i in
      \<lparr>tc_service_id = i, tc_service_name = snd service, tc_http_observed = http,
       tc_messaging_observed = messaging, tc_spans_observed = (http \<or> messaging)\<rparr>)"

definition all_names :: "runtime_graph \<Rightarrow> (string \<times> string option) list" where
  "all_names g = map (\<lambda>s. (sn_id s, sn_name s)) (rg_services g)"

definition telemetry_coverage ::
  "runtime_graph \<Rightarrow> observation_context \<Rightarrow> string list option \<Rightarrow> service_telemetry_coverage list" where
  "telemetry_coverage g cx service_ids =
     (let services = (case service_ids of
            None \<Rightarrow> all_names g
          | Some ids \<Rightarrow> map (\<lambda>i. (i, case map_of (rev (all_names g)) i of None \<Rightarrow> Some i | Some n \<Rightarrow> n)) ids) in
      map (coverage_of g (parameters_of cx)) services)"

definition facts_of :: "service_telemetry_coverage option \<Rightarrow> bool \<Rightarrow> coverage_facts" where
  "facts_of c enabled = \<lparr>cf_http_observed = (case c of None \<Rightarrow> False | Some x \<Rightarrow> tc_http_observed x),
     cf_messaging_observed = (case c of None \<Rightarrow> False | Some x \<Rightarrow> tc_messaging_observed x),
     cf_spans_observed = (case c of None \<Rightarrow> False | Some x \<Rightarrow> tc_spans_observed x),
     cf_row_exists = (c \<noteq> None), cf_enabled = enabled\<rparr>"

definition classify_service_coverage :: "service_telemetry_coverage option \<Rightarrow> string \<Rightarrow> bool \<Rightarrow> coverage option" where
  "classify_service_coverage c relation_type enabled =
     (let f = facts_of c enabled in
      classify_coverage relation_type (cf_http_observed f) (cf_messaging_observed f) (cf_spans_observed f)
        (cf_row_exists f) (cf_enabled f))"

section \<open>Declared, not observed (O4)\<close>

record declared_only_relation =
  dl_key :: row_key
  dl_available :: bool
  dl_coverage :: coverage

definition declared_only_keys :: "runtime_graph \<Rightarrow> query_parameters \<Rightarrow> row_key list" where
  "declared_only_keys g q =
     (let guarded = filter (\<lambda>(r, _). declared_evidence_exists (rg_evidence g) (rt_evidence_ids r) \<and>
            not_observed_evidence_exists q (rg_evidence g) (rt_evidence_ids r)) in
      sort_key source_target (remdups (map snd (guarded (calls_matches g)) @ map snd (guarded (queue_matches g)))))"

definition relation_type_of :: "row_key \<Rightarrow> string" where
  "relation_type_of k = fst (snd (snd k))"

definition declared_only_row ::
  "(string \<Rightarrow> service_telemetry_coverage option) \<Rightarrow> bool \<Rightarrow> row_key \<Rightarrow> declared_only_relation option" where
  "declared_only_row coverage enabled k =
     (let c = coverage (fst k);
          available = (case c of None \<Rightarrow> False
            | Some x \<Rightarrow> if relation_type_of k = ''CALLS'' then tc_http_observed x else tc_messaging_observed x) in
      map_option (\<lambda>v. \<lparr>dl_key = k, dl_available = available, dl_coverage = v\<rparr>)
        (classify_service_coverage c (relation_type_of k) enabled))"

text \<open>\<open>None\<close> is the ValueError of the classification.\<close>

definition declared_only_relations ::
  "runtime_graph \<Rightarrow> observation_context \<Rightarrow> bool \<Rightarrow> declared_only_relation list option" where
  "declared_only_relations g cx enabled =
     (let keys = declared_only_keys g (parameters_of cx);
          rows = telemetry_coverage g cx (Some (sorted_set (map fst keys)));
          coverage = map_of (rev (map (\<lambda>c. (tc_service_id c, c)) rows));
          results = map (declared_only_row coverage enabled) keys in
      if None \<in> set results then None else Some (map the results))"

section \<open>The profile of a service\<close>

record runtime_relation_status =
  rs_key :: row_key
  rs_status :: qualification
  rs_observation :: "(int option \<times> int option \<times> int) option"
  rs_available :: "bool option"
  rs_coverage :: "coverage option"

record service_runtime_profile =
  sp_service_id :: string
  sp_service_name :: "string option"
  sp_coverage :: service_telemetry_coverage
  sp_relations :: "runtime_relation_status list"

definition observed_status :: "qualification \<Rightarrow> relation_observation \<Rightarrow> runtime_relation_status" where
  "observed_status q r = \<lparr>rs_key = ob_key r, rs_status = q,
     rs_observation = Some (ob_first_seen r, ob_last_seen r, ob_observation_count r),
     rs_available = None, rs_coverage = None\<rparr>"

definition declared_status :: "declared_only_relation \<Rightarrow> runtime_relation_status" where
  "declared_status d = \<lparr>rs_key = dl_key d, rs_status = NOT_OBSERVED_IN_WINDOW, rs_observation = None,
     rs_available = Some (dl_available d), rs_coverage = Some (dl_coverage d)\<rparr>"

text \<open>The outer \<open>None\<close> is the ValueError, the inner one an unknown service.\<close>

definition service_runtime_profile_of ::
  "runtime_graph \<Rightarrow> observation_context \<Rightarrow> bool \<Rightarrow> string \<Rightarrow> service_runtime_profile option option" where
  "service_runtime_profile_of g cx enabled i =
     (case filter (\<lambda>s. sn_id s = i) (rg_services g) of
        [] \<Rightarrow> Some None
      | s # _ \<Rightarrow>
          (case declared_only_relations g cx enabled of
             None \<Rightarrow> None
           | Some declared \<Rightarrow> Some (Some
               \<lparr>sp_service_id = i, sp_service_name = sn_name s,
                sp_coverage = hd (telemetry_coverage g cx (Some [i])),
                sp_relations =
                  map (observed_status CONFIRMED) (filter (\<lambda>r. fst (ob_key r) = i) (confirmed_relations g cx)) @
                  map (observed_status OBSERVED_ONLY) (filter (\<lambda>r. fst (ob_key r) = i) (observed_only_relations g cx)) @
                  map declared_status (filter (\<lambda>d. fst (dl_key d) = i) declared)\<rparr>)))"

section \<open>The keys of the result rows\<close>

definition matches_of :: "runtime_graph \<Rightarrow> (runtime_relation \<times> row_key) list" where
  "matches_of g = calls_matches g @ queue_matches g"

lemma matches_of_type:
  "(r, k) \<in> set (matches_of g) \<Longrightarrow> relation_type_of k \<in> {''CALLS'', ''SENDS'', ''RECEIVES_FROM''}"
  by (auto simp: matches_of_def calls_matches_def queue_matches_def relation_type_of_def)

lemma grouped_keys: "ob_key ` set (grouped bs) = fst ` fst ` set bs"
  by (simp add: grouped_def observation_of_def image_image)

lemma bindings_keys:
  "k \<in> fst ` fst ` set (bindings P ev ms) \<longleftrightarrow>
     (\<exists>r. (r, k) \<in> set ms \<and> list_ex P (evidence_rows ev (rt_evidence_ids r)))"
proof -
  have "fst ` fst ` set (bindings P ev ms) =
      (\<Union>m\<in>set ms. (\<lambda>e. snd m) ` {e \<in> set (evidence_rows ev (rt_evidence_ids (fst m))). P e})"
    by (simp add: bindings_def split_beta image_UN image_image)
  then have "k \<in> fst ` fst ` set (bindings P ev ms) \<longleftrightarrow>
      (\<exists>m. m \<in> set ms \<and> snd m = k \<and> list_ex P (evidence_rows ev (rt_evidence_ids (fst m))))"
    unfolding list_ex_iff by (auto simp del: split_paired_Ex split_paired_All)
  then show ?thesis by (metis fst_conv prod.collapse snd_conv)
qed

lemma mem_snd_filter: "k \<in> snd ` set (filter (\<lambda>(r, _). Q r) ms) \<longleftrightarrow> (\<exists>r. (r, k) \<in> set ms \<and> Q r)"
  unfolding image_iff set_filter by (metis (no_types, lifting) case_prodD case_prodI mem_Collect_eq prod.collapse snd_conv)

lemma union_rows_keys: "ob_key ` set (union_rows xs ys) = ob_key ` set xs \<union> ob_key ` set ys"
  by (simp add: union_rows_def image_Un)

lemma status_query_keys:
  "k \<in> ob_key ` set (status_query D observed_evidence_exists g q) \<longleftrightarrow>
     (\<exists>r. (r, k) \<in> set (matches_of g) \<and> D (rg_evidence g) (rt_evidence_ids r) \<and>
       observed_evidence_exists q (rg_evidence g) (rt_evidence_ids r))"
  unfolding status_query_def Let_def union_rows_keys grouped_keys Un_iff bindings_keys
    observed_evidence_exists_def [symmetric]
  by (auto simp: matches_of_def)

lemma declared_only_keys_iff:
  "k \<in> set (declared_only_keys g q) \<longleftrightarrow>
     (\<exists>r. (r, k) \<in> set (matches_of g) \<and> declared_evidence_exists (rg_evidence g) (rt_evidence_ids r) \<and>
       not_observed_evidence_exists q (rg_evidence g) (rt_evidence_ids r))"
  unfolding declared_only_keys_def Let_def set_sort set_remdups set_append set_map Un_iff mem_snd_filter matches_of_def
  by blast

section \<open>Coverage of the listed subjects\<close>

lemma classify_known_type:
  "t \<in> {''CALLS'', ''SENDS'', ''RECEIVES_FROM''} \<Longrightarrow> \<exists>v. classify_service_coverage c t enabled = Some v"
  by (auto simp: classify_service_coverage_def classify_coverage_def relevant_coverage_signal_def
      messaging_relation_types_def Let_def)

lemma facts_of_name: "facts_of (Some (coverage_of g q (i, n))) = facts_of (Some (coverage_of g q (i, m)))"
  by (rule ext) (simp add: facts_of_def coverage_of_def Let_def)

lemma classify_by_facts:
  "classify_service_coverage c t enabled =
     classify_coverage t (cf_http_observed (facts_of c enabled)) (cf_messaging_observed (facts_of c enabled))
       (cf_spans_observed (facts_of c enabled)) (cf_row_exists (facts_of c enabled)) (cf_enabled (facts_of c enabled))"
  by (simp add: classify_service_coverage_def Let_def)

lemma coverage_row_of_subject:
  assumes "i \<in> set ids"
  shows "\<exists>n. map_of (rev (map (\<lambda>c. (tc_service_id c, c)) (telemetry_coverage g cx (Some ids)))) i =
    Some (coverage_of g (parameters_of cx) (i, n))"
proof -
  let ?rows = "map (\<lambda>c. (tc_service_id c, c)) (telemetry_coverage g cx (Some ids))"
  have "i \<in> fst ` set (rev ?rows)"
    using assms by (force simp: telemetry_coverage_def Let_def coverage_of_def)
  then obtain c where c: "map_of (rev ?rows) i = Some c"
    by (meson map_of_eq_None_iff not_None_eq)
  have "(i, c) \<in> set ?rows" using map_of_SomeD [OF c] by simp
  then have "\<exists>n. c = coverage_of g (parameters_of cx) (i, n)"
    by (auto simp: telemetry_coverage_def Let_def coverage_of_def)
  then show ?thesis using c by blast
qed

lemma declared_only_relations_rows:
  "\<exists>rows. declared_only_relations g cx enabled = Some rows \<and>
     map dl_key rows = declared_only_keys g (parameters_of cx) \<and>
     list_all (\<lambda>d. classify_service_coverage (Some (coverage_of g (parameters_of cx) (fst (dl_key d), None)))
       (relation_type_of (dl_key d)) enabled = Some (dl_coverage d)) rows"
proof -
  define keys where "keys = declared_only_keys g (parameters_of cx)"
  define cov where "cov = map_of (rev (map (\<lambda>c. (tc_service_id c, c))
    (telemetry_coverage g cx (Some (sorted_set (map fst keys))))))"
  have row: "\<exists>d. declared_only_row cov enabled k = Some d \<and> dl_key d = k \<and>
      classify_service_coverage (Some (coverage_of g (parameters_of cx) (fst k, None))) (relation_type_of k) enabled
        = Some (dl_coverage d)" if k: "k \<in> set keys" for k
  proof -
    have "fst k \<in> set (sorted_set (map fst keys))" using k by simp
    from coverage_row_of_subject [OF this, of g cx] obtain n
      where n: "cov (fst k) = Some (coverage_of g (parameters_of cx) (fst k, n))"
      unfolding cov_def by blast
    from k obtain r where "(r, k) \<in> set (matches_of g)"
      unfolding keys_def declared_only_keys_iff by blast
    from classify_known_type [OF matches_of_type [OF this]] obtain v
      where v: "classify_service_coverage (cov (fst k)) (relation_type_of k) enabled = Some v" by blast
    have "classify_service_coverage (Some (coverage_of g (parameters_of cx) (fst k, None))) (relation_type_of k) enabled = Some v"
      using v unfolding n classify_by_facts facts_of_name [of g "parameters_of cx" "fst k" n None] .
    then show ?thesis by (simp add: declared_only_row_def Let_def v)
  qed
  have none: "None \<notin> set (map (declared_only_row cov enabled) keys)" using row by force
  have "declared_only_relations g cx enabled = Some (map the (map (declared_only_row cov enabled) keys))"
    using none unfolding declared_only_relations_def Let_def keys_def cov_def by (simp only: if_False)
  moreover have "map dl_key (map the (map (declared_only_row cov enabled) keys)) = keys"
    unfolding map_map by (rule map_idI) (use row in force)
  moreover have "list_all (\<lambda>d. classify_service_coverage (Some (coverage_of g (parameters_of cx) (fst (dl_key d), None)))
       (relation_type_of (dl_key d)) enabled = Some (dl_coverage d)) (map the (map (declared_only_row cov enabled) keys))"
    unfolding list_all_iff using row by force
  ultimately show ?thesis unfolding keys_def by blast
qed

section \<open>The aggregates of the result rows\<close>

lemma max_null_mem: "x \<in> set (somes xs) \<Longrightarrow> \<exists>m. max_null xs = Some m \<and> m \<in> set (somes xs)"
  unfolding max_null_def using Max_in [of "set (somes xs)"] by (auto simp del: set_somes)

lemma grouped_rows:
  assumes "ob \<in> set (grouped bs)"
  shows "\<exists>k rows. ob = observation_of k rows \<and> rows \<noteq> [] \<and> set rows = snd ` {b \<in> set bs. fst b = k}"
proof -
  obtain k where k: "k \<in> fst ` set bs"
    "ob = observation_of k (map snd (filter (\<lambda>b. fst b = k) bs))"
    using assms unfolding grouped_def set_map set_remdups image_iff [of ob] by blast
  have "filter (\<lambda>b. fst b = k) bs \<noteq> []" using k(1) by (auto simp: filter_empty_conv)
  then show ?thesis using k(2) by (intro exI [of _ k] exI [of _ "map snd (filter (\<lambda>b. fst b = k) bs)"]) simp
qed

lemma bindings_row:
  "b \<in> set (bindings P ev ms) \<Longrightarrow> snd (fst b) = er_environment (snd b) \<and> P (snd b)"
  by (auto simp: bindings_def)

lemma grouped_within_window:
  assumes "ob \<in> set (grouped (bindings (observed_evidence_condition False (parameters_of cx)) ev ms))"
  shows "ob_environment ob = Some (cx_environment cx) \<and>
    (\<exists>l. ob_last_seen ob = Some l \<and> cx_since cx \<le> l \<and> null_or (cx_until cx) (\<lambda>u. l \<le> u))"
proof -
  obtain k rows where ob: "ob = observation_of k rows" "rows \<noteq> []"
    "set rows = snd ` {b \<in> set (bindings (observed_evidence_condition False (parameters_of cx)) ev ms). fst b = k}"
    using grouped_rows [OF assms] by blast
  have each: "snd k = er_environment e \<and> row_observed cx e" if "e \<in> set rows" for e
    using that bindings_row unfolding ob(3) observed_condition_iff [symmetric] by force
  have seen: "er_environment e = Some (cx_environment cx) \<and>
      (\<exists>l. er_last_seen e = Some l \<and> cx_since cx \<le> l \<and> null_or (cx_until cx) (\<lambda>u. l \<le> u))" if "e \<in> set rows" for e
    using each [OF that] by (auto simp: row_observed_def null_or_def split: if_splits option.splits)
  obtain e where e: "e \<in> set rows" using ob(2) by (meson list.set_sel(1))
  obtain l where "er_last_seen e = Some l" using seen [OF e] by blast
  then have "l \<in> set (somes (map er_last_seen rows))" using e by (force simp: image_iff)
  from max_null_mem [OF this] obtain m where m: "max_null (map er_last_seen rows) = Some m"
    "m \<in> set (somes (map er_last_seen rows))" by blast
  obtain e' where e': "e' \<in> set rows" "er_last_seen e' = Some m" using m(2) by force
  have env: "snd k = Some (cx_environment cx)" using each [OF e] seen [OF e] by simp
  show ?thesis using seen [OF e'(1)] e'(2) m(1) env by (simp add: ob(1) observation_of_def)
qed

section \<open>Properties\<close>

text \<open>C30: The queries agree with the kernel.  A key is in the result of O2 (O3) exactly when some
  relation matched under it is qualified CONFIRMED (OBSERVED_ONLY) by the kernel; O4 never raises, and it
  lists a key with a coverage exactly when the kernel, given the O5 facts of the key's source, qualifies
  some relation matched under it NOT_OBSERVED_IN_WINDOW with that coverage.\<close>

theorem runtime_status_agrees_with_kernel:
  "(k \<in> ob_key ` set (confirmed_relations g cx) \<longleftrightarrow>
      (\<exists>r. (r, k) \<in> set (matches_of g) \<and> qualifies_as CONFIRMED
        (qualify_relation (ids_of (rt_evidence_ids r)) (rg_evidence g) cx (relation_type_of k) facts))) \<and>
   (k \<in> ob_key ` set (observed_only_relations g cx) \<longleftrightarrow>
      (\<exists>r. (r, k) \<in> set (matches_of g) \<and> qualifies_as OBSERVED_ONLY
        (qualify_relation (ids_of (rt_evidence_ids r)) (rg_evidence g) cx (relation_type_of k) facts))) \<and>
   (\<exists>rows. declared_only_relations g cx enabled = Some rows \<and>
      ((k, c) \<in> (\<lambda>d. (dl_key d, dl_coverage d)) ` set rows \<longleftrightarrow>
       (\<exists>r x. (r, k) \<in> set (matches_of g) \<and>
          qualify_relation (ids_of (rt_evidence_ids r)) (rg_evidence g) cx (relation_type_of k)
            (facts_of (Some (coverage_of g (parameters_of cx) (fst k, None))) enabled) = Some (Some x) \<and>
          qr_qualification x = NOT_OBSERVED_IN_WINDOW \<and> qr_coverage x = Some c)))"
proof (intro conjI)
  let ?t = "relation_type_of k"
  let ?ev = "rg_evidence g"
  show "k \<in> ob_key ` set (confirmed_relations g cx) \<longleftrightarrow> (\<exists>r. (r, k) \<in> set (matches_of g) \<and> qualifies_as CONFIRMED
      (qualify_relation (ids_of (rt_evidence_ids r)) ?ev cx ?t facts))"
    unfolding confirmed_relations_def status_query_keys guards_qualify ..
  show "k \<in> ob_key ` set (observed_only_relations g cx) \<longleftrightarrow> (\<exists>r. (r, k) \<in> set (matches_of g) \<and> qualifies_as OBSERVED_ONLY
      (qualify_relation (ids_of (rt_evidence_ids r)) ?ev cx ?t facts))"
    unfolding observed_only_relations_def status_query_keys guards_qualify ..
  let ?facts = "facts_of (Some (coverage_of g (parameters_of cx) (fst k, None))) enabled"
  let ?kernel = "\<lambda>r. qualify_relation (ids_of (rt_evidence_ids r)) ?ev cx ?t ?facts"
  obtain rows where rows: "declared_only_relations g cx enabled = Some rows"
    "map dl_key rows = declared_only_keys g (parameters_of cx)"
    "list_all (\<lambda>d. classify_service_coverage (Some (coverage_of g (parameters_of cx) (fst (dl_key d), None)))
       (relation_type_of (dl_key d)) enabled = Some (dl_coverage d)) rows"
    using declared_only_relations_rows by blast
  have cov: "qr_coverage x = classify_service_coverage (Some (coverage_of g (parameters_of cx) (fst k, None))) ?t enabled"
    if "?kernel r = Some (Some x)" "qr_qualification x = NOT_OBSERVED_IN_WINDOW" for r x
    using qualified_coverage [OF that] unfolding classify_by_facts .
  have key: "k \<in> dl_key ` set rows \<longleftrightarrow>
      (\<exists>r. (r, k) \<in> set (matches_of g) \<and> qualifies_as NOT_OBSERVED_IN_WINDOW (?kernel r))"
    unfolding set_map [symmetric] rows(2) declared_only_keys_iff
    by (intro ex_cong1 conj_cong refl) (simp only: guards_qualify(3) [OF matches_of_type])
  have own: "(k, c) \<in> (\<lambda>d. (dl_key d, dl_coverage d)) ` set rows \<longleftrightarrow> k \<in> dl_key ` set rows \<and>
      classify_service_coverage (Some (coverage_of g (parameters_of cx) (fst k, None))) ?t enabled = Some c"
    using rows(3) unfolding list_all_iff by (force simp: image_iff)
  have "(k, c) \<in> (\<lambda>d. (dl_key d, dl_coverage d)) ` set rows \<longleftrightarrow>
      (\<exists>r x. (r, k) \<in> set (matches_of g) \<and> ?kernel r = Some (Some x) \<and>
         qr_qualification x = NOT_OBSERVED_IN_WINDOW \<and> qr_coverage x = Some c)"
    unfolding own key qualifies_as_def using cov by (metis (no_types, lifting))
  then show "\<exists>rows. declared_only_relations g cx enabled = Some rows \<and>
      ((k, c) \<in> (\<lambda>d. (dl_key d, dl_coverage d)) ` set rows \<longleftrightarrow>
       (\<exists>r x. (r, k) \<in> set (matches_of g) \<and> ?kernel r = Some (Some x) \<and>
         qr_qualification x = NOT_OBSERVED_IN_WINDOW \<and> qr_coverage x = Some c))"
    using rows(1) by blast
qed

text \<open>Every row of O2 and O3 is of the requested environment, and its last observation lies in
  the requested window, both bounds included: no grouped row is empty, and the aggregate keeps to the
  evidence the WHERE clause let through.\<close>

theorem observed_rows_within_window:
  assumes "ob \<in> set (confirmed_relations g cx @ observed_only_relations g cx)"
  shows "ob_environment ob = Some (cx_environment cx) \<and>
    (\<exists>l. ob_last_seen ob = Some l \<and> cx_since cx \<le> l \<and> null_or (cx_until cx) (\<lambda>u. l \<le> u))"
  using assms grouped_within_window
  unfolding confirmed_relations_def observed_only_relations_def status_query_def union_rows_def Let_def
    set_sort set_remdups set_append
  by blast

section \<open>A concrete graph\<close>

text \<open>\<open>a\<close> calls an operation of \<open>b\<close> that is declared and observed, and sends to a queue nobody
  declared; the receiving side is declared only.\<close>

definition ex_evidence :: "string \<Rightarrow> string option \<Rightarrow> int option \<Rightarrow> evidence_row" where
  "ex_evidence t env seen = \<lparr>er_evidence_type = Some t, er_environment = env, er_first_seen = seen,
     er_last_seen = seen, er_observation_count = Some 2\<rparr>"

definition ex_graph :: runtime_graph where
  "ex_graph = \<lparr>
     rg_services = [\<lparr>sn_id = ''a'', sn_name = Some ''A''\<rparr>, \<lparr>sn_id = ''b'', sn_name = None\<rparr>],
     rg_operations = [\<lparr>on_id = ''op'', on_name = None, on_method = Some ''GET'', on_path = Some ''/x''\<rparr>],
     rg_queues = [(''q'', Some ''Q'')],
     rg_relations = [
       \<lparr>rt_type = ''PROVIDES'', rt_source = ''b'', rt_target = ''op'', rt_label = OperationLabel, rt_evidence_ids = Some [''d'']\<rparr>,
       \<lparr>rt_type = ''CALLS'', rt_source = ''a'', rt_target = ''op'', rt_label = OperationLabel, rt_evidence_ids = Some [''d'', ''o1'', ''o2'']\<rparr>,
       \<lparr>rt_type = ''SENDS'', rt_source = ''a'', rt_target = ''q'', rt_label = QueueLabel, rt_evidence_ids = Some [''o1'']\<rparr>,
       \<lparr>rt_type = ''RECEIVES_FROM'', rt_source = ''b'', rt_target = ''q'', rt_label = QueueLabel, rt_evidence_ids = Some [''d'']\<rparr>],
     rg_evidence = [''d'' \<mapsto> ex_evidence ''DECLARED'' None None, ''o1'' \<mapsto> ex_evidence ''OBSERVED'' (Some ''prod'') (Some 5),
       ''o2'' \<mapsto> ex_evidence ''OBSERVED'' (Some ''prod'') (Some 7)]\<rparr>"

definition ex_context :: observation_context where
  "ex_context = \<lparr>cx_environment = ''prod'', cx_since = 4, cx_until = Some 6\<rparr>"

lemma ex_confirmed: "\<exists>ob\<in>set (confirmed_relations ex_graph ex_context). fst (ob_key ob) = ''a''"
  by code_simp

theorem observed_rows_within_window_witness:
  "\<exists>ob l. ob \<in> set (confirmed_relations ex_graph ex_context) \<and> ob_last_seen ob = Some l \<and> 4 \<le> l \<and> l \<le> 6"
proof -
  obtain ob where ob: "ob \<in> set (confirmed_relations ex_graph ex_context)" using ex_confirmed by blast
  have "ob \<in> set (confirmed_relations ex_graph ex_context @ observed_only_relations ex_graph ex_context)" using ob by simp
  from observed_rows_within_window [OF this] show ?thesis
    using ob by (auto simp: ex_context_def null_or_def)
qed

end
