(* ===== verification/TextValues.thy ===== *)
theory TextValues
  imports Prelude
begin

text \<open>
  Python's string methods on the UTF-8 bytes of a text.  On ASCII text they are written out; their values
  on other text depend on the Unicode database and are the parameters of \<open>text_library\<close>, as are NFC and
  the \<open>repr\<close> of a bytes object.
\<close>

definition ascii_letter :: "char \<Rightarrow> bool" where
  "ascii_letter c = ((CHR ''a'' \<le> c \<and> c \<le> CHR ''z'') \<or> (CHR ''A'' \<le> c \<and> c \<le> CHR ''Z''))"

definition ascii_digit :: "char \<Rightarrow> bool" where
  "ascii_digit c = (CHR ''0'' \<le> c \<and> c \<le> CHR ''9'')"

definition lower_char :: "char \<Rightarrow> char" where
  "lower_char c = (if CHR ''A'' \<le> c \<and> c \<le> CHR ''Z'' then char_of (of_char c + (32::nat)) else c)"

definition upper_char :: "char \<Rightarrow> char" where
  "upper_char c = (if CHR ''a'' \<le> c \<and> c \<le> CHR ''z'' then char_of (of_char c - (32::nat)) else c)"

definition is_ascii :: "char \<Rightarrow> bool" where
  "is_ascii c = ((of_char c :: nat) < 128)"

definition continuation :: "nat \<Rightarrow> bool" where
  "continuation n = (128 \<le> n \<and> n < 192)"

fun utf8_bytes :: "nat list \<Rightarrow> bool" where
  "utf8_bytes [] = True"
| "utf8_bytes (a # s) =
     (if a < 128 then utf8_bytes s
      else (case s of
        b # t \<Rightarrow>
          if 194 \<le> a \<and> a < 224 then continuation b \<and> utf8_bytes t
          else (case t of
            c # u \<Rightarrow>
              if 224 \<le> a \<and> a < 240 then
                continuation b \<and> (a = 224 \<longrightarrow> 160 \<le> b) \<and> (a = 237 \<longrightarrow> b < 160) \<and> continuation c \<and> utf8_bytes u
              else (case u of
                d # v \<Rightarrow> 240 \<le> a \<and> a < 245 \<and> continuation b \<and> (a = 240 \<longrightarrow> 144 \<le> b) \<and> (a = 244 \<longrightarrow> b < 144) \<and>
                  continuation c \<and> continuation d \<and> utf8_bytes v
              | [] \<Rightarrow> False)
          | [] \<Rightarrow> False)
      | [] \<Rightarrow> False))"

definition utf8_valid :: "string \<Rightarrow> bool" where
  "utf8_valid s = utf8_bytes (map of_char s)"

record text_library =
  tx_lower :: "string \<Rightarrow> string"
  tx_upper :: "string \<Rightarrow> string"
  tx_casefold :: "string \<Rightarrow> string"
  tx_strip :: "string \<Rightarrow> string"
  tx_nfc :: "string \<Rightarrow> string"
  tx_bytes_repr :: "string \<Rightarrow> string"

definition py_lower :: "text_library \<Rightarrow> string \<Rightarrow> string" where
  "py_lower U s = (if list_all is_ascii s then map lower_char s else tx_lower U s)"

definition py_upper :: "text_library \<Rightarrow> string \<Rightarrow> string" where
  "py_upper U s = (if list_all is_ascii s then map upper_char s else tx_upper U s)"

definition py_casefold :: "text_library \<Rightarrow> string \<Rightarrow> string" where
  "py_casefold U s = (if list_all is_ascii s then map lower_char s else tx_casefold U s)"

definition ascii_space :: "char \<Rightarrow> bool" where
  "ascii_space c = (let n = of_char c :: nat in (9 \<le> n \<and> n \<le> 13) \<or> (28 \<le> n \<and> n \<le> 32))"

definition strip_chars :: "(char \<Rightarrow> bool) \<Rightarrow> string \<Rightarrow> string" where
  "strip_chars P s = rev (dropWhile P (rev (dropWhile P s)))"

definition py_strip :: "text_library \<Rightarrow> string \<Rightarrow> string" where
  "py_strip U s = (if list_all is_ascii s then strip_chars ascii_space s else tx_strip U s)"

definition nfc :: "text_library \<Rightarrow> string \<Rightarrow> string" where
  "nfc U s = (if list_all is_ascii s then s else tx_nfc U s)"

text \<open>\<open>re.sub("[...]+", c, s)\<close>.\<close>

function collapse_runs :: "(char \<Rightarrow> bool) \<Rightarrow> char \<Rightarrow> string \<Rightarrow> string" where
  "collapse_runs P c [] = []"
| "collapse_runs P c (x # s) =
     (if P x then c # collapse_runs P c (dropWhile P s) else x # collapse_runs P c s)"
  by pat_completeness auto
termination
  by (relation "measure (\<lambda>(P, c, s). length s)") (auto simp: le_imp_less_Suc length_dropWhile_le)

text \<open>\<open>date.isoformat()\<close> of a day counted from 1970-01-01, by the proleptic Gregorian calendar.\<close>

definition civil_date :: "int \<Rightarrow> int \<times> int \<times> int" where
  "civil_date day =
     (let z = day + 719468; era = z div 146097; doe = z mod 146097;
          yoe = (doe - doe div 1460 + doe div 36524 - doe div 146096) div 365;
          doy = doe - (365 * yoe + yoe div 4 - yoe div 100); mp = (5 * doy + 2) div 153;
          d = doy - (153 * mp + 2) div 5 + 1; m = (if mp < 10 then mp + 3 else mp - 9);
          y = yoe + 400 * era in
      (if m \<le> 2 then y + 1 else y, m, d))"

definition zero_padded :: "nat \<Rightarrow> int \<Rightarrow> string" where
  "zero_padded w n = (let s = show_int n in replicate (w - length s) (CHR ''0'') @ s)"

definition iso_day :: "int \<Rightarrow> string" where
  "iso_day day = (case civil_date day of (y, m, d) \<Rightarrow> zero_padded 4 y @ ''-'' @ zero_padded 2 m @ ''-'' @ zero_padded 2 d)"

lemma iso_day_epoch: "iso_day 0 = ''1970-01-01''" "iso_day 19782 = ''2024-02-29''" "iso_day 19783 = ''2024-03-01''"
  by code_simp+

end
