(* ===== verification/ReferenceResolution.thy ===== *)
theory ReferenceResolution
  imports Discovery PyValues TextValues
begin

text \<open>
  \<open>sources/reference_resolution.py\<close> and the enforcement part of \<open>ingestion/reference_closure.py\<close>:
  \<open>$ref\<close> strings are parsed, decoded and resolved against the containing document, and the closure of a
  root document is walked depth first under its depth, file and byte limits.  The file system, PyYAML,
  the NFKC check and the bracketed-host check of \<open>urlsplit\<close> and the digit values of non-ASCII characters
  are the parameters of \<open>environment\<close>.  An exception other than ReferenceResolutionError is
  \<open>Uncaught\<close>.
\<close>

datatype resolution_fault = Rejected diagnostic_code "string list" | Uncaught string

type_synonym document = py_dict

record environment =
  en_root_real :: "string list"
  en_resolve :: "string \<Rightarrow> string list option"
  en_is_file :: "string list \<Rightarrow> bool"
  en_read_bytes :: "string list \<Rightarrow> string option"
  en_yaml :: "string \<Rightarrow> py option"
  en_isoformat :: "string \<Rightarrow> string option"
  en_netloc_rejected :: "string \<Rightarrow> bool"
  en_digit_token :: "string \<Rightarrow> nat option option"

section \<open>Parsing a reference\<close>

record parsed_ref =
  pr_scheme :: string
  pr_authority :: string
  pr_path :: string
  pr_fragment :: string

definition scheme_char :: "char \<Rightarrow> bool" where
  "scheme_char c = (ascii_letter c \<or> ascii_digit c \<or> c \<in> {CHR ''+'', CHR ''-'', CHR ''.''})"

text \<open>\<open>s.split(c, 1)\<close> as the parts before and after the first \<open>c\<close>.\<close>

definition split_first :: "char \<Rightarrow> string \<Rightarrow> string \<times> string" where
  "split_first c s = (takeWhile (\<lambda>x. x \<noteq> c) s, drop 1 (dropWhile (\<lambda>x. x \<noteq> c) s))"

text \<open>The scheme, if a prefix before a colon is one, and the rest.\<close>

definition split_scheme :: "string \<Rightarrow> string \<times> string" where
  "split_scheme url =
     (let (head, rest) = split_first (CHR '':'') url in
      if CHR '':'' \<in> set url \<and> head \<noteq> [] \<and> ascii_letter (hd head) \<and> list_all scheme_char head
      then (map lower_char head, rest) else ([], url))"

definition split_netloc :: "string \<Rightarrow> string \<times> string" where
  "split_netloc url =
     (if take 2 url = ''//'' then
        (let inside = (\<lambda>c. c \<notin> {CHR ''/'', CHR ''?'', CHR ''#''}) in
         (takeWhile inside (drop 2 url), dropWhile inside (drop 2 url)))
      else ([], url))"

definition unsafe_url_char :: "char \<Rightarrow> bool" where
  "unsafe_url_char c = (of_char c \<in> {9, 10, 13 :: nat})"

definition parse_ref_uri :: "environment \<Rightarrow> string \<Rightarrow> resolution_fault + parsed_ref" where
  "parse_ref_uri env ref =
     (let stripped = filter (\<lambda>c. \<not> unsafe_url_char c) (dropWhile (\<lambda>c. (of_char c :: nat) \<le> 32) ref);
          (scheme, rest) = split_scheme stripped;
          (netloc, rest') = split_netloc rest;
          (before, fragment) = split_first (CHR ''#'') rest' in
      if (CHR ''['' \<in> set netloc) \<noteq> (CHR '']'' \<in> set netloc) then Inl (Uncaught ''ValueError'')
      else if en_netloc_rejected env netloc then Inl (Uncaught ''ValueError'')
      else Inr \<lparr>pr_scheme = scheme, pr_authority = netloc, pr_path = fst (split_first (CHR ''?'') before),
        pr_fragment = fragment\<rparr>)"

definition reject_remote_reference :: "parsed_ref \<Rightarrow> string \<Rightarrow> resolution_fault option" where
  "reject_remote_reference parsed ref =
     (if pr_scheme parsed \<noteq> [] \<or> pr_authority parsed \<noteq> [] then Some (Rejected DC_REMOTE_REFERENCE_UNSUPPORTED [ref]) else None)"

section \<open>Percent decoding\<close>

definition hex_digit :: "char \<Rightarrow> bool" where
  "hex_digit c = (ascii_digit c \<or> (CHR ''a'' \<le> c \<and> c \<le> CHR ''f'') \<or> (CHR ''A'' \<le> c \<and> c \<le> CHR ''F''))"

definition hex_value :: "char \<Rightarrow> nat" where
  "hex_value c = (if ascii_digit c then of_char c - 48 else if CHR ''a'' \<le> c then of_char c - 87 else of_char c - 55)"

text \<open>Whether a percent sign is left once every escape is removed.\<close>

fun stray_percent :: "string \<Rightarrow> bool" where
  "stray_percent [] = False"
| "stray_percent (c # s) =
     (if c = CHR ''%'' then
        (case s of a # b # rest \<Rightarrow> if hex_digit a \<and> hex_digit b then stray_percent rest else True | _ \<Rightarrow> True)
      else stray_percent s)"

fun unescape :: "string \<Rightarrow> string" where
  "unescape [] = []"
| "unescape (c # s) =
     (if c = CHR ''%'' then
        (case s of a # b # rest \<Rightarrow>
             if hex_digit a \<and> hex_digit b then char_of (16 * hex_value a + hex_value b) # unescape rest else c # unescape s
         | _ \<Rightarrow> c # unescape s)
      else c # unescape s)"

text \<open>The maximal runs of ASCII characters; each is unescaped and decoded on its own.\<close>

fun ascii_runs :: "string \<Rightarrow> string list" where
  "ascii_runs [] = []"
| "ascii_runs (c # s) =
     (if \<not> is_ascii c then ascii_runs s
      else (case s of
        d # _ \<Rightarrow> if is_ascii d then (case ascii_runs s of r # rs \<Rightarrow> (c # r) # rs | [] \<Rightarrow> [[c]]) else [c] # ascii_runs s
      | [] \<Rightarrow> [[c]]))"

definition percent_decode_path_once :: "string \<Rightarrow> resolution_fault + string" where
  "percent_decode_path_once path =
     (if stray_percent path then Inl (Rejected DC_REFERENCE_INVALID [path])
      else if list_all (\<lambda>r. utf8_valid (unescape r)) (ascii_runs path) then Inr (unescape path)
      else Inl (Rejected DC_REFERENCE_INVALID [path]))"

definition reject_absolute_decoded_path :: "string \<Rightarrow> resolution_fault option" where
  "reject_absolute_decoded_path decoded = (case decoded of
     CHR ''/'' # _ \<Rightarrow> Some (Rejected DC_REFERENCE_INVALID [decoded]) | _ \<Rightarrow> None)"

section \<open>Relative paths\<close>

text \<open>One step of the segment loop; the output list is kept reversed.\<close>

definition dot_step :: "string list \<Rightarrow> string \<Rightarrow> string list" where
  "dot_step output segment =
     (if segment \<in> {[], ''.''} then output
      else if segment = ''..'' then (case output of prev # rest \<Rightarrow> if prev \<noteq> ''..'' then rest else segment # output
                                     | [] \<Rightarrow> [segment])
      else segment # output)"

fun join_slash :: "string list \<Rightarrow> string" where
  "join_slash [] = []"
| "join_slash [s] = s"
| "join_slash (s # t # ss) = s @ CHR ''/'' # join_slash (t # ss)"

definition normalize_dot_segments :: "string \<Rightarrow> string" where
  "normalize_dot_segments path = join_slash (rev (foldl dot_step [] (split_on (CHR ''/'') path)))"

definition containing_dir :: "string \<Rightarrow> string" where
  "containing_dir p = (if CHR ''/'' \<in> set p then rev (drop 1 (dropWhile (\<lambda>c. c \<noteq> CHR ''/'') (rev p))) else [])"

definition resolve_relative_path :: "string \<Rightarrow> string \<Rightarrow> string" where
  "resolve_relative_path containing ref_path =
     (let dir = containing_dir containing in
      normalize_dot_segments (if dir \<noteq> [] then dir @ CHR ''/'' # ref_path else ref_path))"

text \<open>The steps before any file is touched: \<open>None\<close> is a reference into the same document.\<close>

definition reference_target :: "environment \<Rightarrow> string \<Rightarrow> string \<Rightarrow> resolution_fault + string option" where
  "reference_target env containing ref =
     (case parse_ref_uri env ref of Inl e \<Rightarrow> Inl e
      | Inr parsed \<Rightarrow>
          (case reject_remote_reference parsed ref of Some e \<Rightarrow> Inl e
           | None \<Rightarrow>
               (case percent_decode_path_once (pr_path parsed) of Inl e \<Rightarrow> Inl e
                | Inr decoded \<Rightarrow>
                    if decoded = [] then Inr None
                    else (case reject_absolute_decoded_path decoded of Some e \<Rightarrow> Inl e
                          | None \<Rightarrow> Inr (Some (resolve_relative_path containing decoded))))))"

section \<open>Documents\<close>

function normalize_non_json_scalars :: "(string \<Rightarrow> string option) \<Rightarrow> py \<Rightarrow> py" where
  "normalize_non_json_scalars fmt (PDict d) = PDict (map (\<lambda>kv. (fst kv, normalize_non_json_scalars fmt (snd kv))) d)"
| "normalize_non_json_scalars fmt (PList xs) = PList (map (normalize_non_json_scalars fmt) xs)"
| "normalize_non_json_scalars fmt (POther s b) = (case fmt s of Some t \<Rightarrow> PStr t | None \<Rightarrow> POther s b)"
| "normalize_non_json_scalars fmt PNone = PNone"
| "normalize_non_json_scalars fmt (PBool b) = PBool b"
| "normalize_non_json_scalars fmt (PInt i) = PInt i"
| "normalize_non_json_scalars fmt (PStr s) = PStr s"
  by pat_completeness auto
termination
  by (relation "measure (\<lambda>(fmt, v). size v)") (auto intro: py_size_item py_size_element simp del: py.size)

text \<open>The cache maps a relative path to its document and raw bytes.\<close>

type_synonym resolution_cache = "string \<Rightarrow> (document \<times> string) option"

definition new_resolution_cache :: "string \<Rightarrow> document \<Rightarrow> string \<Rightarrow> resolution_cache" where
  "new_resolution_cache root_relative_path root_document root_bytes = [root_relative_path \<mapsto> (root_document, root_bytes)]"

definition is_relative_to :: "string list \<Rightarrow> string list \<Rightarrow> bool" where
  "is_relative_to path base = (take (length base) path = base)"

definition read_document :: "environment \<Rightarrow> string \<Rightarrow> resolution_fault + document \<times> string" where
  "read_document env path =
     (case en_resolve env path of
        None \<Rightarrow> Inl (Uncaught ''resolve'')
      | Some real \<Rightarrow>
          if \<not> is_relative_to real (en_root_real env) then Inl (Rejected DC_REFERENCE_INVALID [path])
          else if \<not> en_is_file env real then Inl (Rejected DC_REFERENCE_INVALID [path])
          else (case en_read_bytes env real of
            None \<Rightarrow> Inl (Uncaught ''read_bytes'')
          | Some raw \<Rightarrow>
              (case en_yaml env raw of
                 None \<Rightarrow> Inl (Rejected DC_REFERENCE_INVALID [path])
               | Some (PDict d) \<Rightarrow> Inr (as_dict (normalize_non_json_scalars (en_isoformat env) (PDict d)), raw)
               | Some _ \<Rightarrow> Inl (Rejected DC_REFERENCE_INVALID [path]))))"

definition load_and_validate_document ::
  "environment \<Rightarrow> resolution_cache \<Rightarrow> string \<Rightarrow> resolution_fault + (document \<times> string) \<times> resolution_cache" where
  "load_and_validate_document env cache path =
     (case cache path of
        Some entry \<Rightarrow> Inr (entry, cache)
      | None \<Rightarrow> (case read_document env path of Inl e \<Rightarrow> Inl e | Inr entry \<Rightarrow> Inr (entry, cache(path \<mapsto> entry))))"

section \<open>Resolving one reference\<close>

text \<open>\<open>token.lstrip("-").isdigit()\<close> without a leading minus, then \<open>int\<close>: \<open>None\<close> is not a digit
  string, \<open>Some None\<close> the ValueError of \<open>int\<close> (a digit it does not read, or more than 4300 of them).\<close>

definition token_index :: "environment \<Rightarrow> string \<Rightarrow> nat option option" where
  "token_index env token =
     (if list_all is_ascii token then
        if token = [] \<or> \<not> list_all ascii_digit token then None
        else if length token > 4300 then Some None
        else Some (Some (foldl (\<lambda>n c. 10 * n + (of_char c - 48)) 0 token))
      else if hd token = CHR ''-'' then None
      else en_digit_token env token)"

fun resolve_pointer :: "environment \<Rightarrow> py \<Rightarrow> string list \<Rightarrow> resolution_fault + py" where
  "resolve_pointer env node [] = Inr node"
| "resolve_pointer env node (token # tokens) =
     (case node of
        PDict d \<Rightarrow>
          (case map_of d (PStr token) of
             None \<Rightarrow> Inl (Rejected DC_REFERENCE_INVALID [token])
           | Some v \<Rightarrow> resolve_pointer env v tokens)
      | PList xs \<Rightarrow>
          (case token_index env token of
             None \<Rightarrow> Inl (Rejected DC_REFERENCE_INVALID [token])
           | Some None \<Rightarrow> Inl (Uncaught ''ValueError'')
           | Some (Some index) \<Rightarrow>
               if index \<ge> length xs then Inl (Rejected DC_REFERENCE_INVALID [show_nat index])
               else resolve_pointer env (xs ! index) tokens)
      | _ \<Rightarrow> Inl (Rejected DC_REFERENCE_INVALID [token]))"

record resolved_ref =
  rf_target_document :: document
  rf_path :: string
  rf_pointer_tokens :: "string list"
  rf_target_node :: py

definition resolve_and_read ::
  "environment \<Rightarrow> string \<Rightarrow> string \<Rightarrow> resolution_cache \<Rightarrow> resolution_fault + resolved_ref \<times> resolution_cache" where
  "resolve_and_read env containing ref cache =
     (case reference_target env containing ref of Inl e \<Rightarrow> Inl e
      | Inr target \<Rightarrow>
          (case (case target of
              Some path \<Rightarrow> (case load_and_validate_document env cache path of Inl e \<Rightarrow> Inl e
                | Inr ((d, _), cache') \<Rightarrow> Inr (path, d, cache'))
            | None \<Rightarrow> (case cache containing of None \<Rightarrow> Inl (Uncaught ''KeyError'')
                | Some (d, _) \<Rightarrow> Inr (containing, d, cache))) of Inl e \<Rightarrow> Inl e
           | Inr (path, d, cache') \<Rightarrow>
               (case parse_ref_uri env ref of Inl e \<Rightarrow> Inl e
                | Inr parsed \<Rightarrow>
                    (case decode_pointer_tokens (pr_fragment parsed) of
                       None \<Rightarrow> Inl (Rejected DC_REFERENCE_INVALID [pr_fragment parsed])
                     | Some tokens \<Rightarrow>
                         (case resolve_pointer env (PDict d) tokens of Inl e \<Rightarrow> Inl e
                          | Inr node \<Rightarrow> Inr (\<lparr>rf_target_document = d, rf_path = path, rf_pointer_tokens = tokens,
                              rf_target_node = node\<rparr>, cache'))))))"

section \<open>The transitive closure\<close>

function iter_ref_strings :: "py \<Rightarrow> string list" where
  "iter_ref_strings (PDict d) =
     (case map_of d (PStr ''$ref'') of Some (PStr ref) \<Rightarrow> [ref] | _ \<Rightarrow> []) @
     concat (map (\<lambda>kv. iter_ref_strings (snd kv)) d)"
| "iter_ref_strings (PList xs) = concat (map iter_ref_strings xs)"
| "iter_ref_strings (POther s b) = []"
| "iter_ref_strings PNone = []"
| "iter_ref_strings (PBool b) = []"
| "iter_ref_strings (PInt i) = []"
| "iter_ref_strings (PStr s) = []"
  by pat_completeness auto
termination
  by (relation "measure size") (auto intro: py_size_item py_size_element simp del: py.size)

record closure_limits =
  cl_max_depth :: nat
  cl_max_files :: nat
  cl_max_bytes :: nat

definition default_limits :: closure_limits where
  "default_limits = \<lparr>cl_max_depth = 16, cl_max_files = 128, cl_max_bytes = 8 * 1024 * 1024\<rparr>"

type_synonym closure_entry = "string \<times> string"

record walk_state =
  ws_cache :: resolution_cache
  ws_visited :: "string list"
  ws_entries :: "closure_entry list"
  ws_total_bytes :: nat

text \<open>A new file: load it, then the two closure-wide limits.\<close>

definition enter_file :: "environment \<Rightarrow> closure_limits \<Rightarrow> string \<Rightarrow> walk_state \<Rightarrow> resolution_fault + document \<times> walk_state" where
  "enter_file env limits target st =
     (case load_and_validate_document env (ws_cache st) target of Inl e \<Rightarrow> Inl e
      | Inr ((d, raw), cache) \<Rightarrow>
          if Suc (length (ws_visited st)) > cl_max_files limits
          then Inl (Rejected DC_REFERENCE_LIMIT_EXCEEDED [show_nat (cl_max_files limits)])
          else if ws_total_bytes st + length raw > cl_max_bytes limits
          then Inl (Rejected DC_REFERENCE_LIMIT_EXCEEDED [show_nat (cl_max_bytes limits)])
          else Inr (d, \<lparr>ws_cache = cache, ws_visited = target # ws_visited st,
            ws_entries = ws_entries st @ [(target, raw)], ws_total_bytes = ws_total_bytes st + length raw\<rparr>))"

text \<open>The loop of \<open>visit\<close> over the references of one document; \<open>hops\<close> is what the depth limit leaves.\<close>

fun visit :: "environment \<Rightarrow> closure_limits \<Rightarrow> nat \<Rightarrow> string \<Rightarrow> string list \<Rightarrow> string list \<Rightarrow> walk_state
     \<Rightarrow> resolution_fault + walk_state" where
  "visit env limits hops path stack [] st = Inr st"
| "visit env limits hops path stack (ref # refs) st =
     (case reference_target env path ref of Inl e \<Rightarrow> Inl e
      | Inr None \<Rightarrow> visit env limits hops path stack refs st
      | Inr (Some target) \<Rightarrow>
          if target \<in> set stack then Inl (Rejected DC_REFERENCE_CYCLE_UNSUPPORTED [target])
          else (case hops of
            0 \<Rightarrow> Inl (Rejected DC_REFERENCE_LIMIT_EXCEEDED [show_nat (cl_max_depth limits)])
          | Suc left \<Rightarrow>
              if target \<in> set (ws_visited st) then visit env limits hops path stack refs st
              else (case enter_file env limits target st of Inl e \<Rightarrow> Inl e
                | Inr (d, st1) \<Rightarrow>
                    (case visit env limits left target (stack @ [target]) (iter_ref_strings (PDict d)) st1 of
                       Inl e \<Rightarrow> Inl e
                     | Inr st2 \<Rightarrow> visit env limits hops path stack refs st2))))"

definition walk_transitive_closure :: "environment \<Rightarrow> closure_limits \<Rightarrow> document \<Rightarrow> string \<Rightarrow> resolution_cache
     \<Rightarrow> resolution_fault + closure_entry list \<times> resolution_cache" where
  "walk_transitive_closure env limits root_document root_path cache =
     (let total = (case cache root_path of None \<Rightarrow> 0 | Some (_, raw) \<Rightarrow> length raw) in
      if total > cl_max_bytes limits then Inl (Rejected DC_REFERENCE_LIMIT_EXCEEDED [show_nat (cl_max_bytes limits)])
      else (case visit env limits (cl_max_depth limits) root_path [root_path] (iter_ref_strings (PDict root_document))
              \<lparr>ws_cache = cache, ws_visited = [], ws_entries = [], ws_total_bytes = total\<rparr> of Inl e \<Rightarrow> Inl e
            | Inr st \<Rightarrow> Inr (ws_entries st, ws_cache st)))"

section \<open>Enforcement in an adapter\<close>

definition reference_error_result :: "diagnostic_code \<Rightarrow> ingestion_result" where
  "reference_error_result code =
     (if code \<in> {DC_REMOTE_REFERENCE_UNSUPPORTED, DC_REFERENCE_CYCLE_UNSUPPORTED, DC_REFERENCE_LIMIT_EXCEEDED}
      then REJECTED_UNSUPPORTED else REJECTED_INVALID)"

definition rejected_outcome_for_reference_error :: "diagnostic_code \<Rightarrow> string list \<Rightarrow> string \<Rightarrow> adapter_outcome" where
  "rejected_outcome_for_reference_error code args source_pointer =
     \<lparr>ao_result = reference_error_result code, ao_model = empty_model,
      ao_diagnostics = [diagnostic code args (Some source_pointer) None], ao_semantic_input_digest = None\<rparr>"

text \<open>\<open>Inl\<close> is an exception that escapes, \<open>Inr None\<close> that mapping goes on.\<close>

definition enforce_reference_closure ::
  "environment \<Rightarrow> document \<Rightarrow> string \<Rightarrow> resolution_cache \<Rightarrow> string \<Rightarrow> string + adapter_outcome option" where
  "enforce_reference_closure env document root_path cache source_pointer =
     (case walk_transitive_closure env default_limits document root_path cache of
        Inr _ \<Rightarrow> Inr None
      | Inl (Rejected code args) \<Rightarrow> Inr (Some (rejected_outcome_for_reference_error code args source_pointer))
      | Inl (Uncaught e) \<Rightarrow> Inl e)"

section \<open>What a walk leaves behind\<close>

definition document_at :: "environment \<Rightarrow> string \<Rightarrow> document \<Rightarrow> string \<Rightarrow> document option" where
  "document_at env root d0 p =
     (if p = root then Some d0 else (case read_document env p of Inr (d, _) \<Rightarrow> Some d | Inl _ \<Rightarrow> None))"

text \<open>The files the document at a path refers to.\<close>

definition targets :: "environment \<Rightarrow> string \<Rightarrow> document \<Rightarrow> string \<Rightarrow> string set" where
  "targets env root d0 p = (case document_at env root d0 p of None \<Rightarrow> {}
     | Some d \<Rightarrow> {t. \<exists>ref\<in>set (iter_ref_strings (PDict d)). reference_target env p ref = Inr (Some t)})"

text \<open>Each element refers only to elements after it.\<close>

fun layered :: "(string \<Rightarrow> string set) \<Rightarrow> string list \<Rightarrow> bool" where
  "layered T [] = True"
| "layered T (x # done) = (x \<notin> set done \<and> T x \<subseteq> set done \<and> layered T done)"

definition cache_ok :: "environment \<Rightarrow> string \<Rightarrow> document \<Rightarrow> resolution_cache \<Rightarrow> bool" where
  "cache_ok env root d0 cache \<longleftrightarrow>
     (\<forall>e. cache root = Some e \<longrightarrow> fst e = d0) \<and>
     (\<forall>p e. p \<noteq> root \<longrightarrow> cache p = Some e \<longrightarrow> read_document env p = Inr e)"

definition walk_ok :: "environment \<Rightarrow> closure_limits \<Rightarrow> string \<Rightarrow> document \<Rightarrow> nat \<Rightarrow> walk_state \<Rightarrow> bool" where
  "walk_ok env limits root d0 n st \<longleftrightarrow>
     cache_ok env root d0 (ws_cache st) \<and> ws_visited st = rev (map fst (ws_entries st)) \<and>
     distinct (root # ws_visited st) \<and>
     length (ws_entries st) \<le> cl_max_files limits \<and>
     ws_total_bytes st = n + sum_list (map (\<lambda>e. length (snd e)) (ws_entries st)) \<and>
     ws_total_bytes st \<le> cl_max_bytes limits \<and>
     list_all (\<lambda>e. \<exists>d. read_document env (fst e) = Inr (d, snd e)) (ws_entries st)"

lemma read_documentD:
  "read_document env p = Inr (d, raw) \<Longrightarrow> \<exists>real. en_resolve env p = Some real \<and> is_relative_to real (en_root_real env) \<and>
     en_is_file env real \<and> en_read_bytes env real = Some raw"
  by (auto simp: read_document_def split: option.splits if_splits py.splits)

lemma walk_ok_read:
  "walk_ok env limits root d0 n st \<Longrightarrow> e \<in> set (ws_entries st) \<Longrightarrow> \<exists>d. read_document env (fst e) = Inr (d, snd e)"
  by (simp add: walk_ok_def list_all_iff)

lemma walk_ok_bounds:
  assumes "walk_ok env limits root d0 n st"
  shows "distinct (map fst (ws_entries st))" "root \<notin> set (map fst (ws_entries st))"
    "length (ws_entries st) \<le> cl_max_files limits"
    "n + sum_list (map (\<lambda>e. length (snd e)) (ws_entries st)) \<le> cl_max_bytes limits"
  using assms unfolding walk_ok_def by (simp_all, metis distinct_rev, metis set_map set_rev)

lemma enter_file_ok:
  assumes "enter_file env limits t st = Inr (d, st1)" "walk_ok env limits root d0 n st"
    "t \<noteq> root" "t \<notin> set (ws_visited st)"
  shows "walk_ok env limits root d0 n st1" "ws_visited st1 = t # ws_visited st" "document_at env root d0 t = Some d"
proof -
  obtain raw cache where load: "load_and_validate_document env (ws_cache st) t = Inr ((d, raw), cache)"
    "Suc (length (ws_visited st)) \<le> cl_max_files limits" "ws_total_bytes st + length raw \<le> cl_max_bytes limits"
    "st1 = \<lparr>ws_cache = cache, ws_visited = t # ws_visited st, ws_entries = ws_entries st @ [(t, raw)],
       ws_total_bytes = ws_total_bytes st + length raw\<rparr>"
    using assms(1) by (auto simp: enter_file_def not_less split: sum.splits if_splits)
  have ok: "cache_ok env root d0 (ws_cache st)" using assms(2) by (simp add: walk_ok_def)
  have read: "read_document env t = Inr (d, raw)" and cache: "cache_ok env root d0 cache"
    using load(1) ok assms(3)
    by (auto simp: load_and_validate_document_def cache_ok_def split: option.splits sum.splits if_splits)
  show "ws_visited st1 = t # ws_visited st" by (simp add: load(4))
  show "document_at env root d0 t = Some d" using assms(3) read by (simp add: document_at_def)
  show "walk_ok env limits root d0 n st1"
    using assms(2,3,4) load(2,3) cache read unfolding walk_ok_def load(4)
    by simp (metis distinct_rev set_map set_rev)
qed

lemma visit_ConsE:
  assumes "visit env limits hops path stack (ref # refs) st = Inr st'"
  obtains (here) "reference_target env path ref = Inr None" "visit env limits hops path stack refs st = Inr st'"
  | (seen) t left where "reference_target env path ref = Inr (Some t)" "t \<notin> set stack" "hops = Suc left"
      "t \<in> set (ws_visited st)" "visit env limits hops path stack refs st = Inr st'"
  | (enter) t left d st1 st2 where "reference_target env path ref = Inr (Some t)" "t \<notin> set stack" "hops = Suc left"
      "t \<notin> set (ws_visited st)" "enter_file env limits t st = Inr (d, st1)"
      "visit env limits left t (stack @ [t]) (iter_ref_strings (PDict d)) st1 = Inr st2"
      "visit env limits hops path stack refs st2 = Inr st'"
  using assms by (auto simp del: iter_ref_strings.simps split: sum.splits option.splits if_splits nat.splits)

lemma visit_walk_ok:
  "visit env limits hops path stack refs st = Inr st' \<Longrightarrow> walk_ok env limits root d0 n st \<Longrightarrow> root \<in> set stack \<Longrightarrow>
     walk_ok env limits root d0 n st'"
proof (induction env limits hops path stack refs st arbitrary: st' rule: visit.induct)
  case (2 env limits hops path stack ref refs st)
  from "2.prems"(1) show ?case
  proof (cases rule: visit_ConsE)
    case here
    then show ?thesis using "2.IH"(1) "2.prems"(2,3) by blast
  next
    case (seen t left)
    then show ?thesis using "2.IH"(2) "2.prems"(2,3) by blast
  next
    case (enter t left d st1 st2)
    have "walk_ok env limits root d0 n st1"
      using enter_file_ok(1) [OF enter(5) "2.prems"(2)] enter(2,4) "2.prems"(3) by blast
    then have "walk_ok env limits root d0 n st2"
      using "2.IH"(3) enter "2.prems"(3) by simp
    then show ?thesis using "2.IH"(4) enter "2.prems"(3) by blast
  qed
qed simp

text \<open>\<open>fin\<close> lists the files already left, latest first; the other visited files are on the stack.\<close>

lemma visit_layers:
  "visit env limits hops path stack refs st = Inr st' \<Longrightarrow> walk_ok env limits root d0 n st \<Longrightarrow> root \<in> set stack \<Longrightarrow>
     set (ws_visited st) = set fin \<union> (set stack - {root}) \<Longrightarrow> set fin \<inter> set stack = {} \<Longrightarrow>
     layered (targets env root d0) fin \<Longrightarrow>
     \<exists>fin'. layered (targets env root d0) fin' \<and> set fin \<subseteq> set fin' \<and> set fin' \<inter> set stack = {} \<and>
       set (ws_visited st') = set fin' \<union> (set stack - {root}) \<and>
       (\<forall>ref\<in>set refs. \<forall>t. reference_target env path ref = Inr (Some t) \<longrightarrow> t \<in> set fin')"
proof (induction env limits hops path stack refs st arbitrary: st' fin rule: visit.induct)
  case (1 env limits hops path stack st)
  then show ?case by auto
next
  case (2 env limits hops path stack ref refs st)
  from "2.prems"(1) show ?case
  proof (cases rule: visit_ConsE)
    case here
    then show ?thesis using "2.IH"(1) [OF here(1) refl here(2) "2.prems"(2-6)] by auto
  next
    case (seen t left)
    have t: "t \<in> set fin" using seen(2,4) "2.prems"(4) by blast
    from "2.IH"(2) [OF seen(1) refl seen(2,3,4,5) "2.prems"(2-6)] obtain fin' where
      fin': "layered (targets env root d0) fin'" "set fin \<subseteq> set fin'" "set fin' \<inter> set stack = {}"
        "set (ws_visited st') = set fin' \<union> (set stack - {root})"
        "\<forall>ref\<in>set refs. \<forall>t. reference_target env path ref = Inr (Some t) \<longrightarrow> t \<in> set fin'"
      by blast
    have "\<forall>r\<in>set (ref # refs). \<forall>u. reference_target env path r = Inr (Some u) \<longrightarrow> u \<in> set fin'"
      using fin'(2,5) t seen(1) by auto
    then show ?thesis using fin' by blast
  next
    case (enter t left d st1 st2)
    have root: "t \<noteq> root" using enter(2) "2.prems"(3) by blast
    note entered = enter_file_ok [OF enter(5) "2.prems"(2) root enter(4)]
    have vis1: "set (ws_visited st1) = set fin \<union> (set (stack @ [t]) - {root})"
      using entered(2) "2.prems"(4) root by auto
    have "set fin \<inter> set (stack @ [t]) = {}" using "2.prems"(4,5) enter(4) by auto
    moreover have "root \<in> set (stack @ [t])" using "2.prems"(3) by simp
    ultimately obtain fin1 where fin1: "layered (targets env root d0) fin1" "set fin \<subseteq> set fin1"
      "set fin1 \<inter> set (stack @ [t]) = {}" "set (ws_visited st2) = set fin1 \<union> (set (stack @ [t]) - {root})"
      "\<forall>ref\<in>set (iter_ref_strings (PDict d)). \<forall>u. reference_target env t ref = Inr (Some u) \<longrightarrow> u \<in> set fin1"
      using "2.IH"(3) [OF enter(1) refl enter(2,3,4,5) refl enter(6) entered(1) _ vis1 _ "2.prems"(6)] by blast
    have "targets env root d0 t \<subseteq> set fin1"
      using fin1(5) by (auto simp: targets_def entered(3) simp del: iter_ref_strings.simps)
    then have layers: "layered (targets env root d0) (t # fin1)" using fin1(1,3) by simp
    have vis2: "set (ws_visited st2) = set (t # fin1) \<union> (set stack - {root})" using fin1(4) root by auto
    have disj: "set (t # fin1) \<inter> set stack = {}" using fin1(3) enter(2) by auto
    have "walk_ok env limits root d0 n st2"
      using visit_walk_ok [OF enter(6) entered(1)] "2.prems"(3) by simp
    from "2.IH"(4) [OF enter(1) refl enter(2,3,4,5) refl enter(6,7) this "2.prems"(3) vis2 disj layers]
    obtain fin' where fin': "layered (targets env root d0) fin'" "set (t # fin1) \<subseteq> set fin'"
      "set fin' \<inter> set stack = {}" "set (ws_visited st') = set fin' \<union> (set stack - {root})"
      "\<forall>ref\<in>set refs. \<forall>t. reference_target env path ref = Inr (Some t) \<longrightarrow> t \<in> set fin'" by blast
    have "\<forall>r\<in>set (ref # refs). \<forall>u. reference_target env path r = Inr (Some u) \<longrightarrow> u \<in> set fin'"
      using fin'(2,5) enter(1) by auto
    moreover have "set fin \<subseteq> set fin'" using fin1(2) fin'(2) by auto
    ultimately show ?thesis using fin' by blast
  qed
qed

text \<open>The stack is a path of references from the root to the document being scanned.\<close>

definition refers :: "environment \<Rightarrow> string \<Rightarrow> document \<Rightarrow> (string \<times> string) set" where
  "refers env root d0 = {(p, q). q \<in> targets env root d0 p}"

fun linked :: "('a \<times> 'a) set \<Rightarrow> 'a list \<Rightarrow> bool" where
  "linked R (x # y # xs) = ((x, y) \<in> R \<and> linked R (y # xs))"
| "linked R xs = True"

lemma linked_snoc: "linked R (xs @ [y]) \<Longrightarrow> (y, z) \<in> R \<Longrightarrow> linked R (xs @ [y, z])"
  by (induction R "xs @ [y]" arbitrary: xs rule: linked.induct) (auto simp: Cons_eq_append_conv append_eq_Cons_conv)

lemma linked_reaches: "linked R xs \<Longrightarrow> x \<in> set xs \<Longrightarrow> (x, last xs) \<in> R\<^sup>*"
  by (induction R xs arbitrary: x rule: linked.induct) (auto intro: converse_rtrancl_into_rtrancl)

definition scanning :: "environment \<Rightarrow> string \<Rightarrow> document \<Rightarrow> string \<Rightarrow> string list \<Rightarrow> string list \<Rightarrow> bool" where
  "scanning env root d0 path stack refs \<longleftrightarrow> linked (refers env root d0) stack \<and> stack \<noteq> [] \<and> last stack = path \<and>
     (\<exists>d. document_at env root d0 path = Some d \<and> set refs \<subseteq> set (iter_ref_strings (PDict d)))"

lemma scanning_refers:
  "scanning env root d0 path stack (ref # refs) \<Longrightarrow> reference_target env path ref = Inr (Some t) \<Longrightarrow>
     (path, t) \<in> refers env root d0"
  by (auto simp: scanning_def refers_def targets_def simp del: iter_ref_strings.simps)

lemma scanning_rest: "scanning env root d0 path stack (ref # refs) \<Longrightarrow> scanning env root d0 path stack refs"
  by (auto simp: scanning_def simp del: iter_ref_strings.simps)

lemma scanning_enter:
  assumes "scanning env root d0 path stack (ref # refs)" "reference_target env path ref = Inr (Some t)"
    "document_at env root d0 t = Some d"
  shows "scanning env root d0 t (stack @ [t]) (iter_ref_strings (PDict d))"
proof -
  obtain xs where xs: "stack = xs @ [path]" "linked (refers env root d0) (xs @ [path])"
    using assms(1) unfolding scanning_def by (metis append_butlast_last_id)
  have "linked (refers env root d0) (stack @ [t])"
    using linked_snoc [OF xs(2) scanning_refers [OF assms(1,2)]] xs(1) by simp
  then show ?thesis using assms(3) by (simp add: scanning_def del: iter_ref_strings.simps)
qed

text \<open>The files that a chain of at most \<open>n\<close> references leads to from the root.\<close>

definition within_hops :: "environment \<Rightarrow> string \<Rightarrow> document \<Rightarrow> nat \<Rightarrow> string set" where
  "within_hops env root d0 n = {f. \<exists>k\<le>n. (root, f) \<in> refers env root d0 ^^ k}"

lemma visit_within_hops:
  assumes "visit env limits hops path stack refs st = Inr st'" "walk_ok env limits root d0 n st" "root \<in> set stack"
    and "scanning env root d0 path stack refs" "(root, path) \<in> refers env root d0 ^^ k" "k + hops \<le> limit"
    and "set (ws_visited st) \<subseteq> within_hops env root d0 limit"
  shows "set (ws_visited st') \<subseteq> within_hops env root d0 limit"
  using assms
proof (induction env limits hops path stack refs st arbitrary: st' k rule: visit.induct)
  case (2 env limits hops path stack ref refs st)
  note rest = scanning_rest [OF "2.prems"(4)]
  from "2.prems"(1) show ?case
  proof (cases rule: visit_ConsE)
    case here
    show ?thesis using "2.IH"(1) [OF here(1) refl here(2) "2.prems"(2,3) rest "2.prems"(5-7)] .
  next
    case (seen t left)
    show ?thesis using "2.IH"(2) [OF seen(1) refl seen(2-5) "2.prems"(2,3) rest "2.prems"(5-7)] .
  next
    case (enter t left d st1 st2)
    have root: "t \<noteq> root" using enter(2) "2.prems"(3) by blast
    note entered = enter_file_ok [OF enter(5) "2.prems"(2) root enter(4)]
    have step: "(root, t) \<in> refers env root d0 ^^ Suc k"
      using scanning_refers [OF "2.prems"(4) enter(1)] "2.prems"(5) by auto
    moreover have "Suc k \<le> limit" using "2.prems"(6) enter(3) by simp
    ultimately have "t \<in> within_hops env root d0 limit" unfolding within_hops_def by blast
    then have vis1: "set (ws_visited st1) \<subseteq> within_hops env root d0 limit" using entered(2) "2.prems"(7) by simp
    have deeper: "root \<in> set (stack @ [t])" "Suc k + left \<le> limit" using "2.prems"(3,6) enter(3) by simp_all
    have vis2: "set (ws_visited st2) \<subseteq> within_hops env root d0 limit"
      using "2.IH"(3) [OF enter(1) refl enter(2-5) refl enter(6) entered(1) deeper(1)
          scanning_enter [OF "2.prems"(4) enter(1) entered(3)] step deeper(2) vis1] .
    have "walk_ok env limits root d0 n st2" by (rule visit_walk_ok [OF enter(6) entered(1) deeper(1)])
    then show ?thesis
      using "2.IH"(4) [OF enter(1) refl enter(2-5) refl enter(6,7) _ "2.prems"(3) rest "2.prems"(5,6) vis2] by blast
  qed
qed simp

lemma reference_target_fault: "reference_target env path ref = Inl (Rejected code args) \<Longrightarrow> code \<noteq> DC_REFERENCE_CYCLE_UNSUPPORTED"
  by (auto simp: reference_target_def parse_ref_uri_def reject_remote_reference_def percent_decode_path_once_def
      reject_absolute_decoded_path_def Let_def split: sum.splits option.splits if_splits list.splits char.splits bool.splits prod.splits)

lemma enter_file_fault: "enter_file env limits t st = Inl (Rejected code args) \<Longrightarrow> code \<noteq> DC_REFERENCE_CYCLE_UNSUPPORTED"
  by (auto simp: enter_file_def load_and_validate_document_def read_document_def
      split: sum.splits option.splits if_splits py.splits)

lemma visit_cycle:
  "visit env limits hops path stack refs st = Inl (Rejected DC_REFERENCE_CYCLE_UNSUPPORTED args) \<Longrightarrow>
     walk_ok env limits root d0 n st \<Longrightarrow> root \<in> set stack \<Longrightarrow> scanning env root d0 path stack refs \<Longrightarrow>
     \<exists>t. args = [t] \<and> (t, t) \<in> (refers env root d0)\<^sup>+"
proof (induction env limits hops path stack refs st rule: visit.induct)
  case (2 env limits hops path stack ref refs st)
  note rest = scanning_rest [OF "2.prems"(4)]
  obtain target where target: "reference_target env path ref = Inr target"
    using "2.prems"(1) reference_target_fault [of env path ref] by (cases "reference_target env path ref") auto
  show ?case
  proof (cases target)
    case None
    then show ?thesis using "2.IH"(1) [OF target] "2.prems"(1-3) rest target by simp
  next
    case (Some t)
    note target = target [unfolded Some]
    consider (cycle) "t \<in> set stack" | (deep) "t \<notin> set stack" "hops = 0"
      | (seen) left where "t \<notin> set stack" "hops = Suc left" "t \<in> set (ws_visited st)"
      | (fresh) left where "t \<notin> set stack" "hops = Suc left" "t \<notin> set (ws_visited st)"
      by (cases hops) blast+
    then show ?thesis
    proof cases
      case cycle
      have "(t, path) \<in> (refers env root d0)\<^sup>*"
        using linked_reaches [OF _ cycle] "2.prems"(4) unfolding scanning_def by blast
      then have "(t, t) \<in> (refers env root d0)\<^sup>+"
        using scanning_refers [OF "2.prems"(4) target] by (rule rtrancl_into_trancl1)
      moreover have "args = [t]" using "2.prems"(1) cycle target by simp
      ultimately show ?thesis by blast
    next
      case deep
      then show ?thesis using "2.prems"(1) target by simp
    next
      case (seen left)
      then show ?thesis using "2.IH"(2) [OF target refl] "2.prems"(1-3) rest target by simp
    next
      case (fresh left)
      obtain d st1 where enter: "enter_file env limits t st = Inr (d, st1)"
        using "2.prems"(1) fresh target enter_file_fault [of env limits t st]
        by (cases "enter_file env limits t st") auto
      have root: "t \<noteq> root" using fresh(1) "2.prems"(3) by blast
      note entered = enter_file_ok [OF enter "2.prems"(2) root fresh(3)]
      show ?thesis
      proof (cases "visit env limits left t (stack @ [t]) (iter_ref_strings (PDict d)) st1")
        case (Inl e)
        then have "visit env limits left t (stack @ [t]) (iter_ref_strings (PDict d)) st1 =
            Inl (Rejected DC_REFERENCE_CYCLE_UNSUPPORTED args)"
          using "2.prems"(1) fresh target enter by (simp del: iter_ref_strings.simps)
        then show ?thesis
          using "2.IH"(3) [OF target refl fresh enter refl _ entered(1) _ scanning_enter [OF "2.prems"(4) target entered(3)]]
            "2.prems"(3) by simp
      next
        case (Inr st2)
        have "walk_ok env limits root d0 n st2" using visit_walk_ok [OF Inr entered(1)] "2.prems"(3) by simp
        then show ?thesis
          using "2.IH"(4) [OF target refl fresh enter refl Inr] "2.prems"(1,3) rest fresh target enter Inr
          by (simp del: iter_ref_strings.simps)
      qed
    qed
  qed
qed simp

section \<open>Properties\<close>

lemma walk_start_ok:
  "length raw \<le> cl_max_bytes limits \<Longrightarrow>
     walk_ok env limits root d0 (length raw) \<lparr>ws_cache = new_resolution_cache root d0 raw, ws_visited = [],
       ws_entries = [], ws_total_bytes = length raw\<rparr>"
  by (auto simp: walk_ok_def cache_ok_def new_resolution_cache_def split: if_splits)

text \<open>C28: An accepted closure is complete, acyclic, contained and within its limits.  The files are
  distinct, the root is not among them, and they can be ordered so that every document, the root first,
  refers only to later files of the closure: nothing it refers to is missing and no reference leads
  back.  Each file was read from a regular file under the approved root, a chain of references no longer
  than the depth limit leads to it from the root, and the file count and the total bytes, the root's
  included, are within their limits.  (The depth limit bounds the path on which a file was first reached;
  \<open>depth_limit_depends_on_key_order\<close> below shows that a longer path to the same file may exist.)\<close>

theorem accepted_closure_sound:
  assumes "walk_transitive_closure env limits d0 root (new_resolution_cache root d0 raw) = Inr (entries, cache)"
  shows "distinct (map fst entries) \<and> root \<notin> set (map fst entries) \<and>
    length entries \<le> cl_max_files limits \<and>
    length raw + sum_list (map (\<lambda>e. length (snd e)) entries) \<le> cl_max_bytes limits \<and>
    set (map fst entries) \<subseteq> within_hops env root d0 (cl_max_depth limits) \<and>
    (\<exists>order. set order = set (map fst entries) \<and> layered (targets env root d0) (root # order)) \<and>
    (\<forall>e\<in>set entries. \<exists>real. en_resolve env (fst e) = Some real \<and> is_relative_to real (en_root_real env) \<and>
       en_is_file env real \<and> en_read_bytes env real = Some (snd e))"
proof -
  let ?st = "\<lparr>ws_cache = new_resolution_cache root d0 raw, ws_visited = [], ws_entries = [], ws_total_bytes = length raw\<rparr>"
  have raw: "length raw \<le> cl_max_bytes limits"
    using assms by (auto simp: walk_transitive_closure_def new_resolution_cache_def Let_def split: if_splits)
  then obtain st where st: "visit env limits (cl_max_depth limits) root [root] (iter_ref_strings (PDict d0)) ?st = Inr st"
    "entries = ws_entries st"
    using assms by (auto simp: walk_transitive_closure_def new_resolution_cache_def Let_def
        simp del: iter_ref_strings.simps split: if_splits sum.splits)
  note start = walk_start_ok [OF raw, of env root d0]
  have ok: "walk_ok env limits root d0 (length raw) st" using visit_walk_ok [OF st(1) start] by simp
  obtain order where order: "layered (targets env root d0) order" "set order \<inter> set [root] = {}"
    "set (ws_visited st) = set order \<union> (set [root] - {root})"
    "\<forall>ref\<in>set (iter_ref_strings (PDict d0)). \<forall>t. reference_target env root ref = Inr (Some t) \<longrightarrow> t \<in> set order"
    using visit_layers [OF st(1) start, of "[]"] by auto
  have "targets env root d0 root \<subseteq> set order"
    using order(4) by (auto simp: targets_def document_at_def simp del: iter_ref_strings.simps)
  then have "layered (targets env root d0) (root # order)" using order(1,2) by simp
  moreover have "set order = set (map fst entries)" using order(3) ok st(2) by (simp add: walk_ok_def)
  moreover have "\<exists>real. en_resolve env (fst e) = Some real \<and> is_relative_to real (en_root_real env) \<and>
       en_is_file env real \<and> en_read_bytes env real = Some (snd e)" if e: "e \<in> set entries" for e
  proof -
    obtain d where "read_document env (fst e) = Inr (d, snd e)"
      using walk_ok_read [OF ok e [unfolded st(2)]] by (elim exE)
    then show ?thesis by (rule read_documentD)
  qed
  moreover have "set (map fst entries) \<subseteq> within_hops env root d0 (cl_max_depth limits)"
  proof -
    have "scanning env root d0 root [root] (iter_ref_strings (PDict d0))"
      by (simp add: scanning_def document_at_def del: iter_ref_strings.simps)
    from visit_within_hops [OF st(1) start _ this, of 0 "cl_max_depth limits"]
    have "set (ws_visited st) \<subseteq> within_hops env root d0 (cl_max_depth limits)" by simp
    then show ?thesis using ok st(2) by (simp add: walk_ok_def)
  qed
  moreover have "distinct (map fst entries)" "root \<notin> set (map fst entries)"
    "length entries \<le> cl_max_files limits"
    "length raw + sum_list (map (\<lambda>e. length (snd e)) entries) \<le> cl_max_bytes limits"
    unfolding st(2) by (fact walk_ok_bounds [OF ok])+
  ultimately show ?thesis by blast
qed

text \<open>C29: A source is rejected for a reference cycle only when its documents really refer to one
  another in a cycle through the file the diagnostic names.\<close>

theorem reported_cycle_is_real:
  assumes "walk_transitive_closure env limits d0 root (new_resolution_cache root d0 raw) =
    Inl (Rejected DC_REFERENCE_CYCLE_UNSUPPORTED args)"
  shows "\<exists>t. args = [t] \<and> (t, t) \<in> (refers env root d0)\<^sup>+"
proof -
  let ?st = "\<lparr>ws_cache = new_resolution_cache root d0 raw, ws_visited = [], ws_entries = [], ws_total_bytes = length raw\<rparr>"
  have raw: "length raw \<le> cl_max_bytes limits" and
    visit: "visit env limits (cl_max_depth limits) root [root] (iter_ref_strings (PDict d0)) ?st =
      Inl (Rejected DC_REFERENCE_CYCLE_UNSUPPORTED args)"
    using assms by (auto simp: walk_transitive_closure_def new_resolution_cache_def Let_def
        simp del: iter_ref_strings.simps split: if_splits sum.splits)
  have "scanning env root d0 root [root] (iter_ref_strings (PDict d0))"
    by (simp add: scanning_def document_at_def del: iter_ref_strings.simps)
  then show ?thesis using visit_cycle [OF visit walk_start_ok [OF raw]] by simp
qed

section \<open>Concrete documents\<close>

text \<open>A file's bytes are looked up in a table; the parsed documents hold one or two references.\<close>

definition ref_item :: "string \<Rightarrow> string \<Rightarrow> py \<times> py" where
  "ref_item key target = (PStr key, PDict [(PStr ''$ref'', PStr target)])"

definition ex_files :: "string \<Rightarrow> py option" where
  "ex_files = [''a'' \<mapsto> PDict [ref_item ''x'' ''d''], ''d'' \<mapsto> PDict [ref_item ''x'' ''e''], ''e'' \<mapsto> PDict [],
     ''p'' \<mapsto> PDict [ref_item ''x'' ''q''], ''q'' \<mapsto> PDict [ref_item ''x'' ''./p'']]"

definition ex_environment :: environment where
  "ex_environment = \<lparr>en_root_real = [''srv''], en_resolve = (\<lambda>p. Some [''srv'', p]),
     en_is_file = (\<lambda>real. ex_files (last real) \<noteq> None), en_read_bytes = (\<lambda>real. Some (last real)),
     en_yaml = ex_files, en_isoformat = (\<lambda>_. None), en_netloc_rejected = (\<lambda>_. False), en_digit_token = (\<lambda>_. None)\<rparr>"

definition hop_limit :: "nat \<Rightarrow> closure_limits" where
  "hop_limit n = \<lparr>cl_max_depth = n, cl_max_files = 4, cl_max_bytes = 16\<rparr>"

lemma fault_cases:
  obtains c a where "x = Inl (Rejected c a)" | e where "x = Inl (Uncaught e)" | u v where "x = Inr (u, v)"
  by (cases x; cases "projl x"; cases "projr x") auto

lemma ex_accepted:
  "\<exists>entries cache. walk_transitive_closure ex_environment (hop_limit 3) [ref_item ''x'' ''a''] ''root.yaml''
     (new_resolution_cache ''root.yaml'' [ref_item ''x'' ''a''] ''raw'') = Inr (entries, cache) \<and> map fst entries = [''a'', ''d'', ''e'']"
proof -
  let ?w = "walk_transitive_closure ex_environment (hop_limit 3) [ref_item ''x'' ''a''] ''root.yaml''
     (new_resolution_cache ''root.yaml'' [ref_item ''x'' ''a''] ''raw'')"
  have "case ?w of Inl _ \<Rightarrow> False | Inr (entries, _) \<Rightarrow> map fst entries = [''a'', ''d'', ''e'']" by code_simp
  then show ?thesis by (cases ?w) auto
qed

theorem accepted_closure_sound_witness:
  "\<exists>order. set order = {''a'', ''d'', ''e''} \<and>
     layered (targets ex_environment ''root.yaml'' [ref_item ''x'' ''a'']) (''root.yaml'' # order)"
proof -
  obtain entries cache where walk: "walk_transitive_closure ex_environment (hop_limit 3) [ref_item ''x'' ''a''] ''root.yaml''
     (new_resolution_cache ''root.yaml'' [ref_item ''x'' ''a''] ''raw'') = Inr (entries, cache)"
    "map fst entries = [''a'', ''d'', ''e'']" using ex_accepted by (elim exE conjE)
  show ?thesis using accepted_closure_sound [OF walk(1)] unfolding walk(2) by auto
qed

theorem reported_cycle_is_real_witness:
  "(''p'', ''p'') \<in> (refers ex_environment ''root.yaml'' [ref_item ''x'' ''p''])\<^sup>+"
proof -
  let ?w = "walk_transitive_closure ex_environment (hop_limit 3) [ref_item ''x'' ''p''] ''root.yaml''
     (new_resolution_cache ''root.yaml'' [ref_item ''x'' ''p''] ''raw'')"
  have "case ?w of Inl (Rejected c a) \<Rightarrow> c = DC_REFERENCE_CYCLE_UNSUPPORTED \<and> a = [''p''] | _ \<Rightarrow> False" by code_simp
  then have "?w = Inl (Rejected DC_REFERENCE_CYCLE_UNSUPPORTED [''p''])"
    by (cases ?w rule: fault_cases) auto
  from reported_cycle_is_real [OF this] show ?thesis by simp
qed

text \<open>The depth limit depends on the order of keys.  A file first reached by a short path is
  not walked again from a longer one, so of two documents with the same items in another order one is
  accepted and the other, whose longer path comes first, is rejected.\<close>

theorem depth_limit_depends_on_key_order:
  "(\<exists>entries cache. walk_transitive_closure ex_environment (hop_limit 2) [ref_item ''x'' ''d'', ref_item ''y'' ''a''] ''root.yaml''
      (new_resolution_cache ''root.yaml'' [ref_item ''x'' ''d'', ref_item ''y'' ''a''] ''raw'') = Inr (entries, cache)) \<and>
   walk_transitive_closure ex_environment (hop_limit 2) [ref_item ''y'' ''a'', ref_item ''x'' ''d''] ''root.yaml''
      (new_resolution_cache ''root.yaml'' [ref_item ''y'' ''a'', ref_item ''x'' ''d''] ''raw'') =
     Inl (Rejected DC_REFERENCE_LIMIT_EXCEEDED [''2''])"
proof
  let ?d = "[ref_item ''x'' ''d'', ref_item ''y'' ''a'']"
  let ?e = "[ref_item ''y'' ''a'', ref_item ''x'' ''d'']"
  let ?wd = "walk_transitive_closure ex_environment (hop_limit 2) ?d ''root.yaml'' (new_resolution_cache ''root.yaml'' ?d ''raw'')"
  let ?we = "walk_transitive_closure ex_environment (hop_limit 2) ?e ''root.yaml'' (new_resolution_cache ''root.yaml'' ?e ''raw'')"
  have "case ?wd of Inl _ \<Rightarrow> False | Inr _ \<Rightarrow> True" by code_simp
  then show "\<exists>entries cache. walk_transitive_closure ex_environment (hop_limit 2) ?d ''root.yaml''
      (new_resolution_cache ''root.yaml'' ?d ''raw'') = Inr (entries, cache)"
    by (cases ?wd rule: fault_cases) auto
  have "case ?we of Inl (Rejected c a) \<Rightarrow> c = DC_REFERENCE_LIMIT_EXCEEDED \<and> a = [''2''] | _ \<Rightarrow> False" by code_simp
  then show "walk_transitive_closure ex_environment (hop_limit 2) ?e ''root.yaml''
      (new_resolution_cache ''root.yaml'' ?e ''raw'') = Inl (Rejected DC_REFERENCE_LIMIT_EXCEEDED [''2''])"
    by (cases ?we rule: fault_cases) auto
qed

text \<open>A reference with an unbalanced bracket in its authority is not rejected: the ValueError of
  \<open>urlsplit\<close> escapes the closure enforcement of the adapter, whatever the environment.\<close>

theorem bracketed_reference_raises:
  "enforce_reference_closure env [(PStr ''$ref'', PStr ''//['')] root
     (new_resolution_cache root [(PStr ''$ref'', PStr ''//['')] []) pointer = Inl ''ValueError''"
proof -
  have "parse_ref_uri env ''//['' = Inl (Uncaught ''ValueError'')"
    by (simp add: parse_ref_uri_def split_scheme_def split_first_def split_netloc_def unsafe_url_char_def)
  then show ?thesis
    by (simp add: enforce_reference_closure_def walk_transitive_closure_def new_resolution_cache_def reference_target_def)
qed

end
