(* ===== verification/TelemetryModel.thy ===== *)
theory TelemetryModel
  imports TextValues ScopedEvidence CorrelationBuffer
begin

text \<open>
  \<open>telemetry/model.py\<close>, \<open>service_resolver.py\<close>, \<open>operation_resolver.py\<close>, \<open>scoped_attribution.py\<close>,
  \<open>runtime_identity.py\<close> and the id formulas of \<open>canonical/ids.py\<close> they use.  A timestamp is the
  microseconds since 1970 of an aware datetime.  A span attribute is what the OTLP receiver decodes:
  absent or null, a string, bytes, or another value with its \<open>str\<close>, its truth value and whether it can
  be hashed.  SHA-256 is the parameter \<open>H\<close>; an exception is a \<open>telemetry_fault\<close>.
\<close>

datatype telemetry_fault = AttributeError | TypeError | ValidationError | AssertionError

datatype attribute_value = ANone | AStr string | ABytes string | AOther string bool bool

fun attribute_truth :: "attribute_value \<Rightarrow> bool" where
  "attribute_truth ANone = False"
| "attribute_truth (AStr s) = (s \<noteq> [])"
| "attribute_truth (ABytes s) = (s \<noteq> [])"
| "attribute_truth (AOther s b h) = b"

definition attribute_or :: "attribute_value \<Rightarrow> attribute_value \<Rightarrow> attribute_value" where
  "attribute_or a b = (if attribute_truth a then a else b)"

text \<open>An f-string field.\<close>

fun attribute_text :: "text_library \<Rightarrow> attribute_value \<Rightarrow> string" where
  "attribute_text U ANone = ''None''"
| "attribute_text U (AStr s) = s"
| "attribute_text U (ABytes s) = tx_bytes_repr U s"
| "attribute_text U (AOther s b h) = s"

text \<open>\<open>value.upper()\<close>: strings and bytes have the method.\<close>

fun attribute_upper :: "text_library \<Rightarrow> attribute_value \<Rightarrow> telemetry_fault + attribute_value" where
  "attribute_upper U (AStr s) = Inr (AStr (py_upper U s))"
| "attribute_upper U (ABytes s) = Inr (ABytes (map upper_char s))"
| "attribute_upper U _ = Inl AttributeError"

text \<open>A pydantic \<open>str | None\<close> field: bytes are decoded as UTF-8, other types are rejected.\<close>

fun pydantic_str :: "attribute_value \<Rightarrow> telemetry_fault + string option" where
  "pydantic_str ANone = Inr None"
| "pydantic_str (AStr s) = Inr (Some s)"
| "pydantic_str (ABytes s) = (if utf8_valid s then Inr (Some s) else Inl ValidationError)"
| "pydantic_str (AOther s b h) = Inl ValidationError"

definition str_true :: "string option \<Rightarrow> bool" where
  "str_true x = (case x of None \<Rightarrow> False | Some s \<Rightarrow> s \<noteq> [])"

section \<open>Spans\<close>

record runtime_span =
  sp_trace_id :: string
  sp_span_id :: string
  sp_parent_span_id :: "string option"
  sp_span_name :: string
  sp_span_kind :: string
  sp_service_name :: string
  sp_service_namespace :: "string option"
  sp_service_version :: "string option"
  sp_service_instance_id :: "string option"
  sp_environment :: "string option"
  sp_k8s_pod_uid :: "string option"
  sp_k8s_pod_name :: "string option"
  sp_k8s_namespace_name :: "string option"
  sp_k8s_cluster_uid :: "string option"
  sp_k8s_deployment_name :: "string option"
  sp_k8s_statefulset_name :: "string option"
  sp_k8s_daemonset_name :: "string option"
  sp_start_time :: int
  sp_end_time :: int
  sp_attributes :: "(string \<times> attribute_value) list"

definition attribute :: "string \<Rightarrow> runtime_span \<Rightarrow> attribute_value" where
  "attribute key span = (case map_of (sp_attributes span) key of None \<Rightarrow> ANone | Some v \<Rightarrow> v)"

definition microseconds_per_day :: int where
  "microseconds_per_day = 86400000000"

definition day_of :: "int \<Rightarrow> int" where
  "day_of t = t div microseconds_per_day"

definition day_bucket :: "int \<Rightarrow> int \<times> int" where
  "day_bucket t = (day_of t * microseconds_per_day, (day_of t + 1) * microseconds_per_day)"

lemma day_bucket_contains: "day_bucket t = (a, b) \<Longrightarrow> a \<le> t \<and> t < b"
proof -
  assume "day_bucket t = (a, b)"
  then have "a = t div microseconds_per_day * microseconds_per_day" "b = (t div microseconds_per_day + 1) * microseconds_per_day"
    by (auto simp: day_bucket_def day_of_def)
  then show ?thesis unfolding microseconds_per_day_def by presburger
qed

section \<open>Ids\<close>

definition service_id :: "string \<Rightarrow> string option \<Rightarrow> string" where
  "service_id slug namespace =
     (if str_true namespace then ''service:'' @ the namespace @ '':'' @ slug else ''service:'' @ slug)"

definition operation_id :: "string \<Rightarrow> string \<Rightarrow> string \<Rightarrow> string" where
  "operation_id service method path = ''operation:'' @ service @ '':'' @ method @ '':'' @ path"

definition observed_evidence_id :: "(string \<Rightarrow> string) \<Rightarrow> string \<Rightarrow> int \<Rightarrow> string \<Rightarrow> string \<Rightarrow> string \<Rightarrow> string" where
  "observed_evidence_id H environment bucket_start subject relation_type object_id =
     ''evidence:otel:'' @ environment @ '':'' @ iso_day (day_of bucket_start) @ '':'' @
     take 12 (H (subject @ ''|'' @ relation_type @ ''|'' @ object_id))"

definition runtime_identity_observation_id ::
  "(string \<Rightarrow> string) \<Rightarrow> string \<Rightarrow> int \<Rightarrow> string \<Rightarrow> string option \<Rightarrow> string \<Rightarrow> string" where
  "runtime_identity_observation_id H environment bucket_start service_name namespace pod_uid =
     ''runtime-identity:otel:'' @ environment @ '':'' @ iso_day (day_of bucket_start) @ '':'' @
     take 12 (H (service_name @ ''|'' @ (case namespace of None \<Rightarrow> [] | Some n \<Rightarrow> n) @ ''|'' @ pod_uid))"

section \<open>Resolving services and operations\<close>

datatype discovery_status = DECLARED | OBSERVED_ONLY

text \<open>A declared Service, Queue or Topic candidate.\<close>

record declared_candidate =
  dc_id :: string
  dc_name :: string
  dc_namespace :: "string option"

record declared_operation_candidate =
  do_id :: string
  do_provider_service_id :: string
  do_method :: string
  do_path :: string

type_synonym aliases = "(string \<times> string) list"

definition slug_char :: "char \<Rightarrow> bool" where
  "slug_char c = ((CHR ''a'' \<le> c \<and> c \<le> CHR ''z'') \<or> ascii_digit c)"

definition slugify :: "text_library \<Rightarrow> string \<Rightarrow> string" where
  "slugify U name = strip_chars (\<lambda>c. c = CHR ''-'') (collapse_runs (\<lambda>c. \<not> slug_char c) (CHR ''-'') (py_lower U name))"

definition resolve_service :: "text_library \<Rightarrow> declared_candidate list \<Rightarrow> string \<Rightarrow> string option \<Rightarrow> aliases
     \<Rightarrow> string \<times> discovery_status" where
  "resolve_service U candidates service_name service_namespace aliases =
     (let tier1 = (if service_namespace = None then []
            else filter (\<lambda>c. dc_namespace c = service_namespace \<and> dc_name c = service_name) candidates);
          tier2 = filter (\<lambda>c. dc_name c = service_name) candidates in
      if length tier1 = 1 then (dc_id (hd tier1), DECLARED)
      else if length tier2 = 1 then (dc_id (hd tier2), DECLARED)
      else (case map_of aliases service_name of
          Some target \<Rightarrow> (target, DECLARED)
        | None \<Rightarrow> (service_id (slugify U service_name) service_namespace, OBSERVED_ONLY)))"

definition resolve_runtime_span ::
  "text_library \<Rightarrow> declared_candidate list \<Rightarrow> runtime_span \<Rightarrow> aliases \<Rightarrow> string \<times> discovery_status" where
  "resolve_runtime_span U candidates span aliases =
     resolve_service U candidates (sp_service_name span) (sp_service_namespace span) aliases"

text \<open>\<open>Inr None\<close> is the unresolved operation of a missing route.\<close>

definition resolve_operation :: "text_library \<Rightarrow> declared_operation_candidate list \<Rightarrow> string \<Rightarrow> attribute_value
     \<Rightarrow> attribute_value \<Rightarrow> telemetry_fault + (string \<times> discovery_status) option" where
  "resolve_operation U candidates provider method route =
     (if \<not> attribute_truth route then Inr None
      else (case attribute_upper U method of Inl e \<Rightarrow> Inl e
        | Inr normalized \<Rightarrow>
            (case find (\<lambda>c. do_provider_service_id c = provider \<and> AStr (py_upper U (do_method c)) = normalized \<and>
                AStr (do_path c) = route) candidates of
               Some c \<Rightarrow> Inr (Some (do_id c, DECLARED))
             | None \<Rightarrow>
                 Inr (Some (operation_id provider
                   (case normalized of AStr s \<Rightarrow> py_upper U s | ABytes s \<Rightarrow> tx_bytes_repr U (map upper_char s) | v \<Rightarrow> attribute_text U v)
                   (attribute_text U route), OBSERVED_ONLY)))))"

section \<open>Caller attribution at ingestion\<close>

datatype locality_disposition = APPLICABLE | INAPPLICABLE | INSUFFICIENT_EVIDENCE | UNRESOLVED | AMBIGUOUS | CONFLICT | UNSUPPORTED

datatype ingress_reason =
    CLIENT_IDENTITY_MISSING | SERVER_ONLY_NO_CLIENT | CLIENT_INTERNAL_CONFLICT | CLIENT_FACT_ENVIRONMENT_MISMATCH
  | CLIENT_FACT_DAY_MISMATCH | CLUSTER_UID_MISSING | POD_UID_MISSING

fun reason_code :: "ingress_reason \<Rightarrow> string" where
  "reason_code CLIENT_IDENTITY_MISSING = ''LOCALITY_CLIENT_IDENTITY_MISSING''"
| "reason_code SERVER_ONLY_NO_CLIENT = ''LOCALITY_SERVER_ONLY_NO_CLIENT''"
| "reason_code CLIENT_INTERNAL_CONFLICT = ''LOCALITY_CLIENT_INTERNAL_CONFLICT''"
| "reason_code CLIENT_FACT_ENVIRONMENT_MISMATCH = ''LOCALITY_CLIENT_FACT_ENVIRONMENT_MISMATCH''"
| "reason_code CLIENT_FACT_DAY_MISMATCH = ''LOCALITY_CLIENT_FACT_DAY_MISMATCH''"
| "reason_code CLUSTER_UID_MISSING = ''LOCALITY_CLUSTER_UID_MISSING''"
| "reason_code POD_UID_MISSING = ''LOCALITY_POD_UID_MISSING''"

text \<open>Reasons are compared by their codes, as the source sorts them.\<close>

instantiation ingress_reason :: linorder
begin

definition less_eq_ingress_reason :: "ingress_reason \<Rightarrow> ingress_reason \<Rightarrow> bool" where
  "less_eq_ingress_reason a b = (reason_code a \<le> reason_code b)"

definition less_ingress_reason :: "ingress_reason \<Rightarrow> ingress_reason \<Rightarrow> bool" where
  "less_ingress_reason a b = (reason_code a < reason_code b)"

instance
proof
  fix a b c :: ingress_reason
  have inj: "reason_code a = reason_code b \<Longrightarrow> a = b" by (cases a; cases b) simp_all
  show "a < b \<longleftrightarrow> a \<le> b \<and> \<not> b \<le> a"
    unfolding less_eq_ingress_reason_def less_ingress_reason_def by (rule less_le_not_le)
  show "a \<le> a" unfolding less_eq_ingress_reason_def by (rule order_refl)
  show "a \<le> b \<or> b \<le> a" unfolding less_eq_ingress_reason_def by (rule linear)
  show "a \<le> b \<Longrightarrow> b \<le> c \<Longrightarrow> a \<le> c" unfolding less_eq_ingress_reason_def by (rule order_trans)
  show "a \<le> b \<Longrightarrow> b \<le> a \<Longrightarrow> a = b" unfolding less_eq_ingress_reason_def by (rule inj, rule order_antisym)
qed

end

fun reason_disposition :: "ingress_reason \<Rightarrow> locality_disposition" where
  "reason_disposition CLIENT_FACT_ENVIRONMENT_MISMATCH = INAPPLICABLE"
| "reason_disposition CLIENT_FACT_DAY_MISMATCH = INAPPLICABLE"
| "reason_disposition CLIENT_INTERNAL_CONFLICT = CONFLICT"
| "reason_disposition _ = INSUFFICIENT_EVIDENCE"

definition disposition_precedence :: "locality_disposition list" where
  "disposition_precedence = [CONFLICT, AMBIGUOUS, INAPPLICABLE, UNRESOLVED, INSUFFICIENT_EVIDENCE]"

definition admissible :: "string option \<Rightarrow> string option" where
  "admissible v = (if str_true v then v else None)"

record client_carrier =
  cc_environment :: "string option"
  cc_pod_uid :: "string option"
  cc_cluster_uid :: "string option"
  cc_end_time :: int
  cc_namespace :: "string option"
  cc_pod_name :: "string option"
  cc_deployment_name :: "string option"
  cc_statefulset_name :: "string option"
  cc_daemonset_name :: "string option"

definition carrier_of_span :: "runtime_span \<Rightarrow> client_carrier" where
  "carrier_of_span s = \<lparr>cc_environment = admissible (sp_environment s), cc_pod_uid = admissible (sp_k8s_pod_uid s),
     cc_cluster_uid = admissible (sp_k8s_cluster_uid s), cc_end_time = sp_end_time s,
     cc_namespace = admissible (sp_k8s_namespace_name s), cc_pod_name = admissible (sp_k8s_pod_name s),
     cc_deployment_name = admissible (sp_k8s_deployment_name s), cc_statefulset_name = admissible (sp_k8s_statefulset_name s),
     cc_daemonset_name = admissible (sp_k8s_daemonset_name s)\<rparr>"

definition carrier_of_pending :: "pending_http_span \<Rightarrow> client_carrier" where
  "carrier_of_pending s = \<lparr>cc_environment = admissible (ps_environment s), cc_pod_uid = admissible (ps_k8s_pod_uid s),
     cc_cluster_uid = admissible (ps_k8s_cluster_uid s), cc_end_time = ps_timestamp s,
     cc_namespace = admissible (ps_k8s_namespace_name s), cc_pod_name = admissible (ps_k8s_pod_name s),
     cc_deployment_name = admissible (ps_k8s_deployment_name s), cc_statefulset_name = admissible (ps_k8s_statefulset_name s),
     cc_daemonset_name = admissible (ps_k8s_daemonset_name s)\<rparr>"

record scoped_ingress_refusal =
  sr_trace_id :: string
  sr_environment :: "string option"
  sr_bucket_utc_day :: string
  sr_disposition :: locality_disposition
  sr_reasons :: "ingress_reason list"
  sr_v1_unchanged :: bool

definition primary_disposition :: "ingress_reason list \<Rightarrow> locality_disposition option" where
  "primary_disposition reasons = find (\<lambda>d. d \<in> set (map reason_disposition reasons)) disposition_precedence"

text \<open>\<open>min\<close> of the reasons of the refusal's disposition; \<open>None\<close> is the ValueError of an empty \<open>min\<close>.\<close>

definition primary_cause :: "scoped_ingress_refusal \<Rightarrow> ingress_reason option" where
  "primary_cause r = (case filter (\<lambda>x. reason_disposition x = sr_disposition r) (sr_reasons r) of
     [] \<Rightarrow> None | xs \<Rightarrow> Some (Min (set xs)))"

definition carrier_reasons :: "client_carrier \<Rightarrow> string \<Rightarrow> int \<Rightarrow> ingress_reason list" where
  "carrier_reasons c fact_environment fact_timestamp =
     (case cc_environment c of None \<Rightarrow> [CLIENT_IDENTITY_MISSING]
        | Some e \<Rightarrow> if e \<noteq> fact_environment then [CLIENT_FACT_ENVIRONMENT_MISMATCH] else []) @
     (if cc_pod_uid c = None then [POD_UID_MISSING] else []) @
     (if cc_cluster_uid c = None then [CLUSTER_UID_MISSING] else []) @
     (if day_of (cc_end_time c) \<noteq> day_of fact_timestamp then [CLIENT_FACT_DAY_MISMATCH] else []) @
     (if length (somes [cc_deployment_name c, cc_statefulset_name c, cc_daemonset_name c]) > 1
      then [CLIENT_INTERNAL_CONFLICT] else [])"

fun carrier_name :: "client_carrier \<Rightarrow> consistency_field \<Rightarrow> string option" where
  "carrier_name c K8S_NAMESPACE_NAME = cc_namespace c"
| "carrier_name c K8S_POD_NAME = cc_pod_name c"
| "carrier_name c K8S_DEPLOYMENT_NAME = cc_deployment_name c"
| "carrier_name c K8S_STATEFULSET_NAME = cc_statefulset_name c"
| "carrier_name c K8S_DAEMONSET_NAME = cc_daemonset_name c"

definition normalization_rule_id :: string where
  "normalization_rule_id = ''otel-client-caller-attribution''"

definition normalization_rule_version :: int where
  "normalization_rule_version = 1"

definition evaluate_scoped_ingress :: "string \<Rightarrow> string \<Rightarrow> string \<Rightarrow> int \<Rightarrow> string \<Rightarrow> correlation_mode \<Rightarrow> client_carrier option
     \<Rightarrow> scoped_ingress_refusal + scoped_call_seed" where
  "evaluate_scoped_ingress subject object_id fact_environment fact_timestamp trace_id mode carrier =
     (let day = iso_day (day_of fact_timestamp) in
      case carrier of
        None \<Rightarrow> Inl \<lparr>sr_trace_id = trace_id, sr_environment = Some fact_environment, sr_bucket_utc_day = day,
          sr_disposition = INSUFFICIENT_EVIDENCE, sr_reasons = [CLIENT_IDENTITY_MISSING], sr_v1_unchanged = True\<rparr>
      | Some c \<Rightarrow>
          (let reasons = carrier_reasons c fact_environment fact_timestamp in
           if reasons \<noteq> [] then
             Inl \<lparr>sr_trace_id = trace_id, sr_environment = Some fact_environment, sr_bucket_utc_day = day,
               sr_disposition = the (primary_disposition reasons), sr_reasons = sorted_set reasons, sr_v1_unchanged = True\<rparr>
           else Inr \<lparr>sd_key = (fact_environment, day, subject, object_id, the (cc_cluster_uid c), the (cc_pod_uid c)),
             sd_fact_timestamp = fact_timestamp, sd_trace_id = trace_id, sd_correlation_mode = mode,
             sd_names = carrier_name c, sd_rule_id = normalization_rule_id, sd_rule_version = normalization_rule_version\<rparr>))"

definition server_only_refusal :: "string \<Rightarrow> string option \<Rightarrow> int \<Rightarrow> scoped_ingress_refusal" where
  "server_only_refusal trace_id environment timestamp =
     \<lparr>sr_trace_id = trace_id, sr_environment = environment, sr_bucket_utc_day = iso_day (day_of timestamp),
      sr_disposition = INSUFFICIENT_EVIDENCE, sr_reasons = [SERVER_ONLY_NO_CLIENT], sr_v1_unchanged = False\<rparr>"

section \<open>Runtime identities\<close>

definition identity_attributes :: "runtime_span \<Rightarrow> (string \<times> string option) list" where
  "identity_attributes s = [(''service_name'', Some (sp_service_name s)), (''service_namespace'', sp_service_namespace s),
     (''service_version'', sp_service_version s), (''environment'', sp_environment s), (''k8s_pod_uid'', sp_k8s_pod_uid s),
     (''k8s_pod_name'', sp_k8s_pod_name s), (''k8s_namespace_name'', sp_k8s_namespace_name s),
     (''k8s_cluster_uid'', sp_k8s_cluster_uid s), (''k8s_deployment_name'', sp_k8s_deployment_name s),
     (''k8s_statefulset_name'', sp_k8s_statefulset_name s), (''k8s_daemonset_name'', sp_k8s_daemonset_name s)]"

definition identity_observation :: "(string \<Rightarrow> string) \<Rightarrow> runtime_span \<Rightarrow> runtime_identity_observation option" where
  "identity_observation H s =
     (if sp_service_name s \<noteq> [] \<and> str_true (sp_k8s_pod_uid s) \<and> str_true (sp_environment s) then
        Some \<lparr>ri_id = runtime_identity_observation_id H (the (sp_environment s)) (fst (day_bucket (sp_end_time s)))
            (sp_service_name s) (sp_service_namespace s) (the (sp_k8s_pod_uid s)),
          ri_attributes = (\<lambda>f. case map_of (identity_attributes s) f of None \<Rightarrow> None | Some v \<Rightarrow> v),
          ri_first_seen = sp_end_time s, ri_last_seen = sp_end_time s, ri_observation_count = 1, ri_conflicts = []\<rparr>
      else None)"

definition extract_runtime_identity_observations ::
  "(string \<Rightarrow> string) \<Rightarrow> runtime_span list \<Rightarrow> runtime_identity_observation list" where
  "extract_runtime_identity_observations H spans = somes (map (identity_observation H) spans)"

section \<open>Lemmas\<close>

lemma resolve_service_declared:
  assumes "resolve_service U candidates name namespace aliases = (i, DECLARED)"
  shows "i \<in> dc_id ` set candidates \<or> i \<in> snd ` set aliases"
proof -
  have pick: "dc_id (hd xs) \<in> dc_id ` set candidates" if "length xs = 1" "set xs \<subseteq> set candidates" for xs
    using that by (metis One_nat_def hd_in_set imageI length_0_conv nat.distinct(1) subsetD)
  have sub1: "set (if namespace = None then [] else filter (\<lambda>c. dc_namespace c = namespace \<and> dc_name c = name) candidates)
      \<subseteq> set candidates" and sub2: "set (filter (\<lambda>c. dc_name c = name) candidates) \<subseteq> set candidates" by auto
  show ?thesis
    using assms pick [OF _ sub1] pick [OF _ sub2] unfolding resolve_service_def Let_def
    by (auto split: if_splits option.splits dest: map_of_SomeD simp: rev_image_eqI)
qed

lemma resolve_operation_declared:
  "resolve_operation U candidates provider method route = Inr (Some (i, DECLARED)) \<Longrightarrow> i \<in> do_id ` set candidates"
  by (auto simp: resolve_operation_def find_Some_iff split: if_splits sum.splits option.splits)

lemma carrier_reasons_sides:
  "carrier_reasons c e t = [] \<Longrightarrow> cc_pod_uid c \<noteq> None \<and> cc_cluster_uid c \<noteq> None \<and> cc_environment c = Some e \<and>
     day_of (cc_end_time c) = day_of t"
  by (auto simp: carrier_reasons_def split: option.splits if_splits)

text \<open>A refusal has a primary cause.\<close>

lemma primary_disposition_mem:
  "reasons \<noteq> [] \<Longrightarrow> \<exists>d. primary_disposition reasons = Some d \<and> d \<in> set (map reason_disposition reasons)"
proof -
  assume "reasons \<noteq> []"
  then obtain r where r: "r \<in> set reasons" by (cases reasons) auto
  have "reason_disposition r \<in> set disposition_precedence" by (cases r) (simp_all add: disposition_precedence_def)
  then have "primary_disposition reasons \<noteq> None" using r by (auto simp: primary_disposition_def find_None_iff)
  then obtain d where d: "primary_disposition reasons = Some d" by auto
  then have "d \<in> set (map reason_disposition reasons)" unfolding primary_disposition_def by (simp add: find_Some_iff) blast
  then show ?thesis using d by blast
qed

lemma primary_cause_exists:
  "list_ex (\<lambda>x. reason_disposition x = sr_disposition r) (sr_reasons r) \<Longrightarrow> primary_cause r \<noteq> None"
  by (auto simp: primary_cause_def list_ex_iff filter_empty_conv split: list.splits)

lemma ingress_refusal_caused:
  assumes "evaluate_scoped_ingress s ob e t trace mode carrier = Inl r"
  shows "primary_cause r \<noteq> None"
proof (cases carrier)
  case None
  then have "sr_reasons r = [CLIENT_IDENTITY_MISSING]" "sr_disposition r = INSUFFICIENT_EVIDENCE"
    using assms by (auto simp: evaluate_scoped_ingress_def Let_def)
  then show ?thesis by (intro primary_cause_exists) simp
next
  case (Some c)
  let ?reasons = "carrier_reasons c e t"
  have ne: "?reasons \<noteq> []" using assms Some by (simp add: evaluate_scoped_ingress_def Let_def split: if_splits)
  have r: "sr_reasons r = sorted_set ?reasons" "sr_disposition r = the (primary_disposition ?reasons)"
    using assms Some ne by (auto simp: evaluate_scoped_ingress_def Let_def)
  show ?thesis using primary_disposition_mem [OF ne] by (intro primary_cause_exists) (auto simp: r list_ex_iff)
qed

lemma server_only_caused: "primary_cause (server_only_refusal t e s) \<noteq> None"
  by (simp add: primary_cause_def server_only_refusal_def)

end
