(* ===== verification/MessagingGuards.thy ===== *)
theory MessagingGuards
  imports TelemetryModel
begin

text \<open>
  \<open>telemetry/messaging_guards.py\<close>: the destination and service-identity guards of the messaging path.
  An \<open>Inl\<close> decision is a refusal with its reason code.  The pair \<open>("declared" | "none" | "ambiguous" |
  "conflicting", id)\<close> of the matchers is the datatype \<open>match_kind\<close>.
\<close>

abbreviation "UNSUPPORTED_DESTINATION_SEMANTICS \<equiv> ''unsupported_destination_semantics''"
abbreviation "UNRESOLVED_DESTINATION_SEMANTICS \<equiv> ''unresolved_destination_semantics''"
abbreviation "AMBIGUOUS_DESTINATION_IDENTITY \<equiv> ''ambiguous_destination_identity''"
abbreviation "PLACEHOLDER_SERVICE_IDENTITY \<equiv> ''placeholder_service_identity''"
abbreviation "AMBIGUOUS_SERVICE_IDENTITY \<equiv> ''ambiguous_service_identity''"
abbreviation "CONFLICTING_SERVICE_IDENTITY \<equiv> ''conflicting_service_identity''"

datatype match_kind = MatchDeclared string | MatchNone | MatchAmbiguous | MatchConflicting

section \<open>Destinations\<close>

datatype kind_state = KindQueue | KindUnsupported | KindMalformed | KindAbsent

definition unsupported_kinds :: "string list" where
  "unsupported_kinds = [''topic'', ''subscription'', ''pubsub'', ''publish-subscribe'', ''fanout'', ''broadcast'']"

fun classify_destination_kind :: "text_library \<Rightarrow> attribute_value \<Rightarrow> kind_state" where
  "classify_destination_kind U ANone = KindAbsent"
| "classify_destination_kind U (AStr raw) =
     (let normalized = py_lower U (py_strip U raw) in
      if normalized = [] then KindMalformed
      else if normalized = ''queue'' then KindQueue
      else if normalized \<in> set unsupported_kinds then KindUnsupported else KindMalformed)"
| "classify_destination_kind U _ = KindMalformed"

definition one_id :: "declared_candidate list \<Rightarrow> bool" where
  "one_id cs = (card (set (map dc_id cs)) = 1)"

text \<open>\<open>name in aliases\<close> raises on a value that cannot be hashed; only a string can be a key.\<close>

definition alias_of :: "aliases \<Rightarrow> attribute_value \<Rightarrow> telemetry_fault + string option" where
  "alias_of aliases v = (case v of AStr s \<Rightarrow> Inr (map_of aliases s)
     | AOther t b hashable \<Rightarrow> if hashable then Inr None else Inl TypeError | _ \<Rightarrow> Inr None)"

text \<open>The first part of \<open>_match_declared_queue\<close>: the direct match.\<close>

definition direct_destination :: "declared_candidate list \<Rightarrow> attribute_value \<Rightarrow> attribute_value \<Rightarrow> match_kind" where
  "direct_destination candidates messaging_system destination_name =
     (let name_matches = filter (\<lambda>c. AStr (dc_name c) = destination_name) candidates in
      if messaging_system \<noteq> ANone then
        (let tier1 = filter (\<lambda>c. map_option AStr (dc_namespace c) = Some messaging_system) name_matches in
         if tier1 \<noteq> [] then (if one_id tier1 then MatchDeclared (dc_id (hd tier1)) else MatchAmbiguous)
         else
           (let conflicting = filter (\<lambda>c. dc_namespace c \<noteq> None \<and> map_option AStr (dc_namespace c) \<noteq> Some messaging_system) name_matches;
                eligible = filter (\<lambda>c. dc_namespace c = None) name_matches in
            if eligible \<noteq> [] then
              (if one_id eligible \<and> conflicting = [] then MatchDeclared (dc_id (hd eligible)) else MatchAmbiguous)
            else if conflicting \<noteq> [] then MatchAmbiguous else MatchNone))
      else if name_matches \<noteq> [] then
        (if one_id name_matches then MatchDeclared (dc_id (hd name_matches)) else MatchAmbiguous)
      else MatchNone)"

text \<open>The second part, shared with the service matcher: an alias, unless the direct match is declared.\<close>

definition with_alias :: "declared_candidate list \<Rightarrow> string option \<Rightarrow> match_kind \<Rightarrow> match_kind" where
  "with_alias candidates target direct =
     (case direct of MatchDeclared i \<Rightarrow> MatchDeclared i
      | _ \<Rightarrow> (case target of None \<Rightarrow> direct
          | Some t \<Rightarrow> if t \<in> set (map dc_id candidates) then MatchDeclared t else MatchAmbiguous))"

definition match_declared_queue :: "declared_candidate list \<Rightarrow> attribute_value \<Rightarrow> attribute_value \<Rightarrow> aliases
     \<Rightarrow> telemetry_fault + match_kind" where
  "match_declared_queue candidates messaging_system destination_name aliases =
     (let direct = direct_destination candidates messaging_system destination_name in
      case direct of MatchDeclared i \<Rightarrow> Inr direct
      | _ \<Rightarrow> map_sum id (\<lambda>target. with_alias candidates target direct) (alias_of aliases destination_name))"

record destination_decision =
  dd_status :: discovery_status
  dd_queue_id :: string

definition minted_queue_id :: "text_library \<Rightarrow> attribute_value \<Rightarrow> attribute_value \<Rightarrow> string" where
  "minted_queue_id U name namespace =
     (if attribute_truth namespace then ''queue:'' @ attribute_text U namespace @ '':'' @ attribute_text U name
      else ''queue:'' @ attribute_text U name)"

definition decide_destination_semantics :: "text_library \<Rightarrow> declared_candidate list \<Rightarrow> attribute_value \<Rightarrow> attribute_value
     \<Rightarrow> attribute_value \<Rightarrow> aliases \<Rightarrow> telemetry_fault + (string + destination_decision)" where
  "decide_destination_semantics U candidates messaging_system destination_name destination_kind aliases =
     (let kind = classify_destination_kind U destination_kind in
      if kind = KindUnsupported then Inr (Inl UNSUPPORTED_DESTINATION_SEMANTICS)
      else if kind = KindMalformed then Inr (Inl UNRESOLVED_DESTINATION_SEMANTICS)
      else (case match_declared_queue candidates messaging_system destination_name aliases of
          Inl e \<Rightarrow> Inl e
        | Inr (MatchDeclared i) \<Rightarrow> Inr (Inr \<lparr>dd_status = DECLARED, dd_queue_id = i\<rparr>)
        | Inr MatchNone \<Rightarrow>
            if kind = KindQueue
            then Inr (Inr \<lparr>dd_status = OBSERVED_ONLY, dd_queue_id = minted_queue_id U destination_name messaging_system\<rparr>)
            else Inr (Inl UNRESOLVED_DESTINATION_SEMANTICS)
        | Inr _ \<Rightarrow> Inr (Inl AMBIGUOUS_DESTINATION_IDENTITY)))"

record declared_subscription_candidate =
  ds_id :: string
  ds_name :: string
  ds_topic_id :: string

datatype messaging_target =
    QueueTarget destination_decision | TopicTarget string | SubscriptionTarget string string

definition topic_kind :: "text_library \<Rightarrow> attribute_value \<Rightarrow> bool" where
  "topic_kind U v = (case v of AStr s \<Rightarrow> py_lower U (py_strip U s) = ''topic'' | _ \<Rightarrow> False)"

definition queue_route :: "text_library \<Rightarrow> declared_candidate list \<Rightarrow> attribute_value \<Rightarrow> attribute_value \<Rightarrow> attribute_value
     \<Rightarrow> aliases \<Rightarrow> telemetry_fault + (string + messaging_target)" where
  "queue_route U candidates messaging_system destination_name destination_kind aliases =
     map_sum id (map_sum id QueueTarget)
       (decide_destination_semantics U candidates messaging_system destination_name destination_kind aliases)"

text \<open>The end of the Topic route, for a resolved declared Topic.\<close>

definition topic_route :: "text_library \<Rightarrow> declared_subscription_candidate list \<Rightarrow> string \<Rightarrow> bool \<Rightarrow> attribute_value
     \<Rightarrow> string + messaging_target" where
  "topic_route U subscriptions topic_id is_consumer subscription_name =
     (if \<not> is_consumer then Inr (TopicTarget topic_id)
      else (case subscription_name of
          AStr name \<Rightarrow>
            if name = [] then Inl UNRESOLVED_DESTINATION_SEMANTICS
            else (let matched = remdups (map ds_id (filter (\<lambda>s. ds_topic_id s = topic_id \<and> ds_name s = nfc U name) subscriptions)) in
              (case matched of [] \<Rightarrow> Inl UNRESOLVED_DESTINATION_SEMANTICS
               | [i] \<Rightarrow> Inr (SubscriptionTarget topic_id i)
               | _ \<Rightarrow> Inl AMBIGUOUS_DESTINATION_IDENTITY))
        | _ \<Rightarrow> Inl UNRESOLVED_DESTINATION_SEMANTICS))"

definition decide_messaging_destination :: "text_library \<Rightarrow> declared_candidate list \<Rightarrow> declared_candidate list
     \<Rightarrow> declared_subscription_candidate list \<Rightarrow> attribute_value \<Rightarrow> attribute_value \<Rightarrow> attribute_value \<Rightarrow> bool
     \<Rightarrow> attribute_value \<Rightarrow> aliases \<Rightarrow> aliases \<Rightarrow> telemetry_fault + (string + messaging_target)" where
  "decide_messaging_destination U queues topics subscriptions messaging_system destination_name destination_kind
       is_consumer subscription_name queue_aliases topic_aliases =
     (if destination_kind \<noteq> ANone \<and> \<not> topic_kind U destination_kind
      then queue_route U queues messaging_system destination_name destination_kind queue_aliases
      else (case match_declared_queue topics messaging_system destination_name topic_aliases of
          Inl e \<Rightarrow> Inl e
        | Inr topic_match \<Rightarrow>
            (let rest = (case topic_match of
                 MatchDeclared topic_id \<Rightarrow> Inr (topic_route U subscriptions topic_id is_consumer subscription_name)
               | MatchNone \<Rightarrow> Inr (Inl UNSUPPORTED_DESTINATION_SEMANTICS)
               | _ \<Rightarrow> Inr (Inl AMBIGUOUS_DESTINATION_IDENTITY)) in
             if destination_kind = ANone then
               (case match_declared_queue queues messaging_system destination_name queue_aliases of
                  Inl e \<Rightarrow> Inl e
                | Inr queue_match \<Rightarrow>
                    if queue_match \<noteq> MatchNone \<and> topic_match \<noteq> MatchNone then Inr (Inl UNRESOLVED_DESTINATION_SEMANTICS)
                    else if topic_match = MatchNone
                    then queue_route U queues messaging_system destination_name destination_kind queue_aliases
                    else rest)
             else rest)))"

section \<open>Service identities\<close>

definition is_placeholder_identity :: "text_library \<Rightarrow> string \<Rightarrow> bool" where
  "is_placeholder_identity U name =
     (let folded = collapse_runs (\<lambda>c. c = CHR '' '' \<or> c = CHR ''_'') (CHR ''-'') (py_casefold U (py_strip U name));
          normalized = collapse_runs (\<lambda>c. c = CHR ''-'') (CHR ''-'') folded in
      normalized \<in> {''unknown'', ''unknown-service'', ''unknownservice''} \<or> take 16 normalized = ''unknown-service:'')"

definition direct_service :: "declared_candidate list \<Rightarrow> string \<Rightarrow> string option \<Rightarrow> match_kind" where
  "direct_service candidates service_name service_namespace =
     (let name_matches = filter (\<lambda>c. dc_name c = service_name) candidates;
          pick = (\<lambda>cs. if one_id cs then MatchDeclared (dc_id (hd cs)) else MatchAmbiguous) in
      if service_namespace \<noteq> None then
        (let tier1 = filter (\<lambda>c. dc_namespace c = service_namespace) name_matches in
         if tier1 \<noteq> [] then pick tier1
         else if filter (\<lambda>c. dc_namespace c \<noteq> None \<and> dc_namespace c \<noteq> service_namespace) name_matches \<noteq> [] then MatchConflicting
         else (let eligible = filter (\<lambda>c. dc_namespace c = None) name_matches in
           if eligible \<noteq> [] then pick eligible else MatchNone))
      else if name_matches \<noteq> [] then pick name_matches else MatchNone)"

definition match_declared_service ::
  "declared_candidate list \<Rightarrow> string \<Rightarrow> string option \<Rightarrow> aliases \<Rightarrow> match_kind" where
  "match_declared_service candidates service_name service_namespace aliases =
     with_alias candidates (map_of aliases service_name) (direct_service candidates service_name service_namespace)"

definition decide_service_identity :: "text_library \<Rightarrow> declared_candidate list \<Rightarrow> string \<Rightarrow> string option \<Rightarrow> aliases
     \<Rightarrow> string + string \<times> discovery_status" where
  "decide_service_identity U candidates service_name service_namespace aliases =
     (case match_declared_service candidates service_name service_namespace aliases of
        MatchDeclared i \<Rightarrow> Inr (i, DECLARED)
      | MatchAmbiguous \<Rightarrow> Inl AMBIGUOUS_SERVICE_IDENTITY
      | MatchConflicting \<Rightarrow> Inl CONFLICTING_SERVICE_IDENTITY
      | MatchNone \<Rightarrow>
          (let stripped = py_strip U service_name in
           if stripped = [] \<or> slugify U stripped = [] \<or> is_placeholder_identity U stripped
           then Inl PLACEHOLDER_SERVICE_IDENTITY
           else Inr (service_id (slugify U stripped) service_namespace, OBSERVED_ONLY)))"

definition is_declared_receiver :: "(string \<times> string) list \<Rightarrow> string \<Rightarrow> string \<Rightarrow> bool" where
  "is_declared_receiver declared_receivers service subscription = ((service, subscription) \<in> set declared_receivers)"

section \<open>What an accepted decision refers to\<close>

lemma with_alias_declared:
  "with_alias candidates target direct = MatchDeclared i \<Longrightarrow>
     (\<And>j. direct = MatchDeclared j \<Longrightarrow> j \<in> dc_id ` set candidates) \<Longrightarrow> i \<in> dc_id ` set candidates"
  by (auto simp: with_alias_def split: match_kind.splits option.splits if_splits)

lemma hd_filter_mem: "filter P xs \<noteq> [] \<Longrightarrow> hd (filter P xs) \<in> set xs"
  by (meson filter_is_subset hd_in_set subsetD)

lemma direct_destination_declared:
  "direct_destination candidates system name = MatchDeclared i \<Longrightarrow> i \<in> dc_id ` set candidates"
  unfolding direct_destination_def Let_def filter_filter
  by (auto split: if_splits dest: hd_filter_mem)

lemma match_declared_queue_declared:
  "match_declared_queue candidates system name aliases = Inr (MatchDeclared i) \<Longrightarrow> i \<in> dc_id ` set candidates"
  using direct_destination_declared [of candidates system name] with_alias_declared [of candidates]
  by (cases "alias_of aliases name") (auto simp: match_declared_queue_def Let_def split: match_kind.splits)

lemma direct_service_declared:
  "direct_service candidates name namespace = MatchDeclared i \<Longrightarrow> i \<in> dc_id ` set candidates"
  unfolding direct_service_def Let_def filter_filter
  by (auto split: if_splits dest: hd_filter_mem)

lemma decide_service_declared:
  "decide_service_identity U candidates name namespace aliases = Inr (i, DECLARED) \<Longrightarrow> i \<in> dc_id ` set candidates"
  using with_alias_declared [of candidates "map_of aliases name" "direct_service candidates name namespace"]
    direct_service_declared [of candidates name namespace]
  by (auto simp: decide_service_identity_def match_declared_service_def Let_def split: match_kind.splits if_splits)

lemma decide_service_minted:
  "decide_service_identity U candidates name namespace aliases = Inr (i, OBSERVED_ONLY) \<Longrightarrow>
     \<exists>slug. i = service_id slug namespace"
  by (auto simp: decide_service_identity_def Let_def split: match_kind.splits if_splits)

lemma topic_route_declared:
  "topic_route U subscriptions topic is_consumer name = Inr target \<Longrightarrow>
     target = TopicTarget topic \<and> \<not> is_consumer \<or>
     (\<exists>s\<in>set subscriptions. target = SubscriptionTarget topic (ds_id s) \<and> ds_topic_id s = topic \<and> is_consumer)"
proof -
  assume r: "topic_route U subscriptions topic is_consumer name = Inr target"
  show ?thesis
  proof (cases is_consumer)
    case True
    then obtain n i where n: "name = AStr n" "target = SubscriptionTarget topic i"
      "remdups (map ds_id (filter (\<lambda>s. ds_topic_id s = topic \<and> ds_name s = nfc U n) subscriptions)) = [i]"
      using r by (auto simp: topic_route_def Let_def split: attribute_value.splits if_splits list.splits)
    have "i \<in> set (remdups (map ds_id (filter (\<lambda>s. ds_topic_id s = topic \<and> ds_name s = nfc U n) subscriptions)))"
      unfolding n(3) by simp
    then show ?thesis using True n(2) by auto
  next
    case False
    then show ?thesis using r by (simp add: topic_route_def)
  qed
qed

text \<open>Only declared Topics and Subscriptions are ever targets; a declared Queue target is a candidate, any other
  has a minted Queue id.\<close>

lemma decide_messaging_target:
  assumes "decide_messaging_destination U queues topics subscriptions system name kind is_consumer sub_name qa ta = Inr (Inr target)"
  shows "(\<exists>d. target = QueueTarget d \<and> (dd_status d = DECLARED \<longrightarrow> dd_queue_id d \<in> dc_id ` set queues) \<and>
      (dd_status d = OBSERVED_ONLY \<longrightarrow> dd_queue_id d = minted_queue_id U name system)) \<or>
    (\<exists>t\<in>dc_id ` set topics. target = TopicTarget t \<and> \<not> is_consumer) \<or>
    (\<exists>s\<in>set subscriptions. target = SubscriptionTarget (ds_topic_id s) (ds_id s) \<and> is_consumer \<and> ds_topic_id s \<in> dc_id ` set topics)"
proof -
  have queue: "\<exists>d. target = QueueTarget d \<and> (dd_status d = DECLARED \<longrightarrow> dd_queue_id d \<in> dc_id ` set queues) \<and>
      (dd_status d = OBSERVED_ONLY \<longrightarrow> dd_queue_id d = minted_queue_id U name system)"
    if "queue_route U queues system name kind qa = Inr (Inr target)"
    using that match_declared_queue_declared [of queues system name qa]
    by (auto simp: queue_route_def decide_destination_semantics_def Let_def
        split: if_splits sum.splits match_kind.splits)
  have topic: ?thesis if "match_declared_queue topics system name ta = Inr (MatchDeclared t)"
    "topic_route U subscriptions t is_consumer sub_name = Inr target" for t
    using topic_route_declared [OF that(2)] match_declared_queue_declared [OF that(1)] by blast
  show ?thesis
    using assms queue topic unfolding decide_messaging_destination_def Let_def
    by (auto split: if_splits sum.splits match_kind.splits)
qed

end
