(* ===== verification/TelemetryAdapter.thy ===== *)
theory TelemetryAdapter
  imports MessagingGuards
begin

text \<open>
  \<open>telemetry/adapter.py\<close>: one decoded batch of spans, with the correlation buffer, to an observation
  batch.  The dictionary of observed-only entities is an association list.  A failed batch keeps what the
  buffer was when the exception left it.  The k-th call on the buffer reads the clock value \<open>clock k\<close>.
\<close>

abbreviation "NO_ENVIRONMENT \<equiv> ''no_environment''"
abbreviation "NO_STABLE_ROUTE \<equiv> ''no_stable_route''"
abbreviation "NO_DESTINATION_NAME \<equiv> ''no_destination_name''"
abbreviation "MISSING_TARGET_IDENTITY \<equiv> ''missing_target_identity''"
abbreviation "MISSING_CALLER_IDENTITY \<equiv> ''missing_caller_identity''"
abbreviation "CORRELATION_EXPIRED \<equiv> ''correlation_expired''"

datatype entity_label = ServiceLabel | OperationLabel | QueueLabel

record observed_only_entity =
  en_id :: string
  en_label :: entity_label
  en_name :: string

record observed_fact_candidate =
  of_subject_id :: string
  of_relation_type :: string
  of_object_id :: string
  of_environment :: string
  of_timestamp :: int
  of_trace_id :: string
  of_source_service_version :: "string option"
  of_evidence :: observed_evidence
  of_scoped_seed :: "scoped_call_seed option"

record unresolved_observation =
  uo_trace_id :: string
  uo_reason :: string

record observation_batch =
  ob_entities :: "observed_only_entity list"
  ob_facts :: "observed_fact_candidate list"
  ob_unresolved :: "unresolved_observation list"
  ob_identities :: "runtime_identity_observation list"
  ob_refusals :: "scoped_ingress_refusal list"

text \<open>What the resolution of a batch reads: the library, the hash, the declared candidates, the aliases.\<close>

record adapter_context =
  ac_text :: text_library
  ac_hash :: "string \<Rightarrow> string"
  ac_services :: "declared_candidate list"
  ac_operations :: "declared_operation_candidate list"
  ac_queues :: "declared_candidate list"
  ac_topics :: "declared_candidate list"
  ac_subscriptions :: "declared_subscription_candidate list"
  ac_service_aliases :: aliases
  ac_queue_aliases :: aliases
  ac_topic_aliases :: aliases
  ac_receivers :: "(string \<times> string) list"

section \<open>Pairing within a batch\<close>

definition client_key_of :: "runtime_span \<Rightarrow> string \<times> string" where
  "client_key_of s = (sp_trace_id s, sp_span_id s)"

definition server_key_of :: "runtime_span \<Rightarrow> (string \<times> string) option" where
  "server_key_of s = (if sp_span_kind s \<noteq> ''SERVER'' then None
     else map_option (\<lambda>p. (sp_trace_id s, p)) (sp_parent_span_id s))"

definition clients_by_key :: "runtime_span list \<Rightarrow> (string \<times> string) \<Rightarrow> runtime_span option" where
  "clients_by_key spans = map_of (map (\<lambda>s. (client_key_of s, s)) (rev (filter (\<lambda>s. sp_span_kind s = ''CLIENT'') spans)))"

definition find_correlated_pairs ::
  "runtime_span list \<Rightarrow> (runtime_span \<times> runtime_span) list \<times> runtime_span list \<times> runtime_span list" where
  "find_correlated_pairs spans =
     (let servers = filter (\<lambda>s. server_key_of s \<noteq> None) spans;
          client = (\<lambda>s. clients_by_key spans (the (server_key_of s)));
          paired = filter (\<lambda>s. client s \<noteq> None) servers;
          matched_client_keys = map (\<lambda>s. the (server_key_of s)) paired in
      (map (\<lambda>s. (the (client s), s)) paired,
       filter (\<lambda>s. sp_span_kind s = ''CLIENT'' \<and> client_key_of s \<notin> set matched_client_keys) spans,
       filter (\<lambda>s. client s = None) servers))"

section \<open>The state of the HTTP loops\<close>

record http_state =
  hs_facts :: "observed_fact_candidate list"
  hs_entities :: "(string \<times> observed_only_entity) list"
  hs_unresolved :: "unresolved_observation list"
  hs_refusals :: "scoped_ingress_refusal list"
  hs_buffer :: "correlation_buffer option"
  hs_calls :: nat

type_synonym 's outcome = "(telemetry_fault \<times> correlation_buffer option) + 's"

fun run_steps :: "('a \<Rightarrow> 's \<Rightarrow> 'e + 's) \<Rightarrow> 'a list \<Rightarrow> 's \<Rightarrow> 'e + 's" where
  "run_steps f [] st = Inr st"
| "run_steps f (x # xs) st = (case f x st of Inl e \<Rightarrow> Inl e | Inr st' \<Rightarrow> run_steps f xs st')"

definition record_entity :: "string \<Rightarrow> discovery_status \<Rightarrow> entity_label \<Rightarrow> string
     \<Rightarrow> (string \<times> observed_only_entity) list \<Rightarrow> (string \<times> observed_only_entity) list" where
  "record_entity i status label name entities =
     (if status = OBSERVED_ONLY then AList.update i \<lparr>en_id = i, en_label = label, en_name = name\<rparr> entities else entities)"

definition record_service :: "string \<times> discovery_status \<Rightarrow> string \<Rightarrow> http_state \<Rightarrow> http_state" where
  "record_service r name st = st\<lparr>hs_entities := record_entity (fst r) (snd r) ServiceLabel name (hs_entities st)\<rparr>"

definition unresolved :: "string \<Rightarrow> string \<Rightarrow> http_state \<Rightarrow> http_state" where
  "unresolved trace_id reason st = st\<lparr>hs_unresolved := hs_unresolved st @ [\<lparr>uo_trace_id = trace_id, uo_reason = reason\<rparr>]\<rparr>"

section \<open>Building facts\<close>

definition seed_evidence_of :: "adapter_context \<Rightarrow> string \<Rightarrow> string \<Rightarrow> string \<Rightarrow> string \<Rightarrow> int \<Rightarrow> string \<Rightarrow> string option
     \<Rightarrow> correlation_mode \<Rightarrow> observed_evidence" where
  "seed_evidence_of ac environment subject relation_type object_id timestamp trace_id version mode =
     \<lparr>oe_id = observed_evidence_id (ac_hash ac) environment (fst (day_bucket timestamp)) subject relation_type object_id,
      oe_environment = environment, oe_bucket_start = fst (day_bucket timestamp), oe_bucket_end = snd (day_bucket timestamp),
      oe_first_seen = timestamp, oe_last_seen = timestamp, oe_observation_count = 1, oe_sample_trace_ids = [trace_id],
      oe_service_version = version, oe_correlation_mode = Some mode\<rparr>"

definition fact_of :: "adapter_context \<Rightarrow> string \<Rightarrow> string \<Rightarrow> string \<Rightarrow> string \<Rightarrow> int \<Rightarrow> string \<Rightarrow> string option
     \<Rightarrow> correlation_mode \<Rightarrow> scoped_call_seed option \<Rightarrow> observed_fact_candidate" where
  "fact_of ac environment subject relation_type object_id timestamp trace_id version mode seed =
     \<lparr>of_subject_id = subject, of_relation_type = relation_type, of_object_id = object_id, of_environment = environment,
      of_timestamp = timestamp, of_trace_id = trace_id, of_source_service_version = version,
      of_evidence = seed_evidence_of ac environment subject relation_type object_id timestamp trace_id version mode,
      of_scoped_seed = seed\<rparr>"

text \<open>The arguments of \<open>_build_call_fact\<close>.\<close>

record call_parts =
  cp_caller :: string
  cp_provider :: string
  cp_caller_version :: "string option"
  cp_provider_version :: "string option"
  cp_environment :: string
  cp_method :: attribute_value
  cp_route :: attribute_value
  cp_timestamp :: int
  cp_trace_id :: string
  cp_mode :: correlation_mode
  cp_carrier :: "client_carrier option"

text \<open>\<open>Inr (False, st)\<close> is the empty list of facts of an unresolved operation.\<close>

definition build_call_fact :: "adapter_context \<Rightarrow> call_parts \<Rightarrow> http_state \<Rightarrow> (bool \<times> http_state) outcome" where
  "build_call_fact ac p st =
     (case resolve_operation (ac_text ac) (ac_operations ac) (cp_provider p) (cp_method p) (cp_route p) of
        Inl e \<Rightarrow> Inl (e, hs_buffer st)
      | Inr None \<Rightarrow> Inr (False, st)
      | Inr (Some (operation, status)) \<Rightarrow>
          (let name = attribute_text (ac_text ac) (cp_method p) @ '' '' @ attribute_text (ac_text ac) (cp_route p);
               entities = record_entity operation status OperationLabel name (hs_entities st);
               ingress = evaluate_scoped_ingress (cp_caller p) operation (cp_environment p) (cp_timestamp p)
                 (cp_trace_id p) (cp_mode p) (cp_carrier p);
               refusals = (case ingress of Inl r \<Rightarrow> [r] | Inr _ \<Rightarrow> []);
               seed = (case ingress of Inl _ \<Rightarrow> None | Inr s \<Rightarrow> Some s);
               calls = fact_of ac (cp_environment p) (cp_caller p) ''CALLS'' operation (cp_timestamp p) (cp_trace_id p)
                 (cp_caller_version p) (cp_mode p) seed;
               provides = fact_of ac (cp_environment p) (cp_provider p) ''PROVIDES'' operation (cp_timestamp p) (cp_trace_id p)
                 (cp_provider_version p) (cp_mode p) None in
           Inr (True, st\<lparr>hs_entities := entities, hs_refusals := hs_refusals st @ refusals,
             hs_facts := hs_facts st @ (if status = OBSERVED_ONLY then [calls, provides] else [calls])\<rparr>)))"

section \<open>The HTTP loops\<close>

definition route_of :: "runtime_span \<Rightarrow> attribute_value" where
  "route_of s = attribute_or (attribute ''http.route'' s) (attribute ''url.template'' s)"

definition method_of :: "runtime_span \<Rightarrow> attribute_value" where
  "method_of s = attribute ''http.request.method'' s"

definition pair_step :: "adapter_context \<Rightarrow> runtime_span \<times> runtime_span \<Rightarrow> http_state \<Rightarrow> http_state outcome" where
  "pair_step ac = (\<lambda>(client, server) st0.
     let caller = resolve_runtime_span (ac_text ac) (ac_services ac) client (ac_service_aliases ac);
         provider = resolve_runtime_span (ac_text ac) (ac_services ac) server (ac_service_aliases ac);
         st = record_service provider (sp_service_name server) (record_service caller (sp_service_name client) st0) in
     if \<not> str_true (sp_environment server) then Inr (unresolved (sp_trace_id server) NO_ENVIRONMENT st)
     else if \<not> attribute_truth (method_of server) \<or> \<not> attribute_truth (route_of server)
     then Inr (unresolved (sp_trace_id server) NO_STABLE_ROUTE st)
     else (case build_call_fact ac \<lparr>cp_caller = fst caller, cp_provider = fst provider,
         cp_caller_version = sp_service_version client, cp_provider_version = sp_service_version server,
         cp_environment = the (sp_environment server), cp_method = method_of server, cp_route = route_of server,
         cp_timestamp = sp_end_time server, cp_trace_id = sp_trace_id server, cp_mode = CLIENT_SERVER,
         cp_carrier = Some (carrier_of_span client)\<rparr> st of
       Inl e \<Rightarrow> Inl e
     | Inr (True, st') \<Rightarrow> Inr st'
     | Inr (False, st') \<Rightarrow> Inr (unresolved (sp_trace_id server) NO_STABLE_ROUTE st')))"

definition pending_attribute :: "string option \<Rightarrow> attribute_value" where
  "pending_attribute v = (case v of None \<Rightarrow> ANone | Some s \<Rightarrow> AStr s)"

definition expired_client_step :: "adapter_context \<Rightarrow> pending_http_span \<Rightarrow> http_state \<Rightarrow> http_state outcome" where
  "expired_client_step ac c st0 =
     (let caller = resolve_service (ac_text ac) (ac_services ac) (ps_service_name c) (ps_service_namespace c) (ac_service_aliases ac);
          st = record_service caller (ps_service_name c) st0 in
      if \<not> str_true (ps_method c) \<or> \<not> str_true (ps_route c) then Inr (unresolved (ps_trace_id c) CORRELATION_EXPIRED st)
      else if \<not> str_true (ps_target_identity c) then Inr (unresolved (ps_trace_id c) MISSING_TARGET_IDENTITY st)
      else if \<not> str_true (ps_environment c) then Inr (unresolved (ps_trace_id c) NO_ENVIRONMENT st)
      else
        (let target = the (ps_target_identity c);
             provider = resolve_service (ac_text ac) (ac_services ac) target None (ac_service_aliases ac);
             st' = record_service provider target st in
         case build_call_fact ac \<lparr>cp_caller = fst caller, cp_provider = fst provider,
             cp_caller_version = ps_service_version c, cp_provider_version = None,
             cp_environment = the (ps_environment c), cp_method = pending_attribute (ps_method c),
             cp_route = pending_attribute (ps_route c), cp_timestamp = ps_timestamp c, cp_trace_id = ps_trace_id c,
             cp_mode = CLIENT_ONLY, cp_carrier = Some (carrier_of_pending c)\<rparr> st' of
           Inl e \<Rightarrow> Inl e
         | Inr (True, st'') \<Rightarrow> Inr st''
         | Inr (False, st'') \<Rightarrow> Inr (unresolved (ps_trace_id c) NO_STABLE_ROUTE st'')))"

definition expired_server_step :: "adapter_context \<Rightarrow> pending_http_span \<Rightarrow> http_state \<Rightarrow> http_state outcome" where
  "expired_server_step ac s st0 =
     (let provider = resolve_service (ac_text ac) (ac_services ac) (ps_service_name s) (ps_service_namespace s) (ac_service_aliases ac);
          st = unresolved (ps_trace_id s) MISSING_CALLER_IDENTITY (record_service provider (ps_service_name s) st0) in
      Inr (st\<lparr>hs_refusals := hs_refusals st @ [server_only_refusal (ps_trace_id s) (ps_environment s) (ps_timestamp s)]\<rparr>))"

definition pending_span_from_server ::
  "runtime_span \<Rightarrow> attribute_value \<Rightarrow> attribute_value \<Rightarrow> telemetry_fault + pending_http_span" where
  "pending_span_from_server s method route =
     (case (pydantic_str method, pydantic_str route) of
        (Inr m, Inr r) \<Rightarrow> Inr \<lparr>ps_trace_id = sp_trace_id s, ps_span_id = sp_span_id s, ps_parent_span_id = sp_parent_span_id s,
          ps_span_kind = SERVER, ps_service_name = sp_service_name s, ps_service_namespace = sp_service_namespace s,
          ps_service_version = sp_service_version s, ps_environment = sp_environment s, ps_method = m, ps_route = r,
          ps_target_identity = None, ps_timestamp = sp_end_time s, ps_k8s_pod_uid = None, ps_k8s_cluster_uid = None,
          ps_k8s_namespace_name = None, ps_k8s_pod_name = None, ps_k8s_deployment_name = None,
          ps_k8s_statefulset_name = None, ps_k8s_daemonset_name = None\<rparr>
      | _ \<Rightarrow> Inl ValidationError)"

definition pending_span_from_client :: "runtime_span \<Rightarrow> telemetry_fault + pending_http_span" where
  "pending_span_from_client s =
     (case (pydantic_str (method_of s), pydantic_str (route_of s), pydantic_str (attribute ''peer.service'' s)) of
        (Inr m, Inr r, Inr t) \<Rightarrow> Inr \<lparr>ps_trace_id = sp_trace_id s, ps_span_id = sp_span_id s, ps_parent_span_id = sp_parent_span_id s,
          ps_span_kind = CLIENT, ps_service_name = sp_service_name s, ps_service_namespace = sp_service_namespace s,
          ps_service_version = sp_service_version s, ps_environment = sp_environment s, ps_method = m, ps_route = r,
          ps_target_identity = t, ps_timestamp = sp_end_time s, ps_k8s_pod_uid = admissible (sp_k8s_pod_uid s),
          ps_k8s_cluster_uid = admissible (sp_k8s_cluster_uid s), ps_k8s_namespace_name = admissible (sp_k8s_namespace_name s),
          ps_k8s_pod_name = admissible (sp_k8s_pod_name s), ps_k8s_deployment_name = admissible (sp_k8s_deployment_name s),
          ps_k8s_statefulset_name = admissible (sp_k8s_statefulset_name s),
          ps_k8s_daemonset_name = admissible (sp_k8s_daemonset_name s)\<rparr>
      | _ \<Rightarrow> Inl ValidationError)"

text \<open>A call on the buffer of the batch, with the next clock reading.\<close>

definition buffer_call :: "(nat \<Rightarrow> int) \<Rightarrow> (int \<Rightarrow> correlation_buffer \<Rightarrow> 'r \<times> correlation_buffer) \<Rightarrow> http_state
     \<Rightarrow> 'r \<times> http_state" where
  "buffer_call clock f st = (let (r, b) = f (clock (hs_calls st)) (the (hs_buffer st)) in
     (r, st\<lparr>hs_buffer := Some b, hs_calls := Suc (hs_calls st)\<rparr>))"

definition leftover_server_step ::
  "adapter_context \<Rightarrow> (nat \<Rightarrow> int) \<Rightarrow> runtime_span \<Rightarrow> http_state \<Rightarrow> http_state outcome" where
  "leftover_server_step ac clock server st0 =
     (if \<not> str_true (sp_environment server) then Inr (unresolved (sp_trace_id server) NO_ENVIRONMENT st0)
      else if \<not> attribute_truth (method_of server) \<or> \<not> attribute_truth (route_of server)
      then Inr (unresolved (sp_trace_id server) NO_STABLE_ROUTE st0)
      else
        (let provider = resolve_runtime_span (ac_text ac) (ac_services ac) server (ac_service_aliases ac);
             st1 = record_service provider (sp_service_name server) st0 in
         case pending_span_from_server server (method_of server) (route_of server) of
           Inl e \<Rightarrow> Inl (e, hs_buffer st1)
         | Inr pending \<Rightarrow>
             (case buffer_call clock (\<lambda>now. offer_server now pending) st1 of
                (None, st2) \<Rightarrow> Inr st2
              | (Some client, st2) \<Rightarrow>
                  (let caller = resolve_service (ac_text ac) (ac_services ac) (ps_service_name client)
                         (ps_service_namespace client) (ac_service_aliases ac);
                       st3 = record_service caller (ps_service_name client) st2 in
                   map_sum id snd (build_call_fact ac \<lparr>cp_caller = fst caller, cp_provider = fst provider,
                     cp_caller_version = ps_service_version client, cp_provider_version = sp_service_version server,
                     cp_environment = the (sp_environment server), cp_method = method_of server, cp_route = route_of server,
                     cp_timestamp = sp_end_time server, cp_trace_id = sp_trace_id server, cp_mode = CLIENT_SERVER,
                     cp_carrier = Some (carrier_of_pending client)\<rparr> st3)))))"

definition leftover_client_step ::
  "adapter_context \<Rightarrow> (nat \<Rightarrow> int) \<Rightarrow> runtime_span \<Rightarrow> http_state \<Rightarrow> http_state outcome" where
  "leftover_client_step ac clock client st0 =
     (let caller = resolve_runtime_span (ac_text ac) (ac_services ac) client (ac_service_aliases ac);
          st1 = record_service caller (sp_service_name client) st0 in
      case pending_span_from_client client of
        Inl e \<Rightarrow> Inl (e, hs_buffer st1)
      | Inr pending \<Rightarrow>
          (case buffer_call clock (\<lambda>now. offer_client now pending) st1 of
             (None, st2) \<Rightarrow> Inr st2
           | (Some server, st2) \<Rightarrow>
               if \<not> str_true (ps_environment server) \<or> \<not> str_true (ps_method server) \<or> \<not> str_true (ps_route server)
               then Inl (AssertionError, hs_buffer st2)
               else
                 (let provider = resolve_service (ac_text ac) (ac_services ac) (ps_service_name server)
                        (ps_service_namespace server) (ac_service_aliases ac);
                      st3 = record_service provider (ps_service_name server) st2 in
                  map_sum id snd (build_call_fact ac \<lparr>cp_caller = fst caller, cp_provider = fst provider,
                    cp_caller_version = sp_service_version client, cp_provider_version = ps_service_version server,
                    cp_environment = the (ps_environment server), cp_method = pending_attribute (ps_method server),
                    cp_route = pending_attribute (ps_route server), cp_timestamp = ps_timestamp server,
                    cp_trace_id = ps_trace_id server, cp_mode = CLIENT_SERVER,
                    cp_carrier = Some (carrier_of_span client)\<rparr> st3))))"

definition then_step :: "'e + 's \<Rightarrow> ('s \<Rightarrow> 'e + 's) \<Rightarrow> 'e + 's" where
  "then_step r f = (case r of Inl e \<Rightarrow> Inl e | Inr st \<Rightarrow> f st)"

definition correlate_http_call_observations :: "adapter_context \<Rightarrow> (nat \<Rightarrow> int) \<Rightarrow> runtime_span list
     \<Rightarrow> correlation_buffer option \<Rightarrow> http_state outcome" where
  "correlate_http_call_observations ac clock spans buffer =
     (case find_correlated_pairs spans of (pairs, leftover_clients, leftover_servers) \<Rightarrow>
      then_step (run_steps (pair_step ac) pairs
        \<lparr>hs_facts = [], hs_entities = [], hs_unresolved = [], hs_refusals = [], hs_buffer = buffer, hs_calls = 0\<rparr>)
        (\<lambda>st. if buffer = None then Inr st
          else (case buffer_call clock sweep_expired st of ((expired_clients, expired_servers), st1) \<Rightarrow>
            then_step (run_steps (expired_client_step ac) expired_clients st1) (\<lambda>st2.
            then_step (run_steps (expired_server_step ac) expired_servers st2) (\<lambda>st3.
            then_step (run_steps (leftover_server_step ac clock) leftover_servers st3) (\<lambda>st4.
            run_steps (leftover_client_step ac clock) leftover_clients st4))))))"

section \<open>The messaging loop\<close>

record queue_state =
  qs_facts :: "observed_fact_candidate list"
  qs_entities :: "(string \<times> observed_only_entity) list"
  qs_unresolved :: "unresolved_observation list"

text \<open>\<open>(value or "").lower()\<close>; only strings and bytes have the method, and bytes equal no string.\<close>

fun operation_type :: "text_library \<Rightarrow> attribute_value \<Rightarrow> telemetry_fault + string option" where
  "operation_type U ANone = Inr (Some [])"
| "operation_type U (AStr s) = Inr (Some (py_lower U s))"
| "operation_type U (ABytes s) = Inr (if s = [] then Some [] else None)"
| "operation_type U (AOther s b h) = (if b then Inl AttributeError else Inr (Some []))"

definition messaging_relation :: "string option \<Rightarrow> (string \<times> correlation_mode) option" where
  "messaging_relation t =
     (if t = Some ''send'' then Some (''SENDS'', MESSAGING_SEND)
      else if t = Some ''receive'' then Some (''RECEIVES_FROM'', MESSAGING_RECEIVE)
      else if t = Some ''process'' then Some (''RECEIVES_FROM'', MESSAGING_PROCESS) else None)"

definition refuse :: "runtime_span \<Rightarrow> string \<Rightarrow> queue_state \<Rightarrow> queue_state" where
  "refuse span reason st =
     st\<lparr>qs_unresolved := qs_unresolved st @ [\<lparr>uo_trace_id = sp_trace_id span, uo_reason = reason\<rparr>]\<rparr>"

definition messaging_decision :: "adapter_context \<Rightarrow> runtime_span \<Rightarrow> string \<Rightarrow> telemetry_fault + (string + messaging_target)" where
  "messaging_decision ac span relation_type =
     decide_messaging_destination (ac_text ac) (ac_queues ac) (ac_topics ac) (ac_subscriptions ac)
       (attribute ''messaging.system'' span) (attribute ''messaging.destination.name'' span)
       (attribute ''messaging.destination_kind'' span) (relation_type = ''RECEIVES_FROM'')
       (attribute ''messaging.destination.subscription.name'' span) (ac_queue_aliases ac) (ac_topic_aliases ac)"

text \<open>The relation and object of an accepted span and the entities after it.\<close>

definition accepted_target :: "runtime_span \<Rightarrow> string \<Rightarrow> messaging_target \<Rightarrow> (string \<times> observed_only_entity) list
     \<Rightarrow> telemetry_fault + string \<times> string \<times> (string \<times> observed_only_entity) list" where
  "accepted_target span relation_type target entities =
     (case target of
        TopicTarget topic \<Rightarrow> Inr (''PUBLISHES_TO'', topic, entities)
      | SubscriptionTarget topic subscription \<Rightarrow> Inr (''RECEIVES_FROM'', subscription, entities)
      | QueueTarget d \<Rightarrow>
          if dd_status d = OBSERVED_ONLY then
            (case pydantic_str (attribute ''messaging.destination.name'' span) of
               Inr (Some name) \<Rightarrow> Inr (relation_type, dd_queue_id d, record_entity (dd_queue_id d) OBSERVED_ONLY QueueLabel name entities)
             | _ \<Rightarrow> Inl ValidationError)
          else Inr (relation_type, dd_queue_id d, entities))"

definition queue_step :: "adapter_context \<Rightarrow> runtime_span \<Rightarrow> queue_state \<Rightarrow> telemetry_fault + queue_state" where
  "queue_step ac span st =
     (case operation_type (ac_text ac) (attribute ''messaging.operation.type'' span) of
        Inl e \<Rightarrow> Inl e
      | Inr t \<Rightarrow> (case messaging_relation t of
          None \<Rightarrow> Inr st
        | Some (relation_type, mode) \<Rightarrow>
            if \<not> attribute_truth (attribute ''messaging.destination.name'' span) then Inr (refuse span NO_DESTINATION_NAME st)
            else if \<not> str_true (sp_environment span) then Inr (refuse span NO_ENVIRONMENT st)
            else (case messaging_decision ac span relation_type of
              Inl e \<Rightarrow> Inl e
            | Inr (Inl reason) \<Rightarrow> Inr (refuse span reason st)
            | Inr (Inr target) \<Rightarrow>
                (case decide_service_identity (ac_text ac) (ac_services ac) (sp_service_name span)
                     (sp_service_namespace span) (ac_service_aliases ac) of
                   Inl reason \<Rightarrow> Inr (refuse span reason st)
                 | Inr (service, status) \<Rightarrow>
                     if (case target of SubscriptionTarget topic subscription \<Rightarrow>
                           \<not> is_declared_receiver (ac_receivers ac) service subscription | _ \<Rightarrow> False)
                     then Inr (refuse span UNRESOLVED_DESTINATION_SEMANTICS st)
                     else (case accepted_target span relation_type target
                         (record_entity service status ServiceLabel (sp_service_name span) (qs_entities st)) of
                       Inl e \<Rightarrow> Inl e
                     | Inr (fact_type, object_id, entities) \<Rightarrow>
                         Inr (st\<lparr>qs_entities := entities, qs_facts := qs_facts st @
                           [fact_of ac (the (sp_environment span)) service fact_type object_id (sp_end_time span)
                             (sp_trace_id span) (sp_service_version span) mode None]\<rparr>))))))"

definition correlate_queue_observations :: "adapter_context \<Rightarrow> runtime_span list \<Rightarrow> telemetry_fault + queue_state" where
  "correlate_queue_observations ac spans =
     run_steps (queue_step ac) spans \<lparr>qs_facts = [], qs_entities = [], qs_unresolved = []\<rparr>"

section \<open>The whole batch\<close>

definition merge_entities :: "observed_only_entity list \<Rightarrow> observed_only_entity list" where
  "merge_entities es = map snd (fold (\<lambda>e d. AList.update (en_id e) e d) es [])"

definition adapt :: "adapter_context \<Rightarrow> (nat \<Rightarrow> int) \<Rightarrow> runtime_span list \<Rightarrow> correlation_buffer option
     \<Rightarrow> (observation_batch \<times> correlation_buffer option) outcome" where
  "adapt ac clock spans buffer =
     (case correlate_http_call_observations ac clock spans buffer of
        Inl e \<Rightarrow> Inl e
      | Inr h \<Rightarrow>
          (case correlate_queue_observations ac spans of
             Inl e \<Rightarrow> Inl (e, hs_buffer h)
           | Inr q \<Rightarrow> Inr (\<lparr>ob_entities = merge_entities (map snd (hs_entities h) @ map snd (qs_entities q)),
               ob_facts = hs_facts h @ qs_facts q, ob_unresolved = hs_unresolved h @ qs_unresolved q,
               ob_identities = extract_runtime_identity_observations (ac_hash ac) spans,
               ob_refusals = hs_refusals h\<rparr>, hs_buffer h)))"

section \<open>Loops\<close>

lemma run_steps_ConsE:
  assumes "run_steps f (x # xs) st = r"
  obtains (failed) e where "f x st = Inl e" "r = Inl e" | (passed) s where "f x st = Inr s" "run_steps f xs s = r"
  using assms by (cases "f x st") auto

lemma run_steps_invariant:
  "run_steps f xs st = Inr st' \<Longrightarrow> P st \<Longrightarrow> (\<And>x s s'. x \<in> set xs \<Longrightarrow> P s \<Longrightarrow> f x s = Inr s' \<Longrightarrow> P s') \<Longrightarrow> P st'"
proof (induction xs arbitrary: st)
  case (Cons x xs)
  obtain s where s: "f x st = Inr s" "run_steps f xs s = Inr st'"
    using Cons.prems(1) by (rule run_steps_ConsE) auto
  have "P s" using Cons.prems(3) [OF _ Cons.prems(2) s(1)] by simp
  then show ?case by (rule Cons.IH [OF s(2)]) (rule Cons.prems(3), auto)
qed simp

lemma run_steps_fault:
  "run_steps f xs st = Inl e \<Longrightarrow> P st \<Longrightarrow> (\<And>x s s'. x \<in> set xs \<Longrightarrow> P s \<Longrightarrow> f x s = Inr s' \<Longrightarrow> P s') \<Longrightarrow>
     \<exists>x\<in>set xs. \<exists>s. P s \<and> f x s = Inl e"
proof (induction xs arbitrary: st)
  case (Cons x xs)
  from Cons.prems(1) show ?case
  proof (rule run_steps_ConsE)
    fix e' assume "f x st = Inl e'" "Inl e = Inl e'"
    then show ?thesis using Cons.prems(2) by auto
  next
    fix s assume s: "f x st = Inr s" "run_steps f xs s = Inl e"
    have "P s" using Cons.prems(3) [OF _ Cons.prems(2) s(1)] by simp
    then have "\<exists>x\<in>set xs. \<exists>s. P s \<and> f x s = Inl e" by (rule Cons.IH [OF s(2)]) (rule Cons.prems(3), auto)
    then show ?thesis by auto
  qed
qed simp

lemma then_step_Inr: "then_step r f = Inr z \<longleftrightarrow> (\<exists>s. r = Inr s \<and> f s = Inr z)"
  by (auto simp: then_step_def split: sum.splits)

lemma then_step_Inl: "then_step r f = Inl e \<longleftrightarrow> r = Inl e \<or> (\<exists>s. r = Inr s \<and> f s = Inl e)"
  by (auto simp: then_step_def split: sum.splits)

section \<open>What the facts of a batch are\<close>

definition declared_services :: "adapter_context \<Rightarrow> string set" where
  "declared_services ac = dc_id ` set (ac_services ac) \<union> snd ` set (ac_service_aliases ac)"

text \<open>A fact carries a one-observation evidence seed of its own day and identity, and its scoped seed,
  if any, names the same interaction.\<close>

definition formed :: "adapter_context \<Rightarrow> observed_fact_candidate \<Rightarrow> bool" where
  "formed ac f \<longleftrightarrow> of_environment f \<noteq> [] \<and>
     (\<exists>mode. of_evidence f = seed_evidence_of ac (of_environment f) (of_subject_id f) (of_relation_type f) (of_object_id f)
         (of_timestamp f) (of_trace_id f) (of_source_service_version f) mode \<and>
       (\<forall>s. of_scoped_seed f = Some s \<longrightarrow> of_relation_type f = ''CALLS'' \<and> sd_fact_timestamp s = of_timestamp f \<and>
         sd_trace_id s = of_trace_id f \<and> sd_correlation_mode s = mode \<and>
         (\<exists>cluster pod. sd_key s = (of_environment f, iso_day (day_of (of_timestamp f)), of_subject_id f, of_object_id f, cluster, pod))))"

lemma formed_fact_of:
  "environment \<noteq> [] \<Longrightarrow> formed ac (fact_of ac environment subject t obj timestamp trace version mode None)"
  by (auto simp: formed_def fact_of_def)

definition unseeded_call :: "observed_fact_candidate \<Rightarrow> bool" where
  "unseeded_call f \<longleftrightarrow> of_relation_type f = ''CALLS'' \<and> of_scoped_seed f = None"

text \<open>A minted id carries its label as a prefix, so no id is ever minted under two labels.\<close>

fun kind_prefix :: "entity_label \<Rightarrow> string" where
  "kind_prefix ServiceLabel = ''service:''"
| "kind_prefix OperationLabel = ''operation:''"
| "kind_prefix QueueLabel = ''queue:''"

definition labelled :: "string \<Rightarrow> entity_label \<Rightarrow> bool" where
  "labelled i label \<longleftrightarrow> take (length (kind_prefix label)) i = kind_prefix label"

lemma labelled_hd: "labelled i label \<Longrightarrow> hd i = hd (kind_prefix label)"
  by (cases i; cases label) (simp_all add: labelled_def)

lemma labelled_unique: "labelled i a \<Longrightarrow> labelled i b \<Longrightarrow> a = b"
  using labelled_hd [of i a] labelled_hd [of i b] by (cases a; cases b) simp_all

definition kinded :: "string set \<Rightarrow> entity_label \<Rightarrow> string set" where
  "kinded E label = {i \<in> E. labelled i label}"

lemma kinded_mono: "E \<subseteq> E' \<Longrightarrow> kinded E label \<subseteq> kinded E' label"
  by (auto simp: kinded_def)

text \<open>The invariant of the HTTP loops over a set of known entity keys.\<close>

definition http_fact :: "adapter_context \<Rightarrow> string set \<Rightarrow> observed_fact_candidate \<Rightarrow> bool" where
  "http_fact ac E f \<longleftrightarrow> of_subject_id f \<in> declared_services ac \<union> kinded E ServiceLabel \<and>
     of_object_id f \<in> do_id ` set (ac_operations ac) \<union> kinded E OperationLabel \<and>
     of_relation_type f \<in> {''CALLS'', ''PROVIDES''} \<and> formed ac f"

definition entity_keys :: "(string \<times> observed_only_entity) list \<Rightarrow> string set" where
  "entity_keys d = fst ` set d"

definition keyed :: "(string \<times> observed_only_entity) list \<Rightarrow> bool" where
  "keyed d \<longleftrightarrow> (\<forall>x\<in>set d. en_id (snd x) = fst x \<and> labelled (fst x) (en_label (snd x)))"

definition http_inv :: "adapter_context \<Rightarrow> http_state \<Rightarrow> bool" where
  "http_inv ac st \<longleftrightarrow> (\<forall>f\<in>set (hs_facts st). http_fact ac (entity_keys (hs_entities st)) f) \<and> keyed (hs_entities st) \<and>
     (\<forall>r\<in>set (hs_refusals st). primary_cause r \<noteq> None) \<and>
     map of_trace_id (filter unseeded_call (hs_facts st)) = map sr_trace_id (filter sr_v1_unchanged (hs_refusals st))"

lemma http_fact_mono: "http_fact ac E f \<Longrightarrow> E \<subseteq> E' \<Longrightarrow> http_fact ac E' f"
  unfolding http_fact_def using kinded_mono [of E E'] by blast

lemma entity_keys_record:
  "entity_keys (record_entity i status label name d) = (if status = OBSERVED_ONLY then insert i (entity_keys d) else entity_keys d)"
  by (simp add: record_entity_def entity_keys_def dom_update)

lemma keyed_update: "keyed d \<Longrightarrow> labelled (en_id e) (en_label e) \<Longrightarrow> keyed (AList.update (en_id e) e d)"
  using set_update_subset [of "en_id e" e d] unfolding keyed_def by fastforce

lemma keyed_record:
  assumes "keyed d" "status = OBSERVED_ONLY \<Longrightarrow> labelled i label"
  shows "keyed (record_entity i status label name d)"
  using keyed_update [OF assms(1), of "\<lparr>en_id = i, en_label = label, en_name = name\<rparr>"] assms by (simp add: record_entity_def)

text \<open>A Service that may be recorded: a declared one, or one under a minted Service id.\<close>

definition mintable :: "string \<times> discovery_status \<Rightarrow> bool" where
  "mintable r \<longleftrightarrow> (snd r = OBSERVED_ONLY \<longrightarrow> labelled (fst r) ServiceLabel)"

lemma service_id_labelled [simp]: "labelled (service_id slug namespace) ServiceLabel"
  by (simp add: service_id_def labelled_def)

lemma resolve_service_mintable [simp]: "mintable (resolve_service U candidates name namespace aliases)"
  by (simp add: resolve_service_def Let_def mintable_def split: option.split)

lemma resolve_span_mintable [simp]: "mintable (resolve_runtime_span U candidates span aliases)"
  by (simp add: resolve_runtime_span_def)

lemma resolve_operation_minted:
  assumes "resolve_operation U candidates provider method route = Inr (Some (i, OBSERVED_ONLY))"
  shows "labelled i OperationLabel"
proof -
  obtain x y where "i = operation_id provider x y"
    using assms by (auto simp: resolve_operation_def split: if_splits sum.splits option.splits)
  then show ?thesis by (simp add: operation_id_def labelled_def)
qed

definition subjects :: "adapter_context \<Rightarrow> http_state \<Rightarrow> string set" where
  "subjects ac st = declared_services ac \<union> kinded (entity_keys (hs_entities st)) ServiceLabel"

lemma resolved_known: "fst (resolve_service U (ac_services ac) name namespace (ac_service_aliases ac)) \<in>
    declared_services ac \<union> kinded (entity_keys (record_entity
      (fst (resolve_service U (ac_services ac) name namespace (ac_service_aliases ac)))
      (snd (resolve_service U (ac_services ac) name namespace (ac_service_aliases ac))) label n d)) ServiceLabel"
proof -
  obtain i status where r: "resolve_service U (ac_services ac) name namespace (ac_service_aliases ac) = (i, status)"
    by (cases "resolve_service U (ac_services ac) name namespace (ac_service_aliases ac)")
  show ?thesis
    using resolve_service_declared [of U "ac_services ac" name namespace "ac_service_aliases ac" i] r
      resolve_service_mintable [of U "ac_services ac" name namespace "ac_service_aliases ac"]
    by (cases status) (auto simp: declared_services_def entity_keys_record kinded_def mintable_def)
qed

lemma record_service_subjects:
  "fst (resolve_service U (ac_services ac) name namespace (ac_service_aliases ac)) \<in>
     subjects ac (record_service (resolve_service U (ac_services ac) name namespace (ac_service_aliases ac)) n st)"
  "subjects ac st \<subseteq> subjects ac (record_service r n st)"
proof -
  show "subjects ac st \<subseteq> subjects ac (record_service r n st)"
    by (auto simp: subjects_def record_service_def entity_keys_record kinded_def)
  show "fst (resolve_service U (ac_services ac) name namespace (ac_service_aliases ac)) \<in>
     subjects ac (record_service (resolve_service U (ac_services ac) name namespace (ac_service_aliases ac)) n st)"
    using resolved_known [of U ac name namespace ServiceLabel n "hs_entities st"] by (simp add: subjects_def record_service_def)
qed

lemma record_service_inv: "http_inv ac st \<Longrightarrow> mintable r \<Longrightarrow> http_inv ac (record_service r n st)"
  unfolding http_inv_def record_service_def mintable_def
  by (auto simp: keyed_record entity_keys_record elim: http_fact_mono)

lemma record_service_buffer [simp]:
  "hs_buffer (record_service r n st) = hs_buffer st" "hs_calls (record_service r n st) = hs_calls st"
  by (simp_all add: record_service_def)

lemma unresolved_inv [simp]: "http_inv ac (unresolved t r st) = http_inv ac st" "hs_buffer (unresolved t r st) = hs_buffer st"
  by (simp_all add: unresolved_def http_inv_def)

lemma build_call_fact_inv:
  assumes "build_call_fact ac p st = Inr (b, st')" "http_inv ac st" "cp_caller p \<in> subjects ac st"
    "cp_provider p \<in> subjects ac st" "cp_environment p \<noteq> []"
  shows "http_inv ac st' \<and> hs_buffer st' = hs_buffer st"
proof (cases "resolve_operation (ac_text ac) (ac_operations ac) (cp_provider p) (cp_method p) (cp_route p)")
  case (Inl e)
  then show ?thesis using assms(1) by (simp add: build_call_fact_def)
next
  case (Inr r)
  show ?thesis
  proof (cases r)
    case None
    then show ?thesis using assms(1,2) Inr by (simp add: build_call_fact_def)
  next
    case (Some os)
    obtain operation status where os: "os = (operation, status)" by (cases os)
    let ?ent = "record_entity operation status OperationLabel (attribute_text (ac_text ac) (cp_method p) @ '' '' @
      attribute_text (ac_text ac) (cp_route p)) (hs_entities st)"
    define ingress where "ingress = evaluate_scoped_ingress (cp_caller p) operation (cp_environment p) (cp_timestamp p)
                 (cp_trace_id p) (cp_mode p) (cp_carrier p)"
    define seed where "seed = (case ingress of Inl _ \<Rightarrow> None | Inr s \<Rightarrow> Some s)"
    define refusals where "refusals = (case ingress of Inl r \<Rightarrow> [r] | Inr _ \<Rightarrow> [])"
    define calls where "calls = fact_of ac (cp_environment p) (cp_caller p) ''CALLS'' operation (cp_timestamp p) (cp_trace_id p)
                 (cp_caller_version p) (cp_mode p) seed"
    define provides where "provides = fact_of ac (cp_environment p) (cp_provider p) ''PROVIDES'' operation (cp_timestamp p)
      (cp_trace_id p) (cp_provider_version p) (cp_mode p) None"
    have "build_call_fact ac p st = Inr (True, st\<lparr>hs_entities := ?ent, hs_refusals := hs_refusals st @ refusals,
        hs_facts := hs_facts st @ (if status = OBSERVED_ONLY then [calls, provides] else [calls])\<rparr>)"
      unfolding build_call_fact_def Inr Some os calls_def provides_def seed_def refusals_def ingress_def Let_def by simp
    then have st': "st' = st\<lparr>hs_entities := ?ent, hs_refusals := hs_refusals st @ refusals,
        hs_facts := hs_facts st @ (if status = OBSERVED_ONLY then [calls, provides] else [calls])\<rparr>"
      using assms(1) by simp
    have minted: "status = OBSERVED_ONLY \<Longrightarrow> labelled operation OperationLabel"
      using resolve_operation_minted [of "ac_text ac" "ac_operations ac" "cp_provider p" "cp_method p" "cp_route p" operation]
        Inr Some os by simp
    have op: "operation \<in> do_id ` set (ac_operations ac) \<union> kinded (entity_keys ?ent) OperationLabel"
      using resolve_operation_declared [of "ac_text ac" "ac_operations ac" "cp_provider p" "cp_method p" "cp_route p" operation]
        Inr Some os minted by (cases status) (auto simp: entity_keys_record kinded_def)
    have sub: "entity_keys (hs_entities st) \<subseteq> entity_keys ?ent" by (auto simp: entity_keys_record)
    have caused: "\<forall>r\<in>set refusals. primary_cause r \<noteq> None"
      using ingress_refusal_caused unfolding refusals_def ingress_def by (auto split: sum.splits)
    have traced: "map of_trace_id (if unseeded_call calls then [calls] else []) = map sr_trace_id (filter sr_v1_unchanged refusals)"
    proof (cases ingress)
      case (Inl r)
      then have "sr_trace_id r = cp_trace_id p \<and> sr_v1_unchanged r" unfolding ingress_def evaluate_scoped_ingress_def Let_def
        by (auto split: option.splits if_splits)
      then show ?thesis using Inl by (simp add: calls_def fact_of_def unseeded_call_def seed_def refusals_def)
    next
      case (Inr s)
      then show ?thesis by (simp add: calls_def fact_of_def unseeded_call_def seed_def refusals_def)
    qed
    have "formed ac calls"
      using assms(5) by (auto simp: formed_def calls_def fact_of_def seed_def ingress_def evaluate_scoped_ingress_def Let_def
          split: option.splits if_splits)
    moreover have "formed ac provides" using assms(5) by (simp add: provides_def formed_fact_of)
    ultimately have new: "http_fact ac (entity_keys ?ent) calls" "http_fact ac (entity_keys ?ent) provides"
      using assms(3,4) op kinded_mono [OF sub, of ServiceLabel]
      by (auto simp: http_fact_def calls_def provides_def fact_of_def subjects_def)
    have "\<not> unseeded_call provides" by (simp add: provides_def fact_of_def unseeded_call_def)
    then have "map of_trace_id (filter unseeded_call (hs_facts st')) = map sr_trace_id (filter sr_v1_unchanged (hs_refusals st'))"
      using assms(2) traced unfolding st' http_inv_def by (cases status) (simp_all split: if_splits)
    moreover have "\<forall>f\<in>set (hs_facts st'). http_fact ac (entity_keys ?ent) f"
      using assms(2) new sub unfolding st' http_inv_def by (auto elim: http_fact_mono)
    ultimately show ?thesis using assms(2) caused minted unfolding st' http_inv_def by (auto intro: keyed_record)
  qed
qed

end
