(* ===== verification/TelemetryFacts.thy ===== *)
theory TelemetryFacts
  imports TelemetryAdapter
begin

text \<open>
  What \<open>telemetry/adapter.py\<close> makes of a batch, for every batch and every sequence of batches: the
  pairing, the endpoints and seeds of the facts, the accounting of refused callers, and the use of the
  correlation buffer.
\<close>

section \<open>The buffer of a batch\<close>

definition complete_server :: "pending_http_span \<Rightarrow> bool" where
  "complete_server s \<longleftrightarrow> str_true (ps_environment s) \<and> str_true (ps_method s) \<and> str_true (ps_route s)"

definition ready :: "correlation_buffer \<Rightarrow> bool" where
  "ready b \<longleftrightarrow> (\<forall>e\<in>set (cb_servers b). complete_server (fst (snd e)))"

lemma servers_evict: "set (cb_servers (evict_expired now b)) \<subseteq> set (cb_servers b)"
  using set_pop [of "cb_ttl b" now "cb_servers b"] by (simp add: evict_expired_def split_def Let_def)

lemma ready_evict: "ready b \<Longrightarrow> ready (evict_expired now b)"
  using servers_evict [of now b] by (auto simp: ready_def)

lemma set_enforced_update:
  "set (snd (enforce_bound m (AList.update k v store))) \<subseteq> insert (k, v) (set store)"
  unfolding enforce_bound_def using set_update_subset [of k v store] by (auto dest: in_set_dropD)

lemma ready_offer_server:
  assumes "ready b" "complete_server s"
  shows "ready (snd (offer_server now s b))"
proof (cases "ps_parent_span_id s")
  case None
  then show ?thesis using assms by (simp add: offer_server_def)
next
  case (Some parent)
  let ?b = "evict_expired now b"
  have b: "ready ?b" using assms(1) by (rule ready_evict)
  show ?thesis
  proof (cases "map_of (cb_clients ?b) (ps_trace_id s, parent)")
    case None
    have "\<forall>e\<in>set (snd (enforce_bound (cb_max ?b) (AList.update (ps_trace_id s, parent) (s, now) (cb_servers ?b)))).
        complete_server (fst (snd e))"
      using set_enforced_update [of "cb_max ?b" "(ps_trace_id s, parent)" "(s, now)" "cb_servers ?b"] b assms(2)
      by (auto simp: ready_def)
    then show ?thesis using Some None by (simp add: offer_server_def Let_def split_def ready_def)
  next
    case (Some e)
    then show ?thesis using b \<open>ps_parent_span_id s = Some parent\<close> by (simp add: offer_server_def Let_def split_def ready_def)
  qed
qed

lemma ready_offer_client:
  assumes "ready b"
  shows "ready (snd (offer_client now s b)) \<and> (\<forall>x. fst (offer_client now s b) = Some x \<longrightarrow> complete_server x)"
proof -
  let ?b = "evict_expired now b"
  have b: "ready ?b" using assms by (rule ready_evict)
  show ?thesis
  proof (cases "map_of (cb_servers ?b) (ps_trace_id s, ps_span_id s)")
    case None
    then show ?thesis using b by (simp add: offer_client_def Let_def split_def ready_def)
  next
    case (Some e)
    have "complete_server (fst e)" using map_of_SomeD [OF Some] b by (auto simp: ready_def)
    moreover have "ready (?b\<lparr>cb_servers := AList.delete (ps_trace_id s, ps_span_id s) (cb_servers ?b), cb_matches := cb_matches ?b + 1\<rparr>)"
      using b by (auto simp: ready_def set_delete)
    ultimately show ?thesis using Some by (simp add: offer_client_def Let_def split_def)
  qed
qed

text \<open>The calls a batch has made so far, with the clock readings in order.\<close>

definition buffer_trace :: "(nat \<Rightarrow> int) \<Rightarrow> correlation_buffer option \<Rightarrow> http_state \<Rightarrow> bool" where
  "buffer_trace clock buffer st \<longleftrightarrow> (case buffer of
     None \<Rightarrow> hs_buffer st = None
   | Some b \<Rightarrow> (\<exists>cs. map call_time cs = map clock [0..<hs_calls st] \<and> hs_buffer st = Some (fold perform cs b)) \<and>
       (ready b \<longrightarrow> ready (the (hs_buffer st))))"

lemma buffer_trace_cong:
  "hs_buffer st' = hs_buffer st \<Longrightarrow> hs_calls st' = hs_calls st \<Longrightarrow> buffer_trace clock buffer st' = buffer_trace clock buffer st"
  unfolding buffer_trace_def by (simp only:)

lemma buffer_call_trace:
  assumes "buffer_call clock f st = (r, st')" "buffer_trace clock (Some b0) st"
    and c: "\<And>b. perform c b = snd (f (clock (hs_calls st)) b)" "call_time c = clock (hs_calls st)"
    and keep: "\<And>b. ready b \<Longrightarrow> ready (snd (f (clock (hs_calls st)) b))"
  shows "buffer_trace clock (Some b0) st'"
proof -
  obtain cs where cs: "map call_time cs = map clock [0..<hs_calls st]" "hs_buffer st = Some (fold perform cs b0)"
    and ready: "ready b0 \<longrightarrow> ready (the (hs_buffer st))"
    using assms(2) unfolding buffer_trace_def by auto
  have st': "st' = st\<lparr>hs_buffer := Some (snd (f (clock (hs_calls st)) (fold perform cs b0))), hs_calls := Suc (hs_calls st)\<rparr>"
    using assms(1) cs(2) by (simp add: buffer_call_def split_def Let_def)
  have "map call_time (cs @ [c]) = map clock [0..<hs_calls st']" using cs(1) c(2) st' by simp
  moreover have "hs_buffer st' = Some (fold perform (cs @ [c]) b0)" using c(1) st' by simp
  ultimately have "\<exists>cs. map call_time cs = map clock [0..<hs_calls st'] \<and> hs_buffer st' = Some (fold perform cs b0)"
    by (intro exI [of _ "cs @ [c]"] conjI)
  moreover have "ready b0 \<longrightarrow> ready (the (hs_buffer st'))" using ready keep cs(2) st' by simp
  ultimately show ?thesis unfolding buffer_trace_def by simp
qed

lemma buffer_call_rest:
  "buffer_call clock f st = (r, st') \<Longrightarrow> hs_facts st' = hs_facts st \<and> hs_entities st' = hs_entities st \<and>
     hs_refusals st' = hs_refusals st \<and> hs_unresolved st' = hs_unresolved st \<and> r = fst (f (clock (hs_calls st)) (the (hs_buffer st)))"
  by (auto simp: buffer_call_def split_def Let_def)

lemma sweep_trace:
  assumes "buffer_call clock sweep_expired st = (r, st')" "buffer_trace clock (Some b) st"
  shows "buffer_trace clock (Some b) st'"
  using assms by (rule buffer_call_trace [where c = "Sweep (clock (hs_calls st))"]) (auto simp: sweep_expired_def ready_evict)

lemma offer_server_trace:
  assumes "buffer_call clock (\<lambda>now. offer_server now s) st = (r, st')" "buffer_trace clock (Some b) st" "complete_server s"
  shows "buffer_trace clock (Some b) st'"
  using assms(1,2) by (rule buffer_call_trace [where c = "OfferServer (clock (hs_calls st)) s"])
    (auto intro: ready_offer_server assms(3))

lemma offer_client_trace:
  assumes "buffer_call clock (\<lambda>now. offer_client now s) st = (r, st')" "buffer_trace clock (Some b) st"
  shows "buffer_trace clock (Some b) st'"
  using assms by (rule buffer_call_trace [where c = "OfferClient (clock (hs_calls st)) s"])
    (auto simp: ready_offer_client)

section \<open>One step\<close>

lemma build_call_fact_keeps:
  assumes "build_call_fact ac p st = Inr (b, st')"
  shows "hs_buffer st' = hs_buffer st \<and> hs_calls st' = hs_calls st \<and> hs_unresolved st' = hs_unresolved st"
  using assms unfolding build_call_fact_def Let_def by (auto split: sum.splits option.splits)

lemma resolve_operation_fault: "resolve_operation U candidates provider m route = Inl e \<Longrightarrow> e = AttributeError"
proof -
  assume r: "resolve_operation U candidates provider m route = Inl e"
  have "attribute_upper U m = Inl e"
  proof (cases "attribute_upper U m")
    case (Inl e')
    then show ?thesis using r by (simp add: resolve_operation_def split: if_splits)
  next
    case (Inr v)
    then show ?thesis using r by (simp add: resolve_operation_def split: if_splits option.splits)
  qed
  then show ?thesis by (cases m) simp_all
qed

lemma build_call_fact_fault: "build_call_fact ac p st = Inl (e, b) \<Longrightarrow> e = AttributeError \<and> b = hs_buffer st"
proof (cases "resolve_operation (ac_text ac) (ac_operations ac) (cp_provider p) (cp_method p) (cp_route p)")
  case (Inl e')
  assume "build_call_fact ac p st = Inl (e, b)"
  then show ?thesis using Inl resolve_operation_fault [OF Inl] by (simp add: build_call_fact_def)
next
  case (Inr r)
  assume "build_call_fact ac p st = Inl (e, b)"
  then show ?thesis unfolding build_call_fact_def Inr by (cases r) (simp_all add: Let_def split_def)
qed

text \<open>What the loops maintain, over the buffer they were given.\<close>

definition loop_inv :: "adapter_context \<Rightarrow> (nat \<Rightarrow> int) \<Rightarrow> correlation_buffer option \<Rightarrow> http_state \<Rightarrow> bool" where
  "loop_inv ac clock buffer st \<longleftrightarrow> http_inv ac st \<and> buffer_trace clock buffer st"

lemma loop_inv_record [simp]: "loop_inv ac clock buffer st \<Longrightarrow> mintable r \<Longrightarrow> loop_inv ac clock buffer (record_service r n st)"
  using buffer_trace_cong [of "record_service r n st" st clock buffer] by (simp add: loop_inv_def record_service_inv)

lemma loop_inv_unresolved [simp]: "loop_inv ac clock buffer (unresolved t r st) = loop_inv ac clock buffer st"
  using buffer_trace_cong [of "unresolved t r st" st clock buffer] by (simp add: loop_inv_def unresolved_def http_inv_def)

lemma loop_inv_build:
  assumes "build_call_fact ac p st = Inr (b, st')" "loop_inv ac clock buffer st" "cp_caller p \<in> subjects ac st"
    "cp_provider p \<in> subjects ac st" "cp_environment p \<noteq> []"
  shows "loop_inv ac clock buffer st'"
proof -
  have "http_inv ac st'" using build_call_fact_inv [OF assms(1) _ assms(3-5)] assms(2) by (simp add: loop_inv_def)
  moreover have "buffer_trace clock buffer st'"
    using buffer_trace_cong [of st' st clock buffer] build_call_fact_keeps [OF assms(1)] assms(2) by (simp add: loop_inv_def)
  ultimately show ?thesis by (simp add: loop_inv_def)
qed

lemma map_sum_Inr_sndE:
  assumes "map_sum id snd r = Inr y"
  obtains b where "r = Inr (b, y)"
proof (cases r)
  case (Inl e)
  with assms have False by simp
  then show ?thesis ..
next
  case (Inr z)
  with assms have "r = Inr (fst z, y)" by (cases z) simp
  then show ?thesis by (rule that)
qed

lemma map_sum_id_Inl: "map_sum id f r = Inl e \<longleftrightarrow> r = Inl e"
  by (cases r) simp_all

lemma loop_inv_build_snd:
  assumes "map_sum id snd (build_call_fact ac p st) = Inr st'" "loop_inv ac clock buffer st" "cp_caller p \<in> subjects ac st"
    "cp_provider p \<in> subjects ac st" "cp_environment p \<noteq> []"
  shows "loop_inv ac clock buffer st'"
proof -
  from assms(1) obtain b where "build_call_fact ac p st = Inr (b, st')" by (rule map_sum_Inr_sndE)
  then show ?thesis using assms(2-5) by (rule loop_inv_build)
qed

lemma loop_inv_buffer_call:
  assumes "buffer_call clock f st = (r, st')" "loop_inv ac clock (Some b) st" "buffer_trace clock (Some b) st'"
  shows "loop_inv ac clock (Some b) st' \<and> subjects ac st' = subjects ac st"
  using buffer_call_rest [OF assms(1)] assms(2,3) by (simp add: loop_inv_def http_inv_def subjects_def)

lemma sweep_inv:
  assumes "buffer_call clock sweep_expired st = (r, st')" "loop_inv ac clock (Some b) st"
  shows "loop_inv ac clock (Some b) st'"
proof -
  have "buffer_trace clock (Some b) st'"
    by (rule sweep_trace [OF assms(1)]) (rule assms(2) [unfolded loop_inv_def, THEN conjunct2])
  then show ?thesis by (rule loop_inv_buffer_call [OF assms, THEN conjunct1])
qed

lemma str_true_the: "str_true x \<Longrightarrow> the x \<noteq> []"
  by (simp add: str_true_def split: option.splits)

text \<open>A fact built after its two Services were recorded.\<close>

definition service_of :: "adapter_context \<Rightarrow> string \<Rightarrow> string option \<Rightarrow> string \<times> discovery_status" where
  "service_of ac name namespace = resolve_service (ac_text ac) (ac_services ac) name namespace (ac_service_aliases ac)"

lemma service_of_mintable [simp]: "mintable (service_of ac name namespace)"
  by (simp add: service_of_def)

lemma service_recorded: "fst (service_of ac name namespace) \<in> subjects ac (record_service (service_of ac name namespace) n st)"
  unfolding service_of_def by (rule record_service_subjects)

lemma service_kept: "i \<in> subjects ac st \<Longrightarrow> i \<in> subjects ac (record_service r n st)"
  using record_service_subjects(2) by blast

lemma span_service: "resolve_runtime_span (ac_text ac) (ac_services ac) s (ac_service_aliases ac) =
    service_of ac (sp_service_name s) (sp_service_namespace s)"
  by (simp add: resolve_runtime_span_def service_of_def)

text \<open>The common end of a pair and of an expired client: the fact, or an unresolved observation.\<close>

lemma loop_inv_resolved:
  assumes "(case build_call_fact ac p st of Inl e \<Rightarrow> Inl e | Inr (True, st') \<Rightarrow> Inr st' | Inr (False, st') \<Rightarrow> Inr (unresolved t r st')) = Inr st'"
    "loop_inv ac clock buffer st" "cp_caller p \<in> subjects ac st" "cp_provider p \<in> subjects ac st" "cp_environment p \<noteq> []"
  shows "loop_inv ac clock buffer st'"
proof (cases "build_call_fact ac p st")
  case (Inl e)
  then show ?thesis using assms(1) by simp
next
  case (Inr z)
  obtain b s where z: "z = (b, s)" by (cases z)
  have "loop_inv ac clock buffer s" using Inr z assms(2-5) by (intro loop_inv_build [of ac p st b s]) simp_all
  then show ?thesis using assms(1) Inr z by (cases b) auto
qed

lemma pair_step_inv:
  assumes "pair_step ac x st0 = Inr st'" "loop_inv ac clock buffer st0"
  shows "loop_inv ac clock buffer st'"
proof -
  obtain client server where x: "x = (client, server)" by (cases x)
  define caller where "caller = service_of ac (sp_service_name client) (sp_service_namespace client)"
  have [simp]: "mintable caller" by (simp add: caller_def)
  define provider where "provider = service_of ac (sp_service_name server) (sp_service_namespace server)"
  have [simp]: "mintable provider" by (simp add: provider_def)
  define st where "st = record_service provider (sp_service_name server) (record_service caller (sp_service_name client) st0)"
  have inv: "loop_inv ac clock buffer st" using assms(2) by (simp add: st_def)
  have known: "fst caller \<in> subjects ac st" "fst provider \<in> subjects ac st"
    unfolding st_def caller_def provider_def by (intro service_kept service_recorded)+
  note step = assms(1) [unfolded x pair_step_def prod.case span_service Let_def, folded caller_def provider_def, folded st_def]
  show ?thesis
  proof (cases "\<not> str_true (sp_environment server) \<or> \<not> attribute_truth (method_of server) \<or> \<not> attribute_truth (route_of server)")
    case True
    then show ?thesis using step inv by (auto split: if_splits)
  next
    case False
    then have env: "the (sp_environment server) \<noteq> []" by (simp add: str_true_the)
    have "(case build_call_fact ac \<lparr>cp_caller = fst caller, cp_provider = fst provider,
        cp_caller_version = sp_service_version client, cp_provider_version = sp_service_version server,
        cp_environment = the (sp_environment server), cp_method = method_of server, cp_route = route_of server,
        cp_timestamp = sp_end_time server, cp_trace_id = sp_trace_id server, cp_mode = CLIENT_SERVER,
        cp_carrier = Some (carrier_of_span client)\<rparr> st of
      Inl e \<Rightarrow> Inl e | Inr (True, s) \<Rightarrow> Inr s | Inr (False, s) \<Rightarrow> Inr (unresolved (sp_trace_id server) NO_STABLE_ROUTE s)) = Inr st'"
      using step False by simp
    from loop_inv_resolved [OF this inv] show ?thesis using known env by simp
  qed
qed

lemma expired_client_step_inv:
  assumes "expired_client_step ac c st0 = Inr st'" "loop_inv ac clock buffer st0"
  shows "loop_inv ac clock buffer st'"
proof -
  define caller where "caller = service_of ac (ps_service_name c) (ps_service_namespace c)"
  have [simp]: "mintable caller" by (simp add: caller_def)
  define st where "st = record_service caller (ps_service_name c) st0"
  define target where "target = the (ps_target_identity c)"
  define provider where "provider = service_of ac target None"
  have [simp]: "mintable provider" by (simp add: provider_def)
  define st1 where "st1 = record_service provider target st"
  have inv: "loop_inv ac clock buffer st" "loop_inv ac clock buffer st1" using assms(2) by (simp_all add: st_def st1_def)
  have known: "fst caller \<in> subjects ac st1" "fst provider \<in> subjects ac st1"
    unfolding st1_def st_def caller_def provider_def by (intro service_kept service_recorded)+
  note step = assms(1) [unfolded expired_client_step_def Let_def service_of_def [symmetric], folded caller_def target_def,
      folded st_def provider_def, folded st1_def]
  show ?thesis
  proof (cases "\<not> str_true (ps_method c) \<or> \<not> str_true (ps_route c) \<or> \<not> str_true (ps_target_identity c) \<or> \<not> str_true (ps_environment c)")
    case True
    then show ?thesis using step inv(1) by (auto split: if_splits)
  next
    case False
    then have env: "the (ps_environment c) \<noteq> []" by (simp add: str_true_the)
    have "(case build_call_fact ac \<lparr>cp_caller = fst caller, cp_provider = fst provider,
        cp_caller_version = ps_service_version c, cp_provider_version = None,
        cp_environment = the (ps_environment c), cp_method = pending_attribute (ps_method c),
        cp_route = pending_attribute (ps_route c), cp_timestamp = ps_timestamp c, cp_trace_id = ps_trace_id c,
        cp_mode = CLIENT_ONLY, cp_carrier = Some (carrier_of_pending c)\<rparr> st1 of
      Inl e \<Rightarrow> Inl e | Inr (True, s) \<Rightarrow> Inr s | Inr (False, s) \<Rightarrow> Inr (unresolved (ps_trace_id c) NO_STABLE_ROUTE s)) = Inr st'"
      using step False by simp
    from loop_inv_resolved [OF this inv(2)] show ?thesis using known env by simp
  qed
qed

lemma expired_server_step_inv:
  assumes "expired_server_step ac s st0 = Inr st'" "loop_inv ac clock buffer st0"
  shows "loop_inv ac clock buffer st'"
proof -
  define st where "st = unresolved (ps_trace_id s) MISSING_CALLER_IDENTITY
    (record_service (service_of ac (ps_service_name s) (ps_service_namespace s)) (ps_service_name s) st0)"
  have inv: "loop_inv ac clock buffer st" using assms(2) by (simp add: st_def)
  have st': "st' = st\<lparr>hs_refusals := hs_refusals st @ [server_only_refusal (ps_trace_id s) (ps_environment s) (ps_timestamp s)]\<rparr>"
    using assms(1) by (simp add: expired_server_step_def Let_def service_of_def [symmetric] st_def)
  have "http_inv ac st'" using inv server_only_caused unfolding st' loop_inv_def
    by (auto simp: http_inv_def) (simp add: server_only_refusal_def)
  moreover have "buffer_trace clock buffer st'" using inv buffer_trace_cong [of st' st clock buffer] by (simp add: loop_inv_def st')
  ultimately show ?thesis by (simp add: loop_inv_def)
qed

lemma pydantic_truth: "pydantic_str v = Inr x \<Longrightarrow> str_true x = attribute_truth v"
  by (cases v) (auto simp: str_true_def split: if_splits)

lemma pending_server_complete:
  assumes "pending_span_from_server s m r = Inr p" "str_true (sp_environment s)" "attribute_truth m" "attribute_truth r"
  shows "complete_server p"
  using assms pydantic_truth [of m] pydantic_truth [of r]
  by (auto simp: pending_span_from_server_def complete_server_def split: sum.splits)

lemma loop_buffer: "loop_inv ac clock (Some b) st \<Longrightarrow> \<exists>b'. hs_buffer st = Some b' \<and> (ready b \<longrightarrow> ready b')"
  by (auto simp: loop_inv_def buffer_trace_def)

lemma leftover_server_step_inv:
  assumes "leftover_server_step ac clock server st0 = Inr st'" "loop_inv ac clock (Some b) st0"
  shows "loop_inv ac clock (Some b) st'"
proof (cases "\<not> str_true (sp_environment server) \<or> \<not> attribute_truth (method_of server) \<or> \<not> attribute_truth (route_of server)")
  case True
  then show ?thesis using assms by (auto simp: leftover_server_step_def split: if_splits)
next
  case False
  define provider where "provider = service_of ac (sp_service_name server) (sp_service_namespace server)"
  have [simp]: "mintable provider" by (simp add: provider_def)
  define st1 where "st1 = record_service provider (sp_service_name server) st0"
  note step = assms(1) [unfolded leftover_server_step_def Let_def span_service, folded provider_def, folded st1_def]
  have inv1: "loop_inv ac clock (Some b) st1" using assms(2) by (simp add: st1_def)
  obtain pending where pending: "pending_span_from_server server (method_of server) (route_of server) = Inr pending"
    using step False by (cases "pending_span_from_server server (method_of server) (route_of server)") auto
  obtain r st2 where call: "buffer_call clock (\<lambda>now. offer_server now pending) st1 = (r, st2)"
    by (cases "buffer_call clock (\<lambda>now. offer_server now pending) st1")
  have "buffer_trace clock (Some b) st2"
    using offer_server_trace [OF call] pending_server_complete [OF pending] inv1 False by (simp add: loop_inv_def)
  then have inv2: "loop_inv ac clock (Some b) st2" "subjects ac st2 = subjects ac st1"
    using loop_inv_buffer_call [OF call inv1] by auto
  show ?thesis
  proof (cases r)
    case None
    then show ?thesis using step False pending call inv2 by simp
  next
    case (Some client)
    define caller where "caller = service_of ac (ps_service_name client) (ps_service_namespace client)"
    have [simp]: "mintable caller" by (simp add: caller_def)
    define st3 where "st3 = record_service caller (ps_service_name client) st2"
    have "fst provider \<in> subjects ac st1" unfolding provider_def st1_def by (rule service_recorded)
    then have known: "fst caller \<in> subjects ac st3" "fst provider \<in> subjects ac st3"
      unfolding st3_def caller_def using service_recorded service_kept inv2(2) by (simp_all add: service_kept)
    have "map_sum id snd (build_call_fact ac \<lparr>cp_caller = fst caller, cp_provider = fst provider,
        cp_caller_version = ps_service_version client, cp_provider_version = sp_service_version server,
        cp_environment = the (sp_environment server), cp_method = method_of server, cp_route = route_of server,
        cp_timestamp = sp_end_time server, cp_trace_id = sp_trace_id server, cp_mode = CLIENT_SERVER,
        cp_carrier = Some (carrier_of_pending client)\<rparr> st3) = Inr st'"
      using step False pending call Some by (simp add: st3_def caller_def service_of_def)
    from loop_inv_build_snd [OF this] show ?thesis
      using known inv2(1) False by (simp add: st3_def str_true_the)
  qed
qed

lemma leftover_client_step_inv:
  assumes "leftover_client_step ac clock client st0 = Inr st'" "loop_inv ac clock (Some b) st0"
  shows "loop_inv ac clock (Some b) st'"
proof -
  define caller where "caller = service_of ac (sp_service_name client) (sp_service_namespace client)"
  have [simp]: "mintable caller" by (simp add: caller_def)
  define st1 where "st1 = record_service caller (sp_service_name client) st0"
  note step = assms(1) [unfolded leftover_client_step_def Let_def span_service, folded caller_def, folded st1_def]
  have inv1: "loop_inv ac clock (Some b) st1" using assms(2) by (simp add: st1_def)
  obtain pending where pending: "pending_span_from_client client = Inr pending"
    using step by (cases "pending_span_from_client client") auto
  obtain r st2 where call: "buffer_call clock (\<lambda>now. offer_client now pending) st1 = (r, st2)"
    by (cases "buffer_call clock (\<lambda>now. offer_client now pending) st1")
  have "buffer_trace clock (Some b) st2" using offer_client_trace [OF call] inv1 by (simp add: loop_inv_def)
  then have inv2: "loop_inv ac clock (Some b) st2" "subjects ac st2 = subjects ac st1"
    using loop_inv_buffer_call [OF call inv1] by auto
  show ?thesis
  proof (cases r)
    case None
    then show ?thesis using step pending call inv2 by simp
  next
    case (Some server)
    define provider where "provider = service_of ac (ps_service_name server) (ps_service_namespace server)"
    have [simp]: "mintable provider" by (simp add: provider_def)
    define st3 where "st3 = record_service provider (ps_service_name server) st2"
    have complete: "complete_server server"
      using step pending call Some by (auto simp: complete_server_def split: if_splits)
    have "fst caller \<in> subjects ac st1" unfolding caller_def st1_def by (rule service_recorded)
    then have known: "fst caller \<in> subjects ac st3" "fst provider \<in> subjects ac st3"
      unfolding st3_def provider_def using service_recorded service_kept inv2(2) by (simp_all add: service_kept)
    have "map_sum id snd (build_call_fact ac \<lparr>cp_caller = fst caller, cp_provider = fst provider,
        cp_caller_version = sp_service_version client, cp_provider_version = ps_service_version server,
        cp_environment = the (ps_environment server), cp_method = pending_attribute (ps_method server),
        cp_route = pending_attribute (ps_route server), cp_timestamp = ps_timestamp server,
        cp_trace_id = ps_trace_id server, cp_mode = CLIENT_SERVER,
        cp_carrier = Some (carrier_of_span client)\<rparr> st3) = Inr st'"
      using step pending call Some complete by (simp add: st3_def provider_def service_of_def complete_server_def)
    from loop_inv_build_snd [OF this] show ?thesis
      using known inv2(1) complete by (simp add: st3_def str_true_the complete_server_def)
  qed
qed

section \<open>A failing step\<close>

definition fault_ok :: "(nat \<Rightarrow> int) \<Rightarrow> correlation_buffer option \<Rightarrow> telemetry_fault \<times> correlation_buffer option \<Rightarrow> bool" where
  "fault_ok clock buffer f \<longleftrightarrow> (\<exists>st. buffer_trace clock buffer st \<and> snd f = hs_buffer st) \<and>
     (fst f = AssertionError \<longrightarrow> (\<exists>b. buffer = Some b \<and> \<not> ready b))"

lemma fault_okI: "loop_inv ac clock buffer st \<Longrightarrow> e \<noteq> AssertionError \<Longrightarrow> fault_ok clock buffer (e, hs_buffer st)"
  by (auto simp: fault_ok_def loop_inv_def)

lemma fault_ok_build:
  "build_call_fact ac p st = Inl f \<Longrightarrow> loop_inv ac clock buffer st \<Longrightarrow> fault_ok clock buffer f"
  using build_call_fact_fault [of ac p st "fst f" "snd f"] fault_okI [of ac clock buffer st AttributeError] by (cases f) auto

lemma fault_ok_resolved:
  assumes "(case build_call_fact ac p st of Inl e \<Rightarrow> Inl e | Inr (True, s) \<Rightarrow> Inr s | Inr (False, s) \<Rightarrow> Inr (unresolved t r s)) = Inl f"
    "loop_inv ac clock buffer st"
  shows "fault_ok clock buffer f"
proof (cases "build_call_fact ac p st")
  case (Inl e)
  then show ?thesis using assms fault_ok_build [OF Inl] by simp
next
  case (Inr z)
  obtain b s where "z = (b, s)" by (cases z)
  then show ?thesis using assms(1) Inr by (cases b) auto
qed

lemma pair_step_fault:
  assumes "pair_step ac x st0 = Inl f" "loop_inv ac clock buffer st0"
  shows "fault_ok clock buffer f"
proof -
  obtain client server where x: "x = (client, server)" by (cases x)
  note step = assms(1) [unfolded x pair_step_def prod.case Let_def]
  show ?thesis
  proof (cases "\<not> str_true (sp_environment server) \<or> \<not> attribute_truth (method_of server) \<or> \<not> attribute_truth (route_of server)")
    case True
    then show ?thesis using step by (auto split: if_splits)
  next
    case False
    note r = step [unfolded if_not_P [OF False [unfolded de_Morgan_disj, THEN conjunct1]]
        if_not_P [OF False [unfolded de_Morgan_disj [of "\<not> str_true (sp_environment server)"], THEN conjunct2]]]
    show ?thesis using assms(2) by (intro fault_ok_resolved [OF r]) simp
  qed
qed

lemma expired_client_step_fault:
  assumes "expired_client_step ac c st0 = Inl f" "loop_inv ac clock buffer st0"
  shows "fault_ok clock buffer f"
proof (cases "\<not> (str_true (ps_method c) \<and> str_true (ps_route c)) \<or> \<not> str_true (ps_target_identity c) \<or> \<not> str_true (ps_environment c)")
  case True
  then show ?thesis using assms(1) unfolding expired_client_step_def Let_def by (auto split: if_splits)
next
  case False
  then have t: "\<not> (\<not> str_true (ps_method c) \<or> \<not> str_true (ps_route c))" "\<not> \<not> str_true (ps_target_identity c)"
    "\<not> \<not> str_true (ps_environment c)" by auto
  note r = assms(1) [unfolded expired_client_step_def Let_def if_not_P [OF t(1)] if_not_P [OF t(2)] if_not_P [OF t(3)]]
  show ?thesis using assms(2) by (intro fault_ok_resolved [OF r]) simp
qed

lemma leftover_server_step_fault:
  assumes "leftover_server_step ac clock server st0 = Inl f" "loop_inv ac clock (Some b) st0"
  shows "fault_ok clock (Some b) f"
proof (cases "\<not> str_true (sp_environment server) \<or> \<not> attribute_truth (method_of server) \<or> \<not> attribute_truth (route_of server)")
  case True
  then show ?thesis using assms by (auto simp: leftover_server_step_def split: if_splits)
next
  case False
  define provider where "provider = service_of ac (sp_service_name server) (sp_service_namespace server)"
  have [simp]: "mintable provider" by (simp add: provider_def)
  define st1 where "st1 = record_service provider (sp_service_name server) st0"
  note step = assms(1) [unfolded leftover_server_step_def Let_def span_service, folded provider_def, folded st1_def]
  have inv1: "loop_inv ac clock (Some b) st1" using assms(2) by (simp add: st1_def)
  show ?thesis
  proof (cases "pending_span_from_server server (method_of server) (route_of server)")
    case (Inl e)
    then have "f = (e, hs_buffer st1)" "e = ValidationError"
      using step False by (auto simp: pending_span_from_server_def split: sum.splits)
    then show ?thesis using fault_okI [OF inv1, of e] by simp
  next
    case (Inr pending)
    obtain r st2 where call: "buffer_call clock (\<lambda>now. offer_server now pending) st1 = (r, st2)"
      by (cases "buffer_call clock (\<lambda>now. offer_server now pending) st1")
    have "buffer_trace clock (Some b) st2"
      using offer_server_trace [OF call] pending_server_complete [OF Inr] inv1 False by (simp add: loop_inv_def)
    then have inv2: "loop_inv ac clock (Some b) st2" using loop_inv_buffer_call [OF call inv1] by auto
    show ?thesis
    proof (cases r)
      case None
      then show ?thesis using step False Inr call by simp
    next
      case (Some client)
      have "build_call_fact ac \<lparr>cp_caller = fst (service_of ac (ps_service_name client) (ps_service_namespace client)),
          cp_provider = fst provider, cp_caller_version = ps_service_version client,
          cp_provider_version = sp_service_version server, cp_environment = the (sp_environment server),
          cp_method = method_of server, cp_route = route_of server, cp_timestamp = sp_end_time server,
          cp_trace_id = sp_trace_id server, cp_mode = CLIENT_SERVER, cp_carrier = Some (carrier_of_pending client)\<rparr>
          (record_service (service_of ac (ps_service_name client) (ps_service_namespace client)) (ps_service_name client) st2) = Inl f"
        using step False by (simp add: Inr call Some service_of_def map_sum_id_Inl)
      then show ?thesis by (rule fault_ok_build) (simp add: inv2)
    qed
  qed
qed

lemma leftover_client_step_fault:
  assumes "leftover_client_step ac clock client st0 = Inl f" "loop_inv ac clock (Some b) st0"
  shows "fault_ok clock (Some b) f"
proof -
  define caller where "caller = service_of ac (sp_service_name client) (sp_service_namespace client)"
  have [simp]: "mintable caller" by (simp add: caller_def)
  define st1 where "st1 = record_service caller (sp_service_name client) st0"
  note step = assms(1) [unfolded leftover_client_step_def Let_def span_service, folded caller_def, folded st1_def]
  have inv1: "loop_inv ac clock (Some b) st1" using assms(2) by (simp add: st1_def)
  show ?thesis
  proof (cases "pending_span_from_client client")
    case (Inl e)
    then have "f = (e, hs_buffer st1)" "e = ValidationError"
      using step by (auto simp: pending_span_from_client_def split: sum.splits)
    then show ?thesis using fault_okI [OF inv1, of e] by simp
  next
    case (Inr pending)
    obtain r st2 where call: "buffer_call clock (\<lambda>now. offer_client now pending) st1 = (r, st2)"
      by (cases "buffer_call clock (\<lambda>now. offer_client now pending) st1")
    have "buffer_trace clock (Some b) st2" using offer_client_trace [OF call] inv1 by (simp add: loop_inv_def)
    then have inv2: "loop_inv ac clock (Some b) st2" using loop_inv_buffer_call [OF call inv1] by auto
    obtain b1 where b1: "hs_buffer st1 = Some b1" "ready b \<longrightarrow> ready b1" using loop_buffer [OF inv1] by auto
    show ?thesis
    proof (cases r)
      case None
      then show ?thesis using step Inr call by simp
    next
      case (Some server)
      have from_buffer: "fst (offer_client (clock (hs_calls st1)) pending b1) = Some server"
        using buffer_call_rest [OF call] Some b1(1) by simp
      show ?thesis
      proof (cases "complete_server server")
        case True
        have "build_call_fact ac \<lparr>cp_caller = fst caller,
            cp_provider = fst (service_of ac (ps_service_name server) (ps_service_namespace server)),
            cp_caller_version = sp_service_version client, cp_provider_version = ps_service_version server,
            cp_environment = the (ps_environment server), cp_method = pending_attribute (ps_method server),
            cp_route = pending_attribute (ps_route server), cp_timestamp = ps_timestamp server,
            cp_trace_id = ps_trace_id server, cp_mode = CLIENT_SERVER, cp_carrier = Some (carrier_of_span client)\<rparr>
            (record_service (service_of ac (ps_service_name server) (ps_service_namespace server)) (ps_service_name server) st2) = Inl f"
          using step True by (simp add: Inr call Some service_of_def complete_server_def map_sum_id_Inl)
        then show ?thesis by (rule fault_ok_build) (simp add: inv2)
      next
        case False
        then have f: "f = (AssertionError, hs_buffer st2)"
          using step Inr call Some by (simp add: complete_server_def split: if_splits)
        have "\<not> ready b" using ready_offer_client [of b1 "clock (hs_calls st1)" pending] from_buffer False b1(2) by auto
        then show ?thesis using inv2 f by (auto simp: fault_ok_def loop_inv_def)
      qed
    qed
  qed
qed

section \<open>The whole batch\<close>

abbreviation http_start :: "correlation_buffer option \<Rightarrow> http_state" where
  "http_start buffer \<equiv> \<lparr>hs_facts = [], hs_entities = [], hs_unresolved = [], hs_refusals = [], hs_buffer = buffer, hs_calls = 0\<rparr>"

lemma then_step_pass: "then_step (Inr s) f = f s"
  by (simp add: then_step_def)

lemma loop_inv_start: "loop_inv ac clock buffer (http_start buffer)"
  by (simp add: loop_inv_def http_inv_def keyed_def buffer_trace_def exI [of _ "[]"] split: option.splits)

lemma correlate_http_inv:
  assumes "correlate_http_call_observations ac clock spans buffer = Inr st"
  shows "loop_inv ac clock buffer st"
proof -
  obtain pairs cs ss where split: "find_correlated_pairs spans = (pairs, cs, ss)" by (cases "find_correlated_pairs spans")
  obtain st1 where st1: "run_steps (pair_step ac) pairs (http_start buffer) = Inr st1"
    and rest: "(if buffer = None then Inr st1
          else (case buffer_call clock sweep_expired st1 of ((expired_clients, expired_servers), st1) \<Rightarrow>
            then_step (run_steps (expired_client_step ac) expired_clients st1) (\<lambda>st2.
            then_step (run_steps (expired_server_step ac) expired_servers st2) (\<lambda>st3.
            then_step (run_steps (leftover_server_step ac clock) ss st3) (\<lambda>st4.
            run_steps (leftover_client_step ac clock) cs st4))))) = Inr st"
    using assms unfolding correlate_http_call_observations_def split prod.case then_step_Inr by (elim exE conjE)
  have inv1: "loop_inv ac clock buffer st1"
    by (rule run_steps_invariant [OF st1]) (auto intro: loop_inv_start pair_step_inv)
  show ?thesis
  proof (cases buffer)
    case None
    then show ?thesis using rest inv1 by simp
  next
    case (Some b)
    obtain ecs ess st2 where sweep: "buffer_call clock sweep_expired st1 = ((ecs, ess), st2)"
      by (cases "buffer_call clock sweep_expired st1" rule: prod.exhaust) (metis prod.exhaust)
    have inv2: "loop_inv ac clock (Some b) st2"
      using sweep_inv [OF sweep] inv1 Some by simp
    obtain st3 st4 st5 where st3: "run_steps (expired_client_step ac) ecs st2 = Inr st3"
      and st4: "run_steps (expired_server_step ac) ess st3 = Inr st4"
      and st5: "run_steps (leftover_server_step ac clock) ss st4 = Inr st5"
      and last: "run_steps (leftover_client_step ac clock) cs st5 = Inr st"
      using rest by (auto simp: sweep Some then_step_Inr)
    have inv3: "loop_inv ac clock (Some b) st3"
      by (rule run_steps_invariant [OF st3]) (auto intro: inv2 expired_client_step_inv)
    have inv4: "loop_inv ac clock (Some b) st4"
      by (rule run_steps_invariant [OF st4]) (auto intro: inv3 expired_server_step_inv)
    have inv5: "loop_inv ac clock (Some b) st5"
      by (rule run_steps_invariant [OF st5]) (auto intro: inv4 leftover_server_step_inv)
    show ?thesis unfolding Some
      by (rule run_steps_invariant [OF last]) (auto intro: inv5 leftover_client_step_inv)
  qed
qed

text \<open>A failing run of a loop whose steps fail as above.\<close>

lemma run_steps_fault_ok:
  assumes "run_steps f xs st = Inl e" "loop_inv ac clock buffer st"
    and keep: "\<And>x s s'. f x s = Inr s' \<Longrightarrow> loop_inv ac clock buffer s \<Longrightarrow> loop_inv ac clock buffer s'"
    and fault: "\<And>x s. f x s = Inl e \<Longrightarrow> loop_inv ac clock buffer s \<Longrightarrow> fault_ok clock buffer e"
  shows "fault_ok clock buffer e"
proof -
  have "\<exists>x\<in>set xs. \<exists>s. loop_inv ac clock buffer s \<and> f x s = Inl e"
    using assms(1,2) by (rule run_steps_fault) (rule keep)
  then obtain x s where "loop_inv ac clock buffer s" "f x s = Inl e" by (elim bexE exE conjE)
  then show ?thesis using fault by simp
qed

lemma run_steps_loop_inv:
  assumes "run_steps f xs st = Inr st'" "loop_inv ac clock buffer st"
    and keep: "\<And>x s s'. f x s = Inr s' \<Longrightarrow> loop_inv ac clock buffer s \<Longrightarrow> loop_inv ac clock buffer s'"
  shows "loop_inv ac clock buffer st'"
  using assms(1,2) by (rule run_steps_invariant) (rule keep)

lemma expired_server_step_total: "expired_server_step ac s st \<noteq> Inl f"
  by (simp add: expired_server_step_def Let_def)

lemma correlate_http_fault:
  assumes "correlate_http_call_observations ac clock spans buffer = Inl f"
  shows "fault_ok clock buffer f"
proof -
  obtain pairs cs ss where split: "find_correlated_pairs spans = (pairs, cs, ss)" by (cases "find_correlated_pairs spans")
  let ?r1 = "run_steps (pair_step ac) pairs (http_start buffer)"
  show ?thesis
  proof (cases ?r1)
    case (Inl e)
    then have r1: "?r1 = Inl f" using assms by (simp add: correlate_http_call_observations_def split then_step_def)
    show ?thesis by (rule run_steps_fault_ok [OF r1 loop_inv_start]) (rule pair_step_inv pair_step_fault; assumption)+
  next
    case (Inr st1)
    have inv1: "loop_inv ac clock buffer st1"
      by (rule run_steps_loop_inv [OF Inr loop_inv_start]) (rule pair_step_inv)
    obtain b where b: "buffer = Some b"
      using assms Inr by (cases buffer) (simp_all add: correlate_http_call_observations_def split then_step_def)
    obtain ecs ess st2 where sweep: "buffer_call clock sweep_expired st1 = ((ecs, ess), st2)"
      by (cases "buffer_call clock sweep_expired st1" rule: prod.exhaust) (metis prod.exhaust)
    have inv2: "loop_inv ac clock (Some b) st2"
      using sweep_inv [OF sweep] inv1 b by simp
    have rest: "then_step (run_steps (expired_client_step ac) ecs st2) (\<lambda>st2.
            then_step (run_steps (expired_server_step ac) ess st2) (\<lambda>st3.
            then_step (run_steps (leftover_server_step ac clock) ss st3) (\<lambda>st4.
            run_steps (leftover_client_step ac clock) cs st4))) = Inl f"
      using assms Inr b by (simp add: correlate_http_call_observations_def split then_step_pass sweep)
    show ?thesis
    proof (cases "run_steps (expired_client_step ac) ecs st2")
      case (Inl e)
      then have r: "run_steps (expired_client_step ac) ecs st2 = Inl f" using rest by (simp add: then_step_def)
      show ?thesis unfolding b
        by (rule run_steps_fault_ok [OF r inv2]) (rule expired_client_step_inv expired_client_step_fault; assumption)+
    next
      case (Inr st3)
      have inv3: "loop_inv ac clock (Some b) st3"
        by (rule run_steps_loop_inv [OF Inr inv2]) (rule expired_client_step_inv)
      note rest3 = rest [unfolded Inr then_step_def [of "Inr st3"] sum.case]
      show ?thesis
      proof (cases "run_steps (expired_server_step ac) ess st3")
        case (Inl e)
        have "\<exists>x\<in>set ess. \<exists>s. True \<and> expired_server_step ac x s = Inl e" by (rule run_steps_fault [OF Inl]) simp_all
        then show ?thesis by (simp add: expired_server_step_total)
      next
        case (Inr st4)
        have inv4: "loop_inv ac clock (Some b) st4"
          by (rule run_steps_loop_inv [OF Inr inv3]) (rule expired_server_step_inv)
        note rest4 = rest3 [unfolded Inr then_step_def [of "Inr st4"] sum.case]
        show ?thesis
        proof (cases "run_steps (leftover_server_step ac clock) ss st4")
          case (Inl e)
          then have r: "run_steps (leftover_server_step ac clock) ss st4 = Inl f" using rest4 by (simp add: then_step_def)
          show ?thesis unfolding b
            by (rule run_steps_fault_ok [OF r inv4]) (rule leftover_server_step_inv leftover_server_step_fault; assumption)+
        next
          case (Inr st5)
          have inv5: "loop_inv ac clock (Some b) st5"
            by (rule run_steps_loop_inv [OF Inr inv4]) (rule leftover_server_step_inv)
          have r: "run_steps (leftover_client_step ac clock) cs st5 = Inl f" using rest4 Inr by (simp add: then_step_def)
          show ?thesis unfolding b
            by (rule run_steps_fault_ok [OF r inv5]) (rule leftover_client_step_inv leftover_client_step_fault; assumption)+
        qed
      qed
    qed
  qed
qed

section \<open>The messaging loop\<close>

text \<open>A messaging fact: its Service, and an object of the kind its relation allows.\<close>

definition queue_fact :: "adapter_context \<Rightarrow> string set \<Rightarrow> observed_fact_candidate \<Rightarrow> bool" where
  "queue_fact ac E f \<longleftrightarrow> of_subject_id f \<in> dc_id ` set (ac_services ac) \<union> kinded E ServiceLabel \<and>
     formed ac f \<and> of_scoped_seed f = None \<and>
     (of_relation_type f \<in> {''SENDS'', ''RECEIVES_FROM''} \<and> of_object_id f \<in> dc_id ` set (ac_queues ac) \<union> kinded E QueueLabel \<or>
      of_relation_type f = ''PUBLISHES_TO'' \<and> of_object_id f \<in> dc_id ` set (ac_topics ac) \<or>
      of_relation_type f = ''RECEIVES_FROM'' \<and> of_object_id f \<in> ds_id ` set (ac_subscriptions ac) \<and>
        (of_subject_id f, of_object_id f) \<in> set (ac_receivers ac))"

definition queue_inv :: "adapter_context \<Rightarrow> queue_state \<Rightarrow> bool" where
  "queue_inv ac st \<longleftrightarrow> keyed (qs_entities st) \<and> (\<forall>f\<in>set (qs_facts st). queue_fact ac (entity_keys (qs_entities st)) f)"

lemma queue_fact_mono: "queue_fact ac E f \<Longrightarrow> E \<subseteq> E' \<Longrightarrow> queue_fact ac E' f"
  unfolding queue_fact_def using kinded_mono [of E E'] by blast

lemma minted_queue_labelled [simp]: "labelled (minted_queue_id U name namespace) QueueLabel"
  by (simp add: minted_queue_id_def labelled_def)

lemma refuse_inv [simp]: "queue_inv ac (refuse span reason st) = queue_inv ac st"
  by (simp add: queue_inv_def refuse_def)

lemma messaging_relation_types:
  "messaging_relation t = Some (relation, mode) \<Longrightarrow> relation = ''SENDS'' \<or> relation = ''RECEIVES_FROM''"
  by (auto simp: messaging_relation_def split: if_splits)

text \<open>What an accepted target contributes.\<close>

lemma accepted_target_object:
  assumes "accepted_target span relation target entities = Inr (t, obj, entities')"
    "messaging_decision ac span relation = Inr (Inr target)" "relation = ''SENDS'' \<or> relation = ''RECEIVES_FROM''"
    "\<forall>topic subscription. target = SubscriptionTarget topic subscription \<longrightarrow> (service, subscription) \<in> set (ac_receivers ac)"
    "keyed entities"
  shows "keyed entities' \<and> entity_keys entities \<subseteq> entity_keys entities' \<and>
     (t \<in> {''SENDS'', ''RECEIVES_FROM''} \<and> obj \<in> dc_id ` set (ac_queues ac) \<union> kinded (entity_keys entities') QueueLabel \<or>
      t = ''PUBLISHES_TO'' \<and> obj \<in> dc_id ` set (ac_topics ac) \<or>
      t = ''RECEIVES_FROM'' \<and> obj \<in> ds_id ` set (ac_subscriptions ac) \<and> (service, obj) \<in> set (ac_receivers ac))"
proof -
  note declared = decide_messaging_target [OF assms(2) [unfolded messaging_decision_def]]
  show ?thesis
  proof (cases target)
    case (TopicTarget topic)
    then have r: "t = ''PUBLISHES_TO''" "obj = topic" "entities' = entities" using assms(1) by (simp_all add: accepted_target_def)
    have "topic \<in> dc_id ` set (ac_topics ac)" using declared TopicTarget by auto
    then show ?thesis using r assms(5) by simp
  next
    case (SubscriptionTarget topic subscription)
    then have r: "t = ''RECEIVES_FROM''" "obj = subscription" "entities' = entities" using assms(1) by (simp_all add: accepted_target_def)
    have "subscription \<in> ds_id ` set (ac_subscriptions ac)" using declared SubscriptionTarget by auto
    then show ?thesis using r assms(4) SubscriptionTarget assms(5) by simp
  next
    case (QueueTarget d)
    show ?thesis
    proof (cases "dd_status d")
      case DECLARED
      then have r: "t = relation" "obj = dd_queue_id d" "entities' = entities"
        using assms(1) QueueTarget by (simp_all add: accepted_target_def)
      have "dd_queue_id d \<in> dc_id ` set (ac_queues ac)" using declared QueueTarget DECLARED by auto
      then show ?thesis using r assms(3,5) by auto
    next
      case OBSERVED_ONLY
      then obtain name where r: "t = relation" "obj = dd_queue_id d"
        "entities' = record_entity (dd_queue_id d) OBSERVED_ONLY QueueLabel name entities"
        using assms(1) QueueTarget by (auto simp: accepted_target_def split: sum.splits option.splits)
      moreover have "labelled (dd_queue_id d) QueueLabel" using declared QueueTarget OBSERVED_ONLY by auto
      ultimately show ?thesis using assms(3,5) by (auto simp: keyed_record entity_keys_record kinded_def)
    qed
  qed
qed

lemma queue_step_inv:
  assumes "queue_step ac span st = Inr st'" "queue_inv ac st"
  shows "queue_inv ac st'"
proof (cases "operation_type (ac_text ac) (attribute ''messaging.operation.type'' span)")
  case (Inl e)
  then show ?thesis using assms(1) by (simp add: queue_step_def)
next
  case (Inr t)
  note step = assms(1) [unfolded queue_step_def Inr sum.case]
  show ?thesis
  proof (cases "messaging_relation t")
    case None
    then show ?thesis using step assms(2) by simp
  next
    case (Some rm)
    obtain relation mode where rm: "messaging_relation t = Some (relation, mode)" using Some by (cases rm) simp
    note step = step [unfolded rm option.case prod.case]
    show ?thesis
    proof (cases "\<not> attribute_truth (attribute ''messaging.destination.name'' span) \<or> \<not> str_true (sp_environment span)")
      case True
      then show ?thesis using step assms(2) by (auto split: if_splits)
    next
      case False
      then have env: "the (sp_environment span) \<noteq> []" by (simp add: str_true_the)
      have guards: "\<not> \<not> attribute_truth (attribute ''messaging.destination.name'' span)" "\<not> \<not> str_true (sp_environment span)"
        using False by simp_all
      note step = step [unfolded if_not_P [OF guards(1)] if_not_P [OF guards(2)]]
      show ?thesis
      proof (cases "messaging_decision ac span relation")
        case (Inl e)
        then show ?thesis using step by simp
      next
        case (Inr d)
        note step = step [unfolded Inr sum.case]
        show ?thesis
        proof (cases d)
          case (Inl reason)
          then show ?thesis using step assms(2) by auto
        next
          case (Inr target)
          have decided: "messaging_decision ac span relation = Inr (Inr target)"
            using \<open>messaging_decision ac span relation = Inr d\<close> Inr by simp
          note step = step [unfolded Inr sum.case]
          show ?thesis
          proof (cases "decide_service_identity (ac_text ac) (ac_services ac) (sp_service_name span)
                (sp_service_namespace span) (ac_service_aliases ac)")
            case (Inl reason)
            then show ?thesis using step assms(2) by auto
          next
            case (Inr ss)
            obtain service status where ss: "ss = (service, status)" by (cases ss)
            note identity = Inr [unfolded ss]
            note step = step [unfolded identity sum.case prod.case]
            let ?refused = "case target of SubscriptionTarget topic subscription \<Rightarrow>
                \<not> is_declared_receiver (ac_receivers ac) service subscription | _ \<Rightarrow> False"
            let ?recorded = "record_entity service status ServiceLabel (sp_service_name span) (qs_entities st)"
            show ?thesis
            proof (cases ?refused)
              case True
              then show ?thesis using step assms(2) by auto
            next
              case accepted: False
              note step = step [unfolded if_not_P [OF accepted]]
              obtain fact_type obj entities where
                target: "accepted_target span relation target ?recorded = Inr (fact_type, obj, entities)"
                using step by (cases "accepted_target span relation target ?recorded") auto
              have st': "st' = st\<lparr>qs_entities := entities, qs_facts := qs_facts st @
                  [fact_of ac (the (sp_environment span)) service fact_type obj (sp_end_time span)
                    (sp_trace_id span) (sp_service_version span) mode None]\<rparr>"
                using step target by simp
              have receiver: "\<forall>topic subscription. target = SubscriptionTarget topic subscription \<longrightarrow>
                  (service, subscription) \<in> set (ac_receivers ac)"
                using accepted by (auto simp: is_declared_receiver_def)
              have minted: "status = OBSERVED_ONLY \<Longrightarrow> labelled service ServiceLabel"
                using decide_service_minted [of "ac_text ac" "ac_services ac" "sp_service_name span"
                    "sp_service_namespace span" "ac_service_aliases ac" service] identity by auto
              then have keyed: "keyed ?recorded" using assms(2) by (simp add: queue_inv_def keyed_record)
              note new = accepted_target_object [OF target decided messaging_relation_types [OF rm] receiver keyed]
              have service: "service \<in> dc_id ` set (ac_services ac) \<union> kinded (entity_keys ?recorded) ServiceLabel"
                using decide_service_declared [of "ac_text ac" "ac_services ac" "sp_service_name span"
                    "sp_service_namespace span" "ac_service_aliases ac" service] identity minted
                by (cases status) (auto simp: entity_keys_record kinded_def)
              have grown: "kinded (entity_keys ?recorded) ServiceLabel \<subseteq> kinded (entity_keys entities) ServiceLabel"
                using new by (intro kinded_mono) blast
              have "queue_fact ac (entity_keys entities) (fact_of ac (the (sp_environment span)) service fact_type obj
                  (sp_end_time span) (sp_trace_id span) (sp_service_version span) mode None)"
                unfolding queue_fact_def using new service grown env by (simp add: formed_fact_of) (auto simp: fact_of_def)
              moreover have "entity_keys (qs_entities st) \<subseteq> entity_keys entities"
                using new by (auto simp: entity_keys_record)
              ultimately show ?thesis
                using assms(2) new unfolding st' queue_inv_def by (auto elim: queue_fact_mono)
            qed
          qed
        qed
      qed
    qed
  qed
qed

lemma correlate_queue_inv: "correlate_queue_observations ac spans = Inr q \<Longrightarrow> queue_inv ac q"
proof -
  assume "correlate_queue_observations ac spans = Inr q"
  note run = this [unfolded correlate_queue_observations_def]
  show "queue_inv ac q"
    by (rule run_steps_invariant [OF run]) (simp add: queue_inv_def keyed_def, rule queue_step_inv)
qed

lemma messaging_decision_fault: "messaging_decision ac span relation = Inl e \<Longrightarrow> e = TypeError"
proof -
  have key: "alias_of aliases v = Inl e \<Longrightarrow> e = TypeError" for aliases v e
    by (auto simp: alias_of_def split: attribute_value.splits if_splits)
  have matched: "match_declared_queue cs system name aliases = Inl e \<Longrightarrow> e = TypeError" for cs system name aliases e
    using key [of aliases name] by (cases "alias_of aliases name") (auto simp: match_declared_queue_def Let_def split: match_kind.splits)
  have route: "queue_route U cs system name kind aliases = Inl e \<Longrightarrow> e = TypeError" for U cs system name kind aliases e
    using matched [of cs system name aliases]
    by (auto simp: queue_route_def decide_destination_semantics_def Let_def split: if_splits sum.splits match_kind.splits)
  assume "messaging_decision ac span relation = Inl e"
  then show ?thesis unfolding messaging_decision_def decide_messaging_destination_def Let_def
    by (auto dest: route matched split: if_splits sum.splits match_kind.splits)
qed

lemma queue_step_fault: "queue_step ac span st = Inl e \<Longrightarrow> e \<noteq> AssertionError"
proof
  assume f: "queue_step ac span st = Inl e" and e: "e = AssertionError"
  obtain t where t: "operation_type (ac_text ac) (attribute ''messaging.operation.type'' span) = Inr t"
    using f e by (cases "attribute ''messaging.operation.type'' span") (auto simp: queue_step_def split: if_splits)
  obtain relation mode where r: "messaging_relation t = Some (relation, mode)"
  proof (cases "messaging_relation t")
    case None
    then have False using f t by (simp add: queue_step_def)
    then show ?thesis ..
  next
    case (Some p)
    then show ?thesis by (cases p) (rule that, simp)
  qed
  have m: "messaging_decision ac span relation \<noteq> Inl AssertionError" using messaging_decision_fault by blast
  have a: "accepted_target span relation target entities \<noteq> Inl AssertionError" for target entities
    by (simp add: accepted_target_def split: messaging_target.split option.split sum.split)
  show False using f m a by (simp add: queue_step_def t r e split: if_splits sum.splits prod.splits)
qed

lemma correlate_queue_fault: "correlate_queue_observations ac spans = Inl e \<Longrightarrow> e \<noteq> AssertionError"
  using run_steps_fault [of "queue_step ac" spans _ e "\<lambda>_. True"] queue_step_fault
  unfolding correlate_queue_observations_def by blast

section \<open>Entities\<close>

lemma keyed_fold_update:
  "keyed d \<Longrightarrow> distinct (map fst d) \<Longrightarrow> \<forall>e\<in>set es. labelled (en_id e) (en_label e) \<Longrightarrow>
     keyed (fold (\<lambda>e d. AList.update (en_id e) e d) es d) \<and> distinct (map fst (fold (\<lambda>e d. AList.update (en_id e) e d) es d)) \<and>
     fst ` set (fold (\<lambda>e d. AList.update (en_id e) e d) es d) = fst ` set d \<union> en_id ` set es"
proof (induction es arbitrary: d)
  case (Cons e es)
  have "keyed (AList.update (en_id e) e d)" using Cons.prems(1,3) by (simp add: keyed_update)
  moreover have "distinct (map fst (AList.update (en_id e) e d))" using Cons.prems(2) by (rule distinct_update)
  ultimately show ?case using Cons.IH [of "AList.update (en_id e) e d"] Cons.prems(3) by (simp add: dom_update)
qed simp

lemma keyed_values: "keyed d \<Longrightarrow> map en_id (map snd d) = map fst d"
  by (auto simp: keyed_def)

lemma merge_entities_ids:
  assumes "\<forall>e\<in>set es. labelled (en_id e) (en_label e)"
  shows "en_id ` set (merge_entities es) = en_id ` set es" "distinct (map en_id (merge_entities es))"
    "\<forall>e\<in>set (merge_entities es). labelled (en_id e) (en_label e)"
proof -
  let ?d = "fold (\<lambda>e d. AList.update (en_id e) e d) es []"
  have d: "keyed ?d" "distinct (map fst ?d)" "fst ` set ?d = en_id ` set es"
    using keyed_fold_update [of "[]" es] assms by (simp_all add: keyed_def)
  show "\<forall>e\<in>set (merge_entities es). labelled (en_id e) (en_label e)"
    using d(1) by (auto simp: merge_entities_def keyed_def)
  have m: "map en_id (merge_entities es) = map fst ?d" unfolding merge_entities_def by (rule keyed_values [OF d(1)])
  then show "distinct (map en_id (merge_entities es))" using d(2) by simp
  have "set (map en_id (merge_entities es)) = set (map fst ?d)" unfolding m ..
  then show "en_id ` set (merge_entities es) = en_id ` set es" using d(3) by simp
qed

lemma entity_keys_ids: "keyed d \<Longrightarrow> entity_keys d = en_id ` set (map snd d)"
  unfolding entity_keys_def keyed_def by force

lemma adapt_Inr:
  assumes "adapt ac clock spans buffer = Inr (batch, buffer')"
  obtains h q where "correlate_http_call_observations ac clock spans buffer = Inr h"
    "correlate_queue_observations ac spans = Inr q" "buffer' = hs_buffer h"
    "ob_facts batch = hs_facts h @ qs_facts q" "ob_refusals batch = hs_refusals h"
    "ob_unresolved batch = hs_unresolved h @ qs_unresolved q"
    "ob_entities batch = merge_entities (map snd (hs_entities h) @ map snd (qs_entities q))"
proof (cases "correlate_http_call_observations ac clock spans buffer")
  case (Inl e)
  with assms have False by (simp add: adapt_def)
  then show ?thesis ..
next
  case h: (Inr h)
  show ?thesis
  proof (cases "correlate_queue_observations ac spans")
    case (Inl e)
    with assms h have False by (simp add: adapt_def)
    then show ?thesis ..
  next
    case (Inr q)
    from assms h Inr show ?thesis by (intro that [of h q]) (simp_all add: adapt_def, auto)
  qed
qed

lemma adapt_Inl:
  assumes "adapt ac clock spans buffer = Inl f"
  shows "fault_ok clock buffer f"
proof (cases "correlate_http_call_observations ac clock spans buffer")
  case (Inl e)
  then show ?thesis using assms correlate_http_fault [OF Inl] by (simp add: adapt_def)
next
  case (Inr h)
  have h: "loop_inv ac clock buffer h" by (rule correlate_http_inv [OF Inr])
  show ?thesis
  proof (cases "correlate_queue_observations ac spans")
    case (Inl e)
    then have "f = (e, hs_buffer h)" using assms Inr by (simp add: adapt_def)
    then show ?thesis using fault_okI [OF h correlate_queue_fault [OF Inl]] by simp
  next
    case (Inr q)
    then show ?thesis using assms \<open>correlate_http_call_observations ac clock spans buffer = Inr h\<close> by (simp add: adapt_def)
  qed
qed

section \<open>Pairs\<close>

definition correlated :: "runtime_span \<Rightarrow> runtime_span \<Rightarrow> bool" where
  "correlated client server \<longleftrightarrow> sp_span_kind client = ''CLIENT'' \<and> sp_span_kind server = ''SERVER'' \<and>
     sp_trace_id client = sp_trace_id server \<and> sp_parent_span_id server = Some (sp_span_id client)"

lemma map_of_rev_last:
  "map_of (map (\<lambda>x. (f x, x)) (rev xs)) k =
     (if filter (\<lambda>x. f x = k) xs = [] then None else Some (last (filter (\<lambda>x. f x = k) xs)))"
  by (induction xs rule: rev_induct) auto

lemma clients_by_key_last: "clients_by_key spans k =
    (let cs = filter (\<lambda>c. sp_span_kind c = ''CLIENT'' \<and> client_key_of c = k) spans in if cs = [] then None else Some (last cs))"
  unfolding clients_by_key_def map_of_rev_last filter_filter Let_def by (simp only: conj_commute)

lemma correlated_key:
  "correlated c s \<longleftrightarrow> sp_span_kind c = ''CLIENT'' \<and> server_key_of s = Some (client_key_of c)"
  by (auto simp: correlated_def server_key_of_def client_key_of_def)

lemma client_of_server:
  assumes "server_key_of s = Some k"
  shows "clients_by_key spans k =
    (if list_ex (\<lambda>c. correlated c s) spans then Some (last (filter (\<lambda>c. correlated c s) spans)) else None)"
proof -
  have eq: "(sp_span_kind c = ''CLIENT'' \<and> client_key_of c = k) = correlated c s" for c
    using assms by (auto simp: correlated_key)
  have "filter (\<lambda>c. correlated c s) spans = [] \<longleftrightarrow> \<not> list_ex (\<lambda>c. correlated c s) spans"
    by (simp add: filter_empty_conv list_ex_iff)
  then show ?thesis unfolding clients_by_key_last eq Let_def by simp
qed

lemma paired_server: "server_key_of s \<noteq> None \<and> clients_by_key spans (the (server_key_of s)) \<noteq> None \<longleftrightarrow>
    list_ex (\<lambda>c. correlated c s) spans"
proof (cases "server_key_of s")
  case None
  then show ?thesis by (simp add: correlated_key list_ex_iff)
next
  case (Some k)
  then show ?thesis using client_of_server [OF Some, of spans] by auto
qed

lemma matched_client:
  assumes "c \<in> set spans" "sp_span_kind c = ''CLIENT''"
  shows "client_key_of c \<in> (\<lambda>s. the (server_key_of s)) ` set (filter (\<lambda>s. list_ex (\<lambda>c. correlated c s) spans) spans) \<longleftrightarrow>
    list_ex (correlated c) spans"
proof
  assume "client_key_of c \<in> (\<lambda>s. the (server_key_of s)) ` set (filter (\<lambda>s. list_ex (\<lambda>c. correlated c s) spans) spans)"
  then obtain s where s: "s \<in> set spans" "list_ex (\<lambda>c. correlated c s) spans" "client_key_of c = the (server_key_of s)"
    by auto
  then have "server_key_of s = Some (client_key_of c)" by (auto simp: list_ex_iff correlated_key)
  then have "correlated c s" using assms(2) by (simp add: correlated_key)
  then show "list_ex (correlated c) spans" using s(1) by (auto simp: list_ex_iff)
next
  assume "list_ex (correlated c) spans"
  then obtain s where s: "s \<in> set spans" "correlated c s" by (auto simp: list_ex_iff)
  then have "list_ex (\<lambda>c. correlated c s) spans" using assms(1) by (auto simp: list_ex_iff)
  moreover have "client_key_of c = the (server_key_of s)" using s(2) by (simp add: correlated_key)
  ultimately show "client_key_of c \<in> (\<lambda>s. the (server_key_of s)) ` set (filter (\<lambda>s. list_ex (\<lambda>c. correlated c s) spans) spans)"
    using s(1) by auto
qed

lemma paired_servers:
  "map snd (fst (find_correlated_pairs spans)) = filter (\<lambda>s. list_ex (\<lambda>c. correlated c s) spans) spans"
  unfolding find_correlated_pairs_def Let_def fst_conv map_map filter_filter
  using paired_server by (simp add: comp_def cong: filter_cong)

text \<open>C33: the pairing of a batch: every pair is a CLIENT of the batch and a SERVER naming it as its parent in the
  same trace; the paired SERVERs are, in order, exactly those with such a CLIENT, the leftover SERVERs those
  with a parent and none, the leftover CLIENTs those that no SERVER of the batch names.\<close>

theorem pairing_is_exact:
  "find_correlated_pairs spans = (pairs, clients, servers) \<longleftrightarrow>
     map snd pairs = filter (\<lambda>s. list_ex (\<lambda>c. correlated c s) spans) spans \<and>
     map fst pairs = map (\<lambda>s. last (filter (\<lambda>c. correlated c s) spans)) (map snd pairs) \<and>
     clients = filter (\<lambda>c. sp_span_kind c = ''CLIENT'' \<and> \<not> list_ex (correlated c) spans) spans \<and>
     servers = filter (\<lambda>s. sp_span_kind s = ''SERVER'' \<and> sp_parent_span_id s \<noteq> None \<and>
       \<not> list_ex (\<lambda>c. correlated c s) spans) spans"
proof -
  define P where "P s \<longleftrightarrow> list_ex (\<lambda>c. correlated c s) spans" for s
  define client where "client s = clients_by_key spans (the (server_key_of s))" for s
  have paired: "filter (\<lambda>s. client s \<noteq> None) (filter (\<lambda>s. server_key_of s \<noteq> None) spans) = filter P spans"
    unfolding filter_filter P_def client_def using paired_server by (intro filter_cong) auto
  have found: "the (client s) = last (filter (\<lambda>c. correlated c s) spans)" if "P s" for s
  proof -
    obtain k where "server_key_of s = Some k" using \<open>P s\<close> unfolding P_def paired_server [symmetric] by auto
    then show ?thesis using client_of_server [of s k spans] that by (simp add: client_def P_def)
  qed
  have clients: "filter (\<lambda>c. sp_span_kind c = ''CLIENT'' \<and>
      client_key_of c \<notin> set (map (\<lambda>s. the (server_key_of s)) (filter P spans))) spans =
    filter (\<lambda>c. sp_span_kind c = ''CLIENT'' \<and> \<not> list_ex (correlated c) spans) spans"
    unfolding set_map P_def using matched_client [of _ spans] by (intro filter_cong) auto
  have servers: "filter (\<lambda>s. client s = None) (filter (\<lambda>s. server_key_of s \<noteq> None) spans) =
    filter (\<lambda>s. sp_span_kind s = ''SERVER'' \<and> sp_parent_span_id s \<noteq> None \<and> \<not> P s) spans"
    unfolding filter_filter P_def paired_server [symmetric] client_def
    by (intro filter_cong refl) (auto simp: server_key_of_def split: if_splits)
  have r: "find_correlated_pairs spans = (map (\<lambda>s. (last (filter (\<lambda>c. correlated c s) spans), s)) (filter P spans),
      filter (\<lambda>c. sp_span_kind c = ''CLIENT'' \<and> \<not> list_ex (correlated c) spans) spans,
      filter (\<lambda>s. sp_span_kind s = ''SERVER'' \<and> sp_parent_span_id s \<noteq> None \<and> \<not> P s) spans)"
    unfolding find_correlated_pairs_def Let_def client_def [symmetric] paired clients servers
    by (auto intro!: map_cong simp: found)
  have zip: "pairs = map (\<lambda>s. (g s, s)) xs \<longleftrightarrow> map snd pairs = xs \<and> map fst pairs = map g (map snd pairs)"
    for g :: "runtime_span \<Rightarrow> runtime_span" and xs
    by (fastforce simp: comp_def intro!: map_idI [symmetric] prod_eqI)
  show ?thesis unfolding r prod.inject P_def [symmetric] eq_commute [of "map _ _" pairs] eq_commute [of "filter _ _" clients]
      eq_commute [of "filter _ _" servers] zip by blast
qed

section \<open>Facts\<close>

text \<open>The ids a batch mints under one label.\<close>

definition minted :: "observed_only_entity list \<Rightarrow> entity_label \<Rightarrow> string set" where
  "minted entities label = en_id ` {e \<in> set entities. en_label e = label}"

text \<open>The endpoints a fact may have: declared candidates and alias targets, or entities its batch mints under the
  label its relation allows there.\<close>

definition endpoints_known :: "adapter_context \<Rightarrow> observed_only_entity list \<Rightarrow> observed_fact_candidate \<Rightarrow> bool" where
  "endpoints_known ac entities f \<longleftrightarrow>
     of_subject_id f \<in> declared_services ac \<union> minted entities ServiceLabel \<and>
     (if of_relation_type f \<in> {''CALLS'', ''PROVIDES''}
      then of_object_id f \<in> do_id ` set (ac_operations ac) \<union> minted entities OperationLabel
      else if of_relation_type f = ''PUBLISHES_TO'' then of_object_id f \<in> dc_id ` set (ac_topics ac)
      else if of_relation_type f = ''SENDS'' then of_object_id f \<in> dc_id ` set (ac_queues ac) \<union> minted entities QueueLabel
      else of_relation_type f = ''RECEIVES_FROM'' \<and>
        (of_object_id f \<in> dc_id ` set (ac_queues ac) \<union> minted entities QueueLabel \<or>
         of_object_id f \<in> ds_id ` set (ac_subscriptions ac) \<and> (of_subject_id f, of_object_id f) \<in> set (ac_receivers ac)))"

lemma minted_ids: "minted entities label \<subseteq> en_id ` set entities"
  by (auto simp: minted_def)

text \<open>An id of the batch is minted under the label its prefix names.\<close>

lemma kinded_minted:
  assumes "E \<subseteq> en_id ` set entities" "\<forall>e\<in>set entities. labelled (en_id e) (en_label e)"
  shows "kinded E label \<subseteq> minted entities label"
proof
  fix i assume i: "i \<in> kinded E label"
  then obtain e where e: "e \<in> set entities" "en_id e = i" using assms(1) unfolding kinded_def by auto
  have "labelled i label" using i by (simp add: kinded_def)
  moreover have "labelled i (en_label e)" using assms(2) e by auto
  ultimately have "en_label e = label" using labelled_unique by blast
  then show "i \<in> minted entities label" using e by (auto simp: minted_def)
qed

lemma http_fact_endpoints:
  "http_fact ac E f \<Longrightarrow> (\<And>label. kinded E label \<subseteq> minted entities label) \<Longrightarrow> endpoints_known ac entities f"
  unfolding http_fact_def endpoints_known_def by auto

lemma queue_fact_endpoints:
  "queue_fact ac E f \<Longrightarrow> (\<And>label. kinded E label \<subseteq> minted entities label) \<Longrightarrow> endpoints_known ac entities f"
  unfolding queue_fact_def endpoints_known_def declared_services_def by (elim conjE disjE) auto

lemma adapt_invariants:
  assumes "adapt ac clock spans buffer = Inr (batch, buffer')"
  obtains h q where "loop_inv ac clock buffer h" "queue_inv ac q" "buffer' = hs_buffer h"
    "ob_facts batch = hs_facts h @ qs_facts q" "ob_refusals batch = hs_refusals h"
    "en_id ` set (ob_entities batch) = entity_keys (hs_entities h) \<union> entity_keys (qs_entities q)"
    "\<forall>e\<in>set (ob_entities batch). labelled (en_id e) (en_label e)"
proof -
  obtain h q where hq: "correlate_http_call_observations ac clock spans buffer = Inr h"
    "correlate_queue_observations ac spans = Inr q" "buffer' = hs_buffer h" "ob_facts batch = hs_facts h @ qs_facts q"
    "ob_refusals batch = hs_refusals h" "ob_entities batch = merge_entities (map snd (hs_entities h) @ map snd (qs_entities q))"
    using assms by (rule adapt_Inr)
  have inv: "loop_inv ac clock buffer h" "queue_inv ac q"
    by (rule correlate_http_inv [OF hq(1)], rule correlate_queue_inv [OF hq(2)])
  have "keyed (hs_entities h)" "keyed (qs_entities q)"
    using inv by (simp_all add: loop_inv_def http_inv_def queue_inv_def)
  note keyed = this
  have "\<forall>e\<in>set (map snd (hs_entities h) @ map snd (qs_entities q)). labelled (en_id e) (en_label e)"
    using keyed by (auto simp: keyed_def)
  note merged = merge_entities_ids [OF this, folded hq(6)]
  have "en_id ` set (ob_entities batch) = entity_keys (hs_entities h) \<union> entity_keys (qs_entities q)"
    unfolding merged(1) using keyed by (simp add: entity_keys_ids image_Un)
  note merged(3) this
  then show ?thesis using that inv hq by blast
qed

lemma batch_endpoints:
  assumes "adapt ac clock spans buffer = Inr (batch, buffer')" "f \<in> set (ob_facts batch)"
  shows "endpoints_known ac (ob_entities batch) f"
proof -
  obtain h q where hq: "loop_inv ac clock buffer h" "queue_inv ac q" "ob_facts batch = hs_facts h @ qs_facts q"
    "en_id ` set (ob_entities batch) = entity_keys (hs_entities h) \<union> entity_keys (qs_entities q)"
    "\<forall>e\<in>set (ob_entities batch). labelled (en_id e) (en_label e)"
    using assms(1) by (rule adapt_invariants)
  have http: "kinded (entity_keys (hs_entities h)) label \<subseteq> minted (ob_entities batch) label"
    and queue: "kinded (entity_keys (qs_entities q)) label \<subseteq> minted (ob_entities batch) label" for label
    using hq(4) by (intro kinded_minted [OF _ hq(5)]; blast)+
  consider "f \<in> set (hs_facts h)" | "f \<in> set (qs_facts q)" using assms(2) hq(3) by auto
  then show ?thesis
  proof cases
    case 1
    then have "http_fact ac (entity_keys (hs_entities h)) f" using hq(1) by (simp add: loop_inv_def http_inv_def)
    then show ?thesis by (rule http_fact_endpoints) (rule http)
  next
    case 2
    then have "queue_fact ac (entity_keys (qs_entities q)) f" using hq(2) by (simp add: queue_inv_def)
    then show ?thesis by (rule queue_fact_endpoints) (rule queue)
  qed
qed

text \<open>C11: a batch names no endpoint it does not know, and mints each one under the label its relation allows there:
  every fact runs from a declared Service, an alias target or an entity minted with the Service label; its
  object is, for CALLS and PROVIDES, a declared Operation or one minted with the Operation label, for SENDS and
  RECEIVES_FROM a declared Queue or one minted with the Queue label.  It publishes only to declared Topics, and
  receives from a Subscription only for its declared receivers.  No id of a batch is minted twice.\<close>

theorem fact_endpoints_known:
  assumes "adapt ac clock spans buffer = Inr (batch, buffer')"
  shows "(\<forall>f\<in>set (ob_facts batch). endpoints_known ac (ob_entities batch) f) \<and> distinct (map en_id (ob_entities batch))"
proof
  show "\<forall>f\<in>set (ob_facts batch). endpoints_known ac (ob_entities batch) f" using batch_endpoints [OF assms] by blast
  obtain h q where hq: "correlate_http_call_observations ac clock spans buffer = Inr h"
    "correlate_queue_observations ac spans = Inr q"
    "ob_entities batch = merge_entities (map snd (hs_entities h) @ map snd (qs_entities q))"
    using assms by (rule adapt_Inr)
  have "keyed (hs_entities h)" "keyed (qs_entities q)"
    using correlate_http_inv [OF hq(1)] correlate_queue_inv [OF hq(2)] by (simp_all add: loop_inv_def http_inv_def queue_inv_def)
  then have "\<forall>e\<in>set (map snd (hs_entities h) @ map snd (qs_entities q)). labelled (en_id e) (en_label e)"
    by (auto simp: keyed_def)
  then show "distinct (map en_id (ob_entities batch))" unfolding hq(3) by (rule merge_entities_ids(2))
qed

text \<open>Every fact of a batch carries one observation of evidence, in the UTC day bucket of its own timestamp and
  environment, under the id of its own subject, relation and object; a scoped seed rides only on a CALLS fact
  and describes the same interaction.\<close>

theorem fact_evidence_formed:
  assumes "adapt ac clock spans buffer = Inr (batch, buffer')" "f \<in> set (ob_facts batch)"
  shows "formed ac f \<and> oe_observation_count (of_evidence f) = 1 \<and>
    oe_bucket_start (of_evidence f) \<le> of_timestamp f \<and> of_timestamp f < oe_bucket_end (of_evidence f)"
proof -
  obtain h q where hq: "loop_inv ac clock buffer h" "queue_inv ac q" "ob_facts batch = hs_facts h @ qs_facts q"
    using assms(1) by (rule adapt_invariants)
  have "formed ac f"
    using assms(2) hq by (auto simp: loop_inv_def http_inv_def http_fact_def queue_inv_def queue_fact_def)
  moreover from this obtain mode where "of_evidence f = seed_evidence_of ac (of_environment f) (of_subject_id f)
      (of_relation_type f) (of_object_id f) (of_timestamp f) (of_trace_id f) (of_source_service_version f) mode"
    unfolding formed_def by (elim conjE exE)
  ultimately show ?thesis using day_bucket_contains [of "of_timestamp f" "fst (day_bucket (of_timestamp f))" "snd (day_bucket (of_timestamp f))"]
    by (simp add: seed_evidence_of_def)
qed

text \<open>C12: scoped accounting: the CALLS facts of a batch that carry no scoped seed are, in order, exactly its
  ingestion refusals that leave v1 evidence unchanged, trace by trace.\<close>

theorem unseeded_calls_refused:
  assumes "adapt ac clock spans buffer = Inr (batch, buffer')"
  shows "map of_trace_id (filter unseeded_call (ob_facts batch)) = map sr_trace_id (filter sr_v1_unchanged (ob_refusals batch))"
proof -
  obtain h q where hq: "loop_inv ac clock buffer h" "queue_inv ac q" "ob_facts batch = hs_facts h @ qs_facts q"
    "ob_refusals batch = hs_refusals h"
    using assms(1) by (rule adapt_invariants)
  have "filter unseeded_call (qs_facts q) = []"
    using hq(2) by (auto simp: filter_empty_conv queue_inv_def queue_fact_def unseeded_call_def)
  then show ?thesis using hq(1) unfolding hq(3,4) by (simp add: loop_inv_def http_inv_def)
qed

section \<open>Sequences of batches\<close>

text \<open>The buffer after a batch, failed or not; the clock readings of a batch lie between the times around it.\<close>

definition buffer_after :: "(observation_batch \<times> correlation_buffer option) outcome \<Rightarrow> correlation_buffer option" where
  "buffer_after r = (case r of Inl (e, b) \<Rightarrow> b | Inr (batch, b) \<Rightarrow> b)"

inductive batch_run :: "int \<Rightarrow> nat \<Rightarrow> int \<Rightarrow> correlation_buffer \<Rightarrow> bool" for ttl max_pending where
  fresh: "batch_run ttl max_pending t (new_buffer ttl max_pending)"
| batch: "batch_run ttl max_pending t b \<Longrightarrow> mono clock \<Longrightarrow> t \<le> clock 0 \<Longrightarrow> (\<And>k. clock k \<le> t') \<Longrightarrow>
    buffer_after (adapt ac clock spans (Some b)) = Some b' \<Longrightarrow> batch_run ttl max_pending t' b'"

lemma reachable_later: "reachable ttl m t b \<Longrightarrow> t \<le> t' \<Longrightarrow> \<forall>c. t' \<le> call_time c \<longrightarrow> reachable ttl m (call_time c) (perform c b)"
  by (auto intro: reachable.call)

lemma reachable_calls:
  assumes "map call_time cs = map clock [j..<j + length cs]" "mono clock" "reachable ttl m t b" "t \<le> clock j"
  shows "\<exists>t'. reachable ttl m t' (fold perform cs b) \<and> (cs = [] \<longrightarrow> t' = t) \<and> (cs \<noteq> [] \<longrightarrow> t' = clock (j + length cs - 1))"
  using assms
proof (induction cs arbitrary: j t b)
  case (Cons c cs)
  have c: "call_time c = clock j" "map call_time cs = map clock [Suc j..<Suc j + length cs]"
    using Cons.prems(1) upt_conv_Cons [of j "j + length (c # cs)"] by (simp_all del: upt_Suc)
  have "reachable ttl m (call_time c) (perform c b)" using Cons.prems(3,4) c(1) by (intro reachable.call) simp_all
  moreover have "call_time c \<le> clock (Suc j)" using Cons.prems(2) c(1) by (simp add: monoD)
  ultimately obtain t' where "reachable ttl m t' (fold perform cs (perform c b))" "cs = [] \<longrightarrow> t' = call_time c"
    "cs \<noteq> [] \<longrightarrow> t' = clock (Suc j + length cs - 1)"
    using Cons.IH [OF c(2) Cons.prems(2)] by blast
  then show ?case using c(1) by (intro exI [of _ t']) (cases cs; simp)
qed simp

lemma buffer_after_trace:
  assumes "buffer_after (adapt ac clock spans (Some b)) = Some b'"
  shows "\<exists>cs. map call_time cs = map clock [0..<length cs] \<and> b' = fold perform cs b \<and> (ready b \<longrightarrow> ready b')"
proof -
  have "\<exists>st. buffer_trace clock (Some b) st \<and> hs_buffer st = Some b'"
  proof (cases "adapt ac clock spans (Some b)")
    case (Inl f)
    then show ?thesis using adapt_Inl [OF Inl] assms by (cases f) (auto simp: buffer_after_def fault_ok_def)
  next
    case (Inr r)
    obtain batch buffer' where r: "r = (batch, buffer')" by (cases r)
    obtain h q where h: "loop_inv ac clock (Some b) h" "buffer' = hs_buffer h" using Inr [unfolded r] by (rule adapt_invariants)
    have "hs_buffer h = Some b'" using assms Inr r h(2) by (simp add: buffer_after_def)
    then show ?thesis using h(1) by (auto simp: loop_inv_def)
  qed
  then obtain st where st: "buffer_trace clock (Some b) st" "hs_buffer st = Some b'" by (elim exE conjE)
  then obtain cs where cs: "map call_time cs = map clock [0..<hs_calls st]" "b' = fold perform cs b"
    "ready b \<longrightarrow> ready b'" by (auto simp: buffer_trace_def)
  moreover have "length cs = hs_calls st" using arg_cong [OF cs(1), of length] by simp
  ultimately show ?thesis by (intro exI [of _ cs]) simp
qed

lemma new_buffer_ready: "ready (new_buffer ttl m)"
  by (simp add: ready_def new_buffer_def)

text \<open>A sequence of batches uses the buffer as a sequence of its calls, at a clock that does not go back.\<close>

lemma batch_run_reachable: "batch_run ttl m t b \<Longrightarrow> (\<exists>t'\<le>t. reachable ttl m t' b) \<and> ready b"
proof (induction rule: batch_run.induct)
  case (fresh t)
  show ?case using reachable.start [of ttl m t] new_buffer_ready [of ttl m] by auto
next
  case (batch t b clock t' ac spans b')
  obtain cs where cs: "map call_time cs = map clock [0..<0 + length cs]" "b' = fold perform cs b" "ready b \<longrightarrow> ready b'"
    using buffer_after_trace [OF batch.hyps(5)] by auto
  obtain s where s: "s \<le> t" "reachable ttl m s b" using batch.IH by blast
  obtain s' where s': "reachable ttl m s' b'" "cs = [] \<longrightarrow> s' = s" "cs \<noteq> [] \<longrightarrow> s' = clock (0 + length cs - 1)"
    using reachable_calls [OF cs(1) batch.hyps(2) s(2)] s(1) batch.hyps(3) cs(2) by auto
  have "s' \<le> t'"
  proof (cases "cs = []")
    case True
    then show ?thesis using s'(2) s(1) batch.hyps(3) batch.hyps(4) [of 0] by simp
  next
    case False
    then show ?thesis using s'(3) batch.hyps(4) by simp
  qed
  then show ?case using s'(1) cs(3) batch.IH by blast
qed

text \<open>C10: after any sequence of batches, failed ones included, the buffer is within its bound, and the assertion that
  every stored SERVER span is complete (environment, method, route) never fails in the next batch.\<close>

theorem batches_keep_buffer:
  assumes "batch_run ttl max_pending t b"
  shows "length (cb_clients b) \<le> max_pending \<and> length (cb_servers b) \<le> max_pending \<and>
    adapt ac clock spans (Some b) \<noteq> Inl (AssertionError, b')"
proof -
  obtain t' where t': "reachable ttl max_pending t' b" and r: "ready b" using batch_run_reachable [OF assms] by blast
  have "adapt ac clock spans (Some b) \<noteq> Inl (AssertionError, b')"
    using adapt_Inl [of ac clock spans "Some b" "(AssertionError, b')"] r by (auto simp: fault_ok_def)
  then show ?thesis using reachable_inv [OF t'] by (auto simp: buffer_inv_def store_inv_def)
qed

section \<open>A method that is not a string\<close>

lemma run_steps_passed:
  "run_steps f xs st = Inr st' \<Longrightarrow> x \<in> set xs \<Longrightarrow> \<exists>s s'. f x s = Inr s'"
proof (induction xs arbitrary: st)
  case (Cons y ys)
  obtain s where s: "f y st = Inr s" "run_steps f ys s = Inr st'" using Cons.prems(1) by (rule run_steps_ConsE) auto
  show ?case
  proof (cases "x = y")
    case True
    then show ?thesis using s(1) by blast
  next
    case False
    then show ?thesis using Cons.IH [OF s(2)] Cons.prems(2) by simp
  qed
qed simp

lemma pair_step_nonstring:
  assumes "str_true (sp_environment s)" "attribute ''http.request.method'' s = AOther text True hashable" "attribute_truth (route_of s)"
  shows "pair_step ac (c, s) st \<noteq> Inr st'"
proof -
  have "build_call_fact ac p st1 = Inl (AttributeError, hs_buffer st1)" if "cp_method p = AOther text True hashable" "cp_route p = route_of s"
    for p st1
    using that assms(3) by (simp add: build_call_fact_def resolve_operation_def)
  then show ?thesis using assms by (simp add: pair_step_def Let_def method_of_def)
qed

text \<open>C37: one SERVER span whose \<open>http.request.method\<close> is a non-zero number, paired within its batch, makes the whole
  batch fail: no observation of any span of the batch is returned.\<close>

theorem nonstring_method_fails_batch:
  assumes "client \<in> set spans" "server \<in> set spans" "correlated client server" "str_true (sp_environment server)"
    "attribute ''http.request.method'' server = AOther text True hashable" "attribute_truth (route_of server)"
  shows "\<exists>fault b. adapt ac clock spans buffer = Inl (fault, b)"
proof -
  obtain pairs cs ss where split: "find_correlated_pairs spans = (pairs, cs, ss)" by (cases "find_correlated_pairs spans")
  have "server \<in> set (map snd pairs)"
    using paired_servers [of spans] split assms(1-3) by (auto simp: list_ex_iff)
  then obtain c where "(c, server) \<in> set pairs" by auto
  then have "run_steps (pair_step ac) pairs (http_start buffer) \<noteq> Inr st" for st
    using run_steps_passed [of "pair_step ac" pairs "http_start buffer" st] pair_step_nonstring [OF assms(4-6), of ac] by blast
  then obtain f where "run_steps (pair_step ac) pairs (http_start buffer) = Inl f"
    by (cases "run_steps (pair_step ac) pairs (http_start buffer)") auto
  then have "adapt ac clock spans buffer = Inl f"
    by (simp add: adapt_def correlate_http_call_observations_def split then_step_def)
  then show ?thesis by (cases f) auto
qed

section \<open>Witnesses\<close>

definition ex_text :: text_library where
  "ex_text = \<lparr>tx_lower = id, tx_upper = id, tx_casefold = id, tx_strip = id, tx_nfc = id, tx_bytes_repr = id\<rparr>"

definition ex_context :: adapter_context where
  "ex_context = \<lparr>ac_text = ex_text, ac_hash = id,
     ac_services = [\<lparr>dc_id = ''service:shop'', dc_name = ''shop'', dc_namespace = None\<rparr>], ac_operations = [],
     ac_queues = [\<lparr>dc_id = ''queue:orders'', dc_name = ''orders'', dc_namespace = None\<rparr>], ac_topics = [], ac_subscriptions = [],
     ac_service_aliases = [], ac_queue_aliases = [], ac_topic_aliases = [], ac_receivers = []\<rparr>"

definition ex_span :: "string \<Rightarrow> string \<Rightarrow> string option \<Rightarrow> string \<Rightarrow> (string \<times> attribute_value) list \<Rightarrow> runtime_span" where
  "ex_span kind span parent service attributes =
     \<lparr>sp_trace_id = ''t'', sp_span_id = span, sp_parent_span_id = parent, sp_span_name = [], sp_span_kind = kind,
      sp_service_name = service, sp_service_namespace = None, sp_service_version = None, sp_service_instance_id = None,
      sp_environment = Some ''prod'', sp_k8s_pod_uid = None, sp_k8s_pod_name = None, sp_k8s_namespace_name = None,
      sp_k8s_cluster_uid = None, sp_k8s_deployment_name = None, sp_k8s_statefulset_name = None,
      sp_k8s_daemonset_name = None, sp_start_time = 0, sp_end_time = 5, sp_attributes = attributes\<rparr>"

definition ex_batch :: "attribute_value \<Rightarrow> runtime_span list" where
  "ex_batch m = [ex_span ''CLIENT'' ''c'' None ''shop'' [],
     ex_span ''SERVER'' ''s'' (Some ''c'') ''cart'' [(''http.request.method'', m), (''http.route'', AStr ''/a'')],
     ex_span ''PRODUCER'' ''p'' None ''shop'' [(''messaging.operation.type'', AStr ''send''), (''messaging.destination.name'', AStr ''orders'')]]"

definition ex_result :: "(observation_batch \<times> correlation_buffer option) outcome" where
  "ex_result = adapt ex_context (\<lambda>k. 7) (ex_batch (AStr ''get'')) (Some (new_buffer 60 10))"

lemma ex_result_facts: "case ex_result of Inl e \<Rightarrow> False | Inr (batch, b) \<Rightarrow>
    map of_relation_type (ob_facts batch) = [''CALLS'', ''PROVIDES'', ''SENDS''] \<and> length (ob_refusals batch) = 1 \<and>
    map en_id (ob_entities batch) = [''service:cart'', ''operation:service:cart:GET:/a'']"
  by code_simp

lemma ex_resultE:
  obtains batch b where "adapt ex_context (\<lambda>k. 7) (ex_batch (AStr ''get'')) (Some (new_buffer 60 10)) = Inr (batch, b)"
    "map of_relation_type (ob_facts batch) = [''CALLS'', ''PROVIDES'', ''SENDS'']" "length (ob_refusals batch) = 1"
    "map en_id (ob_entities batch) = [''service:cart'', ''operation:service:cart:GET:/a'']"
  using ex_result_facts unfolding ex_result_def by (auto split: sum.splits)

lemma some_sends: "map of_relation_type fs = [''CALLS'', ''PROVIDES'', ''SENDS''] \<Longrightarrow> fs ! 2 \<in> set fs \<and> of_relation_type (fs ! 2) = ''SENDS''"
  by (auto simp: map_eq_Cons_conv)

lemma fact_endpoints_known_witness:
  "\<exists>(batch :: observation_batch) f. f \<in> set (ob_facts batch) \<and> of_relation_type f = ''SENDS'' \<and> endpoints_known ex_context (ob_entities batch) f"
proof -
  obtain batch b where r: "adapt ex_context (\<lambda>k. 7) (ex_batch (AStr ''get'')) (Some (new_buffer 60 10)) = Inr (batch, b)"
    "map of_relation_type (ob_facts batch) = [''CALLS'', ''PROVIDES'', ''SENDS'']" by (rule ex_resultE)
  then show ?thesis using some_sends [OF r(2)] fact_endpoints_known [OF r(1)] by blast
qed

lemma fact_evidence_formed_witness:
  "\<exists>(batch :: observation_batch) f. f \<in> set (ob_facts batch) \<and> of_relation_type f = ''SENDS'' \<and> formed ex_context f"
proof -
  obtain batch b where r: "adapt ex_context (\<lambda>k. 7) (ex_batch (AStr ''get'')) (Some (new_buffer 60 10)) = Inr (batch, b)"
    "map of_relation_type (ob_facts batch) = [''CALLS'', ''PROVIDES'', ''SENDS'']" by (rule ex_resultE)
  then show ?thesis using some_sends [OF r(2)] fact_evidence_formed [OF r(1)] by blast
qed

lemma unseeded_calls_refused_witness:
  "\<exists>batch :: observation_batch. length (ob_refusals batch) = 1 \<and>
     map of_trace_id (filter unseeded_call (ob_facts batch)) = map sr_trace_id (filter sr_v1_unchanged (ob_refusals batch))"
proof -
  obtain batch b where r: "adapt ex_context (\<lambda>k. 7) (ex_batch (AStr ''get'')) (Some (new_buffer 60 10)) = Inr (batch, b)"
    "length (ob_refusals batch) = 1" by (rule ex_resultE)
  then show ?thesis using unseeded_calls_refused [OF r(1)] by blast
qed

definition ex_pending :: "runtime_span list" where
  "ex_pending = [ex_span ''SERVER'' ''s'' (Some ''c'') ''cart'' [(''http.request.method'', AStr ''get''), (''http.route'', AStr ''/a'')]]"

lemma batches_keep_buffer_witness:
  "\<exists>b. length (cb_servers b) = 1 \<and> adapt ex_context (\<lambda>k. 9) (ex_batch (AStr ''get'')) (Some b) \<noteq> Inl (AssertionError, None)"
proof -
  have "case buffer_after (adapt ex_context (\<lambda>k. 7) ex_pending (Some (new_buffer 60 10))) of
      None \<Rightarrow> False | Some b \<Rightarrow> length (cb_servers b) = 1" by code_simp
  then obtain b where b: "buffer_after (adapt ex_context (\<lambda>k. 7) ex_pending (Some (new_buffer 60 10))) = Some b"
    "length (cb_servers b) = 1" by (auto split: option.splits)
  have "batch_run 60 10 7 b" by (rule batch_run.batch [OF batch_run.fresh [of 60 10 0] _ _ _ b(1)]) (simp_all add: mono_def)
  then show ?thesis using b(2) batches_keep_buffer [of 60 10 7 b ex_context "\<lambda>k. 9" "ex_batch (AStr ''get'')" None] by blast
qed

lemma nonstring_method_fails_batch_witness:
  "\<exists>fault b. adapt ex_context (\<lambda>k. 7) (ex_batch (AOther ''200'' True True)) None = Inl (fault, b)"
  by (rule nonstring_method_fails_batch [of "hd (ex_batch (AOther ''200'' True True))" _ "ex_batch (AOther ''200'' True True) ! 1"
        "''200''" True])
    (simp_all add: ex_batch_def ex_span_def correlated_def str_true_def attribute_def route_of_def attribute_or_def)

end
