(* ===== verification/ObservationStore.thy ===== *)
theory ObservationStore
  imports TelemetryFacts GraphImport
begin

text \<open>
  \<open>telemetry/aggregator.py\<close> and \<open>telemetry/scoped_ledger.py\<close>: what one unit (the
  observation batch of one POST) writes, and the transition report read back from it.  A unit is one
  transaction, so a fault leaves the store as it was.  Evidence, identity observations, scoped records and
  the three internal node kinds are maps by id.  SHA-256 enters as \<open>key_id\<close> (scoped record ids),
  \<open>counter_id\<close> and \<open>digest\<close> (of the newline-joined bucket ids).
\<close>

abbreviation "V1_ID_PREFIX \<equiv> ''evidence:otel:''"
abbreviation "SCOPED_CALL_V2_ID_PREFIX \<equiv> ''evidence:otel:calls-scoped:v2:''"

datatype category = SCOPED_V2_WRITTEN | SCOPED_V2_REFUSED

text \<open>Environment, UTC day, category and primary reason.\<close>

type_synonym counter_key = "string option \<times> string \<times> category \<times> ingress_reason option"

record transition_counter =
  tc_stream :: string
  tc_key :: counter_key
  tc_count :: nat
  tc_last_revision :: nat

record cutover =
  cu_stream :: string
  cu_count :: nat
  cu_digest :: string
  cu_enabled_at :: "nat option"

record legacy_bucket =
  lb_cutover_revision :: "nat option"
  lb_mixed_at :: "nat option"

record observation_store =
  os_graph :: graph_store
  os_evidence :: "(string \<times> observed_evidence) list"
  os_identities :: "(string \<times> runtime_identity_observation) list"
  os_scoped :: "(string \<times> scoped_observed_call) list"
  os_cutover :: "cutover option"
  os_legacy :: "(string \<times> legacy_bucket) list"
  os_counters :: "(string \<times> transition_counter) list"

record ledger_hashes =
  lh_key_id :: "scoped_key \<Rightarrow> string"
  lh_counter_id :: "string \<Rightarrow> counter_key \<Rightarrow> string"
  lh_digest :: "string list \<Rightarrow> string"

datatype unit_fault = UnknownRelationType string | MergeFault merge_error | EmptyCause | RevisionMissing

section \<open>Entities, facts, identities\<close>

definition label_value :: "entity_label \<Rightarrow> string" where
  "label_value l = (case l of ServiceLabel \<Rightarrow> ''Service'' | OperationLabel \<Rightarrow> ''Operation'' | QueueLabel \<Rightarrow> ''Queue'')"

definition merge_stub_node :: "observed_only_entity \<Rightarrow> graph_store \<Rightarrow> graph_store" where
  "merge_stub_node e g =
     (if map_of (gs_nodes g) (en_id e) \<noteq> None then g
      else g\<lparr>gs_nodes := gs_nodes g @ [(en_id e, \<lparr>nr_label = label_value (en_label e),
        nr_props = [(''name'', PStr (en_name e)), (''discovery_status'', PStr ''OBSERVED_ONLY'')], nr_owners = []\<rparr>)]\<rparr>)"

text \<open>\<open>_MERGE_FACT_RELATION_QUERY\<close>: the owners of the relationship are never touched.\<close>

definition merge_fact_relation :: "string \<Rightarrow> string \<Rightarrow> string \<Rightarrow> string \<Rightarrow> graph_store \<Rightarrow> graph_store" where
  "merge_fact_relation subject relation_type object_id evidence_id g =
     (if map_of (gs_nodes g) subject = None \<or> map_of (gs_nodes g) object_id = None then g
      else let i = (relation_type, subject, object_id);
               row = (case map_of (gs_relations g) i of Some row \<Rightarrow> row
                      | None \<Rightarrow> \<lparr>rr_key = [], rr_owners = [], rr_evidence = []\<rparr>) in
        g\<lparr>gs_relations := AList.update i (row\<lparr>rr_evidence := add_owner evidence_id (rr_evidence row)\<rparr>) (gs_relations g)\<rparr>)"

definition persist_fact :: "observed_fact_candidate \<Rightarrow> observation_store \<Rightarrow> unit_fault + observation_store" where
  "persist_fact f st =
     (if of_relation_type f \<notin> set known_relation_types then Inl (UnknownRelationType (of_relation_type f))
      else let merged = merge_evidence (map_of (os_evidence st) (oe_id (of_evidence f))) (of_evidence f) in
        Inr (st\<lparr>os_evidence := AList.update (oe_id merged) merged (os_evidence st),
          os_graph := merge_fact_relation (of_subject_id f) (of_relation_type f) (of_object_id f) (oe_id merged) (os_graph st)\<rparr>))"

definition persist_runtime_identity_observation ::
  "runtime_identity_observation \<Rightarrow> observation_store \<Rightarrow> observation_store" where
  "persist_runtime_identity_observation obs st =
     (let merged = merge_runtime_identity_observation (map_of (os_identities st) (ri_id obs)) obs in
      st\<lparr>os_identities := AList.update (ri_id merged) merged (os_identities st)\<rparr>)"

definition persist_scoped_seed :: "scoped_observed_call \<Rightarrow> observation_store \<Rightarrow> unit_fault + observation_store" where
  "persist_scoped_seed seed_record st =
     (case merge_scoped_call (map_of (os_scoped st) (sc_id seed_record)) seed_record of
        Inl e \<Rightarrow> Inl (MergeFault e)
      | Inr merged \<Rightarrow> Inr (st\<lparr>os_scoped := AList.update (sc_id merged) merged (os_scoped st),
          os_graph := (os_graph st)\<lparr>gs_has_scoped_calls := True\<rparr>\<rparr>))"

section \<open>The cutover ledger\<close>

definition starts_with :: "string \<Rightarrow> string \<Rightarrow> bool" where
  "starts_with p s = (take (length p) s = p)"

definition v1_bucket :: "string \<Rightarrow> bool" where
  "v1_bucket i \<longleftrightarrow> starts_with V1_ID_PREFIX i \<and> \<not> starts_with SCOPED_CALL_V2_ID_PREFIX i"

definition pre_enablement_buckets :: "graph_store \<Rightarrow> string list" where
  "pre_enablement_buckets g = sorted_set (filter v1_bucket
     (concat (map (\<lambda>((t, _, _), row). if t = ''CALLS'' then rr_evidence row else []) (gs_relations g))))"

definition ensure_cutover :: "ledger_hashes \<Rightarrow> string \<Rightarrow> observation_store \<Rightarrow> bool \<times> observation_store" where
  "ensure_cutover L stream_id st =
     (if os_cutover st \<noteq> None then (False, st)
      else let bucket_ids = pre_enablement_buckets (os_graph st) in
        (True, st\<lparr>os_cutover := Some \<lparr>cu_stream = stream_id, cu_count = length bucket_ids,
            cu_digest = lh_digest L (sort bucket_ids), cu_enabled_at = None\<rparr>,
          os_legacy := fold (\<lambda>i d. if map_of d i = None then d @ [(i, \<lparr>lb_cutover_revision = None, lb_mixed_at = None\<rparr>)] else d)
            bucket_ids (os_legacy st)\<rparr>))"

section \<open>The counters\<close>

definition refusal_key :: "scoped_ingress_refusal \<Rightarrow> unit_fault + counter_key" where
  "refusal_key r = (case primary_cause r of None \<Rightarrow> Inl EmptyCause
     | Some c \<Rightarrow> Inr (sr_environment r, sr_bucket_utc_day r, SCOPED_V2_REFUSED, Some c))"

definition seed_key :: "scoped_call_seed \<Rightarrow> counter_key" where
  "seed_key s = (case sd_key s of (environment, day, _) \<Rightarrow> (Some environment, day, SCOPED_V2_WRITTEN, None))"

definition count_key :: "counter_key \<Rightarrow> (counter_key \<times> nat) list \<Rightarrow> (counter_key \<times> nat) list" where
  "count_key k d = AList.update k (case map_of d k of None \<Rightarrow> 1 | Some n \<Rightarrow> Suc n) d"

fun count_refusals :: "scoped_ingress_refusal list \<Rightarrow> (counter_key \<times> nat) list \<Rightarrow> unit_fault + (counter_key \<times> nat) list" where
  "count_refusals [] d = Inr d"
| "count_refusals (r # rs) d = (case refusal_key r of Inl e \<Rightarrow> Inl e | Inr k \<Rightarrow> count_refusals rs (count_key k d))"

definition counter_deltas :: "observation_batch \<Rightarrow> unit_fault + (counter_key \<times> nat) list" where
  "counter_deltas b = count_refusals (ob_refusals b)
     (fold count_key (map seed_key (somes (map of_scoped_seed (ob_facts b)))) [])"

definition touched_v1_call_buckets :: "observation_batch \<Rightarrow> string list" where
  "touched_v1_call_buckets b = sorted_set (filter v1_bucket
     (map (\<lambda>f. oe_id (of_evidence f)) (filter (\<lambda>f. of_relation_type f = ''CALLS'') (ob_facts b))))"

definition increment_counter :: "ledger_hashes \<Rightarrow> string \<Rightarrow> nat \<Rightarrow> counter_key \<times> nat
     \<Rightarrow> (string \<times> transition_counter) list \<Rightarrow> (string \<times> transition_counter) list" where
  "increment_counter L stream_id revision = (\<lambda>(k, delta) d.
     let i = lh_counter_id L stream_id k;
         row = (case map_of d i of Some row \<Rightarrow> row
           | None \<Rightarrow> \<lparr>tc_stream = stream_id, tc_key = k, tc_count = 0, tc_last_revision = revision\<rparr>) in
     AList.update i (row\<lparr>tc_count := tc_count row + delta, tc_last_revision := revision\<rparr>) d)"

definition mark_mixed :: "string list \<Rightarrow> nat \<Rightarrow> (string \<times> legacy_bucket) list \<Rightarrow> (string \<times> legacy_bucket) list" where
  "mark_mixed touched revision = map (\<lambda>(i, b). (i,
     if i \<in> set touched \<and> lb_mixed_at b = None then b\<lparr>lb_mixed_at := Some revision\<rparr> else b))"

definition set_cutover_revision :: "nat \<Rightarrow> observation_store \<Rightarrow> observation_store" where
  "set_cutover_revision revision st =
     st\<lparr>os_cutover := map_option (\<lambda>c. c\<lparr>cu_enabled_at := Some revision\<rparr>) (os_cutover st),
        os_legacy := map (\<lambda>(i, b). (i, if lb_cutover_revision b = None then b\<lparr>lb_cutover_revision := Some revision\<rparr> else b))
          (os_legacy st)\<rparr>"

definition finalize_unit :: "ledger_hashes \<Rightarrow> string \<Rightarrow> observation_batch \<Rightarrow> nat \<Rightarrow> bool \<Rightarrow> observation_store
     \<Rightarrow> unit_fault + observation_store" where
  "finalize_unit L stream_id b revision cutover_written st0 =
     (let st = (if cutover_written then set_cutover_revision revision st0 else st0);
          touched = touched_v1_call_buckets b;
          st1 = (if touched \<noteq> [] then st\<lparr>os_legacy := mark_mixed touched revision (os_legacy st)\<rparr> else st) in
      case counter_deltas b of
        Inl e \<Rightarrow> Inl e
      | Inr deltas \<Rightarrow> Inr (st1\<lparr>os_counters := fold (increment_counter L stream_id revision)
          (sort_key (\<lambda>(k, _). lh_counter_id L stream_id k) deltas) (os_counters st1)\<rparr>))"

section \<open>One unit\<close>

definition scoped_writes :: "ledger_hashes \<Rightarrow> observation_batch \<Rightarrow> observation_store \<Rightarrow> unit_fault + observation_store" where
  "scoped_writes L b st = run_steps persist_scoped_seed
     (sort_key sc_id (map (record_from_seed (lh_key_id L)) (somes (map of_scoped_seed (ob_facts b))))) st"

definition persist_batch :: "ledger_hashes \<Rightarrow> string option \<Rightarrow> observation_batch \<Rightarrow> observation_store
     \<Rightarrow> unit_fault + observation_store" where
  "persist_batch L scoped_stream_id b st0 =
     (let (cutover_written, st1) = (case scoped_stream_id of None \<Rightarrow> (False, st0) | Some s \<Rightarrow> ensure_cutover L s st0);
          st2 = st1\<lparr>os_graph := fold merge_stub_node (ob_entities b) (os_graph st1)\<rparr> in
      then_step (run_steps persist_fact (ob_facts b) st2) (\<lambda>st3.
        let st4 = fold persist_runtime_identity_observation (ob_identities b) st3 in
        then_step (if scoped_stream_id = None then Inr st4 else scoped_writes L b st4) (\<lambda>st5.
          let st6 = st5\<lparr>os_graph := bump_revision (os_graph st5)\<rparr> in
          case scoped_stream_id of None \<Rightarrow> Inr st6
          | Some s \<Rightarrow> (case gs_revision (os_graph st6) of None \<Rightarrow> Inl RevisionMissing
              | Some revision \<Rightarrow> finalize_unit L s b revision cutover_written st6))))"

record scoped_evidence_config =
  se_enabled :: bool
  se_stream_id :: string

definition persist_observation_batch :: "ledger_hashes \<Rightarrow> scoped_evidence_config option \<Rightarrow> observation_batch
     \<Rightarrow> observation_store \<Rightarrow> unit_fault + observation_store" where
  "persist_observation_batch L scoped b st =
     persist_batch L (case scoped of None \<Rightarrow> None | Some c \<Rightarrow> if se_enabled c then Some (se_stream_id c) else None) b
       (st\<lparr>os_graph := ensure_revision_singleton (os_graph st)\<rparr>)"

section \<open>The transition report\<close>

datatype unknown_reason = NO_LEDGER | STREAM_ID_MISMATCH | MEMBERSHIP_MISMATCH

record legacy_history =
  lg_unknown_reason :: "unknown_reason option"
  lg_enabled_at_revision :: "nat option"
  lg_legacy_unscoped_buckets :: "nat option"
  lg_mixed_buckets :: "nat option"

record transition_report =
  tr_stream_id :: string
  tr_as_of_revision :: nat
  tr_legacy :: legacy_history
  tr_written :: "transition_counter list"
  tr_refused :: "transition_counter list"

definition classify_legacy :: "ledger_hashes \<Rightarrow> cutover option \<Rightarrow> (string \<times> legacy_bucket) list \<Rightarrow> string \<Rightarrow> legacy_history" where
  "classify_legacy L ledger membership stream_id =
     (let unknown = (\<lambda>r e. \<lparr>lg_unknown_reason = Some r, lg_enabled_at_revision = e, lg_legacy_unscoped_buckets = None,
            lg_mixed_buckets = None\<rparr>) in
      case ledger of None \<Rightarrow> unknown NO_LEDGER None
      | Some c \<Rightarrow>
          if cu_stream c \<noteq> stream_id then unknown STREAM_ID_MISMATCH (cu_enabled_at c)
          else if length membership \<noteq> cu_count c \<or> lh_digest L (sort (map fst membership)) \<noteq> cu_digest c
          then unknown MEMBERSHIP_MISMATCH (cu_enabled_at c)
          else (let mixed = length (filter (\<lambda>(_, b). lb_mixed_at b \<noteq> None) membership) in
            \<lparr>lg_unknown_reason = None, lg_enabled_at_revision = cu_enabled_at c,
             lg_legacy_unscoped_buckets = Some (length membership - mixed), lg_mixed_buckets = Some mixed\<rparr>))"

definition row_order :: "transition_counter \<Rightarrow> string list" where
  "row_order r = (case tc_key r of (environment, day, _, reason) \<Rightarrow>
     [day, case environment of None \<Rightarrow> [] | Some e \<Rightarrow> e, case reason of None \<Rightarrow> [] | Some c \<Rightarrow> reason_code c])"

definition counter_rows :: "category \<Rightarrow> string \<Rightarrow> (string \<times> transition_counter) list \<Rightarrow> transition_counter list" where
  "counter_rows c stream_id counters = sort_key row_order
     (filter (\<lambda>r. tc_stream r = stream_id \<and> fst (snd (snd (tc_key r))) = c) (map snd counters))"

text \<open>The three reads of one attempt see the committed stores of their own moments.\<close>

definition read_report_once :: "ledger_hashes \<Rightarrow> observation_store \<Rightarrow> observation_store \<Rightarrow> observation_store \<Rightarrow> string \<Rightarrow> nat
     \<Rightarrow> transition_report" where
  "read_report_once L at_ledger at_membership at_counters stream_id revision =
     \<lparr>tr_stream_id = stream_id, tr_as_of_revision = revision,
      tr_legacy = classify_legacy L (os_cutover at_ledger) (os_legacy at_membership) stream_id,
      tr_written = counter_rows SCOPED_V2_WRITTEN stream_id (os_counters at_counters),
      tr_refused = counter_rows SCOPED_V2_REFUSED stream_id (os_counters at_counters)\<rparr>"

datatype report_fault = RevisionSingletonMissing | TransitionReportUnstable

definition read_revision :: "observation_store \<Rightarrow> report_fault + nat" where
  "read_revision st = (case gs_revision (os_graph st) of None \<Rightarrow> Inl RevisionSingletonMissing | Some n \<Rightarrow> Inr n)"

text \<open>\<open>h k\<close> is the committed store at the k-th read of the caller; an attempt makes five reads.\<close>

fun read_transition_report :: "ledger_hashes \<Rightarrow> (nat \<Rightarrow> observation_store) \<Rightarrow> string \<Rightarrow> nat \<Rightarrow> nat
     \<Rightarrow> report_fault + transition_report" where
  "read_transition_report L h stream_id 0 k = Inl TransitionReportUnstable"
| "read_transition_report L h stream_id (Suc attempts) k =
     (case read_revision (h k) of Inl e \<Rightarrow> Inl e
      | Inr revision_before \<Rightarrow>
          (case read_revision (h (k + 4)) of Inl e \<Rightarrow> Inl e
           | Inr revision_after \<Rightarrow>
               if revision_after = revision_before
               then Inr (read_report_once L (h (k + 1)) (h (k + 2)) (h (k + 3)) stream_id revision_before)
               else read_transition_report L h stream_id attempts (k + 5)))"

end
