(* ===== verification/UnitAccounting.thy ===== *)
theory UnitAccounting
  imports ObservationStore
begin

text \<open>
  What a unit of \<open>telemetry/aggregator.py\<close> adds to the store, counted exactly, and what it may not
  take away; the cutover ledger over sequences of units; what a transition report is a report of.
\<close>

section \<open>Counts\<close>

definition evidence_count :: "observation_store \<Rightarrow> string \<Rightarrow> int" where
  "evidence_count st i = (case map_of (os_evidence st) i of None \<Rightarrow> 0 | Some e \<Rightarrow> oe_observation_count e)"

definition identity_count :: "observation_store \<Rightarrow> string \<Rightarrow> int" where
  "identity_count st i = (case map_of (os_identities st) i of None \<Rightarrow> 0 | Some e \<Rightarrow> ri_observation_count e)"

definition scoped_count :: "observation_store \<Rightarrow> string \<Rightarrow> int" where
  "scoped_count st i = (case map_of (os_scoped st) i of None \<Rightarrow> 0 | Some e \<Rightarrow> sc_observation_count e)"

definition counter_count :: "observation_store \<Rightarrow> string \<Rightarrow> nat" where
  "counter_count st i = (case map_of (os_counters st) i of None \<Rightarrow> 0 | Some e \<Rightarrow> tc_count e)"

definition total :: "('a \<Rightarrow> string) \<Rightarrow> ('a \<Rightarrow> int) \<Rightarrow> string \<Rightarrow> 'a list \<Rightarrow> int" where
  "total key amount i xs = sum_list (map amount (filter (\<lambda>x. key x = i) xs))"

lemma total_Nil [simp]: "total key amount i [] = 0"
  by (simp add: total_def)

lemma total_Cons [simp]: "total key amount i (x # xs) = (if key x = i then amount x else 0) + total key amount i xs"
  by (simp add: total_def)

lemma total_mset: "mset xs = mset ys \<Longrightarrow> total key amount i xs = total key amount i ys"
  by (simp add: total_def mset_filter flip: sum_mset_sum_list)

lemma merge_evidence_count:
  "oe_observation_count (merge_evidence e seed) = (case e of None \<Rightarrow> 0 | Some x \<Rightarrow> oe_observation_count x) + oe_observation_count seed"
  "oe_id (merge_evidence e seed) = oe_id seed"
  by (simp_all add: merge_evidence_def split: option.splits)

lemma merge_identity_count:
  "ri_observation_count (merge_runtime_identity_observation e seed) =
     (case e of None \<Rightarrow> 0 | Some x \<Rightarrow> ri_observation_count x) + ri_observation_count seed"
  "ri_id (merge_runtime_identity_observation e seed) = ri_id seed"
  by (simp_all add: merge_runtime_identity_observation_def Let_def split: option.splits)

lemma merge_scoped_count:
  assumes "merge_scoped_call e seed = Inr r"
  shows "sc_observation_count r = (case e of None \<Rightarrow> 0 | Some x \<Rightarrow> sc_observation_count x) + sc_observation_count seed \<and>
    sc_id r = sc_id seed"
  using assms by (auto simp: merge_scoped_call_def merge_records_def Let_def split: option.splits if_splits)

lemma persist_fact_Inr:
  assumes "persist_fact f st = Inr st'"
  shows "evidence_count st' i = evidence_count st i + (if oe_id (of_evidence f) = i then oe_observation_count (of_evidence f) else 0)"
    "os_identities st' = os_identities st" "os_scoped st' = os_scoped st" "os_counters st' = os_counters st"
    "os_cutover st' = os_cutover st" "os_legacy st' = os_legacy st"
    "os_graph st' = merge_fact_relation (of_subject_id f) (of_relation_type f) (of_object_id f) (oe_id (of_evidence f)) (os_graph st)"
  using assms by (auto simp: persist_fact_def Let_def evidence_count_def update_conv merge_evidence_count split: if_splits option.splits)

lemma persist_facts_count:
  "run_steps persist_fact fs st = Inr st' \<Longrightarrow>
     evidence_count st' i = evidence_count st i + total (\<lambda>f. oe_id (of_evidence f)) (\<lambda>f. oe_observation_count (of_evidence f)) i fs"
proof (induction fs arbitrary: st)
  case (Cons f fs)
  obtain s where s: "persist_fact f st = Inr s" "run_steps persist_fact fs s = Inr st'"
    using Cons.prems by (rule run_steps_ConsE) auto
  show ?case using Cons.IH [OF s(2)] persist_fact_Inr(1) [OF s(1), of i] by simp
qed simp

lemma persist_facts_rest:
  assumes "run_steps persist_fact fs st = Inr st'"
  shows "os_identities st' = os_identities st \<and> os_scoped st' = os_scoped st \<and> os_counters st' = os_counters st \<and>
    os_cutover st' = os_cutover st \<and> os_legacy st' = os_legacy st"
  by (rule run_steps_invariant [OF assms]) (simp, elim conjE, simp add: persist_fact_Inr)

lemma persist_identities:
  "identity_count (fold persist_runtime_identity_observation obs st) i =
     identity_count st i + total ri_id ri_observation_count i obs"
proof (induction obs arbitrary: st)
  case (Cons x xs)
  have "identity_count (persist_runtime_identity_observation x st) i =
      identity_count st i + (if ri_id x = i then ri_observation_count x else 0)"
    by (auto simp: persist_runtime_identity_observation_def Let_def identity_count_def update_conv merge_identity_count
        split: option.splits)
  then show ?case using Cons.IH [of "persist_runtime_identity_observation x st"] by simp
qed simp

lemma persist_identities_rest:
  "os_evidence (fold persist_runtime_identity_observation obs st) = os_evidence st"
  "os_scoped (fold persist_runtime_identity_observation obs st) = os_scoped st"
  "os_counters (fold persist_runtime_identity_observation obs st) = os_counters st"
  "os_cutover (fold persist_runtime_identity_observation obs st) = os_cutover st"
  "os_legacy (fold persist_runtime_identity_observation obs st) = os_legacy st"
  "os_graph (fold persist_runtime_identity_observation obs st) = os_graph st"
  by (induction obs arbitrary: st) (simp_all add: persist_runtime_identity_observation_def Let_def)

lemma persist_scoped_Inr:
  assumes "persist_scoped_seed r st = Inr st'"
  shows "scoped_count st' i = scoped_count st i + (if sc_id r = i then sc_observation_count r else 0)"
    "os_identities st' = os_identities st" "os_evidence st' = os_evidence st" "os_counters st' = os_counters st"
    "os_cutover st' = os_cutover st" "os_legacy st' = os_legacy st" "gs_nodes (os_graph st') = gs_nodes (os_graph st)"
    "gs_relations (os_graph st') = gs_relations (os_graph st)" "gs_revision (os_graph st') = gs_revision (os_graph st)"
proof -
  obtain m where m: "merge_scoped_call (map_of (os_scoped st) (sc_id r)) r = Inr m"
    and st': "st' = st\<lparr>os_scoped := AList.update (sc_id m) m (os_scoped st), os_graph := (os_graph st)\<lparr>gs_has_scoped_calls := True\<rparr>\<rparr>"
    using assms by (auto simp: persist_scoped_seed_def split: sum.splits)
  show "scoped_count st' i = scoped_count st i + (if sc_id r = i then sc_observation_count r else 0)"
    using merge_scoped_count [OF m] unfolding st' by (auto simp: scoped_count_def update_conv split: option.splits)
qed (use assms in \<open>auto simp: persist_scoped_seed_def split: sum.splits\<close>)

lemma persist_seeds_count:
  "run_steps persist_scoped_seed rs st = Inr st' \<Longrightarrow> scoped_count st' i = scoped_count st i + total sc_id sc_observation_count i rs"
proof (induction rs arbitrary: st)
  case (Cons r rs)
  obtain s where s: "persist_scoped_seed r st = Inr s" "run_steps persist_scoped_seed rs s = Inr st'"
    using Cons.prems by (rule run_steps_ConsE) auto
  show ?case using Cons.IH [OF s(2)] persist_scoped_Inr(1) [OF s(1), of i] by simp
qed simp

lemma persist_seeds_rest:
  assumes "run_steps persist_scoped_seed rs st = Inr st'"
  shows "os_identities st' = os_identities st \<and> os_evidence st' = os_evidence st \<and> os_counters st' = os_counters st \<and>
    os_cutover st' = os_cutover st \<and> os_legacy st' = os_legacy st \<and> gs_nodes (os_graph st') = gs_nodes (os_graph st) \<and>
    gs_relations (os_graph st') = gs_relations (os_graph st) \<and> gs_revision (os_graph st') = gs_revision (os_graph st)"
  by (rule run_steps_invariant [OF assms]) (simp, elim conjE, simp add: persist_scoped_Inr)

section \<open>Counters\<close>

text \<open>The interactions a unit counts: one per seed, one per refusal under its primary cause.\<close>

definition batch_seeds :: "observation_batch \<Rightarrow> scoped_call_seed list" where
  "batch_seeds b = somes (map of_scoped_seed (ob_facts b))"

definition refusal_counter_key :: "scoped_ingress_refusal \<Rightarrow> counter_key" where
  "refusal_counter_key r = (sr_environment r, sr_bucket_utc_day r, SCOPED_V2_REFUSED, primary_cause r)"

definition interactions :: "observation_batch \<Rightarrow> counter_key list" where
  "interactions b = map seed_key (batch_seeds b) @ map refusal_counter_key (ob_refusals b)"

lemma count_refusals_Inr: "count_refusals rs d = Inr d' \<Longrightarrow> d' = fold count_key (map refusal_counter_key rs) d"
  by (induction rs arbitrary: d) (auto simp: refusal_key_def refusal_counter_key_def split: sum.splits option.splits)

lemma counter_deltas_Inr: "counter_deltas b = Inr d \<Longrightarrow> d = fold count_key (interactions b) []"
  by (simp add: counter_deltas_def interactions_def batch_seeds_def count_refusals_Inr)

abbreviation delta_total :: "(counter_key \<Rightarrow> string) \<Rightarrow> string \<Rightarrow> (counter_key \<times> nat) list \<Rightarrow> int" where
  "delta_total f \<equiv> total (\<lambda>(k, _). f k) (\<lambda>(_, n). int n)"

lemma delta_total_update:
  "delta_total f i (AList.update k v d) =
     delta_total f i d + (if f k = i then int v - (case map_of d k of None \<Rightarrow> 0 | Some n \<Rightarrow> int n) else 0)"
  by (induction d) (auto split: option.splits)

lemma delta_total_count: "delta_total f i (count_key k d) = delta_total f i d + (if f k = i then 1 else 0)"
  by (simp add: count_key_def delta_total_update split: option.splits)

lemma delta_total_counts: "delta_total f i (fold count_key ks d) = delta_total f i d + total f (\<lambda>_. 1) i ks"
  by (induction ks arbitrary: d) (simp_all add: delta_total_count)

definition count_in :: "(string \<times> transition_counter) list \<Rightarrow> string \<Rightarrow> nat" where
  "count_in d i = (case map_of d i of None \<Rightarrow> 0 | Some c \<Rightarrow> tc_count c)"

lemma increment_counts: "count_in (increment_counter L s revision (k, n) d) i =
    count_in d i + (if lh_counter_id L s k = i then n else 0)"
  by (simp add: increment_counter_def Let_def count_in_def update_conv split: option.splits)

lemma increments_count: "int (count_in (fold (increment_counter L s revision) ds d) i) =
    int (count_in d i) + delta_total (lh_counter_id L s) i ds"
proof (induction ds arbitrary: d)
  case (Cons x ds)
  obtain k n where "x = (k, n)" by (cases x)
  then show ?case using Cons.IH [of "increment_counter L s revision x d"] by (simp add: increment_counts)
qed simp

lemma finalize_unit_counts:
  assumes "finalize_unit L s b revision w st = Inr st'"
  shows "int (counter_count st' i) = int (counter_count st i) + total (lh_counter_id L s) (\<lambda>_. 1) i (interactions b)"
    "os_evidence st' = os_evidence st" "os_identities st' = os_identities st" "os_scoped st' = os_scoped st"
    "os_graph st' = os_graph st"
proof -
  obtain d where d: "counter_deltas b = Inr d" using assms by (auto simp: finalize_unit_def Let_def split: sum.splits)
  let ?sorted = "sort_key (\<lambda>(k, _). lh_counter_id L s k) d"
  have counters: "os_counters st' = fold (increment_counter L s revision) ?sorted (os_counters st)"
    using assms d by (auto simp: finalize_unit_def Let_def set_cutover_revision_def)
  have "int (count_in (os_counters st') i) = int (count_in (os_counters st) i) + delta_total (lh_counter_id L s) i ?sorted"
    unfolding counters by (rule increments_count)
  also have "delta_total (lh_counter_id L s) i ?sorted = delta_total (lh_counter_id L s) i d"
    by (rule total_mset) simp
  also have "\<dots> = total (lh_counter_id L s) (\<lambda>_. 1) i (interactions b)"
    unfolding counter_deltas_Inr [OF d] delta_total_counts by simp
  finally show "int (counter_count st' i) = int (counter_count st i) + total (lh_counter_id L s) (\<lambda>_. 1) i (interactions b)"
    by (simp add: counter_count_def count_in_def)
  show "os_evidence st' = os_evidence st" "os_identities st' = os_identities st" "os_scoped st' = os_scoped st"
    "os_graph st' = os_graph st"
    using assms d by (auto simp: finalize_unit_def Let_def set_cutover_revision_def)
qed

section \<open>The phases of a unit\<close>

lemma merge_stub_keeps:
  "gs_relations (merge_stub_node e g) = gs_relations g" "gs_revision (merge_stub_node e g) = gs_revision g"
  "map_of (gs_nodes g) i = Some r \<Longrightarrow> map_of (gs_nodes (merge_stub_node e g)) i = Some r"
  "map_of (gs_nodes (merge_stub_node e g)) (en_id e) \<noteq> None"
  by (auto simp: merge_stub_node_def map_add_Some_iff)

lemma merge_stubs_keep:
  "gs_relations (fold merge_stub_node es g) = gs_relations g \<and> gs_revision (fold merge_stub_node es g) = gs_revision g"
  by (induction es arbitrary: g) (simp_all add: merge_stub_keeps)

lemma merge_stubs_nodes: "map_of (gs_nodes g) i = Some r \<Longrightarrow> map_of (gs_nodes (fold merge_stub_node es g)) i = Some r"
  by (induction es arbitrary: g) (simp_all add: merge_stub_keeps(3))

lemma merge_stubs_create: "i \<in> en_id ` set es \<Longrightarrow> map_of (gs_nodes (fold merge_stub_node es g)) i \<noteq> None"
proof (induction es arbitrary: g)
  case (Cons e es)
  show ?case
  proof (cases "i \<in> en_id ` set es")
    case True
    then show ?thesis using Cons.IH [of "merge_stub_node e g"] by simp
  next
    case False
    then have "i = en_id e" using Cons.prems by auto
    then obtain r where "map_of (gs_nodes (merge_stub_node e g)) i = Some r" using merge_stub_keeps(4) [of e g] by auto
    then show ?thesis using merge_stubs_nodes [of "merge_stub_node e g" i r es] by simp
  qed
qed simp

lemma ensure_cutover_keeps:
  assumes "ensure_cutover L s st = (w, st1)"
  shows "os_graph st1 = os_graph st \<and> os_evidence st1 = os_evidence st \<and> os_identities st1 = os_identities st \<and>
    os_scoped st1 = os_scoped st \<and> os_counters st1 = os_counters st \<and> os_cutover st1 \<noteq> None"
  using assms by (auto simp: ensure_cutover_def Let_def split: if_splits)

text \<open>The stores between the phases of a committed unit.\<close>

lemma persist_batchE:
  assumes "persist_batch L stream b st0 = Inr st'"
  obtains w st1 st3 st5 where
    "(case stream of None \<Rightarrow> (False, st0) | Some s \<Rightarrow> ensure_cutover L s st0) = (w, st1)"
    "run_steps persist_fact (ob_facts b) (st1\<lparr>os_graph := fold merge_stub_node (ob_entities b) (os_graph st1)\<rparr>) = Inr st3"
    "(if stream = None then Inr (fold persist_runtime_identity_observation (ob_identities b) st3)
      else scoped_writes L b (fold persist_runtime_identity_observation (ob_identities b) st3)) = Inr st5"
    "case stream of None \<Rightarrow> st' = st5\<lparr>os_graph := bump_revision (os_graph st5)\<rparr>
     | Some s \<Rightarrow> (\<exists>revision. gs_revision (bump_revision (os_graph st5)) = Some revision \<and>
         finalize_unit L s b revision w (st5\<lparr>os_graph := bump_revision (os_graph st5)\<rparr>) = Inr st')"
proof -
  obtain w st1 where c: "(case stream of None \<Rightarrow> (False, st0) | Some s \<Rightarrow> ensure_cutover L s st0) = (w, st1)"
    by (cases "case stream of None \<Rightarrow> (False, st0) | Some s \<Rightarrow> ensure_cutover L s st0")
  note r = assms [unfolded persist_batch_def Let_def c prod.case then_step_Inr]
  obtain st3 st5 where st3: "run_steps persist_fact (ob_facts b) (st1\<lparr>os_graph := fold merge_stub_node (ob_entities b) (os_graph st1)\<rparr>) = Inr st3"
    and st5: "(if stream = None then Inr (fold persist_runtime_identity_observation (ob_identities b) st3)
      else scoped_writes L b (fold persist_runtime_identity_observation (ob_identities b) st3)) = Inr st5"
    and last: "(case stream of None \<Rightarrow> Inr (st5\<lparr>os_graph := bump_revision (os_graph st5)\<rparr>)
          | Some s \<Rightarrow> (case gs_revision (os_graph (st5\<lparr>os_graph := bump_revision (os_graph st5)\<rparr>)) of None \<Rightarrow> Inl RevisionMissing
              | Some revision \<Rightarrow> finalize_unit L s b revision w (st5\<lparr>os_graph := bump_revision (os_graph st5)\<rparr>))) = Inr st'"
    using r by (elim exE conjE)
  have "case stream of None \<Rightarrow> st' = st5\<lparr>os_graph := bump_revision (os_graph st5)\<rparr>
     | Some s \<Rightarrow> (\<exists>revision. gs_revision (bump_revision (os_graph st5)) = Some revision \<and>
         finalize_unit L s b revision w (st5\<lparr>os_graph := bump_revision (os_graph st5)\<rparr>) = Inr st')"
  proof (cases stream)
    case None
    then show ?thesis using last by simp
  next
    case (Some s)
    then show ?thesis using last by (cases "gs_revision (bump_revision (os_graph st5))") simp_all
  qed
  from c st3 st5 this show ?thesis by (rule that)
qed

section \<open>What a unit keeps and adds\<close>

text \<open>A later graph has every node unchanged and every relation with its owners, its key and all of its
  evidence, in the same order.\<close>

definition extends :: "graph_store \<Rightarrow> graph_store \<Rightarrow> bool" where
  "extends g g' \<longleftrightarrow>
     (\<forall>i r. map_of (gs_nodes g) i = Some r \<longrightarrow> map_of (gs_nodes g') i = Some r) \<and>
     (\<forall>i r. map_of (gs_relations g) i = Some r \<longrightarrow>
        (\<exists>new. map_of (gs_relations g') i = Some (r\<lparr>rr_evidence := rr_evidence r @ new\<rparr>)))"

lemma extends_refl: "extends g g"
proof -
  have "r = r\<lparr>rr_evidence := rr_evidence r @ []\<rparr>" for r :: relation_row by simp
  then show ?thesis unfolding extends_def by metis
qed

lemma extends_trans:
  assumes "extends g g'" "extends g' g''"
  shows "extends g g''"
  unfolding extends_def
proof (intro conjI allI impI)
  fix i r assume "map_of (gs_nodes g) i = Some r"
  then show "map_of (gs_nodes g'') i = Some r" using assms unfolding extends_def by simp
next
  fix i r assume r: "map_of (gs_relations g) i = Some r"
  obtain n where n: "map_of (gs_relations g') i = Some (r\<lparr>rr_evidence := rr_evidence r @ n\<rparr>)"
    using assms(1) r unfolding extends_def by blast
  obtain n' where "map_of (gs_relations g'') i =
      Some (r\<lparr>rr_evidence := rr_evidence r @ n\<rparr>\<lparr>rr_evidence := rr_evidence (r\<lparr>rr_evidence := rr_evidence r @ n\<rparr>) @ n'\<rparr>)"
    using assms(2) n unfolding extends_def by blast
  then have "map_of (gs_relations g'') i = Some (r\<lparr>rr_evidence := rr_evidence r @ (n @ n')\<rparr>)" by simp
  then show "\<exists>new. map_of (gs_relations g'') i = Some (r\<lparr>rr_evidence := rr_evidence r @ new\<rparr>)" ..
qed

lemma extends_same: "gs_nodes g' = gs_nodes g \<Longrightarrow> gs_relations g' = gs_relations g \<Longrightarrow> extends g g'"
  using extends_refl [of g] by (simp add: extends_def)

lemma extends_stub: "extends g (merge_stub_node e g)"
  using extends_refl [of g] merge_stub_keeps(3) [of g _ _ e] unfolding extends_def merge_stub_keeps(1) by blast

lemma extends_stubs: "extends g (fold merge_stub_node es g)"
  by (induction es arbitrary: g) (auto intro: extends_refl extends_trans extends_stub)

lemma fact_relation_nodes: "gs_nodes (merge_fact_relation s t o' e g) = gs_nodes g \<and> gs_revision (merge_fact_relation s t o' e g) = gs_revision g"
  by (simp add: merge_fact_relation_def Let_def)

lemma extends_fact: "extends g (merge_fact_relation s t o' e g)"
proof (cases "map_of (gs_nodes g) s = None \<or> map_of (gs_nodes g) o' = None")
  case True
  then show ?thesis using extends_refl by (simp add: merge_fact_relation_def)
next
  case False
  have "\<exists>new. map_of (gs_relations (merge_fact_relation s t o' e g)) i = Some (r\<lparr>rr_evidence := rr_evidence r @ new\<rparr>)"
    if r: "map_of (gs_relations g) i = Some r" for i r
  proof (cases "i = (t, s, o')")
    case True
    have "map_of (gs_relations (merge_fact_relation s t o' e g)) i = Some (r\<lparr>rr_evidence := add_owner e (rr_evidence r)\<rparr>)"
      using False r True by (auto simp: merge_fact_relation_def Let_def update_conv)
    moreover have "add_owner e (rr_evidence r) = rr_evidence r @ (if e \<in> set (rr_evidence r) then [] else [e])"
      by (simp add: add_owner_def)
    ultimately show ?thesis by metis
  next
    case False
    then have "map_of (gs_relations (merge_fact_relation s t o' e g)) i = Some (r\<lparr>rr_evidence := rr_evidence r @ []\<rparr>)"
      using r by (auto simp: merge_fact_relation_def Let_def update_conv)
    then show ?thesis by blast
  qed
  then show ?thesis using fact_relation_nodes [of s t o' e g] by (simp add: extends_def)
qed

lemma fact_related:
  assumes "map_of (gs_nodes g) s \<noteq> None" "map_of (gs_nodes g) o' \<noteq> None"
  shows "\<exists>row. map_of (gs_relations (merge_fact_relation s t o' e g)) (t, s, o') = Some row \<and> e \<in> set (rr_evidence row)"
  using assms by (auto simp: merge_fact_relation_def Let_def update_conv add_owner_def)

lemma persist_facts_extend: "run_steps persist_fact fs st = Inr st' \<Longrightarrow> extends (os_graph st) (os_graph st')"
proof (induction fs arbitrary: st)
  case Nil
  then show ?case by (simp add: extends_refl)
next
  case (Cons f fs)
  obtain s where s: "persist_fact f st = Inr s" "run_steps persist_fact fs s = Inr st'"
    using Cons.prems by (rule run_steps_ConsE) auto
  have "extends (os_graph st) (os_graph s)" unfolding persist_fact_Inr(7) [OF s(1)] by (rule extends_fact)
  then show ?case using Cons.IH [OF s(2)] by (rule extends_trans)
qed

lemma persist_facts_revision: "run_steps persist_fact fs st = Inr st' \<Longrightarrow> gs_revision (os_graph st') = gs_revision (os_graph st)"
proof (induction fs arbitrary: st)
  case (Cons f fs)
  obtain s where s: "persist_fact f st = Inr s" "run_steps persist_fact fs s = Inr st'"
    using Cons.prems by (rule run_steps_ConsE) auto
  show ?case using Cons.IH [OF s(2)] persist_fact_Inr(7) [OF s(1)] fact_relation_nodes by simp
qed simp

lemma extends_nodes: "extends g g' \<Longrightarrow> map_of (gs_nodes g) i \<noteq> None \<Longrightarrow> map_of (gs_nodes g') i \<noteq> None"
  unfolding extends_def by auto

lemma extends_evidence:
  "extends g g' \<Longrightarrow> map_of (gs_relations g) i = Some row \<Longrightarrow> e \<in> set (rr_evidence row) \<Longrightarrow>
     \<exists>row'. map_of (gs_relations g') i = Some row' \<and> e \<in> set (rr_evidence row')"
  unfolding extends_def by fastforce

lemma persist_facts_relate:
  assumes "run_steps persist_fact fs st = Inr st'" "f \<in> set fs"
    "map_of (gs_nodes (os_graph st)) (of_subject_id f) \<noteq> None" "map_of (gs_nodes (os_graph st)) (of_object_id f) \<noteq> None"
  shows "\<exists>row. map_of (gs_relations (os_graph st')) (of_relation_type f, of_subject_id f, of_object_id f) = Some row \<and>
    oe_id (of_evidence f) \<in> set (rr_evidence row)"
  using assms
proof (induction fs arbitrary: st)
  case (Cons f' fs)
  obtain s where s: "persist_fact f' st = Inr s" "run_steps persist_fact fs s = Inr st'"
    using Cons.prems(1) by (rule run_steps_ConsE) auto
  have g: "os_graph s = merge_fact_relation (of_subject_id f') (of_relation_type f') (of_object_id f') (oe_id (of_evidence f')) (os_graph st)"
    by (rule persist_fact_Inr(7) [OF s(1)])
  show ?case
  proof (cases "f = f'")
    case True
    obtain row where "map_of (gs_relations (os_graph s)) (of_relation_type f, of_subject_id f, of_object_id f) = Some row"
      "oe_id (of_evidence f) \<in> set (rr_evidence row)"
      using fact_related [of "os_graph st", OF Cons.prems(3,4)] unfolding g True by blast
    then show ?thesis by (rule extends_evidence [OF persist_facts_extend [OF s(2)]])
  next
    case False
    have "map_of (gs_nodes (os_graph s)) (of_subject_id f) \<noteq> None" "map_of (gs_nodes (os_graph s)) (of_object_id f) \<noteq> None"
      using Cons.prems(3,4) unfolding g by (simp_all add: fact_relation_nodes)
    then show ?thesis using Cons.IH [OF s(2)] Cons.prems(2) False by simp
  qed
qed simp

lemma persist_fact_evidence:
  "persist_fact f st = Inr st' \<Longrightarrow> fst ` set (os_evidence st') = insert (oe_id (of_evidence f)) (fst ` set (os_evidence st))"
proof -
  assume "persist_fact f st = Inr st'"
  then have "os_evidence st' = AList.update (oe_id (of_evidence f))
      (merge_evidence (map_of (os_evidence st) (oe_id (of_evidence f))) (of_evidence f)) (os_evidence st)"
    by (auto simp: persist_fact_def Let_def merge_evidence_count(2) split: if_splits)
  then show ?thesis by (simp add: dom_update)
qed

lemma persist_facts_evidence:
  "run_steps persist_fact fs st = Inr st' \<Longrightarrow> fst ` set (os_evidence st') = (\<lambda>f. oe_id (of_evidence f)) ` set fs \<union> fst ` set (os_evidence st)"
proof (induction fs arbitrary: st)
  case (Cons f fs)
  obtain s where s: "persist_fact f st = Inr s" "run_steps persist_fact fs s = Inr st'"
    using Cons.prems by (rule run_steps_ConsE) auto
  show ?case using Cons.IH [OF s(2)] persist_fact_evidence [OF s(1)] by auto
qed simp

lemma bump_graph [simp]:
  "gs_nodes (bump_revision g) = gs_nodes g" "gs_relations (bump_revision g) = gs_relations g"
  by (simp_all add: bump_revision_def)

lemma cutover_step_keeps:
  assumes "(case stream of None \<Rightarrow> (False, st0) | Some s \<Rightarrow> ensure_cutover L s st0) = (w, st1)"
  shows "os_graph st1 = os_graph st0 \<and> os_evidence st1 = os_evidence st0 \<and> os_identities st1 = os_identities st0 \<and>
    os_scoped st1 = os_scoped st0 \<and> os_counters st1 = os_counters st0"
  using assms ensure_cutover_keeps [of L "the stream" st0 w st1] by (cases stream) simp_all

lemma scoped_step_keeps:
  assumes "(if stream = None then Inr st4 else scoped_writes L b st4) = Inr st5"
  shows "os_identities st5 = os_identities st4 \<and> os_evidence st5 = os_evidence st4 \<and> os_counters st5 = os_counters st4 \<and>
    os_cutover st5 = os_cutover st4 \<and> os_legacy st5 = os_legacy st4 \<and> gs_nodes (os_graph st5) = gs_nodes (os_graph st4) \<and>
    gs_relations (os_graph st5) = gs_relations (os_graph st4) \<and> gs_revision (os_graph st5) = gs_revision (os_graph st4)"
  using assms persist_seeds_rest [of _ st4 st5] by (cases stream) (simp_all add: scoped_writes_def)

lemma last_step_keeps:
  assumes "case stream of None \<Rightarrow> st' = st5\<lparr>os_graph := bump_revision (os_graph st5)\<rparr>
     | Some s \<Rightarrow> (\<exists>revision. gs_revision (bump_revision (os_graph st5)) = Some revision \<and>
         finalize_unit L s b revision w (st5\<lparr>os_graph := bump_revision (os_graph st5)\<rparr>) = Inr st')"
  shows "os_graph st' = bump_revision (os_graph st5) \<and> os_evidence st' = os_evidence st5 \<and>
    os_identities st' = os_identities st5 \<and> os_scoped st' = os_scoped st5"
proof (cases stream)
  case None
  then show ?thesis using assms by simp
next
  case (Some s)
  then obtain revision where f: "finalize_unit L s b revision w (st5\<lparr>os_graph := bump_revision (os_graph st5)\<rparr>) = Inr st'"
    using assms by auto
  show ?thesis by (simp add: finalize_unit_counts(2-5) [OF f])
qed

text \<open>Seeds of one unit, by record id.\<close>

lemma seed_records_total:
  "total sc_id sc_observation_count i (sort_key sc_id (map (record_from_seed K) seeds)) = total (\<lambda>s. K (sd_key s)) (\<lambda>_. 1) i seeds"
proof -
  have "total sc_id sc_observation_count i (sort_key sc_id (map (record_from_seed K) seeds)) =
      total sc_id sc_observation_count i (map (record_from_seed K) seeds)" by (rule total_mset) simp
  also have "\<dots> = total (\<lambda>s. K (sd_key s)) (\<lambda>_. 1) i seeds" by (induction seeds) (simp_all add: record_from_seed_def)
  finally show ?thesis .
qed

text \<open>The stores a committed unit passes through, as far as its counts need them.\<close>

lemma persist_batch_counted:
  assumes "persist_batch L stream b st = Inr st'"
  obtains st1 st3 st4 st5 where "os_evidence st1 = os_evidence st" "os_identities st3 = os_identities st" "os_scoped st4 = os_scoped st"
    "os_counters st5 = os_counters st" "run_steps persist_fact (ob_facts b) st1 = Inr st3"
    "st4 = fold persist_runtime_identity_observation (ob_identities b) st3"
    "(if stream = None then Inr st4 else scoped_writes L b st4) = Inr st5"
    "os_evidence st' = os_evidence st3" "os_identities st' = os_identities st4" "os_scoped st' = os_scoped st5"
    "case stream of None \<Rightarrow> os_counters st' = os_counters st5
     | Some s \<Rightarrow> (\<exists>revision w. finalize_unit L s b revision w (st5\<lparr>os_graph := bump_revision (os_graph st5)\<rparr>) = Inr st')"
proof -
  obtain w st1 st3 st5 where u:
    "(case stream of None \<Rightarrow> (False, st) | Some s \<Rightarrow> ensure_cutover L s st) = (w, st1)"
    "run_steps persist_fact (ob_facts b) (st1\<lparr>os_graph := fold merge_stub_node (ob_entities b) (os_graph st1)\<rparr>) = Inr st3"
    "(if stream = None then Inr (fold persist_runtime_identity_observation (ob_identities b) st3)
      else scoped_writes L b (fold persist_runtime_identity_observation (ob_identities b) st3)) = Inr st5"
    "case stream of None \<Rightarrow> st' = st5\<lparr>os_graph := bump_revision (os_graph st5)\<rparr>
     | Some s \<Rightarrow> (\<exists>revision. gs_revision (bump_revision (os_graph st5)) = Some revision \<and>
         finalize_unit L s b revision w (st5\<lparr>os_graph := bump_revision (os_graph st5)\<rparr>) = Inr st')"
    using assms by (rule persist_batchE)
  note k1 = cutover_step_keeps [OF u(1)] and k3 = persist_facts_rest [OF u(2)]
    and k5 = scoped_step_keeps [OF u(3), unfolded persist_identities_rest] and k6 = last_step_keeps [OF u(4)]
  have "case stream of None \<Rightarrow> os_counters st' = os_counters st5
     | Some s \<Rightarrow> (\<exists>revision w. finalize_unit L s b revision w (st5\<lparr>os_graph := bump_revision (os_graph st5)\<rparr>) = Inr st')"
    using u(4) by (cases stream) auto
  then show ?thesis using k1 k3 k5 k6 by (intro that [OF _ _ _ _ u(2) refl u(3)]) (simp_all add: persist_identities_rest)
qed

text \<open>C8: a committed unit counts exactly: every evidence bucket and identity observation grows by the observations of
  the batch under its id, and with scoped evidence on, every scoped record by the seeds under its id and every
  transition counter by the interactions, accepted or refused, under its id; otherwise those do not change.\<close>

theorem unit_counts_exact:
  assumes "persist_batch L stream b st = Inr st'"
  shows "evidence_count st' i = evidence_count st i + total (\<lambda>f. oe_id (of_evidence f)) (\<lambda>f. oe_observation_count (of_evidence f)) i (ob_facts b) \<and>
    identity_count st' i = identity_count st i + total ri_id ri_observation_count i (ob_identities b) \<and>
    scoped_count st' i = scoped_count st i +
      (case stream of None \<Rightarrow> 0 | Some _ \<Rightarrow> total (\<lambda>s. lh_key_id L (sd_key s)) (\<lambda>_. 1) i (batch_seeds b)) \<and>
    int (counter_count st' i) = int (counter_count st i) +
      (case stream of None \<Rightarrow> 0 | Some s \<Rightarrow> total (lh_counter_id L s) (\<lambda>_. 1) i (interactions b))"
proof -
  obtain st1 st3 st4 st5 where k: "os_evidence st1 = os_evidence st" "os_identities st3 = os_identities st" "os_scoped st4 = os_scoped st"
    "os_counters st5 = os_counters st" and u: "run_steps persist_fact (ob_facts b) st1 = Inr st3"
    "st4 = fold persist_runtime_identity_observation (ob_identities b) st3"
    "(if stream = None then Inr st4 else scoped_writes L b st4) = Inr st5"
    and r: "os_evidence st' = os_evidence st3" "os_identities st' = os_identities st4" "os_scoped st' = os_scoped st5"
    and final: "case stream of None \<Rightarrow> os_counters st' = os_counters st5
     | Some s \<Rightarrow> (\<exists>revision w. finalize_unit L s b revision w (st5\<lparr>os_graph := bump_revision (os_graph st5)\<rparr>) = Inr st')"
    using assms by (rule persist_batch_counted)
  have "scoped_count st5 i = scoped_count st4 i +
      (case stream of None \<Rightarrow> 0 | Some _ \<Rightarrow> total (\<lambda>s. lh_key_id L (sd_key s)) (\<lambda>_. 1) i (batch_seeds b))"
    using u(3) persist_seeds_count [of _ st4 st5 i] by (cases stream) (simp_all add: scoped_writes_def batch_seeds_def seed_records_total)
  moreover have "int (counter_count st' i) = int (counter_count st5 i) +
      (case stream of None \<Rightarrow> 0 | Some s \<Rightarrow> total (lh_counter_id L s) (\<lambda>_. 1) i (interactions b))"
    using final finalize_unit_counts(1) [of L _ b _ _ "st5\<lparr>os_graph := bump_revision (os_graph st5)\<rparr>" st' i]
    by (cases stream) (auto simp: counter_count_def)
  ultimately show ?thesis
    using k r persist_facts_count [OF u(1), of i] persist_identities [of "ob_identities b" st3 i, folded u(2)]
    by (simp add: evidence_count_def identity_count_def scoped_count_def counter_count_def)
qed

text \<open>The graph after a unit.\<close>

lemma persist_batch_graph:
  assumes "persist_batch L stream b st = Inr st'"
  obtains st2 st3 where "os_graph st2 = fold merge_stub_node (ob_entities b) (os_graph st)"
    "run_steps persist_fact (ob_facts b) st2 = Inr st3" "extends (os_graph st3) (os_graph st')"
    "gs_revision (os_graph st') = map_option Suc (gs_revision (os_graph st))" "os_evidence st' = os_evidence st3"
proof -
  obtain w st1 st3 st5 where u:
    "(case stream of None \<Rightarrow> (False, st) | Some s \<Rightarrow> ensure_cutover L s st) = (w, st1)"
    "run_steps persist_fact (ob_facts b) (st1\<lparr>os_graph := fold merge_stub_node (ob_entities b) (os_graph st1)\<rparr>) = Inr st3"
    "(if stream = None then Inr (fold persist_runtime_identity_observation (ob_identities b) st3)
      else scoped_writes L b (fold persist_runtime_identity_observation (ob_identities b) st3)) = Inr st5"
    "case stream of None \<Rightarrow> st' = st5\<lparr>os_graph := bump_revision (os_graph st5)\<rparr>
     | Some s \<Rightarrow> (\<exists>revision. gs_revision (bump_revision (os_graph st5)) = Some revision \<and>
         finalize_unit L s b revision w (st5\<lparr>os_graph := bump_revision (os_graph st5)\<rparr>) = Inr st')"
    using assms by (rule persist_batchE)
  let ?st2 = "st1\<lparr>os_graph := fold merge_stub_node (ob_entities b) (os_graph st1)\<rparr>"
  have g1: "os_graph st1 = os_graph st" using cutover_step_keeps [OF u(1)] by simp
  note k5 = scoped_step_keeps [OF u(3), unfolded persist_identities_rest] and k6 = last_step_keeps [OF u(4)]
  show ?thesis
  proof (rule that [of ?st2 st3])
    show "os_graph ?st2 = fold merge_stub_node (ob_entities b) (os_graph st)" by (simp add: g1)
    show "run_steps persist_fact (ob_facts b) ?st2 = Inr st3" by (rule u(2))
    show "extends (os_graph st3) (os_graph st')" using k5 k6 by (intro extends_same) simp_all
    show "gs_revision (os_graph st') = map_option Suc (gs_revision (os_graph st))"
      using k5 k6 persist_facts_revision [OF u(2)] merge_stubs_keep [of "ob_entities b" "os_graph st1"] g1
      by (simp add: bump_revision_def)
    show "os_evidence st' = os_evidence st3" using k5 k6 by simp
  qed
qed

text \<open>C32: a unit never takes anything from the graph: every node is unchanged, every relation keeps its owners, its key
  and all of its evidence, and the revision advances by exactly one.\<close>

theorem unit_extends_graph:
  assumes "persist_batch L stream b st = Inr st'"
  shows "extends (os_graph st) (os_graph st') \<and> gs_revision (os_graph st') = map_option Suc (gs_revision (os_graph st))"
proof -
  obtain st2 st3 where g: "os_graph st2 = fold merge_stub_node (ob_entities b) (os_graph st)"
    "run_steps persist_fact (ob_facts b) st2 = Inr st3" "extends (os_graph st3) (os_graph st')"
    "gs_revision (os_graph st') = map_option Suc (gs_revision (os_graph st))"
    using assms by (rule persist_batch_graph)
  have "extends (os_graph st) (os_graph st2)" unfolding g(1) by (rule extends_stubs)
  then show ?thesis using g(3,4) persist_facts_extend [OF g(2)] by (blast intro: extends_trans)
qed

text \<open>The facts of a batch whose endpoints exist are related, and their evidence is stored.\<close>

lemma unit_relates:
  assumes "persist_batch L stream b st = Inr st'" "f \<in> set (ob_facts b)"
    "map_of (gs_nodes (os_graph st)) (of_subject_id f) \<noteq> None \<or> of_subject_id f \<in> en_id ` set (ob_entities b)"
    "map_of (gs_nodes (os_graph st)) (of_object_id f) \<noteq> None \<or> of_object_id f \<in> en_id ` set (ob_entities b)"
  shows "(\<exists>row. map_of (gs_relations (os_graph st')) (of_relation_type f, of_subject_id f, of_object_id f) = Some row \<and>
      oe_id (of_evidence f) \<in> set (rr_evidence row)) \<and> oe_id (of_evidence f) \<in> fst ` set (os_evidence st')"
proof -
  obtain st2 st3 where g: "os_graph st2 = fold merge_stub_node (ob_entities b) (os_graph st)"
    "run_steps persist_fact (ob_facts b) st2 = Inr st3" "extends (os_graph st3) (os_graph st')"
    "os_evidence st' = os_evidence st3"
    using assms(1) by (rule persist_batch_graph)
  have node: "map_of (gs_nodes (os_graph st2)) i \<noteq> None"
    if i: "map_of (gs_nodes (os_graph st)) i \<noteq> None \<or> i \<in> en_id ` set (ob_entities b)" for i
    unfolding g(1)
  proof (cases "i \<in> en_id ` set (ob_entities b)")
    case True
    then show "map_of (gs_nodes (fold merge_stub_node (ob_entities b) (os_graph st))) i \<noteq> None" by (rule merge_stubs_create)
  next
    case False
    then show "map_of (gs_nodes (fold merge_stub_node (ob_entities b) (os_graph st))) i \<noteq> None"
      using i extends_nodes [OF extends_stubs] by blast
  qed
  obtain row where "map_of (gs_relations (os_graph st3)) (of_relation_type f, of_subject_id f, of_object_id f) = Some row"
    "oe_id (of_evidence f) \<in> set (rr_evidence row)"
    using persist_facts_relate [OF g(2) assms(2) node [OF assms(3)] node [OF assms(4)]] by blast
  then have "\<exists>row. map_of (gs_relations (os_graph st')) (of_relation_type f, of_subject_id f, of_object_id f) = Some row \<and>
      oe_id (of_evidence f) \<in> set (rr_evidence row)" by (rule extends_evidence [OF g(3)])
  moreover have "oe_id (of_evidence f) \<in> fst ` set (os_evidence st')"
    unfolding g(4) persist_facts_evidence [OF g(2)] using assms(2) by blast
  ultimately show ?thesis by blast
qed

end
