(* ===== verification/TraceIngest.thy ===== *)
theory TraceIngest
  imports UnitAccounting
begin

text \<open>
  \<open>telemetry/ingest.py\<close> with the candidate queries of the four resolvers: one POST of spans from the
  graph and the correlation buffer to the committed unit.  A candidate query is a list over the nodes or
  relations of the store; every Service, Queue, Topic and Subscription node is written with a name, so a
  node without one is not a candidate.
\<close>

section \<open>The declared candidates\<close>

definition str_prop :: "string \<Rightarrow> node_row \<Rightarrow> string option" where
  "str_prop key r = (case map_of (nr_props r) key of Some (PStr s) \<Rightarrow> Some s | _ \<Rightarrow> None)"

definition node_candidates :: "string \<Rightarrow> graph_store \<Rightarrow> declared_candidate list" where
  "node_candidates label g = somes (map (\<lambda>(i, r). if nr_label r = label
     then map_option (\<lambda>n. \<lparr>dc_id = i, dc_name = n, dc_namespace = str_prop ''namespace'' r\<rparr>) (str_prop ''name'' r) else None)
     (gs_nodes g))"

definition fetch_candidates :: "graph_store \<Rightarrow> declared_candidate list" where
  "fetch_candidates = node_candidates ''Service''"

definition fetch_queue_candidates :: "graph_store \<Rightarrow> declared_candidate list" where
  "fetch_queue_candidates = node_candidates ''Queue''"

definition fetch_topic_candidates :: "graph_store \<Rightarrow> declared_candidate list" where
  "fetch_topic_candidates = node_candidates ''Topic''"

text \<open>The end nodes of the relations of a type, with the labels of the pattern.\<close>

definition related :: "string \<Rightarrow> string \<Rightarrow> string \<Rightarrow> graph_store \<Rightarrow> ((string \<times> node_row) \<times> (string \<times> node_row) \<times> relation_row) list" where
  "related type label1 label2 g = somes (map (\<lambda>((t, a, b), row).
     case (map_of (gs_nodes g) a, map_of (gs_nodes g) b) of
       (Some ra, Some rb) \<Rightarrow> if t = type \<and> nr_label ra = label1 \<and> nr_label rb = label2 then Some ((a, ra), (b, rb), row) else None
     | _ \<Rightarrow> None) (gs_relations g))"

definition fetch_operation_candidates :: "graph_store \<Rightarrow> declared_operation_candidate list" where
  "fetch_operation_candidates g = somes (map (\<lambda>((s, _), (oid, r), _).
     case (str_prop ''method'' r, str_prop ''path'' r) of
       (Some m, Some p) \<Rightarrow> Some \<lparr>do_id = oid, do_provider_service_id = s, do_method = m, do_path = p\<rparr>
     | _ \<Rightarrow> None) (related ''PROVIDES'' ''Service'' ''Operation'' g))"

definition fetch_subscription_candidates :: "graph_store \<Rightarrow> declared_subscription_candidate list" where
  "fetch_subscription_candidates g = somes (map (\<lambda>((s, r), (t, _), _).
     map_option (\<lambda>n. \<lparr>ds_id = s, ds_name = n, ds_topic_id = t\<rparr>) (str_prop ''name'' r))
     (related ''SUBSCRIPTION_OF'' ''Subscription'' ''Topic'' g))"

definition declared_evidence_node :: "graph_store \<Rightarrow> string \<Rightarrow> bool" where
  "declared_evidence_node g e = (case map_of (gs_nodes g) e of None \<Rightarrow> False
     | Some r \<Rightarrow> nr_label r = ''Evidence'' \<and> str_prop ''evidence_type'' r = Some ''DECLARED'')"

definition fetch_declared_receivers :: "graph_store \<Rightarrow> (string \<times> string) list" where
  "fetch_declared_receivers g = remdups (map (\<lambda>((sv, _), (s, _), _). (sv, s))
     (filter (\<lambda>(_, _, row). list_ex (declared_evidence_node g) (rr_evidence row))
       (related ''RECEIVES_FROM'' ''Service'' ''Subscription'' g)))"

section \<open>One POST\<close>

record telemetry_config =
  tl_service_aliases :: aliases
  tl_queue_aliases :: aliases
  tl_topic_aliases :: aliases
  tl_scoped_evidence :: "scoped_evidence_config option"

record hashes =
  ha_text :: text_library
  ha_hash :: "string \<Rightarrow> string"
  ha_ledger :: ledger_hashes

definition fetched_context :: "hashes \<Rightarrow> telemetry_config \<Rightarrow> graph_store \<Rightarrow> adapter_context" where
  "fetched_context K cfg g = \<lparr>ac_text = ha_text K, ac_hash = ha_hash K, ac_services = fetch_candidates g,
     ac_operations = fetch_operation_candidates g, ac_queues = fetch_queue_candidates g,
     ac_topics = fetch_topic_candidates g, ac_subscriptions = fetch_subscription_candidates g,
     ac_service_aliases = tl_service_aliases cfg, ac_queue_aliases = tl_queue_aliases cfg,
     ac_topic_aliases = tl_topic_aliases cfg, ac_receivers = fetch_declared_receivers g\<rparr>"

datatype ingest_fault = AdaptFault telemetry_fault | UnitFault unit_fault

text \<open>The buffer is in memory and keeps what a failed POST made of it; the store is as before.\<close>

definition ingest_trace_spans :: "hashes \<Rightarrow> telemetry_config \<Rightarrow> (nat \<Rightarrow> int) \<Rightarrow> runtime_span list
     \<Rightarrow> correlation_buffer option \<times> observation_store
     \<Rightarrow> ingest_fault option \<times> correlation_buffer option \<times> observation_store" where
  "ingest_trace_spans K cfg clock spans = (\<lambda>(buffer, st).
     case adapt (fetched_context K cfg (os_graph st)) clock spans buffer of
       Inl (e, buffer') \<Rightarrow> (Some (AdaptFault e), buffer', st)
     | Inr (batch, buffer') \<Rightarrow>
         (case persist_observation_batch (ha_ledger K) (tl_scoped_evidence cfg) batch st of
            Inl e \<Rightarrow> (Some (UnitFault e), buffer', st)
          | Inr st' \<Rightarrow> (None, buffer', st')))"

section \<open>Candidates are nodes\<close>

lemma somes_map_mem: "x \<in> set (somes (map f xs)) \<longleftrightarrow> (\<exists>y\<in>set xs. f y = Some x)"
  unfolding set_somes by (auto simp: image_iff) metis

lemma node_candidates_nodes: "c \<in> set (node_candidates label g) \<Longrightarrow> map_of (gs_nodes g) (dc_id c) \<noteq> None"
proof -
  assume "c \<in> set (node_candidates label g)"
  then obtain i r where ir: "(i, r) \<in> set (gs_nodes g)"
    "(if nr_label r = label then map_option (\<lambda>n. \<lparr>dc_id = i, dc_name = n, dc_namespace = str_prop ''namespace'' r\<rparr>)
       (str_prop ''name'' r) else None) = Some c"
    unfolding node_candidates_def somes_map_mem by auto
  then have "dc_id c = i" by (auto split: if_splits)
  then show ?thesis using ir(1) by (auto simp: map_of_eq_None_iff rev_image_eqI)
qed

lemma related_nodes: "((a, ra), (b, rb), row) \<in> set (related type label1 label2 g) \<Longrightarrow>
    map_of (gs_nodes g) a = Some ra \<and> map_of (gs_nodes g) b = Some rb"
  by (auto simp: related_def somes_map_mem split: option.splits if_splits)

lemma operation_candidates_nodes: "c \<in> set (fetch_operation_candidates g) \<Longrightarrow> map_of (gs_nodes g) (do_id c) \<noteq> None"
  by (auto simp: fetch_operation_candidates_def somes_map_mem dest!: related_nodes split: option.splits)

lemma subscription_candidates_nodes: "c \<in> set (fetch_subscription_candidates g) \<Longrightarrow> map_of (gs_nodes g) (ds_id c) \<noteq> None"
  by (auto simp: fetch_subscription_candidates_def somes_map_mem map_option_case split: option.splits dest!: related_nodes)

section \<open>A unit of an adapted batch commits\<close>

definition scoped_keyed :: "observation_store \<Rightarrow> bool" where
  "scoped_keyed st \<longleftrightarrow> (\<forall>i r. map_of (os_scoped st) i = Some r \<longrightarrow> sc_id r = i)"

lemma persist_facts_total:
  "\<forall>f\<in>set fs. of_relation_type f \<in> set known_relation_types \<Longrightarrow> \<exists>st'. run_steps persist_fact fs st = Inr st'"
  by (induction fs arbitrary: st) (auto simp: persist_fact_def Let_def)

lemma persist_seed_total:
  assumes "scoped_keyed st"
  shows "\<exists>st'. persist_scoped_seed r st = Inr st' \<and> scoped_keyed st'"
proof -
  obtain m where m: "merge_scoped_call (map_of (os_scoped st) (sc_id r)) r = Inr m"
    using assms by (cases "map_of (os_scoped st) (sc_id r)") (auto simp: merge_scoped_call_def scoped_keyed_def)
  have "sc_id m = sc_id r" using merge_scoped_count [OF m] by simp
  then show ?thesis using m assms by (auto simp: persist_scoped_seed_def scoped_keyed_def update_conv)
qed

lemma persist_seeds_total: "scoped_keyed st \<Longrightarrow> \<exists>st'. run_steps persist_scoped_seed rs st = Inr st' \<and> scoped_keyed st'"
proof (induction rs arbitrary: st)
  case (Cons r rs)
  obtain s where s: "persist_scoped_seed r st = Inr s" "scoped_keyed s" using persist_seed_total [OF Cons.prems] by blast
  show ?case using Cons.IH [OF s(2)] s(1) by simp
qed simp

lemma count_refusals_total: "\<forall>r\<in>set rs. primary_cause r \<noteq> None \<Longrightarrow> \<exists>d'. count_refusals rs d = Inr d'"
  by (induction rs arbitrary: d) (auto simp: refusal_key_def split: option.splits)

lemma finalize_total:
  assumes "\<forall>r\<in>set (ob_refusals b). primary_cause r \<noteq> None"
  shows "\<exists>st'. finalize_unit L s b revision w st = Inr st'"
proof -
  obtain d where "counter_deltas b = Inr d"
    using count_refusals_total [OF assms] unfolding counter_deltas_def by blast
  then show ?thesis by (simp add: finalize_unit_def Let_def)
qed

lemma persist_batch_total:
  assumes "\<forall>f\<in>set (ob_facts b). of_relation_type f \<in> set known_relation_types"
    "\<forall>r\<in>set (ob_refusals b). primary_cause r \<noteq> None" "scoped_keyed st" "gs_revision (os_graph st) \<noteq> None"
  shows "\<exists>st'. persist_batch L stream b st = Inr st'"
proof -
  obtain w st1 where c: "(case stream of None \<Rightarrow> (False, st) | Some s \<Rightarrow> ensure_cutover L s st) = (w, st1)"
    by (cases "case stream of None \<Rightarrow> (False, st) | Some s \<Rightarrow> ensure_cutover L s st")
  note k1 = cutover_step_keeps [OF c]
  obtain st3 where st3: "run_steps persist_fact (ob_facts b)
      (st1\<lparr>os_graph := fold merge_stub_node (ob_entities b) (os_graph st1)\<rparr>) = Inr st3"
    using persist_facts_total [OF assms(1)] by blast
  let ?st4 = "fold persist_runtime_identity_observation (ob_identities b) st3"
  have "scoped_keyed ?st4" using persist_facts_rest [OF st3] k1 assms(3) by (simp add: scoped_keyed_def persist_identities_rest)
  then obtain st5 where st5: "(if stream = None then Inr ?st4 else scoped_writes L b ?st4) = Inr st5"
    unfolding scoped_writes_def using persist_seeds_total by (cases stream) auto
  have "gs_revision (os_graph st5) = gs_revision (os_graph st)"
    using scoped_step_keeps [OF st5] persist_facts_revision [OF st3] merge_stubs_keep [of "ob_entities b" "os_graph st1"] k1
    by (simp add: persist_identities_rest)
  then obtain n where n: "gs_revision (os_graph st5) = Some n" using assms(4) by auto
  show ?thesis
  proof (cases stream)
    case None
    then show ?thesis using c st3 st5 by (simp add: persist_batch_def Let_def then_step_def)
  next
    case (Some s)
    obtain st' where "finalize_unit L s b (Suc n) w (st5\<lparr>os_graph := bump_revision (os_graph st5)\<rparr>) = Inr st'"
      using finalize_total [OF assms(2)] by blast
    then show ?thesis using c st3 st5 Some n by (simp add: persist_batch_def Let_def then_step_def bump_revision_def)
  qed
qed

lemma endpoints_relation_known: "endpoints_known ac entities f \<Longrightarrow> of_relation_type f \<in> set known_relation_types"
  by (auto simp: endpoints_known_def known_relation_types_def split: if_splits)

lemma merge_stubs_new:
  "map_of (gs_nodes g) i = None \<Longrightarrow> i \<notin> en_id ` set es \<Longrightarrow> map_of (gs_nodes (fold merge_stub_node es g)) i = None"
proof (induction es arbitrary: g)
  case (Cons e es)
  have "map_of (gs_nodes (merge_stub_node e g)) i = None"
    using Cons.prems by (auto simp: merge_stub_node_def map_add_None)
  then show ?case using Cons.IH [of "merge_stub_node e g"] Cons.prems(2) by simp
qed simp

lemma persist_facts_unrelated:
  "run_steps persist_fact fs st = Inr st' \<Longrightarrow> map_of (gs_nodes (os_graph st)) a = None \<Longrightarrow>
     map_of (gs_relations (os_graph st')) (t, a, c) = map_of (gs_relations (os_graph st)) (t, a, c)"
proof (induction fs arbitrary: st)
  case (Cons f fs)
  obtain s where s: "persist_fact f st = Inr s" "run_steps persist_fact fs s = Inr st'"
    using Cons.prems(1) by (rule run_steps_ConsE) auto
  have g: "os_graph s = merge_fact_relation (of_subject_id f) (of_relation_type f) (of_object_id f) (oe_id (of_evidence f)) (os_graph st)"
    by (rule persist_fact_Inr(7) [OF s(1)])
  have "map_of (gs_relations (os_graph s)) (t, a, c) = map_of (gs_relations (os_graph st)) (t, a, c)"
    using Cons.prems(2) unfolding g by (auto simp: merge_fact_relation_def Let_def update_conv)
  then show ?case using Cons.IH [OF s(2)] Cons.prems(2) g by (simp add: fact_relation_nodes)
qed simp

section \<open>Properties\<close>

text \<open>C7: a POST whose spans can be adapted commits, and every observed fact of it ends as a relation carrying its
  evidence, provided each configured Service alias names a node of the graph.\<close>

theorem ingest_relates_facts:
  assumes "adapt (fetched_context K cfg (os_graph st)) clock spans buffer = Inr (batch, buffer')" "scoped_keyed st"
    "\<forall>t\<in>snd ` set (tl_service_aliases cfg). map_of (gs_nodes (os_graph st)) t \<noteq> None"
  shows "\<exists>st'. ingest_trace_spans K cfg clock spans (buffer, st) = (None, buffer', st') \<and>
    (\<forall>f\<in>set (ob_facts batch). \<exists>row.
       map_of (gs_relations (os_graph st')) (of_relation_type f, of_subject_id f, of_object_id f) = Some row \<and>
       oe_id (of_evidence f) \<in> set (rr_evidence row))"
proof -
  let ?ac = "fetched_context K cfg (os_graph st)" and ?minted = "en_id ` set (ob_entities batch)"
  define st0 where "st0 = st\<lparr>os_graph := ensure_revision_singleton (os_graph st)\<rparr>"
  define stream where "stream = (case tl_scoped_evidence cfg of None \<Rightarrow> None | Some c \<Rightarrow> if se_enabled c then Some (se_stream_id c) else None)"
  obtain h q where hq: "loop_inv ?ac clock buffer h" "queue_inv ?ac q" "ob_facts batch = hs_facts h @ qs_facts q"
    "ob_refusals batch = hs_refusals h" "?minted = entity_keys (hs_entities h) \<union> entity_keys (qs_entities q)"
    using assms(1) by (rule adapt_invariants)
  have known: "endpoints_known ?ac (ob_entities batch) f" if "f \<in> set (ob_facts batch)" for f
    using assms(1) that by (rule batch_endpoints)
  have nodes: "gs_nodes (os_graph st0) = gs_nodes (os_graph st)" by (simp add: st0_def ensure_revision_singleton_def)
  have ends: "(map_of (gs_nodes (os_graph st0)) (of_subject_id f) \<noteq> None \<or> of_subject_id f \<in> ?minted) \<and>
      (map_of (gs_nodes (os_graph st0)) (of_object_id f) \<noteq> None \<or> of_object_id f \<in> ?minted)" if "f \<in> set (ob_facts batch)" for f
  proof
    show "map_of (gs_nodes (os_graph st0)) (of_subject_id f) \<noteq> None \<or> of_subject_id f \<in> ?minted"
      using known [OF that] minted_ids [of "ob_entities batch"] assms(3) node_candidates_nodes [of _ "''Service''" "os_graph st"] unfolding nodes
      by (auto simp: endpoints_known_def declared_services_def fetched_context_def fetch_candidates_def)
    show "map_of (gs_nodes (os_graph st0)) (of_object_id f) \<noteq> None \<or> of_object_id f \<in> ?minted"
      using known [OF that] minted_ids [of "ob_entities batch"] operation_candidates_nodes [of _ "os_graph st"] subscription_candidates_nodes [of _ "os_graph st"]
        node_candidates_nodes [of _ "''Queue''" "os_graph st"] node_candidates_nodes [of _ "''Topic''" "os_graph st"] unfolding nodes
      by (auto simp: endpoints_known_def fetched_context_def fetch_queue_candidates_def fetch_topic_candidates_def
          split: if_splits)
  qed
  have "\<forall>f\<in>set (ob_facts batch). of_relation_type f \<in> set known_relation_types"
    using known endpoints_relation_known by blast
  moreover have "\<forall>r\<in>set (ob_refusals batch). primary_cause r \<noteq> None"
    using hq(1) unfolding hq(4) by (simp add: loop_inv_def http_inv_def)
  moreover have "scoped_keyed st0" using assms(2) by (simp add: scoped_keyed_def st0_def)
  moreover have "gs_revision (os_graph st0) \<noteq> None" by (simp add: st0_def ensure_revision_singleton_def split: option.splits)
  ultimately obtain st' where unit: "persist_batch (ha_ledger K) stream batch st0 = Inr st'"
    using persist_batch_total by blast
  then have "ingest_trace_spans K cfg clock spans (buffer, st) = (None, buffer', st')"
    using assms(1) by (simp add: ingest_trace_spans_def persist_observation_batch_def st0_def stream_def)
  moreover have "\<forall>f\<in>set (ob_facts batch). \<exists>row.
       map_of (gs_relations (os_graph st')) (of_relation_type f, of_subject_id f, of_object_id f) = Some row \<and>
       oe_id (of_evidence f) \<in> set (rr_evidence row)"
    using unit_relates [OF unit] ends by blast
  ultimately show ?thesis by blast
qed

text \<open>C39: A fact whose Service comes from an alias that names no node is lost silently: the unit commits, its evidence is
  stored, and no relation is created or changed for it.\<close>

theorem missing_alias_target_orphans_evidence:
  assumes "persist_batch L stream b st = Inr st'" "f \<in> set (ob_facts b)"
    "map_of (gs_nodes (os_graph st)) (of_subject_id f) = None" "of_subject_id f \<notin> en_id ` set (ob_entities b)"
  shows "oe_id (of_evidence f) \<in> fst ` set (os_evidence st') \<and>
    map_of (gs_relations (os_graph st')) (t, of_subject_id f, obj) = map_of (gs_relations (os_graph st)) (t, of_subject_id f, obj)"
proof -
  obtain w st1 st3 st5 where u:
    "(case stream of None \<Rightarrow> (False, st) | Some s \<Rightarrow> ensure_cutover L s st) = (w, st1)"
    "run_steps persist_fact (ob_facts b) (st1\<lparr>os_graph := fold merge_stub_node (ob_entities b) (os_graph st1)\<rparr>) = Inr st3"
    "(if stream = None then Inr (fold persist_runtime_identity_observation (ob_identities b) st3)
      else scoped_writes L b (fold persist_runtime_identity_observation (ob_identities b) st3)) = Inr st5"
    "case stream of None \<Rightarrow> st' = st5\<lparr>os_graph := bump_revision (os_graph st5)\<rparr>
     | Some s \<Rightarrow> (\<exists>revision. gs_revision (bump_revision (os_graph st5)) = Some revision \<and>
         finalize_unit L s b revision w (st5\<lparr>os_graph := bump_revision (os_graph st5)\<rparr>) = Inr st')"
    using assms(1) by (rule persist_batchE)
  note k1 = cutover_step_keeps [OF u(1)] and k5 = scoped_step_keeps [OF u(3), unfolded persist_identities_rest]
    and k6 = last_step_keeps [OF u(4)]
  have "map_of (gs_nodes (fold merge_stub_node (ob_entities b) (os_graph st1))) (of_subject_id f) = None"
    using merge_stubs_new [OF assms(3,4)] k1 by simp
  then have "map_of (gs_relations (os_graph st3)) (t, of_subject_id f, obj) =
      map_of (gs_relations (fold merge_stub_node (ob_entities b) (os_graph st1))) (t, of_subject_id f, obj)"
    using persist_facts_unrelated [OF u(2)] by simp
  moreover have "oe_id (of_evidence f) \<in> fst ` set (os_evidence st3)"
    unfolding persist_facts_evidence [OF u(2)] using assms(2) by blast
  ultimately show ?thesis using k1 k5 k6 by (simp add: merge_stubs_keep)
qed

lemma fetch_after_stub:
  assumes "map_of (gs_nodes g) i = None"
  shows "fetch_candidates (merge_stub_node \<lparr>en_id = i, en_label = ServiceLabel, en_name = n\<rparr> g) =
    fetch_candidates g @ [\<lparr>dc_id = i, dc_name = n, dc_namespace = None\<rparr>]"
proof -
  have "somes (xs @ ys) = somes xs @ somes ys" for xs ys :: "declared_candidate option list"
    by (simp add: somes_def List.map_filter_def)
  then show ?thesis
    using assms by (simp add: fetch_candidates_def node_candidates_def merge_stub_node_def label_value_def str_prop_def)
qed

text \<open>C38: identity depends on the arrival order: a Service minted from one batch is a declared candidate of the next, so
  a first-seen service name captures every later namesake, whatever namespace it reports, while the same spans
  in one batch get an id per namespace.\<close>

theorem minted_service_captures_namesake:
  assumes "map_of (gs_nodes g) i = None" "n \<notin> dc_name ` set (fetch_candidates g)" "map_of aliases n = None"
  shows "resolve_service U (fetch_candidates g) n namespace aliases = (service_id (slugify U n) namespace, OBSERVED_ONLY) \<and>
    resolve_service U (fetch_candidates (merge_stub_node \<lparr>en_id = i, en_label = ServiceLabel, en_name = n\<rparr> g)) n namespace aliases =
      (i, DECLARED)"
proof -
  have none: "filter (\<lambda>c. dc_name c = n) (fetch_candidates g) = []"
    "filter (\<lambda>c. dc_namespace c = namespace \<and> dc_name c = n) (fetch_candidates g) = []"
    using assms(2) by (auto simp: filter_empty_conv)
  show ?thesis unfolding fetch_after_stub [OF assms(1)] resolve_service_def Let_def
    using none assms(3) by (auto split: option.splits)
qed

section \<open>Witnesses\<close>

definition ex_ledger :: ledger_hashes where
  "ex_ledger = \<lparr>lh_key_id = (\<lambda>(e, d, s, ob, c, p). s @ ob @ p), lh_counter_id = (\<lambda>s (e, d, c, r). d), lh_digest = concat\<rparr>"

definition ex_hashes :: hashes where
  "ex_hashes = \<lparr>ha_text = ex_text, ha_hash = id, ha_ledger = ex_ledger\<rparr>"

definition ex_config :: "aliases \<Rightarrow> telemetry_config" where
  "ex_config a = \<lparr>tl_service_aliases = a, tl_queue_aliases = [], tl_topic_aliases = [],
     tl_scoped_evidence = Some \<lparr>se_enabled = True, se_stream_id = ''s''\<rparr>\<rparr>"

definition ex_store :: observation_store where
  "ex_store = \<lparr>os_graph = \<lparr>gs_nodes = [(''service:shop'', \<lparr>nr_label = ''Service'', nr_props = [(''name'', PStr ''shop'')], nr_owners = [''src'']\<rparr>),
       (''queue:orders'', \<lparr>nr_label = ''Queue'', nr_props = [(''name'', PStr ''orders'')], nr_owners = [''src'']\<rparr>)],
     gs_relations = [], gs_sources = [], gs_inventories = [], gs_revision = Some 4, gs_has_scoped_calls = False\<rparr>,
     os_evidence = [], os_identities = [], os_scoped = [], os_cutover = None, os_legacy = [], os_counters = []\<rparr>"

lemma ex_ingest: "case adapt (fetched_context ex_hashes (ex_config []) (os_graph ex_store)) (\<lambda>k. 7) (ex_batch (AStr ''get'')) None of
    Inl e \<Rightarrow> False | Inr (batch, b) \<Rightarrow> length (ob_facts batch) = 3"
  by code_simp

lemma ingest_relates_facts_witness:
  "\<exists>(batch :: observation_batch) b st'. length (ob_facts batch) = 3 \<and>
     ingest_trace_spans ex_hashes (ex_config []) (\<lambda>k. 7) (ex_batch (AStr ''get'')) (None, ex_store) = (None, b, st')"
proof -
  obtain batch b where b: "adapt (fetched_context ex_hashes (ex_config []) (os_graph ex_store)) (\<lambda>k. 7) (ex_batch (AStr ''get'')) None = Inr (batch, b)"
    "length (ob_facts batch) = 3" using ex_ingest by (auto split: sum.splits)
  have "scoped_keyed ex_store" by (simp add: scoped_keyed_def ex_store_def)
  moreover have "\<forall>t\<in>snd ` set (tl_service_aliases (ex_config [])). map_of (gs_nodes (os_graph ex_store)) t \<noteq> None"
    by (simp add: ex_config_def)
  ultimately show ?thesis using ingest_relates_facts [OF b(1)] b(2) by blast
qed

definition ex_fact :: observed_fact_candidate where
  "ex_fact = fact_of ex_context ''prod'' ''service:gone'' ''SENDS'' ''queue:orders'' 5 ''t'' None MESSAGING_SEND None"

definition ex_unit :: observation_batch where
  "ex_unit = \<lparr>ob_entities = [], ob_facts = [ex_fact], ob_unresolved = [], ob_identities = [], ob_refusals = []\<rparr>"

lemma ex_unit_commits: "case persist_batch ex_ledger (Some ''s'') ex_unit ex_store of Inl e \<Rightarrow> False | Inr st' \<Rightarrow> True"
  by code_simp

lemma ex_unitE: obtains st' where "persist_batch ex_ledger (Some ''s'') ex_unit ex_store = Inr st'"
  using ex_unit_commits by (auto split: sum.splits)

lemma missing_alias_target_orphans_evidence_witness:
  "\<exists>st'. persist_batch ex_ledger (Some ''s'') ex_unit ex_store = Inr st' \<and> oe_id (of_evidence ex_fact) \<in> fst ` set (os_evidence st') \<and>
     map_of (gs_relations (os_graph st')) (''SENDS'', ''service:gone'', ''queue:orders'') = None"
proof -
  obtain st' where u: "persist_batch ex_ledger (Some ''s'') ex_unit ex_store = Inr st'" by (rule ex_unitE)
  have "oe_id (of_evidence ex_fact) \<in> fst ` set (os_evidence st') \<and>
      map_of (gs_relations (os_graph st')) (''SENDS'', of_subject_id ex_fact, ''queue:orders'') =
        map_of (gs_relations (os_graph ex_store)) (''SENDS'', of_subject_id ex_fact, ''queue:orders'')"
    by (rule missing_alias_target_orphans_evidence [OF u]) (simp_all add: ex_unit_def ex_store_def ex_fact_def fact_of_def)
  then show ?thesis using u by (simp add: ex_fact_def fact_of_def ex_store_def)
qed

lemma unit_counts_exact_witness:
  "\<exists>st'. persist_batch ex_ledger (Some ''s'') ex_unit ex_store = Inr st' \<and> evidence_count st' (oe_id (of_evidence ex_fact)) = 1"
proof -
  obtain st' where u: "persist_batch ex_ledger (Some ''s'') ex_unit ex_store = Inr st'" by (rule ex_unitE)
  have "evidence_count st' (oe_id (of_evidence ex_fact)) = 1"
    unfolding unit_counts_exact [OF u, THEN conjunct1]
    by (simp add: ex_unit_def evidence_count_def ex_store_def) (simp add: ex_fact_def fact_of_def seed_evidence_of_def)
  then show ?thesis using u by blast
qed

lemma unit_extends_graph_witness:
  "\<exists>st'. persist_batch ex_ledger (Some ''s'') ex_unit ex_store = Inr st' \<and> gs_revision (os_graph st') = Some 5"
proof -
  obtain st' where u: "persist_batch ex_ledger (Some ''s'') ex_unit ex_store = Inr st'" by (rule ex_unitE)
  then show ?thesis using unit_extends_graph [OF u] by (simp add: ex_store_def)
qed

lemma minted_service_captures_namesake_witness:
  "resolve_service ex_text (fetch_candidates (merge_stub_node \<lparr>en_id = ''service:a:cart'', en_label = ServiceLabel, en_name = ''cart''\<rparr>
     (os_graph ex_store))) ''cart'' (Some ''b'') [] = (''service:a:cart'', DECLARED)"
  by (rule minted_service_captures_namesake [THEN conjunct2])
    (simp_all add: ex_store_def fetch_candidates_def node_candidates_def str_prop_def)

end
