(* ===== verification/TransitionLedger.thy ===== *)
theory TransitionLedger
  imports TraceIngest
begin

text \<open>
  The cutover ledger and the transition report of \<open>telemetry/scoped_ledger.py\<close> over every sequence of
  units, enabled or not, and of other writes to the graph.
\<close>

section \<open>Commits\<close>

text \<open>A unit, or any write of the graph that keeps the revision from going back.\<close>

inductive commit :: "ledger_hashes \<Rightarrow> observation_store \<Rightarrow> observation_store \<Rightarrow> bool" for L where
  unit: "persist_observation_batch L scoped b st = Inr st' \<Longrightarrow> commit L st st'"
| other: "(\<And>n. gs_revision (os_graph st) = Some n \<Longrightarrow> \<exists>m\<ge>n. gs_revision g = Some m) \<Longrightarrow> commit L st (st\<lparr>os_graph := g\<rparr>)"

inductive_cases commitE: "commit L st st'"

definition same_ledger :: "observation_store \<Rightarrow> observation_store \<Rightarrow> bool" where
  "same_ledger st st' \<longleftrightarrow> os_cutover st' = os_cutover st \<and> os_legacy st' = os_legacy st \<and> os_counters st' = os_counters st"

lemma unit_revision:
  assumes "persist_observation_batch L scoped b st = Inr st'" "gs_revision (os_graph st) = Some n"
  shows "gs_revision (os_graph st') = Some (Suc n)"
proof -
  obtain st2 st3 where "gs_revision (os_graph st') =
      map_option Suc (gs_revision (os_graph (st\<lparr>os_graph := ensure_revision_singleton (os_graph st)\<rparr>)))"
    using assms(1) [unfolded persist_observation_batch_def] by (rule persist_batch_graph)
  then show ?thesis using assms(2) by (simp add: ensure_revision_singleton_def)
qed

lemma commit_revision:
  assumes "commit L st st'" "gs_revision (os_graph st) = Some n"
  shows "\<exists>m\<ge>n. gs_revision (os_graph st') = Some m \<and> (m = n \<longrightarrow> same_ledger st st')"
  using assms(1)
proof (rule commitE)
  fix scoped b assume "persist_observation_batch L scoped b st = Inr st'"
  then show ?thesis using unit_revision assms(2) by fastforce
next
  fix g assume g: "st' = st\<lparr>os_graph := g\<rparr>"
    "\<And>n. gs_revision (os_graph st) = Some n \<Longrightarrow> \<exists>m\<ge>n. gs_revision g = Some m"
  then obtain m where "m \<ge> n" "gs_revision g = Some m" using assms(2) by blast
  then show ?thesis using g(1) by (auto simp: same_ledger_def)
qed

lemma commits_revision:
  assumes "(commit L)\<^sup>*\<^sup>* st st'" "gs_revision (os_graph st) = Some n"
  shows "\<exists>m\<ge>n. gs_revision (os_graph st') = Some m \<and> (m = n \<longrightarrow> same_ledger st st')"
  using assms(1)
proof (induction rule: rtranclp_induct)
  case base
  then show ?case using assms(2) by (simp add: same_ledger_def)
next
  case (step st1 st2)
  obtain m where m: "m \<ge> n" "gs_revision (os_graph st1) = Some m" "m = n \<longrightarrow> same_ledger st st1" using step.IH by blast
  obtain k where k: "k \<ge> m" "gs_revision (os_graph st2) = Some k" "k = m \<longrightarrow> same_ledger st1 st2"
    using commit_revision [OF step.hyps(2) m(2)] by blast
  have "k = n \<longrightarrow> same_ledger st st2" using m k by (auto simp: same_ledger_def)
  then show ?case using m(1) k(1,2) by (intro exI [of _ k]) simp
qed

section \<open>Stable reports\<close>

lemma history_commits: "\<forall>k. (commit L)\<^sup>*\<^sup>* (h k) (h (Suc k)) \<Longrightarrow> (commit L)\<^sup>*\<^sup>* (h k) (h (k + d))"
proof (induction d)
  case (Suc d)
  have "(commit L)\<^sup>*\<^sup>* (h k) (h (k + d))" using Suc.IH Suc.prems by blast
  then show ?case using Suc.prems [THEN spec, of "k + d"] by (simp add: rtranclp_trans)
qed simp

lemma stable_between:
  assumes steps: "\<forall>k. (commit L)\<^sup>*\<^sup>* (h k) (h (Suc k))"
    and "gs_revision (os_graph (h k)) = Some n" "gs_revision (os_graph (h (k + 4))) = Some n" "d \<le> 4"
  shows "same_ledger (h k) (h (k + d))"
proof -
  obtain m where m: "m \<ge> n" "gs_revision (os_graph (h (k + d))) = Some m" "m = n \<longrightarrow> same_ledger (h k) (h (k + d))"
    using commits_revision [OF history_commits [OF steps, of k d] assms(2)] by blast
  have "(commit L)\<^sup>*\<^sup>* (h (k + d)) (h (k + d + (4 - d)))" by (rule history_commits [OF steps])
  then have "\<exists>j\<ge>m. gs_revision (os_graph (h (k + 4))) = Some j"
    using commits_revision [of L "h (k + d)" "h (k + 4)" m] m(2) assms(4) by auto
  then have "m \<le> n" using assms(3) by auto
  then show ?thesis using m by simp
qed

text \<open>C9: a transition report is a report of one committed state: whatever units and other writes commit between its
  five reads, a report that is returned holds, ledger, membership and counters alike, of the store that carries
  its revision.\<close>

theorem report_of_one_state:
  assumes "\<forall>k. (commit L)\<^sup>*\<^sup>* (h k) (h (Suc k))" "read_transition_report L h stream_id attempts k = Inr report"
  shows "\<exists>j\<ge>k. gs_revision (os_graph (h j)) = Some (tr_as_of_revision report) \<and>
    report = read_report_once L (h j) (h j) (h j) stream_id (tr_as_of_revision report)"
  using assms(2)
proof (induction attempts arbitrary: k)
  case (Suc attempts)
  obtain n where n: "gs_revision (os_graph (h k)) = Some n"
    using Suc.prems by (cases "gs_revision (os_graph (h k))") (simp_all add: read_revision_def)
  obtain m where m: "gs_revision (os_graph (h (k + 4))) = Some m"
    using Suc.prems n by (cases "gs_revision (os_graph (h (k + 4)))") (simp_all add: read_revision_def)
  show ?case
  proof (cases "m = n")
    case True
    have report: "report = read_report_once L (h (k + 1)) (h (k + 2)) (h (k + 3)) stream_id n"
      using Suc.prems n m True by (simp add: read_revision_def)
    have same: "same_ledger (h k) (h (k + d))" if "d \<le> 4" for d
      using assms(1) n m that unfolding True by (rule stable_between)
    have "report = read_report_once L (h k) (h k) (h k) stream_id n"
      unfolding report using same [of 1] same [of 2] same [of 3] by (simp add: read_report_once_def same_ledger_def)
    then show ?thesis using n by (intro exI [of _ k]) (simp add: read_report_once_def)
  next
    case False
    then have "read_transition_report L h stream_id attempts (k + 5) = Inr report"
      using Suc.prems n m by (simp add: read_revision_def)
    then obtain j where "j \<ge> k + 5" "gs_revision (os_graph (h j)) = Some (tr_as_of_revision report)"
      "report = read_report_once L (h j) (h j) (h j) stream_id (tr_as_of_revision report)"
      using Suc.IH by blast
    then show ?thesis by (intro exI [of _ j]) simp
  qed
qed simp

section \<open>The legacy membership\<close>

definition ledger_ok :: "ledger_hashes \<Rightarrow> observation_store \<Rightarrow> bool" where
  "ledger_ok L st \<longleftrightarrow> (case os_cutover st of None \<Rightarrow> os_legacy st = []
     | Some c \<Rightarrow> length (os_legacy st) = cu_count c \<and> lh_digest L (sort (map fst (os_legacy st))) = cu_digest c)"

lemma membership_written:
  "distinct ids \<Longrightarrow> set ids \<inter> fst ` set d = {} \<Longrightarrow>
     map fst (fold (\<lambda>i d. if map_of d i = None then d @ [(i, v)] else d) ids d) = map fst d @ ids"
proof (induction ids arbitrary: d)
  case (Cons i ids)
  have "map_of d i = None" using Cons.prems(2) by (auto simp: map_of_eq_None_iff)
  then show ?case using Cons.IH [of "d @ [(i, v)]"] Cons.prems by auto
qed simp

lemma ensure_cutover_ok: "ledger_ok L st \<Longrightarrow> ensure_cutover L s st = (w, st') \<Longrightarrow> ledger_ok L st'"
proof -
  assume ok: "ledger_ok L st" and r: "ensure_cutover L s st = (w, st')"
  show ?thesis
  proof (cases "os_cutover st")
    case None
    let ?ids = "pre_enablement_buckets (os_graph st)"
    have "os_legacy st = []" using ok None by (simp add: ledger_ok_def)
    then have "map fst (os_legacy st') = ?ids" "os_cutover st' = Some \<lparr>cu_stream = s, cu_count = length ?ids,
            cu_digest = lh_digest L (sort ?ids), cu_enabled_at = None\<rparr>"
      using r None membership_written [of ?ids "[]"] by (auto simp: ensure_cutover_def Let_def pre_enablement_buckets_def)
    moreover have "length (os_legacy st') = length (map fst (os_legacy st'))" by simp
    ultimately show ?thesis by (simp add: ledger_ok_def)
  next
    case (Some c)
    then show ?thesis using ok r by (simp add: ensure_cutover_def)
  qed
qed

text \<open>The end of a unit keeps the members.\<close>

lemma mark_mixed_fst [simp]: "map fst (mark_mixed ids r d) = map fst d" "length (mark_mixed ids r d) = length d"
  by (induction d) (auto simp: mark_mixed_def)

lemma finalize_members:
  assumes "finalize_unit L s b revision w st = Inr st'"
  shows "map fst (os_legacy st') = map fst (os_legacy st) \<and> length (os_legacy st') = length (os_legacy st) \<and>
    map_option (\<lambda>c. (cu_stream c, cu_count c, cu_digest c)) (os_cutover st') = map_option (\<lambda>c. (cu_stream c, cu_count c, cu_digest c)) (os_cutover st)"
proof -
  obtain d where "counter_deltas b = Inr d" using assms by (auto simp: finalize_unit_def Let_def split: sum.splits)
  then show ?thesis using assms
    by (auto simp: finalize_unit_def Let_def set_cutover_revision_def option.map_comp comp_def split_def)
qed

lemma ledger_ok_cong:
  "map fst (os_legacy st') = map fst (os_legacy st) \<Longrightarrow>
     map_option (\<lambda>c. (cu_stream c, cu_count c, cu_digest c)) (os_cutover st') = map_option (\<lambda>c. (cu_stream c, cu_count c, cu_digest c)) (os_cutover st) \<Longrightarrow>
     ledger_ok L st' = ledger_ok L st"
proof -
  assume m: "map fst (os_legacy st') = map fst (os_legacy st)"
    and c: "map_option (\<lambda>c. (cu_stream c, cu_count c, cu_digest c)) (os_cutover st') = map_option (\<lambda>c. (cu_stream c, cu_count c, cu_digest c)) (os_cutover st)"
  have "length (os_legacy st') = length (os_legacy st)" using arg_cong [OF m, of length] by simp
  then show ?thesis using m c by (cases "os_cutover st"; cases "os_cutover st'") (auto simp: ledger_ok_def)
qed

lemma persist_batch_ledger:
  assumes "persist_batch L stream b st = Inr st'"
  obtains w st1 where "(case stream of None \<Rightarrow> (False, st) | Some s \<Rightarrow> ensure_cutover L s st) = (w, st1)"
    "map fst (os_legacy st') = map fst (os_legacy st1)"
    "map_option (\<lambda>c. (cu_stream c, cu_count c, cu_digest c)) (os_cutover st') =
       map_option (\<lambda>c. (cu_stream c, cu_count c, cu_digest c)) (os_cutover st1)"
proof -
  obtain w st1 st3 st5 where u:
    "(case stream of None \<Rightarrow> (False, st) | Some s \<Rightarrow> ensure_cutover L s st) = (w, st1)"
    "run_steps persist_fact (ob_facts b) (st1\<lparr>os_graph := fold merge_stub_node (ob_entities b) (os_graph st1)\<rparr>) = Inr st3"
    "(if stream = None then Inr (fold persist_runtime_identity_observation (ob_identities b) st3)
      else scoped_writes L b (fold persist_runtime_identity_observation (ob_identities b) st3)) = Inr st5"
    "case stream of None \<Rightarrow> st' = st5\<lparr>os_graph := bump_revision (os_graph st5)\<rparr>
     | Some s \<Rightarrow> (\<exists>revision. gs_revision (bump_revision (os_graph st5)) = Some revision \<and>
         finalize_unit L s b revision w (st5\<lparr>os_graph := bump_revision (os_graph st5)\<rparr>) = Inr st')"
    using assms by (rule persist_batchE)
  have five: "os_cutover st5 = os_cutover st1" "os_legacy st5 = os_legacy st1"
    using persist_facts_rest [OF u(2)] scoped_step_keeps [OF u(3)] by (simp_all add: persist_identities_rest)
  show ?thesis
  proof (cases stream)
    case None
    then show ?thesis using that [OF u(1)] u(4) five by simp
  next
    case (Some s)
    then obtain revision where f: "finalize_unit L s b revision w (st5\<lparr>os_graph := bump_revision (os_graph st5)\<rparr>) = Inr st'"
      using u(4) by auto
    show ?thesis using that [OF u(1)] finalize_members [OF f] five by simp
  qed
qed

lemma commit_ledger_ok: "commit L st st' \<Longrightarrow> ledger_ok L st \<Longrightarrow> ledger_ok L st'"
proof (erule commitE)
  fix scoped b assume ok: "ledger_ok L st" and u: "persist_observation_batch L scoped b st = Inr st'"
  define stream where "stream = (case scoped of None \<Rightarrow> None | Some c \<Rightarrow> if se_enabled c then Some (se_stream_id c) else None)"
  define st0 where "st0 = st\<lparr>os_graph := ensure_revision_singleton (os_graph st)\<rparr>"
  have ok0: "ledger_ok L st0" using ok ledger_ok_cong [of st0 st L] by (simp add: st0_def)
  obtain w st1 where s: "(case stream of None \<Rightarrow> (False, st0) | Some s \<Rightarrow> ensure_cutover L s st0) = (w, st1)"
    "map fst (os_legacy st') = map fst (os_legacy st1)"
    "map_option (\<lambda>c. (cu_stream c, cu_count c, cu_digest c)) (os_cutover st') =
       map_option (\<lambda>c. (cu_stream c, cu_count c, cu_digest c)) (os_cutover st1)"
    using u [unfolded persist_observation_batch_def, folded stream_def st0_def] by (rule persist_batch_ledger)
  have "ledger_ok L st1" using s(1) ok0 ensure_cutover_ok [OF ok0] by (cases stream) auto
  then show "ledger_ok L st'" using ledger_ok_cong [OF s(2,3)] by simp
next
  fix g assume "ledger_ok L st" "st' = st\<lparr>os_graph := g\<rparr>"
  then show "ledger_ok L st'" using ledger_ok_cong [of st' st L] by simp
qed

definition no_ledger :: "graph_store \<Rightarrow> observation_store" where
  "no_ledger g = \<lparr>os_graph = g, os_evidence = [], os_identities = [], os_scoped = [], os_cutover = None, os_legacy = [], os_counters = []\<rparr>"

lemma commits_ledger_ok: "(commit L)\<^sup>*\<^sup>* (no_ledger g) st \<Longrightarrow> ledger_ok L st"
proof (induction rule: rtranclp_induct)
  case base
  show ?case by (simp add: ledger_ok_def no_ledger_def)
next
  case (step st1 st2)
  then show ?case by (blast intro: commit_ledger_ok)
qed

text \<open>C13: the durable membership always matches its ledger: in every state reached by units and other graph writes, the
  legacy history of a stream is known exactly when that stream wrote the cutover, its two bucket counts add up
  to the buckets counted at the cutover, and a mismatch is never reported.\<close>

theorem legacy_history_known:
  assumes "(commit L)\<^sup>*\<^sup>* (no_ledger g) st"
  shows "case os_cutover st of
      None \<Rightarrow> lg_unknown_reason (classify_legacy L (os_cutover st) (os_legacy st) stream_id) = Some NO_LEDGER
    | Some c \<Rightarrow> (if cu_stream c \<noteq> stream_id
        then lg_unknown_reason (classify_legacy L (os_cutover st) (os_legacy st) stream_id) = Some STREAM_ID_MISMATCH
        else lg_unknown_reason (classify_legacy L (os_cutover st) (os_legacy st) stream_id) = None \<and>
          the (lg_legacy_unscoped_buckets (classify_legacy L (os_cutover st) (os_legacy st) stream_id)) +
          the (lg_mixed_buckets (classify_legacy L (os_cutover st) (os_legacy st) stream_id)) = cu_count c)"
proof -
  have ok: "ledger_ok L st" by (rule commits_ledger_ok [OF assms])
  show ?thesis
  proof (cases "os_cutover st")
    case None
    then show ?thesis by (simp add: classify_legacy_def Let_def)
  next
    case (Some c)
    define P :: "string \<times> legacy_bucket \<Rightarrow> bool" where "P = (\<lambda>(_, b). lb_mixed_at b \<noteq> None)"
    have "length (filter P (os_legacy st)) \<le> cu_count c" using ok Some length_filter_le [of P "os_legacy st"] by (simp add: ledger_ok_def)
    then show ?thesis using ok Some unfolding classify_legacy_def Let_def P_def [symmetric] by (simp add: ledger_ok_def)
  qed
qed

section \<open>Witnesses\<close>

definition ex_graph :: graph_store where
  "ex_graph = (os_graph ex_store)\<lparr>gs_relations := [((''CALLS'', ''service:shop'', ''x''),
     \<lparr>rr_key = [], rr_owners = [], rr_evidence = [''evidence:otel:prod:day:1'']\<rparr>)]\<rparr>"

abbreviation "ex_scoped \<equiv> Some \<lparr>se_enabled = True, se_stream_id = ''s''\<rparr>"

lemma ex_first_unit: "case persist_observation_batch ex_ledger ex_scoped ex_unit (no_ledger ex_graph) of Inl e \<Rightarrow> False
    | Inr st' \<Rightarrow> (case os_cutover st' of None \<Rightarrow> False | Some c \<Rightarrow> cu_stream c = ''s'' \<and> cu_count c = 1)"
  by code_simp

lemma legacy_history_known_witness:
  "\<exists>st :: observation_store. os_cutover st \<noteq> None \<and> lg_unknown_reason (classify_legacy ex_ledger (os_cutover st) (os_legacy st) ''s'') = None"
proof -
  obtain st c where st: "persist_observation_batch ex_ledger ex_scoped ex_unit (no_ledger ex_graph) = Inr st"
    "os_cutover st = Some c" "cu_stream c = ''s''"
    using ex_first_unit by (auto split: sum.splits option.splits)
  have "(commit ex_ledger)\<^sup>*\<^sup>* (no_ledger ex_graph) st" using commit.unit [OF st(1)] by (rule r_into_rtranclp)
  from legacy_history_known [OF this, of "''s''"] show ?thesis using st(2,3) by (intro exI [of _ st]) simp
qed

lemma report_of_one_state_witness:
  "\<exists>report. read_transition_report ex_ledger (\<lambda>_. ex_store) ''s'' 3 0 = Inr report \<and>
     report = read_report_once ex_ledger ex_store ex_store ex_store ''s'' (tr_as_of_revision report)"
proof -
  have "read_revision ex_store = Inr 4" by (simp add: read_revision_def ex_store_def)
  then have r: "read_transition_report ex_ledger (\<lambda>_. ex_store) ''s'' 3 0 = Inr (read_report_once ex_ledger ex_store ex_store ex_store ''s'' 4)"
    by (simp add: numeral_3_eq_3)
  show ?thesis using r report_of_one_state [of ex_ledger "\<lambda>_. ex_store", OF _ r] by auto
qed

end
