(* ===== verification/DeploymentContracts.thy ===== *)
theory DeploymentContracts
  imports TelemetryModel KubernetesMapping
begin

text \<open>
  \<open>architecture_intelligence/canonical_json.py\<close>, \<open>common/rfc3339.py\<close>, \<open>observation_context_ref.py\<close>, the deployment
  part of \<open>contracts.py\<close>, and the identity formulas of \<open>deployment_projection.py\<close>.  The pydantic validators
  of a contract model are a predicate; constructing the model is a function into a sum, so a violated
  validator is an outcome.  SHA-256, \<open>datetime.fromisoformat\<close> and the environment pattern on non-ASCII text
  are the fields of \<open>deployment_library\<close>.
\<close>

datatype deployment_fault = ContractError | WorkloadKindError | ClaimLookupError | AssertionError | GroupKeyError | LengthError

text \<open>Sequencing of steps that may raise.\<close>

definition and_then :: "'e + 'a \<Rightarrow> ('a \<Rightarrow> 'e + 'b) \<Rightarrow> 'e + 'b" where
  "and_then m f = (case m of Inl e \<Rightarrow> Inl e | Inr x \<Rightarrow> f x)"

lemma and_then_simps [simp]: "and_then (Inl e) f = Inl e" "and_then (Inr x) f = f x"
  by (simp_all add: and_then_def)

lemma and_then_Inr: "and_then m f = Inr y \<longleftrightarrow> (\<exists>x. m = Inr x \<and> f x = Inr y)"
  by (cases m) auto

section \<open>Canonical JSON\<close>

datatype json_value = JStr string | JInt int

text \<open>\<open>json.dumps(..., sort_keys=True, separators=(",", ":"), ensure_ascii=False)\<close> of a flat object.\<close>

definition backslash :: char where
  "backslash = CHR 0x5C"

definition json_escapes :: "(char \<times> char) list" where
  "json_escapes = [(CHR 0x22, CHR 0x22), (CHR 0x5C, CHR 0x5C), (CHR 0x0A, CHR ''n''), (CHR 0x0D, CHR ''r''),
     (CHR 0x09, CHR ''t''), (CHR 0x0C, CHR ''f''), (CHR 0x08, CHR ''b'')]"

definition nibble :: "nat \<Rightarrow> char" where
  "nibble n = (if n < 10 then char_of (48 + n) else char_of (87 + n))"

definition nibble_value :: "char \<Rightarrow> nat" where
  "nibble_value c = (if ascii_digit c then of_char c - 48 else of_char c - 87)"

definition json_char :: "char \<Rightarrow> string" where
  "json_char c = (case map_of json_escapes c of
       Some e \<Rightarrow> [backslash, e]
     | None \<Rightarrow> if (of_char c :: nat) < 32
         then [backslash, CHR ''u'', CHR ''0'', CHR ''0'', nibble (of_char c div 16), nibble (of_char c mod 16)]
         else [c])"

definition json_string :: "string \<Rightarrow> string" where
  "json_string s = [CHR 0x22] @ concat (map json_char s) @ [CHR 0x22]"

fun json_value_text :: "json_value \<Rightarrow> string" where
  "json_value_text (JStr s) = json_string s"
| "json_value_text (JInt n) = show_int n"

fun comma_joined :: "string list \<Rightarrow> string" where
  "comma_joined [] = []"
| "comma_joined [x] = x"
| "comma_joined (x # xs) = x @ '','' @ comma_joined xs"

definition canonical_json :: "(string \<times> json_value) list \<Rightarrow> bytes" where
  "canonical_json d = ''{'' @ comma_joined (map (\<lambda>(k, v). json_string k @ '':'' @ json_value_text v) (sort_key fst d)) @ ''}''"

definition canonical_digest :: "(bytes \<Rightarrow> string) \<Rightarrow> (string \<times> json_value) list \<Rightarrow> string" where
  "canonical_digest H d = H (canonical_json d)"

text \<open>Reading a JSON string back: the encoding loses nothing and shows where it ends.\<close>

fun json_read :: "string \<Rightarrow> (string \<times> string) option" where
  "json_read [] = None"
| "json_read (c # s) =
     (if c = CHR 0x22 then Some ([], s)
      else if c = backslash then
        (case s of
           e # t \<Rightarrow>
             if e = CHR ''u'' then
               (case t of a # b # x # y # u \<Rightarrow>
                  map_option (apfst ((#) (char_of (16 * nibble_value x + nibble_value y)))) (json_read u)
                | _ \<Rightarrow> None)
             else (case map_of (map prod.swap json_escapes) e of
                 Some d \<Rightarrow> map_option (apfst ((#) d)) (json_read t)
               | None \<Rightarrow> None)
         | [] \<Rightarrow> None)
      else map_option (apfst ((#) c)) (json_read s))"

lemma nibble_value_nibble: "n < 16 \<Longrightarrow> nibble_value (nibble n) = n"
proof -
  have "list_all (\<lambda>n. nibble_value (nibble n) = n) [0..<16]" by code_simp
  then show "n < 16 \<Longrightarrow> nibble_value (nibble n) = n" by (simp add: list_all_iff)
qed

lemma json_read_char: "json_read (json_char c @ s) = map_option (apfst ((#) c)) (json_read s)"
proof (cases "map_of json_escapes c")
  case (Some e)
  then have "(c, e) \<in> set json_escapes" by (rule map_of_SomeD)
  then show ?thesis
    by (auto simp: json_char_def json_escapes_def backslash_def)
next
  case None
  then have c: "c \<noteq> CHR 0x22" "c \<noteq> backslash" by (auto simp: json_escapes_def backslash_def split: if_splits)
  show ?thesis
  proof (cases "(of_char c :: nat) < 32")
    case True
    have "char_of (16 * nibble_value (nibble (of_char c div 16)) + nibble_value (nibble (of_char c mod 16))) = c"
      using True by (simp add: nibble_value_nibble)
    then show ?thesis using True None by (simp add: json_char_def backslash_def)
  next
    case False
    then show ?thesis using None c by (simp add: json_char_def)
  qed
qed

lemma json_read_string: "json_read (concat (map json_char s) @ CHR 0x22 # t) = Some (s, t)"
  by (induction s) (simp_all add: json_read_char del: json_read.simps, simp)

lemma json_string_prefix: "json_string s @ x = json_string t @ y \<Longrightarrow> s = t \<and> x = y"
proof -
  assume "json_string s @ x = json_string t @ y"
  then have "json_read (concat (map json_char s) @ CHR 0x22 # x) = json_read (concat (map json_char t) @ CHR 0x22 # y)"
    by (simp add: json_string_def)
  then show ?thesis by (simp only: json_read_string) simp
qed

section \<open>References\<close>

datatype workload_kind = DEPLOYMENT | STATEFULSET | DAEMONSET

definition workload_kind_by_raw :: "(string \<times> workload_kind) list" where
  "workload_kind_by_raw = [(''Deployment'', DEPLOYMENT), (''StatefulSet'', STATEFULSET), (''DaemonSet'', DAEMONSET)]"

record workload_ref =
  wr_id :: string
  wr_name :: string
  wr_kind :: workload_kind
  wr_namespace :: string

datatype entity_type = SERVICE | OPERATION | QUEUE | WORKLOAD | TOPIC | SUBSCRIPTION

text \<open>An \<open>EntityRef\<close> without its optional fields, which the deployment part never sets.\<close>

record entity_ref =
  er_id :: string
  er_type :: entity_type
  er_name :: string

datatype limitation_code =
    UNRESOLVED_IDENTITY | INSUFFICIENT_EVIDENCE_CODE | UNKNOWN_ENTITY | OBSERVATION_CONTEXT_REQUIRED
  | SNAPSHOT_NOT_AVAILABLE | RESULT_LIMIT_EXCEEDED | DEPLOYMENT_IDENTITY_UNRESOLVED | DEPLOYMENT_IDENTITY_AMBIGUOUS
  | DEPLOYMENT_IDENTITY_CONFLICT | DEPLOYMENT_ENVIRONMENT_MISMATCH | DEPLOYMENT_TEMPORAL_MISMATCH
  | DEPLOYMENT_EVIDENCE_INCOMPLETE | DEPLOYMENT_RESULT_LIMIT_EXCEEDED

definition limitation_value :: "limitation_code \<Rightarrow> string" where
  "limitation_value c = (case c of
     UNRESOLVED_IDENTITY \<Rightarrow> ''UNRESOLVED_IDENTITY'' | INSUFFICIENT_EVIDENCE_CODE \<Rightarrow> ''INSUFFICIENT_EVIDENCE''
   | UNKNOWN_ENTITY \<Rightarrow> ''UNKNOWN_ENTITY'' | OBSERVATION_CONTEXT_REQUIRED \<Rightarrow> ''OBSERVATION_CONTEXT_REQUIRED''
   | SNAPSHOT_NOT_AVAILABLE \<Rightarrow> ''SNAPSHOT_NOT_AVAILABLE'' | RESULT_LIMIT_EXCEEDED \<Rightarrow> ''RESULT_LIMIT_EXCEEDED''
   | DEPLOYMENT_IDENTITY_UNRESOLVED \<Rightarrow> ''DEPLOYMENT_IDENTITY_UNRESOLVED''
   | DEPLOYMENT_IDENTITY_AMBIGUOUS \<Rightarrow> ''DEPLOYMENT_IDENTITY_AMBIGUOUS''
   | DEPLOYMENT_IDENTITY_CONFLICT \<Rightarrow> ''DEPLOYMENT_IDENTITY_CONFLICT''
   | DEPLOYMENT_ENVIRONMENT_MISMATCH \<Rightarrow> ''DEPLOYMENT_ENVIRONMENT_MISMATCH''
   | DEPLOYMENT_TEMPORAL_MISMATCH \<Rightarrow> ''DEPLOYMENT_TEMPORAL_MISMATCH''
   | DEPLOYMENT_EVIDENCE_INCOMPLETE \<Rightarrow> ''DEPLOYMENT_EVIDENCE_INCOMPLETE''
   | DEPLOYMENT_RESULT_LIMIT_EXCEEDED \<Rightarrow> ''DEPLOYMENT_RESULT_LIMIT_EXCEEDED'')"

lemma limitation_value_inject: "limitation_value a = limitation_value b \<Longrightarrow> a = b"
  by (cases a; cases b; simp add: limitation_value_def)

text \<open>Codes are sorted by value, so the class order is that of the values.\<close>

instantiation limitation_code :: linorder
begin

definition less_eq_limitation_code :: "limitation_code \<Rightarrow> limitation_code \<Rightarrow> bool" where
  "less_eq_limitation_code a b \<longleftrightarrow> limitation_value a \<le> limitation_value b"

definition less_limitation_code :: "limitation_code \<Rightarrow> limitation_code \<Rightarrow> bool" where
  "less_limitation_code a b \<longleftrightarrow> limitation_value a < limitation_value b"

instance
  by standard (auto simp: less_eq_limitation_code_def less_limitation_code_def intro: limitation_value_inject)

end

datatype deployment_method = RESOLVED_EXPLICIT | RESOLVED_CONFIGURED | RESOLVED_OBSERVED

definition method_strength :: "deployment_method \<Rightarrow> nat" where
  "method_strength m = (case m of RESOLVED_EXPLICIT \<Rightarrow> 0 | RESOLVED_CONFIGURED \<Rightarrow> 1 | RESOLVED_OBSERVED \<Rightarrow> 2)"

lemma method_strength_inject: "method_strength a = method_strength b \<Longrightarrow> a = b"
  by (cases a; cases b; simp add: method_strength_def)

instantiation deployment_method :: linorder
begin

definition less_eq_deployment_method :: "deployment_method \<Rightarrow> deployment_method \<Rightarrow> bool" where
  "less_eq_deployment_method a b \<longleftrightarrow> method_strength a \<le> method_strength b"

definition less_deployment_method :: "deployment_method \<Rightarrow> deployment_method \<Rightarrow> bool" where
  "less_deployment_method a b \<longleftrightarrow> method_strength a < method_strength b"

instance
  by standard (auto simp: less_eq_deployment_method_def less_deployment_method_def intro: method_strength_inject)

end

text \<open>The six statuses; the three whose value starts with \<open>RESOLVED_\<close> carry the method of that name.\<close>

datatype deployment_status = RESOLVED deployment_method | CONFLICT | AMBIGUOUS | UNRESOLVED

definition is_resolved :: "deployment_status \<Rightarrow> bool" where
  "is_resolved s = (case s of RESOLVED _ \<Rightarrow> True | _ \<Rightarrow> False)"

lemma is_resolved_simps [simp]:
  "is_resolved (RESOLVED m)" "\<not> is_resolved CONFLICT" "\<not> is_resolved AMBIGUOUS" "\<not> is_resolved UNRESOLVED"
  by (simp_all add: is_resolved_def)

definition method_to_status :: "deployment_method \<Rightarrow> deployment_status" where
  "method_to_status m = RESOLVED m"

section \<open>Identity formulas\<close>

definition DEPLOYMENT_RECONCILIATION_RULE_ID :: string where
  "DEPLOYMENT_RECONCILIATION_RULE_ID = ''service-workload-reconciliation''"

definition DEPLOYMENT_RECONCILIATION_RULE_VERSION :: int where
  "DEPLOYMENT_RECONCILIATION_RULE_VERSION = 1"

definition claim_payload :: "string \<Rightarrow> string \<Rightarrow> (string \<times> json_value) list" where
  "claim_payload service workload =
     [(''predicate'', JStr ''DEPLOYED_AS''), (''service_id'', JStr service), (''workload_id'', JStr workload)]"

definition compute_deployment_claim_id :: "(bytes \<Rightarrow> string) \<Rightarrow> string \<Rightarrow> string \<Rightarrow> string" where
  "compute_deployment_claim_id H service workload =
     ''aip:claim:v1:'' @ canonical_digest H (claim_payload service workload)"

definition mapping_payload :: "string \<Rightarrow> string \<Rightarrow> string \<Rightarrow> (string \<times> json_value) list" where
  "mapping_payload artifact_id artifact_revision mapping_id =
     [(''artifact_id'', JStr artifact_id), (''artifact_revision'', JStr artifact_revision), (''mapping_id'', JStr mapping_id)]"

definition compute_deployment_group_key ::
  "string option \<Rightarrow> string option \<Rightarrow> string option \<Rightarrow> string option \<Rightarrow> string option \<Rightarrow> deployment_fault + string" where
  "compute_deployment_group_key workload_id artifact_id artifact_revision mapping_id observation_id =
     (let mapping_fields_given = (artifact_id \<noteq> None \<or> artifact_revision \<noteq> None \<or> mapping_id \<noteq> None);
          branches_given = length (filter id [workload_id \<noteq> None, mapping_fields_given, observation_id \<noteq> None]) in
      if branches_given > 1 then Inl GroupKeyError
      else (case (workload_id, observation_id, artifact_id, artifact_revision, mapping_id) of
          (Some w, _) \<Rightarrow> Inr (''workload:'' @ w)
        | (None, Some i, _) \<Rightarrow> Inr (''otel:'' @ i)
        | (None, None, Some a, Some r, Some m) \<Rightarrow> Inr (''mapping:'' @ canonical_json (mapping_payload a r m))
        | _ \<Rightarrow> Inl GroupKeyError))"

definition workload_group_key :: "string \<Rightarrow> string" where
  "workload_group_key w = ''workload:'' @ w"

definition otel_group_key :: "string \<Rightarrow> string" where
  "otel_group_key i = ''otel:'' @ i"

definition mapping_group_key :: "string \<Rightarrow> string \<Rightarrow> string \<Rightarrow> string" where
  "mapping_group_key a r m = ''mapping:'' @ canonical_json (mapping_payload a r m)"

lemma compute_group_key_simps [simp]:
  "compute_deployment_group_key (Some w) None None None None = Inr (workload_group_key w)"
  "compute_deployment_group_key None None None None (Some i) = Inr (otel_group_key i)"
  "compute_deployment_group_key None (Some a) (Some r) (Some m) None = Inr (mapping_group_key a r m)"
  by (simp_all add: compute_deployment_group_key_def workload_group_key_def otel_group_key_def mapping_group_key_def)

definition resolution_payload :: "string \<Rightarrow> string \<Rightarrow> string \<Rightarrow> (string \<times> json_value) list" where
  "resolution_payload snapshot_id context_id group_key =
     [(''snapshot_id'', JStr snapshot_id), (''context_id'', JStr context_id), (''group_key'', JStr group_key),
      (''reconciliation_rule_id'', JStr DEPLOYMENT_RECONCILIATION_RULE_ID),
      (''reconciliation_rule_version'', JInt DEPLOYMENT_RECONCILIATION_RULE_VERSION)]"

definition compute_deployment_resolution_id :: "(bytes \<Rightarrow> string) \<Rightarrow> string \<Rightarrow> string \<Rightarrow> string \<Rightarrow> string" where
  "compute_deployment_resolution_id H snapshot_id context_id group_key =
     ''aip:deployment-resolution:v1:'' @ canonical_digest H (resolution_payload snapshot_id context_id group_key)"

definition mapping_evidence_payload :: "string \<Rightarrow> string \<Rightarrow> string \<Rightarrow> string \<Rightarrow> (string \<times> json_value) list" where
  "mapping_evidence_payload artifact_id artifact_revision content_digest mapping_id =
     [(''artifact_id'', JStr artifact_id), (''artifact_revision'', JStr artifact_revision),
      (''content_digest'', JStr content_digest), (''mapping_id'', JStr mapping_id)]"

definition compute_service_workload_mapping_evidence_id ::
  "(bytes \<Rightarrow> string) \<Rightarrow> string \<Rightarrow> string \<Rightarrow> string \<Rightarrow> string \<Rightarrow> string" where
  "compute_service_workload_mapping_evidence_id H artifact_id artifact_revision content_digest mapping_id =
     ''urn:aip:service-workload-mapping-evidence:v1:'' @
       canonical_digest H (mapping_evidence_payload artifact_id artifact_revision content_digest mapping_id)"

section \<open>Claims and resolutions\<close>

record deployment_claim =
  dpc_claim_id :: string
  dpc_subject :: entity_ref
  dpc_object :: workload_ref
  dpc_method :: deployment_method
  dpc_methods :: "deployment_method list"
  dpc_rule_id :: string
  dpc_rule_version :: int
  dpc_evidence :: "string list"

record deployment_resolution =
  dpr_resolution_id :: string
  dpr_workload :: "workload_ref option"
  dpr_status :: deployment_status
  dpr_service :: "string option"
  dpr_candidates :: "string list"
  dpr_methods :: "deployment_method list"
  dpr_supporting :: "string list"
  dpr_conflicting :: "string list"
  dpr_limitations :: "limitation_code list"
  dpr_claim_id :: "string option"
  dpr_rule_id :: string
  dpr_rule_version :: int

definition hex_char :: "char \<Rightarrow> bool" where
  "hex_char c = (ascii_digit c \<or> (CHR ''a'' \<le> c \<and> c \<le> CHR ''f''))"

text \<open>The pattern \<open>^<prefix>[0-9a-f]{64}$\<close>.\<close>

definition digest_id :: "string \<Rightarrow> string \<Rightarrow> bool" where
  "digest_id prefix i = (take (length prefix) i = prefix \<and> length i = length prefix + 64 \<and>
     list_all hex_char (drop (length prefix) i))"

definition sorted_and_deduplicated :: "'a::linorder list \<Rightarrow> bool" where
  "sorted_and_deduplicated xs = (xs = sorted_set xs)"

definition supporting_methods_canonical :: "deployment_method list \<Rightarrow> bool" where
  "supporting_methods_canonical ms = (distinct ms \<and> ms = sort_key method_strength ms)"

definition claim_contract :: "deployment_claim \<Rightarrow> bool" where
  "claim_contract c =
     (digest_id ''aip:claim:v1:'' (dpc_claim_id c) \<and> dpc_methods c \<noteq> [] \<and> supporting_methods_canonical (dpc_methods c) \<and>
      dpc_rule_id c = DEPLOYMENT_RECONCILIATION_RULE_ID \<and> dpc_rule_version c = 1 \<and>
      dpc_evidence c \<noteq> [] \<and> sorted_and_deduplicated (dpc_evidence c) \<and>
      er_type (dpc_subject c) = SERVICE \<and> dpc_method c = hd (dpc_methods c))"

definition resolution_contract :: "deployment_resolution \<Rightarrow> bool" where
  "resolution_contract r =
     (digest_id ''aip:deployment-resolution:v1:'' (dpr_resolution_id r) \<and>
      sorted_and_deduplicated (dpr_candidates r) \<and> sorted_and_deduplicated (dpr_supporting r) \<and>
      sorted_and_deduplicated (dpr_conflicting r) \<and> sorted_and_deduplicated (dpr_limitations r) \<and>
      supporting_methods_canonical (dpr_methods r) \<and>
      (case dpr_claim_id r of None \<Rightarrow> True | Some i \<Rightarrow> digest_id ''aip:claim:v1:'' i) \<and>
      dpr_rule_id r = DEPLOYMENT_RECONCILIATION_RULE_ID \<and> dpr_rule_version r = 1 \<and>
      (if is_resolved (dpr_status r) then
         dpr_workload r \<noteq> None \<and> dpr_service r \<noteq> None \<and> dpr_candidates r = [the (dpr_service r)] \<and>
         dpr_claim_id r \<noteq> None \<and> dpr_methods r \<noteq> []
       else dpr_claim_id r = None))"

definition build_claim :: "deployment_claim \<Rightarrow> deployment_fault + deployment_claim" where
  "build_claim c = (if claim_contract c then Inr c else Inl ContractError)"

definition build_resolution :: "deployment_resolution \<Rightarrow> deployment_fault + deployment_resolution" where
  "build_resolution r = (if resolution_contract r then Inr r else Inl ContractError)"

lemma supporting_methods_canonical_iff: "supporting_methods_canonical ms \<longleftrightarrow> ms = sorted_set ms"
proof -
  have "ms = sort_key method_strength ms \<longleftrightarrow> sorted ms"
  proof
    assume "ms = sort_key method_strength ms"
    then have "sorted (map method_strength ms)" by (metis sorted_sort_key)
    then show "sorted ms" by (simp add: sorted_map less_eq_deployment_method_def [abs_def])
  next
    assume "sorted ms"
    then have "sorted (map method_strength ms)" by (simp add: sorted_map less_eq_deployment_method_def [abs_def])
    then show "ms = sort_key method_strength ms" by (metis sorted_sort_id sort_key_stable sorted_sort_key map_sorted_distinct_set_unique sort_key_id_if_sorted)
  qed
  then show ?thesis
    unfolding supporting_methods_canonical_def by (metis distinct_sorted_set sorted_set_id sorted_sorted_set)
qed

lemma sorted_and_deduplicated_sorted_set [simp]: "sorted_and_deduplicated (sorted_set xs)"
  by (simp add: sorted_and_deduplicated_def)

lemma sorted_and_deduplicated_short [simp]: "sorted_and_deduplicated []" "sorted_and_deduplicated [x]"
  by (simp_all add: sorted_and_deduplicated_def)

lemma supporting_methods_canonical_simps [simp]:
  "supporting_methods_canonical []" "supporting_methods_canonical [m]" "supporting_methods_canonical (sorted_set ms)"
  by (simp_all add: supporting_methods_canonical_iff)

lemma build_claim_Inr [simp]: "build_claim c = Inr d \<longleftrightarrow> c = d \<and> claim_contract d"
  by (auto simp: build_claim_def)

lemma build_resolution_Inr [simp]: "build_resolution r = Inr q \<longleftrightarrow> r = q \<and> resolution_contract q"
  by (auto simp: build_resolution_def)

text \<open>What \<open>hashlib.sha256(...).hexdigest()\<close> returns: 64 lower-case hexadecimal digits.\<close>

definition hex_digest :: "(bytes \<Rightarrow> string) \<Rightarrow> bool" where
  "hex_digest H = (\<forall>b. length (H b) = 64 \<and> list_all hex_char (H b))"

lemma digest_id_append: "hex_digest H \<Longrightarrow> digest_id prefix (prefix @ H b)"
  by (simp add: digest_id_def hex_digest_def)

lemma claim_id_pattern: "hex_digest H \<Longrightarrow> digest_id ''aip:claim:v1:'' (compute_deployment_claim_id H s w)"
  unfolding compute_deployment_claim_id_def canonical_digest_def by (rule digest_id_append)

lemma resolution_id_pattern:
  "hex_digest H \<Longrightarrow> digest_id ''aip:deployment-resolution:v1:'' (compute_deployment_resolution_id H s c k)"
  unfolding compute_deployment_resolution_id_def canonical_digest_def by (rule digest_id_append)

section \<open>What identities identify\<close>

lemma json_string_inject: "json_string s = json_string t \<Longrightarrow> s = t"
  using json_string_prefix [of s "[]" t "[]"] by simp

lemma mapping_payload_text:
  "canonical_json (mapping_payload a r m) = ''{'' @ json_string ''artifact_id'' @ '':'' @ json_string a @ '','' @
     json_string ''artifact_revision'' @ '':'' @ json_string r @ '','' @ json_string ''mapping_id'' @ '':'' @ json_string m @ ''}''"
proof -
  have "sort_key fst (mapping_payload a r m) = mapping_payload a r m"
    unfolding mapping_payload_def by code_simp
  then show ?thesis by (simp add: canonical_json_def mapping_payload_def)
qed

lemma claim_payload_text:
  "canonical_json (claim_payload s w) = ''{'' @ json_string ''predicate'' @ '':'' @ json_string ''DEPLOYED_AS'' @ '','' @
     json_string ''service_id'' @ '':'' @ json_string s @ '','' @ json_string ''workload_id'' @ '':'' @ json_string w @ ''}''"
proof -
  have "sort_key fst (claim_payload s w) = claim_payload s w"
    unfolding claim_payload_def by code_simp
  then show ?thesis by (simp add: canonical_json_def claim_payload_def)
qed

lemma resolution_payload_text:
  "canonical_json (resolution_payload s c k) = ''{'' @ json_string ''context_id'' @ '':'' @ json_string c @ '','' @
     json_string ''group_key'' @ '':'' @ json_string k @ '','' @
     json_string ''reconciliation_rule_id'' @ '':'' @ json_string DEPLOYMENT_RECONCILIATION_RULE_ID @ '','' @
     json_string ''reconciliation_rule_version'' @ '':'' @ show_int DEPLOYMENT_RECONCILIATION_RULE_VERSION @ '','' @
     json_string ''snapshot_id'' @ '':'' @ json_string s @ ''}''"
proof -
  let ?d = "[(''context_id'', JStr c), (''group_key'', JStr k),
      (''reconciliation_rule_id'', JStr DEPLOYMENT_RECONCILIATION_RULE_ID),
      (''reconciliation_rule_version'', JInt DEPLOYMENT_RECONCILIATION_RULE_VERSION), (''snapshot_id'', JStr s)]"
  have "sort_key fst (resolution_payload s c k) = ?d"
    unfolding resolution_payload_def by code_simp
  then show ?thesis by (simp add: canonical_json_def)
qed

lemma mapping_group_key_inject: "mapping_group_key a r m = mapping_group_key b q n \<Longrightarrow> a = b \<and> r = q \<and> m = n"
  unfolding mapping_group_key_def mapping_payload_text by (auto dest!: json_string_prefix json_string_inject)

lemma claim_payload_inject: "canonical_json (claim_payload s w) = canonical_json (claim_payload t v) \<Longrightarrow> s = t \<and> w = v"
  unfolding claim_payload_text by (auto dest!: json_string_prefix json_string_inject)

lemma resolution_payload_inject:
  "canonical_json (resolution_payload s c k) = canonical_json (resolution_payload t d j) \<Longrightarrow> s = t \<and> c = d \<and> k = j"
  unfolding resolution_payload_text by (auto dest!: json_string_prefix json_string_inject)

lemma group_keys_disjoint:
  "workload_group_key w \<noteq> otel_group_key i" "workload_group_key w \<noteq> mapping_group_key a r m"
  "otel_group_key i \<noteq> mapping_group_key a r m"
  by (simp_all add: workload_group_key_def otel_group_key_def mapping_group_key_def)

section \<open>Timestamps and observation contexts\<close>

text \<open>An aware datetime is its UTC microseconds; \<open>datetime.fromisoformat\<close> may raise, or read a naive value.\<close>

datatype iso_value = IsoError | IsoNaive int | IsoAware int

record deployment_library =
  dl_sha256 :: "bytes \<Rightarrow> string"
  dl_text :: text_library
  dl_fromisoformat :: "string \<Rightarrow> iso_value"
  dl_environment_pattern :: "string \<Rightarrow> bool"

definition parse_rfc3339 :: "(string \<Rightarrow> iso_value) \<Rightarrow> string option \<Rightarrow> int option" where
  "parse_rfc3339 fromiso text = (case text of None \<Rightarrow> None
     | Some t \<Rightarrow> (case fromiso t of IsoError \<Rightarrow> None | IsoNaive _ \<Rightarrow> None | IsoAware at \<Rightarrow> Some at))"

definition MAX_OBSERVATION_WINDOW :: int where
  "MAX_OBSERVATION_WINDOW = 31 * microseconds_per_day"

text \<open>\<open>ENVIRONMENT_PATTERN\<close> with \<open>min_length\<close> 1 and \<open>max_length\<close> 128.\<close>

definition control_char :: "char \<Rightarrow> bool" where
  "control_char c = ((of_char c :: nat) < 32 \<or> (of_char c :: nat) = 127)"

definition environment_ok :: "deployment_library \<Rightarrow> string \<Rightarrow> bool" where
  "environment_ok lib s =
     (if list_all is_ascii s then
        s \<noteq> [] \<and> length s \<le> 128 \<and> \<not> list_ex control_char s \<and> hd s \<noteq> CHR '' '' \<and> last s \<noteq> CHR '' ''
      else dl_environment_pattern lib s)"

record observation_context_ref =
  ox_context_id :: string
  ox_environment :: string
  ox_start :: int
  ox_end :: int

definition format_utc_timestamp :: "int \<Rightarrow> string" where
  "format_utc_timestamp t =
     (let micros = t mod microseconds_per_day; seconds = micros div 1000000 in
      iso_day (day_of t) @ ''T'' @ zero_padded 2 (seconds div 3600) @ '':'' @ zero_padded 2 (seconds div 60 mod 60) @ '':'' @
      zero_padded 2 (seconds mod 60) @ ''.'' @ zero_padded 6 (micros mod 1000000) @ ''Z'')"

definition compute_context_id :: "(bytes \<Rightarrow> string) \<Rightarrow> string \<Rightarrow> int \<Rightarrow> int \<Rightarrow> string" where
  "compute_context_id H environment window_start window_end =
     ''aip:observation-context:v1:'' @ canonical_digest H
       [(''version'', JInt 1), (''environment'', JStr environment),
        (''window_start_utc'', JStr (format_utc_timestamp window_start)),
        (''window_end_utc'', JStr (format_utc_timestamp window_end))]"

definition context_contract :: "deployment_library \<Rightarrow> observation_context_ref \<Rightarrow> bool" where
  "context_contract lib c =
     (digest_id ''aip:observation-context:v1:'' (ox_context_id c) \<and> environment_ok lib (ox_environment c) \<and>
      ox_start c \<le> ox_end c \<and> ox_end c - ox_start c \<le> MAX_OBSERVATION_WINDOW)"

definition build_observation_context_ref ::
  "deployment_library \<Rightarrow> string \<Rightarrow> int \<Rightarrow> int \<Rightarrow> deployment_fault + observation_context_ref" where
  "build_observation_context_ref lib environment window_start window_end =
     (let c = \<lparr>ox_context_id = compute_context_id (dl_sha256 lib) environment window_start window_end,
               ox_environment = environment, ox_start = window_start, ox_end = window_end\<rparr> in
      if context_contract lib c then Inr c else Inl ContractError)"

lemma build_observation_context_InrD:
  "build_observation_context_ref lib e a b = Inr c \<Longrightarrow>
     context_contract lib c \<and> ox_environment c = e \<and> ox_start c = a \<and> ox_end c = b"
  by (auto simp: build_observation_context_ref_def Let_def split: if_splits)

lemma build_observation_context_total:
  assumes "hex_digest (dl_sha256 lib)" "environment_ok lib e" "a \<le> b" "b - a \<le> MAX_OBSERVATION_WINDOW"
  shows "\<exists>c. build_observation_context_ref lib e a b = Inr c \<and> ox_environment c = e \<and> ox_start c = a \<and> ox_end c = b"
proof -
  have "digest_id ''aip:observation-context:v1:'' (compute_context_id (dl_sha256 lib) e a b)"
    unfolding compute_context_id_def canonical_digest_def by (rule digest_id_append [OF assms(1)])
  then show ?thesis using assms by (simp add: build_observation_context_ref_def context_contract_def)
qed

end
