(* ===== verification/DeploymentPaths.thy ===== *)
theory DeploymentPaths
  imports DeploymentContracts
begin

text \<open>
  \<open>architecture_intelligence/deployment_projection.py\<close>: the three evidence paths from a Kubernetes workload
  to a declared service.  Path A reads the service-id annotations of the workload's contributions, Path B a
  configured mapping artifact, Path C OpenTelemetry runtime identities through the Pod's owner chain.  Each
  path groups its evidence by workload and returns one resolution per group, and a claim where it resolves.
  The reads of the graph are the functions of \<open>path_reads\<close>.
\<close>

section \<open>Rows\<close>

record workload_contribution =
  wc_annotation :: "string option"
  wc_evidence :: "string list"

record current_workload =
  cw_id :: string
  cw_kind :: string
  cw_namespace :: string
  cw_name :: string
  cw_contributions :: "workload_contribution list"

record path_result =
  pr_resolutions :: "deployment_resolution list"
  pr_claims :: "deployment_claim list"

definition join_results :: "path_result list \<Rightarrow> path_result" where
  "join_results rs = \<lparr>pr_resolutions = concat (map pr_resolutions rs), pr_claims = concat (map pr_claims rs)\<rparr>"

definition empty_result :: path_result where
  "empty_result = \<lparr>pr_resolutions = [], pr_claims = []\<rparr>"

definition workload_ref_of :: "current_workload \<Rightarrow> deployment_fault + workload_ref" where
  "workload_ref_of w = (case map_of workload_kind_by_raw (cw_kind w) of
       None \<Rightarrow> Inl WorkloadKindError
     | Some k \<Rightarrow> Inr \<lparr>wr_id = cw_id w, wr_name = cw_name w, wr_kind = k, wr_namespace = cw_namespace w\<rparr>)"

definition resolved_claim ::
  "(bytes \<Rightarrow> string) \<Rightarrow> string \<Rightarrow> string \<Rightarrow> workload_ref \<Rightarrow> deployment_method \<Rightarrow> string list \<Rightarrow> deployment_fault + deployment_claim" where
  "resolved_claim H service name w how evidence = build_claim
     \<lparr>dpc_claim_id = compute_deployment_claim_id H service (wr_id w),
      dpc_subject = \<lparr>er_id = service, er_type = SERVICE, er_name = name\<rparr>, dpc_object = w,
      dpc_method = how, dpc_methods = [how],
      dpc_rule_id = DEPLOYMENT_RECONCILIATION_RULE_ID, dpc_rule_version = DEPLOYMENT_RECONCILIATION_RULE_VERSION,
      dpc_evidence = evidence\<rparr>"

text \<open>The four shapes of a resolution.\<close>

definition unsettled :: "string \<Rightarrow> workload_ref option \<Rightarrow> deployment_status \<Rightarrow> string list \<Rightarrow> string list \<Rightarrow> string list
     \<Rightarrow> limitation_code list \<Rightarrow> deployment_resolution" where
  "unsettled i w status candidates supporting conflicting limitations =
     \<lparr>dpr_resolution_id = i, dpr_workload = w, dpr_status = status, dpr_service = None, dpr_candidates = candidates,
      dpr_methods = [], dpr_supporting = supporting, dpr_conflicting = conflicting, dpr_limitations = limitations,
      dpr_claim_id = None, dpr_rule_id = DEPLOYMENT_RECONCILIATION_RULE_ID,
      dpr_rule_version = DEPLOYMENT_RECONCILIATION_RULE_VERSION\<rparr>"

definition settled :: "string \<Rightarrow> workload_ref \<Rightarrow> deployment_method \<Rightarrow> string \<Rightarrow> string list \<Rightarrow> string \<Rightarrow> deployment_resolution" where
  "settled i w how service evidence claim =
     \<lparr>dpr_resolution_id = i, dpr_workload = Some w, dpr_status = RESOLVED how, dpr_service = Some service,
      dpr_candidates = [service], dpr_methods = [how], dpr_supporting = evidence, dpr_conflicting = [],
      dpr_limitations = [], dpr_claim_id = Some claim, dpr_rule_id = DEPLOYMENT_RECONCILIATION_RULE_ID,
      dpr_rule_version = DEPLOYMENT_RECONCILIATION_RULE_VERSION\<rparr>"

text \<open>A claim with the resolution that names it.\<close>

definition settled_result ::
  "(bytes \<Rightarrow> string) \<Rightarrow> string \<Rightarrow> string \<Rightarrow> string \<Rightarrow> workload_ref \<Rightarrow> deployment_method \<Rightarrow> string list \<Rightarrow> deployment_fault + path_result" where
  "settled_result H i service name w how evidence =
     and_then (resolved_claim H service name w how evidence) (\<lambda>claim.
       and_then (build_resolution (settled i w how service evidence (dpc_claim_id claim))) (\<lambda>r.
         Inr \<lparr>pr_resolutions = [r], pr_claims = [claim]\<rparr>))"

definition unsettled_result :: "deployment_resolution \<Rightarrow> deployment_fault + path_result" where
  "unsettled_result r = and_then (build_resolution r) (\<lambda>q. Inr \<lparr>pr_resolutions = [q], pr_claims = []\<rparr>)"

text \<open>
  The branch Path A and Path B share once the services a workload's evidence names are known: several
  conflict, one declared service resolves, one unknown service stays unresolved.
\<close>

definition named_result ::
  "(bytes \<Rightarrow> string) \<Rightarrow> (string \<Rightarrow> string option) \<Rightarrow> deployment_method \<Rightarrow> string \<Rightarrow> workload_ref \<Rightarrow> string list \<Rightarrow> string list
     \<Rightarrow> deployment_fault + path_result" where
  "named_result H lookup_service_name how i w named evidence =
     (if length named > 1 then
        unsettled_result (unsettled i (Some w) CONFLICT named [] evidence [DEPLOYMENT_IDENTITY_CONFLICT])
      else (case lookup_service_name (hd named) of
          Some name \<Rightarrow> settled_result H i (hd named) name w how evidence
        | None \<Rightarrow> unsettled_result
            (unsettled i (Some w) UNRESOLVED [hd named] evidence [] [DEPLOYMENT_IDENTITY_UNRESOLVED])))"

section \<open>Path A: annotations\<close>

definition path_a_step ::
  "(bytes \<Rightarrow> string) \<Rightarrow> (string \<Rightarrow> string option) \<Rightarrow> string \<Rightarrow> string \<Rightarrow> current_workload \<Rightarrow> deployment_fault + path_result" where
  "path_a_step H lookup_service_name snapshot context_id w =
     (let annotated = filter (\<lambda>c. wc_annotation c \<noteq> None) (cw_contributions w) in
      if annotated = [] then Inr empty_result
      else let distinct_values = sorted_set (somes (map wc_annotation annotated));
               evidence = sorted_set (concat (map wc_evidence annotated)) in
        and_then (workload_ref_of w) (\<lambda>ref.
          and_then (compute_deployment_group_key (Some (cw_id w)) None None None None) (\<lambda>key.
            named_result H lookup_service_name RESOLVED_EXPLICIT
              (compute_deployment_resolution_id H snapshot context_id key) ref distinct_values evidence)))"

definition resolve_path_a ::
  "(bytes \<Rightarrow> string) \<Rightarrow> current_workload list \<Rightarrow> (string \<Rightarrow> string option) \<Rightarrow> string \<Rightarrow> string \<Rightarrow> deployment_fault + path_result" where
  "resolve_path_a H workloads lookup_service_name snapshot context_id =
     and_then (traverse (path_a_step H lookup_service_name snapshot context_id) workloads) (\<lambda>rs. Inr (join_results rs))"

section \<open>Path B: the mapping artifact\<close>

record mapping_entry =
  me_mapping_id :: string
  me_service_id :: string
  me_source_id :: string
  me_cluster_uid :: string
  me_api_group :: string
  me_kind :: string
  me_namespace :: string
  me_name :: string

record mapping_document =
  md_artifact_id :: string
  md_artifact_revision :: string
  md_locator :: string
  md_content_digest :: string
  md_entries :: "mapping_entry list"

record mapping_record =
  mp_entry :: mapping_entry
  mp_evidence_id :: string
  mp_workload :: "current_workload option"

definition mapping_evidence_id :: "(bytes \<Rightarrow> string) \<Rightarrow> mapping_document \<Rightarrow> mapping_entry \<Rightarrow> string" where
  "mapping_evidence_id H d e = compute_service_workload_mapping_evidence_id H (md_artifact_id d) (md_artifact_revision d)
     (md_content_digest d) (me_mapping_id e)"

definition mapping_record_of ::
  "(bytes \<Rightarrow> string) \<Rightarrow> mapping_document \<Rightarrow> (string \<times> string) list \<Rightarrow> (string \<Rightarrow> current_workload option) \<Rightarrow> mapping_entry
     \<Rightarrow> deployment_fault + mapping_record" where
  "mapping_record_of H d sources resolve_workload e =
     and_then
       (if (me_source_id e, me_cluster_uid e) \<in> set sources then
          (case kubernetes_logical_resource_id H (me_cluster_uid e) (me_api_group e) (me_kind e) (me_namespace e) (me_name e) of
             None \<Rightarrow> Inl LengthError
           | Some i \<Rightarrow> Inr (resolve_workload i))
        else Inr None)
       (\<lambda>w. Inr \<lparr>mp_entry = e, mp_evidence_id = mapping_evidence_id H d e, mp_workload = w\<rparr>)"

definition path_b_group ::
  "(bytes \<Rightarrow> string) \<Rightarrow> (string \<Rightarrow> string option) \<Rightarrow> string \<Rightarrow> string \<Rightarrow> mapping_record list \<Rightarrow> string \<Rightarrow> deployment_fault + path_result" where
  "path_b_group H lookup_service_name snapshot context_id records workload_id =
     (let members = filter (\<lambda>r. map_option cw_id (mp_workload r) = Some workload_id) records in
      and_then (workload_ref_of (the (mp_workload (hd members)))) (\<lambda>ref.
        and_then (compute_deployment_group_key (Some workload_id) None None None None) (\<lambda>key.
          named_result H lookup_service_name RESOLVED_CONFIGURED
            (compute_deployment_resolution_id H snapshot context_id key) ref
            (sorted_set (map (\<lambda>r. me_service_id (mp_entry r)) members)) (sorted_set (map mp_evidence_id members)))))"

definition path_b_unmatched ::
  "(bytes \<Rightarrow> string) \<Rightarrow> mapping_document \<Rightarrow> string \<Rightarrow> string \<Rightarrow> mapping_record \<Rightarrow> deployment_fault + path_result" where
  "path_b_unmatched H d snapshot context_id r =
     and_then (compute_deployment_group_key None (Some (md_artifact_id d)) (Some (md_artifact_revision d))
         (Some (me_mapping_id (mp_entry r))) None) (\<lambda>key.
       unsettled_result (unsettled (compute_deployment_resolution_id H snapshot context_id key) None UNRESOLVED
         [me_service_id (mp_entry r)] [mp_evidence_id r] [] [DEPLOYMENT_IDENTITY_UNRESOLVED]))"

definition resolve_path_b ::
  "(bytes \<Rightarrow> string) \<Rightarrow> mapping_document option \<Rightarrow> (string \<times> string) list \<Rightarrow> (string \<Rightarrow> current_workload option)
     \<Rightarrow> (string \<Rightarrow> string option) \<Rightarrow> string \<Rightarrow> string \<Rightarrow> deployment_fault + path_result" where
  "resolve_path_b H document sources resolve_workload lookup_service_name snapshot context_id =
     (case document of None \<Rightarrow> Inr empty_result
      | Some d \<Rightarrow>
          and_then (traverse (mapping_record_of H d sources resolve_workload) (md_entries d)) (\<lambda>records.
            and_then (traverse (path_b_group H lookup_service_name snapshot context_id records)
                (sorted_set (map cw_id (somes (map mp_workload records))))) (\<lambda>grouped.
              and_then (traverse (path_b_unmatched H d snapshot context_id)
                  (sort_key (\<lambda>r. (md_artifact_id d, md_artifact_revision d, me_mapping_id (mp_entry r)))
                    (filter (\<lambda>r. mp_workload r = None) records))) (\<lambda>unmatched.
                Inr (join_results (grouped @ unmatched))))))"

section \<open>Path C: runtime identities\<close>

record captured_pod =
  cp_pod_id :: string
  cp_pod_name :: string
  cp_pod_namespace :: string
  cp_cluster_uid :: string
  cp_captured_at :: "string option"
  cp_evidence :: "string list"

record ownership_row =
  ow_workload_id :: string
  ow_evidence :: "string list"

record identity_row =
  io_id :: string
  io_service_name :: string
  io_service_namespace :: "string option"
  io_service_version :: "string option"
  io_environment :: "string option"
  io_k8s_pod_uid :: "string option"
  io_k8s_pod_name :: "string option"
  io_k8s_namespace_name :: "string option"
  io_k8s_cluster_uid :: "string option"
  io_k8s_deployment_name :: "string option"
  io_k8s_statefulset_name :: "string option"
  io_k8s_daemonset_name :: "string option"
  io_last_seen :: "int option"
  io_first_seen :: "int option"
  io_observation_count :: "int option"
  io_rule_id :: "string option"
  io_rule_version :: "int option"
  io_conflicting :: "string list"

record declared_identity =
  di_service_id :: string
  di_name :: string
  di_namespace :: "string option"
  di_version :: "string option"

record path_reads =
  rd_pods_by_uid :: "string \<Rightarrow> captured_pod list"
  rd_owners_of_pod :: "string \<Rightarrow> ownership_row list"
  rd_workload :: "string \<Rightarrow> current_workload option"
  rd_candidates :: "declared_candidate list"
  rd_aliases :: aliases
  rd_identity :: "string \<Rightarrow> declared_identity option"

definition workload_kind_attribute :: "(workload_kind \<times> (identity_row \<Rightarrow> string option)) list" where
  "workload_kind_attribute =
     [(DEPLOYMENT, io_k8s_deployment_name), (STATEFULSET, io_k8s_statefulset_name), (DAEMONSET, io_k8s_daemonset_name)]"

definition resolve_declared_service_id :: "deployment_library \<Rightarrow> path_reads \<Rightarrow> identity_row \<Rightarrow> declared_identity option" where
  "resolve_declared_service_id lib rd obs =
     (case resolve_service (dl_text lib) (rd_candidates rd) (io_service_name obs) (io_service_namespace obs) (rd_aliases rd) of
        (_, OBSERVED_ONLY) \<Rightarrow> None
      | (i, DECLARED) \<Rightarrow> rd_identity rd i)"

text \<open>Two present values that differ.\<close>

definition contradicts :: "string option \<Rightarrow> string option \<Rightarrow> bool" where
  "contradicts a b = (a \<noteq> None \<and> b \<noteq> None \<and> a \<noteq> b)"

definition consistency_attributes_agree ::
  "identity_row \<Rightarrow> captured_pod \<Rightarrow> current_workload \<Rightarrow> declared_identity \<Rightarrow> deployment_fault + bool" where
  "consistency_attributes_agree obs pod w identity =
     (if io_conflicting obs \<noteq> [] then Inr False
      else if contradicts (di_namespace identity) (io_service_namespace obs) then Inr False
      else if contradicts (io_service_version obs) (di_version identity) then Inr False
      else if contradicts (io_k8s_namespace_name obs) (Some (cp_pod_namespace pod)) then Inr False
      else if contradicts (io_k8s_cluster_uid obs) (Some (cp_cluster_uid pod)) then Inr False
      else if contradicts (io_k8s_pod_name obs) (Some (cp_pod_name pod)) then Inr False
      else (case map_of workload_kind_by_raw (cw_kind w) of
          None \<Rightarrow> Inl WorkloadKindError
        | Some resolved_kind \<Rightarrow> Inr (list_all (\<lambda>(k, attr). case attr obs of None \<Rightarrow> True
            | Some v \<Rightarrow> k = resolved_kind \<and> v = cw_name w) workload_kind_attribute)))"

definition within :: "observation_context_ref \<Rightarrow> int option \<Rightarrow> bool" where
  "within c t = (case t of None \<Rightarrow> False | Some v \<Rightarrow> ox_start c \<le> v \<and> v \<le> ox_end c)"

definition observation_context_limitation ::
  "deployment_library \<Rightarrow> observation_context_ref \<Rightarrow> identity_row \<Rightarrow> captured_pod \<Rightarrow> limitation_code option" where
  "observation_context_limitation lib c obs pod =
     (if \<not> str_true (io_environment obs) then Some DEPLOYMENT_EVIDENCE_INCOMPLETE
      else if io_environment obs \<noteq> Some (ox_environment c) then Some DEPLOYMENT_ENVIRONMENT_MISMATCH
      else if \<not> within c (io_last_seen obs) then Some DEPLOYMENT_TEMPORAL_MISMATCH
      else if \<not> within c (parse_rfc3339 (dl_fromisoformat lib) (cp_captured_at pod)) then Some DEPLOYMENT_TEMPORAL_MISMATCH
      else None)"

datatype outcome_kind = Candidate | Contradiction | Unresolvable

record scoped_outcome =
  so_workload :: current_workload
  so_outcome :: outcome_kind
  so_service_id :: "string option"
  so_service_name :: "string option"
  so_limitation :: "limitation_code option"
  so_evidence :: "string list"

definition standalone_otel_resolution ::
  "(bytes \<Rightarrow> string) \<Rightarrow> string \<Rightarrow> string \<Rightarrow> string \<Rightarrow> deployment_status \<Rightarrow> limitation_code \<Rightarrow> string list
     \<Rightarrow> deployment_fault + deployment_resolution" where
  "standalone_otel_resolution H snapshot context_id observation_id status limitation evidence =
     and_then (compute_deployment_group_key None None None None (Some observation_id)) (\<lambda>key.
       build_resolution (unsettled (compute_deployment_resolution_id H snapshot context_id key) None status []
         (sorted_set (evidence @ [observation_id])) [] [limitation]))"

text \<open>A resolution of its own (\<open>Inl\<close>), or an outcome that joins its workload's group (\<open>Inr\<close>).\<close>

definition evaluate_observation ::
  "deployment_library \<Rightarrow> path_reads \<Rightarrow> observation_context_ref \<Rightarrow> string \<Rightarrow> string \<Rightarrow> identity_row
     \<Rightarrow> deployment_fault + (deployment_resolution + scoped_outcome)" where
  "evaluate_observation lib rd c snapshot context_id obs =
     (let alone = (\<lambda>status code evidence. and_then
            (standalone_otel_resolution (dl_sha256 lib) snapshot context_id (io_id obs) status code evidence) (\<lambda>r. Inr (Inl r))) in
      if \<not> str_true (io_k8s_pod_uid obs) then alone UNRESOLVED DEPLOYMENT_IDENTITY_UNRESOLVED []
      else (case rd_pods_by_uid rd (the (io_k8s_pod_uid obs)) of
          [] \<Rightarrow> alone UNRESOLVED DEPLOYMENT_IDENTITY_UNRESOLVED []
        | pod # pods \<Rightarrow>
            if pods \<noteq> [] then alone AMBIGUOUS DEPLOYMENT_IDENTITY_AMBIGUOUS (concat (map cp_evidence (pod # pods)))
            else (case rd_owners_of_pod rd (cp_pod_id pod) of
                [] \<Rightarrow> alone UNRESOLVED DEPLOYMENT_IDENTITY_UNRESOLVED (cp_evidence pod)
              | owner # owners \<Rightarrow>
                  if owners \<noteq> [] then alone AMBIGUOUS DEPLOYMENT_IDENTITY_AMBIGUOUS
                    (cp_evidence pod @ concat (map ow_evidence (owner # owners)))
                  else (case rd_workload rd (ow_workload_id owner) of
                      None \<Rightarrow> alone UNRESOLVED DEPLOYMENT_IDENTITY_UNRESOLVED (cp_evidence pod @ ow_evidence owner)
                    | Some w \<Rightarrow>
                        let base_evidence = cp_evidence pod @ ow_evidence owner @ [io_id obs];
                            scoped = (\<lambda>kind service name code. Inr (Inr \<lparr>so_workload = w, so_outcome = kind,
                              so_service_id = service, so_service_name = name, so_limitation = code, so_evidence = base_evidence\<rparr>)) in
                        (case observation_context_limitation lib c obs pod of
                           Some code \<Rightarrow> scoped Unresolvable None None (Some code)
                         | None \<Rightarrow> (case resolve_declared_service_id lib rd obs of
                               None \<Rightarrow> scoped Unresolvable None None (Some DEPLOYMENT_IDENTITY_UNRESOLVED)
                             | Some identity \<Rightarrow>
                                 and_then (consistency_attributes_agree obs pod w identity) (\<lambda>agree.
                                   if agree then scoped Candidate (Some (di_service_id identity)) (Some (di_name identity)) None
                                   else scoped Contradiction (Some (di_service_id identity)) (Some (di_name identity))
                                     (Some DEPLOYMENT_IDENTITY_CONFLICT))))))))"

definition path_c_group ::
  "(bytes \<Rightarrow> string) \<Rightarrow> string \<Rightarrow> string \<Rightarrow> scoped_outcome list \<Rightarrow> string \<Rightarrow> deployment_fault + path_result" where
  "path_c_group H snapshot context_id outcomes workload_id =
     (let members = filter (\<lambda>o'. cw_id (so_workload o') = workload_id) outcomes in
      and_then (workload_ref_of (so_workload (hd members))) (\<lambda>ref.
      and_then (compute_deployment_group_key (Some workload_id) None None None None) (\<lambda>key.
        let i = compute_deployment_resolution_id H snapshot context_id key;
            all_evidence = sorted_set (concat (map so_evidence members));
            applicable = filter (\<lambda>o'. so_outcome o' \<in> {Candidate, Contradiction}) members;
            applicable_evidence = sorted_set (concat (map so_evidence applicable));
            candidate_names = map (\<lambda>o'. (the (so_service_id o'), so_service_name o'))
              (filter (\<lambda>o'. so_outcome o' = Candidate \<and> so_service_id o' \<noteq> None) members);
            candidate_ids = sorted_set (map fst candidate_names) in
        if list_ex (\<lambda>o'. so_outcome o' = Contradiction) members then
          unsettled_result (unsettled i (Some ref) CONFLICT (sorted_set (somes (map so_service_id applicable))) []
            applicable_evidence [DEPLOYMENT_IDENTITY_CONFLICT])
        else if length candidate_ids > 1 then
          unsettled_result (unsettled i (Some ref) AMBIGUOUS candidate_ids applicable_evidence [] [DEPLOYMENT_IDENTITY_AMBIGUOUS])
        else if length candidate_ids = 1 then
          (case map_of (rev candidate_names) (hd candidate_ids) of
             Some (Some name) \<Rightarrow> settled_result H i (hd candidate_ids) name ref RESOLVED_OBSERVED applicable_evidence
           | _ \<Rightarrow> Inl AssertionError)
        else unsettled_result (unsettled i (Some ref) UNRESOLVED [] all_evidence []
          (sorted_set (somes (map so_limitation members)))))))"

definition lefts :: "('a + 'b) list \<Rightarrow> 'a list" where
  "lefts xs = somes (map (\<lambda>x. case x of Inl a \<Rightarrow> Some a | Inr _ \<Rightarrow> None) xs)"

definition rights :: "('a + 'b) list \<Rightarrow> 'b list" where
  "rights xs = somes (map (\<lambda>x. case x of Inl _ \<Rightarrow> None | Inr b \<Rightarrow> Some b) xs)"

lemma set_lefts_iff [simp]: "a \<in> set (lefts xs) \<longleftrightarrow> Inl a \<in> set xs"
  by (force simp: lefts_def split: sum.splits)

lemma set_rights_iff [simp]: "b \<in> set (rights xs) \<longleftrightarrow> Inr b \<in> set xs"
  by (force simp: rights_def split: sum.splits)

definition resolve_path_c ::
  "deployment_library \<Rightarrow> path_reads \<Rightarrow> identity_row list \<Rightarrow> observation_context_ref \<Rightarrow> string \<Rightarrow> string \<Rightarrow> deployment_fault + path_result" where
  "resolve_path_c lib rd observations c snapshot context_id =
     and_then (traverse (evaluate_observation lib rd c snapshot context_id) observations) (\<lambda>outcomes.
       and_then (traverse (path_c_group (dl_sha256 lib) snapshot context_id (rights outcomes))
           (sorted_set (map (\<lambda>o'. cw_id (so_workload o')) (rights outcomes)))) (\<lambda>grouped.
         Inr (join_results (\<lparr>pr_resolutions = lefts outcomes, pr_claims = []\<rparr> # grouped))))"

section \<open>Results of the paths\<close>

definition claim_of :: "(bytes \<Rightarrow> string) \<Rightarrow> string \<Rightarrow> string \<Rightarrow> workload_ref \<Rightarrow> deployment_method \<Rightarrow> string list \<Rightarrow> deployment_claim" where
  "claim_of H service name w how evidence =
     \<lparr>dpc_claim_id = compute_deployment_claim_id H service (wr_id w),
      dpc_subject = \<lparr>er_id = service, er_type = SERVICE, er_name = name\<rparr>, dpc_object = w,
      dpc_method = how, dpc_methods = [how],
      dpc_rule_id = DEPLOYMENT_RECONCILIATION_RULE_ID, dpc_rule_version = DEPLOYMENT_RECONCILIATION_RULE_VERSION,
      dpc_evidence = evidence\<rparr>"

lemma unsettled_result_Inr:
  "unsettled_result r = Inr q \<longleftrightarrow> resolution_contract r \<and> q = \<lparr>pr_resolutions = [r], pr_claims = []\<rparr>"
  by (auto simp: unsettled_result_def and_then_Inr)

lemma settled_result_Inr:
  "settled_result H i service name w how evidence = Inr q \<longleftrightarrow>
     claim_contract (claim_of H service name w how evidence) \<and>
     resolution_contract (settled i w how service evidence (compute_deployment_claim_id H service (wr_id w))) \<and>
     q = \<lparr>pr_resolutions = [settled i w how service evidence (compute_deployment_claim_id H service (wr_id w))],
          pr_claims = [claim_of H service name w how evidence]\<rparr>"
  by (auto simp: settled_result_def resolved_claim_def and_then_Inr claim_of_def)

lemma unsettled_contract:
  assumes "hex_digest H" "\<not> is_resolved status" "sorted_and_deduplicated candidates" "sorted_and_deduplicated supporting"
    "sorted_and_deduplicated conflicting" "sorted_and_deduplicated limitations"
  shows "resolution_contract
    (unsettled (compute_deployment_resolution_id H snapshot context_id key) w status candidates supporting conflicting limitations)"
  using assms resolution_id_pattern [OF assms(1), of snapshot context_id key]
  by (simp add: resolution_contract_def unsettled_def DEPLOYMENT_RECONCILIATION_RULE_VERSION_def)

lemma settled_contract:
  assumes "hex_digest H" "sorted_and_deduplicated evidence"
  shows "resolution_contract (settled (compute_deployment_resolution_id H snapshot context_id key) w how service evidence
    (compute_deployment_claim_id H service (wr_id w)))"
  using assms resolution_id_pattern [OF assms(1), of snapshot context_id key] claim_id_pattern [OF assms(1), of service "wr_id w"]
  by (simp add: resolution_contract_def settled_def DEPLOYMENT_RECONCILIATION_RULE_VERSION_def)

lemma claim_of_contract:
  assumes "hex_digest H" "sorted_and_deduplicated evidence" "evidence \<noteq> []"
  shows "claim_contract (claim_of H service name w how evidence)"
  using assms claim_id_pattern [OF assms(1), of service "wr_id w"]
  by (simp add: claim_contract_def claim_of_def DEPLOYMENT_RECONCILIATION_RULE_VERSION_def)

text \<open>The group a resolution belongs to, and what a path promises of each resolution it returns.\<close>

definition in_group :: "(bytes \<Rightarrow> string) \<Rightarrow> string \<Rightarrow> string \<Rightarrow> string \<Rightarrow> deployment_resolution \<Rightarrow> bool" where
  "in_group H snapshot context_id key r \<longleftrightarrow>
     dpr_resolution_id r = compute_deployment_resolution_id H snapshot context_id key \<and>
     (case dpr_workload r of Some w \<Rightarrow> key = workload_group_key (wr_id w)
      | None \<Rightarrow> (\<exists>i. key = otel_group_key i) \<or> (\<exists>a v m. key = mapping_group_key a v m))"

definition member_ok :: "(bytes \<Rightarrow> string) \<Rightarrow> deployment_resolution \<Rightarrow> bool" where
  "member_ok H r \<longleftrightarrow> resolution_contract r \<and>
     (is_resolved (dpr_status r) \<longrightarrow> dpr_supporting r \<noteq> [] \<and> dpr_conflicting r = [] \<and>
        dpr_claim_id r = Some (compute_deployment_claim_id H (the (dpr_service r)) (wr_id (the (dpr_workload r)))) \<and>
        dpr_status r = RESOLVED (hd (dpr_methods r)))"

definition result_ok :: "(bytes \<Rightarrow> string) \<Rightarrow> string \<Rightarrow> string \<Rightarrow> path_result \<Rightarrow> bool" where
  "result_ok H snapshot context_id q \<longleftrightarrow>
     (\<forall>r\<in>set (pr_resolutions q). member_ok H r \<and> (\<exists>key. in_group H snapshot context_id key r) \<and>
        (is_resolved (dpr_status r) \<longrightarrow> dpr_claim_id r \<in> (\<lambda>c. Some (dpc_claim_id c)) ` set (pr_claims q)))"

lemma result_ok_join: "list_all (result_ok H snapshot context_id) rs \<Longrightarrow> result_ok H snapshot context_id (join_results rs)"
  by (force simp: result_ok_def join_results_def list_all_iff)

lemma result_ok_unsettled:
  assumes "unsettled_result (unsettled (compute_deployment_resolution_id H snapshot context_id key) w status cs ss os lims) = Inr q"
    "\<not> is_resolved status"
    "case w of Some ref \<Rightarrow> key = workload_group_key (wr_id ref)
      | None \<Rightarrow> (\<exists>i. key = otel_group_key i) \<or> (\<exists>a v m. key = mapping_group_key a v m)"
  shows "result_ok H snapshot context_id q"
  using assms by (auto simp: unsettled_result_Inr result_ok_def member_ok_def in_group_def unsettled_def)

lemma result_ok_settled:
  assumes "settled_result H (compute_deployment_resolution_id H snapshot context_id (workload_group_key (wr_id w))) service name w how
      evidence = Inr q"
  shows "result_ok H snapshot context_id q"
  using assms
  by (auto simp: settled_result_Inr result_ok_def member_ok_def in_group_def settled_def claim_of_def claim_contract_def)

lemma result_ok_named:
  assumes "named_result H lookup how (compute_deployment_resolution_id H snapshot context_id (workload_group_key (wr_id w))) w
      named evidence = Inr q"
  shows "result_ok H snapshot context_id q"
  using assms unfolding named_result_def
  by (auto split: if_splits option.splits intro: result_ok_settled elim!: result_ok_unsettled)

lemma workload_ref_of_Inr:
  "workload_ref_of w = Inr ref \<longleftrightarrow> (\<exists>k. map_of workload_kind_by_raw (cw_kind w) = Some k \<and>
     ref = \<lparr>wr_id = cw_id w, wr_name = cw_name w, wr_kind = k, wr_namespace = cw_namespace w\<rparr>)"
  by (auto simp: workload_ref_of_def split: option.splits)

lemma workload_ref_of_id: "workload_ref_of w = Inr ref \<Longrightarrow> wr_id ref = cw_id w"
  by (auto simp: workload_ref_of_Inr)

lemma result_ok_named_key:
  assumes "named_result H lookup how (compute_deployment_resolution_id H snapshot context_id (workload_group_key i)) ref
      named evidence = Inr q" "workload_ref_of w = Inr ref" "cw_id w = i"
  shows "result_ok H snapshot context_id q"
  using assms(1) workload_ref_of_id [OF assms(2)] assms(3) by (metis result_ok_named)

lemma result_ok_empty [simp]: "result_ok H snapshot context_id empty_result"
  by (simp add: result_ok_def empty_result_def)

lemma path_a_step_ok:
  assumes "path_a_step H lookup snapshot context_id w = Inr q"
  shows "result_ok H snapshot context_id q"
proof (cases "filter (\<lambda>c. wc_annotation c \<noteq> None) (cw_contributions w) = []")
  case True
  then show ?thesis using assms by (auto simp: path_a_step_def)
next
  case False
  then obtain ref where "workload_ref_of w = Inr ref"
    using assms by (auto simp: path_a_step_def Let_def and_then_Inr)
  with assms False show ?thesis
    unfolding path_a_step_def Let_def by (simp only: if_False and_then_simps compute_group_key_simps) (erule result_ok_named_key; simp)
qed

lemma traverse_join_ok:
  assumes "traverse f xs = Inr rs" "\<And>x q. x \<in> set xs \<Longrightarrow> f x = Inr q \<Longrightarrow> result_ok H snapshot context_id q"
  shows "list_all (result_ok H snapshot context_id) rs"
  using traverse_mem [OF assms(1)] assms(2) by (auto simp: list_all_iff)

lemma path_a_ok: "resolve_path_a H ws lookup snapshot context_id = Inr q \<Longrightarrow> result_ok H snapshot context_id q"
  unfolding resolve_path_a_def and_then_Inr
  by (elim exE conjE) (auto intro: result_ok_join traverse_join_ok path_a_step_ok)

lemma path_b_group_ok:
  assumes "path_b_group H lookup snapshot context_id records i = Inr q"
    "i \<in> set (map cw_id (somes (map mp_workload records)))"
  shows "result_ok H snapshot context_id q"
proof -
  let ?members = "filter (\<lambda>r. map_option cw_id (mp_workload r) = Some i) records"
  have "?members \<noteq> []" using assms(2) by (force simp: filter_empty_conv)
  then have "hd ?members \<in> set ?members" by (rule hd_in_set)
  then have "cw_id (the (mp_workload (hd ?members))) = i" by auto
  moreover obtain ref where ref: "workload_ref_of (the (mp_workload (hd ?members))) = Inr ref"
    using assms(1) by (auto simp: path_b_group_def Let_def and_then_Inr)
  ultimately show ?thesis
    using assms(1) unfolding path_b_group_def Let_def ref and_then_simps compute_group_key_simps
    by (elim result_ok_named_key [OF _ ref])
qed

lemma path_b_unmatched_ok: "path_b_unmatched H d snapshot context_id r = Inr q \<Longrightarrow> result_ok H snapshot context_id q"
  unfolding path_b_unmatched_def compute_group_key_simps and_then_simps
  by (erule result_ok_unsettled) auto

lemma path_b_ok:
  assumes "resolve_path_b H document sources resolve lookup snapshot context_id = Inr q"
  shows "result_ok H snapshot context_id q"
proof (cases document)
  case None
  then show ?thesis using assms by (auto simp: resolve_path_b_def)
next
  case (Some d)
  from assms obtain records grouped unmatched where
    g: "traverse (path_b_group H lookup snapshot context_id records) (sorted_set (map cw_id (somes (map mp_workload records)))) = Inr grouped"
    and u: "traverse (path_b_unmatched H d snapshot context_id)
        (sort_key (\<lambda>r. (md_artifact_id d, md_artifact_revision d, me_mapping_id (mp_entry r)))
          (filter (\<lambda>r. mp_workload r = None) records)) = Inr unmatched"
    and q: "q = join_results (grouped @ unmatched)"
    unfolding resolve_path_b_def Some by (auto simp: and_then_Inr)
  have "list_all (result_ok H snapshot context_id) grouped"
    by (rule traverse_join_ok [OF g]) (auto intro: path_b_group_ok)
  moreover have "list_all (result_ok H snapshot context_id) unmatched"
    by (rule traverse_join_ok [OF u]) (rule path_b_unmatched_ok)
  ultimately show ?thesis unfolding q by (intro result_ok_join) simp
qed

subsection \<open>Path C\<close>

definition group_outcomes :: "scoped_outcome list \<Rightarrow> string \<Rightarrow> scoped_outcome list" where
  "group_outcomes outcomes workload_id = filter (\<lambda>o'. cw_id (so_workload o') = workload_id) outcomes"

definition applicable_outcomes :: "scoped_outcome list \<Rightarrow> scoped_outcome list" where
  "applicable_outcomes outcomes = filter (\<lambda>o'. so_outcome o' \<in> {Candidate, Contradiction}) outcomes"

definition candidate_pairs :: "scoped_outcome list \<Rightarrow> (string \<times> string option) list" where
  "candidate_pairs outcomes = map (\<lambda>o'. (the (so_service_id o'), so_service_name o'))
     (filter (\<lambda>o'. so_outcome o' = Candidate \<and> so_service_id o' \<noteq> None) outcomes)"

text \<open>The four branches of a group.\<close>

lemma path_c_group_cases:
  assumes "path_c_group H snapshot context_id outcomes w = Inr q"
  obtains (conflict) ref where "workload_ref_of (so_workload (hd (group_outcomes outcomes w))) = Inr ref"
      "list_ex (\<lambda>o'. so_outcome o' = Contradiction) (group_outcomes outcomes w)"
      "unsettled_result (unsettled (compute_deployment_resolution_id H snapshot context_id (workload_group_key w)) (Some ref) CONFLICT
         (sorted_set (somes (map so_service_id (applicable_outcomes (group_outcomes outcomes w))))) []
         (sorted_set (concat (map so_evidence (applicable_outcomes (group_outcomes outcomes w))))) [DEPLOYMENT_IDENTITY_CONFLICT]) = Inr q"
  | (ambiguous) ref where "workload_ref_of (so_workload (hd (group_outcomes outcomes w))) = Inr ref"
      "\<not> list_ex (\<lambda>o'. so_outcome o' = Contradiction) (group_outcomes outcomes w)"
      "length (sorted_set (map fst (candidate_pairs (group_outcomes outcomes w)))) > 1"
      "unsettled_result (unsettled (compute_deployment_resolution_id H snapshot context_id (workload_group_key w)) (Some ref) AMBIGUOUS
         (sorted_set (map fst (candidate_pairs (group_outcomes outcomes w))))
         (sorted_set (concat (map so_evidence (applicable_outcomes (group_outcomes outcomes w))))) [] [DEPLOYMENT_IDENTITY_AMBIGUOUS]) = Inr q"
  | (resolved) ref service name where "workload_ref_of (so_workload (hd (group_outcomes outcomes w))) = Inr ref"
      "\<not> list_ex (\<lambda>o'. so_outcome o' = Contradiction) (group_outcomes outcomes w)"
      "sorted_set (map fst (candidate_pairs (group_outcomes outcomes w))) = [service]"
      "map_of (rev (candidate_pairs (group_outcomes outcomes w))) service = Some (Some name)"
      "settled_result H (compute_deployment_resolution_id H snapshot context_id (workload_group_key w)) service name ref RESOLVED_OBSERVED
         (sorted_set (concat (map so_evidence (applicable_outcomes (group_outcomes outcomes w))))) = Inr q"
  | (unresolved) ref where "workload_ref_of (so_workload (hd (group_outcomes outcomes w))) = Inr ref"
      "\<not> list_ex (\<lambda>o'. so_outcome o' = Contradiction) (group_outcomes outcomes w)"
      "candidate_pairs (group_outcomes outcomes w) = []"
      "unsettled_result (unsettled (compute_deployment_resolution_id H snapshot context_id (workload_group_key w)) (Some ref) UNRESOLVED []
         (sorted_set (concat (map so_evidence (group_outcomes outcomes w)))) []
         (sorted_set (somes (map so_limitation (group_outcomes outcomes w))))) = Inr q"
proof -
  let ?ms = "group_outcomes outcomes w"
  let ?ids = "sorted_set (map fst (candidate_pairs ?ms))"
  obtain ref where ref: "workload_ref_of (so_workload (hd ?ms)) = Inr ref"
    using assms unfolding path_c_group_def group_outcomes_def [symmetric] Let_def by (auto simp: and_then_Inr)
  note unfolded = assms [unfolded path_c_group_def group_outcomes_def [symmetric] applicable_outcomes_def [symmetric]
      candidate_pairs_def [symmetric] Let_def ref and_then_simps compute_group_key_simps]
  consider "list_ex (\<lambda>o'. so_outcome o' = Contradiction) ?ms"
    | "\<not> list_ex (\<lambda>o'. so_outcome o' = Contradiction) ?ms" "length ?ids > 1"
    | "\<not> list_ex (\<lambda>o'. so_outcome o' = Contradiction) ?ms" "length ?ids = 1"
    | "\<not> list_ex (\<lambda>o'. so_outcome o' = Contradiction) ?ms" "length ?ids = 0" by linarith
  then show ?thesis
  proof cases
    case 1
    show ?thesis by (rule conflict [OF ref 1]) (use unfolded 1 in \<open>simp only: if_True\<close>)
  next
    case 2
    show ?thesis by (rule ambiguous [OF ref 2]) (use unfolded 2 in \<open>simp only: if_True if_False\<close>)
  next
    case 3
    then obtain service where s: "?ids = [service]" by (auto simp: length_Suc_conv)
    have "(case map_of (rev (candidate_pairs ?ms)) service of Some (Some name) \<Rightarrow>
        settled_result H (compute_deployment_resolution_id H snapshot context_id (workload_group_key w)) service name ref
          RESOLVED_OBSERVED (sorted_set (concat (map so_evidence (applicable_outcomes ?ms))))
      | _ \<Rightarrow> Inl AssertionError) = Inr q"
      using unfolded 3(1) unfolding s by (simp only: if_False list.sel list.size) simp
    then show ?thesis using resolved [OF ref 3(1) s] by (auto split: option.splits)
  next
    case 4
    then have "candidate_pairs ?ms = []" by simp
    then show ?thesis by (intro unresolved [OF ref 4(1)]) (use unfolded 4 in \<open>simp_all\<close>)
  qed
qed

lemma path_c_group_ok:
  assumes "path_c_group H snapshot context_id outcomes w = Inr q" "w \<in> (\<lambda>o'. cw_id (so_workload o')) ` set outcomes"
  shows "result_ok H snapshot context_id q"
proof -
  have "group_outcomes outcomes w \<noteq> []" using assms(2) by (auto simp: group_outcomes_def filter_empty_conv)
  then have "hd (group_outcomes outcomes w) \<in> set (group_outcomes outcomes w)" by (rule hd_in_set)
  then have w: "cw_id (so_workload (hd (group_outcomes outcomes w))) = w" by (simp add: group_outcomes_def)
  show ?thesis
    using assms(1)
  proof (cases rule: path_c_group_cases)
    case (resolved ref service name)
    then show ?thesis using w workload_ref_of_id [OF resolved(1)] by (metis result_ok_settled)
  qed (use w in \<open>auto dest!: workload_ref_of_id elim!: result_ok_unsettled\<close>)
qed

lemma standalone_ok:
  assumes "standalone_otel_resolution H snapshot context_id i status code evidence = Inr r" "\<not> is_resolved status"
  shows "member_ok H r" "in_group H snapshot context_id (otel_group_key i) r" "dpr_candidates r = []" "dpr_status r = status"
  using assms by (auto simp: standalone_otel_resolution_def member_ok_def in_group_def unsettled_def)

lemma evaluate_standalone:
  assumes "evaluate_observation lib rd c snapshot context_id obs = Inr (Inl r)"
  obtains status code evidence where "\<not> is_resolved status"
    "standalone_otel_resolution (dl_sha256 lib) snapshot context_id (io_id obs) status code evidence = Inr r"
  using assms
  by (force simp: evaluate_observation_def Let_def and_then_Inr split: if_splits list.splits option.splits)

lemma path_c_Inr:
  assumes "resolve_path_c lib rd observations c snapshot context_id = Inr q"
  obtains outcomes grouped where
    "traverse (evaluate_observation lib rd c snapshot context_id) observations = Inr outcomes"
    "traverse (path_c_group (dl_sha256 lib) snapshot context_id (rights outcomes))
       (sorted_set (map (\<lambda>o'. cw_id (so_workload o')) (rights outcomes))) = Inr grouped"
    "q = join_results (\<lparr>pr_resolutions = lefts outcomes, pr_claims = []\<rparr> # grouped)"
  using assms by (auto simp: resolve_path_c_def and_then_Inr)

lemma path_c_ok:
  assumes "resolve_path_c lib rd observations c snapshot context_id = Inr q"
  shows "result_ok (dl_sha256 lib) snapshot context_id q"
  using assms
proof (cases rule: path_c_Inr)
  case (1 outcomes grouped)
  have "list_all (result_ok (dl_sha256 lib) snapshot context_id) grouped"
    by (rule traverse_join_ok [OF 1(2)]) (auto intro: path_c_group_ok)
  moreover have "result_ok (dl_sha256 lib) snapshot context_id \<lparr>pr_resolutions = lefts outcomes, pr_claims = []\<rparr>"
    unfolding result_ok_def
  proof (intro ballI)
    fix r
    assume "r \<in> set (pr_resolutions \<lparr>pr_resolutions = lefts outcomes, pr_claims = []\<rparr>)"
    then obtain obs where "evaluate_observation lib rd c snapshot context_id obs = Inr (Inl r)"
      using traverse_mem [OF 1(1)] by fastforce
    then show "member_ok (dl_sha256 lib) r \<and> (\<exists>key. in_group (dl_sha256 lib) snapshot context_id key r) \<and>
        (is_resolved (dpr_status r) \<longrightarrow> dpr_claim_id r \<in> (\<lambda>c. Some (dpc_claim_id c)) `
           set (pr_claims \<lparr>pr_resolutions = lefts outcomes, pr_claims = []\<rparr>))"
      by (rule evaluate_standalone) (metis standalone_ok(1,2,4))
  qed
  ultimately show ?thesis unfolding 1(3) by (intro result_ok_join) simp
qed

end
