(* ===== verification/DeploymentReconciliation.thy ===== *)
theory DeploymentReconciliation
  imports DeploymentPaths
begin

text \<open>
  \<open>architecture_intelligence/deployment_reconciliation.py\<close>: the results of the three paths are grouped by
  resolution id and each group is reduced to one resolution, with a claim where the paths agree.  The rest of
  the module decides which evidence ids a client may ask for, builds the records that answer for Path B and
  Path C, and packs the identity observations of a workload into windows of at most 31 days when no
  observation context was asked for.
\<close>

section \<open>Public evidence references\<close>

definition after_prefix :: "string \<Rightarrow> string \<Rightarrow> string option" where
  "after_prefix p s = (if take (length p) s = p then Some (drop (length p) s) else None)"

definition PATH_B_RAW_PREFIX :: string where
  "PATH_B_RAW_PREFIX = ''urn:aip:service-workload-mapping-evidence:v1:''"

definition PATH_B_EVIDENCE_PREFIX :: string where
  "PATH_B_EVIDENCE_PREFIX = ''evidence:mapping:v1:''"

definition PATH_C_RAW_PREFIX :: string where
  "PATH_C_RAW_PREFIX = ''runtime-identity:otel:''"

definition PATH_C_EVIDENCE_PREFIX :: string where
  "PATH_C_EVIDENCE_PREFIX = ''evidence:otel:''"

definition public_evidence_ref :: "string \<Rightarrow> string" where
  "public_evidence_ref raw =
     (if after_prefix ''evidence:'' raw \<noteq> None then raw
      else (case after_prefix PATH_B_RAW_PREFIX raw of
          Some rest \<Rightarrow> PATH_B_EVIDENCE_PREFIX @ rest
        | None \<Rightarrow> (case after_prefix PATH_C_RAW_PREFIX raw of
            Some rest \<Rightarrow> PATH_C_EVIDENCE_PREFIX @ rest
          | None \<Rightarrow> raw)))"

definition publicize_evidence_refs :: "path_result \<Rightarrow> path_result" where
  "publicize_evidence_refs result =
     \<lparr>pr_resolutions = map (\<lambda>r. r\<lparr>dpr_supporting := sorted_set (map public_evidence_ref (dpr_supporting r)),
          dpr_conflicting := sorted_set (map public_evidence_ref (dpr_conflicting r))\<rparr>) (pr_resolutions result),
      pr_claims = map (\<lambda>c. c\<lparr>dpc_evidence := sorted_set (map public_evidence_ref (dpc_evidence c))\<rparr>) (pr_claims result)\<rparr>"

section \<open>The cross-path reduction\<close>

text \<open>The new resolution keeps the identity, workload and rule of the group's first member.\<close>

definition like_first :: "deployment_resolution \<Rightarrow> deployment_resolution \<Rightarrow> deployment_resolution" where
  "like_first head_member r = r\<lparr>dpr_resolution_id := dpr_resolution_id head_member, dpr_workload := dpr_workload head_member,
     dpr_rule_id := dpr_rule_id head_member, dpr_rule_version := dpr_rule_version head_member\<rparr>"

definition evidence_of :: "deployment_resolution list \<Rightarrow> string list" where
  "evidence_of ms = concat (map (\<lambda>m. dpr_supporting m @ dpr_conflicting m) ms)"

definition candidates_of :: "deployment_resolution list \<Rightarrow> string list" where
  "candidates_of ms = concat (map dpr_candidates ms)"

definition reduce_group ::
  "(bytes \<Rightarrow> string) \<Rightarrow> (string \<times> deployment_claim) list \<Rightarrow> deployment_resolution list
     \<Rightarrow> deployment_fault + (deployment_resolution \<times> deployment_claim option)" where
  "reduce_group H claims_by_claim_id members =
     (let head_member = hd members;
          successful = filter (\<lambda>m. is_resolved (dpr_status m)) members;
          conflicting = filter (\<lambda>m. dpr_status m = CONFLICT) members;
          ambiguous = filter (\<lambda>m. dpr_status m = AMBIGUOUS) members;
          applicable = successful @ conflicting @ ambiguous in
      if list_ex (\<lambda>m. dpr_service m = None) successful then Inl AssertionError
      else
        let distinct_successful_ids = sorted_set (map (\<lambda>m. the (dpr_service m)) successful) in
        if conflicting \<noteq> [] \<or> length distinct_successful_ids > 1 then
          and_then (build_resolution (like_first head_member (unsettled [] None CONFLICT (sorted_set (candidates_of applicable))
              [] (sorted_set (evidence_of applicable)) [DEPLOYMENT_IDENTITY_CONFLICT]))) (\<lambda>r. Inr (r, None))
        else if ambiguous \<noteq> [] then
          and_then (build_resolution (like_first head_member (unsettled [] None AMBIGUOUS (sorted_set (candidates_of applicable))
              (sorted_set (evidence_of applicable)) [] [DEPLOYMENT_IDENTITY_AMBIGUOUS]))) (\<lambda>r. Inr (r, None))
        else if length distinct_successful_ids = 1 then
          let service = hd distinct_successful_ids;
              methods = sorted_set (concat (map dpr_methods successful));
              evidence = sorted_set (concat (map dpr_supporting successful)) in
          (case dpr_claim_id (hd successful) of
             None \<Rightarrow> Inl AssertionError
           | Some successful_claim_id \<Rightarrow>
               (case map_of claims_by_claim_id successful_claim_id of
                  None \<Rightarrow> Inl ClaimLookupError
                | Some existing_claim \<Rightarrow>
                    (case dpr_workload head_member of
                       None \<Rightarrow> Inl AssertionError
                     | Some w \<Rightarrow>
                         let claim = compute_deployment_claim_id H service (wr_id w) in
                         and_then (build_claim
                           \<lparr>dpc_claim_id = claim,
                            dpc_subject = \<lparr>er_id = service, er_type = SERVICE, er_name = er_name (dpc_subject existing_claim)\<rparr>,
                            dpc_object = w, dpc_method = hd methods, dpc_methods = methods,
                            dpc_rule_id = dpr_rule_id head_member, dpc_rule_version = dpr_rule_version head_member,
                            dpc_evidence = evidence\<rparr>) (\<lambda>merged_claim.
                         and_then (build_resolution (like_first head_member
                           ((settled [] w (hd methods) service evidence claim)\<lparr>dpr_methods := methods\<rparr>))) (\<lambda>r.
                           Inr (r, Some merged_claim))))))
        else
          and_then (build_resolution (like_first head_member (unsettled [] None UNRESOLVED (sorted_set (candidates_of members))
              (sorted_set (evidence_of members)) [] (sorted_set (concat (map dpr_limitations members)))))) (\<lambda>r. Inr (r, None)))"

definition claims_by_id :: "path_result list \<Rightarrow> (string \<times> deployment_claim) list" where
  "claims_by_id results = rev (map (\<lambda>c. (dpc_claim_id c, c)) (concat (map pr_claims results)))"

definition group_members :: "path_result list \<Rightarrow> string \<Rightarrow> deployment_resolution list" where
  "group_members results i = filter (\<lambda>r. dpr_resolution_id r = i) (concat (map pr_resolutions results))"

definition group_ids :: "path_result list \<Rightarrow> string list" where
  "group_ids results = sorted_set (map dpr_resolution_id (concat (map pr_resolutions results)))"

definition reduce_cross_path_resolutions ::
  "(bytes \<Rightarrow> string) \<Rightarrow> path_result \<Rightarrow> path_result \<Rightarrow> path_result \<Rightarrow> deployment_fault + path_result" where
  "reduce_cross_path_resolutions H path_a path_b path_c =
     (let results = [path_a, path_b, path_c] in
      and_then (traverse (\<lambda>i. reduce_group H (claims_by_id results) (group_members results i)) (group_ids results)) (\<lambda>merged.
        Inr \<lparr>pr_resolutions = map fst merged, pr_claims = somes (map snd merged)\<rparr>))"

section \<open>Per-service projection and bounds\<close>

definition concerns :: "string \<Rightarrow> deployment_resolution \<Rightarrow> bool" where
  "concerns service r = (dpr_service r = Some service \<or> service \<in> set (dpr_candidates r))"

definition filter_for_service :: "path_result \<Rightarrow> string \<Rightarrow> deployment_claim list \<times> deployment_resolution list" where
  "filter_for_service reduced service =
     (let kept = filter (concerns service) (pr_resolutions reduced);
          claim_ids = somes (map dpr_claim_id kept) in
      (filter (\<lambda>c. dpc_claim_id c \<in> set claim_ids) (pr_claims reduced), kept))"

definition check_result_bounds :: "deployment_claim list \<Rightarrow> deployment_resolution list \<Rightarrow> limitation_code option" where
  "check_result_bounds claims resolutions =
     (if length claims > 100 then Some DEPLOYMENT_RESULT_LIMIT_EXCEEDED
      else if length resolutions > 250 then Some DEPLOYMENT_RESULT_LIMIT_EXCEEDED
      else if list_ex (\<lambda>c. length (dpc_evidence c) > 64) claims then Some DEPLOYMENT_RESULT_LIMIT_EXCEEDED
      else None)"

section \<open>Which evidence is public\<close>

text \<open>A supported fact: relation type, source, target.\<close>

type_synonym supported_fact = "string \<times> string \<times> string"

definition deployed_as_fact :: "deployment_claim \<Rightarrow> supported_fact" where
  "deployed_as_fact c = (''DEPLOYED_AS'', er_id (dpc_subject c), wr_id (dpc_object c))"

definition deployed_as_supported_facts :: "deployment_claim list \<Rightarrow> (string \<times> supported_fact list) list" where
  "deployed_as_supported_facts claims =
     map (\<lambda>(ref, facts). (ref, sorted_set facts))
       (group_pairs (concat (map (\<lambda>c. map (\<lambda>ref. (ref, deployed_as_fact c)) (dpc_evidence c)) claims)))"

definition public_for_declared :: "string set \<Rightarrow> deployment_resolution \<Rightarrow> bool" where
  "public_for_declared declared r =
     ((case dpr_service r of None \<Rightarrow> False | Some s \<Rightarrow> s \<in> declared) \<or> list_ex (\<lambda>s. s \<in> declared) (dpr_candidates r))"

definition reachable_deployment_evidence_ids :: "path_result \<Rightarrow> string set \<Rightarrow> string list" where
  "reachable_deployment_evidence_ids reduced declared =
     concat (map dpc_evidence (pr_claims reduced)) @
     evidence_of (filter (public_for_declared declared) (pr_resolutions reduced))"

section \<open>Synthetic evidence records\<close>

datatype evidence_type = EVIDENCE_DECLARED | EVIDENCE_OBSERVED

datatype evidence_source = SOURCE_CONFIGURATION | SOURCE_OPENTELEMETRY

record observed_metadata =
  om_environment :: string
  om_bucket_start :: int
  om_bucket_end :: int
  om_first_seen :: int
  om_last_seen :: int
  om_count :: int
  om_service_version :: "string option"

record evidence_record =
  ev_id :: string
  ev_type :: evidence_type
  ev_source :: evidence_source
  ev_locator :: "string option"
  ev_revision :: "string option"
  ev_observation :: "observed_metadata option"
  ev_supports :: "supported_fact list"

text \<open>\<open>Path(p).name\<close> of a POSIX path.\<close>

fun split_slash :: "string \<Rightarrow> string list" where
  "split_slash [] = [[]]"
| "split_slash (c # s) = (if c = CHR ''/'' then [] # split_slash s
     else (case split_slash s of [] \<Rightarrow> [[c]] | p # ps \<Rightarrow> (c # p) # ps))"

definition path_name :: "string \<Rightarrow> string" where
  "path_name p = (case filter (\<lambda>q. q \<noteq> [] \<and> q \<noteq> ''.'') (split_slash p) of [] \<Rightarrow> [] | q # qs \<Rightarrow> last (q # qs))"

definition path_b_evidence_record :: "(bytes \<Rightarrow> string) \<Rightarrow> mapping_document \<Rightarrow> mapping_entry \<Rightarrow> evidence_record" where
  "path_b_evidence_record H d e =
     \<lparr>ev_id = public_evidence_ref (mapping_evidence_id H d e), ev_type = EVIDENCE_DECLARED, ev_source = SOURCE_CONFIGURATION,
      ev_locator = Some (path_name (md_locator d)),
      ev_revision = Some (md_artifact_id d @ ''@'' @ md_artifact_revision d @ '':'' @ me_mapping_id e @ '':sha256='' @
        take 12 (md_content_digest d)),
      ev_observation = None, ev_supports = []\<rparr>"

definition path_b_evidence_records :: "(bytes \<Rightarrow> string) \<Rightarrow> mapping_document option \<Rightarrow> (string \<times> evidence_record) list" where
  "path_b_evidence_records H document = (case document of None \<Rightarrow> []
     | Some d \<Rightarrow> foldl (\<lambda>records e. AList.update (ev_id (path_b_evidence_record H d e)) (path_b_evidence_record H d e) records)
         [] (md_entries d))"

definition k8s_attr_order :: "((identity_row \<Rightarrow> string option) \<times> string) list" where
  "k8s_attr_order = [(io_k8s_pod_name, ''k8s.pod.name''), (io_k8s_namespace_name, ''k8s.namespace.name''),
     (io_k8s_cluster_uid, ''k8s.cluster.uid''), (io_k8s_deployment_name, ''k8s.deployment.name''),
     (io_k8s_statefulset_name, ''k8s.statefulset.name''), (io_k8s_daemonset_name, ''k8s.daemonset.name'')]"

definition path_c_evidence_record :: "identity_row \<Rightarrow> evidence_record option" where
  "path_c_evidence_record obs =
     (case (io_environment obs, io_first_seen obs, io_last_seen obs) of
        (Some environment, Some seen_first, Some seen_last) \<Rightarrow>
          (let present = somes (map (\<lambda>(attr, label). map_option (\<lambda>v. label @ ''='' @ v) (attr obs)) k8s_attr_order) in
           Some \<lparr>ev_id = public_evidence_ref (io_id obs), ev_type = EVIDENCE_OBSERVED, ev_source = SOURCE_OPENTELEMETRY,
             ev_locator = (if present = [] then None else Some (comma_joined present)),
             ev_revision = (case (io_rule_id obs, io_rule_version obs) of
                (Some i, Some v) \<Rightarrow> Some (i @ ''@'' @ show_int v) | _ \<Rightarrow> None),
             ev_observation = Some \<lparr>om_environment = environment, om_bucket_start = seen_first, om_bucket_end = seen_last,
               om_first_seen = seen_first, om_last_seen = seen_last,
               om_count = (case io_observation_count obs of None \<Rightarrow> 1 | Some n \<Rightarrow> n), om_service_version = io_service_version obs\<rparr>,
             ev_supports = []\<rparr>)
      | _ \<Rightarrow> None)"

definition path_c_evidence_records :: "identity_row list \<Rightarrow> (string \<times> evidence_record) list" where
  "path_c_evidence_records observations =
     foldl (\<lambda>records r. AList.update (ev_id r) r records) [] (somes (map path_c_evidence_record observations))"

section \<open>The reduction\<close>

definition publicized :: "deployment_resolution \<Rightarrow> deployment_resolution" where
  "publicized r = r\<lparr>dpr_supporting := sorted_set (map public_evidence_ref (dpr_supporting r)),
     dpr_conflicting := sorted_set (map public_evidence_ref (dpr_conflicting r))\<rparr>"

lemma publicized_fields [simp]:
  "dpr_resolution_id (publicized r) = dpr_resolution_id r" "dpr_workload (publicized r) = dpr_workload r"
  "dpr_status (publicized r) = dpr_status r" "dpr_service (publicized r) = dpr_service r"
  "dpr_candidates (publicized r) = dpr_candidates r" "dpr_methods (publicized r) = dpr_methods r"
  "dpr_limitations (publicized r) = dpr_limitations r" "dpr_claim_id (publicized r) = dpr_claim_id r"
  "dpr_supporting (publicized r) = sorted_set (map public_evidence_ref (dpr_supporting r))"
  "dpr_conflicting (publicized r) = sorted_set (map public_evidence_ref (dpr_conflicting r))"
  "dpr_rule_id (publicized r) = dpr_rule_id r" "dpr_rule_version (publicized r) = dpr_rule_version r"
  by (simp_all add: publicized_def)

lemma publicized_contract: "resolution_contract r \<Longrightarrow> resolution_contract (publicized r)"
  by (simp add: resolution_contract_def)

lemma publicized_ok: "member_ok H r \<Longrightarrow> member_ok H (publicized r)"
  using publicized_contract [of r] by (simp add: member_ok_def)

lemma publicized_in_group: "in_group H snapshot context_id key (publicized r) \<longleftrightarrow> in_group H snapshot context_id key r"
  by (simp add: in_group_def)

lemma publicize_resolutions: "pr_resolutions (publicize_evidence_refs q) = map publicized (pr_resolutions q)"
  by (simp add: publicize_evidence_refs_def publicized_def [abs_def])

lemma publicize_claim_ids: "map dpc_claim_id (pr_claims (publicize_evidence_refs q)) = map dpc_claim_id (pr_claims q)"
  by (simp add: publicize_evidence_refs_def)

lemma result_ok_claim_ids:
  "result_ok H snapshot context_id q \<longleftrightarrow>
     (\<forall>r\<in>set (pr_resolutions q). member_ok H r \<and> (\<exists>key. in_group H snapshot context_id key r) \<and>
        (is_resolved (dpr_status r) \<longrightarrow> dpr_claim_id r \<in> Some ` set (map dpc_claim_id (pr_claims q))))"
  by (simp add: result_ok_def image_image)

lemma publicize_ok: "result_ok H snapshot context_id q \<Longrightarrow> result_ok H snapshot context_id (publicize_evidence_refs q)"
  unfolding result_ok_claim_ids publicize_claim_ids publicize_resolutions
  by (simp add: publicized_ok publicized_in_group)

definition applicable :: "deployment_resolution \<Rightarrow> bool" where
  "applicable r = (dpr_status r \<noteq> UNRESOLVED)"

definition services_of :: "deployment_resolution list \<Rightarrow> string set" where
  "services_of ms = {the (dpr_service m) | m. m \<in> set ms \<and> is_resolved (dpr_status m)}"

text \<open>What the statuses and services of the members of a group say together.\<close>

definition group_verdict :: "deployment_resolution list \<Rightarrow> deployment_status" where
  "group_verdict ms =
     (if (\<exists>m\<in>set ms. dpr_status m = CONFLICT) \<or> (\<exists>s\<in>services_of ms. \<exists>t\<in>services_of ms. s \<noteq> t) then CONFLICT
      else if \<exists>m\<in>set ms. dpr_status m = AMBIGUOUS then AMBIGUOUS
      else if services_of ms \<noteq> {} then RESOLVED (Min {k. \<exists>m\<in>set ms. is_resolved (dpr_status m) \<and> k \<in> set (dpr_methods m)})
      else UNRESOLVED)"

lemma applicable_set:
  "set (filter (\<lambda>m. is_resolved (dpr_status m)) ms @ filter (\<lambda>m. dpr_status m = CONFLICT) ms @
      filter (\<lambda>m. dpr_status m = AMBIGUOUS) ms) = {m \<in> set ms. applicable m}"
proof -
  have "applicable m \<longleftrightarrow> is_resolved (dpr_status m) \<or> dpr_status m = CONFLICT \<or> dpr_status m = AMBIGUOUS" for m
    by (cases "dpr_status m") (simp_all add: applicable_def)
  then show ?thesis by auto
qed

lemma set_evidence_of: "set (evidence_of ms) = (\<Union>m\<in>set ms. set (dpr_supporting m) \<union> set (dpr_conflicting m))"
  by (auto simp: evidence_of_def)

lemma set_candidates_of: "set (candidates_of ms) = (\<Union>m\<in>set ms. set (dpr_candidates m))"
  by (auto simp: candidates_of_def)

lemma services_of_set: "set (map (\<lambda>m. the (dpr_service m)) (filter (\<lambda>m. is_resolved (dpr_status m)) ms)) = services_of ms"
  by (auto simp: services_of_def)

lemma length_sorted_set_gt1: "length (sorted_set xs) > 1 \<longleftrightarrow> (\<exists>s\<in>set xs. \<exists>t\<in>set xs. s \<noteq> t)"
proof -
  have "length (sorted_set xs) > 1 \<longleftrightarrow> \<not> (\<forall>s\<in>set xs. \<forall>t\<in>set xs. s = t)"
    unfolding length_sorted_set using card_le_Suc0_iff_eq [of "set xs"] by (simp add: not_le [symmetric])
  then show ?thesis by auto
qed

lemma hd_sorted_set: "xs \<noteq> [] \<Longrightarrow> hd (sorted_set xs) = Min (set xs)"
proof -
  assume "xs \<noteq> []"
  then obtain y ys where y: "sorted_set xs = y # ys" by (metis list.exhaust sorted_set_eq_Nil)
  then have "sorted (y # ys)" by (metis sorted_sorted_set)
  then have "Min (set (sorted_set xs)) = y" unfolding y by (intro Min_eqI) auto
  then have "Min (set xs) = y" by (simp only: set_sorted_set)
  then show "hd (sorted_set xs) = Min (set xs)" by (simp add: y)
qed

text \<open>The branches of the reduction, over the sets the code sorts.\<close>

definition successful :: "deployment_resolution list \<Rightarrow> deployment_resolution list" where
  "successful ms = filter (\<lambda>m. is_resolved (dpr_status m)) ms"

definition applicable_members :: "deployment_resolution list \<Rightarrow> deployment_resolution list" where
  "applicable_members ms = successful ms @ filter (\<lambda>m. dpr_status m = CONFLICT) ms @ filter (\<lambda>m. dpr_status m = AMBIGUOUS) ms"

lemma set_applicable_members [simp]: "set (applicable_members ms) = {m \<in> set ms. applicable m}"
  unfolding applicable_members_def successful_def by (rule applicable_set)

lemma set_successful [simp]: "set (successful ms) = {m \<in> set ms. is_resolved (dpr_status m)}"
  by (simp add: successful_def)

definition conflict_of :: "deployment_resolution list \<Rightarrow> deployment_resolution" where
  "conflict_of ms = like_first (hd ms) (unsettled [] None CONFLICT (sorted_set (candidates_of (applicable_members ms))) []
     (sorted_set (evidence_of (applicable_members ms))) [DEPLOYMENT_IDENTITY_CONFLICT])"

definition ambiguous_of :: "deployment_resolution list \<Rightarrow> deployment_resolution" where
  "ambiguous_of ms = like_first (hd ms) (unsettled [] None AMBIGUOUS (sorted_set (candidates_of (applicable_members ms)))
     (sorted_set (evidence_of (applicable_members ms))) [] [DEPLOYMENT_IDENTITY_AMBIGUOUS])"

definition unresolved_of :: "deployment_resolution list \<Rightarrow> deployment_resolution" where
  "unresolved_of ms = like_first (hd ms) (unsettled [] None UNRESOLVED (sorted_set (candidates_of ms))
     (sorted_set (evidence_of ms)) [] (sorted_set (concat (map dpr_limitations ms))))"

definition methods_of :: "deployment_resolution list \<Rightarrow> deployment_method list" where
  "methods_of ms = sorted_set (concat (map dpr_methods (successful ms)))"

definition supporting_of :: "deployment_resolution list \<Rightarrow> string list" where
  "supporting_of ms = sorted_set (concat (map dpr_supporting (successful ms)))"

definition merged_claim_of :: "(bytes \<Rightarrow> string) \<Rightarrow> deployment_resolution list \<Rightarrow> string \<Rightarrow> string \<Rightarrow> workload_ref \<Rightarrow> deployment_claim" where
  "merged_claim_of H ms service name w =
     \<lparr>dpc_claim_id = compute_deployment_claim_id H service (wr_id w),
      dpc_subject = \<lparr>er_id = service, er_type = SERVICE, er_name = name\<rparr>, dpc_object = w,
      dpc_method = hd (methods_of ms), dpc_methods = methods_of ms,
      dpc_rule_id = dpr_rule_id (hd ms), dpc_rule_version = dpr_rule_version (hd ms), dpc_evidence = supporting_of ms\<rparr>"

definition resolved_of :: "(bytes \<Rightarrow> string) \<Rightarrow> deployment_resolution list \<Rightarrow> string \<Rightarrow> workload_ref \<Rightarrow> deployment_resolution" where
  "resolved_of H ms service w = like_first (hd ms)
     ((settled [] w (hd (methods_of ms)) service (supporting_of ms) (compute_deployment_claim_id H service (wr_id w)))
        \<lparr>dpr_methods := methods_of ms\<rparr>)"

lemma reduce_group_eq:
  "reduce_group H claims ms =
     (if list_ex (\<lambda>m. dpr_service m = None) (successful ms) then Inl AssertionError
      else if group_verdict ms = CONFLICT then and_then (build_resolution (conflict_of ms)) (\<lambda>r. Inr (r, None))
      else if group_verdict ms = AMBIGUOUS then and_then (build_resolution (ambiguous_of ms)) (\<lambda>r. Inr (r, None))
      else if group_verdict ms = UNRESOLVED then and_then (build_resolution (unresolved_of ms)) (\<lambda>r. Inr (r, None))
      else (case dpr_claim_id (hd (successful ms)) of None \<Rightarrow> Inl AssertionError
        | Some i \<Rightarrow> (case map_of claims i of None \<Rightarrow> Inl ClaimLookupError
          | Some existing \<Rightarrow> (case dpr_workload (hd ms) of None \<Rightarrow> Inl AssertionError
            | Some w \<Rightarrow>
                and_then (build_claim (merged_claim_of H ms (the_elem (services_of ms)) (er_name (dpc_subject existing)) w)) (\<lambda>c.
                and_then (build_resolution (resolved_of H ms (the_elem (services_of ms)) w)) (\<lambda>r. Inr (r, Some c)))))))"
proof (cases "list_ex (\<lambda>m. dpr_service m = None) (successful ms)")
  case True
  then show ?thesis by (simp add: reduce_group_def successful_def [symmetric] Let_def)
next
  case False
  let ?S = "sorted_set (map (\<lambda>m. the (dpr_service m)) (successful ms))"
  have sS: "set (map (\<lambda>m. the (dpr_service m)) (successful ms)) = services_of ms"
    unfolding successful_def by (rule services_of_set)
  have many: "length ?S > 1 \<longleftrightarrow> (\<exists>s\<in>services_of ms. \<exists>t\<in>services_of ms. s \<noteq> t)"
    unfolding length_sorted_set_gt1 sS ..
  have none: "?S = [] \<longleftrightarrow> services_of ms = {}" using sS by (metis set_empty set_sorted_set)
  have conflict: "filter (\<lambda>m. dpr_status m = CONFLICT) ms \<noteq> [] \<longleftrightarrow> (\<exists>m\<in>set ms. dpr_status m = CONFLICT)"
    and ambiguous: "filter (\<lambda>m. dpr_status m = AMBIGUOUS) ms \<noteq> [] \<longleftrightarrow> (\<exists>m\<in>set ms. dpr_status m = AMBIGUOUS)"
    by (auto simp: filter_empty_conv)
  note unfolded = reduce_group_def successful_def [symmetric] Let_def applicable_members_def [symmetric]
    conflict_of_def [symmetric] ambiguous_of_def [symmetric] unresolved_of_def [symmetric] methods_of_def [symmetric]
    supporting_of_def [symmetric]
  show ?thesis
  proof (cases "group_verdict ms")
    case CONFLICT
    then have "filter (\<lambda>m. dpr_status m = CONFLICT) ms \<noteq> [] \<or> length ?S > 1"
      unfolding conflict many by (simp add: group_verdict_def split: if_splits)
    then show ?thesis using False CONFLICT by (simp add: unfolded)
  next
    case AMBIGUOUS
    then have "\<not> (filter (\<lambda>m. dpr_status m = CONFLICT) ms \<noteq> [] \<or> length ?S > 1)" "filter (\<lambda>m. dpr_status m = AMBIGUOUS) ms \<noteq> []"
      unfolding conflict many ambiguous by (simp_all add: group_verdict_def split: if_splits)
    then show ?thesis using False AMBIGUOUS
      by (simp add: reduce_group_def successful_def [symmetric] Let_def ambiguous_of_def applicable_members_def)
  next
    case UNRESOLVED
    then have "\<not> (filter (\<lambda>m. dpr_status m = CONFLICT) ms \<noteq> [] \<or> length ?S > 1)"
      "\<not> filter (\<lambda>m. dpr_status m = AMBIGUOUS) ms \<noteq> []" "?S = []"
      unfolding conflict many ambiguous none by (simp_all add: group_verdict_def split: if_splits)
    then show ?thesis using False UNRESOLVED by (simp add: unfolded)
  next
    case (RESOLVED k)
    then have r: "\<not> (filter (\<lambda>m. dpr_status m = CONFLICT) ms \<noteq> [] \<or> length ?S > 1)"
      "\<not> filter (\<lambda>m. dpr_status m = AMBIGUOUS) ms \<noteq> []" "?S \<noteq> []"
      unfolding conflict many ambiguous none by (auto simp: group_verdict_def split: if_splits)
    then obtain s where s: "?S = [s]" by (cases ?S) auto
    then have "services_of ms = {s}" using sS by (metis empty_set list.simps(15) set_sorted_set)
    then have e: "the_elem (services_of ms) = s" by simp
    show ?thesis using False RESOLVED r unfolding e
      by (simp add: unfolded s merged_claim_of_def resolved_of_def Let_def split: option.split)
  qed
qed

text \<open>What one group becomes.\<close>

lemma reduce_group_cases:
  assumes "reduce_group H claims ms = Inr (r, c)"
  obtains (conflict) "group_verdict ms = CONFLICT" "r = conflict_of ms" "c = None" "resolution_contract r"
  | (ambiguous) "group_verdict ms = AMBIGUOUS" "r = ambiguous_of ms" "c = None" "resolution_contract r"
  | (unresolved) "group_verdict ms = UNRESOLVED" "r = unresolved_of ms" "c = None" "resolution_contract r"
  | (resolved) k w existing i where "group_verdict ms = RESOLVED k" "dpr_claim_id (hd (successful ms)) = Some i"
      "map_of claims i = Some existing" "dpr_workload (hd ms) = Some w" "r = resolved_of H ms (the_elem (services_of ms)) w"
      "c = Some (merged_claim_of H ms (the_elem (services_of ms)) (er_name (dpc_subject existing)) w)"
      "resolution_contract r" "claim_contract (the c)"
proof (cases "group_verdict ms")
  case CONFLICT
  then show ?thesis using assms conflict by (auto simp: reduce_group_eq and_then_Inr split: if_splits)
next
  case AMBIGUOUS
  then show ?thesis using assms ambiguous by (auto simp: reduce_group_eq and_then_Inr split: if_splits)
next
  case UNRESOLVED
  then show ?thesis using assms unresolved by (auto simp: reduce_group_eq and_then_Inr split: if_splits)
next
  case (RESOLVED k)
  with assms obtain i existing w where e: "dpr_claim_id (hd (successful ms)) = Some i" "map_of claims i = Some existing"
      "dpr_workload (hd ms) = Some w"
      "and_then (build_claim (merged_claim_of H ms (the_elem (services_of ms)) (er_name (dpc_subject existing)) w)) (\<lambda>c.
         and_then (build_resolution (resolved_of H ms (the_elem (services_of ms)) w)) (\<lambda>r. Inr (r, Some c))) = Inr (r, c)"
    by (auto simp: reduce_group_eq split: if_splits option.splits)
  then show ?thesis using resolved [OF RESOLVED e(1-3)] by (auto simp: and_then_Inr)
qed

lemma like_first_fields [simp]:
  "dpr_resolution_id (like_first m r) = dpr_resolution_id m" "dpr_workload (like_first m r) = dpr_workload m"
  "dpr_status (like_first m r) = dpr_status r" "dpr_service (like_first m r) = dpr_service r"
  "dpr_candidates (like_first m r) = dpr_candidates r" "dpr_methods (like_first m r) = dpr_methods r"
  "dpr_supporting (like_first m r) = dpr_supporting r" "dpr_conflicting (like_first m r) = dpr_conflicting r"
  "dpr_limitations (like_first m r) = dpr_limitations r" "dpr_claim_id (like_first m r) = dpr_claim_id r"
  "dpr_rule_id (like_first m r) = dpr_rule_id m" "dpr_rule_version (like_first m r) = dpr_rule_version m"
  by (simp_all add: like_first_def)

lemmas reduced_shapes = conflict_of_def ambiguous_of_def unresolved_of_def resolved_of_def unsettled_def settled_def

lemma contract_resolvedD:
  assumes "resolution_contract r" "is_resolved (dpr_status r)"
  shows "dpr_candidates r = [the (dpr_service r)]" "dpr_workload r \<noteq> None" "dpr_service r \<noteq> None" "dpr_methods r \<noteq> []"
    "dpr_claim_id r \<noteq> None"
  using assms by (auto simp: resolution_contract_def)

lemma member_ok_contract: "member_ok H m \<Longrightarrow> resolution_contract m"
  by (simp add: member_ok_def)

lemma verdict_applicable: "group_verdict ms = UNRESOLVED \<longleftrightarrow> \<not> (\<exists>m\<in>set ms. applicable m)"
proof -
  have "applicable m \<longleftrightarrow> is_resolved (dpr_status m) \<or> dpr_status m = CONFLICT \<or> dpr_status m = AMBIGUOUS" for m
    by (cases "dpr_status m") (simp_all add: applicable_def)
  then show ?thesis by (auto simp: group_verdict_def services_of_def)
qed

lemma verdict_resolved:
  assumes "group_verdict ms = RESOLVED k"
  shows "\<forall>m\<in>set ms. applicable m \<longrightarrow> is_resolved (dpr_status m)" "services_of ms = {the_elem (services_of ms)}" "successful ms \<noteq> []"
proof -
  have v: "\<forall>m\<in>set ms. dpr_status m \<noteq> CONFLICT" "\<forall>m\<in>set ms. dpr_status m \<noteq> AMBIGUOUS" "services_of ms \<noteq> {}"
    "\<forall>s\<in>services_of ms. \<forall>t\<in>services_of ms. s = t"
    using assms by (auto simp: group_verdict_def split: if_splits)
  show "\<forall>m\<in>set ms. applicable m \<longrightarrow> is_resolved (dpr_status m)"
  proof (intro ballI impI)
    fix m assume "m \<in> set ms" "applicable m"
    then show "is_resolved (dpr_status m)" using v(1,2) by (cases "dpr_status m") (auto simp: applicable_def)
  qed
  obtain s where "s \<in> services_of ms" using v(3) by auto
  then have "services_of ms = {s}" using v(4) by auto
  then show "services_of ms = {the_elem (services_of ms)}" by simp
  show "successful ms \<noteq> []" using v(3) by (auto simp: services_of_def successful_def filter_empty_conv)
qed

text \<open>The evidence and the candidates of a reduced group are those of its applicable members, when it has any.\<close>

lemma reduced_evidence:
  assumes "reduce_group H claims ms = Inr (r, c)" "\<forall>m\<in>set ms. member_ok H m" "\<exists>m\<in>set ms. applicable m"
  shows "set (dpr_supporting r @ dpr_conflicting r) = (\<Union>m\<in>{m \<in> set ms. applicable m}. set (dpr_supporting m) \<union> set (dpr_conflicting m))"
  using assms(1)
proof (cases rule: reduce_group_cases)
  case unresolved
  then show ?thesis using assms(3) verdict_applicable by blast
next
  case (resolved k w existing i)
  have "{m \<in> set ms. applicable m} = {m \<in> set ms. is_resolved (dpr_status m)}"
    using verdict_resolved(1) [OF resolved(1)] by (auto simp: applicable_def)
  moreover have "dpr_conflicting m = []" if "m \<in> set ms" "is_resolved (dpr_status m)" for m
    using assms(2) that by (simp add: member_ok_def)
  ultimately show ?thesis by (auto simp: resolved(5) reduced_shapes supporting_of_def)
qed (auto simp: reduced_shapes set_evidence_of)

lemma reduced_candidates:
  assumes "reduce_group H claims ms = Inr (r, c)" "\<forall>m\<in>set ms. member_ok H m" "\<exists>m\<in>set ms. applicable m"
  shows "set (dpr_candidates r) = (\<Union>m\<in>{m \<in> set ms. applicable m}. set (dpr_candidates m))"
  using assms(1)
proof (cases rule: reduce_group_cases)
  case unresolved
  then show ?thesis using assms(3) verdict_applicable by blast
next
  case (resolved k w existing i)
  have e: "{m \<in> set ms. applicable m} = {m \<in> set ms. is_resolved (dpr_status m)}"
    using verdict_resolved(1) [OF resolved(1)] by (auto simp: applicable_def)
  have "dpr_candidates m = [the (dpr_service m)]" if "m \<in> set ms" "is_resolved (dpr_status m)" for m
    using contract_resolvedD(1) [of m] assms(2) that by (auto dest: member_ok_contract)
  then have "(\<Union>m\<in>{m \<in> set ms. applicable m}. set (dpr_candidates m)) = services_of ms"
    unfolding e by (auto simp: services_of_def)
  then show ?thesis using verdict_resolved(2) [OF resolved(1)] by (simp add: resolved(5) reduced_shapes)
qed (auto simp: reduced_shapes set_candidates_of)

lemma reduced_unresolved:
  assumes "reduce_group H claims ms = Inr (r, c)" "\<not> (\<exists>m\<in>set ms. applicable m)"
  shows "set (dpr_supporting r @ dpr_conflicting r) = (\<Union>m\<in>set ms. set (dpr_supporting m) \<union> set (dpr_conflicting m))"
    "set (dpr_candidates r) = (\<Union>m\<in>set ms. set (dpr_candidates m))" "dpr_status r = UNRESOLVED" "c = None"
proof -
  have "group_verdict ms = UNRESOLVED" using assms(2) verdict_applicable by blast
  then have r: "r = unresolved_of ms" and c: "c = None" using assms(1) by (auto elim!: reduce_group_cases)
  show "set (dpr_supporting r @ dpr_conflicting r) = (\<Union>m\<in>set ms. set (dpr_supporting m) \<union> set (dpr_conflicting m))"
    "set (dpr_candidates r) = (\<Union>m\<in>set ms. set (dpr_candidates m))" "dpr_status r = UNRESOLVED" "c = None"
    by (auto simp: r c reduced_shapes set_evidence_of set_candidates_of)
qed

lemma reduced_status:
  assumes "reduce_group H claims ms = Inr (r, c)"
  shows "dpr_status r = group_verdict ms"
  using assms
proof (cases rule: reduce_group_cases)
  case (resolved k w existing i)
  have "methods_of ms \<noteq> []" using resolved(6,8) by (simp add: merged_claim_of_def claim_contract_def)
  then have "hd (methods_of ms) = Min (set (concat (map dpr_methods (successful ms))))"
    unfolding methods_of_def by (intro hd_sorted_set) simp
  moreover have "set (concat (map dpr_methods (successful ms))) = {k. \<exists>m\<in>set ms. is_resolved (dpr_status m) \<and> k \<in> set (dpr_methods m)}"
    by auto
  ultimately have "hd (methods_of ms) = Min {k. \<exists>m\<in>set ms. is_resolved (dpr_status m) \<and> k \<in> set (dpr_methods m)}" by simp
  then show ?thesis using resolved(1) by (simp add: resolved(5) reduced_shapes group_verdict_def split: if_splits)
qed (simp_all add: reduced_shapes)

lemma reduced_identity:
  assumes "reduce_group H claims ms = Inr (r, c)"
  shows "dpr_resolution_id r = dpr_resolution_id (hd ms)" "dpr_workload r = dpr_workload (hd ms)" "resolution_contract r"
  using assms by (auto elim!: reduce_group_cases simp: conflict_of_def ambiguous_of_def unresolved_of_def resolved_of_def)

text \<open>What a client reads of a claim, and of the resolution that names it.\<close>

definition claim_view :: "deployment_claim \<Rightarrow> string \<times> string \<times> workload_ref \<times> deployment_method list \<times> string list" where
  "claim_view c = (dpc_claim_id c, er_id (dpc_subject c), dpc_object c, dpc_methods c, dpc_evidence c)"

definition resolution_claim_view ::
  "deployment_resolution \<Rightarrow> (string \<times> string \<times> workload_ref \<times> deployment_method list \<times> string list) option" where
  "resolution_claim_view r = (case dpr_claim_id r of None \<Rightarrow> None
     | Some i \<Rightarrow> Some (i, the (dpr_service r), the (dpr_workload r), dpr_methods r, dpr_supporting r))"

lemma reduced_claim: "reduce_group H claims ms = Inr (r, c) \<Longrightarrow> resolution_claim_view r = map_option claim_view c"
  by (auto elim!: reduce_group_cases simp: reduced_shapes resolution_claim_view_def claim_view_def merged_claim_of_def)

lemma reduced_claim_contract: "reduce_group H claims ms = Inr (r, Some c) \<Longrightarrow> claim_contract c"
  by (auto elim!: reduce_group_cases)

lemma reduce_cross_Inr:
  assumes "reduce_cross_path_resolutions H a b c = Inr q"
  obtains merged where
    "map (\<lambda>i. reduce_group H (claims_by_id [a, b, c]) (group_members [a, b, c] i)) (group_ids [a, b, c]) = map Inr merged"
    "q = \<lparr>pr_resolutions = map fst merged, pr_claims = somes (map snd merged)\<rparr>"
  using assms by (auto simp: reduce_cross_path_resolutions_def Let_def and_then_Inr traverse_Inr)

lemma group_hd:
  assumes "i \<in> set (group_ids results)"
  shows "group_members results i \<noteq> []" "dpr_resolution_id (hd (group_members results i)) = i"
proof -
  show ne: "group_members results i \<noteq> []"
    using assms by (auto simp: group_ids_def group_members_def filter_empty_conv)
  have "\<forall>r\<in>set (group_members results i). dpr_resolution_id r = i" by (simp add: group_members_def)
  then show "dpr_resolution_id (hd (group_members results i)) = i" using hd_in_set [OF ne] by blast
qed

lemma reduce_cross_nth:
  assumes "reduce_cross_path_resolutions H a b c = Inr q" "r \<in> set (pr_resolutions q)"
  shows "\<exists>claim. reduce_group H (claims_by_id [a, b, c]) (group_members [a, b, c] (dpr_resolution_id r)) = Inr (r, claim) \<and>
    dpr_resolution_id r \<in> set (group_ids [a, b, c]) \<and> (\<forall>k. claim = Some k \<longrightarrow> k \<in> set (pr_claims q))"
  using assms(1)
proof (cases rule: reduce_cross_Inr)
  case (1 merged)
  then obtain claim where m: "(r, claim) \<in> set merged" using assms(2) by auto
  then have "Inr (r, claim) \<in> set (map (\<lambda>i. reduce_group H (claims_by_id [a, b, c]) (group_members [a, b, c] i)) (group_ids [a, b, c]))"
    unfolding 1(1) by simp
  then obtain i where i: "i \<in> set (group_ids [a, b, c])"
      "reduce_group H (claims_by_id [a, b, c]) (group_members [a, b, c] i) = Inr (r, claim)" by auto
  have "dpr_resolution_id r = i" using reduced_identity(1) [OF i(2)] group_hd(2) [OF i(1)] by simp
  then show ?thesis using i m 1(2) by force
qed

text \<open>C17: the reduction returns exactly one resolution per resolution id, in ascending order of the ids, whose status
  is the verdict on the members of the group: a conflict when one path conflicts or two name different services,
  else ambiguous when one path is, else resolved by the strongest method when a path resolves, else unresolved.
  The verdict reads the members as a set, so the paths' order does not matter.\<close>

theorem reduction_gives_verdicts:
  assumes "reduce_cross_path_resolutions H path_a path_b path_c = Inr q"
  shows "map (\<lambda>r. (dpr_resolution_id r, dpr_status r)) (pr_resolutions q) =
    map (\<lambda>i. (i, group_verdict (group_members [path_a, path_b, path_c] i))) (group_ids [path_a, path_b, path_c])"
  using assms
proof (cases rule: reduce_cross_Inr)
  case (1 merged)
  let ?f = "\<lambda>i. reduce_group H (claims_by_id [path_a, path_b, path_c]) (group_members [path_a, path_b, path_c] i)"
  let ?ids = "group_ids [path_a, path_b, path_c]"
  have len: "length merged = length ?ids" using arg_cong [OF 1(1), of length] by simp
  show ?thesis
  proof (rule nth_equalityI)
    show "length (map (\<lambda>r. (dpr_resolution_id r, dpr_status r)) (pr_resolutions q)) =
      length (map (\<lambda>i. (i, group_verdict (group_members [path_a, path_b, path_c] i))) ?ids)"
      by (simp add: 1(2) len)
    fix n
    assume "n < length (map (\<lambda>r. (dpr_resolution_id r, dpr_status r)) (pr_resolutions q))"
    then have n: "n < length ?ids" by (simp add: 1(2) len)
    let ?i = "?ids ! n"
    obtain r claim where m: "merged ! n = (r, claim)" by (cases "merged ! n")
    have "map ?f ?ids ! n = map Inr merged ! n" using 1(1) by simp
    then have g: "?f ?i = Inr (r, claim)" using n len m by simp
    have "?i \<in> set ?ids" using n by simp
    then have "dpr_resolution_id r = ?i" using reduced_identity(1) [OF g] group_hd(2) [of ?i] by simp
    then show "map (\<lambda>r. (dpr_resolution_id r, dpr_status r)) (pr_resolutions q) ! n =
        map (\<lambda>i. (i, group_verdict (group_members [path_a, path_b, path_c] i))) ?ids ! n"
      using reduced_status [OF g] n len by (simp add: 1(2) m)
  qed
qed

lemma somes_map_option: "somes (map (\<lambda>x. map_option f (g x)) xs) = map f (somes (map g xs))"
proof (induction xs)
  case (Cons x xs)
  then show ?case by (cases "g x") simp_all
qed simp

lemma claims_of_reduction:
  assumes "reduce_cross_path_resolutions H path_a path_b path_c = Inr q"
  shows "map claim_view (pr_claims q) = somes (map resolution_claim_view (pr_resolutions q))" "\<forall>c\<in>set (pr_claims q). claim_contract c"
  using assms
proof (atomize (full), cases rule: reduce_cross_Inr)
  case (1 merged)
  have each: "\<exists>ms. reduce_group H (claims_by_id [path_a, path_b, path_c]) ms = Inr rc" if "rc \<in> set merged" for rc
  proof -
    have "Inr rc \<in> set (map (\<lambda>i. reduce_group H (claims_by_id [path_a, path_b, path_c])
        (group_members [path_a, path_b, path_c] i)) (group_ids [path_a, path_b, path_c]))"
      unfolding 1(1) using that by simp
    then show ?thesis by auto
  qed
  have "map (\<lambda>rc. resolution_claim_view (fst rc)) merged = map (\<lambda>rc. map_option claim_view (snd rc)) merged"
  proof (rule map_cong [OF refl])
    fix rc assume "rc \<in> set merged"
    then show "resolution_claim_view (fst rc) = map_option claim_view (snd rc)"
      using each reduced_claim by (metis prod.collapse)
  qed
  then have "somes (map (\<lambda>rc. resolution_claim_view (fst rc)) merged) = map claim_view (somes (map snd merged))"
    by (simp only: somes_map_option)
  then have "somes (map resolution_claim_view (pr_resolutions q)) = map claim_view (pr_claims q)"
    by (simp add: 1(2) comp_def)
  moreover have "\<forall>c\<in>set (pr_claims q). claim_contract c"
    using each reduced_claim_contract by (auto simp: 1(2)) (metis snd_conv prod.collapse)
  ultimately show "map claim_view (pr_claims q) = somes (map resolution_claim_view (pr_resolutions q)) \<and>
      (\<forall>c\<in>set (pr_claims q). claim_contract c)" by simp
qed

text \<open>C20: the claims of a reduced result are exactly its resolved resolutions, in their order: each claim has the id,
  service, workload, methods and evidence of the resolution that names it, and no resolution names a claim that
  is not returned.\<close>

theorem claims_are_resolved_resolutions:
  assumes "reduce_cross_path_resolutions H path_a path_b path_c = Inr q"
  shows "map claim_view (pr_claims q) = somes (map resolution_claim_view (pr_resolutions q))"
  by (rule claims_of_reduction(1) [OF assms])

subsection \<open>The reduction returns\<close>

lemma member_ok_rule: "member_ok H m \<Longrightarrow> dpr_rule_id m = DEPLOYMENT_RECONCILIATION_RULE_ID \<and> dpr_rule_version m = 1 \<and>
    digest_id ''aip:deployment-resolution:v1:'' (dpr_resolution_id m)"
  by (simp add: member_ok_def resolution_contract_def)

lemma reduce_group_total:
  assumes H: "hex_digest H" and ok: "\<forall>m\<in>set ms. member_ok H m" and ne: "ms \<noteq> []"
    and same: "\<forall>m\<in>set ms. dpr_workload m = dpr_workload (hd ms)"
    and claims: "\<forall>m\<in>set ms. is_resolved (dpr_status m) \<longrightarrow> (\<exists>i. dpr_claim_id m = Some i \<and> map_of claims i \<noteq> None)"
  shows "\<exists>r c. reduce_group H claims ms = Inr (r, c)"
proof -
  have first_ok: "member_ok H (hd ms)" using ok ne by simp
  note rule = member_ok_rule [OF first_ok]
  have services: "\<not> list_ex (\<lambda>m. dpr_service m = None) (successful ms)"
    using ok contract_resolvedD(3) by (auto simp: list_ex_iff dest: member_ok_contract)
  show ?thesis
  proof (cases "group_verdict ms")
    case CONFLICT
    have "resolution_contract (conflict_of ms)" using rule by (simp add: resolution_contract_def reduced_shapes)
    then show ?thesis using services CONFLICT by (simp add: reduce_group_eq build_resolution_def)
  next
    case AMBIGUOUS
    have "resolution_contract (ambiguous_of ms)" using rule by (simp add: resolution_contract_def reduced_shapes)
    then show ?thesis using services AMBIGUOUS by (simp add: reduce_group_eq build_resolution_def)
  next
    case UNRESOLVED
    have "resolution_contract (unresolved_of ms)" using rule by (simp add: resolution_contract_def reduced_shapes)
    then show ?thesis using services UNRESOLVED by (simp add: reduce_group_eq build_resolution_def)
  next
    case (RESOLVED k)
    obtain m rest where m: "successful ms = m # rest" using verdict_resolved(3) [OF RESOLVED] by (cases "successful ms") auto
    then have mem: "m \<in> set ms" "is_resolved (dpr_status m)" by (auto simp: successful_def filter_eq_Cons_iff)
    then obtain i existing where i: "dpr_claim_id m = Some i" "map_of claims i = Some existing" using claims by blast
    have m_ok: "member_ok H m" using ok mem by blast
    obtain w where w: "dpr_workload (hd ms) = Some w"
      using contract_resolvedD(2) [OF member_ok_contract [OF m_ok] mem(2)] same mem(1) by auto
    have methods: "methods_of ms \<noteq> []"
      using contract_resolvedD(4) [OF member_ok_contract [OF m_ok] mem(2)] by (simp add: methods_of_def m)
    have evidence: "supporting_of ms \<noteq> []" using m_ok mem(2) by (simp add: supporting_of_def m member_ok_def)
    let ?s = "the_elem (services_of ms)"
    have "claim_contract (merged_claim_of H ms ?s (er_name (dpc_subject existing)) w)"
      using methods evidence rule claim_id_pattern [OF H, of ?s "wr_id w"]
      by (simp add: claim_contract_def merged_claim_of_def) (simp add: methods_of_def supporting_of_def)
    moreover have "resolution_contract (resolved_of H ms ?s w)"
      using methods rule claim_id_pattern [OF H, of ?s "wr_id w"] w
      by (simp add: resolution_contract_def resolved_of_def settled_def) (simp add: methods_of_def supporting_of_def)
    ultimately show ?thesis
      using services RESOLVED i w by (simp add: reduce_group_eq m build_claim_def build_resolution_def)
  qed
qed

lemma traverse_succeeds: "(\<And>x. x \<in> set xs \<Longrightarrow> \<exists>y. f x = Inr y) \<Longrightarrow> \<exists>ys. traverse f xs = Inr ys"
  using traverse_fails [of f xs] by (cases "traverse f xs") fastforce+

definition all_resolutions :: "path_result list \<Rightarrow> deployment_resolution list" where
  "all_resolutions results = concat (map pr_resolutions results)"

text \<open>No two resolutions of different workloads share a resolution id.\<close>

definition ids_separate_workloads :: "deployment_resolution list \<Rightarrow> bool" where
  "ids_separate_workloads rs =
     list_all (\<lambda>r. list_all (\<lambda>s. dpr_resolution_id r = dpr_resolution_id s \<longrightarrow> dpr_workload r = dpr_workload s) rs) rs"

lemma claim_found: "k \<in> set (concat (map pr_claims results)) \<Longrightarrow> map_of (claims_by_id results) (dpc_claim_id k) \<noteq> None"
  unfolding claims_by_id_def map_of_eq_None_iff by force

lemma reduce_cross_total:
  assumes H: "hex_digest H" and a: "result_ok H snapshot context_id a" and b: "result_ok H snapshot context_id b"
    and c: "result_ok H snapshot context_id c" and separate: "ids_separate_workloads (all_resolutions [a, b, c])"
  shows "\<exists>q. reduce_cross_path_resolutions H a b c = Inr q"
proof -
  have "\<exists>y. reduce_group H (claims_by_id [a, b, c]) (group_members [a, b, c] i) = Inr y" if "i \<in> set (group_ids [a, b, c])" for i
  proof -
    let ?ms = "group_members [a, b, c] i"
    have mem: "m \<in> set (all_resolutions [a, b, c]) \<and> dpr_resolution_id m = i" if "m \<in> set ?ms" for m
      using that by (auto simp: group_members_def all_resolutions_def)
    have from_path: "\<exists>p\<in>set [a, b, c]. m \<in> set (pr_resolutions p) \<and> result_ok H snapshot context_id p" if "m \<in> set ?ms" for m
      using mem [OF that] a b c by (auto simp: all_resolutions_def)
    have "\<forall>m\<in>set ?ms. member_ok H m"
    proof
      fix m assume "m \<in> set ?ms"
      from from_path [OF this] show "member_ok H m" unfolding result_ok_def by blast
    qed
    moreover have "\<forall>m\<in>set ?ms. dpr_workload m = dpr_workload (hd ?ms)"
      using mem hd_in_set [OF group_hd(1) [OF that]] separate unfolding ids_separate_workloads_def list_all_iff by metis
    moreover have "\<forall>m\<in>set ?ms. is_resolved (dpr_status m) \<longrightarrow>
        (\<exists>j. dpr_claim_id m = Some j \<and> map_of (claims_by_id [a, b, c]) j \<noteq> None)"
    proof (intro ballI impI)
      fix m
      assume m: "m \<in> set ?ms" "is_resolved (dpr_status m)"
      obtain p where p: "p \<in> set [a, b, c]" "m \<in> set (pr_resolutions p)" "result_ok H snapshot context_id p"
        using from_path [OF m(1)] by blast
      then obtain k where k: "k \<in> set (pr_claims p)" "dpr_claim_id m = Some (dpc_claim_id k)"
        using m(2) unfolding result_ok_def by blast
      have "k \<in> set (concat (map pr_claims [a, b, c]))" using p(1) k(1) by auto
      from claim_found [OF this] k(2) show "\<exists>j. dpr_claim_id m = Some j \<and> map_of (claims_by_id [a, b, c]) j \<noteq> None"
        by blast
    qed
    ultimately have "\<exists>r k. reduce_group H (claims_by_id [a, b, c]) ?ms = Inr (r, k)"
      by (rule reduce_group_total [OF H _ group_hd(1) [OF that]])
    then show ?thesis by (elim exE) (rule exI)
  qed
  then obtain merged where "traverse (\<lambda>i. reduce_group H (claims_by_id [a, b, c]) (group_members [a, b, c] i))
      (group_ids [a, b, c]) = Inr merged"
    using traverse_succeeds [of "group_ids [a, b, c]"] by metis
  then show ?thesis unfolding reduce_cross_path_resolutions_def Let_def by simp
qed

end
