(* ===== verification/DeploymentWindows.thy ===== *)
theory DeploymentWindows
  imports DeploymentReconciliation
begin

text \<open>
  The context-free half of \<open>deployment_reconciliation.py\<close>: identity observations are grouped by workload
  and environment, each group is packed greedily into windows no longer than \<open>MAX_OBSERVATION_WINDOW\<close>, and
  Path C runs once per window.  A bucket list is kept newest first while it grows.
\<close>

type_synonym row = "identity_row \<times> int option"
type_synonym span = "int \<times> int"

definition resolve_workload_group_key :: "deployment_library \<Rightarrow> path_reads \<Rightarrow> identity_row \<Rightarrow> (string \<times> int option) option" where
  "resolve_workload_group_key lib rd obs =
     (if \<not> str_true (io_k8s_pod_uid obs) then None
      else (case rd_pods_by_uid rd (the (io_k8s_pod_uid obs)) of
          [pod] \<Rightarrow> (case rd_owners_of_pod rd (cp_pod_id pod) of
              [owner] \<Rightarrow> Some (ow_workload_id owner, parse_rfc3339 (dl_fromisoformat lib) (cp_captured_at pod))
            | _ \<Rightarrow> None)
        | _ \<Rightarrow> None))"

definition row_times :: "row \<Rightarrow> int list" where
  "row_times r = somes [io_first_seen (fst r), io_last_seen (fst r), snd r]"

definition row_span :: "row \<Rightarrow> span option" where
  "row_span r = (case row_times r of [] \<Rightarrow> None | t # ts \<Rightarrow> Some (fold min ts t, fold max ts t))"

definition fresh_bounds :: "span \<Rightarrow> span" where
  "fresh_bounds s = (if snd s - fst s > MAX_OBSERVATION_WINDOW then (snd s - MAX_OBSERVATION_WINDOW, snd s) else s)"

definition place :: "row \<times> span \<Rightarrow> (row list \<times> span) list \<Rightarrow> (row list \<times> span) list" where
  "place rs buckets = (case rs of (r, lo, hi) \<Rightarrow> (case buckets of
       (rows, a, b) # older \<Rightarrow>
         if max b hi - min a lo \<le> MAX_OBSERVATION_WINDOW then (rows @ [r], min a lo, max b hi) # older
         else ([r], fresh_bounds (lo, hi)) # buckets
     | [] \<Rightarrow> [([r], fresh_bounds (lo, hi))]))"

definition timestamped :: "row list \<Rightarrow> (row \<times> span) list" where
  "timestamped rows = somes (map (\<lambda>r. map_option (Pair r) (row_span r)) rows)"

definition bucket_by_window :: "row list \<Rightarrow> (row list \<times> span option) list" where
  "bucket_by_window rows =
     map (\<lambda>(b, bounds). (b, Some bounds)) (rev (fold place (sort_key (\<lambda>x. fst (snd x)) (timestamped rows)) [])) @
     map (\<lambda>r. ([r], None)) (filter (\<lambda>r. row_span r = None) rows)"

definition PATH_C_PLACEHOLDER_ENVIRONMENT :: string where
  "PATH_C_PLACEHOLDER_ENVIRONMENT = ''unspecified''"

definition EPOCH :: int where
  "EPOCH = 946684800000000"

definition environment_or_placeholder :: "string option \<Rightarrow> string" where
  "environment_or_placeholder e = (if str_true e then the e else PATH_C_PLACEHOLDER_ENVIRONMENT)"

text \<open>The group of an observation and the row that joins it.\<close>

definition keyed_rows :: "deployment_library \<Rightarrow> path_reads \<Rightarrow> identity_row list \<Rightarrow> ((string \<times> string option) \<times> row) list" where
  "keyed_rows lib rd observations = somes (map (\<lambda>obs. case resolve_workload_group_key lib rd obs of None \<Rightarrow> None
     | Some (w, captured) \<Rightarrow> Some ((w, io_environment obs), (obs, captured))) observations)"

definition rows_of_key :: "((string \<times> string option) \<times> row) list \<Rightarrow> string \<times> string option \<Rightarrow> row list" where
  "rows_of_key keyed k = map snd (filter (\<lambda>kr. fst kr = k) keyed)"

text \<open>Keys in order of their first row (\<open>rev\<close> twice: \<open>remdups\<close> keeps the last).\<close>

definition first_occurrences :: "'a list \<Rightarrow> 'a list" where
  "first_occurrences xs = rev (remdups (rev xs))"

definition window_batch ::
  "deployment_library \<Rightarrow> string option \<Rightarrow> row list \<times> span option \<Rightarrow> deployment_fault + (identity_row list \<times> observation_context_ref)" where
  "window_batch lib environment bucket = (case bucket of (rows, bounds) \<Rightarrow>
     (let window = (case bounds of Some s \<Rightarrow> s | None \<Rightarrow> (EPOCH, EPOCH)) in
      and_then (build_observation_context_ref lib (environment_or_placeholder environment) (fst window) (snd window)) (\<lambda>c.
        Inr (map fst rows, c))))"

definition standalone_batch :: "deployment_library \<Rightarrow> identity_row \<Rightarrow> deployment_fault + (identity_row list \<times> observation_context_ref)" where
  "standalone_batch lib obs =
     and_then (build_observation_context_ref lib (environment_or_placeholder (io_environment obs))
         (case io_first_seen obs of None \<Rightarrow> EPOCH | Some t \<Rightarrow> t) (case io_last_seen obs of None \<Rightarrow> EPOCH | Some t \<Rightarrow> t)) (\<lambda>c.
       Inr ([obs], c))"

definition bucket_context_free_observations ::
  "deployment_library \<Rightarrow> path_reads \<Rightarrow> identity_row list \<Rightarrow> deployment_fault + (identity_row list \<times> observation_context_ref) list" where
  "bucket_context_free_observations lib rd observations =
     (let keyed = keyed_rows lib rd observations in
      and_then (traverse (\<lambda>(environment, bucket). window_batch lib environment bucket)
        (concat (map (\<lambda>k. map (Pair (snd k)) (bucket_by_window (rows_of_key keyed k))) (first_occurrences (map fst keyed)))))
        (\<lambda>batches. and_then (traverse (standalone_batch lib)
            (filter (\<lambda>obs. resolve_workload_group_key lib rd obs = None) observations)) (\<lambda>alone.
          Inr (batches @ alone))))"

definition resolve_path_c_context_free ::
  "deployment_library \<Rightarrow> path_reads \<Rightarrow> identity_row list \<Rightarrow> string \<Rightarrow> string \<Rightarrow> deployment_fault + path_result" where
  "resolve_path_c_context_free lib rd observations snapshot context_id =
     and_then (bucket_context_free_observations lib rd observations) (\<lambda>batches.
       and_then (traverse (\<lambda>(bucket, c). resolve_path_c lib rd bucket c snapshot context_id) batches) (\<lambda>rs.
         Inr (join_results rs)))"

section \<open>The whole graph\<close>

record graph_reads = path_reads +
  gr_declared :: "(string \<times> string) list"
  gr_workloads :: "current_workload list"
  gr_observations :: "identity_row list"

record whole_graph =
  wg_reduced :: path_result
  wg_declared :: "string set"
  wg_synthetic :: "(string \<times> evidence_record) list"
  wg_reachable :: "string list"

definition path_c_of ::
  "deployment_library \<Rightarrow> graph_reads \<Rightarrow> observation_context_ref option \<Rightarrow> string \<Rightarrow> string \<Rightarrow> deployment_fault + path_result" where
  "path_c_of lib rd requested snapshot context_id =
     (case requested of
        Some c \<Rightarrow> resolve_path_c lib (path_reads.truncate rd) (gr_observations rd) c snapshot context_id
      | None \<Rightarrow> resolve_path_c_context_free lib (path_reads.truncate rd) (gr_observations rd) snapshot context_id)"

definition run_whole_graph_reconciliation ::
  "deployment_library \<Rightarrow> graph_reads \<Rightarrow> mapping_document option \<Rightarrow> (string \<times> string) list \<Rightarrow> observation_context_ref option
     \<Rightarrow> string \<Rightarrow> string \<Rightarrow> deployment_fault + whole_graph" where
  "run_whole_graph_reconciliation lib rd document sources requested snapshot context_id =
     (let H = dl_sha256 lib; lookup = map_of (gr_declared rd) in
      and_then (resolve_path_a H (gr_workloads rd) lookup snapshot context_id) (\<lambda>path_a.
      and_then (resolve_path_b H document sources (rd_workload rd) lookup snapshot context_id) (\<lambda>path_b.
      and_then (path_c_of lib rd requested snapshot context_id) (\<lambda>path_c.
      and_then (reduce_cross_path_resolutions H path_a (publicize_evidence_refs path_b) (publicize_evidence_refs path_c)) (\<lambda>reduced.
        let declared = fst ` set (gr_declared rd) in
        Inr \<lparr>wg_reduced = reduced, wg_declared = declared,
          wg_synthetic = foldl (\<lambda>d (k, v). AList.update k v d) (path_b_evidence_records H document)
            (path_c_evidence_records (gr_observations rd)),
          wg_reachable = reachable_deployment_evidence_ids reduced declared\<rparr>)))))"

section \<open>Windows\<close>

lemma row_span_bounds:
  assumes "row_span r = Some (lo, hi)"
  shows "lo \<le> hi" "t \<in> set (row_times r) \<Longrightarrow> lo \<le> t \<and> t \<le> hi" "lo \<in> set (row_times r)" "hi \<in> set (row_times r)"
proof -
  obtain t0 ts where ts: "row_times r = t0 # ts" "lo = fold min ts t0" "hi = fold max ts t0"
    using assms by (auto simp: row_span_def split: list.splits)
  have lo: "lo = Min (set (row_times r))" and hi: "hi = Max (set (row_times r))"
    by (simp_all only: ts Min.set_eq_fold Max.set_eq_fold)
  have ne: "finite (set (row_times r))" "set (row_times r) \<noteq> {}" using ts(1) by simp_all
  show "lo \<le> hi" unfolding lo hi using Min_in [OF ne] Max_ge [OF ne(1)] by blast
  show "t \<in> set (row_times r) \<Longrightarrow> lo \<le> t \<and> t \<le> hi" unfolding lo hi using Min_le [OF ne(1)] Max_ge [OF ne(1)] by blast
  show "lo \<in> set (row_times r)" "hi \<in> set (row_times r)" unfolding lo hi using Min_in [OF ne] Max_in [OF ne] by simp_all
qed

text \<open>The window of a bucket covers every row up to the window's length before its last time, and is never longer
  than the maximum.\<close>

definition covers :: "span \<Rightarrow> row \<Rightarrow> bool" where
  "covers ab r = (case row_span r of None \<Rightarrow> False
     | Some (lo, hi) \<Rightarrow> fst ab \<le> max lo (hi - MAX_OBSERVATION_WINDOW) \<and> hi \<le> snd ab)"

definition bucket_ok :: "row list \<times> span \<Rightarrow> bool" where
  "bucket_ok b = (fst (snd b) \<le> snd (snd b) \<and> snd (snd b) - fst (snd b) \<le> MAX_OBSERVATION_WINDOW \<and> list_all (covers (snd b)) (fst b))"

lemma window_positive: "0 \<le> MAX_OBSERVATION_WINDOW"
  by (simp add: MAX_OBSERVATION_WINDOW_def microseconds_per_day_def)

lemma fresh_bucket_ok: "row_span r = Some (lo, hi) \<Longrightarrow> bucket_ok ([r], fresh_bounds (lo, hi))"
  using row_span_bounds(1) [of r lo hi] window_positive by (auto simp: bucket_ok_def fresh_bounds_def covers_def)

lemma covers_mono: "covers (a, b) r \<Longrightarrow> a' \<le> a \<Longrightarrow> b \<le> b' \<Longrightarrow> covers (a', b') r"
  by (auto simp: covers_def split: option.splits)

lemma place_ok:
  assumes "row_span r = Some s" "list_all bucket_ok buckets"
  shows "list_all bucket_ok (place (r, s) buckets)"
proof (cases buckets)
  case Nil
  then show ?thesis using assms fresh_bucket_ok [of r "fst s" "snd s"] by (simp add: place_def split: prod.splits)
next
  case (Cons b older)
  obtain rows a z where b: "b = (rows, a, z)" by (cases b) auto
  obtain lo hi where s: "s = (lo, hi)" by (cases s)
  have old: "bucket_ok (rows, a, z)" "list_all bucket_ok older" using assms(2) Cons b by simp_all
  show ?thesis
  proof (cases "max z hi - min a lo \<le> MAX_OBSERVATION_WINDOW")
    case True
    have "covers (min a lo, max z hi) r" using assms(1) s by (simp add: covers_def)
    moreover have "list_all (covers (min a lo, max z hi)) rows"
      using old(1) covers_mono [of a z _ "min a lo" "max z hi"] by (auto simp: bucket_ok_def list_all_iff)
    moreover have "min a lo \<le> max z hi" using row_span_bounds(1) [of r lo hi] assms(1) by (simp add: s)
    ultimately have "bucket_ok (rows @ [r], min a lo, max z hi)" using True by (simp add: bucket_ok_def)
    then show ?thesis using True old(2) by (simp add: place_def Cons b s)
  next
    case False
    then show ?thesis using assms(1) old fresh_bucket_ok [of r lo hi] by (simp add: place_def Cons b s)
  qed
qed

lemma place_rows: "mset (concat (map fst (place (r, s) buckets))) = add_mset r (mset (concat (map fst buckets)))"
  by (cases s; cases buckets) (auto simp: place_def split: prod.splits)

lemma fold_place:
  assumes "list_all (\<lambda>(r, s). row_span r = Some s) xs" "list_all bucket_ok buckets"
  shows "list_all bucket_ok (fold place xs buckets)"
    "mset (concat (map fst (fold place xs buckets))) = mset (map fst xs) + mset (concat (map fst buckets))"
  using assms
proof (induction xs arbitrary: buckets)
  case (Cons x xs)
  obtain r s where x: "x = (r, s)" by (cases x)
  {
    case 1
    then show ?case using Cons.IH(1) [of "place (r, s) buckets"] place_ok [of r s buckets] by (simp add: x)
  next
    case 2
    then show ?case using Cons.IH(2) [of "place (r, s) buckets"] place_ok [of r s buckets] place_rows [of r s buckets]
      by (simp add: x)
  }
qed simp_all

lemma timestamped_spans: "list_all (\<lambda>(r, s). row_span r = Some s) (timestamped rows)"
  unfolding timestamped_def by (induction rows) (auto split: option.splits simp: map_option_case)

lemma timestamped_rows: "mset (map fst (timestamped rows)) + mset (filter (\<lambda>r. row_span r = None) rows) = mset rows"
proof (induction rows)
  case (Cons r rows)
  then show ?case by (cases "row_span r") (simp_all add: timestamped_def)
qed (simp add: timestamped_def)

lemma concat_rev_mset: "mset (concat (rev xss)) = mset (concat xss)"
  by (induction xss) simp_all

lemma bucket_rows: "mset (concat (map fst (bucket_by_window rows))) = mset rows"
proof -
  let ?sorted = "sort_key (\<lambda>x. fst (snd x)) (timestamped rows)"
  have spans: "list_all (\<lambda>(r, s). row_span r = Some s) ?sorted" using timestamped_spans by (simp add: list_all_iff)
  have "mset (concat (map fst (fold place ?sorted []))) = mset (map fst ?sorted)"
    using fold_place(2) [OF spans, of "[]"] by simp
  moreover have "mset (map fst ?sorted) = mset (map fst (timestamped rows))" by simp
  moreover have "fst \<circ> (\<lambda>(b, bounds). (b, Some bounds)) = (fst :: row list \<times> span \<Rightarrow> row list)" by auto
  moreover have "concat (map (fst \<circ> (\<lambda>r. ([r], None :: span option))) rs) = rs" for rs :: "row list"
    by (induction rs) auto
  ultimately show ?thesis
    using timestamped_rows [of rows] by (simp add: bucket_by_window_def rev_map [symmetric] concat_rev_mset)
qed

lemma bucket_window_ok:
  assumes "(b, Some ab) \<in> set (bucket_by_window rows)"
  shows "bucket_ok (b, ab)"
proof -
  let ?sorted = "sort_key (\<lambda>x. fst (snd x)) (timestamped rows)"
  have "list_all (\<lambda>(r, s). row_span r = Some s) ?sorted" using timestamped_spans by (simp add: list_all_iff)
  then have "list_all bucket_ok (fold place ?sorted [])" by (rule fold_place(1)) simp
  then show ?thesis using assms by (auto simp: bucket_by_window_def list_all_iff)
qed

text \<open>C19: packing the observations of one workload and environment into windows loses and repeats no row, and every
  window is a valid observation window (at most 31 days) that covers each of its rows up to 31 days before the
  row's last time; a row without a timestamp is alone, without a window.\<close>

theorem windows_partition_the_rows:
  "mset (concat (map fst (bucket_by_window rows))) = mset rows \<and>
   list_all (\<lambda>(b, w). case w of
       None \<Rightarrow> length b = 1 \<and> row_span (hd b) = None
     | Some ab \<Rightarrow> fst ab \<le> snd ab \<and> snd ab - fst ab \<le> MAX_OBSERVATION_WINDOW \<and> list_all (covers ab) b) (bucket_by_window rows)"
proof
  show "mset (concat (map fst (bucket_by_window rows))) = mset rows" by (rule bucket_rows)
  show "list_all (\<lambda>(b, w). case w of None \<Rightarrow> length b = 1 \<and> row_span (hd b) = None
     | Some ab \<Rightarrow> fst ab \<le> snd ab \<and> snd ab - fst ab \<le> MAX_OBSERVATION_WINDOW \<and> list_all (covers ab) b) (bucket_by_window rows)"
    unfolding list_all_iff
  proof (intro ballI)
    fix x
    assume x: "x \<in> set (bucket_by_window rows)"
    obtain b w where bw: "x = (b, w)" by (cases x)
    show "case x of (b, w) \<Rightarrow> (case w of None \<Rightarrow> length b = 1 \<and> row_span (hd b) = None
     | Some ab \<Rightarrow> fst ab \<le> snd ab \<and> snd ab - fst ab \<le> MAX_OBSERVATION_WINDOW \<and> Ball (set b) (covers ab))"
    proof (cases w)
      case None
      then show ?thesis using x by (auto simp: bw bucket_by_window_def)
    next
      case (Some ab)
      then show ?thesis using bucket_window_ok [of b ab rows] x by (simp add: bw bucket_ok_def list_all_iff)
    qed
  qed
qed

text \<open>An observation that some valid context admits is admitted by the window of its bucket.\<close>

lemma covered_times:
  assumes "covers ab (obs, Some k)" "io_last_seen obs = Some l" "case io_first_seen obs of None \<Rightarrow> True | Some f \<Rightarrow> f \<le> l"
    "l - k \<le> MAX_OBSERVATION_WINDOW" "k - l \<le> MAX_OBSERVATION_WINDOW"
  shows "fst ab \<le> l \<and> l \<le> snd ab \<and> fst ab \<le> k \<and> k \<le> snd ab"
proof -
  obtain lo hi where span: "row_span (obs, Some k) = Some (lo, hi)"
      and ab: "fst ab \<le> max lo (hi - MAX_OBSERVATION_WINDOW)" "hi \<le> snd ab"
    using assms(1) by (auto simp: covers_def split: option.splits)
  have times: "set (row_times (obs, Some k)) = (case io_first_seen obs of None \<Rightarrow> {} | Some f \<Rightarrow> {f}) \<union> {l, k}"
    by (cases "io_first_seen obs") (auto simp: row_times_def assms(2))
  have "hi = max l k"
    using row_span_bounds(2) [OF span, of l] row_span_bounds(2) [OF span, of k] row_span_bounds(4) [OF span] assms(3)
    unfolding times by (auto split: option.splits)
  moreover have "lo \<le> l" "lo \<le> k"
    using row_span_bounds(2) [OF span, of l] row_span_bounds(2) [OF span, of k] unfolding times by simp_all
  ultimately show ?thesis using ab assms(4,5) by linarith
qed

lemma bucket_of_row:
  assumes "r \<in> set rows"
  obtains b w where "(b, w) \<in> set (bucket_by_window rows)" "r \<in> set b"
proof -
  have "set (concat (map fst (bucket_by_window rows))) = set rows"
    using bucket_rows [of rows] by (metis set_mset_mset)
  then have "r \<in> set (concat (map fst (bucket_by_window rows)))" using assms by simp
  then obtain b where "b \<in> set (bucket_by_window rows)" "r \<in> set (fst b)" unfolding set_concat by auto
  then show ?thesis using that [of "fst b" "snd b"] by simp
qed

lemma untimed_bucket: "(b, None) \<in> set (bucket_by_window rows) \<Longrightarrow> \<exists>r. b = [r] \<and> row_span r = None"
  by (auto simp: bucket_by_window_def)

end
