(* ===== verification/DeploymentVisibility.thy ===== *)
theory DeploymentVisibility
  imports DeploymentWindows
begin

text \<open>
  What the three paths return for one graph under different observation contexts, and the promise the module
  makes of it: an evidence id that an answer for a requested context shows is also reachable for the callers
  that have no context.
\<close>

section \<open>Members of the paths\<close>

text \<open>The same resolution under two context ids.\<close>

definition twin :: "(bytes \<Rightarrow> string) \<Rightarrow> string \<Rightarrow> string \<Rightarrow> string \<Rightarrow> string \<Rightarrow> deployment_resolution \<Rightarrow> deployment_resolution \<Rightarrow> bool" where
  "twin H snapshot c1 c2 key m1 m2 \<longleftrightarrow> in_group H snapshot c1 key m1 \<and> in_group H snapshot c2 key m2 \<and>
     dpr_status m1 = dpr_status m2 \<and> dpr_candidates m1 = dpr_candidates m2 \<and>
     dpr_supporting m1 = dpr_supporting m2 \<and> dpr_conflicting m1 = dpr_conflicting m2"

text \<open>A resolution of a workload, naming only declared services when it resolves and none when it does not.\<close>

definition names_declared :: "string set \<Rightarrow> deployment_resolution \<Rightarrow> bool" where
  "names_declared declared m \<longleftrightarrow>
     (dpr_status m = UNRESOLVED \<longrightarrow> set (dpr_candidates m) \<inter> declared = {}) \<and>
     (is_resolved (dpr_status m) \<longrightarrow> set (dpr_candidates m) \<subseteq> declared)"

lemma map_of_key: "map_of d k = Some v \<Longrightarrow> k \<in> fst ` set d"
  by (metis map_of_eq_None_iff option.distinct(1))

lemma named_result_member:
  assumes "named_result H (map_of names) how (compute_deployment_resolution_id H snapshot context_id (workload_group_key (wr_id w))) w
      named evidence = Inr q" "m \<in> set (pr_resolutions q)"
  shows "in_group H snapshot context_id (workload_group_key (wr_id w)) m \<and> names_declared (fst ` set names) m"
  using assms
  by (auto simp: named_result_def unsettled_result_Inr settled_result_Inr in_group_def unsettled_def settled_def
      names_declared_def map_of_eq_None_iff dest: map_of_key split: if_splits option.splits)

lemma named_result_twin:
  assumes "named_result H lookup how (compute_deployment_resolution_id H snapshot c1 (workload_group_key (wr_id w))) w
      named evidence = Inr q1"
    "named_result H lookup how (compute_deployment_resolution_id H snapshot c2 (workload_group_key (wr_id w))) w
      named evidence = Inr q2" "m1 \<in> set (pr_resolutions q1)"
  shows "\<exists>m2\<in>set (pr_resolutions q2). twin H snapshot c1 c2 (workload_group_key (wr_id w)) m1 m2"
  using assms
  by (auto simp: named_result_def unsettled_result_Inr settled_result_Inr twin_def in_group_def unsettled_def settled_def
      split: if_splits option.splits)

lemma join_results_member: "m \<in> set (pr_resolutions (join_results rs)) \<longleftrightarrow> (\<exists>q\<in>set rs. m \<in> set (pr_resolutions q))"
  by (auto simp: join_results_def)

subsection \<open>Path A\<close>

lemma path_a_step_Inr:
  assumes "path_a_step H lookup snapshot context_id w = Inr q" "m \<in> set (pr_resolutions q)"
  obtains ref where "workload_ref_of w = Inr ref" "filter (\<lambda>c. wc_annotation c \<noteq> None) (cw_contributions w) \<noteq> []"
    "named_result H lookup RESOLVED_EXPLICIT (compute_deployment_resolution_id H snapshot context_id (workload_group_key (wr_id ref))) ref
       (sorted_set (somes (map wc_annotation (filter (\<lambda>c. wc_annotation c \<noteq> None) (cw_contributions w)))))
       (sorted_set (concat (map wc_evidence (filter (\<lambda>c. wc_annotation c \<noteq> None) (cw_contributions w))))) = Inr q"
proof -
  have ne: "filter (\<lambda>c. wc_annotation c \<noteq> None) (cw_contributions w) \<noteq> []"
    using assms by (auto simp: path_a_step_def empty_result_def)
  then obtain ref where ref: "workload_ref_of w = Inr ref"
    using assms(1) by (auto simp: path_a_step_def Let_def and_then_Inr)
  show ?thesis
    by (rule that [OF ref ne]) (use assms(1) ne ref workload_ref_of_id [OF ref] in
      \<open>simp only: path_a_step_def Let_def if_False and_then_simps compute_group_key_simps\<close>)
qed

lemma path_a_Inr:
  assumes "resolve_path_a H ws lookup snapshot context_id = Inr q" "m \<in> set (pr_resolutions q)"
  obtains w p where "w \<in> set ws" "path_a_step H lookup snapshot context_id w = Inr p" "m \<in> set (pr_resolutions p)"
    "set (pr_resolutions p) \<subseteq> set (pr_resolutions q)"
proof -
  obtain rs where rs: "traverse (path_a_step H lookup snapshot context_id) ws = Inr rs" "q = join_results rs"
    using assms(1) by (auto simp: resolve_path_a_def and_then_Inr)
  then obtain p where p: "p \<in> set rs" "m \<in> set (pr_resolutions p)" using assms(2) by (auto simp: join_results_member)
  then obtain w where "w \<in> set ws" "path_a_step H lookup snapshot context_id w = Inr p" using traverse_mem [OF rs(1)] by auto
  then show ?thesis using that p rs(2) join_results_member by blast
qed

lemma path_a_step_in:
  assumes "resolve_path_a H ws lookup snapshot context_id = Inr q" "w \<in> set ws"
  shows "\<exists>p. path_a_step H lookup snapshot context_id w = Inr p \<and> set (pr_resolutions p) \<subseteq> set (pr_resolutions q)"
proof -
  obtain rs where rs: "traverse (path_a_step H lookup snapshot context_id) ws = Inr rs" "q = join_results rs"
    using assms(1) by (auto simp: resolve_path_a_def and_then_Inr)
  then obtain p where "p \<in> set rs" "path_a_step H lookup snapshot context_id w = Inr p"
    using traverse_mem' [OF rs(1) assms(2)] by auto
  then show ?thesis using rs(2) join_results_member by blast
qed

lemma path_a_member:
  assumes "resolve_path_a H ws (map_of names) snapshot context_id = Inr q" "m \<in> set (pr_resolutions q)"
  shows "\<exists>w\<in>set ws. in_group H snapshot context_id (workload_group_key (cw_id w)) m \<and> names_declared (fst ` set names) m"
  using assms
proof (rule path_a_Inr)
  fix w p
  assume w: "w \<in> set ws" and p: "path_a_step H (map_of names) snapshot context_id w = Inr p" and m: "m \<in> set (pr_resolutions p)"
  from p m show ?thesis
  proof (rule path_a_step_Inr)
    fix ref
    assume ref: "workload_ref_of w = Inr ref" and r: "named_result H (map_of names) RESOLVED_EXPLICIT
       (compute_deployment_resolution_id H snapshot context_id (workload_group_key (wr_id ref))) ref
       (sorted_set (somes (map wc_annotation (filter (\<lambda>c. wc_annotation c \<noteq> None) (cw_contributions w)))))
       (sorted_set (concat (map wc_evidence (filter (\<lambda>c. wc_annotation c \<noteq> None) (cw_contributions w))))) = Inr p"
    show ?thesis using named_result_member [OF r m] w workload_ref_of_id [OF ref] by auto
  qed
qed

lemma path_a_twin:
  assumes "resolve_path_a H ws lookup snapshot c1 = Inr q1" "resolve_path_a H ws lookup snapshot c2 = Inr q2"
    "m1 \<in> set (pr_resolutions q1)"
  shows "\<exists>key. \<exists>m2\<in>set (pr_resolutions q2). twin H snapshot c1 c2 key m1 m2"
  using assms(1,3)
proof (rule path_a_Inr)
  fix w p
  assume w: "w \<in> set ws" and p: "path_a_step H lookup snapshot c1 w = Inr p" and m: "m1 \<in> set (pr_resolutions p)"
  obtain p2 where p2: "path_a_step H lookup snapshot c2 w = Inr p2" "set (pr_resolutions p2) \<subseteq> set (pr_resolutions q2)"
    using path_a_step_in [OF assms(2) w] by blast
  from p m show ?thesis
  proof (rule path_a_step_Inr)
    fix ref
    let ?annotated = "filter (\<lambda>c. wc_annotation c \<noteq> None) (cw_contributions w)"
    let ?named = "sorted_set (somes (map wc_annotation ?annotated))" and ?evidence = "sorted_set (concat (map wc_evidence ?annotated))"
    assume ref: "workload_ref_of w = Inr ref" and ne: "?annotated \<noteq> []"
      and r: "named_result H lookup RESOLVED_EXPLICIT
       (compute_deployment_resolution_id H snapshot c1 (workload_group_key (wr_id ref))) ref ?named ?evidence = Inr p"
    have r2: "named_result H lookup RESOLVED_EXPLICIT
       (compute_deployment_resolution_id H snapshot c2 (workload_group_key (wr_id ref))) ref ?named ?evidence = Inr p2"
      using p2(1) ne ref workload_ref_of_id [OF ref]
      by (simp only: path_a_step_def Let_def if_False and_then_simps compute_group_key_simps)
    show ?thesis using named_result_twin [OF r r2 m] p2(2) by blast
  qed
qed

subsection \<open>Path B\<close>

definition mapping_keys :: "mapping_document option \<Rightarrow> string set" where
  "mapping_keys document = (case document of None \<Rightarrow> {}
     | Some d \<Rightarrow> (\<lambda>e. mapping_group_key (md_artifact_id d) (md_artifact_revision d) (me_mapping_id e)) ` set (md_entries d))"

lemma path_b_Inr:
  assumes "resolve_path_b H document sources resolve lookup snapshot context_id = Inr q" "m \<in> set (pr_resolutions q)"
  obtains (grouped) d records i p where "document = Some d" "traverse (mapping_record_of H d sources resolve) (md_entries d) = Inr records"
      "i \<in> set (map cw_id (somes (map mp_workload records)))" "path_b_group H lookup snapshot context_id records i = Inr p"
      "m \<in> set (pr_resolutions p)"
  | (unmatched) d records r p where "document = Some d" "traverse (mapping_record_of H d sources resolve) (md_entries d) = Inr records"
      "r \<in> set records" "mp_workload r = None" "path_b_unmatched H d snapshot context_id r = Inr p" "m \<in> set (pr_resolutions p)"
proof (cases document)
  case None
  then show ?thesis using assms by (auto simp: resolve_path_b_def empty_result_def)
next
  case (Some d)
  from assms(1) obtain records gs us where
    r: "traverse (mapping_record_of H d sources resolve) (md_entries d) = Inr records"
    and g: "traverse (path_b_group H lookup snapshot context_id records) (sorted_set (map cw_id (somes (map mp_workload records)))) = Inr gs"
    and u: "traverse (path_b_unmatched H d snapshot context_id)
        (sort_key (\<lambda>r. (md_artifact_id d, md_artifact_revision d, me_mapping_id (mp_entry r)))
          (filter (\<lambda>r. mp_workload r = None) records)) = Inr us"
    and q: "q = join_results (gs @ us)"
    unfolding resolve_path_b_def Some by (auto simp: and_then_Inr)
  obtain p where p: "p \<in> set gs \<or> p \<in> set us" "m \<in> set (pr_resolutions p)"
    using assms(2) unfolding q join_results_member by auto
  from p(1) show ?thesis
  proof
    assume "p \<in> set gs"
    then show ?thesis using grouped [OF Some r _ _ p(2)] traverse_mem [OF g] by (metis set_sorted_set)
  next
    assume "p \<in> set us"
    then obtain x where "x \<in> set (sort_key (\<lambda>r. (md_artifact_id d, md_artifact_revision d, me_mapping_id (mp_entry r)))
          (filter (\<lambda>r. mp_workload r = None) records))" "path_b_unmatched H d snapshot context_id x = Inr p"
      using traverse_mem [OF u] by metis
    then show ?thesis using unmatched [OF Some r _ _ _ p(2)] by auto
  qed
qed

lemma path_b_parts:
  assumes "resolve_path_b H (Some d) sources resolve lookup snapshot context_id = Inr q"
    "traverse (mapping_record_of H d sources resolve) (md_entries d) = Inr records"
  shows "i \<in> set (map cw_id (somes (map mp_workload records))) \<Longrightarrow>
      \<exists>p. path_b_group H lookup snapshot context_id records i = Inr p \<and> set (pr_resolutions p) \<subseteq> set (pr_resolutions q)"
    "r \<in> set records \<Longrightarrow> mp_workload r = None \<Longrightarrow>
      \<exists>p. path_b_unmatched H d snapshot context_id r = Inr p \<and> set (pr_resolutions p) \<subseteq> set (pr_resolutions q)"
proof -
  from assms obtain gs us where
    g: "traverse (path_b_group H lookup snapshot context_id records) (sorted_set (map cw_id (somes (map mp_workload records)))) = Inr gs"
    and u: "traverse (path_b_unmatched H d snapshot context_id)
        (sort_key (\<lambda>r. (md_artifact_id d, md_artifact_revision d, me_mapping_id (mp_entry r)))
          (filter (\<lambda>r. mp_workload r = None) records)) = Inr us"
    and q: "q = join_results (gs @ us)"
    unfolding resolve_path_b_def by (auto simp: and_then_Inr)
  have sub: "set (pr_resolutions p) \<subseteq> set (pr_resolutions q)" if "p \<in> set gs \<union> set us" for p
    using that unfolding q by (auto simp: join_results_member)
  show "i \<in> set (map cw_id (somes (map mp_workload records))) \<Longrightarrow>
      \<exists>p. path_b_group H lookup snapshot context_id records i = Inr p \<and> set (pr_resolutions p) \<subseteq> set (pr_resolutions q)"
    using traverse_mem' [OF g, of i] sub by (metis UnI1 set_sorted_set)
  show "r \<in> set records \<Longrightarrow> mp_workload r = None \<Longrightarrow>
      \<exists>p. path_b_unmatched H d snapshot context_id r = Inr p \<and> set (pr_resolutions p) \<subseteq> set (pr_resolutions q)"
  proof -
    assume "r \<in> set records" "mp_workload r = None"
    then obtain p where "p \<in> set us" "path_b_unmatched H d snapshot context_id r = Inr p"
      using traverse_mem' [OF u, of r] by auto
    then show ?thesis using sub [of p] by auto
  qed
qed

text \<open>A group of Path B, with its records.\<close>

definition workload_records :: "mapping_record list \<Rightarrow> string \<Rightarrow> mapping_record list" where
  "workload_records records i = filter (\<lambda>r. map_option cw_id (mp_workload r) = Some i) records"

lemma workload_records_hd:
  assumes "i \<in> set (map cw_id (somes (map mp_workload records)))"
  obtains r w where "hd (workload_records records i) = r" "r \<in> set records" "mp_workload r = Some w" "cw_id w = i"
proof -
  have "workload_records records i \<noteq> []"
    using assms by (force simp: workload_records_def filter_empty_conv)
  then have "hd (workload_records records i) \<in> set (workload_records records i)" by (rule hd_in_set)
  then show ?thesis using that by (auto simp: workload_records_def)
qed

lemma path_b_group_Inr:
  assumes "path_b_group H lookup snapshot context_id records i = Inr p" "i \<in> set (map cw_id (somes (map mp_workload records)))"
  obtains r w ref where "hd (workload_records records i) = r" "r \<in> set records" "mp_workload r = Some w" "cw_id w = i"
    "workload_ref_of w = Inr ref" "wr_id ref = i"
    "named_result H lookup RESOLVED_CONFIGURED (compute_deployment_resolution_id H snapshot context_id (workload_group_key (wr_id ref))) ref
       (sorted_set (map (\<lambda>r. me_service_id (mp_entry r)) (workload_records records i)))
       (sorted_set (map mp_evidence_id (workload_records records i))) = Inr p"
proof -
  obtain r w where r: "hd (workload_records records i) = r" "r \<in> set records" "mp_workload r = Some w" "cw_id w = i"
    by (rule workload_records_hd [OF assms(2)])
  note unfolded = assms(1) [unfolded path_b_group_def Let_def workload_records_def [symmetric] r(1) r(3) option.sel]
  then obtain ref where ref: "workload_ref_of w = Inr ref" unfolding and_then_Inr by (elim exE conjE)
  have i: "wr_id ref = i" using workload_ref_of_id [OF ref] r(4) by simp
  show ?thesis
    by (rule that [OF r ref i]) (use unfolded in \<open>simp only: ref and_then_simps compute_group_key_simps i\<close>)
qed

lemma mapping_records:
  assumes "traverse (mapping_record_of H d sources resolve) (md_entries d) = Inr records" "r \<in> set records"
  shows "mp_entry r \<in> set (md_entries d) \<and> mp_evidence_id r = mapping_evidence_id H d (mp_entry r) \<and>
    mp_workload r \<in> insert None (range resolve)"
  using traverse_mem [OF assms] by (auto simp: mapping_record_of_def and_then_Inr split: if_splits option.splits)

lemma path_b_member:
  assumes "resolve_path_b H document sources resolve (map_of names) snapshot context_id = Inr q" "m \<in> set (pr_resolutions q)"
  shows "(\<exists>w i. resolve i = Some w \<and> in_group H snapshot context_id (workload_group_key (cw_id w)) m \<and> names_declared (fst ` set names) m) \<or>
    (\<exists>key\<in>mapping_keys document. in_group H snapshot context_id key m \<and> dpr_workload m = None \<and> dpr_status m = UNRESOLVED)"
  using assms
proof (cases rule: path_b_Inr)
  case (grouped d records i p)
  from grouped(4,3) show ?thesis
  proof (rule path_b_group_Inr)
    fix r w ref
    assume r: "r \<in> set records" "mp_workload r = Some w" "cw_id w = i" and ref: "wr_id ref = i"
      and n: "named_result H (map_of names) RESOLVED_CONFIGURED
       (compute_deployment_resolution_id H snapshot context_id (workload_group_key (wr_id ref))) ref
       (sorted_set (map (\<lambda>r. me_service_id (mp_entry r)) (workload_records records i)))
       (sorted_set (map mp_evidence_id (workload_records records i))) = Inr p"
    obtain j where "resolve j = Some w" using mapping_records [OF grouped(2) r(1)] r(2) by auto
    then show ?thesis using named_result_member [OF n grouped(5)] r(3) ref by metis
  qed
next
  case (unmatched d records r p)
  have "mp_entry r \<in> set (md_entries d)" using mapping_records [OF unmatched(2,3)] by simp
  let ?key = "mapping_group_key (md_artifact_id d) (md_artifact_revision d) (me_mapping_id (mp_entry r))"
  have "?key \<in> mapping_keys document" using \<open>mp_entry r \<in> _\<close> by (simp add: mapping_keys_def unmatched(1))
  moreover have "in_group H snapshot context_id ?key m \<and> dpr_workload m = None \<and> dpr_status m = UNRESOLVED"
    using unmatched(5,6) by (auto simp: path_b_unmatched_def unsettled_result_Inr in_group_def unsettled_def)
  ultimately show ?thesis by blast
qed

lemma in_group_workload: "in_group H snapshot context_id (workload_group_key w) m \<Longrightarrow> dpr_workload m \<noteq> None"
proof
  assume g: "in_group H snapshot context_id (workload_group_key w) m" "dpr_workload m = None"
  then have "(\<exists>i. workload_group_key w = otel_group_key i) \<or> (\<exists>a v j. workload_group_key w = mapping_group_key a v j)"
    by (simp add: in_group_def)
  then show False by (elim disjE exE) (simp_all add: group_keys_disjoint)
qed

lemma in_group_workload_unique:
  "in_group H snapshot context_id (workload_group_key w) m \<Longrightarrow> in_group H snapshot context_id key m \<Longrightarrow> key = workload_group_key w"
proof -
  assume g: "in_group H snapshot context_id (workload_group_key w) m" "in_group H snapshot context_id key m"
  obtain ref where "dpr_workload m = Some ref" using in_group_workload [OF g(1)] by auto
  then show "key = workload_group_key w" using g by (simp add: in_group_def)
qed

lemma path_b_twin:
  assumes "resolve_path_b H document sources resolve lookup snapshot c1 = Inr q1"
    "resolve_path_b H document sources resolve lookup snapshot c2 = Inr q2" "m1 \<in> set (pr_resolutions q1)"
  shows "\<exists>key. (dpr_workload m1 = None \<longrightarrow> key \<in> mapping_keys document) \<and>
    (\<exists>m2\<in>set (pr_resolutions q2). twin H snapshot c1 c2 key m1 m2)"
  using assms(1,3)
proof (cases rule: path_b_Inr)
  case (grouped d records i p)
  obtain p2 where p2: "path_b_group H lookup snapshot c2 records i = Inr p2" "set (pr_resolutions p2) \<subseteq> set (pr_resolutions q2)"
    using path_b_parts(1) [OF assms(2) [unfolded grouped(1)] grouped(2,3)] by blast
  let ?named = "sorted_set (map (\<lambda>r. me_service_id (mp_entry r)) (workload_records records i))"
    and ?evidence = "sorted_set (map mp_evidence_id (workload_records records i))"
  from grouped(4,3) show ?thesis
  proof (rule path_b_group_Inr)
    fix r w ref
    assume r: "hd (workload_records records i) = r" "mp_workload r = Some w" and ref: "workload_ref_of w = Inr ref"
      and n: "named_result H lookup RESOLVED_CONFIGURED
        (compute_deployment_resolution_id H snapshot c1 (workload_group_key (wr_id ref))) ref ?named ?evidence = Inr p"
    from p2(1) grouped(3) show ?thesis
    proof (rule path_b_group_Inr)
      fix r' w' ref'
      assume "hd (workload_records records i) = r'" "mp_workload r' = Some w'" "workload_ref_of w' = Inr ref'"
        and n2: "named_result H lookup RESOLVED_CONFIGURED
        (compute_deployment_resolution_id H snapshot c2 (workload_group_key (wr_id ref'))) ref' ?named ?evidence = Inr p2"
      then have "ref' = ref" using r ref by simp
      from named_result_twin [OF n n2 [unfolded this] grouped(5)] obtain m2 where m2: "m2 \<in> set (pr_resolutions p2)"
        "twin H snapshot c1 c2 (workload_group_key (wr_id ref)) m1 m2" by blast
      then have "dpr_workload m1 \<noteq> None" using in_group_workload by (auto simp: twin_def)
      moreover have "m2 \<in> set (pr_resolutions q2)" using p2(2) m2(1) by (rule subsetD)
      ultimately show ?thesis using m2(2)
        by (intro exI [of _ "workload_group_key (wr_id ref)"] conjI bexI [of _ m2]) auto
    qed
  qed
next
  case (unmatched d records r p)
  obtain p2 where p2: "path_b_unmatched H d snapshot c2 r = Inr p2" "set (pr_resolutions p2) \<subseteq> set (pr_resolutions q2)"
    using path_b_parts(2) [OF assms(2) [unfolded unmatched(1)] unmatched(2-4)] by blast
  let ?key = "mapping_group_key (md_artifact_id d) (md_artifact_revision d) (me_mapping_id (mp_entry r))"
  let ?m = "\<lambda>c. unsettled (compute_deployment_resolution_id H snapshot c ?key) None UNRESOLVED
      [me_service_id (mp_entry r)] [mp_evidence_id r] [] [DEPLOYMENT_IDENTITY_UNRESOLVED]"
  have "m1 = ?m c1" using unmatched(5,6) by (auto simp: path_b_unmatched_def unsettled_result_Inr)
  moreover have "?m c2 \<in> set (pr_resolutions q2)" using p2 by (auto simp: path_b_unmatched_def unsettled_result_Inr)
  moreover have "twin H snapshot c1 c2 ?key (?m c1) (?m c2)" by (auto simp: twin_def in_group_def unsettled_def)
  moreover have "?key \<in> mapping_keys document"
    using mapping_records [OF unmatched(2,3)] by (simp add: mapping_keys_def unmatched(1))
  ultimately show ?thesis by blast
qed

subsection \<open>Path C\<close>

definition applicable_outcome :: "scoped_outcome \<Rightarrow> bool" where
  "applicable_outcome o' = (so_outcome o' \<in> {Candidate, Contradiction})"

lemma evaluate_scoped:
  assumes "evaluate_observation lib rd c snapshot context_id obs = Inr (Inr o')"
  obtains pod owner w where "str_true (io_k8s_pod_uid obs)" "rd_pods_by_uid rd (the (io_k8s_pod_uid obs)) = [pod]"
    "rd_owners_of_pod rd (cp_pod_id pod) = [owner]" "rd_workload rd (ow_workload_id owner) = Some w" "so_workload o' = w"
    "so_evidence o' = cp_evidence pod @ ow_evidence owner @ [io_id obs]"
    "applicable_outcome o' \<longrightarrow> observation_context_limitation lib c obs pod = None"
    "case so_service_id o' of None \<Rightarrow> \<not> applicable_outcome o'
     | Some s \<Rightarrow> applicable_outcome o' \<and> (\<exists>d i. rd_identity rd i = Some d \<and> s = di_service_id d \<and> so_service_name o' = Some (di_name d))"
proof -
  have uid: "str_true (io_k8s_pod_uid obs)"
    using assms by (auto simp: evaluate_observation_def Let_def and_then_Inr split: if_splits)
  note e1 = assms [unfolded evaluate_observation_def Let_def, simplified uid not_True_eq_False if_False]
  obtain pod where pods: "rd_pods_by_uid rd (the (io_k8s_pod_uid obs)) = [pod]"
    using e1 by (auto simp: and_then_Inr split: list.splits if_splits)
  note e2 = e1 [simplified pods list.case]
  obtain owner where owners: "rd_owners_of_pod rd (cp_pod_id pod) = [owner]"
    using e2 by (auto simp: and_then_Inr split: list.splits if_splits)
  obtain w where w: "rd_workload rd (ow_workload_id owner) = Some w"
    using e2 by (auto simp: owners and_then_Inr split: option.splits)
  show ?thesis
  proof (rule that [OF uid pods owners w])
    show "so_workload o' = w" "so_evidence o' = cp_evidence pod @ ow_evidence owner @ [io_id obs]"
      "applicable_outcome o' \<longrightarrow> observation_context_limitation lib c obs pod = None"
      using e2 by (auto simp: owners w and_then_Inr applicable_outcome_def split: option.splits if_splits)
    show "case so_service_id o' of None \<Rightarrow> \<not> applicable_outcome o'
     | Some s \<Rightarrow> applicable_outcome o' \<and> (\<exists>d i. rd_identity rd i = Some d \<and> s = di_service_id d \<and> so_service_name o' = Some (di_name d))"
      using e2 by (auto simp: owners w and_then_Inr applicable_outcome_def resolve_declared_service_id_def
          split: option.splits if_splits prod.splits discovery_status.splits)
  qed
qed

lemma evaluate_other_context:
  assumes "evaluate_observation lib rd c snapshot c1 obs = Inr (Inr o')" "applicable_outcome o'"
    "rd_pods_by_uid rd (the (io_k8s_pod_uid obs)) = [pod]" "observation_context_limitation lib c' obs pod = None"
  shows "evaluate_observation lib rd c' snapshot c2 obs = Inr (Inr o')"
proof -
  obtain owner w where e: "str_true (io_k8s_pod_uid obs)" "rd_owners_of_pod rd (cp_pod_id pod) = [owner]"
      "rd_workload rd (ow_workload_id owner) = Some w" "observation_context_limitation lib c obs pod = None"
    using assms(1-3) by (metis evaluate_scoped list.inject)
  show ?thesis using assms(1) by (simp add: evaluate_observation_def Let_def e assms(3,4))
qed

lemma somes_Nil_iff: "somes xs = [] \<longleftrightarrow> (\<forall>x\<in>set xs. x = None)"
proof (induction xs)
  case (Cons x xs)
  then show ?case by (cases x) simp_all
qed simp

definition well_outcome :: "scoped_outcome \<Rightarrow> bool" where
  "well_outcome o' = ((so_service_id o' \<noteq> None) = applicable_outcome o')"

text \<open>The resolution of a group: applicable exactly when an outcome is, with the evidence and the services of those.\<close>

lemma path_c_group_member:
  assumes "path_c_group H snapshot context_id outcomes w = Inr q" "w \<in> (\<lambda>o'. cw_id (so_workload o')) ` set outcomes"
    "\<forall>o'\<in>set outcomes. well_outcome o'"
  obtains m where "pr_resolutions q = [m]" "in_group H snapshot context_id (workload_group_key w) m"
    "applicable m \<longleftrightarrow> (\<exists>o'\<in>set outcomes. cw_id (so_workload o') = w \<and> applicable_outcome o')"
    "applicable m \<longrightarrow> set (dpr_supporting m) \<union> set (dpr_conflicting m) =
       (\<Union>o'\<in>{o'\<in>set outcomes. cw_id (so_workload o') = w \<and> applicable_outcome o'}. set (so_evidence o'))"
    "set (dpr_candidates m) = {s. \<exists>o'\<in>set outcomes. cw_id (so_workload o') = w \<and> so_service_id o' = Some s}"
proof -
  let ?ms = "group_outcomes outcomes w"
  have hd_in: "hd ?ms \<in> set ?ms" using assms(2) by (intro hd_in_set) (auto simp: group_outcomes_def filter_empty_conv)
  then have w: "cw_id (so_workload (hd ?ms)) = w" by (simp add: group_outcomes_def)
  have ref: "wr_id ref = w" if "workload_ref_of (so_workload (hd ?ms)) = Inr ref" for ref
    using workload_ref_of_id [OF that] w by simp
  have app: "set (applicable_outcomes ?ms) = {o'\<in>set outcomes. cw_id (so_workload o') = w \<and> applicable_outcome o'}"
    by (auto simp: applicable_outcomes_def group_outcomes_def applicable_outcome_def)
  have ids: "so_service_id o' \<noteq> None \<longleftrightarrow> applicable_outcome o'" if "o' \<in> set ?ms" for o'
    using assms(3) that by (auto simp: group_outcomes_def well_outcome_def)
  have named: "set (somes (map so_service_id (applicable_outcomes ?ms))) =
      {s. \<exists>o'\<in>set outcomes. cw_id (so_workload o') = w \<and> so_service_id o' = Some s}"
    using ids by (force simp: applicable_outcomes_def group_outcomes_def applicable_outcome_def image_iff)
  have cands: "set (map fst (candidate_pairs ?ms)) = {s. \<exists>o'\<in>set outcomes. cw_id (so_workload o') = w \<and> so_service_id o' = Some s}"
    if "\<not> list_ex (\<lambda>o'. so_outcome o' = Contradiction) ?ms"
  proof -
    have "so_outcome o' = Candidate \<longleftrightarrow> so_service_id o' \<noteq> None" if "o' \<in> set ?ms" for o'
      using ids [OF that] that \<open>\<not> list_ex _ _\<close> by (auto simp: applicable_outcome_def list_ex_iff)
    then show ?thesis by (force simp: candidate_pairs_def group_outcomes_def image_iff)
  qed
  show ?thesis
    using assms(1)
  proof (cases rule: path_c_group_cases)
    case (conflict ref)
    let ?m = "hd (pr_resolutions q)"
    have "\<exists>o'\<in>set outcomes. cw_id (so_workload o') = w \<and> applicable_outcome o'"
      using conflict(2) by (auto simp: list_ex_iff group_outcomes_def applicable_outcome_def)
    then show ?thesis using conflict(3) ref [OF conflict(1)]
      by (intro that [of ?m]) (auto simp: unsettled_result_Inr in_group_def unsettled_def applicable_def app named [simplified])
  next
    case (ambiguous ref)
    let ?m = "hd (pr_resolutions q)"
    have "map fst (candidate_pairs ?ms) \<noteq> []" using ambiguous(3) by auto
    then have "\<exists>s. s \<in> set (map fst (candidate_pairs ?ms))" by (meson list.set_sel(1))
    then have "\<exists>o'\<in>set outcomes. cw_id (so_workload o') = w \<and> applicable_outcome o'"
      using ids unfolding cands [OF ambiguous(2)] by (auto simp: group_outcomes_def)
    then show ?thesis using ambiguous(4) ref [OF ambiguous(1)] cands [OF ambiguous(2)]
      by (intro that [of ?m]) (auto simp: unsettled_result_Inr in_group_def unsettled_def applicable_def app)
  next
    case (resolved ref service name)
    let ?m = "hd (pr_resolutions q)"
    have s: "set (map fst (candidate_pairs ?ms)) = {service}" using resolved(3) by (metis empty_set list.simps(15) set_sorted_set)
    then have "\<exists>o'\<in>set outcomes. cw_id (so_workload o') = w \<and> applicable_outcome o'"
      using ids unfolding cands [OF resolved(2)] by (auto simp: group_outcomes_def)
    then show ?thesis using resolved(5) ref [OF resolved(1)] cands [OF resolved(2)] s
      by (intro that [of ?m]) (auto simp: settled_result_Inr in_group_def settled_def applicable_def app)
  next
    case (unresolved ref)
    let ?m = "hd (pr_resolutions q)"
    have "{s. \<exists>o'\<in>set outcomes. cw_id (so_workload o') = w \<and> so_service_id o' = Some s} = {}"
      using cands [OF unresolved(2)] unresolved(3) by simp
    moreover from this have "\<not> (\<exists>o'\<in>set outcomes. cw_id (so_workload o') = w \<and> applicable_outcome o')"
      using ids by (auto simp: group_outcomes_def)
    ultimately show ?thesis using unresolved(4) ref [OF unresolved(1)]
      by (intro that [of ?m]) (auto simp: unsettled_result_Inr in_group_def unsettled_def applicable_def)
  qed
qed

definition scoped_from ::
  "deployment_library \<Rightarrow> path_reads \<Rightarrow> observation_context_ref \<Rightarrow> string \<Rightarrow> string \<Rightarrow> identity_row list \<Rightarrow> scoped_outcome set" where
  "scoped_from lib rd c snapshot context_id observations =
     {o'. \<exists>obs\<in>set observations. evaluate_observation lib rd c snapshot context_id obs = Inr (Inr o')}"

definition evidence_set :: "deployment_resolution \<Rightarrow> string set" where
  "evidence_set m = set (dpr_supporting m) \<union> set (dpr_conflicting m)"

text \<open>What a path C resolution of a workload says, in terms of the outcomes of its observations.\<close>

definition describes_workload ::
  "(bytes \<Rightarrow> string) \<Rightarrow> string \<Rightarrow> string \<Rightarrow> scoped_outcome set \<Rightarrow> string \<Rightarrow> deployment_resolution \<Rightarrow> bool" where
  "describes_workload H snapshot context_id S w m \<longleftrightarrow> in_group H snapshot context_id (workload_group_key w) m \<and>
     (applicable m \<longleftrightarrow> (\<exists>o'\<in>S. cw_id (so_workload o') = w \<and> applicable_outcome o')) \<and>
     (applicable m \<longrightarrow> evidence_set m = (\<Union>o'\<in>{o'\<in>S. cw_id (so_workload o') = w \<and> applicable_outcome o'}. set (so_evidence o'))) \<and>
     set (dpr_candidates m) = {s. \<exists>o'\<in>S. cw_id (so_workload o') = w \<and> so_service_id o' = Some s}"

lemma describes_workloadD:
  assumes "describes_workload H snapshot context_id S w m"
  shows "in_group H snapshot context_id (workload_group_key w) m"
    "o' \<in> S \<Longrightarrow> cw_id (so_workload o') = w \<Longrightarrow> applicable_outcome o' \<Longrightarrow> applicable m \<and> set (so_evidence o') \<subseteq> evidence_set m"
    "o' \<in> S \<Longrightarrow> cw_id (so_workload o') = w \<Longrightarrow> so_service_id o' = Some s \<Longrightarrow> s \<in> set (dpr_candidates m)"
    "applicable m \<Longrightarrow> ref \<in> evidence_set m \<Longrightarrow>
       \<exists>o'\<in>S. cw_id (so_workload o') = w \<and> applicable_outcome o' \<and> ref \<in> set (so_evidence o')"
    "s \<in> set (dpr_candidates m) \<Longrightarrow> \<exists>o'\<in>S. cw_id (so_workload o') = w \<and> so_service_id o' = Some s"
proof -
  note d = assms [unfolded describes_workload_def]
  show "in_group H snapshot context_id (workload_group_key w) m" using d by (elim conjE)
  have app: "applicable m \<longleftrightarrow> (\<exists>o'\<in>S. cw_id (so_workload o') = w \<and> applicable_outcome o')" using d by (elim conjE)
  have ev: "applicable m \<Longrightarrow> evidence_set m =
      (\<Union>o'\<in>{o'\<in>S. cw_id (so_workload o') = w \<and> applicable_outcome o'}. set (so_evidence o'))" using d by (elim conjE) simp
  have cands: "set (dpr_candidates m) = {s. \<exists>o'\<in>S. cw_id (so_workload o') = w \<and> so_service_id o' = Some s}" using d by (elim conjE)
  show "s \<in> set (dpr_candidates m)" if "o' \<in> S" "cw_id (so_workload o') = w" "so_service_id o' = Some s"
    unfolding cands using that by blast
  show "\<exists>o'\<in>S. cw_id (so_workload o') = w \<and> so_service_id o' = Some s" if "s \<in> set (dpr_candidates m)"
    using that unfolding cands by blast
  show "applicable m \<and> set (so_evidence o') \<subseteq> evidence_set m"
    if "o' \<in> S" "cw_id (so_workload o') = w" "applicable_outcome o'"
  proof -
    have a: "applicable m" unfolding app using that by blast
    show ?thesis unfolding ev [OF a] using a that by blast
  qed
  show "\<exists>o'\<in>S. cw_id (so_workload o') = w \<and> applicable_outcome o' \<and> ref \<in> set (so_evidence o')"
    if "applicable m" "ref \<in> evidence_set m"
    using that(2) unfolding ev [OF that(1)] by blast
qed

lemma evaluate_well_outcome: "evaluate_observation lib rd c snapshot context_id obs = Inr (Inr o') \<Longrightarrow> well_outcome o'"
  by (erule evaluate_scoped) (auto simp: well_outcome_def split: option.splits)

lemma path_c_describes:
  assumes "resolve_path_c lib rd observations c snapshot context_id = Inr q"
  shows "m \<in> set (pr_resolutions q) \<Longrightarrow>
      (\<exists>obs\<in>set observations. in_group (dl_sha256 lib) snapshot context_id (otel_group_key (io_id obs)) m \<and> dpr_candidates m = []) \<or>
      (\<exists>o'\<in>scoped_from lib rd c snapshot context_id observations.
         describes_workload (dl_sha256 lib) snapshot context_id (scoped_from lib rd c snapshot context_id observations)
           (cw_id (so_workload o')) m)"
    and "o' \<in> scoped_from lib rd c snapshot context_id observations \<Longrightarrow>
      \<exists>m\<in>set (pr_resolutions q). describes_workload (dl_sha256 lib) snapshot context_id
        (scoped_from lib rd c snapshot context_id observations) (cw_id (so_workload o')) m"
  using assms
proof (atomize (full), cases rule: path_c_Inr)
  case (1 outcomes grouped)
  let ?S = "scoped_from lib rd c snapshot context_id observations" and ?H = "dl_sha256 lib"
  have S: "set (rights outcomes) = ?S"
    using traverse_mem [OF 1(1)] traverse_mem' [OF 1(1)] by (fastforce simp: scoped_from_def)
  have well: "\<forall>o'\<in>set (rights outcomes). well_outcome o'"
    unfolding S by (auto simp: scoped_from_def intro: evaluate_well_outcome)
  have group: "\<exists>m. pr_resolutions p = [m] \<and> describes_workload ?H snapshot context_id ?S w m"
    if p: "path_c_group ?H snapshot context_id (rights outcomes) w = Inr p" and w: "w \<in> (\<lambda>o'. cw_id (so_workload o')) ` ?S" for p w
    using p w [folded S] well
  proof (rule path_c_group_member)
    fix m
    assume "pr_resolutions p = [m]" and d: "in_group ?H snapshot context_id (workload_group_key w) m"
      "applicable m \<longleftrightarrow> (\<exists>o'\<in>set (rights outcomes). cw_id (so_workload o') = w \<and> applicable_outcome o')"
      "applicable m \<longrightarrow> set (dpr_supporting m) \<union> set (dpr_conflicting m) =
         (\<Union>o'\<in>{o'\<in>set (rights outcomes). cw_id (so_workload o') = w \<and> applicable_outcome o'}. set (so_evidence o'))"
      "set (dpr_candidates m) = {s. \<exists>o'\<in>set (rights outcomes). cw_id (so_workload o') = w \<and> so_service_id o' = Some s}"
    moreover have "describes_workload ?H snapshot context_id ?S w m"
      unfolding describes_workload_def evidence_set_def using d [unfolded S] by (intro conjI)
    ultimately show ?thesis by simp
  qed
  have member: "m \<in> set (pr_resolutions q) \<longleftrightarrow> Inl m \<in> set outcomes \<or> (\<exists>p\<in>set grouped. m \<in> set (pr_resolutions p))" for m
    by (simp add: 1(3) join_results_member)
  show "(m \<in> set (pr_resolutions q) \<longrightarrow>
      (\<exists>obs\<in>set observations. in_group ?H snapshot context_id (otel_group_key (io_id obs)) m \<and> dpr_candidates m = []) \<or>
      (\<exists>o'\<in>?S. describes_workload ?H snapshot context_id ?S (cw_id (so_workload o')) m)) \<and>
    (o' \<in> ?S \<longrightarrow> (\<exists>m\<in>set (pr_resolutions q). describes_workload ?H snapshot context_id ?S (cw_id (so_workload o')) m))"
  proof (intro conjI impI)
    assume "m \<in> set (pr_resolutions q)"
    then consider (alone) "Inl m \<in> set outcomes" | (grouped) p where "p \<in> set grouped" "m \<in> set (pr_resolutions p)"
      unfolding member by blast
    then show "(\<exists>obs\<in>set observations. in_group ?H snapshot context_id (otel_group_key (io_id obs)) m \<and> dpr_candidates m = []) \<or>
      (\<exists>o'\<in>?S. describes_workload ?H snapshot context_id ?S (cw_id (so_workload o')) m)"
    proof cases
      case alone
      then obtain obs where obs: "obs \<in> set observations" "evaluate_observation lib rd c snapshot context_id obs = Inr (Inl m)"
        using traverse_mem [OF 1(1)] by blast
      from obs(2) have "in_group ?H snapshot context_id (otel_group_key (io_id obs)) m \<and> dpr_candidates m = []"
        by (rule evaluate_standalone) (metis standalone_ok(2,3))
      then show ?thesis using obs(1) by blast
    next
      case grouped
      obtain w where w: "w \<in> (\<lambda>o'. cw_id (so_workload o')) ` ?S" "path_c_group ?H snapshot context_id (rights outcomes) w = Inr p"
        using traverse_mem [OF 1(2) grouped(1)] S by auto
      show ?thesis using group [OF w(2,1)] grouped(2) w(1) by auto
    qed
  next
    assume "o' \<in> ?S"
    then have w: "cw_id (so_workload o') \<in> (\<lambda>o'. cw_id (so_workload o')) ` ?S" by simp
    then have "cw_id (so_workload o') \<in> set (sorted_set (map (\<lambda>o'. cw_id (so_workload o')) (rights outcomes)))"
      by (simp add: S)
    then obtain p where p: "p \<in> set grouped" "path_c_group ?H snapshot context_id (rights outcomes) (cw_id (so_workload o')) = Inr p"
      using traverse_mem' [OF 1(2)] by blast
    obtain m where m: "pr_resolutions p = [m]" "describes_workload ?H snapshot context_id ?S (cw_id (so_workload o')) m"
      using group [OF p(2) w] by blast
    have "m \<in> set (pr_resolutions q)" unfolding member using p(1) m(1) by (intro disjI2 bexI [of _ p]) simp_all
    with m(2) show "\<exists>m\<in>set (pr_resolutions q). describes_workload ?H snapshot context_id ?S (cw_id (so_workload o')) m"
      by blast
  qed
qed

section \<open>Path C without a context\<close>

text \<open>Every observation that reaches a workload is in a batch whose context is the window of its bucket.\<close>

lemma keyed_rows_mem:
  "(k, r) \<in> set (keyed_rows lib rd observations) \<longleftrightarrow> (\<exists>obs\<in>set observations. \<exists>w captured.
     resolve_workload_group_key lib rd obs = Some (w, captured) \<and> k = (w, io_environment obs) \<and> r = (obs, captured))"
proof -
  have "Some (k, r) = (case resolve_workload_group_key lib rd obs of None \<Rightarrow> None
      | Some (w, captured) \<Rightarrow> Some ((w, io_environment obs), (obs, captured))) \<longleftrightarrow>
    (\<exists>w captured. resolve_workload_group_key lib rd obs = Some (w, captured) \<and> k = (w, io_environment obs) \<and> r = (obs, captured))" for obs
    by (cases "resolve_workload_group_key lib rd obs") auto
  then show ?thesis unfolding keyed_rows_def set_somes set_map image_iff by (simp only:)
qed

lemma window_batch_Inr:
  assumes "window_batch lib environment (b, w) = Inr (bucket, c)"
  shows "bucket = map fst b" "ox_environment c = environment_or_placeholder environment"
    "w = Some ab \<Longrightarrow> ox_start c = fst ab \<and> ox_end c = snd ab"
  using assms by (auto simp: window_batch_def Let_def and_then_Inr dest!: build_observation_context_InrD)

lemma batch_of_observation:
  assumes "bucket_context_free_observations lib rd observations = Inr batches" "obs \<in> set observations"
    "resolve_workload_group_key lib rd obs = Some (w, captured)" "row_span (obs, captured) \<noteq> None"
  shows "\<exists>(bucket, c)\<in>set batches. obs \<in> set bucket \<and> ox_environment c = environment_or_placeholder (io_environment obs) \<and>
    covers (ox_start c, ox_end c) (obs, captured)"
proof -
  let ?keyed = "keyed_rows lib rd observations"
  let ?k = "(w, io_environment obs)" and ?r = "(obs, captured)"
  let ?list = "concat (map (\<lambda>k. map (Pair (snd k)) (bucket_by_window (rows_of_key ?keyed k))) (first_occurrences (map fst ?keyed)))"
  obtain windows alone where t: "traverse (\<lambda>(environment, bucket). window_batch lib environment bucket) ?list = Inr windows"
      and batches: "batches = windows @ alone"
    using assms(1) by (auto simp: bucket_context_free_observations_def Let_def and_then_Inr)
  have k: "(?k, ?r) \<in> set ?keyed" unfolding keyed_rows_mem using assms(2,3) by blast
  then have "?r \<in> set (rows_of_key ?keyed ?k)" by (force simp: rows_of_key_def image_iff)
  then obtain b win where b: "(b, win) \<in> set (bucket_by_window (rows_of_key ?keyed ?k))" "?r \<in> set b" by (rule bucket_of_row)
  obtain ab where ab: "win = Some ab"
    using b assms(4) untimed_bucket [of b "rows_of_key ?keyed ?k"] by (cases win) auto
  have "?k \<in> set (first_occurrences (map fst ?keyed))" using k by (force simp: first_occurrences_def)
  then have "(snd ?k, (b, win)) \<in> set ?list" using b(1) by (force simp: image_iff)
  then obtain y where y: "y \<in> set windows" "window_batch lib (io_environment obs) (b, win) = Inr y"
    using traverse_mem' [OF t, of "(snd ?k, (b, win))"] by auto
  obtain bucket c where c: "y = (bucket, c)" by (cases y)
  note wb = window_batch_Inr [OF y(2) [unfolded c]]
  have "covers ab ?r" using bucket_window_ok [OF b(1) [unfolded ab]] b(2) by (simp add: bucket_ok_def list_all_iff)
  then have "covers (ox_start c, ox_end c) ?r" using wb(3) [OF ab] by simp
  moreover have "obs \<in> set bucket" using b(2) unfolding wb(1) by force
  ultimately show ?thesis using y(1) wb(2) unfolding batches c by auto
qed

lemma context_free_parts:
  assumes "resolve_path_c_context_free lib rd observations snapshot context_id = Inr q"
  obtains batches where "bucket_context_free_observations lib rd observations = Inr batches"
    "\<And>bucket c. (bucket, c) \<in> set batches \<Longrightarrow>
       \<exists>p. resolve_path_c lib rd bucket c snapshot context_id = Inr p \<and> set (pr_resolutions p) \<subseteq> set (pr_resolutions q)"
    "\<And>m. m \<in> set (pr_resolutions q) \<Longrightarrow> \<exists>(bucket, c)\<in>set batches. \<exists>p. resolve_path_c lib rd bucket c snapshot context_id = Inr p \<and>
       m \<in> set (pr_resolutions p)"
    "\<exists>ps. list_all (\<lambda>p. \<exists>(bucket, c)\<in>set batches. resolve_path_c lib rd bucket c snapshot context_id = Inr p) ps \<and> q = join_results ps"
proof -
  obtain batches ps where b: "bucket_context_free_observations lib rd observations = Inr batches"
    and t: "traverse (\<lambda>(bucket, c). resolve_path_c lib rd bucket c snapshot context_id) batches = Inr ps" and q: "q = join_results ps"
    using assms by (auto simp: resolve_path_c_context_free_def and_then_Inr)
  show ?thesis
  proof (rule that [OF b])
    fix bucket c assume "(bucket, c) \<in> set batches"
    then obtain p where "p \<in> set ps" "resolve_path_c lib rd bucket c snapshot context_id = Inr p"
      using traverse_mem' [OF t] by fastforce
    then show "\<exists>p. resolve_path_c lib rd bucket c snapshot context_id = Inr p \<and> set (pr_resolutions p) \<subseteq> set (pr_resolutions q)"
      unfolding q using join_results_member by blast
  next
    fix m assume "m \<in> set (pr_resolutions q)"
    then obtain p where "p \<in> set ps" "m \<in> set (pr_resolutions p)" unfolding q join_results_member by blast
    then show "\<exists>(bucket, c)\<in>set batches. \<exists>p. resolve_path_c lib rd bucket c snapshot context_id = Inr p \<and> m \<in> set (pr_resolutions p)"
      using traverse_mem [OF t, of p] by fastforce
  next
    have "list_all (\<lambda>p. \<exists>(bucket, c)\<in>set batches. resolve_path_c lib rd bucket c snapshot context_id = Inr p) ps"
      unfolding list_all_iff using traverse_mem [OF t] by fastforce
    then show "\<exists>ps. list_all (\<lambda>p. \<exists>(bucket, c)\<in>set batches. resolve_path_c lib rd bucket c snapshot context_id = Inr p) ps \<and> q = join_results ps"
      using q by blast
  qed
qed

section \<open>Two runs over one graph\<close>

text \<open>What the reads of one transaction have in common: the workload and the identity of an id are rows of the graph.\<close>

definition reads_consistent :: "graph_reads \<Rightarrow> bool" where
  "reads_consistent rd \<longleftrightarrow>
     (\<forall>i w. rd_workload rd i = Some w \<longrightarrow> cw_id w = i \<and> i \<in> cw_id ` set (gr_workloads rd)) \<and>
     (\<forall>i d. rd_identity rd i = Some d \<longrightarrow> di_service_id d = i \<and> i \<in> fst ` set (gr_declared rd))"

definition seen_in_order :: "identity_row list \<Rightarrow> bool" where
  "seen_in_order observations = list_all (\<lambda>obs. case (io_first_seen obs, io_last_seen obs) of
     (Some f, Some l) \<Rightarrow> f \<le> l | _ \<Rightarrow> True) observations"

definition run_group_keys :: "graph_reads \<Rightarrow> mapping_document option \<Rightarrow> string set" where
  "run_group_keys rd document = workload_group_key ` cw_id ` set (gr_workloads rd) \<union>
     otel_group_key ` io_id ` set (gr_observations rd) \<union> mapping_keys document"

text \<open>No two groups of a run have the same digest.\<close>

definition collision_free :: "(bytes \<Rightarrow> string) \<Rightarrow> string \<Rightarrow> string \<Rightarrow> string set \<Rightarrow> bool" where
  "collision_free H snapshot context_id keys \<longleftrightarrow> inj_on (compute_deployment_resolution_id H snapshot context_id) keys"

lemma truncate_reads [simp]:
  "rd_workload (path_reads.truncate rd) = rd_workload rd" "rd_identity (path_reads.truncate rd) = rd_identity rd"
  "rd_pods_by_uid (path_reads.truncate rd) = rd_pods_by_uid rd" "rd_owners_of_pod (path_reads.truncate rd) = rd_owners_of_pod rd"
  by (simp_all add: path_reads.defs)

text \<open>The three kinds of members.\<close>

definition member_kind :: "(bytes \<Rightarrow> string) \<Rightarrow> string \<Rightarrow> string \<Rightarrow> graph_reads \<Rightarrow> mapping_document option \<Rightarrow> deployment_resolution \<Rightarrow> bool" where
  "member_kind H snapshot context_id rd document m \<longleftrightarrow>
     (\<exists>w\<in>cw_id ` set (gr_workloads rd). in_group H snapshot context_id (workload_group_key w) m \<and>
        names_declared (fst ` set (gr_declared rd)) m) \<or>
     (\<exists>i\<in>io_id ` set (gr_observations rd). in_group H snapshot context_id (otel_group_key i) m \<and> dpr_candidates m = []) \<or>
     (\<exists>key\<in>mapping_keys document. in_group H snapshot context_id key m \<and> dpr_workload m = None \<and> dpr_status m = UNRESOLVED)"

lemma scoped_from_reads:
  assumes "reads_consistent rd" "o' \<in> scoped_from lib (path_reads.truncate rd) c snapshot context_id observations"
  shows "cw_id (so_workload o') \<in> cw_id ` set (gr_workloads rd)"
    "so_service_id o' = Some s \<Longrightarrow> s \<in> fst ` set (gr_declared rd)" "well_outcome o'"
proof -
  obtain obs where e: "evaluate_observation lib (path_reads.truncate rd) c snapshot context_id obs = Inr (Inr o')"
    using assms(2) by (auto simp: scoped_from_def)
  show "well_outcome o'" using e by (rule evaluate_well_outcome)
  from e show "cw_id (so_workload o') \<in> cw_id ` set (gr_workloads rd)"
    by (rule evaluate_scoped) (use assms(1) in \<open>auto simp: reads_consistent_def\<close>)
  show "s \<in> fst ` set (gr_declared rd)" if "so_service_id o' = Some s"
    using e by (rule evaluate_scoped) (use assms(1) that in \<open>auto simp: reads_consistent_def\<close>)
qed

lemma path_c_member_kind:
  assumes "reads_consistent rd" "set observations \<subseteq> set (gr_observations rd)"
    "resolve_path_c lib (path_reads.truncate rd) observations c snapshot context_id = Inr q" "m \<in> set (pr_resolutions q)"
  shows "member_kind (dl_sha256 lib) snapshot context_id rd document m"
  using path_c_describes(1) [OF assms(3,4)]
proof
  assume "\<exists>obs\<in>set observations. in_group (dl_sha256 lib) snapshot context_id (otel_group_key (io_id obs)) m \<and> dpr_candidates m = []"
  then show ?thesis unfolding member_kind_def using assms(2) by blast
next
  let ?S = "scoped_from lib (path_reads.truncate rd) c snapshot context_id observations"
  assume "\<exists>o'\<in>?S. describes_workload (dl_sha256 lib) snapshot context_id ?S (cw_id (so_workload o')) m"
  then obtain o' where o': "o' \<in> ?S" "describes_workload (dl_sha256 lib) snapshot context_id ?S (cw_id (so_workload o')) m" by blast
  note d = o'(2) [unfolded describes_workload_def]
  have candidates: "set (dpr_candidates m) = {s. \<exists>o''\<in>?S. cw_id (so_workload o'') = cw_id (so_workload o') \<and> so_service_id o'' = Some s}"
    using d by (elim conjE)
  have "set (dpr_candidates m) \<subseteq> fst ` set (gr_declared rd)"
  proof
    fix s assume "s \<in> set (dpr_candidates m)"
    then obtain o'' where "o'' \<in> ?S" "so_service_id o'' = Some s" unfolding candidates by blast
    then show "s \<in> fst ` set (gr_declared rd)" by (rule scoped_from_reads(2) [OF assms(1)])
  qed
  moreover have "set (dpr_candidates m) = {}" if "dpr_status m = UNRESOLVED"
  proof -
    have "\<not> (\<exists>o''\<in>?S. cw_id (so_workload o'') = cw_id (so_workload o') \<and> applicable_outcome o'')"
      using d that by (simp add: applicable_def)
    moreover have "so_service_id o'' = None \<longleftrightarrow> \<not> applicable_outcome o''" if "o'' \<in> ?S" for o''
      using scoped_from_reads(3) [OF assms(1) that] by (auto simp: well_outcome_def)
    ultimately show ?thesis unfolding candidates by fastforce
  qed
  ultimately have "names_declared (fst ` set (gr_declared rd)) m" by (auto simp: names_declared_def)
  moreover have "in_group (dl_sha256 lib) snapshot context_id (workload_group_key (cw_id (so_workload o'))) m"
    using d by (elim conjE)
  ultimately show ?thesis
    unfolding member_kind_def using scoped_from_reads(1) [OF assms(1) o'(1)] by blast
qed

lemma concat_map_mem: "x \<in> set (concat (map (\<lambda>k. map (f k) (g k)) ks)) \<Longrightarrow> \<exists>k y. y \<in> set (g k) \<and> x = f k y"
  by auto

lemma bucket_rows_of_observations:
  assumes "bucket_context_free_observations lib rd observations = Inr batches" "(bucket, c) \<in> set batches"
  shows "set bucket \<subseteq> set observations"
proof -
  let ?keyed = "keyed_rows lib rd observations"
  let ?list = "concat (map (\<lambda>k. map (Pair (snd k)) (bucket_by_window (rows_of_key ?keyed k))) (first_occurrences (map fst ?keyed)))"
  obtain windows alone where t: "traverse (\<lambda>(environment, bucket). window_batch lib environment bucket) ?list = Inr windows"
      and u: "traverse (standalone_batch lib) (filter (\<lambda>obs. resolve_workload_group_key lib rd obs = None) observations) = Inr alone"
      and batches: "batches = windows @ alone"
    using assms(1) by (auto simp: bucket_context_free_observations_def Let_def and_then_Inr)
  from assms(2) have "(bucket, c) \<in> set windows \<or> (bucket, c) \<in> set alone" by (simp add: batches)
  then show ?thesis
  proof
    assume "(bucket, c) \<in> set windows"
    from traverse_mem [OF t this] obtain x where x: "x \<in> set ?list"
      "(\<lambda>(environment, bucket). window_batch lib environment bucket) x = Inr (bucket, c)" by (elim bexE)
    from concat_map_mem [OF x(1)] obtain k y where y: "y \<in> set (bucket_by_window (rows_of_key ?keyed k))" "x = (snd k, y)"
      by (elim exE conjE)
    obtain b win where yw: "y = (b, win)" by (cases y)
    have k: "(b, win) \<in> set (bucket_by_window (rows_of_key ?keyed k))" "x = (snd k, (b, win))" using y yw by simp_all
    have bucket: "bucket = map fst b" using x(2) window_batch_Inr(1) by (simp add: k(2))
    have "set b \<subseteq> set (concat (map fst (bucket_by_window (rows_of_key ?keyed k))))"
      unfolding set_concat set_map using k(1) by (metis UN_upper fst_conv image_eqI)
    also have "\<dots> = set (rows_of_key ?keyed k)" using bucket_rows [of "rows_of_key ?keyed k"] by (metis set_mset_mset)
    also have "\<dots> \<subseteq> snd ` set ?keyed" by (auto simp: rows_of_key_def)
    finally have "set b \<subseteq> snd ` set ?keyed" .
    moreover have "fst ` snd ` set ?keyed \<subseteq> set observations"
    proof
      fix obs assume "obs \<in> fst ` snd ` set ?keyed"
      then obtain k r where "(k, r) \<in> set ?keyed" "obs = fst r" by auto
      then show "obs \<in> set observations" unfolding keyed_rows_mem by auto
    qed
    ultimately have "fst ` set b \<subseteq> set observations" by (meson image_mono subset_trans)
    then show ?thesis unfolding bucket by simp
  next
    assume "(bucket, c) \<in> set alone"
    from traverse_mem [OF u this] obtain x where "x \<in> set (filter (\<lambda>obs. resolve_workload_group_key lib rd obs = None) observations)"
      "standalone_batch lib x = Inr (bucket, c)" by (elim bexE)
    then show ?thesis by (auto simp: standalone_batch_def and_then_Inr)
  qed
qed

lemma path_c_of_member_kind:
  assumes "reads_consistent rd" "path_c_of lib rd requested snapshot context_id = Inr q" "m \<in> set (pr_resolutions q)"
  shows "member_kind (dl_sha256 lib) snapshot context_id rd document m"
proof (cases requested)
  case (Some c)
  then show ?thesis using assms path_c_member_kind [OF assms(1), of "gr_observations rd"] by (simp add: path_c_of_def)
next
  case None
  with assms(2) have "resolve_path_c_context_free lib (path_reads.truncate rd) (gr_observations rd) snapshot context_id = Inr q"
    by (simp add: path_c_of_def)
  then show ?thesis
  proof (rule context_free_parts)
    fix batches
    assume b: "bucket_context_free_observations lib (path_reads.truncate rd) (gr_observations rd) = Inr batches"
      and parts: "\<And>m. m \<in> set (pr_resolutions q) \<Longrightarrow> \<exists>(bucket, c)\<in>set batches. \<exists>p.
        resolve_path_c lib (path_reads.truncate rd) bucket c snapshot context_id = Inr p \<and> m \<in> set (pr_resolutions p)"
    obtain bucket c p where p: "(bucket, c) \<in> set batches"
        "resolve_path_c lib (path_reads.truncate rd) bucket c snapshot context_id = Inr p" "m \<in> set (pr_resolutions p)"
      using parts [OF assms(3)] by blast
    show ?thesis using path_c_member_kind [OF assms(1) bucket_rows_of_observations [OF b p(1)] p(2,3)] .
  qed
qed

lemma path_a_member_kind:
  assumes "resolve_path_a H (gr_workloads rd) (map_of (gr_declared rd)) snapshot context_id = Inr q" "m \<in> set (pr_resolutions q)"
  shows "member_kind H snapshot context_id rd document m"
  using path_a_member [OF assms] unfolding member_kind_def by blast

lemma path_b_member_kind:
  assumes "reads_consistent rd"
    "resolve_path_b H document sources (rd_workload rd) (map_of (gr_declared rd)) snapshot context_id = Inr q"
    "m \<in> set (pr_resolutions q)"
  shows "member_kind H snapshot context_id rd document m"
  using path_b_member [OF assms(2,3)]
proof
  assume "\<exists>w i. rd_workload rd i = Some w \<and> in_group H snapshot context_id (workload_group_key (cw_id w)) m \<and>
    names_declared (fst ` set (gr_declared rd)) m"
  then obtain w i where w: "rd_workload rd i = Some w" "in_group H snapshot context_id (workload_group_key (cw_id w)) m"
    "names_declared (fst ` set (gr_declared rd)) m" by blast
  then have "cw_id w \<in> cw_id ` set (gr_workloads rd)" using assms(1) unfolding reads_consistent_def by blast
  then show ?thesis unfolding member_kind_def using w(2,3) by blast
qed (simp add: member_kind_def)

lemma publicized_kind: "member_kind H snapshot context_id rd document m \<Longrightarrow> member_kind H snapshot context_id rd document (publicized m)"
  by (simp add: member_kind_def publicized_in_group names_declared_def)

text \<open>A group key is determined by its resolution id.\<close>

lemma group_key_unique:
  assumes "collision_free H snapshot context_id keys" "key \<in> keys" "key' \<in> keys" "in_group H snapshot context_id key m"
    "in_group H snapshot context_id key' m'" "dpr_resolution_id m = dpr_resolution_id m'"
  shows "key = key'"
  using assms unfolding collision_free_def in_group_def by (auto dest: inj_onD)

lemma member_kind_key:
  assumes "member_kind H snapshot context_id rd document m"
  shows "\<exists>key\<in>run_group_keys rd document. in_group H snapshot context_id key m"
  using assms unfolding member_kind_def run_group_keys_def by blast

lemma mapping_key_form: "key \<in> mapping_keys document \<Longrightarrow> \<exists>a v i. key = mapping_group_key a v i"
  by (auto simp: mapping_keys_def split: option.splits)

lemma mapping_keys_disjoint:
  "key \<in> mapping_keys document \<Longrightarrow> key \<noteq> workload_group_key w" "key \<in> mapping_keys document \<Longrightarrow> key \<noteq> otel_group_key i"
  using mapping_key_form group_keys_disjoint by blast+

text \<open>What the key of a member's group tells of the member.\<close>

lemma member_of_key:
  assumes kind: "member_kind H snapshot context_id rd document m" and free: "collision_free H snapshot context_id (run_group_keys rd document)"
    and key: "key \<in> run_group_keys rd document" "in_group H snapshot context_id key m"
  shows "key \<in> mapping_keys document \<Longrightarrow> dpr_status m = UNRESOLVED"
    "key \<in> otel_group_key ` UNIV \<Longrightarrow> dpr_candidates m = []"
    "key \<in> workload_group_key ` UNIV \<Longrightarrow> names_declared (fst ` set (gr_declared rd)) m"
proof -
  from kind consider (workload) w where "w \<in> cw_id ` set (gr_workloads rd)" "in_group H snapshot context_id (workload_group_key w) m"
      "names_declared (fst ` set (gr_declared rd)) m"
    | (otel) i where "i \<in> io_id ` set (gr_observations rd)" "in_group H snapshot context_id (otel_group_key i) m" "dpr_candidates m = []"
    | (mapping) k where "k \<in> mapping_keys document" "in_group H snapshot context_id k m" "dpr_status m = UNRESOLVED"
    unfolding member_kind_def by blast
  then have "(key \<in> mapping_keys document \<longrightarrow> dpr_status m = UNRESOLVED) \<and> (key \<in> otel_group_key ` UNIV \<longrightarrow> dpr_candidates m = []) \<and>
    (key \<in> workload_group_key ` UNIV \<longrightarrow> names_declared (fst ` set (gr_declared rd)) m)"
  proof cases
    case workload
    then have "workload_group_key w \<in> run_group_keys rd document" by (auto simp: run_group_keys_def)
    then have "key = workload_group_key w" using group_key_unique [OF free key(1) _ key(2) workload(2)] by simp
    moreover have "workload_group_key w \<notin> mapping_keys document" using mapping_keys_disjoint(1) by blast
    moreover have "workload_group_key w \<notin> otel_group_key ` UNIV" using group_keys_disjoint(1) by blast
    ultimately show ?thesis using workload(3) by simp
  next
    case otel
    then have "otel_group_key i \<in> run_group_keys rd document" by (auto simp: run_group_keys_def)
    then have "key = otel_group_key i" using group_key_unique [OF free key(1) _ key(2) otel(2)] by simp
    moreover have "otel_group_key i \<notin> mapping_keys document" using mapping_keys_disjoint(2) by blast
    moreover have "otel_group_key i \<notin> workload_group_key ` UNIV" using group_keys_disjoint(1) by (metis imageE)
    ultimately show ?thesis using otel(3) by simp
  next
    case mapping
    then have "k \<in> run_group_keys rd document" by (auto simp: run_group_keys_def)
    then have "key = k" using group_key_unique [OF free key(1) _ key(2) mapping(2)] by simp
    moreover have "k \<notin> otel_group_key ` UNIV" "k \<notin> workload_group_key ` UNIV"
      using mapping_keys_disjoint [OF mapping(1)] by blast+
    ultimately show ?thesis using mapping(3) by simp
  qed
  then show "key \<in> mapping_keys document \<Longrightarrow> dpr_status m = UNRESOLVED"
    "key \<in> otel_group_key ` UNIV \<Longrightarrow> dpr_candidates m = []"
    "key \<in> workload_group_key ` UNIV \<Longrightarrow> names_declared (fst ` set (gr_declared rd)) m" by blast+
qed

section \<open>Evidence shown for a context is reachable without one\<close>

text \<open>Every reference and every candidate of a member reappears in an applicable member of the same group.\<close>

definition covered :: "(bytes \<Rightarrow> string) \<Rightarrow> string \<Rightarrow> string \<Rightarrow> string \<Rightarrow> deployment_resolution \<Rightarrow> deployment_resolution set \<Rightarrow> bool" where
  "covered H snapshot c2 key m M \<longleftrightarrow>
     (\<forall>ref\<in>evidence_set m. \<exists>m2\<in>M. in_group H snapshot c2 key m2 \<and> applicable m2 \<and> ref \<in> evidence_set m2) \<and>
     (\<forall>s\<in>set (dpr_candidates m). \<exists>m2\<in>M. in_group H snapshot c2 key m2 \<and> applicable m2 \<and> s \<in> set (dpr_candidates m2))"

lemma twin_covered: "twin H snapshot c1 c2 key m m2 \<Longrightarrow> m2 \<in> M \<Longrightarrow> applicable m \<Longrightarrow> covered H snapshot c2 key m M"
  unfolding covered_def twin_def applicable_def evidence_set_def by auto

lemma evidence_set_publicized: "evidence_set (publicized m) = public_evidence_ref ` evidence_set m"
  by (auto simp: evidence_set_def)

lemma publicized_covered: "covered H snapshot c2 key m M \<Longrightarrow> covered H snapshot c2 key (publicized m) (publicized ` M)"
  unfolding covered_def evidence_set_publicized
proof (intro conjI ballI)
  assume c: "(\<forall>ref\<in>evidence_set m. \<exists>m2\<in>M. in_group H snapshot c2 key m2 \<and> applicable m2 \<and> ref \<in> evidence_set m2) \<and>
     (\<forall>s\<in>set (dpr_candidates m). \<exists>m2\<in>M. in_group H snapshot c2 key m2 \<and> applicable m2 \<and> s \<in> set (dpr_candidates m2))"
  fix ref assume "ref \<in> public_evidence_ref ` evidence_set m"
  then obtain raw where raw: "raw \<in> evidence_set m" "ref = public_evidence_ref raw" by blast
  then obtain m2 where m2: "m2 \<in> M" "in_group H snapshot c2 key m2" "applicable m2" "raw \<in> evidence_set m2" using c by blast
  then have "in_group H snapshot c2 key (publicized m2)" "applicable (publicized m2)" "ref \<in> evidence_set (publicized m2)"
    by (simp_all add: publicized_in_group applicable_def evidence_set_publicized raw(2))
  then show "\<exists>m2\<in>publicized ` M. in_group H snapshot c2 key m2 \<and> applicable m2 \<and> ref \<in> evidence_set m2" using m2(1) by blast
next
  assume c: "(\<forall>ref\<in>evidence_set m. \<exists>m2\<in>M. in_group H snapshot c2 key m2 \<and> applicable m2 \<and> ref \<in> evidence_set m2) \<and>
     (\<forall>s\<in>set (dpr_candidates m). \<exists>m2\<in>M. in_group H snapshot c2 key m2 \<and> applicable m2 \<and> s \<in> set (dpr_candidates m2))"
  fix s assume "s \<in> set (dpr_candidates (publicized m))"
  then obtain m2 where m2: "m2 \<in> M" "in_group H snapshot c2 key m2" "applicable m2" "s \<in> set (dpr_candidates m2)" using c by auto
  then have "in_group H snapshot c2 key (publicized m2)" "applicable (publicized m2)" "s \<in> set (dpr_candidates (publicized m2))"
    by (simp_all add: publicized_in_group applicable_def)
  then show "\<exists>m2\<in>publicized ` M. in_group H snapshot c2 key m2 \<and> applicable m2 \<and> s \<in> set (dpr_candidates m2)" using m2(1) by blast
qed

lemma outcome_covered:
  assumes o1: "evaluate_observation lib rd c snapshot c1 obs = Inr (Inr o')" "applicable_outcome o'" and obs: "obs \<in> set observations"
    and c: "context_contract lib c" and order: "seen_in_order observations"
    and consistent: "\<And>i w. rd_workload rd i = Some w \<Longrightarrow> cw_id w = i"
    and q: "resolve_path_c_context_free lib rd observations snapshot c2 = Inr q"
  shows "\<exists>bucket c'. \<exists>p. resolve_path_c lib rd bucket c' snapshot c2 = Inr p \<and> set (pr_resolutions p) \<subseteq> set (pr_resolutions q) \<and>
    o' \<in> scoped_from lib rd c' snapshot c2 bucket"
proof -
  from o1(1) obtain pod owner w where e: "str_true (io_k8s_pod_uid obs)" "rd_pods_by_uid rd (the (io_k8s_pod_uid obs)) = [pod]"
      "rd_owners_of_pod rd (cp_pod_id pod) = [owner]" "observation_context_limitation lib c obs pod = None"
    by (rule evaluate_scoped) (use o1(2) in blast)
  let ?captured = "parse_rfc3339 (dl_fromisoformat lib) (cp_captured_at pod)"
  have env: "str_true (io_environment obs)" "io_environment obs = Some (ox_environment c)"
    and seen: "within c (io_last_seen obs)" "within c ?captured"
    using e(4) by (simp_all add: observation_context_limitation_def split: if_splits)
  obtain l k where l: "io_last_seen obs = Some l" "ox_start c \<le> l" "l \<le> ox_end c" and k: "?captured = Some k" "ox_start c \<le> k" "k \<le> ox_end c"
    using seen by (auto simp: within_def split: option.splits)
  have key: "resolve_workload_group_key lib rd obs = Some (ow_workload_id owner, Some k)"
    using e k(1) by (simp add: resolve_workload_group_key_def)
  have "row_span (obs, Some k) \<noteq> None" by (cases "io_first_seen obs") (simp_all add: row_span_def row_times_def l(1))
  from q show ?thesis
  proof (rule context_free_parts)
    fix batches
    assume b: "bucket_context_free_observations lib rd observations = Inr batches"
      and parts: "\<And>bucket c. (bucket, c) \<in> set batches \<Longrightarrow>
        \<exists>p. resolve_path_c lib rd bucket c snapshot c2 = Inr p \<and> set (pr_resolutions p) \<subseteq> set (pr_resolutions q)"
    obtain bucket c' where bc: "(bucket, c') \<in> set batches" "obs \<in> set bucket"
        "ox_environment c' = environment_or_placeholder (io_environment obs)" "covers (ox_start c', ox_end c') (obs, Some k)"
      using batch_of_observation [OF b obs key \<open>row_span _ \<noteq> None\<close>] by auto
    have "case io_first_seen obs of None \<Rightarrow> True | Some f \<Rightarrow> f \<le> l"
      using order obs l(1) by (auto simp: seen_in_order_def list_all_iff split: option.splits)
    moreover have "l - k \<le> MAX_OBSERVATION_WINDOW" "k - l \<le> MAX_OBSERVATION_WINDOW"
      using c l(2,3) k(2,3) by (auto simp: context_contract_def)
    ultimately have times: "ox_start c' \<le> l" "l \<le> ox_end c'" "ox_start c' \<le> k" "k \<le> ox_end c'"
      using covered_times [OF bc(4) l(1)] by auto
    have "ox_environment c' = ox_environment c" using bc(3) env by (simp add: environment_or_placeholder_def)
    then have "observation_context_limitation lib c' obs pod = None"
      using env times l(1) k(1) by (simp add: observation_context_limitation_def within_def)
    then have "evaluate_observation lib rd c' snapshot c2 obs = Inr (Inr o')"
      by (rule evaluate_other_context [OF o1 e(2)])
    then have "o' \<in> scoped_from lib rd c' snapshot c2 bucket" using bc(2) by (auto simp: scoped_from_def)
    then show ?thesis using parts [OF bc(1)] by blast
  qed
qed

lemma path_c_covered:
  assumes q1: "resolve_path_c lib rd observations c snapshot c1 = Inr q1"
    and q2: "resolve_path_c_context_free lib rd observations snapshot c2 = Inr q2"
    and m: "m \<in> set (pr_resolutions q1)" "applicable m" "dpr_workload m \<noteq> None"
    and c: "context_contract lib c" and order: "seen_in_order observations"
    and consistent: "\<And>i w. rd_workload rd i = Some w \<Longrightarrow> cw_id w = i"
  shows "\<exists>w. in_group (dl_sha256 lib) snapshot c1 (workload_group_key w) m \<and>
    covered (dl_sha256 lib) snapshot c2 (workload_group_key w) m (set (pr_resolutions q2))"
proof -
  let ?H = "dl_sha256 lib"
  let ?S = "scoped_from lib rd c snapshot c1 observations"
  have "\<not> in_group ?H snapshot c1 (otel_group_key i) m" for i
  proof
    assume "in_group ?H snapshot c1 (otel_group_key i) m"
    moreover obtain ref where "dpr_workload m = Some ref" using m(3) by auto
    ultimately have "workload_group_key (wr_id ref) = otel_group_key i" by (simp add: in_group_def)
    then show False by (simp add: group_keys_disjoint)
  qed
  then obtain o1 where o1: "o1 \<in> ?S" "describes_workload ?H snapshot c1 ?S (cw_id (so_workload o1)) m"
    using path_c_describes(1) [OF q1 m(1)] by blast
  let ?w = "cw_id (so_workload o1)"
  note d = describes_workloadD [OF o1(2)]
  have reappears: "\<exists>m2\<in>set (pr_resolutions q2). in_group ?H snapshot c2 (workload_group_key ?w) m2 \<and> applicable m2 \<and>
      set (so_evidence o') \<subseteq> evidence_set m2 \<and> (\<forall>s. so_service_id o' = Some s \<longrightarrow> s \<in> set (dpr_candidates m2))"
    if o': "o' \<in> ?S" "cw_id (so_workload o') = ?w" "applicable_outcome o'" for o'
  proof -
    obtain obs where obs: "obs \<in> set observations" "evaluate_observation lib rd c snapshot c1 obs = Inr (Inr o')"
      using o'(1) by (auto simp: scoped_from_def)
    obtain bucket c' p where p: "resolve_path_c lib rd bucket c' snapshot c2 = Inr p" "set (pr_resolutions p) \<subseteq> set (pr_resolutions q2)"
        "o' \<in> scoped_from lib rd c' snapshot c2 bucket"
      using outcome_covered [OF obs(2) o'(3) obs(1) c order consistent q2] by blast
    obtain m2 where m2: "m2 \<in> set (pr_resolutions p)"
        "describes_workload ?H snapshot c2 (scoped_from lib rd c' snapshot c2 bucket) (cw_id (so_workload o')) m2"
      using path_c_describes(2) [OF p(1,3)] by blast
    note d2 = describes_workloadD [OF m2(2) [unfolded o'(2)]]
    have "applicable m2 \<and> set (so_evidence o') \<subseteq> evidence_set m2" by (rule d2(2) [OF p(3) o'(2,3)])
    moreover have "\<forall>s. so_service_id o' = Some s \<longrightarrow> s \<in> set (dpr_candidates m2)" using d2(3) [OF p(3) o'(2)] by simp
    moreover have "m2 \<in> set (pr_resolutions q2)" using m2(1) p(2) by (rule rev_subsetD)
    ultimately show ?thesis using d2(1) by (intro bexI [of _ m2] conjI) simp_all
  qed
  have "covered ?H snapshot c2 (workload_group_key ?w) m (set (pr_resolutions q2))"
    unfolding covered_def
  proof (intro conjI ballI)
    fix ref assume "ref \<in> evidence_set m"
    from d(4) [OF m(2) this] obtain o' where
      o': "o' \<in> ?S" "cw_id (so_workload o') = ?w" "applicable_outcome o'" "ref \<in> set (so_evidence o')" by (elim bexE conjE)
    from reappears [OF o'(1-3)] o'(4)
    show "\<exists>m2\<in>set (pr_resolutions q2). in_group ?H snapshot c2 (workload_group_key ?w) m2 \<and> applicable m2 \<and> ref \<in> evidence_set m2"
      by blast
  next
    fix s assume "s \<in> set (dpr_candidates m)"
    from d(5) [OF this] obtain o' where o': "o' \<in> ?S" "cw_id (so_workload o') = ?w" "so_service_id o' = Some s"
      by (elim bexE conjE)
    have "well_outcome o'" using o'(1) by (auto simp: scoped_from_def intro: evaluate_well_outcome)
    then have "applicable_outcome o'" using o'(3) by (simp add: well_outcome_def)
    from reappears [OF o'(1,2) this] o'(3)
    show "\<exists>m2\<in>set (pr_resolutions q2). in_group ?H snapshot c2 (workload_group_key ?w) m2 \<and> applicable m2 \<and> s \<in> set (dpr_candidates m2)"
      by blast
  qed
  then show ?thesis using d(1) by blast
qed

lemma run_Inr:
  assumes "run_whole_graph_reconciliation lib rd document sources requested snapshot context_id = Inr g"
  obtains a b c red where
    "resolve_path_a (dl_sha256 lib) (gr_workloads rd) (map_of (gr_declared rd)) snapshot context_id = Inr a"
    "resolve_path_b (dl_sha256 lib) document sources (rd_workload rd) (map_of (gr_declared rd)) snapshot context_id = Inr b"
    "path_c_of lib rd requested snapshot context_id = Inr c"
    "reduce_cross_path_resolutions (dl_sha256 lib) a (publicize_evidence_refs b) (publicize_evidence_refs c) = Inr red"
    "wg_reduced g = red" "wg_declared g = fst ` set (gr_declared rd)"
    "wg_reachable g = reachable_deployment_evidence_ids red (fst ` set (gr_declared rd))"
  using assms by (auto simp: run_whole_graph_reconciliation_def Let_def and_then_Inr)

lemma path_c_of_ok: "path_c_of lib rd requested snapshot context_id = Inr q \<Longrightarrow> result_ok (dl_sha256 lib) snapshot context_id q"
proof (cases requested)
  case None
  assume "path_c_of lib rd requested snapshot context_id = Inr q"
  then have "resolve_path_c_context_free lib (path_reads.truncate rd) (gr_observations rd) snapshot context_id = Inr q"
    by (simp add: path_c_of_def None)
  then show ?thesis
  proof (rule context_free_parts)
    fix batches
    assume "\<exists>ps. list_all (\<lambda>p. \<exists>(bucket, c)\<in>set batches. resolve_path_c lib (path_reads.truncate rd) bucket c snapshot context_id = Inr p) ps \<and>
      q = join_results ps"
    then obtain ps where ps: "list_all (\<lambda>p. \<exists>(bucket, c)\<in>set batches. resolve_path_c lib (path_reads.truncate rd) bucket c snapshot context_id = Inr p) ps"
      "q = join_results ps" by blast
    have "list_all (result_ok (dl_sha256 lib) snapshot context_id) ps"
      using ps(1) path_c_ok by (fastforce simp: list_all_iff)
    then show ?thesis unfolding ps(2) by (rule result_ok_join)
  qed
qed (auto simp: path_c_of_def intro: path_c_ok)

text \<open>The reduction of a run, seen from a member of a group.\<close>

lemma reduced_of_member:
  assumes "reduce_cross_path_resolutions H a b c = Inr red" "m \<in> set (all_resolutions [a, b, c])"
  obtains r claim where "r \<in> set (pr_resolutions red)" "dpr_resolution_id r = dpr_resolution_id m"
    "reduce_group H (claims_by_id [a, b, c]) (group_members [a, b, c] (dpr_resolution_id m)) = Inr (r, claim)"
    "m \<in> set (group_members [a, b, c] (dpr_resolution_id m))"
proof -
  let ?i = "dpr_resolution_id m"
  have i: "?i \<in> set (group_ids [a, b, c])" using assms(2) unfolding group_ids_def all_resolutions_def by auto
  have mem: "m \<in> set (group_members [a, b, c] ?i)" using assms(2) unfolding group_members_def all_resolutions_def by simp
  from assms(1) show ?thesis
  proof (rule reduce_cross_Inr)
    fix merged
    assume e: "map (\<lambda>i. reduce_group H (claims_by_id [a, b, c]) (group_members [a, b, c] i)) (group_ids [a, b, c]) = map Inr merged"
      and red: "red = \<lparr>pr_resolutions = map fst merged, pr_claims = somes (map snd merged)\<rparr>"
    have "reduce_group H (claims_by_id [a, b, c]) (group_members [a, b, c] ?i) \<in> set (map Inr merged)"
      unfolding e [symmetric] using i by simp
    then obtain rc where rc: "rc \<in> set merged" "reduce_group H (claims_by_id [a, b, c]) (group_members [a, b, c] ?i) = Inr rc" by auto
    obtain r claim where p: "rc = (r, claim)" by (cases rc)
    have "dpr_resolution_id r = ?i" using reduced_identity(1) [OF rc(2) [unfolded p]] group_hd(2) [OF i] by simp
    moreover have "r \<in> set (pr_resolutions red)" using rc(1) unfolding red p by force
    ultimately show ?thesis using that rc(2) mem unfolding p by blast
  qed
qed

lemma set_group_members: "m \<in> set (group_members results i) \<longleftrightarrow> m \<in> set (all_resolutions results) \<and> dpr_resolution_id m = i"
  by (auto simp: group_members_def all_resolutions_def)

lemma reachable_of_public:
  assumes "r \<in> set (pr_resolutions red)" "ref \<in> evidence_set r" "s \<in> set (dpr_candidates r)" "s \<in> declared"
  shows "ref \<in> set (reachable_deployment_evidence_ids red declared)"
  using assms by (auto simp: reachable_deployment_evidence_ids_def set_evidence_of evidence_set_def public_for_declared_def list_ex_iff)

lemma reachable_of_members:
  assumes red: "reduce_cross_path_resolutions H a b c = Inr red" and ok: "\<forall>m\<in>set (all_resolutions [a, b, c]). member_ok H m"
    and m: "m \<in> set (all_resolutions [a, b, c])" "ref \<in> evidence_set m"
    and m': "m' \<in> set (all_resolutions [a, b, c])" "s \<in> set (dpr_candidates m')" "s \<in> declared"
    and same: "dpr_resolution_id m' = dpr_resolution_id m"
    and app: "applicable m \<and> applicable m' \<or> (\<forall>k\<in>set (all_resolutions [a, b, c]). dpr_resolution_id k = dpr_resolution_id m \<longrightarrow> \<not> applicable k)"
  shows "ref \<in> set (reachable_deployment_evidence_ids red declared)"
  using red m(1)
proof (rule reduced_of_member)
  fix r claim
  let ?ms = "group_members [a, b, c] (dpr_resolution_id m)"
  assume r: "r \<in> set (pr_resolutions red)" and g: "reduce_group H (claims_by_id [a, b, c]) ?ms = Inr (r, claim)" and mem: "m \<in> set ?ms"
  have mem': "m' \<in> set ?ms" using m'(1) same by (simp add: set_group_members)
  have all_ok: "\<forall>m\<in>set ?ms. member_ok H m" using ok by (simp add: set_group_members)
  have "ref \<in> evidence_set r \<and> s \<in> set (dpr_candidates r)"
  proof (cases "\<exists>k\<in>set ?ms. applicable k")
    case True
    then have "applicable m" "applicable m'" using app by (auto simp: set_group_members)
    then show ?thesis
      using reduced_evidence [OF g all_ok True] reduced_candidates [OF g all_ok True] mem mem' m(2) m'(2)
      unfolding evidence_set_def by auto
  next
    case False
    then show ?thesis using reduced_unresolved(1,2) [OF g False] mem mem' m(2) m'(2) unfolding evidence_set_def by auto
  qed
  then show ?thesis using reachable_of_public [OF r _ _ m'(3)] by blast
qed

text \<open>What a reachable reference says about the members of its group.\<close>

lemma public_group:
  assumes red: "reduce_cross_path_resolutions H a b c = Inr red" and ok: "\<forall>m\<in>set (all_resolutions [a, b, c]). member_ok H m"
    and r: "r \<in> set (pr_resolutions red)" "ref \<in> evidence_set r" "s \<in> set (dpr_candidates r)"
  obtains m m' where "m \<in> set (all_resolutions [a, b, c])" "ref \<in> evidence_set m" "m' \<in> set (all_resolutions [a, b, c])"
    "s \<in> set (dpr_candidates m')" "dpr_resolution_id m = dpr_resolution_id r" "dpr_resolution_id m' = dpr_resolution_id r"
    "applicable m \<and> applicable m' \<or> (\<forall>k\<in>set (all_resolutions [a, b, c]). dpr_resolution_id k = dpr_resolution_id r \<longrightarrow> \<not> applicable k)"
proof -
  let ?ms = "group_members [a, b, c] (dpr_resolution_id r)"
  obtain claim where g: "reduce_group H (claims_by_id [a, b, c]) ?ms = Inr (r, claim)" using reduce_cross_nth [OF red r(1)] by blast
  have all_ok: "\<forall>m\<in>set ?ms. member_ok H m" using ok by (simp add: set_group_members)
  show ?thesis
  proof (cases "\<exists>k\<in>set ?ms. applicable k")
    case True
    have "ref \<in> (\<Union>m\<in>{m \<in> set ?ms. applicable m}. evidence_set m)"
      using reduced_evidence [OF g all_ok True] r(2) unfolding evidence_set_def by auto
    then obtain m where m: "m \<in> set ?ms" "applicable m" "ref \<in> evidence_set m" by blast
    have "s \<in> (\<Union>m\<in>{m \<in> set ?ms. applicable m}. set (dpr_candidates m))"
      using reduced_candidates [OF g all_ok True] r(3) by simp
    then obtain m' where m': "m' \<in> set ?ms" "applicable m'" "s \<in> set (dpr_candidates m')" by blast
    show ?thesis using that [of m m'] m m' by (simp add: set_group_members)
  next
    case False
    have "ref \<in> (\<Union>m\<in>set ?ms. evidence_set m)" using reduced_unresolved(1) [OF g False] r(2) unfolding evidence_set_def by auto
    then obtain m where m: "m \<in> set ?ms" "ref \<in> evidence_set m" by blast
    have "s \<in> (\<Union>m\<in>set ?ms. set (dpr_candidates m))" using reduced_unresolved(2) [OF g False] r(3) by simp
    then obtain m' where m': "m' \<in> set ?ms" "s \<in> set (dpr_candidates m')" by blast
    show ?thesis using that [of m m'] m m' False by (simp add: set_group_members)
  qed
qed

lemma resolved_service_candidate:
  assumes "reduce_group H claims ms = Inr (r, k)" "dpr_service r = Some s"
  shows "s \<in> set (dpr_candidates r)"
  using assms(1) by (cases rule: reduce_group_cases) (use assms(2) in \<open>auto simp: reduced_shapes\<close>)

text \<open>The members of a run.\<close>

definition run_results :: "path_result \<Rightarrow> path_result \<Rightarrow> path_result \<Rightarrow> path_result list" where
  "run_results a b c = [a, publicize_evidence_refs b, publicize_evidence_refs c]"

lemma run_members:
  assumes consistent: "reads_consistent rd"
    and a: "resolve_path_a (dl_sha256 lib) (gr_workloads rd) (map_of (gr_declared rd)) snapshot context_id = Inr a"
    and b: "resolve_path_b (dl_sha256 lib) document sources (rd_workload rd) (map_of (gr_declared rd)) snapshot context_id = Inr b"
    and c: "path_c_of lib rd requested snapshot context_id = Inr c" and m: "m \<in> set (all_resolutions (run_results a b c))"
  shows "member_ok (dl_sha256 lib) m" "member_kind (dl_sha256 lib) snapshot context_id rd document m"
proof -
  from m consider (a) "m \<in> set (pr_resolutions a)" | (b) m0 where "m0 \<in> set (pr_resolutions b)" "m = publicized m0"
    | (c) m0 where "m0 \<in> set (pr_resolutions c)" "m = publicized m0"
    unfolding all_resolutions_def run_results_def publicize_resolutions by (auto simp: publicize_resolutions)
  then have "member_ok (dl_sha256 lib) m \<and> member_kind (dl_sha256 lib) snapshot context_id rd document m"
  proof cases
    case a
    then show ?thesis using path_a_ok [OF \<open>resolve_path_a _ _ _ _ _ = _\<close>] path_a_member_kind [OF \<open>resolve_path_a _ _ _ _ _ = _\<close> a]
      by (simp add: result_ok_def)
  next
    case b
    then show ?thesis using path_b_ok [OF \<open>resolve_path_b _ _ _ _ _ _ _ = _\<close>]
        path_b_member_kind [OF consistent \<open>resolve_path_b _ _ _ _ _ _ _ = _\<close> b(1)]
      by (simp add: result_ok_def publicized_ok publicized_kind)
  next
    case c
    then show ?thesis using path_c_of_ok [OF \<open>path_c_of _ _ _ _ _ = _\<close>] path_c_of_member_kind [OF consistent \<open>path_c_of _ _ _ _ _ = _\<close> c(1)]
      by (simp add: result_ok_def publicized_ok publicized_kind)
  qed
  then show "member_ok (dl_sha256 lib) m" "member_kind (dl_sha256 lib) snapshot context_id rd document m" by simp_all
qed

lemma twin_publicized: "twin H snapshot c1 c2 key m m2 \<Longrightarrow> twin H snapshot c1 c2 key (publicized m) (publicized m2)"
  by (simp add: twin_def publicized_in_group)

text \<open>An applicable member of a workload group of the run for a context reappears in the run without one.\<close>

lemma run_covered:
  assumes consistent: "reads_consistent rd" and order: "seen_in_order (gr_observations rd)" and c: "context_contract lib c"
    and a1: "resolve_path_a (dl_sha256 lib) (gr_workloads rd) (map_of (gr_declared rd)) snapshot c1 = Inr a1"
    and a2: "resolve_path_a (dl_sha256 lib) (gr_workloads rd) (map_of (gr_declared rd)) snapshot c2 = Inr a2"
    and b1: "resolve_path_b (dl_sha256 lib) document sources (rd_workload rd) (map_of (gr_declared rd)) snapshot c1 = Inr b1"
    and b2: "resolve_path_b (dl_sha256 lib) document sources (rd_workload rd) (map_of (gr_declared rd)) snapshot c2 = Inr b2"
    and q1: "path_c_of lib rd (Some c) snapshot c1 = Inr q1" and q2: "path_c_of lib rd None snapshot c2 = Inr q2"
    and m: "m \<in> set (all_resolutions (run_results a1 b1 q1))" "applicable m" "in_group (dl_sha256 lib) snapshot c1 (workload_group_key w) m"
  shows "covered (dl_sha256 lib) snapshot c2 (workload_group_key w) m (set (all_resolutions (run_results a2 b2 q2)))"
proof -
  let ?H = "dl_sha256 lib" and ?R = "set (all_resolutions (run_results a2 b2 q2))"
  have mono: "covered ?H snapshot c2 key m M \<Longrightarrow> M \<subseteq> ?R \<Longrightarrow> covered ?H snapshot c2 key m ?R" for key M
    unfolding covered_def by blast
  have sub: "set (pr_resolutions a2) \<subseteq> ?R" "publicized ` set (pr_resolutions b2) \<subseteq> ?R" "publicized ` set (pr_resolutions q2) \<subseteq> ?R"
    by (auto simp: all_resolutions_def run_results_def publicize_resolutions)
  from m(1) consider (a) "m \<in> set (pr_resolutions a1)" | (b) m0 where "m0 \<in> set (pr_resolutions b1)" "m = publicized m0"
    | (c) m0 where "m0 \<in> set (pr_resolutions q1)" "m = publicized m0"
    unfolding all_resolutions_def run_results_def by (auto simp: publicize_resolutions)
  then obtain key M where key: "in_group ?H snapshot c1 key m" "covered ?H snapshot c2 key m M" "M \<subseteq> ?R"
  proof cases
    case a
    obtain key m2 where "m2 \<in> set (pr_resolutions a2)" "twin ?H snapshot c1 c2 key m m2" using path_a_twin [OF a1 a2 a] by blast
    then show ?thesis using that [of key "set (pr_resolutions a2)"] twin_covered [OF _ _ m(2)] sub(1) by (auto simp: twin_def)
  next
    case b
    obtain key m2 where t: "m2 \<in> set (pr_resolutions b2)" "twin ?H snapshot c1 c2 key m0 m2" using path_b_twin [OF b1 b2 b(1)] by blast
    have "twin ?H snapshot c1 c2 key m (publicized m2)" using twin_publicized [OF t(2)] b(2) by simp
    then show ?thesis
      using that [of key "publicized ` set (pr_resolutions b2)"] twin_covered [OF _ imageI [OF t(1)] m(2)] sub(2) by (auto simp: twin_def)
  next
    case c
    have p1: "resolve_path_c lib (path_reads.truncate rd) (gr_observations rd) c snapshot c1 = Inr q1" using q1 by (simp add: path_c_of_def)
    have p2: "resolve_path_c_context_free lib (path_reads.truncate rd) (gr_observations rd) snapshot c2 = Inr q2"
      using q2 by (simp add: path_c_of_def)
    have app: "applicable m0" using m(2) c(2) by (simp add: applicable_def)
    have "dpr_workload m0 \<noteq> None" using in_group_workload [OF m(3)] c(2) by simp
    moreover have "cw_id w = i" if "rd_workload (path_reads.truncate rd) i = Some w" for i w
      using consistent that unfolding reads_consistent_def by simp
    ultimately obtain v where v: "in_group ?H snapshot c1 (workload_group_key v) m0"
        "covered ?H snapshot c2 (workload_group_key v) m0 (set (pr_resolutions q2))"
      using path_c_covered [OF p1 p2 c(1) app _ \<open>context_contract lib _\<close> order] by blast
    show ?thesis
      using that [OF _ publicized_covered [OF v(2), folded c(2)] sub(3)] v(1) c(2) by (simp add: publicized_in_group)
  qed
  have "key = workload_group_key w" by (rule in_group_workload_unique [OF m(3) key(1)])
  then show ?thesis using mono key(2,3) by simp
qed

text \<open>A member of a mapping group is the same resolution in both runs.\<close>

lemma run_mapping_twin:
  assumes consistent: "reads_consistent rd"
    and a1: "resolve_path_a (dl_sha256 lib) (gr_workloads rd) (map_of (gr_declared rd)) snapshot c1 = Inr a1"
    and b1: "resolve_path_b (dl_sha256 lib) document sources (rd_workload rd) (map_of (gr_declared rd)) snapshot c1 = Inr b1"
    and b2: "resolve_path_b (dl_sha256 lib) document sources (rd_workload rd) (map_of (gr_declared rd)) snapshot c2 = Inr b2"
    and q1: "path_c_of lib rd requested snapshot c1 = Inr q1"
    and free: "collision_free (dl_sha256 lib) snapshot c1 (run_group_keys rd document)"
    and m: "m \<in> set (all_resolutions (run_results a1 b1 q1))" "key \<in> mapping_keys document" "in_group (dl_sha256 lib) snapshot c1 key m"
  shows "\<exists>m2\<in>set (all_resolutions (run_results a2 b2 q2)). twin (dl_sha256 lib) snapshot c1 c2 key m m2"
proof -
  let ?H = "dl_sha256 lib"
  have key: "key \<in> run_group_keys rd document" using m(2) by (simp add: run_group_keys_def)
  have not_workload: "\<not> in_group ?H snapshot c1 (workload_group_key w) m" for w
    using in_group_workload_unique [of ?H snapshot c1 w m key] m(3) mapping_keys_disjoint(1) [OF m(2)] by blast
  have not_otel: "\<not> (\<exists>i\<in>io_id ` set (gr_observations rd). in_group ?H snapshot c1 (otel_group_key i) m)"
  proof
    assume "\<exists>i\<in>io_id ` set (gr_observations rd). in_group ?H snapshot c1 (otel_group_key i) m"
    then obtain i where i: "i \<in> io_id ` set (gr_observations rd)" "in_group ?H snapshot c1 (otel_group_key i) m" by blast
    have "otel_group_key i \<in> run_group_keys rd document" using i(1) by (auto simp: run_group_keys_def)
    then have "key = otel_group_key i" using group_key_unique [OF free key _ m(3) i(2)] by simp
    then show False using mapping_keys_disjoint(2) [OF m(2)] by blast
  qed
  from m(1) consider (a) "m \<in> set (pr_resolutions a1)" | (b) m0 where "m0 \<in> set (pr_resolutions b1)" "m = publicized m0"
    | (c) m0 where "m0 \<in> set (pr_resolutions q1)" "m = publicized m0"
    unfolding all_resolutions_def run_results_def by (auto simp: publicize_resolutions)
  then show ?thesis
  proof cases
    case a
    from path_a_member [OF a1 a] show ?thesis using not_workload by blast
  next
    case b
    obtain k m2 where t: "dpr_workload m0 = None \<longrightarrow> k \<in> mapping_keys document" "m2 \<in> set (pr_resolutions b2)" "twin ?H snapshot c1 c2 k m0 m2"
      using path_b_twin [OF b1 b2 b(1)] by (elim exE conjE bexE)
    have "dpr_workload m0 = None"
    proof (rule ccontr)
      assume "dpr_workload m0 \<noteq> None"
      then obtain ref where "dpr_workload m0 = Some ref" by auto
      then have "key = workload_group_key (wr_id ref)" using m(3) b(2) by (simp add: in_group_def)
      then show False using mapping_keys_disjoint(1) [OF m(2)] by blast
    qed
    then have "k \<in> run_group_keys rd document" using t(1) by (simp add: run_group_keys_def)
    moreover have "in_group ?H snapshot c1 k m" using t(3) b(2) by (simp add: twin_def publicized_in_group)
    ultimately have "key = k" using group_key_unique [OF free key _ m(3)] by simp
    then have "twin ?H snapshot c1 c2 key m (publicized m2)" using twin_publicized [OF t(3)] b(2) by simp
    moreover have "publicized m2 \<in> set (all_resolutions (run_results a2 b2 q2))"
      using t(2) by (auto simp: all_resolutions_def run_results_def publicize_resolutions)
    ultimately show ?thesis by blast
  next
    case c
    have "member_kind ?H snapshot c1 rd None m" using path_c_of_member_kind [OF consistent q1 c(1)] c(2) by (simp add: publicized_kind)
    then show ?thesis using not_workload not_otel unfolding member_kind_def by (auto simp: mapping_keys_def)
  qed
qed

lemma reachable_without_context:
  assumes consistent: "reads_consistent rd" and order: "seen_in_order (gr_observations rd)" and c: "context_contract lib c"
    and free1: "collision_free (dl_sha256 lib) snapshot c1 (run_group_keys rd document)"
    and free2: "collision_free (dl_sha256 lib) snapshot c2 (run_group_keys rd document)"
    and run1: "run_whole_graph_reconciliation lib rd document sources (Some c) snapshot c1 = Inr g1"
    and run2: "run_whole_graph_reconciliation lib rd document sources None snapshot c2 = Inr g2"
    and r: "r \<in> set (pr_resolutions (wg_reduced g1))" "ref \<in> evidence_set r" "s \<in> set (dpr_candidates r)" "s \<in> fst ` set (gr_declared rd)"
  shows "ref \<in> set (wg_reachable g2)"
  using run1
proof (rule run_Inr)
  fix a1 b1 q1 red1
  let ?H = "dl_sha256 lib" and ?D = "fst ` set (gr_declared rd)" and ?K = "run_group_keys rd document"
  assume a1: "resolve_path_a ?H (gr_workloads rd) (map_of (gr_declared rd)) snapshot c1 = Inr a1"
    and b1: "resolve_path_b ?H document sources (rd_workload rd) (map_of (gr_declared rd)) snapshot c1 = Inr b1"
    and q1: "path_c_of lib rd (Some c) snapshot c1 = Inr q1"
    and red1: "reduce_cross_path_resolutions ?H a1 (publicize_evidence_refs b1) (publicize_evidence_refs q1) = Inr red1"
    and g1: "wg_reduced g1 = red1"
  let ?R1 = "set (all_resolutions (run_results a1 b1 q1))"
  note in1 = run_members [OF consistent a1 b1 q1]
  from run2 show ?thesis
  proof (rule run_Inr)
    fix a2 b2 q2 red2
    assume a2: "resolve_path_a ?H (gr_workloads rd) (map_of (gr_declared rd)) snapshot c2 = Inr a2"
      and b2: "resolve_path_b ?H document sources (rd_workload rd) (map_of (gr_declared rd)) snapshot c2 = Inr b2"
      and q2: "path_c_of lib rd None snapshot c2 = Inr q2"
      and red2: "reduce_cross_path_resolutions ?H a2 (publicize_evidence_refs b2) (publicize_evidence_refs q2) = Inr red2"
      and g2: "wg_reachable g2 = reachable_deployment_evidence_ids red2 ?D"
    let ?R2 = "set (all_resolutions (run_results a2 b2 q2))"
    note in2 = run_members [OF consistent a2 b2 q2]
    have ok1: "\<forall>m\<in>?R1. member_ok ?H m" and ok2: "\<forall>m\<in>?R2. member_ok ?H m" using in1(1) in2(1) by blast+
    have carry: "ref \<in> set (wg_reachable g2)"
      if "n \<in> ?R2" "ref \<in> evidence_set n" "n' \<in> ?R2" "s \<in> set (dpr_candidates n')" "dpr_resolution_id n' = dpr_resolution_id n"
        "applicable n \<and> applicable n' \<or> (\<forall>k\<in>?R2. dpr_resolution_id k = dpr_resolution_id n \<longrightarrow> \<not> applicable k)" for n n'
      using reachable_of_members [OF red2 ok2 [unfolded run_results_def] that(1) [unfolded run_results_def] that(2)
        that(3) [unfolded run_results_def] that(4) r(4) that(5) that(6) [unfolded run_results_def]] unfolding g2 .
    obtain m m' where m: "m \<in> ?R1" "ref \<in> evidence_set m" and m': "m' \<in> ?R1" "s \<in> set (dpr_candidates m')"
      and ids: "dpr_resolution_id m = dpr_resolution_id r" "dpr_resolution_id m' = dpr_resolution_id r"
      and app: "applicable m \<and> applicable m' \<or> (\<forall>k\<in>?R1. dpr_resolution_id k = dpr_resolution_id r \<longrightarrow> \<not> applicable k)"
      using public_group [OF red1 ok1 [unfolded run_results_def] r(1) [unfolded g1] r(2,3)] unfolding run_results_def by metis
    obtain key where key: "key \<in> ?K" "in_group ?H snapshot c1 key m'" using member_kind_key [OF in1(2) [OF m'(1)]] by blast
    obtain k where k: "k \<in> ?K" "in_group ?H snapshot c1 k m" using member_kind_key [OF in1(2) [OF m(1)]] by blast
    have "k = key" using group_key_unique [OF free1 k(1) key(1) k(2) key(2)] ids by simp
    note k = k(2) [unfolded this]
    note told = member_of_key [OF in1(2) [OF m'(1)] free1 key]
    have not_otel: "key \<notin> otel_group_key ` UNIV" using told(2) m'(2) by (metis empty_iff empty_set)
    from app show ?thesis
    proof
      assume app: "applicable m \<and> applicable m'"
      then have "key \<notin> mapping_keys document" using told(1) by (auto simp: applicable_def)
      then obtain w where w: "key = workload_group_key w" using key(1) not_otel unfolding run_group_keys_def by blast
      note cover = run_covered [OF consistent order c a1 a2 b1 b2 q1 q2]
      have cm: "covered ?H snapshot c2 key m ?R2" and cm': "covered ?H snapshot c2 key m' ?R2"
        using cover [OF m(1)] cover [OF m'(1)] app k key(2) unfolding w by blast+
      obtain n where n: "n \<in> ?R2" "in_group ?H snapshot c2 key n" "applicable n" "ref \<in> evidence_set n"
        using cm m(2) unfolding covered_def by blast
      obtain n' where n': "n' \<in> ?R2" "in_group ?H snapshot c2 key n'" "applicable n'" "s \<in> set (dpr_candidates n')"
        using cm' m'(2) unfolding covered_def by blast
      show ?thesis
        by (rule carry [OF n(1,4) n'(1,4)]) (use n n' in \<open>simp_all add: in_group_def\<close>)
    next
      assume none: "\<forall>k\<in>?R1. dpr_resolution_id k = dpr_resolution_id r \<longrightarrow> \<not> applicable k"
      then have "dpr_status m' = UNRESOLVED" using m'(1) ids(2) by (simp add: applicable_def)
      then have "key \<notin> workload_group_key ` UNIV" using told(3) m'(2) r(4) by (auto simp: names_declared_def)
      then have mapping: "key \<in> mapping_keys document" using key(1) not_otel unfolding run_group_keys_def by blast
      note twin = run_mapping_twin [OF consistent a1 b1 b2 q1 free1 _ mapping, where ?a2.0 = a2 and ?q2.0 = q2]
      obtain n where n: "n \<in> ?R2" "twin ?H snapshot c1 c2 key m n" using twin [OF m(1) k] by blast
      obtain n' where n': "n' \<in> ?R2" "twin ?H snapshot c1 c2 key m' n'" using twin [OF m'(1) key(2)] by blast
      have none: "\<not> applicable j" if j: "j \<in> ?R2" "dpr_resolution_id j = dpr_resolution_id n" for j
      proof -
        obtain h where h: "h \<in> ?K" "in_group ?H snapshot c2 h j" using member_kind_key [OF in2(2) [OF j(1)]] by blast
        have "in_group ?H snapshot c2 key n" using n(2) by (simp add: twin_def)
        then have "h = key" using group_key_unique [OF free2 h(1) key(1) h(2)] j(2) by simp
        then show ?thesis using member_of_key(1) [OF in2(2) [OF j(1)] free2 h] mapping by (simp add: applicable_def)
      qed
      show ?thesis
      proof (rule carry [OF n(1) _ n'(1)])
        show "ref \<in> evidence_set n" using m(2) n(2) by (simp add: twin_def evidence_set_def)
        show "s \<in> set (dpr_candidates n')" using m'(2) n'(2) by (simp add: twin_def)
        show "dpr_resolution_id n' = dpr_resolution_id n" using n(2) n'(2) by (simp add: twin_def in_group_def)
        show "applicable n \<and> applicable n' \<or> (\<forall>k\<in>?R2. dpr_resolution_id k = dpr_resolution_id n \<longrightarrow> \<not> applicable k)"
          using none by blast
      qed
    qed
  qed
qed

lemma reduced_claimed:
  assumes "reduce_group H claims ms = Inr (r, c)" "dpr_claim_id r \<noteq> None"
  shows "\<exists>k. group_verdict ms = RESOLVED k"
  using assms(1) by (cases rule: reduce_group_cases) (use assms(2) in \<open>auto simp: reduced_shapes\<close>)

text \<open>A resolution that names a claim has a declared service among its candidates.\<close>

lemma claimed_names_declared:
  assumes consistent: "reads_consistent rd" and free: "collision_free (dl_sha256 lib) snapshot context_id (run_group_keys rd document)"
    and a: "resolve_path_a (dl_sha256 lib) (gr_workloads rd) (map_of (gr_declared rd)) snapshot context_id = Inr a"
    and b: "resolve_path_b (dl_sha256 lib) document sources (rd_workload rd) (map_of (gr_declared rd)) snapshot context_id = Inr b"
    and c: "path_c_of lib rd requested snapshot context_id = Inr q"
    and red: "reduce_cross_path_resolutions (dl_sha256 lib) a (publicize_evidence_refs b) (publicize_evidence_refs q) = Inr red"
    and r: "r \<in> set (pr_resolutions red)" "dpr_claim_id r \<noteq> None"
  shows "\<exists>s\<in>set (dpr_candidates r). s \<in> fst ` set (gr_declared rd)"
proof -
  let ?results = "[a, publicize_evidence_refs b, publicize_evidence_refs q]"
  let ?ms = "group_members ?results (dpr_resolution_id r)"
  note members = run_members [OF consistent a b c, unfolded run_results_def]
  obtain claim where g: "reduce_group (dl_sha256 lib) (claims_by_id ?results) ?ms = Inr (r, claim)"
    using reduce_cross_nth [OF red r(1)] by blast
  obtain k where v: "group_verdict ?ms = RESOLVED k" using reduced_claimed [OF g r(2)] by blast
  obtain m where m: "m \<in> set ?ms" "is_resolved (dpr_status m)"
    using verdict_resolved(3) [OF v] by (metis hd_in_set mem_Collect_eq set_successful)
  have mem: "m \<in> set (all_resolutions ?results)" using m(1) by (simp add: set_group_members)
  have ok: "\<forall>m\<in>set ?ms. member_ok (dl_sha256 lib) m" using members(1) by (simp add: set_group_members)
  have candidates: "dpr_candidates m = [the (dpr_service m)]"
    using contract_resolvedD(1) [OF member_ok_contract m(2)] ok m(1) by blast
  have app: "applicable m" using m(2) by (auto simp: applicable_def)
  have "names_declared (fst ` set (gr_declared rd)) m"
    using members(2) [OF mem] candidates app unfolding member_kind_def applicable_def by auto
  then have "set (dpr_candidates m) \<subseteq> fst ` set (gr_declared rd)" using m(2) by (simp add: names_declared_def)
  moreover have "set (dpr_candidates m) \<subseteq> set (dpr_candidates r)"
    using reduced_candidates [OF g ok] m(1) app by blast
  ultimately show ?thesis using candidates by auto
qed

text \<open>Each reference of a claim is one of the resolution that names it.\<close>

lemma claim_evidence_shown:
  assumes "reduce_cross_path_resolutions H a b c = Inr red" "k \<in> set (pr_claims red)" "ref \<in> set (dpc_evidence k)"
  shows "\<exists>r\<in>set (pr_resolutions red). dpr_claim_id r = Some (dpc_claim_id k) \<and> ref \<in> evidence_set r"
proof -
  have "claim_view k \<in> set (somes (map resolution_claim_view (pr_resolutions red)))"
    using claims_of_reduction(1) [OF assms(1)] assms(2) by (metis imageI list.set_map)
  then obtain r where r: "r \<in> set (pr_resolutions red)" "resolution_claim_view r = Some (claim_view k)" by auto
  then have "dpr_claim_id r = Some (dpc_claim_id k)" "dpr_supporting r = dpc_evidence k"
    by (auto simp: resolution_claim_view_def claim_view_def split: option.splits)
  then show ?thesis using r(1) assms(3) unfolding evidence_set_def by (intro bexI [of _ r]) simp_all
qed

end
