(* ===== verification/DeploymentRuns.thy ===== *)
theory DeploymentRuns
  imports DeploymentVisibility
begin

text \<open>
  What a client of \<open>run_whole_graph_reconciliation\<close> can rely on: every reference an answer shows for some
  observation context is reachable in the run that \<open>get_evidence\<close> makes without one, a run returns when
  its reads are well formed, and one identity row with an environment the contract refuses is enough for the
  context-free run to raise.  \<open>DeploymentEvidence\<close> builds the answers of the evidence lookups on this.
\<close>

section \<open>What is shown is reachable\<close>

lemma reduced_of_run:
  assumes consistent: "reads_consistent rd" and order: "seen_in_order (gr_observations rd)" and c: "context_contract lib c"
    and free1: "collision_free (dl_sha256 lib) snapshot c1 (run_group_keys rd document)"
    and free2: "collision_free (dl_sha256 lib) snapshot c2 (run_group_keys rd document)"
    and run1: "run_whole_graph_reconciliation lib rd document sources (Some c) snapshot c1 = Inr g1"
    and run2: "run_whole_graph_reconciliation lib rd document sources None snapshot c2 = Inr g2"
    and k: "k \<in> set (pr_claims (wg_reduced g1))" "ref \<in> set (dpc_evidence k)"
  shows "ref \<in> set (wg_reachable g2)"
  using run1
proof (rule run_Inr)
  fix a b q red
  assume a: "resolve_path_a (dl_sha256 lib) (gr_workloads rd) (map_of (gr_declared rd)) snapshot c1 = Inr a"
    and b: "resolve_path_b (dl_sha256 lib) document sources (rd_workload rd) (map_of (gr_declared rd)) snapshot c1 = Inr b"
    and q: "path_c_of lib rd (Some c) snapshot c1 = Inr q"
    and red: "reduce_cross_path_resolutions (dl_sha256 lib) a (publicize_evidence_refs b) (publicize_evidence_refs q) = Inr red"
    and g1: "wg_reduced g1 = red"
  obtain r where r: "r \<in> set (pr_resolutions red)" "dpr_claim_id r = Some (dpc_claim_id k)" "ref \<in> evidence_set r"
    using claim_evidence_shown [OF red] k unfolding g1 by blast
  then obtain s where "s \<in> set (dpr_candidates r)" "s \<in> fst ` set (gr_declared rd)"
    using claimed_names_declared [OF consistent free1 a b q red r(1)] by auto
  then show ?thesis
    using reachable_without_context [OF consistent order c free1 free2 run1 run2] r(1,3) unfolding g1 by blast
qed

text \<open>Whatever reference an answer about a declared service shows for an observation context is reachable in the
  context-free run.\<close>

lemma shown_is_reachable:
  assumes "reads_consistent rd" "seen_in_order (gr_observations rd)" "context_contract lib c"
    and "collision_free (dl_sha256 lib) snapshot c1 (run_group_keys rd document)"
    and "collision_free (dl_sha256 lib) snapshot c2 (run_group_keys rd document)"
    and "run_whole_graph_reconciliation lib rd document sources (Some c) snapshot c1 = Inr g1"
    and "run_whole_graph_reconciliation lib rd document sources None snapshot c2 = Inr g2"
    and "s \<in> wg_declared g1" "filter_for_service (wg_reduced g1) s = (claims, resolutions)"
    and "ref \<in> set (concat (map dpc_evidence claims) @ evidence_of resolutions)"
  shows "ref \<in> set (wg_reachable g2)"
proof -
  note base = assms(1-7)
  have claims: "set claims \<subseteq> set (pr_claims (wg_reduced g1))"
    and resolutions: "set resolutions = {r \<in> set (pr_resolutions (wg_reduced g1)). concerns s r}"
    using assms(9) by (auto simp: filter_for_service_def Let_def)
  have declared: "s \<in> fst ` set (gr_declared rd)"
    using assms(6,8) by (auto simp: run_whole_graph_reconciliation_def Let_def and_then_Inr)
  from assms(10) consider (claim) k where "k \<in> set claims" "ref \<in> set (dpc_evidence k)"
    | (resolution) r where "r \<in> set resolutions" "ref \<in> evidence_set r"
    by (auto simp: set_evidence_of evidence_set_def)
  then show ?thesis
  proof cases
    case claim
    then show ?thesis using reduced_of_run [OF base] claims by blast
  next
    case resolution
    then have r: "r \<in> set (pr_resolutions (wg_reduced g1))" "concerns s r" unfolding resolutions by simp_all
    have "s \<in> set (dpr_candidates r)"
    proof (cases "dpr_service r = Some s")
      case True
      from assms(6) show ?thesis
        by (rule run_Inr) (metis True r(1) reduce_cross_nth resolved_service_candidate)
    qed (use r(2) in \<open>simp add: concerns_def\<close>)
    then show ?thesis using reachable_without_context [OF base r(1) resolution(2) _ declared] by simp
  qed
qed

section \<open>Runs return\<close>

lemma named_total:
  assumes H: "hex_digest H" and evidence: "sorted_and_deduplicated evidence" "evidence \<noteq> []" and named: "sorted_and_deduplicated named"
  shows "\<exists>q. named_result H lookup how (compute_deployment_resolution_id H snapshot context_id key) w named evidence = Inr q"
proof (cases "length named > 1")
  case True
  then show ?thesis using unsettled_contract [OF H] evidence named by (simp add: named_result_def unsettled_result_Inr)
next
  case False
  show ?thesis
  proof (cases "lookup (hd named)")
    case None
    then show ?thesis using False unsettled_contract [OF H] evidence by (simp add: named_result_def unsettled_result_Inr)
  next
    case (Some name)
    then show ?thesis using False settled_contract [OF H] claim_of_contract [OF H] evidence
      by (simp add: named_result_def settled_result_Inr)
  qed
qed

definition known_kind :: "current_workload \<Rightarrow> bool" where
  "known_kind w = (map_of workload_kind_by_raw (cw_kind w) \<noteq> None)"

lemma known_kind_ref: "known_kind w \<longleftrightarrow> (\<exists>ref. workload_ref_of w = Inr ref)"
  by (auto simp: known_kind_def workload_ref_of_def split: option.split)

definition annotations_evidenced :: "current_workload \<Rightarrow> bool" where
  "annotations_evidenced w = list_all (\<lambda>c. wc_annotation c \<noteq> None \<longrightarrow> wc_evidence c \<noteq> []) (cw_contributions w)"

lemma path_a_total:
  assumes H: "hex_digest H" and ws: "\<forall>w\<in>set ws. known_kind w \<and> annotations_evidenced w"
  shows "\<exists>q. resolve_path_a H ws lookup snapshot context_id = Inr q"
proof -
  have "\<exists>q. path_a_step H lookup snapshot context_id w = Inr q" if w: "w \<in> set ws" for w
  proof (cases "filter (\<lambda>c. wc_annotation c \<noteq> None) (cw_contributions w) = []")
    case True
    then show ?thesis by (simp add: path_a_step_def)
  next
    case False
    then obtain c where "c \<in> set (cw_contributions w)" "wc_annotation c \<noteq> None" by (auto simp: filter_empty_conv)
    moreover from this have "wc_evidence c \<noteq> []" using ws w by (auto simp: annotations_evidenced_def list_all_iff)
    ultimately have "concat (map wc_evidence (filter (\<lambda>c. wc_annotation c \<noteq> None) (cw_contributions w))) \<noteq> []" by auto
    then have e: "sorted_set (concat (map wc_evidence (filter (\<lambda>c. wc_annotation c \<noteq> None) (cw_contributions w)))) \<noteq> []" by simp
    obtain ref where ref: "workload_ref_of w = Inr ref" using ws w known_kind_ref by blast
    show ?thesis unfolding path_a_step_def Let_def if_not_P [OF False] ref and_then_simps compute_group_key_simps
      by (rule named_total [OF H _ e]) simp_all
  qed
  then obtain rs where "traverse (path_a_step H lookup snapshot context_id) ws = Inr rs" using traverse_succeeds by metis
  then show ?thesis by (simp add: resolve_path_a_def)
qed

text \<open>The reads of a mapping entry that can be hashed.\<close>

definition entry_addressable :: "(bytes \<Rightarrow> string) \<Rightarrow> mapping_entry \<Rightarrow> bool" where
  "entry_addressable H e = (kubernetes_logical_resource_id H (me_cluster_uid e) (me_api_group e) (me_kind e) (me_namespace e)
     (me_name e) \<noteq> None)"

lemma path_b_total:
  assumes H: "hex_digest H" and document: "\<And>d. document = Some d \<Longrightarrow> \<forall>e\<in>set (md_entries d). entry_addressable H e"
    and kinds: "\<And>i w. resolve i = Some w \<Longrightarrow> known_kind w"
  shows "\<exists>q. resolve_path_b H document sources resolve lookup snapshot context_id = Inr q"
proof (cases document)
  case None
  then show ?thesis by (simp add: resolve_path_b_def)
next
  case (Some d)
  have "\<exists>r. mapping_record_of H d sources resolve e = Inr r" if "e \<in> set (md_entries d)" for e
    using document [OF Some] that by (auto simp: mapping_record_of_def entry_addressable_def)
  then obtain records where records: "traverse (mapping_record_of H d sources resolve) (md_entries d) = Inr records"
    using traverse_succeeds by metis
  have "\<exists>q. path_b_group H lookup snapshot context_id records i = Inr q"
    if i: "i \<in> set (map cw_id (somes (map mp_workload records)))" for i
  proof -
    obtain r w where r: "hd (workload_records records i) = r" "r \<in> set records" "mp_workload r = Some w" "cw_id w = i"
      by (rule workload_records_hd [OF i])
    have "known_kind w" using mapping_records [OF records r(2)] r(3) kinds by auto
    then obtain ref where ref: "workload_ref_of w = Inr ref" using known_kind_ref by blast
    have "r \<in> set (workload_records records i)" using r(2-4) by (simp add: workload_records_def)
    then have e: "sorted_set (map mp_evidence_id (workload_records records i)) \<noteq> []" by auto
    show ?thesis unfolding path_b_group_def Let_def workload_records_def [symmetric] r(1,3) option.sel ref and_then_simps
        compute_group_key_simps
      by (rule named_total [OF H _ e]) simp_all
  qed
  then obtain gs where gs: "traverse (path_b_group H lookup snapshot context_id records)
      (sorted_set (map cw_id (somes (map mp_workload records)))) = Inr gs"
    using traverse_succeeds [of "sorted_set (map cw_id (somes (map mp_workload records)))"] by (metis set_sorted_set)
  have "\<exists>q. path_b_unmatched H d snapshot context_id r = Inr q" for r
    using unsettled_contract [OF H] by (simp add: path_b_unmatched_def unsettled_result_Inr)
  then obtain us where "traverse (path_b_unmatched H d snapshot context_id)
        (sort_key (\<lambda>r. (md_artifact_id d, md_artifact_revision d, me_mapping_id (mp_entry r)))
          (filter (\<lambda>r. mp_workload r = None) records)) = Inr us"
    using traverse_succeeds by metis
  then show ?thesis by (simp add: resolve_path_b_def Some records gs)
qed

lemma standalone_total:
  assumes "hex_digest H" "\<not> is_resolved status"
  shows "\<exists>r. standalone_otel_resolution H snapshot context_id i status code evidence = Inr r"
  using unsettled_contract [OF assms(1)] assms(2) by (simp add: standalone_otel_resolution_def)

lemma agree_total: "known_kind w \<Longrightarrow> \<exists>b. consistency_attributes_agree obs pod w identity = Inr b"
  by (auto simp: consistency_attributes_agree_def known_kind_def)

lemma evaluate_total:
  assumes H: "hex_digest (dl_sha256 lib)" and kinds: "\<forall>i w. rd_workload rd i = Some w \<longrightarrow> known_kind w"
  shows "\<exists>x. evaluate_observation lib rd c snapshot context_id obs = Inr x"
proof -
  have alone: "\<exists>x. and_then (standalone_otel_resolution (dl_sha256 lib) snapshot context_id i status code evidence)
      (\<lambda>r. Inr (Inl r :: deployment_resolution + scoped_outcome)) = Inr x"
    if "\<not> is_resolved status" for i status code evidence
    using standalone_total [OF H that] by (auto simp: and_then_Inr)
  show ?thesis
  proof (cases "str_true (io_k8s_pod_uid obs)")
    case False
    then show ?thesis using alone by (simp add: evaluate_observation_def Let_def)
  next
    case uid: True
    show ?thesis
    proof (cases "\<exists>pod owner w. rd_pods_by_uid rd (the (io_k8s_pod_uid obs)) = [pod] \<and> rd_owners_of_pod rd (cp_pod_id pod) = [owner] \<and>
        rd_workload rd (ow_workload_id owner) = Some w")
      case True
      then obtain pod owner w where reads: "rd_pods_by_uid rd (the (io_k8s_pod_uid obs)) = [pod]"
        "rd_owners_of_pod rd (cp_pod_id pod) = [owner]" "rd_workload rd (ow_workload_id owner) = Some w" by (elim exE conjE)
      show ?thesis
      proof (cases "observation_context_limitation lib c obs pod \<noteq> None \<or> resolve_declared_service_id lib rd obs = None")
        case True
        then show ?thesis
          by (cases "observation_context_limitation lib c obs pod") (auto simp: evaluate_observation_def Let_def uid reads)
      next
        case False
        then obtain identity where "observation_context_limitation lib c obs pod = None" "resolve_declared_service_id lib rd obs = Some identity"
          by auto
        moreover obtain b where "consistency_attributes_agree obs pod w identity = Inr b"
          using agree_total kinds reads(3) by blast
        ultimately show ?thesis by (cases b) (simp_all add: evaluate_observation_def Let_def uid reads)
      qed
    next
      case unsettled: False
      show ?thesis
      proof (cases "\<exists>pod. rd_pods_by_uid rd (the (io_k8s_pod_uid obs)) = [pod]")
        case True
        then obtain pod where pod: "rd_pods_by_uid rd (the (io_k8s_pod_uid obs)) = [pod]" by blast
        show ?thesis
        proof (cases "\<exists>owner. rd_owners_of_pod rd (cp_pod_id pod) = [owner]")
          case True
          then obtain owner where owner: "rd_owners_of_pod rd (cp_pod_id pod) = [owner]" by blast
          then have "rd_workload rd (ow_workload_id owner) = None" using unsettled pod by simp
          then show ?thesis using alone by (simp add: evaluate_observation_def Let_def uid pod owner)
        next
          case False
          then show ?thesis using alone
            by (cases "rd_owners_of_pod rd (cp_pod_id pod)") (simp_all add: evaluate_observation_def Let_def uid pod)
        qed
      next
        case False
        then show ?thesis using alone
          by (cases "rd_pods_by_uid rd (the (io_k8s_pod_uid obs))") (simp_all add: evaluate_observation_def Let_def uid)
      qed
    qed
  qed
qed

text \<open>A group whose outcomes carry evidence, and a name where they carry a service.\<close>

definition full_outcome :: "scoped_outcome \<Rightarrow> bool" where
  "full_outcome o' = (so_evidence o' \<noteq> [] \<and> (so_service_id o' \<noteq> None \<longrightarrow> so_service_name o' \<noteq> None))"

lemma evaluate_full: "evaluate_observation lib rd c snapshot context_id obs = Inr (Inr o') \<Longrightarrow> full_outcome o'"
  by (erule evaluate_scoped) (auto simp: full_outcome_def split: option.splits)

lemma list_two_cases: "length xs > 1 \<or> (\<exists>x. xs = [x]) \<or> xs = []"
  by (cases xs rule: remdups_adj.cases) simp_all

lemma path_c_group_total:
  assumes H: "hex_digest H" and w: "w \<in> (\<lambda>o'. cw_id (so_workload o')) ` set outcomes"
    and full: "\<forall>o'\<in>set outcomes. full_outcome o' \<and> known_kind (so_workload o')"
  shows "\<exists>q. path_c_group H snapshot context_id outcomes w = Inr q"
proof -
  let ?ms = "group_outcomes outcomes w"
  let ?ids = "sorted_set (map fst (candidate_pairs ?ms))"
  have "?ms \<noteq> []" using w by (auto simp: group_outcomes_def filter_empty_conv)
  then have "hd ?ms \<in> set outcomes" using hd_in_set by (fastforce simp: group_outcomes_def)
  then obtain ref where ref: "workload_ref_of (so_workload (hd ?ms)) = Inr ref" using full known_kind_ref by blast
  note unfolded = path_c_group_def group_outcomes_def [symmetric] applicable_outcomes_def [symmetric]
      candidate_pairs_def [symmetric] Let_def ref and_then_simps compute_group_key_simps
  note contract = unsettled_contract [OF H]
  consider "list_ex (\<lambda>o'. so_outcome o' = Contradiction) ?ms"
    | "\<not> list_ex (\<lambda>o'. so_outcome o' = Contradiction) ?ms" "length ?ids > 1"
    | service where "\<not> list_ex (\<lambda>o'. so_outcome o' = Contradiction) ?ms" "?ids = [service]"
    | "\<not> list_ex (\<lambda>o'. so_outcome o' = Contradiction) ?ms" "?ids = []"
    using list_two_cases [of ?ids] by blast
  then show ?thesis
  proof cases
    case 3
    then have "service \<in> set (map fst (candidate_pairs ?ms))" by (metis list.set_intros(1) set_sorted_set)
    then obtain name where name: "map_of (rev (candidate_pairs ?ms)) service = Some name"
      by (metis map_of_eq_None_iff not_None_eq set_map set_rev)
    then have mem: "(service, name) \<in> set (candidate_pairs ?ms)" by (metis map_of_SomeD set_rev)
    then obtain o' where o': "o' \<in> set ?ms" "so_outcome o' = Candidate" "so_service_id o' \<noteq> None" "name = so_service_name o'"
      by (auto simp: candidate_pairs_def)
    have f: "full_outcome o'" using full o'(1) by (simp add: group_outcomes_def)
    then obtain n where n: "name = Some n" using o'(3,4) by (auto simp: full_outcome_def)
    have "o' \<in> set (applicable_outcomes ?ms)" using o'(1,2) by (simp add: applicable_outcomes_def)
    then have "concat (map so_evidence (applicable_outcomes ?ms)) \<noteq> []" using f by (auto simp: full_outcome_def)
    then show ?thesis
      using settled_contract [OF H] claim_of_contract [OF H] 3
      unfolding unfolded by (simp add: name n settled_result_Inr)
  next
    case 1
    then show ?thesis unfolding unfolded by (simp add: unsettled_result_Inr contract)
  next
    case 2
    then show ?thesis unfolding unfolded by (simp add: unsettled_result_Inr contract)
  next
    case 4
    then show ?thesis unfolding unfolded by (simp add: unsettled_result_Inr contract)
  qed
qed

lemma path_c_total:
  assumes H: "hex_digest (dl_sha256 lib)" and kinds: "\<forall>i w. rd_workload rd i = Some w \<longrightarrow> known_kind w"
  shows "\<exists>q. resolve_path_c lib rd observations c snapshot context_id = Inr q"
proof -
  obtain outcomes where o: "traverse (evaluate_observation lib rd c snapshot context_id) observations = Inr outcomes"
    using traverse_succeeds [of observations "evaluate_observation lib rd c snapshot context_id"] evaluate_total [OF H kinds] by blast
  have full: "\<forall>o'\<in>set (rights outcomes). full_outcome o' \<and> known_kind (so_workload o')"
  proof
    fix o' assume "o' \<in> set (rights outcomes)"
    then have "Inr o' \<in> set outcomes" by simp
    from traverse_mem [OF o this] obtain obs where e: "evaluate_observation lib rd c snapshot context_id obs = Inr (Inr o')" by blast
    have "known_kind (so_workload o')" by (rule evaluate_scoped [OF e]) (use kinds in blast)
    then show "full_outcome o' \<and> known_kind (so_workload o')" using evaluate_full [OF e] by simp
  qed
  have "\<exists>q. path_c_group (dl_sha256 lib) snapshot context_id (rights outcomes) w = Inr q"
    if "w \<in> set (sorted_set (map (\<lambda>o'. cw_id (so_workload o')) (rights outcomes)))" for w
    using path_c_group_total [OF H _ full] that by simp
  then obtain gs where "traverse (path_c_group (dl_sha256 lib) snapshot context_id (rights outcomes))
      (sorted_set (map (\<lambda>o'. cw_id (so_workload o')) (rights outcomes))) = Inr gs"
    using traverse_succeeds by metis
  then show ?thesis by (simp add: resolve_path_c_def o)
qed

subsection \<open>The refs of the members\<close>

definition workload_refs :: "graph_reads \<Rightarrow> workload_ref set" where
  "workload_refs rd = {ref. \<exists>w\<in>set (gr_workloads rd). workload_ref_of w = Inr ref}"

text \<open>The two workload reads agree: one row per id, of a known kind, and the read by id returns the listed row's ref.\<close>

definition workloads_aligned :: "graph_reads \<Rightarrow> bool" where
  "workloads_aligned rd \<longleftrightarrow> distinct (map cw_id (gr_workloads rd)) \<and>
     list_all (\<lambda>w. known_kind w \<and> annotations_evidenced w) (gr_workloads rd) \<and>
     (\<forall>i w. rd_workload rd i = Some w \<longrightarrow> (\<exists>v\<in>set (gr_workloads rd). workload_ref_of w = workload_ref_of v))"

lemma aligned_kinds: "workloads_aligned rd \<Longrightarrow> \<forall>i w. rd_workload rd i = Some w \<longrightarrow> known_kind w"
  unfolding workloads_aligned_def list_all_iff known_kind_ref by metis

lemma aligned_ref: "workloads_aligned rd \<Longrightarrow> rd_workload rd i = Some w \<Longrightarrow> workload_ref_of w = Inr ref \<Longrightarrow> ref \<in> workload_refs rd"
  unfolding workloads_aligned_def workload_refs_def by (metis (mono_tags, lifting) mem_Collect_eq)

lemma workload_refs_unique:
  assumes "workloads_aligned rd" "r \<in> workload_refs rd" "s \<in> workload_refs rd" "wr_id r = wr_id s"
  shows "r = s"
proof -
  obtain w v where w: "w \<in> set (gr_workloads rd)" "workload_ref_of w = Inr r" "v \<in> set (gr_workloads rd)" "workload_ref_of v = Inr s"
    using assms(2,3) by (auto simp: workload_refs_def)
  then have "cw_id w = cw_id v" using assms(4) workload_ref_of_id by metis
  then have "w = v" using assms(1) w by (auto simp: workloads_aligned_def distinct_map dest: inj_onD)
  then show ?thesis using w by simp
qed

lemma named_result_workload:
  "named_result H lookup how i w named evidence = Inr q \<Longrightarrow> m \<in> set (pr_resolutions q) \<Longrightarrow> dpr_workload m = Some w"
  by (auto simp: named_result_def unsettled_result_Inr settled_result_Inr unsettled_def settled_def split: if_splits option.splits)

lemma path_a_ref:
  assumes "resolve_path_a H (gr_workloads rd) lookup snapshot context_id = Inr q" "m \<in> set (pr_resolutions q)"
  shows "dpr_workload m \<in> Some ` workload_refs rd"
  using assms
proof (rule path_a_Inr)
  fix w p
  assume w: "w \<in> set (gr_workloads rd)" and p: "path_a_step H lookup snapshot context_id w = Inr p" "m \<in> set (pr_resolutions p)"
  show ?thesis
    by (rule path_a_step_Inr [OF p]) (use w named_result_workload p(2) in \<open>fastforce simp: workload_refs_def\<close>)
qed

lemma path_b_ref:
  assumes aligned: "workloads_aligned rd"
    and b: "resolve_path_b H document sources (rd_workload rd) lookup snapshot context_id = Inr q" "m \<in> set (pr_resolutions q)"
  shows "dpr_workload m \<in> insert None (Some ` workload_refs rd)"
  using b
proof (cases rule: path_b_Inr)
  case (grouped d records i p)
  from grouped(4,3) show ?thesis
  proof (rule path_b_group_Inr)
    fix r w ref
    assume r: "r \<in> set records" "mp_workload r = Some w" "workload_ref_of w = Inr ref"
      and n: "named_result H lookup RESOLVED_CONFIGURED
       (compute_deployment_resolution_id H snapshot context_id (workload_group_key (wr_id ref))) ref
       (sorted_set (map (\<lambda>r. me_service_id (mp_entry r)) (workload_records records i)))
       (sorted_set (map mp_evidence_id (workload_records records i))) = Inr p"
    obtain j where "rd_workload rd j = Some w" using mapping_records [OF grouped(2) r(1)] r(2) by auto
    then show ?thesis using named_result_workload [OF n grouped(5)] aligned_ref [OF aligned _ r(3)] by auto
  qed
next
  case (unmatched d records r p)
  then show ?thesis by (auto simp: path_b_unmatched_def unsettled_result_Inr unsettled_def)
qed

lemma path_c_ref:
  assumes aligned: "workloads_aligned rd"
    and c: "resolve_path_c lib (path_reads.truncate rd) observations c snapshot context_id = Inr q" "m \<in> set (pr_resolutions q)"
  shows "dpr_workload m \<in> insert None (Some ` workload_refs rd)"
  using c(1)
proof (cases rule: path_c_Inr)
  case (1 outcomes grouped)
  from c(2) consider "Inl m \<in> set outcomes" | p where "p \<in> set grouped" "m \<in> set (pr_resolutions p)"
    unfolding 1(3) by (auto simp: join_results_def)
  then show ?thesis
  proof cases
    case 1
    then obtain obs where "evaluate_observation lib (path_reads.truncate rd) c snapshot context_id obs = Inr (Inl m)"
      using traverse_mem [OF \<open>traverse (evaluate_observation _ _ _ _ _) _ = _\<close>] by blast
    then show ?thesis
      by (rule evaluate_standalone) (auto simp: standalone_otel_resolution_def unsettled_def)
  next
    case p: 2
    obtain w where w: "w \<in> set (sorted_set (map (\<lambda>o'. cw_id (so_workload o')) (rights outcomes)))"
      "path_c_group (dl_sha256 lib) snapshot context_id (rights outcomes) w = Inr p"
      using traverse_mem [OF 1(2) p(1)] by blast
    have "group_outcomes (rights outcomes) w \<noteq> []" using w(1) by (auto simp: group_outcomes_def filter_empty_conv)
    then have "hd (group_outcomes (rights outcomes) w) \<in> set (rights outcomes)"
      using hd_in_set by (fastforce simp: group_outcomes_def)
    then have "Inr (hd (group_outcomes (rights outcomes) w)) \<in> set outcomes" by simp
    from traverse_mem [OF 1(1) this] obtain obs where
      "evaluate_observation lib (path_reads.truncate rd) c snapshot context_id obs = Inr (Inr (hd (group_outcomes (rights outcomes) w)))"
      by blast
    then obtain j where "rd_workload rd j = Some (so_workload (hd (group_outcomes (rights outcomes) w)))"
      by (rule evaluate_scoped) auto
    note ref = aligned_ref [OF aligned this]
    from w(2) show ?thesis
      by (cases rule: path_c_group_cases)
        (use ref p(2) in \<open>auto simp: unsettled_result_Inr settled_result_Inr unsettled_def settled_def\<close>)
  qed
qed

lemma path_c_of_ref:
  assumes aligned: "workloads_aligned rd" and q: "path_c_of lib rd requested snapshot context_id = Inr q" and m: "m \<in> set (pr_resolutions q)"
  shows "dpr_workload m \<in> insert None (Some ` workload_refs rd)"
proof (cases requested)
  case (Some c)
  then show ?thesis using q path_c_ref [OF aligned _ m] by (simp add: path_c_of_def)
next
  case None
  with q have "resolve_path_c_context_free lib (path_reads.truncate rd) (gr_observations rd) snapshot context_id = Inr q"
    by (simp add: path_c_of_def)
  then show ?thesis
  proof (rule context_free_parts)
    fix batches
    assume "\<And>m. m \<in> set (pr_resolutions q) \<Longrightarrow> \<exists>(bucket, c)\<in>set batches. \<exists>p.
        resolve_path_c lib (path_reads.truncate rd) bucket c snapshot context_id = Inr p \<and> m \<in> set (pr_resolutions p)"
    then obtain bucket c p where "resolve_path_c lib (path_reads.truncate rd) bucket c snapshot context_id = Inr p"
        "m \<in> set (pr_resolutions p)" using m by blast
    then show ?thesis by (rule path_c_ref [OF aligned])
  qed
qed

lemma ids_separate:
  assumes aligned: "workloads_aligned rd" and free: "collision_free H snapshot context_id (run_group_keys rd document)"
    and kinds: "\<forall>m\<in>set ms. member_kind H snapshot context_id rd document m"
    and refs: "\<forall>m\<in>set ms. dpr_workload m \<in> insert None (Some ` workload_refs rd)"
  shows "ids_separate_workloads ms"
  unfolding ids_separate_workloads_def list_all_iff
proof (intro ballI impI)
  fix m n
  assume m: "m \<in> set ms" and n: "n \<in> set ms" and same: "dpr_resolution_id m = dpr_resolution_id n"
  obtain k where k: "k \<in> run_group_keys rd document" "in_group H snapshot context_id k m" using member_kind_key kinds m by blast
  obtain j where j: "j \<in> run_group_keys rd document" "in_group H snapshot context_id j n" using member_kind_key kinds n by blast
  have "j = k" using group_key_unique [OF free k(1) j(1) k(2) j(2) same] by simp
  note j = j(2) [unfolded this]
  show "dpr_workload m = dpr_workload n"
  proof (cases "dpr_workload m")
    case None
    then have "k \<noteq> workload_group_key w" for w using k(2) by (auto simp: in_group_def group_keys_disjoint group_keys_disjoint [symmetric])
    then show ?thesis using None j by (auto simp: in_group_def split: option.splits)
  next
    case (Some r)
    then have kr: "k = workload_group_key (wr_id r)" using k(2) by (simp add: in_group_def)
    then have "dpr_workload n \<noteq> None" using in_group_workload [of H snapshot context_id "wr_id r" n] j by simp
    then obtain s where s: "dpr_workload n = Some s" by auto
    then have "workload_group_key (wr_id s) = workload_group_key (wr_id r)" using j kr by (simp add: in_group_def)
    then have "wr_id r = wr_id s" by (simp add: workload_group_key_def)
    moreover have "r \<in> workload_refs rd" "s \<in> workload_refs rd" using refs m n Some s by auto
    ultimately show ?thesis using workload_refs_unique [OF aligned] Some s by simp
  qed
qed

subsection \<open>Windows of a context-free run\<close>

definition environments_ok :: "deployment_library \<Rightarrow> identity_row list \<Rightarrow> bool" where
  "environments_ok lib observations =
     list_all (\<lambda>obs. environment_ok lib (environment_or_placeholder (io_environment obs))) observations"

text \<open>The window built for an observation that reaches no workload.\<close>

definition standalone_windows_ok :: "deployment_library \<Rightarrow> path_reads \<Rightarrow> identity_row list \<Rightarrow> bool" where
  "standalone_windows_ok lib rd observations =
     list_all (\<lambda>obs. let a = (case io_first_seen obs of None \<Rightarrow> EPOCH | Some t \<Rightarrow> t);
                         b = (case io_last_seen obs of None \<Rightarrow> EPOCH | Some t \<Rightarrow> t) in
         a \<le> b \<and> b - a \<le> MAX_OBSERVATION_WINDOW)
       (filter (\<lambda>obs. resolve_workload_group_key lib rd obs = None) observations)"

lemma build_observation_context_iff:
  assumes "hex_digest (dl_sha256 lib)"
  shows "(\<exists>c. build_observation_context_ref lib e a b = Inr c) \<longleftrightarrow>
    environment_ok lib e \<and> a \<le> b \<and> b - a \<le> MAX_OBSERVATION_WINDOW"
  using build_observation_context_total [OF assms, of e a b] build_observation_context_InrD [of lib e a b]
  by (auto simp: context_contract_def)

lemma window_batch_iff:
  assumes H: "hex_digest (dl_sha256 lib)" and b: "b \<in> set (bucket_by_window rows)"
  shows "(\<exists>x. window_batch lib environment b = Inr x) \<longleftrightarrow> environment_ok lib (environment_or_placeholder environment)"
proof -
  obtain rs w where rs: "b = (rs, w)" by (cases b)
  have "(\<exists>x. window_batch lib environment b = Inr x) \<longleftrightarrow> (\<exists>c. build_observation_context_ref lib
      (environment_or_placeholder environment) (fst (case w of Some s \<Rightarrow> s | None \<Rightarrow> (EPOCH, EPOCH)))
      (snd (case w of Some s \<Rightarrow> s | None \<Rightarrow> (EPOCH, EPOCH))) = Inr c)"
    by (auto simp: rs window_batch_def Let_def and_then_Inr)
  moreover have "fst ab \<le> snd ab \<and> snd ab - fst ab \<le> MAX_OBSERVATION_WINDOW" if "w = Some ab" for ab
    using bucket_window_ok [of rs ab rows] b rs that by (cases ab) (simp add: bucket_ok_def)
  ultimately show ?thesis
    unfolding build_observation_context_iff [OF H] using window_positive by (cases w) auto
qed

lemma traverse_iff: "(\<exists>ys. traverse f xs = Inr ys) \<longleftrightarrow> (\<forall>x\<in>set xs. \<exists>y. f x = Inr y)"
proof
  assume "\<exists>ys. traverse f xs = Inr ys"
  then obtain ys where t: "traverse f xs = Inr ys" by blast
  show "\<forall>x\<in>set xs. \<exists>y. f x = Inr y" using traverse_mem' [OF t] by blast
next
  assume "\<forall>x\<in>set xs. \<exists>y. f x = Inr y"
  then show "\<exists>ys. traverse f xs = Inr ys" by (intro traverse_succeeds) blast
qed

lemma bucketing_iff:
  assumes H: "hex_digest (dl_sha256 lib)"
  shows "(\<exists>batches. bucket_context_free_observations lib rd observations = Inr batches) \<longleftrightarrow>
    environments_ok lib observations \<and> standalone_windows_ok lib rd observations"
proof -
  let ?keyed = "keyed_rows lib rd observations"
  let ?list = "concat (map (\<lambda>k. map (Pair (snd k)) (bucket_by_window (rows_of_key ?keyed k))) (first_occurrences (map fst ?keyed)))"
  let ?alone = "filter (\<lambda>obs. resolve_workload_group_key lib rd obs = None) observations"
  let ?ok = "\<lambda>obs. environment_ok lib (environment_or_placeholder (io_environment obs))"
  have "(\<exists>ys. traverse (\<lambda>(environment, bucket). window_batch lib environment bucket) ?list = Inr ys) \<longleftrightarrow>
      (\<forall>x\<in>set ?list. environment_ok lib (environment_or_placeholder (fst x)))"
    unfolding traverse_iff using window_batch_iff [OF H] by fastforce
  also have "\<dots> \<longleftrightarrow> (\<forall>obs\<in>set observations. resolve_workload_group_key lib rd obs \<noteq> None \<longrightarrow> ?ok obs)" (is "?all \<longleftrightarrow> ?each")
  proof
    assume all: ?all
    show ?each
    proof (intro ballI impI)
      fix obs
      assume "obs \<in> set observations" "resolve_workload_group_key lib rd obs \<noteq> None"
      then obtain w captured where k: "((w, io_environment obs), (obs, captured)) \<in> set ?keyed"
        unfolding keyed_rows_mem by fastforce
      then have "(obs, captured) \<in> set (rows_of_key ?keyed (w, io_environment obs))" by (force simp: rows_of_key_def image_iff)
      then obtain b win where "(b, win) \<in> set (bucket_by_window (rows_of_key ?keyed (w, io_environment obs)))"
        by (rule bucket_of_row)
      moreover have "(w, io_environment obs) \<in> set (first_occurrences (map fst ?keyed))" using k by (force simp: first_occurrences_def)
      ultimately have "(io_environment obs, (b, win)) \<in> set ?list" by (force simp: image_iff)
      then show "?ok obs" using all by fastforce
    qed
  next
    assume each: ?each
    show ?all
    proof
      fix x assume "x \<in> set ?list"
      then obtain k where "k \<in> set (first_occurrences (map fst ?keyed))" "fst x = snd k" by auto
      then obtain r where "(k, r) \<in> set ?keyed" "fst x = snd k" by (auto simp: first_occurrences_def)
      then show "environment_ok lib (environment_or_placeholder (fst x))" using each unfolding keyed_rows_mem by force
    qed
  qed
  finally have windows: "(\<exists>ys. traverse (\<lambda>(environment, bucket). window_batch lib environment bucket) ?list = Inr ys) \<longleftrightarrow> ?each" .
  have batch: "(\<exists>x. standalone_batch lib obs = Inr x) \<longleftrightarrow> (\<exists>c. build_observation_context_ref lib
      (environment_or_placeholder (io_environment obs)) (case io_first_seen obs of None \<Rightarrow> EPOCH | Some t \<Rightarrow> t)
      (case io_last_seen obs of None \<Rightarrow> EPOCH | Some t \<Rightarrow> t) = Inr c)" for obs
    by (auto simp: standalone_batch_def and_then_Inr)
  have alone: "(\<exists>ys. traverse (standalone_batch lib) ?alone = Inr ys) \<longleftrightarrow>
      standalone_windows_ok lib rd observations \<and> (\<forall>obs\<in>set ?alone. ?ok obs)"
    unfolding traverse_iff batch build_observation_context_iff [OF H] standalone_windows_ok_def list_all_iff Let_def by blast
  have "(\<exists>batches. bucket_context_free_observations lib rd observations = Inr batches) \<longleftrightarrow>
      (\<exists>ys. traverse (\<lambda>(environment, bucket). window_batch lib environment bucket) ?list = Inr ys) \<and>
      (\<exists>ys. traverse (standalone_batch lib) ?alone = Inr ys)"
    by (auto simp: bucket_context_free_observations_def Let_def and_then_Inr)
  moreover have "(\<forall>obs\<in>set observations. ?ok obs) \<longleftrightarrow> ?each \<and> (\<forall>obs\<in>set ?alone. ?ok obs)" unfolding set_filter by blast
  ultimately show ?thesis unfolding windows alone environments_ok_def list_all_iff by blast
qed

lemma path_c_context_free_iff:
  assumes H: "hex_digest (dl_sha256 lib)" and kinds: "\<forall>i w. rd_workload rd i = Some w \<longrightarrow> known_kind w"
  shows "(\<exists>q. resolve_path_c_context_free lib rd observations snapshot context_id = Inr q) \<longleftrightarrow>
    environments_ok lib observations \<and> standalone_windows_ok lib rd observations"
proof -
  have "\<exists>ps. traverse (\<lambda>(bucket, c). resolve_path_c lib rd bucket c snapshot context_id) batches = Inr ps" for batches
    unfolding traverse_iff using path_c_total [OF H kinds] by auto
  then have "(\<exists>q. resolve_path_c_context_free lib rd observations snapshot context_id = Inr q) \<longleftrightarrow>
      (\<exists>batches. bucket_context_free_observations lib rd observations = Inr batches)"
    by (auto simp: resolve_path_c_context_free_def and_then_Inr)
  then show ?thesis unfolding bucketing_iff [OF H] .
qed

subsection \<open>Whole runs\<close>

definition run_well_formed :: "deployment_library \<Rightarrow> graph_reads \<Rightarrow> mapping_document option \<Rightarrow> string \<Rightarrow> string \<Rightarrow> bool" where
  "run_well_formed lib rd document snapshot context_id \<longleftrightarrow> hex_digest (dl_sha256 lib) \<and> reads_consistent rd \<and> workloads_aligned rd \<and>
     (case document of None \<Rightarrow> True | Some d \<Rightarrow> list_all (entry_addressable (dl_sha256 lib)) (md_entries d)) \<and>
     collision_free (dl_sha256 lib) snapshot context_id (run_group_keys rd document)"

lemma run_iff:
  assumes wf: "run_well_formed lib rd document snapshot context_id"
  shows "(\<exists>g. run_whole_graph_reconciliation lib rd document sources requested snapshot context_id = Inr g) \<longleftrightarrow>
    (\<exists>q. path_c_of lib rd requested snapshot context_id = Inr q)"
proof
  assume "\<exists>g. run_whole_graph_reconciliation lib rd document sources requested snapshot context_id = Inr g"
  then show "\<exists>q. path_c_of lib rd requested snapshot context_id = Inr q" by (auto elim: run_Inr)
next
  assume "\<exists>q. path_c_of lib rd requested snapshot context_id = Inr q"
  then obtain q where q: "path_c_of lib rd requested snapshot context_id = Inr q" by blast
  let ?H = "dl_sha256 lib"
  have H: "hex_digest ?H" and consistent: "reads_consistent rd" and aligned: "workloads_aligned rd"
    and free: "collision_free ?H snapshot context_id (run_group_keys rd document)"
    and document: "\<And>d. document = Some d \<Longrightarrow> \<forall>e\<in>set (md_entries d). entry_addressable ?H e"
    using wf by (auto simp: run_well_formed_def list_all_iff)
  obtain a where a: "resolve_path_a ?H (gr_workloads rd) (map_of (gr_declared rd)) snapshot context_id = Inr a"
    using path_a_total [OF H, of "gr_workloads rd"] aligned unfolding workloads_aligned_def list_all_iff by blast
  obtain b where b: "resolve_path_b ?H document sources (rd_workload rd) (map_of (gr_declared rd)) snapshot context_id = Inr b"
    using path_b_total [of ?H document "rd_workload rd" sources, OF H document] aligned_kinds [OF aligned] by metis
  note members = run_members [OF consistent a b q]
  have refs: "\<forall>m\<in>set (all_resolutions (run_results a b q)). dpr_workload m \<in> insert None (Some ` workload_refs rd)"
  proof
    fix m assume "m \<in> set (all_resolutions (run_results a b q))"
    then consider "m \<in> set (pr_resolutions a)" | m0 where "m0 \<in> set (pr_resolutions b)" "m = publicized m0"
      | m0 where "m0 \<in> set (pr_resolutions q)" "m = publicized m0"
      unfolding all_resolutions_def run_results_def by (auto simp: publicize_resolutions)
    then show "dpr_workload m \<in> insert None (Some ` workload_refs rd)"
      by cases (use path_a_ref [OF a] path_b_ref [OF aligned b] path_c_of_ref [OF aligned q] in \<open>simp_all\<close>)
  qed
  have "ids_separate_workloads (all_resolutions (run_results a b q))"
    by (rule ids_separate [OF aligned free _ refs]) (use members(2) in blast)
  then obtain red where "reduce_cross_path_resolutions ?H a (publicize_evidence_refs b) (publicize_evidence_refs q) = Inr red"
    using reduce_cross_total [OF H path_a_ok [OF a] publicize_ok [OF path_b_ok [OF b]] publicize_ok [OF path_c_of_ok [OF q]]]
    unfolding run_results_def by blast
  then show "\<exists>g. run_whole_graph_reconciliation lib rd document sources requested snapshot context_id = Inr g"
    by (simp add: run_whole_graph_reconciliation_def Let_def a b q)
qed

lemma context_run_total:
  assumes "run_well_formed lib rd document snapshot context_id"
  shows "\<exists>g. run_whole_graph_reconciliation lib rd document sources (Some c) snapshot context_id = Inr g"
proof -
  have "hex_digest (dl_sha256 lib)" "\<forall>i w. rd_workload (path_reads.truncate rd) i = Some w \<longrightarrow> known_kind w"
    using assms aligned_kinds by (auto simp: run_well_formed_def)
  from path_c_total [OF this] show ?thesis unfolding run_iff [OF assms] by (simp add: path_c_of_def)
qed

text \<open>C16: over well-formed reads a run for a requested observation context always returns, and the context-free run of
  \<open>get_evidence\<close> returns exactly when every identity row has an environment the contract accepts (or none) and every
  row that reaches no workload spans a valid window.  One persisted row with, say, a leading space in its
  environment, which ingestion accepts, therefore makes every context-free run raise, although the runs for a
  context still answer.\<close>

theorem run_returns_iff:
  assumes "run_well_formed lib rd document snapshot context_id"
  shows "(\<exists>g. run_whole_graph_reconciliation lib rd document sources requested snapshot context_id = Inr g) \<longleftrightarrow>
    requested \<noteq> None \<or>
    environments_ok lib (gr_observations rd) \<and> standalone_windows_ok lib (path_reads.truncate rd) (gr_observations rd)"
proof (cases requested)
  case None
  have "hex_digest (dl_sha256 lib)" "\<forall>i w. rd_workload (path_reads.truncate rd) i = Some w \<longrightarrow> known_kind w"
    using assms aligned_kinds by (auto simp: run_well_formed_def)
  from path_c_context_free_iff [OF this] show ?thesis unfolding run_iff [OF assms] by (simp add: path_c_of_def None)
next
  case (Some c)
  then show ?thesis using context_run_total [OF assms] by auto
qed

section \<open>A graph with one workload\<close>

text \<open>A character is a control character when its three high bits are unset: quicker to evaluate.\<close>

lemma json_char_code [code]:
  "json_char c = (case map_of json_escapes c of
       Some e \<Rightarrow> [backslash, e]
     | None \<Rightarrow> if \<not> digit5 c \<and> \<not> digit6 c \<and> \<not> digit7 c
         then [backslash, CHR ''u'', CHR ''0'', CHR ''0'', nibble (of_char c div 16), nibble (of_char c mod 16)]
         else [c])"
proof -
  have "(of_char c :: nat) < 32 \<longleftrightarrow> \<not> digit5 c \<and> \<not> digit6 c \<and> \<not> digit7 c"
    by (cases c) (auto simp: of_char_def)
  then show ?thesis by (simp only: json_char_def)
qed

definition ex_digest :: "bytes \<Rightarrow> string" where
  "ex_digest b = replicate 64 (if even (length b) then CHR ''0'' else CHR ''1'')"

definition ex_library :: deployment_library where
  "ex_library = \<lparr>dl_sha256 = ex_digest,
     dl_text = \<lparr>tx_lower = id, tx_upper = id, tx_casefold = id, tx_strip = id, tx_nfc = id, tx_bytes_repr = id\<rparr>,
     dl_fromisoformat = (\<lambda>_. IsoAware 5), dl_environment_pattern = (\<lambda>_. False)\<rparr>"

definition ex_workload :: current_workload where
  "ex_workload = \<lparr>cw_id = ''w'', cw_kind = ''Deployment'', cw_namespace = ''shop'', cw_name = ''orders'',
     cw_contributions = [\<lparr>wc_annotation = Some ''service:orders'', wc_evidence = [''evidence:k8s'']\<rparr>]\<rparr>"

definition ex_identity :: "string \<Rightarrow> identity_row" where
  "ex_identity environment = \<lparr>io_id = ''runtime-identity:otel:12'', io_service_name = ''orders'', io_service_namespace = None,
     io_service_version = None, io_environment = Some environment, io_k8s_pod_uid = Some ''u'', io_k8s_pod_name = Some ''p'',
     io_k8s_namespace_name = None, io_k8s_cluster_uid = None, io_k8s_deployment_name = Some ''orders'',
     io_k8s_statefulset_name = None, io_k8s_daemonset_name = None, io_last_seen = Some 6, io_first_seen = Some 4,
     io_observation_count = Some 2, io_rule_id = None, io_rule_version = None, io_conflicting = []\<rparr>"

definition ex_reads :: "string \<Rightarrow> graph_reads" where
  "ex_reads environment =
     \<lparr>rd_pods_by_uid = (\<lambda>u. if u = ''u'' then [\<lparr>cp_pod_id = ''pod'', cp_pod_name = ''p'', cp_pod_namespace = ''shop'',
        cp_cluster_uid = ''c'', cp_captured_at = Some ''t'', cp_evidence = [''evidence:pod'']\<rparr>] else []),
      rd_owners_of_pod = (\<lambda>p. [\<lparr>ow_workload_id = ''w'', ow_evidence = [''evidence:owner'']\<rparr>]),
      rd_workload = (\<lambda>i. if i = ''w'' then Some ex_workload else None),
      rd_candidates = [\<lparr>dc_id = ''service:orders'', dc_name = ''orders'', dc_namespace = None\<rparr>], rd_aliases = [],
      rd_identity = (\<lambda>i. if i = ''service:orders'' then Some \<lparr>di_service_id = ''service:orders'', di_name = ''orders'',
        di_namespace = None, di_version = None\<rparr> else None),
      gr_declared = [(''service:orders'', ''orders'')], gr_workloads = [ex_workload],
      gr_observations = [ex_identity environment]\<rparr>"

definition ex_window :: observation_context_ref where
  "ex_window = \<lparr>ox_context_id = ''aip:observation-context:v1:'' @ replicate 64 CHR ''0'', ox_environment = ''prod'',
     ox_start = 0, ox_end = 10\<rparr>"

lemma ex_digest_hex: "hex_digest ex_digest"
  by (simp add: hex_digest_def ex_digest_def hex_char_def ascii_digit_def list_all_iff)

lemma ex_keys: "run_group_keys (ex_reads e) None = {workload_group_key ''w'', otel_group_key ''runtime-identity:otel:12''}"
  by (auto simp: run_group_keys_def mapping_keys_def ex_reads_def ex_workload_def ex_identity_def)

lemma inj_on_pair: "f a \<noteq> f b \<Longrightarrow> inj_on f {a, b}"
  by (auto simp: inj_on_def)

lemma ex_free:
  "collision_free ex_digest ''s'' ''a'' (run_group_keys (ex_reads e) None)"
  "collision_free ex_digest ''s'' ''bb'' (run_group_keys (ex_reads e) None)"
proof -
  have "compute_deployment_resolution_id ex_digest ''s'' ''a'' (workload_group_key ''w'') \<noteq>
      compute_deployment_resolution_id ex_digest ''s'' ''a'' (otel_group_key ''runtime-identity:otel:12'')"
    by code_simp
  then show "collision_free ex_digest ''s'' ''a'' (run_group_keys (ex_reads e) None)"
    unfolding collision_free_def ex_keys by (rule inj_on_pair)
  have "compute_deployment_resolution_id ex_digest ''s'' ''bb'' (workload_group_key ''w'') \<noteq>
      compute_deployment_resolution_id ex_digest ''s'' ''bb'' (otel_group_key ''runtime-identity:otel:12'')"
    by code_simp
  then show "collision_free ex_digest ''s'' ''bb'' (run_group_keys (ex_reads e) None)"
    unfolding collision_free_def ex_keys by (rule inj_on_pair)
qed

lemma ex_consistent: "reads_consistent (ex_reads e)"
  by (auto simp: reads_consistent_def ex_reads_def ex_workload_def)

lemma ex_aligned: "workloads_aligned (ex_reads e)"
  by (auto simp: workloads_aligned_def ex_reads_def ex_workload_def known_kind_def annotations_evidenced_def workload_kind_by_raw_def)

lemma ex_well_formed: "run_well_formed ex_library (ex_reads e) None ''s'' ''a''" "run_well_formed ex_library (ex_reads e) None ''s'' ''bb''"
  using ex_digest_hex ex_free ex_consistent ex_aligned by (simp_all add: run_well_formed_def ex_library_def)

lemma ex_key: "resolve_workload_group_key ex_library (path_reads.truncate (ex_reads e)) (ex_identity e) = Some (''w'', Some 5)"
  by (simp add: resolve_workload_group_key_def path_reads.truncate_def ex_reads_def ex_identity_def str_true_def parse_rfc3339_def
      ex_library_def)

lemma ex_standalone: "standalone_windows_ok ex_library (path_reads.truncate (ex_reads e)) (gr_observations (ex_reads e))"
  using ex_key by (simp add: standalone_windows_ok_def ex_reads_def)

lemma ex_environments:
  "environments_ok ex_library (gr_observations (ex_reads ''prod''))" "\<not> environments_ok ex_library (gr_observations (ex_reads '' prod''))"
  by code_simp+

theorem run_returns_iff_witness:
  "(\<exists>g. run_whole_graph_reconciliation ex_library (ex_reads '' prod'') None [] (Some ex_window) ''s'' ''a'' = Inr g) \<and>
   \<not> (\<exists>g. run_whole_graph_reconciliation ex_library (ex_reads '' prod'') None [] None ''s'' ''a'' = Inr g) \<and>
   (\<exists>g. run_whole_graph_reconciliation ex_library (ex_reads ''prod'') None [] None ''s'' ''bb'' = Inr g)"
  using run_returns_iff [OF ex_well_formed(1) [of "'' prod''"]] run_returns_iff [OF ex_well_formed(2) [of "''prod''"]]
    ex_environments ex_standalone by simp

lemma ex_ref: "workload_ref_of ex_workload = Inr \<lparr>wr_id = ''w'', wr_name = ''orders'', wr_kind = DEPLOYMENT, wr_namespace = ''shop''\<rparr>"
  by (simp add: workload_ref_of_def ex_workload_def workload_kind_by_raw_def)

text \<open>Path A of the example resolves the workload to the annotated service.\<close>

lemma ex_path_a:
  assumes "resolve_path_a ex_digest (gr_workloads (ex_reads e)) (map_of (gr_declared (ex_reads e))) s c = Inr q"
  shows "\<exists>m\<in>set (pr_resolutions q). applicable m \<and> dpr_candidates m = [''service:orders''] \<and> dpr_supporting m = [''evidence:k8s'']"
proof -
  have step: "path_a_step ex_digest (map_of (gr_declared (ex_reads e))) s c ex_workload =
    settled_result ex_digest (compute_deployment_resolution_id ex_digest s c (workload_group_key ''w'')) ''service:orders'' ''orders''
      \<lparr>wr_id = ''w'', wr_name = ''orders'', wr_kind = DEPLOYMENT, wr_namespace = ''shop''\<rparr> RESOLVED_EXPLICIT [''evidence:k8s'']"
    by (simp add: path_a_step_def Let_def ex_ref named_result_def ex_reads_def) (simp add: ex_workload_def)
  have "path_a_step ex_digest (map_of (gr_declared (ex_reads e))) s c ex_workload = Inr q' \<Longrightarrow>
      \<exists>m\<in>set (pr_resolutions q'). applicable m \<and> dpr_candidates m = [''service:orders''] \<and> dpr_supporting m = [''evidence:k8s'']" for q'
    unfolding step settled_result_Inr by (auto simp: applicable_def settled_def)
  moreover have "ex_workload \<in> set (gr_workloads (ex_reads e))" by (simp add: ex_reads_def)
  ultimately show ?thesis using path_a_step_in [OF assms] by blast
qed

lemma ex_shown:
  assumes "run_whole_graph_reconciliation ex_library (ex_reads e) None [] (Some ex_window) ''s'' ''a'' = Inr g"
  shows "\<exists>r\<in>set (pr_resolutions (wg_reduced g)). ''service:orders'' \<in> set (dpr_candidates r) \<and> ''evidence:k8s'' \<in> evidence_set r"
  using assms
proof (rule run_Inr)
  fix a b c red
  assume a: "resolve_path_a (dl_sha256 ex_library) (gr_workloads (ex_reads e)) (map_of (gr_declared (ex_reads e))) ''s'' ''a'' = Inr a"
    and b: "resolve_path_b (dl_sha256 ex_library) None [] (rd_workload (ex_reads e)) (map_of (gr_declared (ex_reads e))) ''s'' ''a'' = Inr b"
    and c: "path_c_of ex_library (ex_reads e) (Some ex_window) ''s'' ''a'' = Inr c"
    and red: "reduce_cross_path_resolutions (dl_sha256 ex_library) a (publicize_evidence_refs b) (publicize_evidence_refs c) = Inr red"
    and g: "wg_reduced g = red"
  obtain m where m: "m \<in> set (pr_resolutions a)" "applicable m" "dpr_candidates m = [''service:orders'']"
      "dpr_supporting m = [''evidence:k8s'']"
    using ex_path_a [of e "''s''" "''a''" a] a by (auto simp: ex_library_def)
  note members = run_members [OF ex_consistent a b c, unfolded run_results_def]
  have mem: "m \<in> set (all_resolutions [a, publicize_evidence_refs b, publicize_evidence_refs c])"
    using m(1) by (simp add: all_resolutions_def)
  from red mem show ?thesis
  proof (rule reduced_of_member)
    fix r claim
    let ?ms = "group_members [a, publicize_evidence_refs b, publicize_evidence_refs c] (dpr_resolution_id m)"
    assume r: "r \<in> set (pr_resolutions red)" and group: "m \<in> set ?ms"
      and reduced: "reduce_group (dl_sha256 ex_library) (claims_by_id [a, publicize_evidence_refs b, publicize_evidence_refs c]) ?ms = Inr (r, claim)"
    have ok: "\<forall>m\<in>set ?ms. member_ok (dl_sha256 ex_library) m" using members(1) by (simp add: set_group_members)
    have some: "\<exists>m\<in>set ?ms. applicable m" using group m(2) by blast
    have "''service:orders'' \<in> set (dpr_candidates r)" using reduced_candidates [OF reduced ok some] group m(2,3) by auto
    moreover have "''evidence:k8s'' \<in> evidence_set r"
      using reduced_evidence [OF reduced ok some] group m(2,4) unfolding evidence_set_def by auto
    ultimately show ?thesis using r unfolding g by blast
  qed
qed

lemma ex_window_contract: "context_contract ex_library ex_window"
  by code_simp

section \<open>Two paths that name services of one workload\<close>

definition ex_workload_ref :: workload_ref where
  "ex_workload_ref = \<lparr>wr_id = ''w'', wr_name = ''orders'', wr_kind = DEPLOYMENT, wr_namespace = ''shop''\<rparr>"

definition ex_group :: string where
  "ex_group = compute_deployment_resolution_id ex_digest ''s'' ''a'' (workload_group_key ''w'')"

definition ex_path :: "string \<Rightarrow> deployment_method \<Rightarrow> string \<Rightarrow> path_result" where
  "ex_path service how ref =
     \<lparr>pr_resolutions = [settled ex_group ex_workload_ref how service [ref] (compute_deployment_claim_id ex_digest service ''w'')],
      pr_claims = [claim_of ex_digest service ''orders'' ex_workload_ref how [ref]]\<rparr>"

lemma ex_path_ok: "result_ok ex_digest ''s'' ''a'' (ex_path service how ref)"
proof -
  have w: "wr_id ex_workload_ref = ''w''" by (simp add: ex_workload_ref_def)
  have "settled_result ex_digest ex_group service ''orders'' ex_workload_ref how [ref] = Inr (ex_path service how ref)"
    unfolding settled_result_Inr ex_path_def ex_group_def
    using claim_of_contract [OF ex_digest_hex, of "[ref]" service "''orders''" ex_workload_ref how]
      settled_contract [OF ex_digest_hex, of "[ref]" "''s''" "''a''" "workload_group_key ''w''" ex_workload_ref how service]
    by (simp add: w)
  then show ?thesis unfolding ex_group_def by (metis result_ok_settled w)
qed

lemma ex_reduction_total: "\<exists>q. reduce_cross_path_resolutions ex_digest (ex_path s1 m1 r1) (ex_path s2 m2 r2) empty_result = Inr q"
  by (rule reduce_cross_total [OF ex_digest_hex ex_path_ok ex_path_ok result_ok_empty])
    (simp add: ids_separate_workloads_def all_resolutions_def ex_path_def empty_result_def settled_def)

lemma ex_reduction_group: "group_ids [ex_path s1 m1 r1, ex_path s2 m2 r2, empty_result] = [ex_group]"
  "group_members [ex_path s1 m1 r1, ex_path s2 m2 r2, empty_result] ex_group =
     pr_resolutions (ex_path s1 m1 r1) @ pr_resolutions (ex_path s2 m2 r2)"
  by (simp_all add: group_ids_def group_members_def ex_path_def empty_result_def settled_def sorted_set_def)

lemma two_services_conflict: "services_of ms = {s, t} \<Longrightarrow> s \<noteq> t \<Longrightarrow> group_verdict ms = CONFLICT"
  by (simp add: group_verdict_def) blast

theorem reduction_gives_verdicts_witness:
  "\<exists>q. reduce_cross_path_resolutions ex_digest (ex_path ''service:a'' RESOLVED_EXPLICIT ''evidence:1'')
       (ex_path ''service:b'' RESOLVED_CONFIGURED ''evidence:2'') empty_result = Inr q \<and>
     map (\<lambda>r. (dpr_resolution_id r, dpr_status r)) (pr_resolutions q) = [(ex_group, CONFLICT)]"
proof -
  obtain q where q: "reduce_cross_path_resolutions ex_digest (ex_path ''service:a'' RESOLVED_EXPLICIT ''evidence:1'')
       (ex_path ''service:b'' RESOLVED_CONFIGURED ''evidence:2'') empty_result = Inr q"
    using ex_reduction_total by blast
  have "services_of (pr_resolutions (ex_path ''service:a'' RESOLVED_EXPLICIT ''evidence:1'') @
      pr_resolutions (ex_path ''service:b'' RESOLVED_CONFIGURED ''evidence:2'')) = {''service:a'', ''service:b''}"
    unfolding services_of_set [symmetric] by (simp add: ex_path_def settled_def)
  moreover have "''service:a'' \<noteq> (''service:b'' :: string)" by simp
  ultimately have "group_verdict (pr_resolutions (ex_path ''service:a'' RESOLVED_EXPLICIT ''evidence:1'') @
      pr_resolutions (ex_path ''service:b'' RESOLVED_CONFIGURED ''evidence:2'')) = CONFLICT"
    by (intro two_services_conflict)
  then have "map (\<lambda>r. (dpr_resolution_id r, dpr_status r)) (pr_resolutions q) = [(ex_group, CONFLICT)]"
    using reduction_gives_verdicts [OF q] by (simp add: ex_reduction_group)
  then show ?thesis using q by (intro exI [of _ q] conjI)
qed

theorem claims_are_resolved_resolutions_witness:
  "\<exists>q. reduce_cross_path_resolutions ex_digest (ex_path ''service:a'' RESOLVED_EXPLICIT ''evidence:1'')
       (ex_path ''service:a'' RESOLVED_CONFIGURED ''evidence:2'') empty_result = Inr q \<and>
     map claim_view (pr_claims q) = somes (map resolution_claim_view (pr_resolutions q))"
proof -
  obtain q where "reduce_cross_path_resolutions ex_digest (ex_path ''service:a'' RESOLVED_EXPLICIT ''evidence:1'')
       (ex_path ''service:a'' RESOLVED_CONFIGURED ''evidence:2'') empty_result = Inr q"
    using ex_reduction_total by blast
  note q = this
  show ?thesis by (intro exI [of _ q] conjI q claims_are_resolved_resolutions [OF q])
qed

end
