(* ===== verification/DeploymentEvidence.thy ===== *)
theory DeploymentEvidence
  imports DeploymentRuns
begin

text \<open>
  \<open>list_public_evidence\<close> and \<open>get_public_evidence\<close> of \<open>architecture_intelligence/service.py\<close> with the two reads
  of \<open>repository.py\<close> they widen: an \<open>Evidence\<close> row of the graph is visible unless it comes from Kubernetes, a
  Kubernetes row only when the context-free run reaches it, and a reference with no row is answered from the
  synthetic record of a mapping entry or of a runtime identity the run reaches.
\<close>

section \<open>The lookups\<close>

record public_evidence =
  pe_id :: string
  pe_source_type :: "string option"
  pe_source_file :: "string option"
  pe_source_revision :: "string option"
  pe_type :: "string option"

definition EVIDENCE_VISIBILITY_CONTEXT_ID :: string where
  "EVIDENCE_VISIBILITY_CONTEXT_ID = ''aip:observation-context:v1:'' @ replicate 64 CHR ''0''"

text \<open>\<open>e.source_type <> 'KUBERNETES' OR e.id IN $reachable_ids\<close>: a comparison with a missing property is not true.\<close>

definition publicly_visible :: "string list \<Rightarrow> public_evidence \<Rightarrow> bool" where
  "publicly_visible allowed e =
     ((case pe_source_type e of None \<Rightarrow> False | Some t \<Rightarrow> t \<noteq> kubernetes_source_type) \<or> pe_id e \<in> set allowed)"

definition read_public_evidence_list_rows :: "public_evidence list \<Rightarrow> string list \<Rightarrow> public_evidence list" where
  "read_public_evidence_list_rows rows allowed = sort_key pe_id (filter (publicly_visible allowed) rows)"

definition read_public_evidence_row :: "public_evidence list \<Rightarrow> string \<Rightarrow> string list \<Rightarrow> public_evidence option" where
  "read_public_evidence_row rows i allowed = find (\<lambda>e. pe_id e = i \<and> publicly_visible allowed e) rows"

fun source_type_value :: "evidence_source \<Rightarrow> string" where
  "source_type_value SOURCE_CONFIGURATION = ''CONFIGURATION''"
| "source_type_value SOURCE_OPENTELEMETRY = ''OPENTELEMETRY''"

fun evidence_type_value :: "evidence_type \<Rightarrow> string" where
  "evidence_type_value EVIDENCE_DECLARED = ''DECLARED''"
| "evidence_type_value EVIDENCE_OBSERVED = ''OBSERVED''"

definition synthetic_evidence_to_public_dict :: "evidence_record \<Rightarrow> public_evidence" where
  "synthetic_evidence_to_public_dict r = \<lparr>pe_id = ev_id r, pe_source_type = Some (source_type_value (ev_source r)),
     pe_source_file = ev_locator r, pe_source_revision = ev_revision r, pe_type = Some (evidence_type_value (ev_type r))\<rparr>"

text \<open>The run of one stable read: no observation context.\<close>

definition evidence_run ::
  "deployment_library \<Rightarrow> graph_reads \<Rightarrow> mapping_document option \<Rightarrow> (string \<times> string) list \<Rightarrow> string \<Rightarrow> deployment_fault + whole_graph" where
  "evidence_run lib rd document sources snapshot =
     run_whole_graph_reconciliation lib rd document sources None snapshot EVIDENCE_VISIBILITY_CONTEXT_ID"

definition list_public_evidence ::
  "deployment_library \<Rightarrow> graph_reads \<Rightarrow> mapping_document option \<Rightarrow> (string \<times> string) list \<Rightarrow> string \<Rightarrow> public_evidence list
     \<Rightarrow> deployment_fault + public_evidence list" where
  "list_public_evidence lib rd document sources snapshot rows =
     and_then (evidence_run lib rd document sources snapshot) (\<lambda>g.
       Inr (sort_key pe_id (read_public_evidence_list_rows rows (wg_reachable g) @
         map (\<lambda>(i, r). synthetic_evidence_to_public_dict r) (filter (\<lambda>(i, r). i \<in> set (wg_reachable g)) (wg_synthetic g)))))"

definition get_public_evidence ::
  "deployment_library \<Rightarrow> graph_reads \<Rightarrow> mapping_document option \<Rightarrow> (string \<times> string) list \<Rightarrow> string \<Rightarrow> public_evidence list \<Rightarrow> string
     \<Rightarrow> deployment_fault + public_evidence option" where
  "get_public_evidence lib rd document sources snapshot rows evidence_id =
     and_then (evidence_run lib rd document sources snapshot) (\<lambda>g. Inr
       (case read_public_evidence_row rows evidence_id (wg_reachable g) of
          Some row \<Rightarrow> Some row
        | None \<Rightarrow> (case map_of (wg_synthetic g) evidence_id of
            Some r \<Rightarrow> if evidence_id \<in> set (wg_reachable g) then Some (synthetic_evidence_to_public_dict r) else None
          | None \<Rightarrow> None)))"

section \<open>Where the references of a run come from\<close>

text \<open>The evidence ids the graph reads carry, and those of the mapping entries.\<close>

definition graph_evidence :: "graph_reads \<Rightarrow> string set" where
  "graph_evidence rd = (\<Union>w\<in>set (gr_workloads rd). \<Union>c\<in>set (cw_contributions w). set (wc_evidence c)) \<union>
     {e. \<exists>uid. \<exists>pod\<in>set (rd_pods_by_uid rd uid). e \<in> set (cp_evidence pod)} \<union>
     {e. \<exists>pod. \<exists>owner\<in>set (rd_owners_of_pod rd pod). e \<in> set (ow_evidence owner)}"

definition entry_evidence :: "(bytes \<Rightarrow> string) \<Rightarrow> mapping_document option \<Rightarrow> string set" where
  "entry_evidence H document = (case document of None \<Rightarrow> {} | Some d \<Rightarrow> mapping_evidence_id H d ` set (md_entries d))"

lemma named_result_evidence:
  assumes "named_result H lookup how i w named evidence = Inr q" "m \<in> set (pr_resolutions q)"
  shows "evidence_set m \<subseteq> set evidence"
  using assms
  by (auto simp: named_result_def unsettled_result_Inr settled_result_Inr unsettled_def settled_def evidence_set_def
      split: if_splits option.splits)

lemma path_a_evidence:
  assumes "resolve_path_a H (gr_workloads rd) lookup snapshot context_id = Inr q" "m \<in> set (pr_resolutions q)"
  shows "evidence_set m \<subseteq> graph_evidence rd"
  using assms
proof (rule path_a_Inr)
  fix w p
  assume w: "w \<in> set (gr_workloads rd)" and p: "path_a_step H lookup snapshot context_id w = Inr p" "m \<in> set (pr_resolutions p)"
  from p show ?thesis
  proof (rule path_a_step_Inr)
    fix ref
    assume n: "named_result H lookup RESOLVED_EXPLICIT (compute_deployment_resolution_id H snapshot context_id (workload_group_key (wr_id ref))) ref
       (sorted_set (somes (map wc_annotation (filter (\<lambda>c. wc_annotation c \<noteq> None) (cw_contributions w)))))
       (sorted_set (concat (map wc_evidence (filter (\<lambda>c. wc_annotation c \<noteq> None) (cw_contributions w))))) = Inr p"
    from named_result_evidence [OF n p(2)]
    have "evidence_set m \<subseteq> (\<Union>c\<in>set (cw_contributions w). set (wc_evidence c))" by auto
    then show ?thesis using w by (auto simp: graph_evidence_def)
  qed
qed

lemma path_b_evidence:
  assumes "resolve_path_b H document sources resolve lookup snapshot context_id = Inr q" "m \<in> set (pr_resolutions q)"
  shows "evidence_set m \<subseteq> entry_evidence H document"
proof -
  have ids: "mp_evidence_id r \<in> entry_evidence H document"
    if "document = Some d" "traverse (mapping_record_of H d sources resolve) (md_entries d) = Inr records" "r \<in> set records" for d records r
    using mapping_records [OF that(2,3)] that(1) by (simp add: entry_evidence_def)
  from assms show ?thesis
  proof (cases rule: path_b_Inr)
    case (grouped d records i p)
    from grouped(4,3) show ?thesis
    proof (rule path_b_group_Inr)
      fix r w ref
      assume n: "named_result H lookup RESOLVED_CONFIGURED
       (compute_deployment_resolution_id H snapshot context_id (workload_group_key (wr_id ref))) ref
       (sorted_set (map (\<lambda>r. me_service_id (mp_entry r)) (workload_records records i)))
       (sorted_set (map mp_evidence_id (workload_records records i))) = Inr p"
      have "evidence_set m \<subseteq> mp_evidence_id ` set (workload_records records i)"
        using named_result_evidence [OF n grouped(5)] by simp
      moreover have "set (workload_records records i) \<subseteq> set records" by (auto simp: workload_records_def)
      ultimately show ?thesis using ids [OF grouped(1,2)] by auto
    qed
  next
    case (unmatched d records r p)
    then have "evidence_set m = {mp_evidence_id r}"
      by (auto simp: path_b_unmatched_def unsettled_result_Inr unsettled_def evidence_set_def)
    then show ?thesis using ids [OF unmatched(1-3)] by simp
  qed
qed

lemma standalone_evidence:
  assumes "standalone_otel_resolution H snapshot context_id i status code evidence = Inr r"
  shows "evidence_set r \<subseteq> insert i (set evidence)"
  using assms by (auto simp: standalone_otel_resolution_def unsettled_def evidence_set_def)

text \<open>The evidence of the rows an observation reads.\<close>

definition pod_evidence :: "path_reads \<Rightarrow> string set" where
  "pod_evidence rd = {e. \<exists>uid. \<exists>pod\<in>set (rd_pods_by_uid rd uid). e \<in> set (cp_evidence pod)} \<union>
     {e. \<exists>pod. \<exists>owner\<in>set (rd_owners_of_pod rd pod). e \<in> set (ow_evidence owner)}"

lemma pod_evidenceI:
  "pod \<in> set (rd_pods_by_uid rd uid) \<Longrightarrow> set (cp_evidence pod) \<subseteq> pod_evidence rd"
  "owner \<in> set (rd_owners_of_pod rd i) \<Longrightarrow> set (ow_evidence owner) \<subseteq> pod_evidence rd"
  by (auto simp: pod_evidence_def)

lemma pod_evidence_graph: "pod_evidence (path_reads.truncate rd) \<subseteq> graph_evidence rd"
  by (auto simp: pod_evidence_def graph_evidence_def)

lemma evaluate_alone_evidence:
  assumes "evaluate_observation lib rd c snapshot context_id obs = Inr (Inl r)"
  shows "evidence_set r \<subseteq> insert (io_id obs) (pod_evidence rd)"
proof -
  let ?pods = "rd_pods_by_uid rd (the (io_k8s_pod_uid obs))"
  let ?alone = "\<lambda>status code evidence.
    standalone_otel_resolution (dl_sha256 lib) snapshot context_id (io_id obs) status code evidence = Inr r"
  have alone: ?thesis if "?alone status code evidence" "set evidence \<subseteq> pod_evidence rd" for status code evidence
    using standalone_evidence [OF that(1)] that(2) by blast
  consider "\<not> str_true (io_k8s_pod_uid obs) \<or> ?pods = []" | pod pods where "str_true (io_k8s_pod_uid obs)" "?pods = pod # pods"
    by (cases ?pods) auto
  then show ?thesis
  proof cases
    case 1
    then have "?alone UNRESOLVED DEPLOYMENT_IDENTITY_UNRESOLVED []"
      using assms by (auto simp: evaluate_observation_def Let_def and_then_Inr split: if_splits)
    then show ?thesis by (rule alone) simp
  next
    case (2 pod pods)
    note e = assms [unfolded evaluate_observation_def Let_def, simplified 2 not_True_eq_False if_False list.case]
    have pod: "set (cp_evidence p) \<subseteq> pod_evidence rd" if "p \<in> set (pod # pods)" for p
      using that unfolding 2(2) [symmetric] by (rule pod_evidenceI)
    show ?thesis
    proof (cases "pods = []")
      case False
      then have "?alone AMBIGUOUS DEPLOYMENT_IDENTITY_AMBIGUOUS (concat (map cp_evidence (pod # pods)))"
        using e by (simp add: and_then_Inr)
      then show ?thesis by (rule alone) (use pod in fastforce)
    next
      case True
      note e = e [simplified True not_True_eq_False if_False simp_thms]
      show ?thesis
      proof (cases "rd_owners_of_pod rd (cp_pod_id pod)")
        case Nil
        then have "?alone UNRESOLVED DEPLOYMENT_IDENTITY_UNRESOLVED (cp_evidence pod)" using e by (simp add: and_then_Inr)
        then show ?thesis by (rule alone) (use pod in simp)
      next
        case (Cons owner owners)
        have ow: "set (ow_evidence o') \<subseteq> pod_evidence rd" if "o' \<in> set (owner # owners)" for o'
          using that unfolding Cons [symmetric] by (rule pod_evidenceI)
        show ?thesis
        proof (cases "owners = []")
          case False
          then have "?alone AMBIGUOUS DEPLOYMENT_IDENTITY_AMBIGUOUS (cp_evidence pod @ concat (map ow_evidence (owner # owners)))"
            using e by (simp add: Cons and_then_Inr)
          then show ?thesis by (rule alone) (use pod [of pod] ow in fastforce)
        next
          case True
          have "?alone UNRESOLVED DEPLOYMENT_IDENTITY_UNRESOLVED (cp_evidence pod @ ow_evidence owner)"
            using e by (auto simp: Cons True and_then_Inr split: option.splits if_splits)
          then show ?thesis by (rule alone) (use pod [of pod] ow [of owner] in simp)
        qed
      qed
    qed
  qed
qed

lemma evaluate_scoped_evidence:
  assumes "evaluate_observation lib rd c snapshot context_id obs = Inr (Inr o')"
  shows "set (so_evidence o') \<subseteq> insert (io_id obs) (pod_evidence rd)"
  using assms
proof (rule evaluate_scoped)
  fix pod owner w
  assume e: "rd_pods_by_uid rd (the (io_k8s_pod_uid obs)) = [pod]" "rd_owners_of_pod rd (cp_pod_id pod) = [owner]"
    and s: "so_evidence o' = cp_evidence pod @ ow_evidence owner @ [io_id obs]"
  have "set (cp_evidence pod) \<subseteq> pod_evidence rd" using pod_evidenceI(1) [of pod rd "the (io_k8s_pod_uid obs)"] e(1) by simp
  moreover have "set (ow_evidence owner) \<subseteq> pod_evidence rd" using pod_evidenceI(2) [of owner rd "cp_pod_id pod"] e(2) by simp
  ultimately show ?thesis unfolding s by auto
qed

lemma path_c_group_evidence:
  assumes "path_c_group H snapshot context_id outcomes w = Inr q" "m \<in> set (pr_resolutions q)"
  shows "evidence_set m \<subseteq> (\<Union>o'\<in>set outcomes. set (so_evidence o'))"
proof -
  have sub: "set (applicable_outcomes (group_outcomes outcomes w)) \<subseteq> set outcomes" "set (group_outcomes outcomes w) \<subseteq> set outcomes"
    by (auto simp: applicable_outcomes_def group_outcomes_def)
  have "evidence_set m = set (concat (map so_evidence (applicable_outcomes (group_outcomes outcomes w)))) \<or>
      evidence_set m = set (concat (map so_evidence (group_outcomes outcomes w)))"
    using assms(1)
    by (cases rule: path_c_group_cases)
      (use assms(2) in \<open>auto simp: unsettled_result_Inr settled_result_Inr unsettled_def settled_def evidence_set_def\<close>)
  then show ?thesis using sub by (elim disjE) (simp_all only: set_concat set_map image_image, blast+)
qed

lemma path_c_evidence:
  assumes c: "resolve_path_c lib rd observations c snapshot context_id = Inr q" and m: "m \<in> set (pr_resolutions q)"
  shows "evidence_set m \<subseteq> pod_evidence rd \<union> io_id ` set observations"
  using c
proof (cases rule: path_c_Inr)
  case (1 outcomes grouped)
  from m consider (alone) "Inl m \<in> set outcomes" | (group) p where "p \<in> set grouped" "m \<in> set (pr_resolutions p)"
    unfolding 1(3) by (auto simp: join_results_def)
  then show ?thesis
  proof cases
    case alone
    then obtain obs where "obs \<in> set observations" "evaluate_observation lib rd c snapshot context_id obs = Inr (Inl m)"
      using traverse_mem [OF 1(1)] by blast
    then show ?thesis using evaluate_alone_evidence by blast
  next
    case (group p)
    obtain w where "path_c_group (dl_sha256 lib) snapshot context_id (rights outcomes) w = Inr p"
      using traverse_mem [OF 1(2) group(1)] by blast
    note sub = path_c_group_evidence [OF this group(2)]
    have "set (so_evidence o') \<subseteq> pod_evidence rd \<union> io_id ` set observations" if "o' \<in> set (rights outcomes)" for o'
    proof -
      from that have "Inr o' \<in> set outcomes" by simp
      from traverse_mem [OF 1(1) this] obtain obs where
        "obs \<in> set observations" "evaluate_observation lib rd c snapshot context_id obs = Inr (Inr o')" by blast
      then show ?thesis using evaluate_scoped_evidence by blast
    qed
    then show ?thesis using sub by blast
  qed
qed

section \<open>What is shown is fetched\<close>

definition run_evidence :: "(bytes \<Rightarrow> string) \<Rightarrow> graph_reads \<Rightarrow> mapping_document option \<Rightarrow> string set" where
  "run_evidence H rd document = graph_evidence rd \<union> public_evidence_ref ` graph_evidence rd \<union>
     public_evidence_ref ` entry_evidence H document \<union> public_evidence_ref ` io_id ` set (gr_observations rd)"

lemma context_run_evidence:
  assumes consistent: "reads_consistent rd"
    and run: "run_whole_graph_reconciliation lib rd document sources (Some c) snapshot context_id = Inr g"
    and r: "r \<in> set (pr_resolutions (wg_reduced g))"
  shows "evidence_set r \<subseteq> run_evidence (dl_sha256 lib) rd document"
  using run
proof (rule run_Inr)
  fix a b q red
  assume a: "resolve_path_a (dl_sha256 lib) (gr_workloads rd) (map_of (gr_declared rd)) snapshot context_id = Inr a"
    and b: "resolve_path_b (dl_sha256 lib) document sources (rd_workload rd) (map_of (gr_declared rd)) snapshot context_id = Inr b"
    and q: "path_c_of lib rd (Some c) snapshot context_id = Inr q"
    and red: "reduce_cross_path_resolutions (dl_sha256 lib) a (publicize_evidence_refs b) (publicize_evidence_refs q) = Inr red"
    and g: "wg_reduced g = red"
  let ?results = "[a, publicize_evidence_refs b, publicize_evidence_refs q]"
  let ?ms = "group_members ?results (dpr_resolution_id r)"
  note members = run_members [OF consistent a b q, unfolded run_results_def]
  have c': "resolve_path_c lib (path_reads.truncate rd) (gr_observations rd) c snapshot context_id = Inr q"
    using q by (simp add: path_c_of_def)
  have each: "evidence_set m \<subseteq> run_evidence (dl_sha256 lib) rd document" if m: "m \<in> set (all_resolutions ?results)" for m
  proof -
    from m consider "m \<in> set (pr_resolutions a)" | m0 where "m0 \<in> set (pr_resolutions b)" "m = publicized m0"
      | m0 where "m0 \<in> set (pr_resolutions q)" "m = publicized m0"
      unfolding all_resolutions_def by (auto simp: publicize_resolutions)
    then show ?thesis
    proof cases
      case 1
      then show ?thesis using path_a_evidence [OF a] unfolding run_evidence_def by blast
    next
      case (2 m0)
      then show ?thesis using path_b_evidence [OF b 2(1)] unfolding run_evidence_def 2(2) evidence_set_publicized by blast
    next
      case (3 m0)
      have "evidence_set m0 \<subseteq> graph_evidence rd \<union> io_id ` set (gr_observations rd)"
        using path_c_evidence [OF c' 3(1)] pod_evidence_graph by blast
      then show ?thesis unfolding run_evidence_def 3(2) evidence_set_publicized by blast
    qed
  qed
  obtain claim where reduced: "reduce_group (dl_sha256 lib) (claims_by_id ?results) ?ms = Inr (r, claim)"
    using reduce_cross_nth [OF red] r unfolding g by blast
  have ok: "\<forall>m\<in>set ?ms. member_ok (dl_sha256 lib) m" using members(1) by (simp add: set_group_members)
  have "evidence_set r \<subseteq> (\<Union>m\<in>set ?ms. evidence_set m)"
  proof (cases "\<exists>m\<in>set ?ms. applicable m")
    case True
    show ?thesis using reduced_evidence [OF reduced ok True] unfolding evidence_set_def by auto
  next
    case False
    show ?thesis using reduced_unresolved(1) [OF reduced False] unfolding evidence_set_def by auto
  qed
  moreover have "evidence_set m \<subseteq> run_evidence (dl_sha256 lib) rd document" if "m \<in> set ?ms" for m
    using each that by (simp add: set_group_members)
  ultimately show ?thesis by blast
qed

subsection \<open>The synthetic records\<close>

text \<open>A dictionary filled by assignments: its keys, and that a record is filed under its own id.\<close>

definition filed :: "(string \<times> evidence_record) list \<Rightarrow> bool" where
  "filed d = (\<forall>x\<in>set d. ev_id (snd x) = fst x)"

lemma set_update_sub: "set (AList.update k v d) \<subseteq> insert (k, v) (set d)"
  by (induction d) auto

lemma filed_update: "filed d \<Longrightarrow> ev_id r = k \<Longrightarrow> filed (AList.update k r d)"
  unfolding filed_def using set_update_sub [of k r d] by auto

lemma filed_empty [simp]: "filed []"
  by (simp add: filed_def)

lemma filed_lookup: "filed d \<Longrightarrow> map_of d i = Some r \<Longrightarrow> ev_id r = i"
  unfolding filed_def using map_of_SomeD by fastforce

lemma file_records:
  fixes key :: "'a \<Rightarrow> string" and val :: "'a \<Rightarrow> evidence_record"
  defines "file \<equiv> foldl (\<lambda>d x. AList.update (key x) (val x) d)"
  shows "fst ` set (file d xs) = fst ` set d \<union> key ` set xs"
    and "filed d \<Longrightarrow> (\<And>x. x \<in> set xs \<Longrightarrow> ev_id (val x) = key x) \<Longrightarrow> filed (file d xs)"
proof -
  have "dom (map_of (file d xs)) = dom (map_of d) \<union> key ` set xs"
    unfolding file_def by (induction xs arbitrary: d) (simp_all add: update_conv')
  then show "fst ` set (file d xs) = fst ` set d \<union> key ` set xs" by (simp add: dom_map_of_conv_image_fst)
  show "filed d \<Longrightarrow> (\<And>x. x \<in> set xs \<Longrightarrow> ev_id (val x) = key x) \<Longrightarrow> filed (file d xs)"
    unfolding file_def by (induction xs arbitrary: d) (simp_all add: filed_update)
qed

lemma path_b_records:
  "fst ` set (path_b_evidence_records H document) = public_evidence_ref ` entry_evidence H document"
  "filed (path_b_evidence_records H document)"
proof -
  have id: "ev_id (path_b_evidence_record H d e) = public_evidence_ref (mapping_evidence_id H d e)" for d e
    by (simp add: path_b_evidence_record_def)
  show "fst ` set (path_b_evidence_records H document) = public_evidence_ref ` entry_evidence H document"
    by (cases document) (simp_all add: path_b_evidence_records_def entry_evidence_def file_records(1) id image_image)
  show "filed (path_b_evidence_records H document)"
    by (cases document) (simp_all add: path_b_evidence_records_def file_records(2))
qed

lemma path_c_record_id: "path_c_evidence_record obs = Some r \<Longrightarrow> ev_id r = public_evidence_ref (io_id obs)"
  by (auto simp: path_c_evidence_record_def Let_def split: option.splits)

lemma path_c_records:
  "fst ` set (path_c_evidence_records observations) =
     public_evidence_ref ` io_id ` {obs \<in> set observations. path_c_evidence_record obs \<noteq> None}"
  "filed (path_c_evidence_records observations)"
proof -
  have "fst ` set (path_c_evidence_records observations) = ev_id ` set (somes (map path_c_evidence_record observations))"
    by (simp add: path_c_evidence_records_def file_records(1))
  also have "\<dots> = public_evidence_ref ` io_id ` {obs \<in> set observations. path_c_evidence_record obs \<noteq> None}" (is "?ids = ?refs")
  proof
    show "?ids \<subseteq> ?refs"
    proof
      fix i assume "i \<in> ?ids"
      then obtain r where r: "r \<in> set (somes (map path_c_evidence_record observations))" "i = ev_id r" by blast
      from r(1) have "Some r \<in> path_c_evidence_record ` set observations" by simp
      then obtain obs where obs: "obs \<in> set observations" "path_c_evidence_record obs = Some r" by (metis imageE)
      have "i = public_evidence_ref (io_id obs)" using path_c_record_id [OF obs(2)] r(2) by simp
      then show "i \<in> ?refs" using obs by blast
    qed
    show "?refs \<subseteq> ?ids"
    proof
      fix i assume "i \<in> ?refs"
      then obtain obs r where o: "obs \<in> set observations" "path_c_evidence_record obs = Some r" "i = public_evidence_ref (io_id obs)" by auto
      then have "r \<in> set (somes (map path_c_evidence_record observations))" by force
      then show "i \<in> ?ids" using path_c_record_id [OF o(2)] o(3) by (simp only: image_iff) (metis)
    qed
  qed
  finally show "fst ` set (path_c_evidence_records observations) =
     public_evidence_ref ` io_id ` {obs \<in> set observations. path_c_evidence_record obs \<noteq> None}" .
  show "filed (path_c_evidence_records observations)"
    by (simp add: path_c_evidence_records_def file_records(2))
qed

lemma synthetic_records:
  assumes "run_whole_graph_reconciliation lib rd document sources requested snapshot context_id = Inr g"
  shows "fst ` set (wg_synthetic g) = public_evidence_ref ` entry_evidence (dl_sha256 lib) document \<union>
     public_evidence_ref ` io_id ` {obs \<in> set (gr_observations rd). path_c_evidence_record obs \<noteq> None}"
    and "filed (wg_synthetic g)"
proof -
  have s: "wg_synthetic g = foldl (\<lambda>d x. AList.update (fst x) (snd x) d) (path_b_evidence_records (dl_sha256 lib) document)
      (path_c_evidence_records (gr_observations rd))"
    using assms by (auto simp: run_whole_graph_reconciliation_def Let_def and_then_Inr case_prod_unfold)
  show "fst ` set (wg_synthetic g) = public_evidence_ref ` entry_evidence (dl_sha256 lib) document \<union>
     public_evidence_ref ` io_id ` {obs \<in> set (gr_observations rd). path_c_evidence_record obs \<noteq> None}"
    unfolding s file_records(1) path_b_records(1) path_c_records(1) ..
  show "filed (wg_synthetic g)"
    unfolding s using path_b_records(2) path_c_records(2) by (intro file_records(2)) (simp_all add: filed_def)
qed

subsection \<open>The lookup of a shown reference\<close>

text \<open>Every evidence id of the graph reads is a public id with an \<open>Evidence\<close> row.\<close>

definition evidence_recorded :: "graph_reads \<Rightarrow> public_evidence list \<Rightarrow> bool" where
  "evidence_recorded rd rows = (\<forall>e\<in>graph_evidence rd. after_prefix ''evidence:'' e \<noteq> None \<and> e \<in> pe_id ` set rows)"

lemma recorded_public: "evidence_recorded rd rows \<Longrightarrow> e \<in> graph_evidence rd \<Longrightarrow> public_evidence_ref e = e \<and> e \<in> pe_id ` set rows"
  by (simp add: evidence_recorded_def public_evidence_ref_def)

text \<open>What a lookup of a reference the run reaches returns.\<close>

lemma lookup_of_reachable:
  assumes run: "evidence_run lib rd document sources snapshot = Inr g" and i: "i \<in> set (wg_reachable g)"
  shows "\<exists>e. get_public_evidence lib rd document sources snapshot rows i = Inr e \<and>
     (e = None \<longleftrightarrow> i \<notin> pe_id ` set rows \<and> i \<notin> fst ` set (wg_synthetic g)) \<and>
     (\<forall>x. e = Some x \<longrightarrow> pe_id x = i \<and>
        (\<exists>shown. list_public_evidence lib rd document sources snapshot rows = Inr shown \<and> x \<in> set shown))"
proof -
  have filed: "filed (wg_synthetic g)" using synthetic_records(2) run unfolding evidence_run_def by blast
  let ?row = "read_public_evidence_row rows i (wg_reachable g)"
  let ?e = "case ?row of Some row \<Rightarrow> Some row
     | None \<Rightarrow> map_option synthetic_evidence_to_public_dict (map_of (wg_synthetic g) i)"
  have got: "get_public_evidence lib rd document sources snapshot rows i = Inr ?e"
    using run i by (auto simp: get_public_evidence_def split: option.split)
  have none: "?row = None \<longleftrightarrow> i \<notin> pe_id ` set rows"
    using i by (auto simp: read_public_evidence_row_def find_None_iff publicly_visible_def)
  let ?shown = "sort_key pe_id (read_public_evidence_list_rows rows (wg_reachable g) @
         map (\<lambda>(i, r). synthetic_evidence_to_public_dict r) (filter (\<lambda>(i, r). i \<in> set (wg_reachable g)) (wg_synthetic g)))"
  have listed: "list_public_evidence lib rd document sources snapshot rows = Inr ?shown"
    by (simp add: list_public_evidence_def run)
  have found: "pe_id x = i \<and> x \<in> set ?shown" if x: "?e = Some x" for x
  proof (cases ?row)
    case (Some row)
    then have "row \<in> set rows" "pe_id row = i" "publicly_visible (wg_reachable g) row"
      unfolding read_public_evidence_row_def by (auto simp: find_Some_iff)
    then show ?thesis using x Some by (simp add: read_public_evidence_list_rows_def)
  next
    case None
    then obtain r where r: "map_of (wg_synthetic g) i = Some r" "x = synthetic_evidence_to_public_dict r" using x by auto
    have "pe_id x = i" using filed_lookup [OF filed r(1)] by (simp add: r(2) synthetic_evidence_to_public_dict_def)
    moreover have "(i, r) \<in> set (wg_synthetic g)" using r(1) by (rule map_of_SomeD)
    ultimately show ?thesis using i by (force simp: r(2) image_iff)
  qed
  have "?e = None \<longleftrightarrow> i \<notin> pe_id ` set rows \<and> i \<notin> fst ` set (wg_synthetic g)"
    using none by (cases ?row) (simp_all add: map_of_eq_None_iff)
  then show ?thesis
    by (intro exI [of _ ?e] conjI got allI impI) (use found listed in \<open>simp_all only: simp_thms, blast+\<close>)
qed

lemma incomplete_record:
  "path_c_evidence_record obs = None \<longleftrightarrow> io_environment obs = None \<or> io_first_seen obs = None \<or> io_last_seen obs = None"
  by (auto simp: path_c_evidence_record_def Let_def split: option.splits)

lemma context_free_run_total:
  assumes "run_well_formed lib rd document snapshot context_id"
    "environments_ok lib (gr_observations rd)" "standalone_windows_ok lib (path_reads.truncate rd) (gr_observations rd)"
  shows "\<exists>g. run_whole_graph_reconciliation lib rd document sources None snapshot context_id = Inr g"
proof -
  have "hex_digest (dl_sha256 lib)" "\<forall>i w. rd_workload (path_reads.truncate rd) i = Some w \<longrightarrow> known_kind w"
    using assms(1) aligned_kinds by (auto simp: run_well_formed_def)
  from path_c_context_free_iff [OF this] show ?thesis using assms(2,3) unfolding run_iff [OF assms(1)] by (simp add: path_c_of_def)
qed

lemma shown_in_resolution:
  assumes run: "run_whole_graph_reconciliation lib rd document sources requested snapshot context_id = Inr g"
    and f: "filter_for_service (wg_reduced g) s = (claims, resolutions)"
    and ref: "ref \<in> set (concat (map dpc_evidence claims) @ evidence_of resolutions)"
  shows "\<exists>r\<in>set (pr_resolutions (wg_reduced g)). ref \<in> evidence_set r"
proof -
  have sub: "set claims \<subseteq> set (pr_claims (wg_reduced g))" "set resolutions \<subseteq> set (pr_resolutions (wg_reduced g))"
    using f by (auto simp: filter_for_service_def Let_def)
  from ref consider k where "k \<in> set claims" "ref \<in> set (dpc_evidence k)" | r where "r \<in> set resolutions" "ref \<in> evidence_set r"
    by (auto simp: set_evidence_of evidence_set_def)
  then show ?thesis
  proof cases
    case (1 k)
    from run obtain a b q where
      "reduce_cross_path_resolutions (dl_sha256 lib) a (publicize_evidence_refs b) (publicize_evidence_refs q) = Inr (wg_reduced g)"
      by (rule run_Inr) simp
    from claim_evidence_shown [OF this subsetD [OF sub(1) 1(1)] 1(2)] show ?thesis by blast
  qed (use sub(2) in blast)
qed

text \<open>C15: a reference that an answer about a declared service shows for an observation context, in a claim or in a
  resolution, can be looked up.  Either the context-free run of the lookup raises, which it does only when an
  identity row has an environment or a window the contract refuses, or \<open>get_public_evidence\<close> returns the record of
  that id and \<open>list_public_evidence\<close> lists it.  The one exception is the reference of a runtime identity with no
  environment or no first or last sighting and no row of that id: it is shown and cannot be fetched.  Assumed: both runs read the
  same well-formed graph with collision-free group digests (\<open>run_well_formed\<close>), sightings are in order, the context
  satisfies its contract, and the evidence ids the graph reads carry are those of \<open>Evidence\<close> rows.\<close>

theorem shown_evidence_is_fetched:
  assumes "run_well_formed lib rd document snapshot context_id"
    and "run_well_formed lib rd document snapshot EVIDENCE_VISIBILITY_CONTEXT_ID"
    and "seen_in_order (gr_observations rd)" "context_contract lib c" "evidence_recorded rd rows"
    and "run_whole_graph_reconciliation lib rd document sources (Some c) snapshot context_id = Inr g"
    and "s \<in> wg_declared g" "filter_for_service (wg_reduced g) s = (claims, resolutions)"
    and "ref \<in> set (concat (map dpc_evidence claims) @ evidence_of resolutions)"
  shows "case get_public_evidence lib rd document sources snapshot rows ref of
      Inl _ \<Rightarrow> \<not> (environments_ok lib (gr_observations rd) \<and>
        standalone_windows_ok lib (path_reads.truncate rd) (gr_observations rd))
    | Inr None \<Rightarrow> ref \<notin> pe_id ` set rows \<and>
        (\<exists>obs\<in>set (gr_observations rd). ref = public_evidence_ref (io_id obs) \<and>
          (io_environment obs = None \<or> io_first_seen obs = None \<or> io_last_seen obs = None))
    | Inr (Some e) \<Rightarrow> pe_id e = ref \<and>
        (\<exists>shown. list_public_evidence lib rd document sources snapshot rows = Inr shown \<and> e \<in> set shown)"
proof (cases "evidence_run lib rd document sources snapshot")
  case (Inl x)
  then have "\<not> (environments_ok lib (gr_observations rd) \<and> standalone_windows_ok lib (path_reads.truncate rd) (gr_observations rd))"
    using context_free_run_total [OF assms(2), where sources = sources] by (auto simp: evidence_run_def)
  then show ?thesis by (simp add: get_public_evidence_def Inl)
next
  case (Inr g2)
  note run2 = Inr [unfolded evidence_run_def]
  have reach: "ref \<in> set (wg_reachable g2)"
    by (rule shown_is_reachable [OF _ assms(3,4) _ _ assms(6) run2 assms(7-9)]) (use assms(1,2) in \<open>simp_all add: run_well_formed_def\<close>)
  obtain r where r: "r \<in> set (pr_resolutions (wg_reduced g))" "ref \<in> evidence_set r"
    using shown_in_resolution [OF assms(6,8,9)] by blast
  have "ref \<in> run_evidence (dl_sha256 lib) rd document"
    using context_run_evidence [OF _ assms(6) r(1)] r(2) assms(1) by (auto simp: run_well_formed_def)
  then have origin: "ref \<in> pe_id ` set rows \<or> ref \<in> public_evidence_ref ` entry_evidence (dl_sha256 lib) document \<or>
      (\<exists>obs\<in>set (gr_observations rd). ref = public_evidence_ref (io_id obs))"
    using recorded_public [OF assms(5)] unfolding run_evidence_def by auto
  obtain e where e: "get_public_evidence lib rd document sources snapshot rows ref = Inr e"
    "e = None \<longleftrightarrow> ref \<notin> pe_id ` set rows \<and> ref \<notin> fst ` set (wg_synthetic g2)"
    "\<forall>x. e = Some x \<longrightarrow> pe_id x = ref \<and>
        (\<exists>shown. list_public_evidence lib rd document sources snapshot rows = Inr shown \<and> x \<in> set shown)"
    using lookup_of_reachable [OF Inr reach] by blast
  show ?thesis
  proof (cases e)
    case None
    then have absent: "ref \<notin> pe_id ` set rows" "ref \<notin> fst ` set (wg_synthetic g2)" using e(2) by simp_all
    then obtain obs where obs: "obs \<in> set (gr_observations rd)" "ref = public_evidence_ref (io_id obs)"
      using origin unfolding synthetic_records(1) [OF run2] by blast
    then have "path_c_evidence_record obs = None" using absent(2) unfolding synthetic_records(1) [OF run2] by blast
    then show ?thesis using obs absent(1) e(1) None by (auto simp: incomplete_record)
  qed (use e in simp)
qed

section \<open>A fetched reference\<close>

definition ex_row :: "string \<Rightarrow> public_evidence" where
  "ex_row i = \<lparr>pe_id = i, pe_source_type = Some ''KUBERNETES'', pe_source_file = None, pe_source_revision = None,
     pe_type = Some ''DECLARED''\<rparr>"

definition ex_rows :: "public_evidence list" where
  "ex_rows = map ex_row [''evidence:k8s'', ''evidence:pod'', ''evidence:owner'']"

lemma ex_recorded: "evidence_recorded (ex_reads e) ex_rows"
  by (auto simp: evidence_recorded_def graph_evidence_def ex_reads_def ex_workload_def ex_rows_def ex_row_def after_prefix_def)

lemma ex_visibility_free: "collision_free ex_digest ''s'' EVIDENCE_VISIBILITY_CONTEXT_ID (run_group_keys (ex_reads e) None)"
proof -
  have "compute_deployment_resolution_id ex_digest ''s'' EVIDENCE_VISIBILITY_CONTEXT_ID (workload_group_key ''w'') \<noteq>
      compute_deployment_resolution_id ex_digest ''s'' EVIDENCE_VISIBILITY_CONTEXT_ID (otel_group_key ''runtime-identity:otel:12'')"
    by code_simp
  then show ?thesis unfolding collision_free_def ex_keys by (rule inj_on_pair)
qed

lemma ex_visibility_well_formed: "run_well_formed ex_library (ex_reads e) None ''s'' EVIDENCE_VISIBILITY_CONTEXT_ID"
  using ex_digest_hex ex_visibility_free ex_consistent ex_aligned by (simp add: run_well_formed_def ex_library_def)

theorem shown_evidence_is_fetched_witness:
  "\<exists>g row. run_whole_graph_reconciliation ex_library (ex_reads ''prod'') None [] (Some ex_window) ''s'' ''a'' = Inr g \<and>
     get_public_evidence ex_library (ex_reads ''prod'') None [] ''s'' ex_rows ''evidence:k8s'' = Inr (Some row) \<and> pe_id row = ''evidence:k8s''"
proof -
  obtain g where g: "run_whole_graph_reconciliation ex_library (ex_reads ''prod'') None [] (Some ex_window) ''s'' ''a'' = Inr g"
    using context_run_total [OF ex_well_formed(1)] by blast
  obtain r where r: "r \<in> set (pr_resolutions (wg_reduced g))" "''service:orders'' \<in> set (dpr_candidates r)" "''evidence:k8s'' \<in> evidence_set r"
    using ex_shown [OF g] by blast
  obtain claims resolutions where f: "filter_for_service (wg_reduced g) ''service:orders'' = (claims, resolutions)" by fastforce
  then have "r \<in> set resolutions" using r(1,2) by (auto simp: filter_for_service_def Let_def concerns_def)
  then have ref: "''evidence:k8s'' \<in> set (concat (map dpc_evidence claims) @ evidence_of resolutions)"
    using r(3) by (auto simp: set_evidence_of evidence_set_def)
  have declared: "''service:orders'' \<in> wg_declared g" using g by (rule run_Inr) (simp add: ex_reads_def)
  have order: "seen_in_order (gr_observations (ex_reads ''prod''))" by (simp add: seen_in_order_def ex_reads_def ex_identity_def)
  have complete: "io_environment obs \<noteq> None \<and> io_first_seen obs \<noteq> None \<and> io_last_seen obs \<noteq> None"
    if "obs \<in> set (gr_observations (ex_reads ''prod''))" for obs
    using that by (simp add: ex_reads_def ex_identity_def)
  show ?thesis
    using shown_evidence_is_fetched [OF ex_well_formed(1) ex_visibility_well_formed order ex_window_contract ex_recorded g declared f ref]
      ex_environments(1) ex_standalone complete g
    by (fastforce split: sum.splits option.splits)
qed

end
