(* ===== verification/LocalityApplicability.thy ===== *)
theory LocalityApplicability
  imports DeploymentContracts
begin

text \<open>
  \<open>architecture_intelligence/scoped_applicability.py\<close>: which committed captures a retained caller-Pod-scoped
  record is paired with, what each pair yields under the four ordered phases, and how the pairs roll up into
  one candidate.  A UTC day is its number since 1970-01-01 and an instant its microseconds.  A reason is a
  constructor; the source sorts reasons by their codes.
\<close>

section \<open>Reasons\<close>

datatype locality_reason =
    UNSUPPORTED_DIMENSION | UNSUPPORTED_RELATION | UNSUPPORTED_TEMPORAL_RESOLUTION | CAPTURE_MODE_UNSUPPORTED
  | OBSERVATION_TEMPORAL_MISMATCH | CAPTURE_TEMPORAL_MISMATCH | CAPTURE_TIMESTAMP_MISSING | CAPTURE_MISSING_POD
  | POD_OWNER_UNRESOLVED | POD_OWNER_AMBIGUOUS | POD_OWNER_CONFLICT | CLUSTER_UID_CONFLICT | NAMESPACE_CONFLICT
  | LOCAL_COVERAGE_UNAVAILABLE

fun locality_reason_code :: "locality_reason \<Rightarrow> string" where
  "locality_reason_code UNSUPPORTED_DIMENSION = ''LOCALITY_UNSUPPORTED_DIMENSION''"
| "locality_reason_code UNSUPPORTED_RELATION = ''LOCALITY_UNSUPPORTED_RELATION''"
| "locality_reason_code UNSUPPORTED_TEMPORAL_RESOLUTION = ''LOCALITY_UNSUPPORTED_TEMPORAL_RESOLUTION''"
| "locality_reason_code CAPTURE_MODE_UNSUPPORTED = ''LOCALITY_CAPTURE_MODE_UNSUPPORTED''"
| "locality_reason_code OBSERVATION_TEMPORAL_MISMATCH = ''LOCALITY_OBSERVATION_TEMPORAL_MISMATCH''"
| "locality_reason_code CAPTURE_TEMPORAL_MISMATCH = ''LOCALITY_CAPTURE_TEMPORAL_MISMATCH''"
| "locality_reason_code CAPTURE_TIMESTAMP_MISSING = ''LOCALITY_CAPTURE_TIMESTAMP_MISSING''"
| "locality_reason_code CAPTURE_MISSING_POD = ''LOCALITY_CAPTURE_MISSING_POD''"
| "locality_reason_code POD_OWNER_UNRESOLVED = ''LOCALITY_POD_OWNER_UNRESOLVED''"
| "locality_reason_code POD_OWNER_AMBIGUOUS = ''LOCALITY_POD_OWNER_AMBIGUOUS''"
| "locality_reason_code POD_OWNER_CONFLICT = ''LOCALITY_POD_OWNER_CONFLICT''"
| "locality_reason_code CLUSTER_UID_CONFLICT = ''LOCALITY_CLUSTER_UID_CONFLICT''"
| "locality_reason_code NAMESPACE_CONFLICT = ''LOCALITY_NAMESPACE_CONFLICT''"
| "locality_reason_code LOCAL_COVERAGE_UNAVAILABLE = ''LOCALITY_LOCAL_COVERAGE_UNAVAILABLE''"

lemma locality_reason_code_inject: "locality_reason_code a = locality_reason_code b \<Longrightarrow> a = b"
  by (cases a; cases b; simp)

instantiation locality_reason :: linorder
begin

definition less_eq_locality_reason :: "locality_reason \<Rightarrow> locality_reason \<Rightarrow> bool" where
  "less_eq_locality_reason a b \<longleftrightarrow> locality_reason_code a \<le> locality_reason_code b"

definition less_locality_reason :: "locality_reason \<Rightarrow> locality_reason \<Rightarrow> bool" where
  "less_locality_reason a b \<longleftrightarrow> locality_reason_code a < locality_reason_code b"

instance
  by standard (auto simp: less_eq_locality_reason_def less_locality_reason_def intro: locality_reason_code_inject)

end

text \<open>\<open>None\<close> is the KeyError of a reason without a disposition of its own.\<close>

fun locality_reason_disposition :: "locality_reason \<Rightarrow> locality_disposition option" where
  "locality_reason_disposition OBSERVATION_TEMPORAL_MISMATCH = Some INAPPLICABLE"
| "locality_reason_disposition CAPTURE_TEMPORAL_MISMATCH = Some INAPPLICABLE"
| "locality_reason_disposition CAPTURE_TIMESTAMP_MISSING = Some INSUFFICIENT_EVIDENCE"
| "locality_reason_disposition CAPTURE_MISSING_POD = Some locality_disposition.UNRESOLVED"
| "locality_reason_disposition POD_OWNER_UNRESOLVED = Some locality_disposition.UNRESOLVED"
| "locality_reason_disposition POD_OWNER_AMBIGUOUS = Some locality_disposition.AMBIGUOUS"
| "locality_reason_disposition POD_OWNER_CONFLICT = Some locality_disposition.CONFLICT"
| "locality_reason_disposition CLUSTER_UID_CONFLICT = Some locality_disposition.CONFLICT"
| "locality_reason_disposition NAMESPACE_CONFLICT = Some locality_disposition.CONFLICT"
| "locality_reason_disposition LOCAL_COVERAGE_UNAVAILABLE = None"
| "locality_reason_disposition _ = Some UNSUPPORTED"

datatype locality_limitation = NO_SELECTABLE_COVERING_SOURCE | REQUEST_ENVIRONMENT_MISMATCH

fun locality_limitation_value :: "locality_limitation \<Rightarrow> string" where
  "locality_limitation_value NO_SELECTABLE_COVERING_SOURCE = ''NO_SELECTABLE_COVERING_SOURCE''"
| "locality_limitation_value REQUEST_ENVIRONMENT_MISMATCH = ''REQUEST_ENVIRONMENT_MISMATCH''"

lemma locality_limitation_value_inject: "locality_limitation_value a = locality_limitation_value b \<Longrightarrow> a = b"
  by (cases a; cases b; simp)

instantiation locality_limitation :: linorder
begin

definition less_eq_locality_limitation :: "locality_limitation \<Rightarrow> locality_limitation \<Rightarrow> bool" where
  "less_eq_locality_limitation a b \<longleftrightarrow> locality_limitation_value a \<le> locality_limitation_value b"

definition less_locality_limitation :: "locality_limitation \<Rightarrow> locality_limitation \<Rightarrow> bool" where
  "less_locality_limitation a b \<longleftrightarrow> locality_limitation_value a < locality_limitation_value b"

instance
  by standard (auto simp: less_eq_locality_limitation_def less_locality_limitation_def intro: locality_limitation_value_inject)

end

datatype admission_basis = EXPLICIT_SOURCE | POD_UID_BASIS | CLUSTER_NAMESPACE_BASIS

section \<open>Windows and requests\<close>

definition days_from_civil :: "int \<Rightarrow> int \<Rightarrow> int \<Rightarrow> int" where
  "days_from_civil y m d =
     (let y' = (if m \<le> 2 then y - 1 else y); era = y' div 400; yoe = y' mod 400;
          doy = (153 * (if m > 2 then m - 3 else m + 9) + 2) div 5 + d - 1;
          doe = yoe * 365 + yoe div 4 - yoe div 100 + doy in
      era * 146097 + doe - 719468)"

definition digits_value :: "string \<Rightarrow> int" where
  "digits_value s = foldl (\<lambda>n c. 10 * n + of_char c - 48) 0 s"

text \<open>\<open>^[0-9]{4}-[0-9]{2}-[0-9]{2}$\<close>\<close>

definition day_pattern :: "string \<Rightarrow> bool" where
  "day_pattern s = (length s = 10 \<and> s ! 4 = CHR ''-'' \<and> s ! 7 = CHR ''-'' \<and>
     list_all (\<lambda>i. ascii_digit (s ! i)) [0, 1, 2, 3, 5, 6, 8, 9])"

text \<open>A day text names a date exactly when that date is written so; year 0 is not a \<open>date\<close>.\<close>

definition parse_day :: "string \<Rightarrow> int option" where
  "parse_day s =
     (if \<not> day_pattern s then None
      else let y = digits_value (take 4 s); n = days_from_civil y (digits_value (take 2 (drop 5 s))) (digits_value (drop 8 s)) in
        if y \<ge> 1 \<and> iso_day n = s then Some n else None)"

record day_window =
  dw_first :: int
  dw_last :: int

definition parse_window :: "string \<Rightarrow> string \<Rightarrow> day_window option" where
  "parse_window first_day last_day = (case (parse_day first_day, parse_day last_day) of
     (Some a, Some b) \<Rightarrow> if a > b then None else Some \<lparr>dw_first = a, dw_last = b\<rparr>
   | _ \<Rightarrow> None)"

definition window_start :: "day_window \<Rightarrow> int" where
  "window_start w = dw_first w * microseconds_per_day"

definition window_end :: "day_window \<Rightarrow> int" where
  "window_end w = dw_last w * microseconds_per_day + (microseconds_per_day - 1)"

definition window_contains :: "day_window \<Rightarrow> int \<Rightarrow> bool" where
  "window_contains w t = (window_start w \<le> t \<and> t \<le> window_end w)"

definition is_date_time :: "(string \<Rightarrow> iso_value) \<Rightarrow> string \<Rightarrow> bool" where
  "is_date_time fromiso s = (if CHR ''T'' \<notin> set s then False else fromiso s \<noteq> IsoError)"

record source_selector =
  sel_source :: string
  sel_revision :: string

record locality_request =
  lq_subject :: string
  lq_environment :: string
  lq_first_day :: string
  lq_last_day :: string
  lq_object :: "string option"
  lq_relation_type :: string
  lq_dimensions :: "string list"
  lq_selector :: "source_selector option"

record request_refusal =
  rf_disposition :: locality_disposition
  rf_reasons :: "locality_reason list"

datatype locality_fault = MalformedWindow | LocalityAssertion

definition supported_dimensions :: "string list" where
  "supported_dimensions = [''cluster'', ''namespace'', ''workload'']"

definition preflight :: "deployment_library \<Rightarrow> locality_request \<Rightarrow> locality_fault + (request_refusal + day_window)" where
  "preflight lib rq =
     (let bounds = [lq_first_day rq, lq_last_day rq];
          reasons = (if lq_relation_type rq \<noteq> ''CALLS'' then [UNSUPPORTED_RELATION] else []) @
            (if list_ex (\<lambda>d. d \<notin> set supported_dimensions) (lq_dimensions rq) then [UNSUPPORTED_DIMENSION] else []) in
      if list_ex (is_date_time (dl_fromisoformat lib)) bounds then
        if \<not> list_all (\<lambda>b. is_date_time (dl_fromisoformat lib) b \<or> day_pattern b) bounds then Inl MalformedWindow
        else Inr (Inl \<lparr>rf_disposition = UNSUPPORTED, rf_reasons = sorted_set (reasons @ [UNSUPPORTED_TEMPORAL_RESOLUTION])\<rparr>)
      else (case parse_window (lq_first_day rq) (lq_last_day rq) of
          None \<Rightarrow> Inl MalformedWindow
        | Some w \<Rightarrow>
            if reasons \<noteq> [] then Inr (Inl \<lparr>rf_disposition = UNSUPPORTED, rf_reasons = sorted_set reasons\<rparr>)
            else Inr (Inr w)))"

section \<open>Captures\<close>

record source_capture =
  lc_source :: string
  lc_scope :: string
  lc_revision :: string
  lc_cluster_uid :: string
  lc_namespaces :: "string list"
  lc_evidence_mode :: string
  lc_captured_at :: string

definition capture_sort_key :: "source_capture \<Rightarrow> string \<times> string \<times> string" where
  "capture_sort_key c = (lc_source c, lc_scope c, lc_revision c)"

record captured_workload =
  kw_id :: string
  kw_kind :: string
  kw_namespace :: string
  kw_name :: string
  kw_cluster_uid :: string
  kw_uid :: "string option"

record scoped_owner =
  lo_workload_id :: string
  lo_workload :: "captured_workload option"
  lo_evidence :: "string list"

record scoped_pod =
  lp_pod_id :: string
  lp_name :: string
  lp_namespace :: string
  lp_cluster_uid :: string
  lp_captured_uid :: string
  lp_owners :: "scoped_owner list"
  lp_evidence :: "string list"

record source_inventory =
  li_capture :: source_capture
  li_pods :: "scoped_pod list"

definition sc_environment :: "scoped_observed_call \<Rightarrow> string" where
  "sc_environment r = (case sc_key r of (e, _) \<Rightarrow> e)"

definition sc_object :: "scoped_observed_call \<Rightarrow> string" where
  "sc_object r = (case sc_key r of (_, _, _, ob, _) \<Rightarrow> ob)"

definition sc_subject :: "scoped_observed_call \<Rightarrow> string" where
  "sc_subject r = (case sc_key r of (_, _, sub, _) \<Rightarrow> sub)"

definition sc_caller_cluster :: "scoped_observed_call \<Rightarrow> string" where
  "sc_caller_cluster r = (case sc_key r of (_, _, _, _, c, _) \<Rightarrow> c)"

definition sc_caller_pod :: "scoped_observed_call \<Rightarrow> string" where
  "sc_caller_pod r = (case sc_key r of (_, _, _, _, _, p) \<Rightarrow> p)"

section \<open>Selection\<close>

definition caller_pods :: "scoped_observed_call \<Rightarrow> source_inventory \<Rightarrow> scoped_pod list" where
  "caller_pods r inventory = filter (\<lambda>p. lp_captured_uid p = sc_caller_pod r) (li_pods inventory)"

definition admission_of :: "scoped_observed_call \<Rightarrow> source_inventory \<Rightarrow> admission_basis list" where
  "admission_of r inventory =
     (if list_ex (\<lambda>p. lp_captured_uid p = sc_caller_pod r) (li_pods inventory) then [POD_UID_BASIS] else []) @
     (if lc_cluster_uid (li_capture inventory) = sc_caller_cluster r \<and>
         (case sc_names r K8S_NAMESPACE_NAME of None \<Rightarrow> False | Some n \<Rightarrow> n \<in> set (lc_namespaces (li_capture inventory)))
      then [CLUSTER_NAMESPACE_BASIS] else [])"

definition select_sources :: "scoped_observed_call \<Rightarrow> source_inventory list \<Rightarrow> source_selector option
     \<Rightarrow> (source_inventory \<times> admission_basis list) list" where
  "select_sources r sources selector =
     (let ordered = sort_key (\<lambda>i. capture_sort_key (li_capture i)) sources in
      case selector of
        Some s \<Rightarrow> map (\<lambda>i. (i, [EXPLICIT_SOURCE]))
          (filter (\<lambda>i. lc_source (li_capture i) = sel_source s \<and> lc_revision (li_capture i) = sel_revision s) ordered)
      | None \<Rightarrow> filter (\<lambda>(i, bases). bases \<noteq> []) (map (\<lambda>i. (i, admission_of r i)) ordered))"

section \<open>One pair\<close>

text \<open>\<open>_primary\<close>; \<open>None\<close> is its KeyError or StopIteration.\<close>

definition primary_of :: "locality_reason list \<Rightarrow> locality_disposition option" where
  "primary_of reasons =
     (if list_ex (\<lambda>x. locality_reason_disposition x = None) reasons then None
      else find (\<lambda>d. Some d \<in> set (map locality_reason_disposition reasons)) disposition_precedence)"

record pair_result =
  pp_source :: source_capture
  pp_admission :: "admission_basis list"
  pp_phase :: nat
  pp_disposition :: locality_disposition
  pp_reasons :: "locality_reason list"
  pp_limitations :: "locality_limitation list"
  pp_workload :: "captured_workload option"
  pp_evidence :: "string list"

definition kind_name_fields :: "(workload_kind \<times> consistency_field) list" where
  "kind_name_fields = [(DEPLOYMENT, K8S_DEPLOYMENT_NAME), (STATEFULSET, K8S_STATEFULSET_NAME), (DAEMONSET, K8S_DAEMONSET_NAME)]"

definition workload_attributes_conflict :: "scoped_observed_call \<Rightarrow> captured_workload \<Rightarrow> workload_kind \<Rightarrow> bool" where
  "workload_attributes_conflict r w resolved_kind = list_ex (\<lambda>(k, field). case sc_names r field of None \<Rightarrow> False
     | Some v \<Rightarrow> k \<noteq> resolved_kind \<or> v \<noteq> kw_name w) kind_name_fields"

text \<open>The identity checks of the one Pod, and the step to its owner.\<close>

definition pod_reasons :: "scoped_observed_call \<Rightarrow> source_inventory \<Rightarrow> scoped_pod \<Rightarrow> locality_reason list" where
  "pod_reasons r inventory pod =
     (if sc_caller_cluster r \<noteq> lc_cluster_uid (li_capture inventory) then [CLUSTER_UID_CONFLICT] else []) @
     (case sc_names r K8S_NAMESPACE_NAME of None \<Rightarrow> [] | Some n \<Rightarrow> if n \<noteq> lp_namespace pod then [NAMESPACE_CONFLICT] else []) @
     (case sc_names r K8S_POD_NAME of None \<Rightarrow> [] | Some n \<Rightarrow> if n \<noteq> lp_name pod then [POD_OWNER_CONFLICT] else []) @
     (if sc_conflicts r \<noteq> [] then [POD_OWNER_CONFLICT] else [])"

definition pod_owner_step :: "scoped_observed_call \<Rightarrow> scoped_pod \<Rightarrow> locality_reason list \<times> captured_workload option" where
  "pod_owner_step r pod =
     (case lp_owners pod of
        [] \<Rightarrow> ([POD_OWNER_UNRESOLVED], None)
      | [owner] \<Rightarrow>
          (case lo_workload owner of
             None \<Rightarrow> ([POD_OWNER_UNRESOLVED], None)
           | Some w \<Rightarrow> (case map_of workload_kind_by_raw (kw_kind w) of
                 None \<Rightarrow> ([POD_OWNER_UNRESOLVED], None)
               | Some k \<Rightarrow> (if workload_attributes_conflict r w k then [POD_OWNER_CONFLICT] else [], Some w)))
      | _ \<Rightarrow> ([POD_OWNER_AMBIGUOUS], None))"

definition phase_4 :: "scoped_observed_call \<Rightarrow> source_inventory \<Rightarrow> locality_reason list \<times> captured_workload option \<times> string list" where
  "phase_4 r inventory =
     (case caller_pods r inventory of
        [] \<Rightarrow> ([CAPTURE_MISSING_POD], None, [])
      | [pod] \<Rightarrow>
          (let step = pod_owner_step r pod; reasons = pod_reasons r inventory pod @ fst step in
           (reasons, if reasons = [] then snd step else None,
            sorted_set (lp_evidence pod @ concat (map lo_evidence (lp_owners pod)))))
      | pods \<Rightarrow> ([POD_OWNER_AMBIGUOUS], None, sorted_set (concat (map lp_evidence pods))))"

definition evaluate_pair :: "deployment_library \<Rightarrow> scoped_observed_call \<Rightarrow> source_inventory \<Rightarrow> admission_basis list
     \<Rightarrow> string \<Rightarrow> day_window \<Rightarrow> locality_fault + pair_result" where
  "evaluate_pair lib r inventory admission environment window =
     (let capture = li_capture inventory;
          result = (\<lambda>phase disposition reasons limitations w refs.
            \<lparr>pp_source = capture, pp_admission = admission, pp_phase = phase, pp_disposition = disposition,
             pp_reasons = sorted_set reasons, pp_limitations = limitations, pp_workload = w, pp_evidence = refs\<rparr>) in
      if lc_evidence_mode capture \<noteq> ''CAPTURED_RESOURCE'' then Inr (result 2 UNSUPPORTED [CAPTURE_MODE_UNSUPPORTED] [] None [])
      else
        let reasons = (if \<not> window_contains window (sc_last_seen r) then [OBSERVATION_TEMPORAL_MISMATCH] else []) @
              (case parse_rfc3339 (dl_fromisoformat lib) (Some (lc_captured_at capture)) of
                 None \<Rightarrow> [CAPTURE_TIMESTAMP_MISSING]
               | Some t \<Rightarrow> if \<not> window_contains window t then [CAPTURE_TEMPORAL_MISMATCH] else []) in
        if sc_environment r \<noteq> environment then
          Inr (result 3 INAPPLICABLE reasons [REQUEST_ENVIRONMENT_MISMATCH] None [])
        else if reasons \<noteq> [] then
          (case primary_of reasons of None \<Rightarrow> Inl LocalityAssertion | Some d \<Rightarrow> Inr (result 3 d reasons [] None []))
        else (case phase_4 r inventory of (found, w, refs) \<Rightarrow>
          if found = [] then Inr (result 4 APPLICABLE [] [] w refs)
          else (case primary_of found of None \<Rightarrow> Inl LocalityAssertion | Some d \<Rightarrow> Inr (result 4 d found [] w refs))))"

section \<open>The roll-up\<close>

record candidate_result =
  cr_record :: scoped_observed_call
  cr_disposition :: locality_disposition
  cr_reasons :: "locality_reason list"
  cr_limitations :: "locality_limitation list"
  cr_workload :: "captured_workload option"
  cr_supporting :: "(string \<times> string) list"
  cr_pairs :: "pair_result list"

definition with_disposition :: "locality_disposition \<Rightarrow> pair_result list \<Rightarrow> pair_result list" where
  "with_disposition d pairs = filter (\<lambda>p. pp_disposition p = d) pairs"

definition union_reasons :: "pair_result list \<Rightarrow> locality_reason list" where
  "union_reasons pairs = concat (map pp_reasons pairs)"

definition roll_up :: "scoped_observed_call \<Rightarrow> pair_result list \<Rightarrow> locality_fault + candidate_result" where
  "roll_up r pairs =
     (let summary = (\<lambda>disposition reasons limitations w supporting.
            \<lparr>cr_record = r, cr_disposition = disposition, cr_reasons = sorted_set reasons, cr_limitations = sorted_set limitations,
             cr_workload = w, cr_supporting = sorted_set supporting, cr_pairs = pairs\<rparr>);
          applicable = with_disposition APPLICABLE pairs;
          workloads = remdups (somes (map pp_workload applicable));
          conflicting = with_disposition locality_disposition.CONFLICT pairs;
          ambiguous = with_disposition locality_disposition.AMBIGUOUS pairs;
          dispositions = remdups (map pp_disposition pairs) in
      if pairs = [] then
        Inr (summary INSUFFICIENT_EVIDENCE [LOCAL_COVERAGE_UNAVAILABLE] [NO_SELECTABLE_COVERING_SOURCE] None [])
      else if conflicting \<noteq> [] \<or> length workloads > 1 then
        Inr (summary locality_disposition.CONFLICT
          (union_reasons conflicting @ (if length workloads > 1 then [POD_OWNER_CONFLICT] else [])) [] None [])
      else if ambiguous \<noteq> [] then Inr (summary locality_disposition.AMBIGUOUS (union_reasons ambiguous) [] None [])
      else if applicable \<noteq> [] then
        (case workloads of
           [w] \<Rightarrow> Inr (summary APPLICABLE [] [] (Some w) (map (\<lambda>p. (lc_source (pp_source p), lc_revision (pp_source p))) applicable))
         | _ \<Rightarrow> Inl LocalityAssertion)
      else if length dispositions = 1 then
        Inr (summary (hd dispositions) (union_reasons pairs) (concat (map pp_limitations pairs)) None [])
      else Inr (summary INSUFFICIENT_EVIDENCE [] [] None []))"

section \<open>A page of candidates\<close>

record applicability_result =
  ar_candidates :: "candidate_result list"
  ar_truncated :: bool
  ar_next_after :: "string option"
  ar_refusal :: "request_refusal option"

definition evaluate_candidate :: "deployment_library \<Rightarrow> locality_request \<Rightarrow> day_window \<Rightarrow> source_inventory list
     \<Rightarrow> scoped_observed_call \<Rightarrow> locality_fault + candidate_result" where
  "evaluate_candidate lib rq window sources r =
     and_then (traverse (\<lambda>(inventory, admission). evaluate_pair lib r inventory admission (lq_environment rq) window)
       (select_sources r sources (lq_selector rq))) (roll_up r)"

definition evaluate_candidates :: "deployment_library \<Rightarrow> locality_request \<Rightarrow> scoped_observed_call list \<Rightarrow> source_inventory list
     \<Rightarrow> bool \<Rightarrow> locality_fault + applicability_result" where
  "evaluate_candidates lib rq records sources truncated =
     and_then (preflight lib rq) (\<lambda>checked. case checked of
         Inl refusal \<Rightarrow> Inr \<lparr>ar_candidates = [], ar_truncated = False, ar_next_after = None, ar_refusal = Some refusal\<rparr>
       | Inr window \<Rightarrow>
           and_then (traverse (evaluate_candidate lib rq window sources) (sort_key sc_id records)) (\<lambda>candidates.
             Inr \<lparr>ar_candidates = candidates, ar_truncated = truncated,
               ar_next_after = (if truncated \<and> candidates \<noteq> [] then Some (sc_id (cr_record (last candidates))) else None),
               ar_refusal = None\<rparr>))"

end
