(* ===== verification/LocalityVerdicts.thy ===== *)
theory LocalityVerdicts
  imports LocalityApplicability DeploymentPaths
begin

text \<open>
  What \<open>scoped_applicability\<close> decides: the evaluation of a page the preflight accepts always returns (no KeyError of
  a reason without a disposition, no failing unpacking), and a candidate is applicable exactly when some selected
  capture witnesses its caller Workload, all witnesses agree and no selected capture disputes it.
\<close>

section \<open>Pairs\<close>

lemma find_some: "x \<in> set xs \<Longrightarrow> P x \<Longrightarrow> \<exists>y. find P xs = Some y"
  by (induction xs) auto

definition decided_reason :: "locality_reason \<Rightarrow> bool" where
  "decided_reason x = (\<exists>d\<in>set disposition_precedence. locality_reason_disposition x = Some d)"

lemma primary_total:
  assumes "xs \<noteq> []" "\<forall>x\<in>set xs. decided_reason x"
  shows "\<exists>d. primary_of xs = Some d"
proof -
  obtain x where x: "x \<in> set xs" using assms(1) by (cases xs) auto
  then obtain d where d: "d \<in> set disposition_precedence" "locality_reason_disposition x = Some d"
    using assms(2) by (auto simp: decided_reason_def)
  have "\<not> list_ex (\<lambda>x. locality_reason_disposition x = None) xs"
    using assms(2) by (auto simp: list_ex_iff decided_reason_def)
  moreover have "Some d \<in> set (map locality_reason_disposition xs)" using x d(2) by force
  ultimately show ?thesis unfolding primary_of_def using find_some [OF d(1)] by simp
qed

definition temporal_reasons :: "deployment_library \<Rightarrow> scoped_observed_call \<Rightarrow> source_capture \<Rightarrow> day_window \<Rightarrow> locality_reason list" where
  "temporal_reasons lib r capture window =
     (if \<not> window_contains window (sc_last_seen r) then [OBSERVATION_TEMPORAL_MISMATCH] else []) @
     (case parse_rfc3339 (dl_fromisoformat lib) (Some (lc_captured_at capture)) of
        None \<Rightarrow> [CAPTURE_TIMESTAMP_MISSING]
      | Some t \<Rightarrow> if \<not> window_contains window t then [CAPTURE_TEMPORAL_MISMATCH] else [])"

lemma temporal_decided: "x \<in> set (temporal_reasons lib r capture window) \<Longrightarrow> decided_reason x"
  by (auto simp: temporal_reasons_def decided_reason_def disposition_precedence_def split: if_splits option.splits)

lemma pod_decided: "x \<in> set (pod_reasons r inventory pod) \<Longrightarrow> locality_reason_disposition x = Some locality_disposition.CONFLICT"
  by (auto simp: pod_reasons_def split: if_splits option.splits)

lemma owner_decided: "x \<in> set (fst (pod_owner_step r pod)) \<Longrightarrow> locality_reason_disposition x \<in>
    {Some locality_disposition.UNRESOLVED, Some locality_disposition.AMBIGUOUS, Some locality_disposition.CONFLICT}"
  by (auto simp: pod_owner_step_def split: list.splits option.splits if_splits)

lemma phase_4_decided: "x \<in> set (fst (phase_4 r inventory)) \<Longrightarrow> locality_reason_disposition x \<in>
    {Some locality_disposition.UNRESOLVED, Some locality_disposition.AMBIGUOUS, Some locality_disposition.CONFLICT}"
  using owner_decided pod_decided by (fastforce simp: phase_4_def Let_def split: list.splits)

lemma phase_4_reasons: "x \<in> set (fst (phase_4 r inventory)) \<Longrightarrow> decided_reason x"
  using phase_4_decided [of x r inventory] by (auto simp: decided_reason_def disposition_precedence_def)

text \<open>Phases 2 and 3, passed.\<close>

definition admits :: "deployment_library \<Rightarrow> string \<Rightarrow> day_window \<Rightarrow> scoped_observed_call \<Rightarrow> source_inventory \<Rightarrow> bool" where
  "admits lib environment window r inventory \<longleftrightarrow> lc_evidence_mode (li_capture inventory) = ''CAPTURED_RESOURCE'' \<and>
     sc_environment r = environment \<and> window_contains window (sc_last_seen r) \<and>
     (case parse_rfc3339 (dl_fromisoformat lib) (Some (lc_captured_at (li_capture inventory))) of
        None \<Rightarrow> False | Some t \<Rightarrow> window_contains window t)"

lemma temporal_none: "temporal_reasons lib r capture window = [] \<longleftrightarrow> window_contains window (sc_last_seen r) \<and>
    (case parse_rfc3339 (dl_fromisoformat lib) (Some (lc_captured_at capture)) of None \<Rightarrow> False | Some t \<Rightarrow> window_contains window t)"
  by (auto simp: temporal_reasons_def split: option.splits)

lemma evaluate_pair_cases:
  "\<exists>p. evaluate_pair lib r inventory admission environment window = Inr p \<and> pp_source p = li_capture inventory \<and>
     (if admits lib environment window r inventory then
        pp_workload p = fst (snd (phase_4 r inventory)) \<and>
        (if fst (phase_4 r inventory) = [] then pp_disposition p = APPLICABLE
         else Some (pp_disposition p) = primary_of (fst (phase_4 r inventory)))
      else pp_workload p = None \<and> pp_disposition p \<in> {UNSUPPORTED, INAPPLICABLE, INSUFFICIENT_EVIDENCE})"
proof -
  let ?capture = "li_capture inventory"
  let ?t = "temporal_reasons lib r ?capture window"
  note unfolded = evaluate_pair_def Let_def temporal_reasons_def [symmetric]
  consider (mode) "lc_evidence_mode ?capture \<noteq> ''CAPTURED_RESOURCE''"
    | (environment) "lc_evidence_mode ?capture = ''CAPTURED_RESOURCE''" "sc_environment r \<noteq> environment"
    | (temporal) "lc_evidence_mode ?capture = ''CAPTURED_RESOURCE''" "sc_environment r = environment" "?t \<noteq> []"
    | (pod) "lc_evidence_mode ?capture = ''CAPTURED_RESOURCE''" "sc_environment r = environment" "?t = []" by blast
  then show ?thesis
  proof cases
    case mode
    then show ?thesis by (simp add: unfolded admits_def)
  next
    case environment
    then show ?thesis by (simp add: unfolded admits_def)
  next
    case temporal
    obtain d where d: "primary_of ?t = Some d" using primary_total [OF temporal(3)] temporal_decided by blast
    then have "Some d \<in> set (map locality_reason_disposition ?t)"
      by (auto simp: primary_of_def find_Some_iff split: if_splits)
    then have "d \<in> {UNSUPPORTED, INAPPLICABLE, INSUFFICIENT_EVIDENCE}"
      by (auto simp: temporal_reasons_def split: if_splits option.splits)
    moreover have "\<not> admits lib environment window r inventory" using temporal(3) unfolding admits_def temporal_none by blast
    ultimately show ?thesis using temporal d by (simp add: unfolded)
  next
    case pod
    then have a: "admits lib environment window r inventory" unfolding admits_def temporal_none by blast
    obtain found w refs where f: "phase_4 r inventory = (found, w, refs)" by (cases "phase_4 r inventory")
    show ?thesis
    proof (cases "found = []")
      case True
      then show ?thesis using pod a by (simp add: unfolded f)
    next
      case False
      obtain d where "primary_of found = Some d" using primary_total [OF False] phase_4_reasons [of _ r inventory] by (auto simp: f)
      then show ?thesis using pod a False by (simp add: unfolded f)
    qed
  qed
qed

text \<open>A capture witnesses that the caller's only captured Pod belongs to a Workload, or disputes it.\<close>

definition witnesses :: "deployment_library \<Rightarrow> string \<Rightarrow> day_window \<Rightarrow> scoped_observed_call \<Rightarrow> source_inventory \<Rightarrow> captured_workload \<Rightarrow> bool" where
  "witnesses lib environment window r inventory w \<longleftrightarrow> admits lib environment window r inventory \<and>
     (\<exists>pod owner k. caller_pods r inventory = [pod] \<and> pod_reasons r inventory pod = [] \<and> lp_owners pod = [owner] \<and>
        lo_workload owner = Some w \<and> map_of workload_kind_by_raw (kw_kind w) = Some k \<and> \<not> workload_attributes_conflict r w k)"

definition disputes :: "deployment_library \<Rightarrow> string \<Rightarrow> day_window \<Rightarrow> scoped_observed_call \<Rightarrow> source_inventory \<Rightarrow> bool" where
  "disputes lib environment window r inventory \<longleftrightarrow> admits lib environment window r inventory \<and>
     (length (caller_pods r inventory) > 1 \<or>
      (\<exists>pod. caller_pods r inventory = [pod] \<and>
         (pod_reasons r inventory pod \<noteq> [] \<or> length (lp_owners pod) > 1 \<or>
          (\<exists>owner w k. lp_owners pod = [owner] \<and> lo_workload owner = Some w \<and>
             map_of workload_kind_by_raw (kw_kind w) = Some k \<and> workload_attributes_conflict r w k))))"

lemma pod_owner_step_reasons:
  "fst (pod_owner_step r pod) = [] \<longleftrightarrow> (\<exists>owner w k. lp_owners pod = [owner] \<and> lo_workload owner = Some w \<and>
     map_of workload_kind_by_raw (kw_kind w) = Some k \<and> \<not> workload_attributes_conflict r w k)"
  "fst (pod_owner_step r pod) = [] \<Longrightarrow> snd (pod_owner_step r pod) = lo_workload (hd (lp_owners pod))"
  "(\<exists>x\<in>set (fst (pod_owner_step r pod)). locality_reason_disposition x \<noteq> Some locality_disposition.UNRESOLVED) \<longleftrightarrow>
     length (lp_owners pod) > 1 \<or> (\<exists>owner w k. lp_owners pod = [owner] \<and> lo_workload owner = Some w \<and>
       map_of workload_kind_by_raw (kw_kind w) = Some k \<and> workload_attributes_conflict r w k)"
  by (auto simp: pod_owner_step_def split: list.splits option.splits if_splits)

lemma phase_4_none: "fst (phase_4 r inventory) = [] \<longleftrightarrow> (\<exists>pod. caller_pods r inventory = [pod] \<and>
    pod_reasons r inventory pod = [] \<and> fst (pod_owner_step r pod) = [])"
  by (auto simp: phase_4_def Let_def split: list.splits)

lemma phase_4_strong: "(\<exists>x\<in>set (fst (phase_4 r inventory)). locality_reason_disposition x \<noteq> Some locality_disposition.UNRESOLVED) \<longleftrightarrow>
    length (caller_pods r inventory) > 1 \<or> (\<exists>pod. caller_pods r inventory = [pod] \<and> (pod_reasons r inventory pod \<noteq> [] \<or>
      (\<exists>x\<in>set (fst (pod_owner_step r pod)). locality_reason_disposition x \<noteq> Some locality_disposition.UNRESOLVED)))"
proof -
  have "pod_reasons r inventory pod \<noteq> [] \<longleftrightarrow>
      (\<exists>x\<in>set (pod_reasons r inventory pod). locality_reason_disposition x \<noteq> Some locality_disposition.UNRESOLVED)" for pod
    using pod_decided [of _ r inventory pod] by (cases "pod_reasons r inventory pod") auto
  then show ?thesis by (auto simp: phase_4_def Let_def split: list.splits)
qed

lemma primary_strong:
  assumes "\<forall>x\<in>set xs. locality_reason_disposition x \<in>
      {Some locality_disposition.UNRESOLVED, Some locality_disposition.AMBIGUOUS, Some locality_disposition.CONFLICT}"
    "primary_of xs = Some d"
  shows "d \<in> {locality_disposition.CONFLICT, locality_disposition.AMBIGUOUS} \<longleftrightarrow>
    (\<exists>x\<in>set xs. locality_reason_disposition x \<noteq> Some locality_disposition.UNRESOLVED)" "d \<noteq> APPLICABLE"
proof -
  define D where "D = locality_reason_disposition ` set xs"
  have sub: "D \<subseteq> {Some locality_disposition.UNRESOLVED, Some locality_disposition.AMBIGUOUS, Some locality_disposition.CONFLICT}"
    unfolding D_def by (rule image_subsetI) (use assms(1) in blast)
  have conv: "(\<exists>x\<in>set xs. locality_reason_disposition x \<noteq> Some locality_disposition.UNRESOLVED) \<longleftrightarrow>
      Some locality_disposition.AMBIGUOUS \<in> D \<or> Some locality_disposition.CONFLICT \<in> D"
  proof
    assume "\<exists>x\<in>set xs. locality_reason_disposition x \<noteq> Some locality_disposition.UNRESOLVED"
    then obtain x where x: "x \<in> set xs" "locality_reason_disposition x \<noteq> Some locality_disposition.UNRESOLVED" by blast
    have "locality_reason_disposition x \<in> D" unfolding D_def using x(1) by (rule imageI)
    then show "Some locality_disposition.AMBIGUOUS \<in> D \<or> Some locality_disposition.CONFLICT \<in> D"
      using subsetD [OF sub] x(2) by force
  next
    assume "Some locality_disposition.AMBIGUOUS \<in> D \<or> Some locality_disposition.CONFLICT \<in> D"
    then obtain x where "x \<in> set xs" "locality_reason_disposition x = Some locality_disposition.AMBIGUOUS \<or>
        locality_reason_disposition x = Some locality_disposition.CONFLICT"
      unfolding D_def by (metis imageE)
    then show "\<exists>x\<in>set xs. locality_reason_disposition x \<noteq> Some locality_disposition.UNRESOLVED"
      by (intro bexI [of _ x]) auto
  qed
  have "find (\<lambda>d. Some d \<in> D) disposition_precedence = Some d"
    using assms(2) by (simp add: primary_of_def D_def split: if_splits)
  then have "Some d \<in> D \<and> (d = locality_disposition.CONFLICT \<or> Some locality_disposition.CONFLICT \<notin> D \<and>
      (d = locality_disposition.AMBIGUOUS \<or> Some locality_disposition.AMBIGUOUS \<notin> D))"
    by (simp add: disposition_precedence_def split: if_splits)
  then show "d \<in> {locality_disposition.CONFLICT, locality_disposition.AMBIGUOUS} \<longleftrightarrow>
      (\<exists>x\<in>set xs. locality_reason_disposition x \<noteq> Some locality_disposition.UNRESOLVED)" "d \<noteq> APPLICABLE"
    unfolding conv using sub by auto
qed

lemma pair_verdict:
  assumes "evaluate_pair lib r inventory admission environment window = Inr p"
  shows "pp_disposition p = APPLICABLE \<longleftrightarrow> (\<exists>w. witnesses lib environment window r inventory w)"
    "witnesses lib environment window r inventory w \<Longrightarrow> pp_workload p = Some w"
    "pp_disposition p \<in> {locality_disposition.CONFLICT, locality_disposition.AMBIGUOUS} \<longleftrightarrow> disputes lib environment window r inventory"
    "pp_source p = li_capture inventory"
proof -
  let ?f = "fst (phase_4 r inventory)"
  from evaluate_pair_cases [of lib r inventory admission environment window]
  have p: "pp_source p = li_capture inventory"
    "if admits lib environment window r inventory then pp_workload p = fst (snd (phase_4 r inventory)) \<and>
        (if ?f = [] then pp_disposition p = APPLICABLE else Some (pp_disposition p) = primary_of ?f)
     else pp_workload p = None \<and> pp_disposition p \<in> {UNSUPPORTED, INAPPLICABLE, INSUFFICIENT_EVIDENCE}"
    using assms by auto
  show "pp_source p = li_capture inventory" by (rule p(1))
  have none: "?f = [] \<longleftrightarrow> (\<exists>pod owner w k. caller_pods r inventory = [pod] \<and> pod_reasons r inventory pod = [] \<and>
      lp_owners pod = [owner] \<and> lo_workload owner = Some w \<and> map_of workload_kind_by_raw (kw_kind w) = Some k \<and>
      \<not> workload_attributes_conflict r w k)"
    unfolding phase_4_none pod_owner_step_reasons(1) by blast
  show "pp_disposition p = APPLICABLE \<longleftrightarrow> (\<exists>w. witnesses lib environment window r inventory w)"
  proof (cases "admits lib environment window r inventory")
    case True
    have "?f \<noteq> [] \<Longrightarrow> pp_disposition p \<noteq> APPLICABLE"
      using p(2) True primary_strong(2) [of ?f] phase_4_decided [of _ r inventory] by (metis (full_types))
    then show ?thesis using p(2) True none unfolding witnesses_def by (auto split: if_splits)
  qed (use p(2) in \<open>auto simp: witnesses_def\<close>)
  show "witnesses lib environment window r inventory w \<Longrightarrow> pp_workload p = Some w"
  proof -
    assume w: "witnesses lib environment window r inventory w"
    then obtain pod owner where pod: "caller_pods r inventory = [pod]" "pod_reasons r inventory pod = []" "lp_owners pod = [owner]"
        "lo_workload owner = Some w" "fst (pod_owner_step r pod) = []"
      unfolding witnesses_def pod_owner_step_reasons(1) by blast
    then have "fst (snd (phase_4 r inventory)) = Some w"
      using pod_owner_step_reasons(2) [OF pod(5)] by (simp add: phase_4_def Let_def)
    then show ?thesis using p(2) w by (simp add: witnesses_def)
  qed
  have strong: "(\<exists>x\<in>set ?f. locality_reason_disposition x \<noteq> Some locality_disposition.UNRESOLVED) \<and> admits lib environment window r inventory
      \<longleftrightarrow> disputes lib environment window r inventory"
    unfolding phase_4_strong pod_owner_step_reasons(3) disputes_def by blast
  show "pp_disposition p \<in> {locality_disposition.CONFLICT, locality_disposition.AMBIGUOUS} \<longleftrightarrow> disputes lib environment window r inventory"
  proof (cases "admits lib environment window r inventory \<and> ?f \<noteq> []")
    case True
    then have "primary_of ?f = Some (pp_disposition p)" using p(2) by simp
    from primary_strong(1) [OF _ this] phase_4_decided [of _ r inventory] show ?thesis unfolding strong [symmetric] using True by blast
  next
    case False
    then show ?thesis using p(2) unfolding strong [symmetric] by (auto split: if_splits)
  qed
qed

section \<open>Candidates\<close>

lemma evaluate_pair_total: "\<exists>p. evaluate_pair lib r inventory admission environment window = Inr p"
  using evaluate_pair_cases by blast

definition pairs_of :: "deployment_library \<Rightarrow> locality_request \<Rightarrow> day_window \<Rightarrow> source_inventory list \<Rightarrow> scoped_observed_call
     \<Rightarrow> (source_inventory \<times> admission_basis list) list" where
  "pairs_of lib rq window sources r = select_sources r sources (lq_selector rq)"

lemma selected_mem:
  "(inventory, admission) \<in> set (select_sources r sources selector) \<longleftrightarrow> inventory \<in> set sources \<and>
     (case selector of
        Some s \<Rightarrow> admission = [EXPLICIT_SOURCE] \<and> lc_source (li_capture inventory) = sel_source s \<and>
          lc_revision (li_capture inventory) = sel_revision s
      | None \<Rightarrow> admission = admission_of r inventory \<and> admission \<noteq> [])"
  by (auto simp: select_sources_def Let_def split: option.split)

lemma with_disposition_mem [simp]: "p \<in> set (with_disposition d pairs) \<longleftrightarrow> p \<in> set pairs \<and> pp_disposition p = d"
  by (auto simp: with_disposition_def)

text \<open>What the roll-up needs of its pairs: an applicable pair has a Workload.\<close>

text \<open>What a rolled-up result says of its pairs.\<close>

definition names_workload :: "pair_result list \<Rightarrow> captured_workload \<Rightarrow> bool" where
  "names_workload pairs w \<longleftrightarrow> (\<exists>p\<in>set pairs. pp_disposition p = APPLICABLE) \<and>
     (\<forall>p\<in>set pairs. pp_disposition p = APPLICABLE \<longrightarrow> pp_workload p = Some w) \<and>
     (\<forall>p\<in>set pairs. pp_disposition p \<notin> {locality_disposition.CONFLICT, locality_disposition.AMBIGUOUS})"

definition rolls_up :: "scoped_observed_call \<Rightarrow> pair_result list \<Rightarrow> candidate_result \<Rightarrow> bool" where
  "rolls_up r pairs res \<longleftrightarrow> roll_up r pairs = Inr res \<and> (cr_disposition res = APPLICABLE \<longleftrightarrow> cr_workload res \<noteq> None) \<and>
     (\<forall>w. cr_workload res = Some w \<longleftrightarrow> names_workload pairs w)"

lemma rolls_up_none:
  assumes "roll_up r pairs = Inr res" "cr_disposition res \<noteq> APPLICABLE" "cr_workload res = None" "\<And>w. \<not> names_workload pairs w"
  shows "rolls_up r pairs res"
  using assms by (simp add: rolls_up_def)

lemma rolls_up_some:
  assumes "roll_up r pairs = Inr res" "cr_disposition res = APPLICABLE" "cr_workload res = Some w"
    "\<And>v. names_workload pairs v \<longleftrightarrow> v = w"
  shows "rolls_up r pairs res"
  unfolding rolls_up_def assms(2-4) using assms(1) by auto

lemma roll_up_verdict:
  assumes named: "\<forall>p\<in>set pairs. pp_disposition p = APPLICABLE \<longrightarrow> pp_workload p \<noteq> None"
  shows "\<exists>res. rolls_up r pairs res"
proof -
  let ?app = "with_disposition APPLICABLE pairs"
  let ?ws = "remdups (somes (map pp_workload ?app))"
  let ?conflict = "with_disposition locality_disposition.CONFLICT pairs"
  let ?ambiguous = "with_disposition locality_disposition.AMBIGUOUS pairs"
  have app: "?app = [] \<longleftrightarrow> \<not> (\<exists>p\<in>set pairs. pp_disposition p = APPLICABLE)"
    and no_conflict: "?conflict = [] \<longleftrightarrow> (\<forall>p\<in>set pairs. pp_disposition p \<noteq> locality_disposition.CONFLICT)"
    and no_ambiguous: "?ambiguous = [] \<longleftrightarrow> (\<forall>p\<in>set pairs. pp_disposition p \<noteq> locality_disposition.AMBIGUOUS)"
    by (auto simp: with_disposition_def filter_empty_conv)
  have ws: "w \<in> set ?ws \<longleftrightarrow> (\<exists>p\<in>set pairs. pp_disposition p = APPLICABLE \<and> pp_workload p = Some w)" for w
    by (force simp: image_iff)
  have same: "(\<forall>p\<in>set pairs. pp_disposition p = APPLICABLE \<longrightarrow> pp_workload p = Some w) \<longleftrightarrow> set ?ws \<subseteq> {w}" for w
  proof
    assume "\<forall>p\<in>set pairs. pp_disposition p = APPLICABLE \<longrightarrow> pp_workload p = Some w"
    then show "set ?ws \<subseteq> {w}" using ws by fastforce
  next
    assume sub: "set ?ws \<subseteq> {w}"
    show "\<forall>p\<in>set pairs. pp_disposition p = APPLICABLE \<longrightarrow> pp_workload p = Some w"
    proof (intro ballI impI)
      fix p assume p: "p \<in> set pairs" "pp_disposition p = APPLICABLE"
      then obtain v where v: "pp_workload p = Some v" using named by blast
      then have "v \<in> set ?ws" unfolding ws using p by blast
      then have "v = w" using sub by blast
      then show "pp_workload p = Some w" using v by simp
    qed
  qed
  consider (conflict) "?conflict \<noteq> [] \<or> length ?ws > 1" | (ambiguous) "\<not> (?conflict \<noteq> [] \<or> length ?ws > 1)" "?ambiguous \<noteq> []"
    | (applicable) "\<not> (?conflict \<noteq> [] \<or> length ?ws > 1)" "?ambiguous = []" "?app \<noteq> []"
    | (other) "\<not> (?conflict \<noteq> [] \<or> length ?ws > 1)" "?ambiguous = []" "?app = []" by blast
  then show ?thesis
  proof cases
    case conflict
    have several: "\<not> set ?ws \<subseteq> {w}" if "length ?ws > 1" for w
    proof
      assume "set ?ws \<subseteq> {w}"
      then have "card (set ?ws) \<le> 1" using card_mono [of "{w}" "set ?ws"] by simp
      then show False using that distinct_card [OF distinct_remdups, of "somes (map pp_workload ?app)"] by simp
    qed
    have "pairs \<noteq> []" using conflict by (auto simp: with_disposition_def)
    then obtain res where res: "roll_up r pairs = Inr res" "cr_disposition res = locality_disposition.CONFLICT" "cr_workload res = None"
      using conflict by (simp add: roll_up_def Let_def)
    have "\<not> names_workload pairs w" for w
      using conflict several unfolding names_workload_def same no_conflict by blast
    then have "rolls_up r pairs res" by (intro rolls_up_none res(1,3)) (simp_all add: res(2))
    then show ?thesis ..
  next
    case ambiguous
    then have "pairs \<noteq> []" by (auto simp: with_disposition_def)
    then obtain res where res: "roll_up r pairs = Inr res" "cr_disposition res = locality_disposition.AMBIGUOUS" "cr_workload res = None"
      using ambiguous by (simp add: roll_up_def Let_def)
    have "\<not> names_workload pairs w" for w
      using ambiguous(2) unfolding names_workload_def no_ambiguous by blast
    then have "rolls_up r pairs res" by (intro rolls_up_none res(1,3)) (simp_all add: res(2))
    then show ?thesis ..
  next
    case applicable
    then obtain p where p: "p \<in> set pairs" "pp_disposition p = APPLICABLE" unfolding app by blast
    then obtain v where "v \<in> set ?ws" using named unfolding ws by blast
    then have "?ws \<noteq> []" by (metis empty_iff empty_set)
    then obtain w where w: "?ws = [w]" using applicable(1) by (cases ?ws) auto
    have "pairs \<noteq> []" using p by auto
    have none: "\<forall>p\<in>set pairs. pp_disposition p \<notin> {locality_disposition.CONFLICT, locality_disposition.AMBIGUOUS}"
      using applicable(1,2) unfolding no_conflict no_ambiguous by blast
    have one: "set ?ws \<subseteq> {u} \<longleftrightarrow> u = w" for u unfolding w by auto
    have "roll_up r pairs = Inr \<lparr>cr_record = r, cr_disposition = APPLICABLE, cr_reasons = [], cr_limitations = [],
        cr_workload = Some w, cr_supporting = sorted_set (map (\<lambda>p. (lc_source (pp_source p), lc_revision (pp_source p))) ?app),
        cr_pairs = pairs\<rparr>"
      using applicable \<open>pairs \<noteq> []\<close> by (simp add: roll_up_def Let_def w)
    moreover have "names_workload pairs v \<longleftrightarrow> v = w" for v
      unfolding names_workload_def same one using p none by blast
    ultimately have "rolls_up r pairs \<lparr>cr_record = r, cr_disposition = APPLICABLE, cr_reasons = [], cr_limitations = [],
        cr_workload = Some w, cr_supporting = sorted_set (map (\<lambda>p. (lc_source (pp_source p), lc_revision (pp_source p))) ?app),
        cr_pairs = pairs\<rparr>"
      by (intro rolls_up_some [where w = w]) simp_all
    then show ?thesis ..
  next
    case other
    have none: "\<not> (\<exists>p\<in>set pairs. pp_disposition p = APPLICABLE)" using other(3) unfolding app by blast
    have "hd (remdups (map pp_disposition pairs)) \<noteq> APPLICABLE" if "pairs \<noteq> []"
      using hd_in_set [of "remdups (map pp_disposition pairs)"] that none by auto
    then have "\<exists>res. roll_up r pairs = Inr res \<and> cr_disposition res \<noteq> APPLICABLE \<and> cr_workload res = None"
      using other by (cases "pairs = []"; cases "length (remdups (map pp_disposition pairs)) = 1") (simp_all add: roll_up_def Let_def)
    then obtain res where res: "roll_up r pairs = Inr res" "cr_disposition res \<noteq> APPLICABLE" "cr_workload res = None" by blast
    have "\<not> names_workload pairs w" for w using none unfolding names_workload_def by blast
    then have "rolls_up r pairs res" by (intro rolls_up_none res)
    then show ?thesis ..
  qed
qed

lemma traverse_of_total: "(\<And>x. f x = Inr (g x)) \<Longrightarrow> traverse f xs = Inr (map g xs)"
  by (induction xs) simp_all

definition pair_of :: "deployment_library \<Rightarrow> scoped_observed_call \<Rightarrow> string \<Rightarrow> day_window \<Rightarrow> source_inventory \<times> admission_basis list \<Rightarrow> pair_result" where
  "pair_of lib r environment window x = projr (evaluate_pair lib r (fst x) (snd x) environment window)"

lemma pair_of: "evaluate_pair lib r (fst x) (snd x) environment window = Inr (pair_of lib r environment window x)"
  using evaluate_pair_total [of lib r "fst x" "snd x" environment window] by (auto simp: pair_of_def)

lemmas pair_of_verdict = pair_verdict [OF pair_of]

lemma candidate_rolled_up:
  "evaluate_candidate lib rq window sources r =
     roll_up r (map (pair_of lib r (lq_environment rq) window) (select_sources r sources (lq_selector rq)))"
proof -
  have "traverse (\<lambda>(inventory, admission). evaluate_pair lib r inventory admission (lq_environment rq) window)
      (select_sources r sources (lq_selector rq)) =
    Inr (map (pair_of lib r (lq_environment rq) window) (select_sources r sources (lq_selector rq)))"
    by (rule traverse_of_total) (simp add: case_prod_beta pair_of)
  then show ?thesis by (simp add: evaluate_candidate_def)
qed

text \<open>One candidate.\<close>

lemma candidate_applicable_iff:
  assumes "evaluate_candidate lib rq window sources r = Inr res"
  shows "cr_disposition res = APPLICABLE \<and> cr_workload res = Some w \<longleftrightarrow>
    (\<exists>x\<in>set (select_sources r sources (lq_selector rq)). witnesses lib (lq_environment rq) window r (fst x) w) \<and>
    (\<forall>x\<in>set (select_sources r sources (lq_selector rq)).
       \<not> disputes lib (lq_environment rq) window r (fst x) \<and>
       (\<forall>v. witnesses lib (lq_environment rq) window r (fst x) v \<longrightarrow> v = w))"
proof -
  let ?S = "select_sources r sources (lq_selector rq)"
  let ?p = "pair_of lib r (lq_environment rq) window" and ?wit = "\<lambda>x. witnesses lib (lq_environment rq) window r (fst x)"
  let ?dis = "\<lambda>x. disputes lib (lq_environment rq) window r (fst x)"
  have named: "\<forall>p\<in>set (map ?p ?S). pp_disposition p = APPLICABLE \<longrightarrow> pp_workload p \<noteq> None"
    using pair_of_verdict(1,2) by fastforce
  have rolled: "roll_up r (map ?p ?S) = Inr res" using assms unfolding candidate_rolled_up .
  from roll_up_verdict [OF named, of r] rolled have "rolls_up r (map ?p ?S) res" by (auto simp: rolls_up_def)
  then have app: "cr_disposition res = APPLICABLE \<longleftrightarrow> cr_workload res \<noteq> None"
    and workload: "cr_workload res = Some w \<longleftrightarrow> names_workload (map ?p ?S) w"
    by (simp_all add: rolls_up_def)
  have same: "((\<exists>v. ?wit x v) \<longrightarrow> pp_workload (?p x) = Some w) \<longleftrightarrow> (\<forall>v. ?wit x v \<longrightarrow> v = w)" for x
    using pair_of_verdict(2) by (metis option.inject)
  have "cr_workload res = Some w \<longleftrightarrow> (\<exists>x\<in>set ?S. \<exists>v. ?wit x v) \<and> (\<forall>x\<in>set ?S. \<forall>v. ?wit x v \<longrightarrow> v = w) \<and> (\<forall>x\<in>set ?S. \<not> ?dis x)"
    unfolding workload names_workload_def set_map ball_simps bex_simps pair_of_verdict(1,3) same ..
  then show ?thesis using app by blast
qed

lemma candidate_total: "\<exists>res. evaluate_candidate lib rq window sources r = Inr res \<and> cr_record res = r \<and>
    (cr_disposition res = APPLICABLE \<longleftrightarrow> cr_workload res \<noteq> None)"
proof -
  let ?pairs = "map (pair_of lib r (lq_environment rq) window) (select_sources r sources (lq_selector rq))"
  have "\<forall>p\<in>set ?pairs. pp_disposition p = APPLICABLE \<longrightarrow> pp_workload p \<noteq> None"
    using pair_of_verdict(1,2) by fastforce
  then obtain res where res: "rolls_up r ?pairs res" using roll_up_verdict by blast
  then have "cr_record res = r" by (auto simp: rolls_up_def roll_up_def Let_def split: if_splits list.splits)
  then show ?thesis using res unfolding candidate_rolled_up rolls_up_def by (intro exI [of _ res]) simp
qed

text \<open>C18: for a request phase 1 accepts, the evaluation of a page returns one candidate per retained record, in order of
  id.  A candidate is applicable exactly when it names a caller Workload, and it names one exactly when some selected
  capture witnesses it (inside the window and of the requested environment, the record's Pod UID names one captured
  Pod, which agrees with the record and has exactly one owner, of a supported kind and agreeing), every selected
  capture that witnesses a Workload witnesses the same one, captured UID included, and no selected capture disputes
  the caller (several Pods, several owners, or a contradiction).  A selected capture outside the window, of another
  mode or without the Pod has no influence.\<close>

theorem page_verdicts:
  assumes "preflight lib rq = Inr (Inr window)"
  shows "\<exists>page. evaluate_candidates lib rq records sources truncated = Inr page \<and>
    map cr_record (ar_candidates page) = sort_key sc_id records \<and>
    (\<forall>c\<in>set (ar_candidates page). (cr_disposition c = APPLICABLE \<longleftrightarrow> cr_workload c \<noteq> None) \<and>
       (\<forall>w. cr_workload c = Some w \<longleftrightarrow>
          (\<exists>x\<in>set (select_sources (cr_record c) sources (lq_selector rq)).
             witnesses lib (lq_environment rq) window (cr_record c) (fst x) w) \<and>
          (\<forall>x\<in>set (select_sources (cr_record c) sources (lq_selector rq)).
             \<not> disputes lib (lq_environment rq) window (cr_record c) (fst x) \<and>
             (\<forall>v. witnesses lib (lq_environment rq) window (cr_record c) (fst x) v \<longrightarrow> v = w))))"
proof -
  let ?e = "evaluate_candidate lib rq window sources" and ?rs = "sort_key sc_id records"
  obtain cs where cs: "traverse ?e ?rs = Inr cs"
    using traverse_of_total [of ?e "\<lambda>r. projr (?e r)" ?rs] candidate_total [of lib rq window sources] by (metis sum.sel(2))
  have records: "map cr_record cs = ?rs"
  proof -
    have "map ?e ?rs = map Inr cs" using cs by (simp add: traverse_Inr)
    moreover have "?e r = Inr c \<Longrightarrow> cr_record c = r" for r c using candidate_total [of lib rq window sources r] by auto
    ultimately show ?thesis by (intro nth_equalityI) (metis length_map, metis length_map nth_map)
  qed
  have page: "\<exists>page. evaluate_candidates lib rq records sources truncated = Inr page \<and> ar_candidates page = cs"
    by (simp add: evaluate_candidates_def assms cs)
  have each: "(cr_disposition c = APPLICABLE \<longleftrightarrow> cr_workload c \<noteq> None) \<and> ?e (cr_record c) = Inr c" if c: "c \<in> set cs" for c
  proof -
    obtain r where "?e r = Inr c" using traverse_mem [OF cs c] by blast
    then show ?thesis using candidate_total [of lib rq window sources r] by auto
  qed
  from page obtain page where "evaluate_candidates lib rq records sources truncated = Inr page" "ar_candidates page = cs" by blast
  then show ?thesis
    by (intro exI [of _ page] conjI ballI allI) (simp_all only: records, use each candidate_applicable_iff in \<open>blast+\<close>)
qed

section \<open>A record with one captured caller\<close>

definition ex_local_library :: deployment_library where
  "ex_local_library = \<lparr>dl_sha256 = (\<lambda>_. []),
     dl_text = \<lparr>tx_lower = id, tx_upper = id, tx_casefold = id, tx_strip = id, tx_nfc = id, tx_bytes_repr = id\<rparr>,
     dl_fromisoformat = (\<lambda>_. IsoAware 5), dl_environment_pattern = (\<lambda>_. False)\<rparr>"

definition ex_local_request :: locality_request where
  "ex_local_request = \<lparr>lq_subject = ''service:orders'', lq_environment = ''prod'', lq_first_day = ''1970-01-01'',
     lq_last_day = ''1970-01-01'', lq_object = None, lq_relation_type = ''CALLS'', lq_dimensions = [''workload''], lq_selector = None\<rparr>"

definition ex_local_workload :: captured_workload where
  "ex_local_workload = \<lparr>kw_id = ''w'', kw_kind = ''Deployment'', kw_namespace = ''shop'', kw_name = ''orders'',
     kw_cluster_uid = ''c'', kw_uid = Some ''uid-1''\<rparr>"

definition ex_capture :: "string \<Rightarrow> source_capture" where
  "ex_capture source = \<lparr>lc_source = source, lc_scope = ''scope'', lc_revision = ''r1'', lc_cluster_uid = ''c'',
     lc_namespaces = [''shop''], lc_evidence_mode = ''CAPTURED_RESOURCE'', lc_captured_at = ''1970-01-01T00:00:00Z''\<rparr>"

definition ex_local_pod :: scoped_pod where
  "ex_local_pod = \<lparr>lp_pod_id = ''p'', lp_name = ''orders-1'', lp_namespace = ''shop'', lp_cluster_uid = ''c'', lp_captured_uid = ''u'',
     lp_owners = [\<lparr>lo_workload_id = ''w'', lo_workload = Some ex_local_workload, lo_evidence = [''evidence:o'']\<rparr>],
     lp_evidence = [''evidence:p'']\<rparr>"

definition ex_inventory :: "string \<Rightarrow> scoped_pod list \<Rightarrow> source_inventory" where
  "ex_inventory source pods = \<lparr>li_capture = ex_capture source, li_pods = pods\<rparr>"

text \<open>A second source covers the namespace without the Pod.\<close>

definition ex_inventories :: "source_inventory list" where
  "ex_inventories = [ex_inventory ''k2'' [], ex_inventory ''k1'' [ex_local_pod]]"

definition ex_retained :: scoped_observed_call where
  "ex_retained = \<lparr>sc_id = ''scoped:1'', sc_key = (''prod'', ''1970-01-01'', ''service:orders'', ''operation:pay'', ''c'', ''u''),
     sc_first_seen = 3, sc_last_seen = 4, sc_observation_count = 1, sc_correlation_mode = CLIENT_SERVER, sc_sample_trace_ids = [],
     sc_names = (\<lambda>f. if f = K8S_NAMESPACE_NAME then Some ''shop'' else None), sc_conflicts = [], sc_rule_id = ''r'', sc_rule_version = 1\<rparr>"

lemma ex_preflight: "preflight ex_local_library ex_local_request = Inr (Inr \<lparr>dw_first = 0, dw_last = 0\<rparr>)"
  by code_simp

lemma ex_selected: "select_sources ex_retained ex_inventories None =
    [(ex_inventory ''k1'' [ex_local_pod], [POD_UID_BASIS, CLUSTER_NAMESPACE_BASIS]), (ex_inventory ''k2'' [], [CLUSTER_NAMESPACE_BASIS])]"
  by code_simp

lemma ex_caller_pods: "caller_pods ex_retained (ex_inventory source pods) = filter (\<lambda>p. lp_captured_uid p = ''u'') pods"
  by (simp add: caller_pods_def ex_inventory_def sc_caller_pod_def ex_retained_def)

lemma ex_pod_agrees: "pod_reasons ex_retained (ex_inventory source pods) ex_local_pod = []"
  "\<not> workload_attributes_conflict ex_retained ex_local_workload DEPLOYMENT"
  by (simp_all add: pod_reasons_def sc_caller_cluster_def ex_retained_def ex_inventory_def ex_capture_def ex_local_pod_def
      workload_attributes_conflict_def kind_name_fields_def)

lemma ex_local_kind: "map_of workload_kind_by_raw (kw_kind ex_local_workload) = Some DEPLOYMENT"
  by (simp add: ex_local_workload_def workload_kind_by_raw_def)

lemma ex_witness: "witnesses ex_local_library ''prod'' \<lparr>dw_first = 0, dw_last = 0\<rparr> ex_retained (ex_inventory ''k1'' [ex_local_pod]) w \<longleftrightarrow>
    w = ex_local_workload"
proof -
  have "admits ex_local_library ''prod'' \<lparr>dw_first = 0, dw_last = 0\<rparr> ex_retained (ex_inventory ''k1'' [ex_local_pod])"
    by code_simp
  moreover have "lp_captured_uid ex_local_pod = ''u''" "lp_owners ex_local_pod =
      [\<lparr>lo_workload_id = ''w'', lo_workload = Some ex_local_workload, lo_evidence = [''evidence:o'']\<rparr>]"
    by (simp_all add: ex_local_pod_def)
  ultimately show ?thesis
    using ex_pod_agrees ex_local_kind by (auto simp: witnesses_def ex_caller_pods)
qed

lemma ex_no_dispute:
  "\<not> disputes ex_local_library ''prod'' window ex_retained (ex_inventory ''k1'' [ex_local_pod])"
  "\<not> disputes ex_local_library ''prod'' window ex_retained (ex_inventory ''k2'' [])"
  "\<not> witnesses ex_local_library ''prod'' window ex_retained (ex_inventory ''k2'' []) w"
  using ex_pod_agrees ex_local_kind by (auto simp: disputes_def witnesses_def ex_caller_pods ex_local_pod_def)

theorem page_verdicts_witness:
  "\<exists>page c. evaluate_candidates ex_local_library ex_local_request [ex_retained] ex_inventories False = Inr page \<and>
     ar_candidates page = [c] \<and> cr_record c = ex_retained \<and> cr_workload c = Some ex_local_workload"
proof -
  have rq: "lq_environment ex_local_request = ''prod''" "lq_selector ex_local_request = None" by (simp_all add: ex_local_request_def)
  from page_verdicts [OF ex_preflight, of "[ex_retained]" ex_inventories False] obtain page where
    p: "evaluate_candidates ex_local_library ex_local_request [ex_retained] ex_inventories False = Inr page"
      "map cr_record (ar_candidates page) = [ex_retained]"
    and v: "\<forall>c\<in>set (ar_candidates page). \<forall>w. cr_workload c = Some w \<longleftrightarrow>
       (\<exists>x\<in>set (select_sources (cr_record c) ex_inventories None).
          witnesses ex_local_library ''prod'' \<lparr>dw_first = 0, dw_last = 0\<rparr> (cr_record c) (fst x) w) \<and>
       (\<forall>x\<in>set (select_sources (cr_record c) ex_inventories None).
          \<not> disputes ex_local_library ''prod'' \<lparr>dw_first = 0, dw_last = 0\<rparr> (cr_record c) (fst x) \<and>
          (\<forall>v. witnesses ex_local_library ''prod'' \<lparr>dw_first = 0, dw_last = 0\<rparr> (cr_record c) (fst x) v \<longrightarrow> v = w))"
    unfolding rq by (auto simp del: split_paired_Ex)
  then obtain c where c: "ar_candidates page = [c]" "cr_record c = ex_retained" by (cases "ar_candidates page") auto
  have "cr_workload c = Some ex_local_workload"
    using v by (simp add: c ex_selected ex_witness ex_no_dispute)
  then show ?thesis using p(1) c by blast
qed

end
