(* ===== verification/Spec2Isabelle.thy ===== *)
theory Spec2Isabelle
  imports GraphRevision GraphRemovals DiscoveryOutcomes CorrelationBuffer ScopedEvidence KubernetesAdapter RuntimeAnalysis ReferenceResolution
    TransitionLedger DeploymentEvidence LocalityVerdicts
begin

text \<open>
  Verification development of the Architecture Intelligence Platform (\<open>src/app\<close>, Python).

  The platform builds one graph of a system's architecture from two kinds of evidence and answers questions
  about it.  Declared evidence comes from source documents (OpenAPI, AsyncAPI, Kubernetes manifests, gateway
  and Kafka configuration): a discovery run enumerates the sources, maps each with the adapter that supports
  it to a canonical model, judges the run as a whole, and an import commits an eligible run to the graph, where
  each node and relation records which sources own it.  Observed evidence comes from OpenTelemetry: a POST of
  spans is adapted to facts, and one transaction adds them to day buckets, scoped records, counters and
  relations.  The answers qualify each relation by its declared and observed evidence, and reconcile declared
  services with deployed workloads along three evidence paths.

  Parts, theories and sources.

  \<^item> Shared: \<open>Prelude\<close> (sorted sets, dictionaries as association lists, grouping, \<open>traverse\<close> for a comprehension
    that may raise), \<open>Encoding\<close> (\<open>common/encoding.py\<close>, \<open>sources/owner_ids.py\<close>), \<open>Pointers\<close> (\<open>sources/pointers.py\<close>),
    \<open>PyValues\<close> (a parsed YAML or JSON value), \<open>TextValues\<close> (string methods), \<open>SourceModel\<close> (\<open>sources/model.py\<close>).
  \<^item> Canonical model: \<open>CanonicalModel\<close> (\<open>canonical/*.py\<close>, \<open>provenance/model.py\<close>), \<open>Merge\<close> (\<open>canonical/merge.py\<close>),
    \<open>CanonicalValidation\<close> (\<open>validation/canonical_validation.py\<close>), \<open>ClaimConflicts\<close> (\<open>sources/claim_conflicts.py\<close>,
    \<open>ingestion/conflicts.py\<close>).
  \<^item> Sources: \<open>ServiceIdentity\<close>, \<open>ManifestBindings\<close>, \<open>ReferenceResolution\<close> (\<open>sources/reference_resolution.py\<close>,
    \<open>ingestion/reference_closure.py\<close>), \<open>KubernetesMapping\<close>, \<open>KubernetesClaims\<close> and \<open>KubernetesAdapter\<close>
    (\<open>sources/kubernetes_*.py\<close>, \<open>ingestion/kubernetes_adapter.py\<close>).
  \<^item> Discovery: \<open>Discovery\<close> and \<open>DiscoveryOutcomes\<close> (\<open>ingestion/orchestrator.py\<close>, \<open>sources/registry.py\<close>).  An adapter is
    a record of functions, as the registry sees it; the Kubernetes adapter is one that is modelled.
  \<^item> Import: \<open>Inventory\<close> (inventories, tombstones, removal authority, replay), \<open>ClaimReconciliation\<close>
    (\<open>sources/claim_reconciliation.py\<close>, \<open>graph/claim_planning.py\<close>), \<open>GraphStore\<close> (\<open>graph/queries.py\<close>,
    \<open>graph/writers.py\<close>: each Cypher statement is a function on the record \<open>graph_store\<close>), \<open>GraphImport\<close>
    (\<open>graph/importer.py\<close>), with the facts about a run in \<open>GraphOwnership\<close>, \<open>GraphRevision\<close> and \<open>GraphRemovals\<close>.
  \<^item> Telemetry: \<open>CorrelationBuffer\<close>, \<open>ScopedEvidence\<close>, \<open>TelemetryModel\<close>, \<open>MessagingGuards\<close>, \<open>TelemetryAdapter\<close>
    (\<open>telemetry/adapter.py\<close>) with \<open>TelemetryFacts\<close> about it; \<open>ObservationStore\<close>, \<open>UnitAccounting\<close>
    (\<open>telemetry/aggregator.py\<close>, \<open>scoped_ledger.py\<close>), \<open>TraceIngest\<close> (\<open>telemetry/ingest.py\<close>), \<open>TransitionLedger\<close>.
  \<^item> Answers: \<open>Qualification\<close> (\<open>qualification/declared_observed.py\<close>), \<open>RuntimeAnalysis\<close> (\<open>analysis/runtime.py\<close>),
    \<open>DeploymentContracts\<close>, \<open>DeploymentPaths\<close>, \<open>DeploymentReconciliation\<close> and \<open>DeploymentWindows\<close>
    (\<open>architecture_intelligence/deployment_projection.py\<close>, \<open>deployment_reconciliation.py\<close> and the contracts they use),
    with \<open>DeploymentVisibility\<close> and \<open>DeploymentRuns\<close> about whole runs, \<open>DeploymentEvidence\<close> (the evidence lookups of
    \<open>service.py\<close>), \<open>LocalityApplicability\<close> and \<open>LocalityVerdicts\<close> (\<open>scoped_applicability.py\<close>).

  How code becomes definitions.  A \<open>str\<close> is the list of its UTF-8 bytes and an \<open>int\<close> is \<open>int\<close>; Python sorts strings
  by code point, which is the order of the bytes.  A dataclass or pydantic model is a record, its validators are a
  predicate or a function into a sum, and a \<open>dict\<close> whose order or duplicates matter is an association list.  An
  exception is a value: \<open>Inl\<close> of an error or \<open>None\<close>.  A transaction function maps a store to a sum; the object state
  of the correlation buffer is passed and returned.  An instant is its microseconds since 1970-01-01 UTC.  SHA-256,
  \<open>unicodedata\<close>, \<open>datetime.fromisoformat\<close>, \<open>repr\<close>, the RFC 8785 encoder, PyYAML, the file system, the clock and the
  adapters that are not modelled are arguments of the definitions; statements about ids either end in an explicit
  collision of the digest or assume that the digests of one run do not collide (\<open>collision_free\<close>).

  What the theorems show.

  \<^item> A committed run: the sequential transaction over the sources refines one simultaneous step of ownership
    (\<open>committed_run_ownership\<close>, \<open>ownership_as_planned\<close>); it commits only what passed its gates
    (\<open>eligible_run_is_clean\<close>, \<open>committed_run_passed_its_gates\<close>); it never changes a node without advancing the revision
    by what it reports (\<open>run_node_change_advances_revision\<close>); it removes exactly the sources it has authority over
    (\<open>run_removes_exactly\<close>); and discovery reports for each source what its adapter made of it
    (\<open>one_outcome_per_source\<close>).  The planner's side is \<open>reconciliation_plan_partition\<close> and
    \<open>co_owner_expiry_order_independent\<close>.
  \<^item> The model: \<open>validation_accepts_exactly_well_formed\<close>, \<open>merge_claims_union_evidence\<close>,
    \<open>service_identity_decided_by_evidence\<close>, \<open>pointer_round_trip\<close>.
  \<^item> Documents: an accepted reference closure is complete, acyclic, contained and within its limits, and a reported
    cycle is one (\<open>accepted_closure_sound\<close>, \<open>reported_cycle_is_real\<close>); an accepted Kubernetes source yields a
    well-formed model, its lookups cannot fail and its owner walk ends with the specified verdict
    (\<open>kubernetes_outcome_sound\<close>, \<open>kubernetes_lookups_succeed\<close>, \<open>owner_walk_classifies\<close>, \<open>owner_resolution_exact\<close>,
    \<open>mapped_resources_well_typed\<close>).
  \<^item> Telemetry, end to end: every adapted fact becomes a relation with its evidence (\<open>ingest_relates_facts\<close>), counts
    are exact (\<open>unit_counts_exact\<close>), a unit only extends the graph (\<open>unit_extends_graph\<close>), facts run between known or
    minted endpoints of the right label (\<open>fact_endpoints_known\<close>), pairing is exact (\<open>pairing_is_exact\<close>), the buffer
    stays within its bound (\<open>batches_keep_buffer\<close>), unseeded calls are the refusals (\<open>unseeded_calls_refused\<close>), scoped
    records equal the description of their seeds (\<open>scoped_fold_refines_record\<close>), and reports and ledger are consistent
    under concurrent commits (\<open>report_of_one_state\<close>, \<open>legacy_history_known\<close>).  Three theorems pin down defects:
    \<open>nonstring_method_fails_batch\<close>, \<open>minted_service_captures_namesake\<close>, \<open>missing_alias_target_orphans_evidence\<close>.
  \<^item> Answers: the Cypher queries agree with the qualification kernel (\<open>runtime_status_agrees_with_kernel\<close>); the
    deployment reduction gives the verdict of each group and its claims are its resolved resolutions
    (\<open>reduction_gives_verdicts\<close>, \<open>claims_are_resolved_resolutions\<close>), windows partition the rows
    (\<open>windows_partition_the_rows\<close>), runs return exactly when their rows are acceptable (\<open>run_returns_iff\<close>), what an
    answer shows can be looked up (\<open>shown_evidence_is_fetched\<close>), and a caller workload is named exactly when the
    selected captures agree on it (\<open>page_verdicts\<close>).

  Interfaces.  \<open>first_wins_index\<close> (both ways the merge fills an index), \<open>owner_key\<close> (the six owned-id formulas),
  \<open>correlation_side\<close> (the CLIENT and the SERVER store of the buffer), \<open>deterministic_step\<close> (the owner walk) and
  \<open>seed_evidence\<close> (the fold of seeds) state what a client needs of a component; each is interpreted on the model's own
  definitions in the theory of the component.

  Bounds and termination.  Recursion is structural or on what a limit leaves: the reference walk on the hops left of
  the depth limit, the owner walk on the resources not yet visited.  No function runs on fuel.  The limits of the code
  (files, bytes and depth of a closure, pending spans and their lifetime, five sample traces, windows of 31 days, the
  attempts of a stable read) are arguments or constants with the values of the code.

  Not modelled.  Neo4j itself: that a transaction which fails is rolled back (\<open>session.execute_write\<close>), that constraints
  keep ids unique and that a lock serialises writers is assumed, and \<open>import_discovery_run\<close> therefore returns the store
  it got when the transaction fails.  The text of diagnostics and log lines; the adapters other than Kubernetes, the
  discoverers and loaders, gateway and Kafka carriers (they are opaque carrier lists of the model); the OTLP decoder;
  generated Cypher and its guards; the projections and contracts of the other answers; HTTP and MCP surfaces.
\<close>

end
